(* ===== verification/Go_Prelude.thy ===== *)
theory Go_Prelude
  imports Complex_Main "HOL-Library.Sublist"
begin

text \<open>
  What every component of the development shares: the readings of Go values the model uses,
  and the generic lemmas about them.

  \<^item> \<open>gtime\<close> is a \<^verbatim>\<open>time.Time\<close>, as nanoseconds since Go's zero time, so \<open>0\<close> is
    \<^verbatim>\<open>time.Time{}\<close> (\<open>is_zero\<close> is \<^verbatim>\<open>IsZero\<close>), \<open><\<close> is \<^verbatim>\<open>Before\<close> and \<open>+\<close> is \<^verbatim>\<open>Add\<close>.
    \<open>duration\<close> is a \<^verbatim>\<open>time.Duration\<close> in nanoseconds.
  \<^item> \<open>wrap64\<close> is the two's complement wrap-around of \<^verbatim>\<open>int64\<close>; it is written out wherever the
    code multiplies or adds quantities whose size it does not bound.
  \<^item> strings are lists of bytes; \<open>trim_space\<close> is \<^verbatim>\<open>strings.TrimSpace\<close> over UTF-8 and
    \<open>to_lower\<close> is \<^verbatim>\<open>strings.ToLower\<close> on the ASCII letters and on the two non-ASCII code points
    (U+212A and U+0130) whose lower case is an ASCII letter; every use of it in the code compares
    the result with an ASCII word, which no other code point can influence.
  \<^item> \<open>map_sweep\<close> is the loop that deletes the expired entries of a Go map.
\<close>

named_theorems go_defs \<open>definitions of the small Go helpers, unfolded on demand\<close>

type_synonym gtime = int
type_synonym duration = int

section \<open>Times and durations\<close>

abbreviation zero_time :: gtime where "zero_time \<equiv> 0"

definition is_zero :: "gtime \<Rightarrow> bool" where
  [simp]: "is_zero t \<longleftrightarrow> t = 0"

definition go_second :: duration where
  [simp]: "go_second = 1000000000"

definition go_minute :: duration where
  [simp]: "go_minute = 60000000000"

definition go_hour :: duration where
  [simp]: "go_hour = 3600000000000"

section \<open>Machine integers\<close>

definition int64_max :: int where
  [simp]: "int64_max = 9223372036854775807"

definition wrap64 :: "int \<Rightarrow> int" where
  "wrap64 x = (x + 9223372036854775808) mod 18446744073709551616 - 9223372036854775808"

definition in_int64 :: "int \<Rightarrow> bool" where
  "in_int64 x \<longleftrightarrow> - 9223372036854775808 \<le> x \<and> x \<le> int64_max"

lemma wrap64_id [simp]: "in_int64 x \<Longrightarrow> wrap64 x = x"
  by (simp add: wrap64_def in_int64_def)

lemma in_int64_wrap64 [simp]: "in_int64 (wrap64 x)"
proof -
  have "0 \<le> (x + 9223372036854775808) mod 18446744073709551616" by simp
  moreover have "(x + 9223372036854775808) mod 18446744073709551616 < 18446744073709551616" by simp
  ultimately show ?thesis by (simp add: wrap64_def in_int64_def)
qed

lemma wrap64_wrap64 [simp]: "wrap64 (wrap64 x) = wrap64 x"
  by simp

lemma wrap64_add_wrap64: "wrap64 (wrap64 a + b) = wrap64 (a + b)"
  by (simp add: wrap64_def mod_simps algebra_simps)

lemma wrap64_wrap64_add: "wrap64 (a + wrap64 b) = wrap64 (a + b)"
  by (metis add.commute wrap64_add_wrap64)

lemma in_int64_nonneg: "0 \<le> x \<Longrightarrow> in_int64 x \<longleftrightarrow> x \<le> int64_max"
  by (simp add: in_int64_def)

text \<open>Go's integer division truncates towards zero.\<close>

definition go_div :: "int \<Rightarrow> int \<Rightarrow> int" where
  "go_div a b = sgn a * sgn b * (\<bar>a\<bar> div \<bar>b\<bar>)"

definition go_mod :: "int \<Rightarrow> int \<Rightarrow> int" where
  "go_mod a b = a - b * go_div a b"

lemma go_div_nonneg [simp]: "0 \<le> a \<Longrightarrow> 0 < b \<Longrightarrow> go_div a b = a div b"
  by (cases "a = 0") (simp_all add: go_div_def)

lemma go_mod_nonneg [simp]: "0 \<le> a \<Longrightarrow> 0 < b \<Longrightarrow> go_mod a b = a mod b"
  by (simp add: go_mod_def minus_mult_div_eq_mod)

text \<open>\<^verbatim>\<open>time.Duration(n) * time.Second\<close>, with the wrap-around of the multiplication.\<close>

definition seconds :: "int \<Rightarrow> duration" where
  "seconds n = wrap64 (n * go_second)"

lemma seconds_exact: "0 \<le> n \<Longrightarrow> n \<le> 9223372036 \<Longrightarrow> seconds n = n * 1000000000"
  by (simp add: seconds_def in_int64_def)

lemma seconds_pos: "0 < n \<Longrightarrow> n \<le> 9223372036 \<Longrightarrow> 0 < seconds n"
  by (simp add: seconds_exact)

lemma seconds_wraps_negative: "9223372036 < n \<Longrightarrow> n \<le> 18446744073 \<Longrightarrow> seconds n < 0"
proof -
  assume n: "9223372036 < n" "n \<le> 18446744073"
  have "(n * 1000000000 + 9223372036854775808) mod 18446744073709551616
      = (n * 1000000000 - 9223372036854775808) mod 18446744073709551616"
    by (simp add: mod_eq_dvd_iff)
  also have "\<dots> = n * 1000000000 - 9223372036854775808"
    using n by (intro mod_pos_pos_trivial) simp_all
  finally show ?thesis using n by (simp add: seconds_def wrap64_def)
qed

section \<open>Strings\<close>

fun drop_prefix :: "string \<Rightarrow> string \<Rightarrow> string option" where
  "drop_prefix [] s = Some s"
| "drop_prefix (p # ps) [] = None"
| "drop_prefix (p # ps) (c # cs) = (if p = c then drop_prefix ps cs else None)"

fun strip_one :: "string list \<Rightarrow> string \<Rightarrow> string option" where
  "strip_one [] s = None"
| "strip_one (p # ps) s = (case drop_prefix p s of Some r \<Rightarrow> Some r | None \<Rightarrow> strip_one ps s)"

function trim_with :: "string list \<Rightarrow> string \<Rightarrow> string" where
  "trim_with ps s = (case strip_one ps s of None \<Rightarrow> s
     | Some r \<Rightarrow> if length r < length s then trim_with ps r else s)"
  by pat_completeness auto
termination
  by (relation "measure (\<lambda>(ps, s). length s)") auto

declare trim_with.simps [simp del]

text \<open>The UTF-8 encodings of the code points \<^verbatim>\<open>unicode.IsSpace\<close> accepts.\<close>

definition go_spaces :: "string list" where
  "go_spaces =
    [[CHR 0x20], [CHR 0x09], [CHR 0x0A], [CHR 0x0B], [CHR 0x0C], [CHR 0x0D],
     [CHR 0xC2, CHR 0x85], [CHR 0xC2, CHR 0xA0], [CHR 0xE1, CHR 0x9A, CHR 0x80],
     [CHR 0xE2, CHR 0x80, CHR 0x80], [CHR 0xE2, CHR 0x80, CHR 0x81],
     [CHR 0xE2, CHR 0x80, CHR 0x82], [CHR 0xE2, CHR 0x80, CHR 0x83],
     [CHR 0xE2, CHR 0x80, CHR 0x84], [CHR 0xE2, CHR 0x80, CHR 0x85],
     [CHR 0xE2, CHR 0x80, CHR 0x86], [CHR 0xE2, CHR 0x80, CHR 0x87],
     [CHR 0xE2, CHR 0x80, CHR 0x88], [CHR 0xE2, CHR 0x80, CHR 0x89],
     [CHR 0xE2, CHR 0x80, CHR 0x8A], [CHR 0xE2, CHR 0x80, CHR 0xA8],
     [CHR 0xE2, CHR 0x80, CHR 0xA9], [CHR 0xE2, CHR 0x80, CHR 0xAF],
     [CHR 0xE2, CHR 0x81, CHR 0x9F], [CHR 0xE3, CHR 0x80, CHR 0x80]]"

definition trim_left :: "string \<Rightarrow> string" where
  "trim_left s = trim_with go_spaces s"

definition trim_right :: "string \<Rightarrow> string" where
  "trim_right s = rev (trim_with (map rev go_spaces) (rev s))"

definition trim_space :: "string \<Rightarrow> string" where
  "trim_space s = trim_right (trim_left s)"

lemma drop_prefix_Some: "drop_prefix p s = Some r \<longleftrightarrow> s = p @ r"
  by (induction p s rule: drop_prefix.induct) auto

lemma strip_one_Some: "strip_one ps s = Some r \<Longrightarrow> \<exists>p \<in> set ps. s = p @ r"
  by (induction ps) (auto simp: drop_prefix_Some split: option.splits)

lemma strip_one_None: "strip_one ps s = None \<longleftrightarrow> (\<forall>p \<in> set ps. \<not> prefix p s)"
proof (induction ps)
  case (Cons p ps)
  have "drop_prefix p s = None \<longleftrightarrow> \<not> prefix p s"
    by (metis drop_prefix_Some not_None_eq prefix_def)
  with Cons show ?case by (auto split: option.splits)
qed simp

lemma trim_with_fixed: "strip_one ps s = None \<Longrightarrow> trim_with ps s = s"
  by (simp add: trim_with.simps)

lemma strip_one_trim_with:
  assumes "[] \<notin> set ps"
  shows "strip_one ps (trim_with ps s) = None"
  using assms
proof (induction ps s rule: trim_with.induct)
  case (1 ps s)
  show ?case
  proof (cases "strip_one ps s")
    case None
    then show ?thesis by (simp add: trim_with_fixed)
  next
    case (Some r)
    then obtain p where "p \<in> set ps" "s = p @ r"
      using strip_one_Some by blast
    with 1(2) have "length r < length s" by (cases p) auto
    with Some 1 show ?thesis by (simp add: trim_with.simps [of ps s])
  qed
qed

lemma trim_with_suffix: "suffix (trim_with ps s) s"
proof (induction ps s rule: trim_with.induct)
  case (1 ps s)
  show ?case
  proof (cases "strip_one ps s")
    case (Some r)
    then obtain p where s: "s = p @ r" using strip_one_Some by blast
    show ?thesis
    proof (cases "length r < length s")
      case True
      with Some 1 have "suffix (trim_with ps r) r" by simp
      moreover from True Some have "trim_with ps s = trim_with ps r"
        by (simp add: trim_with.simps [of ps s])
      ultimately show ?thesis by (metis s suffix_appendI)
    qed (simp add: Some trim_with.simps [of ps s])
  qed (simp add: trim_with_fixed)
qed

lemma go_spaces_nonempty: "[] \<notin> set go_spaces" "[] \<notin> set (map rev go_spaces)"
  by (simp_all add: go_spaces_def)

lemma trim_right_prefix: "prefix (trim_right s) s"
  by (metis rev_rev_ident suffix_to_prefix trim_right_def trim_with_suffix)

lemma trim_left_trim_space [simp]: "trim_left (trim_space s) = trim_space s"
proof -
  have "strip_one go_spaces (trim_left s) = None"
    by (simp add: trim_left_def strip_one_trim_with go_spaces_nonempty)
  then have "strip_one go_spaces (trim_space s) = None"
    unfolding trim_space_def strip_one_None
    by (meson prefix_order.trans trim_right_prefix)
  then show ?thesis by (simp add: trim_left_def trim_with_fixed)
qed

lemma trim_with_idem: "[] \<notin> set ps \<Longrightarrow> trim_with ps (trim_with ps s) = trim_with ps s"
  by (rule trim_with_fixed) (rule strip_one_trim_with)

lemma trim_right_trim_right [simp]: "trim_right (trim_right s) = trim_right s"
  unfolding trim_right_def rev_rev_ident
  by (simp only: trim_with_idem [OF go_spaces_nonempty(2)])

lemma trim_space_idem [simp]: "trim_space (trim_space s) = trim_space s"
  by (metis trim_left_trim_space trim_right_trim_right trim_space_def)

lemma trim_space_Nil [simp]: "trim_space [] = []"
  by (simp add: trim_space_def trim_left_def trim_right_def trim_with.simps go_spaces_def)

lemma trim_with_Nil_chars: "trim_with ps s = [] \<Longrightarrow> set s \<subseteq> (\<Union>p \<in> set ps. set p)"
proof (induction ps s rule: trim_with.induct)
  case (1 ps s)
  show ?case
  proof (cases "strip_one ps s")
    case None
    then show ?thesis using 1(2) by (simp add: trim_with_fixed)
  next
    case (Some r)
    then obtain p where p: "p \<in> set ps" "s = p @ r" using strip_one_Some by blast
    show ?thesis
    proof (cases "length r < length s")
      case True
      then have "trim_with ps r = []" using 1(2) Some by (simp add: trim_with.simps [of ps s])
      with 1(1) [OF Some True] p show ?thesis by auto
    next
      case False
      then show ?thesis using 1(2) Some by (simp add: trim_with.simps [of ps s])
    qed
  qed
qed

lemma trim_with_prefix: "\<exists>pre. s = pre @ trim_with ps s \<and> set pre \<subseteq> (\<Union>p \<in> set ps. set p)"
proof (induction ps s rule: trim_with.induct)
  case (1 ps s)
  show ?case
  proof (cases "strip_one ps s")
    case (Some r)
    then obtain p where p: "p \<in> set ps" "s = p @ r" using strip_one_Some by blast
    show ?thesis
    proof (cases "length r < length s")
      case True
      from 1 [OF Some True] obtain pre where "r = pre @ trim_with ps r" "set pre \<subseteq> (\<Union>p \<in> set ps. set p)" by blast
      moreover have "trim_with ps s = trim_with ps r" using Some True by (simp add: trim_with.simps [of ps s])
      ultimately show ?thesis using p by (intro exI [of _ "p @ pre"]) auto
    qed (simp add: Some trim_with.simps [of ps s])
  qed (simp add: trim_with_fixed)
qed

lemma trim_space_keeps:
  assumes "c \<in> set s" "\<forall>p \<in> set go_spaces. c \<notin> set p"
  shows "trim_space s \<noteq> []"
proof
  assume blank: "trim_space s = []"
  have "set (trim_left s) \<subseteq> (\<Union>p \<in> set go_spaces. set p)"
    using trim_with_Nil_chars [of "map rev go_spaces" "rev (trim_left s)"] blank
    by (simp add: trim_space_def trim_right_def)
  moreover have "c \<in> set (trim_left s)"
  proof -
    have "\<exists>pre. s = pre @ trim_left s \<and> set pre \<subseteq> (\<Union>p \<in> set go_spaces. set p)"
      unfolding trim_left_def by (rule trim_with_prefix)
    then obtain pre where pre: "s = pre @ trim_left s" "set pre \<subseteq> (\<Union>p \<in> set go_spaces. set p)" by blast
    from assms(1) have "c \<in> set pre \<union> set (trim_left s)" by (metis pre(1) set_append)
    with pre(2) assms(2) show ?thesis by blast
  qed
  ultimately show False using assms(2) by auto
qed

text \<open>The equations that compute \<open>trim_space\<close> on a literal.\<close>

lemmas trim_eval = trim_space_def trim_left_def trim_right_def trim_with.simps go_spaces_def

text \<open>Lower case.\<close>

definition lower_ascii :: "char \<Rightarrow> char" where
  "lower_ascii c =
     (let n = of_char c :: nat in if 65 \<le> n \<and> n \<le> 90 then char_of (n + 32) else c)"

function to_lower :: "string \<Rightarrow> string" where
  "to_lower s = (case s of [] \<Rightarrow> []
     | c # cs \<Rightarrow>
         (case drop_prefix [CHR 0xE2, CHR 0x84, CHR 0xAA] s of
            Some r \<Rightarrow> CHR ''k'' # to_lower r
          | None \<Rightarrow>
              (case drop_prefix [CHR 0xC4, CHR 0xB0] s of
                 Some r \<Rightarrow> CHR ''i'' # to_lower r
               | None \<Rightarrow> lower_ascii c # to_lower cs)))"
  by pat_completeness auto
termination
  by (relation "measure length") (auto simp: drop_prefix_Some simp del: drop_prefix.simps)

declare to_lower.simps [simp del]

definition has_prefix :: "string \<Rightarrow> string \<Rightarrow> bool" where
  "has_prefix s p \<longleftrightarrow> drop_prefix p s \<noteq> None"

lemma has_prefix_iff: "has_prefix s p \<longleftrightarrow> prefix p s"
  by (metis drop_prefix_Some has_prefix_def not_None_eq prefix_def)

fun contains_sub :: "string \<Rightarrow> string \<Rightarrow> bool" where
  "contains_sub [] sub = (sub = [])"
| "contains_sub (c # cs) sub = (has_prefix (c # cs) sub \<or> contains_sub cs sub)"

lemma contains_sub_iff: "contains_sub s sub \<longleftrightarrow> sublist sub s"
proof (induction s)
  case (Cons c cs)
  then show ?case by (auto simp: has_prefix_iff sublist_Cons_right)
qed simp

text \<open>Decimal notation, as \<^verbatim>\<open>%d\<close> prints a non-negative number.\<close>

fun dec :: "nat \<Rightarrow> string" where
  "dec n = (if n < 10 then [char_of (48 + n)] else dec (n div 10) @ [char_of (48 + n mod 10)])"

declare dec.simps [simp del]

lemma dec_char: "c \<in> set (dec n) \<Longrightarrow> of_char c \<in> {48..57::nat}"
proof (induction n rule: dec.induct)
  case (1 n)
  show ?case
  proof (cases "n < 10")
    case True
    with 1 show ?thesis by (auto simp: dec.simps [of n])
  next
    case False
    moreover have "n mod 10 < 10" by simp
    ultimately show ?thesis using 1 by (auto simp: dec.simps [of n] simp del: mod_less_divisor)
  qed
qed

lemma colon_notin_dec: "CHR '':'' \<notin> set (dec n)"
  using dec_char [of "CHR '':''" n] by auto

lemma dec_nonempty [simp]: "dec n \<noteq> []"
  by (subst dec.simps) simp

lemma dec_length_one: "length (dec n) = 1 \<longleftrightarrow> n < 10"
proof (cases "n < 10")
  case False
  have "dec (n div 10) \<noteq> []" by (subst dec.simps) simp
  with False show ?thesis by (simp add: dec.simps [of n])
qed (simp add: dec.simps)

lemma char_of_digit_inj: "a < 10 \<Longrightarrow> b < 10 \<Longrightarrow> (char_of (48 + a) :: char) = char_of (48 + b) \<Longrightarrow> a = (b::nat)"
proof -
  assume ab: "a < 10" "b < 10" and eq: "(char_of (48 + a) :: char) = char_of (48 + b)"
  from eq have "(of_char (char_of (48 + a) :: char) :: nat) = of_char (char_of (48 + b) :: char)"
    by simp
  with ab show "a = b" by (simp only: of_char_of) simp
qed

lemma dec_inj: "dec m = dec n \<longleftrightarrow> m = n"
proof
  show "dec m = dec n \<Longrightarrow> m = n"
  proof (induction m arbitrary: n rule: dec.induct)
    case (1 m)
    show ?case
    proof (cases "m < 10")
      case True
      then have "n < 10" using 1(2) dec_length_one by metis
      with True 1(2) show ?thesis by (auto simp: dec.simps [of m] dec.simps [of n] dest: char_of_digit_inj)
    next
      case False
      then have "\<not> n < 10" using 1(2) dec_length_one by metis
      with False 1 have "m div 10 = n div 10" "m mod 10 = n mod 10"
        by (auto simp: dec.simps [of m] dec.simps [of n] dest: char_of_digit_inj [rotated 2])
      then show ?thesis by (metis mult_div_mod_eq)
    qed
  qed
qed simp

text \<open>\<^verbatim>\<open>strconv.FormatInt(n, 10)\<close>.\<close>

definition dec_int :: "int \<Rightarrow> string" where
  "dec_int n = (if n < 0 then ''-'' @ dec (nat (- n)) else dec (nat n))"

text \<open>\<^verbatim>\<open>strconv.ParseInt(value, 10, 64)\<close> with its error dropped: 0 on a syntax error, the nearest
  bound when out of range.\<close>

definition digit_val :: "char \<Rightarrow> nat" where
  "digit_val ch = of_char ch - 48"

definition is_digit :: "char \<Rightarrow> bool" where
  "is_digit ch \<longleftrightarrow> 48 \<le> (of_char ch :: nat) \<and> (of_char ch :: nat) \<le> 57"

definition digits_val :: "string \<Rightarrow> nat" where
  "digits_val s = foldl (\<lambda>n ch. n * 10 + digit_val ch) 0 s"

definition parse_int64 :: "string \<Rightarrow> int" where
  "parse_int64 s =
     (let (neg, ds) = (case s of ch # r \<Rightarrow> if ch = CHR ''-'' then (True, r)
             else if ch = CHR ''+'' then (False, r) else (False, s) | [] \<Rightarrow> (False, s))
      in if ds = [] \<or> \<not> list_all is_digit ds then 0
         else if neg then max (- 9223372036854775808) (- int (digits_val ds))
         else min int64_max (int (digits_val ds)))"

lemma digit_val_char: "d < 10 \<Longrightarrow> digit_val (char_of (48 + d)) = d"
  by (simp add: digit_val_def)

lemma dec_digits: "list_all is_digit (dec n)"
  using dec_char [of _ n] by (auto simp: list_all_iff is_digit_def)

lemma digits_val_dec: "digits_val (dec n) = n"
proof (induction n rule: dec.induct)
  case (1 n)
  show ?case
  proof (cases "n < 10")
    case True
    then show ?thesis by (simp add: dec.simps [of n] digits_val_def digit_val_char)
  next
    case False
    with 1 show ?thesis
      by (simp add: dec.simps [of n] digits_val_def digit_val_char div_mult_mod_eq)
  qed
qed

lemma digit_not_special: "is_digit ch \<Longrightarrow> ch \<noteq> CHR ''-'' \<and> ch \<noteq> CHR ''+''"
  by (auto simp: is_digit_def)

lemma parse_int64_dec: "int n \<le> int64_max \<Longrightarrow> parse_int64 (dec n) = int n"
proof -
  assume n: "int n \<le> int64_max"
  obtain ch r where d: "dec n = ch # r" by (cases "dec n") auto
  moreover have "is_digit ch" using dec_digits [of n] d by simp
  ultimately show ?thesis
    using n dec_digits [of n] digits_val_dec [of n] digit_not_special [of ch]
    by (simp add: parse_int64_def)
qed

text \<open>\<^verbatim>\<open>strconv.Atoi\<close>: \<open>None\<close> is its error.\<close>

definition atoi :: "string \<Rightarrow> int option" where
  "atoi s =
     (let (neg, ds) = (case s of ch # r \<Rightarrow> if ch = CHR ''-'' then (True, r)
             else if ch = CHR ''+'' then (False, r) else (False, s) | [] \<Rightarrow> (False, s));
          v = (if neg then - int (digits_val ds) else int (digits_val ds))
      in if ds = [] \<or> \<not> list_all is_digit ds \<or> \<not> in_int64 v then None else Some v)"

text \<open>
  The conversion \<^verbatim>\<open>[]rune(s)\<close>, each rune as its UTF-8 encoding: an invalid byte is U+FFFD.
\<close>

definition in_range :: "nat \<Rightarrow> nat \<Rightarrow> char \<Rightarrow> bool" where
  "in_range a b ch \<longleftrightarrow> a \<le> of_char ch \<and> of_char ch \<le> b"

definition rune_tail :: "char \<Rightarrow> (nat \<times> nat) list" where
  "rune_tail ch =
     (let c80 = (0x80, 0xBF) in
      if in_range 0xC2 0xDF ch then [c80]
      else if in_range 0xE0 0xE0 ch then [(0xA0, 0xBF), c80]
      else if in_range 0xED 0xED ch then [(0x80, 0x9F), c80]
      else if in_range 0xE1 0xEF ch then [c80, c80]
      else if in_range 0xF0 0xF0 ch then [(0x90, 0xBF), c80, c80]
      else if in_range 0xF1 0xF3 ch then [c80, c80, c80]
      else if in_range 0xF4 0xF4 ch then [(0x80, 0x8F), c80, c80]
      else [])"

fun fits_tail :: "(nat \<times> nat) list \<Rightarrow> string \<Rightarrow> bool" where
  "fits_tail [] s = True"
| "fits_tail (r # rs) [] = False"
| "fits_tail ((a, b) # rs) (ch # s) = (in_range a b ch \<and> fits_tail rs s)"

function go_runes :: "string \<Rightarrow> string list" where
  "go_runes s = (case s of [] \<Rightarrow> []
     | ch # r \<Rightarrow>
         if of_char ch < (0x80 :: nat) then [ch] # go_runes r
         else if rune_tail ch \<noteq> [] \<and> fits_tail (rune_tail ch) r
         then (ch # take (length (rune_tail ch)) r) # go_runes (drop (length (rune_tail ch)) r)
         else [CHR 0xEF, CHR 0xBF, CHR 0xBD] # go_runes r)"
  by pat_completeness auto
termination
  by (relation "measure length") auto

declare go_runes.simps [simp del]

section \<open>Maps\<close>

definition map_sweep :: "('k \<Rightarrow> 'v \<Rightarrow> bool) \<Rightarrow> ('k \<rightharpoonup> 'v) \<Rightarrow> ('k \<rightharpoonup> 'v)" where
  "map_sweep dead m = (\<lambda>k. case m k of None \<Rightarrow> None | Some v \<Rightarrow> if dead k v then None else Some v)"

lemma map_sweep_apply: "map_sweep dead m k = (case m k of None \<Rightarrow> None | Some v \<Rightarrow> if dead k v then None else Some v)"
  by (simp add: map_sweep_def)

lemma map_sweep_Some [simp]: "map_sweep dead m k = Some v \<longleftrightarrow> m k = Some v \<and> \<not> dead k v"
  by (auto simp: map_sweep_def split: option.splits)

lemma map_sweep_None [simp]: "map_sweep dead m k = None \<longleftrightarrow> (\<forall>v. m k = Some v \<longrightarrow> dead k v)"
  by (auto simp: map_sweep_def split: option.splits)

lemma dom_map_sweep: "dom (map_sweep dead m) \<subseteq> dom m"
  by (auto simp: map_sweep_def dom_def split: option.splits if_splits)

definition map_delete :: "'k \<Rightarrow> ('k \<rightharpoonup> 'v) \<Rightarrow> ('k \<rightharpoonup> 'v)" where
  [simp]: "map_delete k m = m(k := None)"

section \<open>Upper case\<close>

definition upper_ascii :: "char \<Rightarrow> char" where
  "upper_ascii c = (let n = of_char c :: nat in if 97 \<le> n \<and> n \<le> 122 then char_of (n - 32) else c)"

text \<open>
  \<^verbatim>\<open>strings.ToUpper\<close> on ASCII and on the two other code points whose upper case is an ASCII letter;
  other letters are kept.
\<close>

function to_upper :: "string \<Rightarrow> string" where
  "to_upper s = (case s of [] \<Rightarrow> []
     | c # cs \<Rightarrow>
         (case drop_prefix [CHR 0xC4, CHR 0xB1] s of
            Some r \<Rightarrow> CHR ''I'' # to_upper r
          | None \<Rightarrow>
              (case drop_prefix [CHR 0xC5, CHR 0xBF] s of
                 Some r \<Rightarrow> CHR ''S'' # to_upper r
               | None \<Rightarrow> upper_ascii c # to_upper cs)))"
  by pat_completeness auto
termination
  by (relation "measure length") (auto simp: drop_prefix_Some simp del: drop_prefix.simps)

declare to_upper.simps [simp del]

end
