(* ===== verification/Memory_Cache.thy ===== *)
theory Memory_Cache
  imports Go_Prelude
begin

text \<open>
  The single-process cache backend, \<^verbatim>\<open>backend/internal/infra/cache/memory\<close>: its state
  (\<^verbatim>\<open>cache.go\<close> and the entry types of the other files) and the maintenance sweep that every
  mutating operation may run (\<^verbatim>\<open>maintenance.go\<close>).

  Every operation of the package holds \<^verbatim>\<open>Cache.mu\<close> from its first access to its last, so one
  operation is one step on the \<open>cache\<close> record. Each \<^verbatim>\<open>time.Now()\<close> the operation reads is
  an argument, in the order of the readings. A notification channel that the code closes and
  replaces is a counter (its generation): a reader that captured generation \<open>g\<close> is woken
  exactly when the generation has moved on.
\<close>

section \<open>Entries\<close>

record circuit_state =
  openUntil :: gtime
  probeUntil :: gtime
  failures :: "gtime list"
  manualOpen :: bool
  lastFailure :: gtime

definition new_circuit :: circuit_state where
  "new_circuit = \<lparr>openUntil = 0, probeUntil = 0, failures = [], manualOpen = False, lastFailure = 0\<rparr>"

record upstream_metadata =
  um_lastError :: string
  um_lastFailure :: gtime
  um_lastSuccess :: gtime

record rate_limit_state =
  backoffUntil :: gtime
  backoffCount :: int
  countExpires :: gtime

record api_key_counter =
  next_index :: int
  lastUsed :: gtime

record fixed_window_counter =
  fw_count :: int
  fw_expiresAt :: gtime

record expiring_string =
  es_value :: string
  es_expiresAt :: gtime

record rag_chunk =
  rc_content :: string
  rc_fileName :: string
  rc_fileID :: string
  rc_chunkIndex :: int
  rc_score :: real

record expiring_rag =
  er_chunks :: "rag_chunk list"
  er_expiresAt :: gtime

record file_message =
  fm_ID :: string
  fm_UserID :: nat
  fm_FileID :: string
  fm_Retry :: int
  fm_LastError :: string
  fm_Reclaimed :: bool

record file_lease =
  fl_consumerName :: string
  fl_leasedAt :: gtime
  fl_message :: file_message

record stream_message =
  sm_ID :: string
  sm_Seq :: int
  sm_PayloadJSON :: string

record generation_stream =
  gs_ownerID :: nat
  gs_conversationID :: string
  gs_ownerExpiresAt :: gtime
  gs_activeExpiresAt :: gtime
  gs_cancelExpiresAt :: gtime
  gs_eventsExpiresAt :: gtime
  gs_seq :: int
  gs_events :: "stream_message list"
  gs_textContent :: string
  gs_textSeq :: int
  gs_notify :: nat

record auth_transaction =
  at_ProviderSlug :: string
  at_ClientID :: string
  at_ClientRedirectURI :: string
  at_ClientState :: string
  at_ClientCodeChallenge :: string
  at_ProviderCodeVerifier :: string
  at_Intent :: string
  at_RegistrationCode :: string
  at_Next :: string
  at_ExpiresAt :: gtime

record auth_grant =
  ag_ProviderSlug :: string
  ag_ClientID :: string
  ag_UserID :: nat
  ag_Subject :: string
  ag_RegistrationCode :: string
  ag_ErrorCode :: string
  ag_ErrorMessage :: string
  ag_ErrorDetails :: string
  ag_ExpiresAt :: gtime

text \<open>An entry with its own expiry, for the two one-time stores of the provider auth bridge.\<close>

record 'a expiring =
  ex_value :: 'a
  ex_expiresAt :: gtime

section \<open>The cache\<close>

record cache =
  ops :: nat
  settings :: "string \<rightharpoonup> expiring_string"
  userSettings :: "string \<rightharpoonup> expiring_string"
  userSettingVersions :: "string \<rightharpoonup> expiring_string"
  fileSeq :: nat
  fileQueue :: "file_message list"
  fileInflight :: "string \<rightharpoonup> file_lease"
  fileDLQ :: "file_message list"
  fileNotify :: nat
  rag :: "string \<rightharpoonup> expiring_rag"
  streams :: "string \<rightharpoonup> generation_stream"
  streamNotify :: nat
  upstreamCB :: "nat \<rightharpoonup> circuit_state"
  modelCB :: "string \<rightharpoonup> circuit_state"
  upstreamMeta :: "nat \<rightharpoonup> upstream_metadata"
  rateLimits :: "nat \<times> nat \<rightharpoonup> rate_limit_state"
  keyCounters :: "nat \<rightharpoonup> api_key_counter"
  slidingHTTP :: "string \<rightharpoonup> gtime list"
  fixedHTTP :: "string \<rightharpoonup> fixed_window_counter"
  authTransactions :: "string \<rightharpoonup> auth_transaction expiring"
  authGrants :: "string \<rightharpoonup> auth_grant expiring"

definition new_cache :: cache where
  "new_cache = \<lparr>ops = 0, settings = Map.empty, userSettings = Map.empty,
     userSettingVersions = Map.empty, fileSeq = 0, fileQueue = [], fileInflight = Map.empty,
     fileDLQ = [], fileNotify = 0, rag = Map.empty, streams = Map.empty, streamNotify = 0,
     upstreamCB = Map.empty, modelCB = Map.empty, upstreamMeta = Map.empty,
     rateLimits = Map.empty, keyCounters = Map.empty, slidingHTTP = Map.empty,
     fixedHTTP = Map.empty, authTransactions = Map.empty, authGrants = Map.empty\<rparr>"

definition ttl_from :: "gtime \<Rightarrow> duration \<Rightarrow> gtime" where
  "ttl_from now ttl = (if ttl \<le> 0 then now + go_minute else now + ttl)"

definition expired_at :: "gtime \<Rightarrow> gtime \<Rightarrow> bool" where
  "expired_at now t \<longleftrightarrow> \<not> is_zero t \<and> now > t"

lemma ttl_from_future [simp]: "now < ttl_from now ttl"
  by (simp add: ttl_from_def)

section \<open>Maintenance\<close>

definition maintenance_interval :: nat where "maintenance_interval = 256"
definition sliding_window_retention :: duration where
  "sliding_window_retention = 10 * go_minute"
definition circuit_metadata_retention :: duration where
  "circuit_metadata_retention = 30 * go_minute"
definition circuit_state_retention :: duration where
  "circuit_state_retention = 2 * go_hour"
definition key_counter_retention :: duration where
  "key_counter_retention = 24 * go_hour"
definition circuit_manual_open_duration :: duration where
  "circuit_manual_open_duration = 24 * go_hour"
definition circuit_probe_ttl :: duration where
  "circuit_probe_ttl = 30 * go_second"

lemmas retention_defs = sliding_window_retention_def circuit_metadata_retention_def
  circuit_state_retention_def key_counter_retention_def circuit_manual_open_duration_def
  circuit_probe_ttl_def

definition owner_expired :: "generation_stream \<Rightarrow> gtime \<Rightarrow> bool" where
  "owner_expired s now \<longleftrightarrow> is_zero (gs_ownerExpiresAt s) \<or> now > gs_ownerExpiresAt s"
definition active_expired :: "generation_stream \<Rightarrow> gtime \<Rightarrow> bool" where
  "active_expired s now \<longleftrightarrow> is_zero (gs_activeExpiresAt s) \<or> now > gs_activeExpiresAt s"
definition cancel_expired :: "generation_stream \<Rightarrow> gtime \<Rightarrow> bool" where
  "cancel_expired s now \<longleftrightarrow> is_zero (gs_cancelExpiresAt s) \<or> now > gs_cancelExpiresAt s"
definition events_expired :: "generation_stream \<Rightarrow> gtime \<Rightarrow> bool" where
  "events_expired s now \<longleftrightarrow> is_zero (gs_eventsExpiresAt s) \<or> now > gs_eventsExpiresAt s"

lemmas stream_expiry_defs =
  owner_expired_def active_expired_def cancel_expired_def events_expired_def

definition stream_dead :: "gtime \<Rightarrow> generation_stream \<Rightarrow> bool" where
  "stream_dead now s \<longleftrightarrow>
     owner_expired s now \<and> active_expired s now \<and> cancel_expired s now \<and> events_expired s now"

definition circuit_state_expired :: "circuit_state \<Rightarrow> gtime \<Rightarrow> bool" where
  "circuit_state_expired s now \<longleftrightarrow>
     (if \<not> is_zero (openUntil s) \<and> now < openUntil s + circuit_probe_ttl then False
      else if now < probeUntil s then False
      else if \<not> is_zero (lastFailure s) \<and> now < lastFailure s + circuit_state_retention then False
      else True)"

definition latest :: "gtime \<Rightarrow> gtime \<Rightarrow> gtime" where
  "latest a b = (if a > b then a else b)"

definition meta_dead :: "gtime \<Rightarrow> upstream_metadata \<Rightarrow> bool" where
  "meta_dead now m \<longleftrightarrow>
     \<not> (is_zero (um_lastFailure m) \<and> is_zero (um_lastSuccess m)) \<and>
     latest (um_lastFailure m) (um_lastSuccess m) < now - circuit_metadata_retention"

definition sweep_sliding :: "gtime \<Rightarrow> (string \<rightharpoonup> gtime list) \<Rightarrow> (string \<rightharpoonup> gtime list)" where
  "sweep_sliding now m =
     (\<lambda>k. case m k of None \<Rightarrow> None
        | Some events \<Rightarrow>
            (let kept = filter (\<lambda>e. e > now - sliding_window_retention) events
             in if kept = [] then None else Some kept))"

definition sweep_expired :: "gtime \<Rightarrow> cache \<Rightarrow> cache" where
  "sweep_expired now c = c\<lparr>
     settings := map_sweep (\<lambda>_ e. now > es_expiresAt e) (settings c),
     userSettings := map_sweep (\<lambda>_ e. now > es_expiresAt e) (userSettings c),
     userSettingVersions := map_sweep (\<lambda>_ e. now > es_expiresAt e) (userSettingVersions c),
     rag := map_sweep (\<lambda>_ e. now > er_expiresAt e) (rag c),
     streams := map_sweep (\<lambda>_. stream_dead now) (streams c),
     fixedHTTP := map_sweep (\<lambda>_ e. now > fw_expiresAt e) (fixedHTTP c),
     authTransactions := map_sweep (\<lambda>_ e. now > ex_expiresAt e) (authTransactions c),
     authGrants := map_sweep (\<lambda>_ e. now > ex_expiresAt e) (authGrants c),
     slidingHTTP := sweep_sliding now (slidingHTTP c),
     rateLimits := map_sweep (\<lambda>_ e. now > backoffUntil e \<and> now > countExpires e) (rateLimits c),
     upstreamMeta := map_sweep (\<lambda>_. meta_dead now) (upstreamMeta c),
     upstreamCB := map_sweep (\<lambda>_ s. circuit_state_expired s now) (upstreamCB c),
     modelCB := map_sweep (\<lambda>_ s. circuit_state_expired s now) (modelCB c),
     keyCounters := map_sweep (\<lambda>_ e. lastUsed e < now - key_counter_retention) (keyCounters c)\<rparr>"

definition maybe_sweep :: "gtime \<Rightarrow> cache \<Rightarrow> cache" where
  "maybe_sweep now c =
     (let c' = c\<lparr>ops := (ops c + 1) mod 2 ^ 64\<rparr>
      in if ops c' mod maintenance_interval \<noteq> 0 then c' else sweep_expired now c')"

text \<open>
  What a component needs to know of the sweep: on each field it is either the identity or the
  field's own sweep, and it never touches the file queue.
\<close>

definition sweeps :: "gtime \<Rightarrow> cache \<Rightarrow> bool" where
  "sweeps now c \<longleftrightarrow> (ops c + 1) mod 2 ^ 64 mod maintenance_interval = 0"

lemma maybe_sweep_fields:
  "settings (maybe_sweep now c) = (if sweeps now c then map_sweep (\<lambda>_ e. now > es_expiresAt e) (settings c) else settings c)"
  "userSettings (maybe_sweep now c) = (if sweeps now c then map_sweep (\<lambda>_ e. now > es_expiresAt e) (userSettings c) else userSettings c)"
  "userSettingVersions (maybe_sweep now c) = (if sweeps now c then map_sweep (\<lambda>_ e. now > es_expiresAt e) (userSettingVersions c) else userSettingVersions c)"
  "rag (maybe_sweep now c) = (if sweeps now c then map_sweep (\<lambda>_ e. now > er_expiresAt e) (rag c) else rag c)"
  "streams (maybe_sweep now c) = (if sweeps now c then map_sweep (\<lambda>_. stream_dead now) (streams c) else streams c)"
  "fixedHTTP (maybe_sweep now c) = (if sweeps now c then map_sweep (\<lambda>_ e. now > fw_expiresAt e) (fixedHTTP c) else fixedHTTP c)"
  "authTransactions (maybe_sweep now c) = (if sweeps now c then map_sweep (\<lambda>_ e. now > ex_expiresAt e) (authTransactions c) else authTransactions c)"
  "authGrants (maybe_sweep now c) = (if sweeps now c then map_sweep (\<lambda>_ e. now > ex_expiresAt e) (authGrants c) else authGrants c)"
  "slidingHTTP (maybe_sweep now c) = (if sweeps now c then sweep_sliding now (slidingHTTP c) else slidingHTTP c)"
  "rateLimits (maybe_sweep now c) = (if sweeps now c then map_sweep (\<lambda>_ e. now > backoffUntil e \<and> now > countExpires e) (rateLimits c) else rateLimits c)"
  "upstreamMeta (maybe_sweep now c) = (if sweeps now c then map_sweep (\<lambda>_. meta_dead now) (upstreamMeta c) else upstreamMeta c)"
  "upstreamCB (maybe_sweep now c) = (if sweeps now c then map_sweep (\<lambda>_ s. circuit_state_expired s now) (upstreamCB c) else upstreamCB c)"
  "modelCB (maybe_sweep now c) = (if sweeps now c then map_sweep (\<lambda>_ s. circuit_state_expired s now) (modelCB c) else modelCB c)"
  "keyCounters (maybe_sweep now c) = (if sweeps now c then map_sweep (\<lambda>_ e. lastUsed e < now - key_counter_retention) (keyCounters c) else keyCounters c)"
  by (simp_all add: maybe_sweep_def sweep_expired_def sweeps_def Let_def)

lemma maybe_sweep_untouched [simp]:
  "fileSeq (maybe_sweep now c) = fileSeq c"
  "fileQueue (maybe_sweep now c) = fileQueue c"
  "fileInflight (maybe_sweep now c) = fileInflight c"
  "fileDLQ (maybe_sweep now c) = fileDLQ c"
  "fileNotify (maybe_sweep now c) = fileNotify c"
  "streamNotify (maybe_sweep now c) = streamNotify c"
  by (simp_all add: maybe_sweep_def sweep_expired_def Let_def)

section \<open>Stores whose readers ignore expired entries\<close>

text \<open>
  The contract between the sweep and a store of the cache: a reader at time \<open>t\<close> sees of an
  entry only \<open>view t e\<close>, and the sweep at an earlier time removes only entries whose view is
  already that of an absent key, for good. Then sweeping is invisible to every later reader.
\<close>

locale swept_store =
  fixes dead :: "gtime \<Rightarrow> 'v \<Rightarrow> bool"
    and view :: "gtime \<Rightarrow> 'v option \<Rightarrow> 'r"
  assumes dead_view: "0 \<le> now \<Longrightarrow> dead now v \<Longrightarrow> now < t \<Longrightarrow> view t (Some v) = view t None"
begin

lemma sweep_invisible:
  "0 \<le> now \<Longrightarrow> now < t \<Longrightarrow> view t (map_sweep (\<lambda>_. dead now) m k) = view t (m k)"
  by (cases "m k") (auto simp: map_sweep_apply dead_view)

lemma maybe_invisible:
  "0 \<le> now \<Longrightarrow> now < t \<Longrightarrow> view t ((if b then map_sweep (\<lambda>_. dead now) m else m) k) = view t (m k)"
  by (simp add: sweep_invisible)

end

end
