(* ===== verification/Circuit_Breaker.thy ===== *)
theory Circuit_Breaker
  imports Memory_Cache
begin

text \<open>
  The two-level circuit breaker of the in-memory cache
  (\<^verbatim>\<open>backend/internal/infra/cache/memory/channel.go\<close>) with its default parameters
  (\<^verbatim>\<open>domain/channel/breaker_defaults.go\<close>, \<^verbatim>\<open>shared/channelconfig/breaker_defaults.go\<close>).
  A circuit is closed, open until a time, or half open for \<open>circuit_probe_ttl\<close> after that
  time, when one probe at a time is admitted. The locale \<open>circuit_store\<close> is the interface the
  route resolution uses; it is interpreted on the upstream circuits and on the model circuits.
\<close>

datatype circuit_status = Closed | Opened | HalfOpenDenied | HalfOpenGranted

section \<open>Checking a circuit\<close>

definition close_circuit :: "circuit_state \<Rightarrow> circuit_state" where
  "close_circuit s = s\<lparr>openUntil := zero_time, probeUntil := zero_time, manualOpen := False\<rparr>"

definition check_circuit_state_locked ::
    "gtime \<Rightarrow> circuit_state option \<Rightarrow> circuit_state option \<times> circuit_status" where
  "check_circuit_state_locked now st =
     (case st of
        None \<Rightarrow> (None, Closed)
      | Some s \<Rightarrow>
          if manualOpen s then
            (if now < openUntil s then (Some s, Opened) else (Some (close_circuit s), Closed))
          else if now < openUntil s then (Some s, Opened)
          else if \<not> is_zero (openUntil s) then
            (if now > openUntil s + circuit_probe_ttl then (Some (close_circuit s), Closed)
             else if now < probeUntil s then (Some s, HalfOpenDenied)
             else (Some (s\<lparr>probeUntil := now + circuit_probe_ttl\<rparr>), HalfOpenGranted))
          else (Some s, Closed))"

definition model_circuit_key :: "nat \<Rightarrow> string \<Rightarrow> string" where
  "model_circuit_key upstreamID modelKey = dec upstreamID @ '':'' @ trim_space modelKey"

definition check_upstream_circuit_state :: "gtime \<Rightarrow> nat \<Rightarrow> cache \<Rightarrow> cache \<times> circuit_status" where
  "check_upstream_circuit_state now u c =
     (let (s', r) = check_circuit_state_locked now (upstreamCB c u)
      in (c\<lparr>upstreamCB := (upstreamCB c)(u := s')\<rparr>, r))"

definition check_model_circuit_state ::
    "gtime \<Rightarrow> nat \<Rightarrow> string \<Rightarrow> cache \<Rightarrow> cache \<times> circuit_status" where
  "check_model_circuit_state now u modelKey c =
     (let k = model_circuit_key u modelKey;
          (s', r) = check_circuit_state_locked now (modelCB c k)
      in (c\<lparr>modelCB := (modelCB c)(k := s')\<rparr>, r))"

section \<open>Recording failures\<close>

record circuit_failure_input =
  cf_UpstreamID :: nat
  cf_ModelKey :: string
  cf_ModelWindowSec :: int
  cf_ModelFailureThreshold :: int
  cf_ModelDurationSec :: int
  cf_UpstreamWindowSec :: int
  cf_UpstreamFailureThreshold :: int
  cf_UpstreamModelThreshold :: int
  cf_UpstreamThresholdLogic :: string
  cf_UpstreamDurationSec :: int
  cf_ActiveModelKeys :: "string list"

definition record_failure :: "gtime \<Rightarrow> duration \<Rightarrow> circuit_state \<Rightarrow> circuit_state" where
  "record_failure now window s =
     (let window = (if window \<le> 0 then 5 * go_minute else window);
          cutoff = now - window
      in s\<lparr>failures := filter (\<lambda>t. t > cutoff) (failures s) @ [now], lastFailure := now\<rparr>)"

definition should_trip :: "circuit_state \<Rightarrow> int \<Rightarrow> bool" where
  "should_trip s threshold \<longleftrightarrow> threshold > 0 \<and> int (length (failures s)) \<ge> threshold"

fun open_model_count ::
    "(string \<rightharpoonup> circuit_state) \<Rightarrow> nat \<Rightarrow> gtime \<Rightarrow> string list \<Rightarrow> string list \<Rightarrow> int" where
  "open_model_count m u now seen [] = 0"
| "open_model_count m u now seen (modelKey # rest) =
     (let key = model_circuit_key u modelKey in
      if key \<in> set seen then open_model_count m u now seen rest
      else (case m key of
              Some s \<Rightarrow> if now < openUntil s then 1 else 0
            | None \<Rightarrow> 0) + open_model_count m u now (key # seen) rest)"

definition should_trip_upstream :: "bool \<Rightarrow> int \<Rightarrow> bool \<Rightarrow> int \<Rightarrow> string \<Rightarrow> bool" where
  "should_trip_upstream failMet failThreshold modelMet modelThreshold logic =
     (if trim_space logic = ''and'' then
        (if failThreshold > 0 \<and> modelThreshold > 0 then failMet \<and> modelMet
         else if failThreshold > 0 then failMet
         else if modelThreshold > 0 then modelMet
         else False)
      else failMet \<or> modelMet)"

definition ensure_circuit :: "circuit_state option \<Rightarrow> circuit_state" where
  "ensure_circuit st = (case st of None \<Rightarrow> new_circuit | Some s \<Rightarrow> s)"

text \<open>
  One level of \<^verbatim>\<open>RecordCircuitFailure\<close>: the probe is released, the failure is appended, and
  the circuit opens when the trip condition holds and a duration is configured.
\<close>

definition fail_circuit :: "gtime \<Rightarrow> duration \<Rightarrow> circuit_state \<Rightarrow> circuit_state" where
  "fail_circuit now window s = record_failure now window (s\<lparr>probeUntil := zero_time\<rparr>)"

definition trip_circuit :: "gtime \<Rightarrow> bool \<Rightarrow> int \<Rightarrow> circuit_state \<Rightarrow> circuit_state" where
  "trip_circuit now trip durationSec s =
     (if trip \<and> durationSec > 0
      then s\<lparr>openUntil := now + seconds durationSec, manualOpen := False\<rparr> else s)"

definition record_circuit_failure :: "gtime \<Rightarrow> circuit_failure_input \<Rightarrow> cache \<Rightarrow> cache" where
  "record_circuit_failure now i c =
     (if cf_UpstreamID i = 0 \<or> trim_space (cf_ModelKey i) = [] then c
      else
        let u = cf_UpstreamID i;
            k = model_circuit_key u (cf_ModelKey i);
            model0 = ensure_circuit (modelCB c k);
            modelProbeFailed = (now < probeUntil model0);
            model1 = fail_circuit now (seconds (cf_ModelWindowSec i)) model0;
            model2 = trip_circuit now
                       (modelProbeFailed \<or> should_trip model1 (cf_ModelFailureThreshold i))
                       (cf_ModelDurationSec i) model1;
            c1 = c\<lparr>modelCB := (modelCB c)(k \<mapsto> model2)\<rparr>;
            up0 = ensure_circuit (upstreamCB c1 u);
            upstreamProbeFailed = (now < probeUntil up0);
            up1 = fail_circuit now (seconds (cf_UpstreamWindowSec i)) up0;
            failMet = (upstreamProbeFailed \<or> should_trip up1 (cf_UpstreamFailureThreshold i));
            modelMet = (cf_UpstreamModelThreshold i > 0 \<and>
                        open_model_count (modelCB c1) u now [] (cf_ActiveModelKeys i)
                          \<ge> cf_UpstreamModelThreshold i);
            trip = should_trip_upstream failMet (cf_UpstreamFailureThreshold i)
                     modelMet (cf_UpstreamModelThreshold i) (cf_UpstreamThresholdLogic i);
            up2 = trip_circuit now trip (cf_UpstreamDurationSec i) up1
        in maybe_sweep now (c1\<lparr>upstreamCB := (upstreamCB c1)(u \<mapsto> up2)\<rparr>))"

section \<open>Metadata, reset, release and manual opening\<close>

definition record_failure_metadata :: "gtime \<Rightarrow> nat \<Rightarrow> string \<Rightarrow> cache \<Rightarrow> cache" where
  "record_failure_metadata now u lastError c =
     maybe_sweep now (c\<lparr>upstreamMeta := (upstreamMeta c)
       (u \<mapsto> \<lparr>um_lastError = lastError, um_lastFailure = now, um_lastSuccess = zero_time\<rparr>)\<rparr>)"

definition record_success_metadata :: "gtime \<Rightarrow> nat \<Rightarrow> cache \<Rightarrow> cache" where
  "record_success_metadata now u c =
     (let meta = (case upstreamMeta c u of
                    None \<Rightarrow> \<lparr>um_lastError = [], um_lastFailure = zero_time, um_lastSuccess = zero_time\<rparr>
                  | Some m \<Rightarrow> m)
      in maybe_sweep now (c\<lparr>upstreamMeta := (upstreamMeta c)(u \<mapsto> meta\<lparr>um_lastSuccess := now\<rparr>)\<rparr>))"

definition clear_upstream_circuit_keys :: "nat \<Rightarrow> cache \<Rightarrow> cache" where
  "clear_upstream_circuit_keys u c = c\<lparr>upstreamCB := map_delete u (upstreamCB c)\<rparr>"

definition clear_model_circuit_keys :: "nat \<Rightarrow> string \<Rightarrow> cache \<Rightarrow> cache" where
  "clear_model_circuit_keys u modelKey c =
     c\<lparr>modelCB := map_delete (model_circuit_key u modelKey) (modelCB c)\<rparr>"

definition reset_all_circuit_states :: "cache \<Rightarrow> cache" where
  "reset_all_circuit_states c = c\<lparr>upstreamCB := Map.empty, modelCB := Map.empty\<rparr>"

definition release_probe :: "circuit_state option \<Rightarrow> circuit_state option" where
  "release_probe st = map_option (\<lambda>s. s\<lparr>probeUntil := zero_time\<rparr>) st"

definition release_route_probes :: "nat \<Rightarrow> string \<Rightarrow> cache \<Rightarrow> cache" where
  "release_route_probes u modelKey c =
     (if trim_space modelKey = []
      then c\<lparr>upstreamCB := (upstreamCB c)(u := release_probe (upstreamCB c u))\<rparr>
      else let k = model_circuit_key u modelKey
           in c\<lparr>modelCB := (modelCB c)(k := release_probe (modelCB c k))\<rparr>)"

definition open_upstream_circuit :: "gtime \<Rightarrow> nat \<Rightarrow> cache \<Rightarrow> cache" where
  "open_upstream_circuit now u c =
     (let s = ensure_circuit (upstreamCB c u)
      in maybe_sweep now (c\<lparr>upstreamCB := (upstreamCB c)
           (u \<mapsto> s\<lparr>openUntil := now + circuit_manual_open_duration, manualOpen := True\<rparr>)\<rparr>))"

definition reset_upstream_circuit :: "nat \<Rightarrow> cache \<Rightarrow> cache" where
  "reset_upstream_circuit u c =
     c\<lparr>upstreamCB := map_delete u (upstreamCB c), upstreamMeta := map_delete u (upstreamMeta c)\<rparr>"

definition open_model_circuit :: "gtime \<Rightarrow> nat \<Rightarrow> string \<Rightarrow> cache \<Rightarrow> cache" where
  "open_model_circuit now u modelKey c =
     (let k = model_circuit_key u modelKey; s = ensure_circuit (modelCB c k)
      in maybe_sweep now (c\<lparr>modelCB := (modelCB c)
           (k \<mapsto> s\<lparr>openUntil := now + circuit_manual_open_duration, manualOpen := True\<rparr>)\<rparr>))"

definition reset_model_circuit :: "nat \<Rightarrow> string \<Rightarrow> cache \<Rightarrow> cache" where
  "reset_model_circuit u modelKey c =
     c\<lparr>modelCB := map_delete (model_circuit_key u modelKey) (modelCB c)\<rparr>"

text \<open>\<^verbatim>\<open>Time.Unix()\<close>: Go's zero time is 62135596800 seconds before the Unix epoch.\<close>

definition unix_seconds :: "gtime \<Rightarrow> int" where
  "unix_seconds t = t div go_second - 62135596800"

definition query_circuit_status :: "gtime \<Rightarrow> circuit_state option \<Rightarrow> bool \<times> string" where
  "query_circuit_status now st =
     (case st of None \<Rightarrow> (False, [])
      | Some s \<Rightarrow> if \<not> now < openUntil s then (False, [])
                  else (True, dec_int (unix_seconds (openUntil s))))"

definition query_upstream_circuit_status :: "gtime \<Rightarrow> nat \<Rightarrow> cache \<Rightarrow> bool \<times> string" where
  "query_upstream_circuit_status now u c = query_circuit_status now (upstreamCB c u)"

definition query_model_circuit_status :: "gtime \<Rightarrow> nat \<Rightarrow> string \<Rightarrow> cache \<Rightarrow> bool \<times> string" where
  "query_model_circuit_status now u modelKey c =
     query_circuit_status now (modelCB c (model_circuit_key u modelKey))"

section \<open>Default parameters\<close>

record breaker_defaults =
  bd_Enabled :: bool
  bd_ModelFailureThreshold :: int
  bd_ModelDurationMin :: int
  bd_ModelWindowMin :: int
  bd_UpstreamFailureThreshold :: int
  bd_UpstreamModelThreshold :: int
  bd_UpstreamThresholdLogic :: string
  bd_UpstreamDurationMin :: int
  bd_UpstreamWindowMin :: int

definition default_breaker_defaults :: breaker_defaults where
  "default_breaker_defaults = \<lparr>bd_Enabled = False, bd_ModelFailureThreshold = 5,
     bd_ModelDurationMin = 15, bd_ModelWindowMin = 3, bd_UpstreamFailureThreshold = 20,
     bd_UpstreamModelThreshold = 3, bd_UpstreamThresholdLogic = ''or'',
     bd_UpstreamDurationMin = 30, bd_UpstreamWindowMin = 5\<rparr>"

definition breaker_defaults_valid :: "breaker_defaults \<Rightarrow> bool" where
  "breaker_defaults_valid d =
     (if \<exists>v \<in> set [bd_ModelFailureThreshold d, bd_ModelDurationMin d, bd_ModelWindowMin d,
          bd_UpstreamFailureThreshold d, bd_UpstreamModelThreshold d, bd_UpstreamDurationMin d,
          bd_UpstreamWindowMin d]. v < 0 then False
      else if \<exists>v \<in> set [bd_ModelDurationMin d, bd_ModelWindowMin d, bd_UpstreamDurationMin d,
          bd_UpstreamWindowMin d]. v > int64_max div 60 then False
      else let logic = trim_space (bd_UpstreamThresholdLogic d)
           in logic = [] \<or> logic = ''and'' \<or> logic = ''or'')"

text \<open>
  \<^verbatim>\<open>ParseBreakerDefaults\<close> after the two calls of \<^verbatim>\<open>json.Unmarshal\<close>: \<open>nulls\<close> are the keys of
  the object whose raw value is \<^verbatim>\<open>null\<close>, the record holds the optional fields.
\<close>

record breaker_input =
  bi_Enabled :: "bool option"
  bi_ModelFailureThreshold :: "int option"
  bi_ModelDurationMin :: "int option"
  bi_ModelWindowMin :: "int option"
  bi_UpstreamFailureThreshold :: "int option"
  bi_UpstreamModelThreshold :: "int option"
  bi_UpstreamThresholdLogic :: "string option"
  bi_UpstreamDurationMin :: "int option"
  bi_UpstreamWindowMin :: "int option"

definition breaker_default_keys :: "string list" where
  "breaker_default_keys = [''enabled'', ''model_failure_threshold'', ''model_duration_min'',
     ''model_window_min'', ''upstream_failure_threshold'', ''upstream_model_threshold'',
     ''upstream_threshold_logic'', ''upstream_duration_min'', ''upstream_window_min'']"

definition value_or_zero :: "int option \<Rightarrow> int" where
  "value_or_zero v = (case v of None \<Rightarrow> 0 | Some n \<Rightarrow> n)"

definition apply_positive :: "int \<Rightarrow> int option \<Rightarrow> int" where
  "apply_positive target v = (case v of Some n \<Rightarrow> if n > 0 then n else target | None \<Rightarrow> target)"

text \<open>The fields of the accepted object, over the built-in defaults.\<close>

definition positive_defaults :: "breaker_input \<Rightarrow> breaker_defaults" where
  "positive_defaults i =
     (let logic = (case bi_UpstreamThresholdLogic i of None \<Rightarrow> [] | Some l \<Rightarrow> l);
          d = default_breaker_defaults
      in \<lparr>
     bd_Enabled = (case bi_Enabled i of Some b \<Rightarrow> b | None \<Rightarrow> bd_Enabled d),
     bd_ModelFailureThreshold =
     apply_positive (bd_ModelFailureThreshold d) (bi_ModelFailureThreshold i),
     bd_ModelDurationMin = apply_positive (bd_ModelDurationMin d) (bi_ModelDurationMin i),
     bd_ModelWindowMin = apply_positive (bd_ModelWindowMin d) (bi_ModelWindowMin i),
     bd_UpstreamFailureThreshold =
     apply_positive (bd_UpstreamFailureThreshold d) (bi_UpstreamFailureThreshold i),
     bd_UpstreamModelThreshold =
     apply_positive (bd_UpstreamModelThreshold d) (bi_UpstreamModelThreshold i),
     bd_UpstreamThresholdLogic =
     (if trim_space logic \<noteq> [] then trim_space logic else bd_UpstreamThresholdLogic d),
     bd_UpstreamDurationMin =
     apply_positive (bd_UpstreamDurationMin d) (bi_UpstreamDurationMin i),
     bd_UpstreamWindowMin =
     apply_positive (bd_UpstreamWindowMin d) (bi_UpstreamWindowMin i)\<rparr>)"

definition parse_breaker_defaults :: "string list \<Rightarrow> breaker_input \<Rightarrow> breaker_defaults option" where
  "parse_breaker_defaults nulls i =
     (if \<exists>k \<in> set breaker_default_keys. k \<in> set nulls then None
      else
        let logic = (case bi_UpstreamThresholdLogic i of None \<Rightarrow> [] | Some l \<Rightarrow> l)
        in if \<not> breaker_defaults_valid \<lparr>bd_Enabled = False,
               bd_ModelFailureThreshold = value_or_zero (bi_ModelFailureThreshold i),
               bd_ModelDurationMin = value_or_zero (bi_ModelDurationMin i),
               bd_ModelWindowMin = value_or_zero (bi_ModelWindowMin i),
               bd_UpstreamFailureThreshold = value_or_zero (bi_UpstreamFailureThreshold i),
               bd_UpstreamModelThreshold = value_or_zero (bi_UpstreamModelThreshold i),
               bd_UpstreamThresholdLogic = logic,
               bd_UpstreamDurationMin = value_or_zero (bi_UpstreamDurationMin i),
               bd_UpstreamWindowMin = value_or_zero (bi_UpstreamWindowMin i)\<rparr> then None
           else Some (positive_defaults i))"

section \<open>Lemmas on one circuit\<close>

lemma model_circuit_key_eq:
  "model_circuit_key u k = model_circuit_key u' k' \<longleftrightarrow> u = u' \<and> trim_space k = trim_space k'"
proof
  assume eq: "model_circuit_key u k = model_circuit_key u' k'"
  let ?p = "\<lambda>c. c \<noteq> CHR '':''"
  have "takeWhile ?p (model_circuit_key v l) = dec v" for v l
    by (simp add: model_circuit_key_def colon_notin_dec takeWhile_append2 takeWhile_tail)
       (metis append_Nil2 colon_notin_dec takeWhile_append2 takeWhile_eq_all_conv)
  with eq have "dec u = dec u'" by metis
  with eq show "u = u' \<and> trim_space k = trim_space k'"
    by (simp add: model_circuit_key_def dec_inj)
qed (simp add: model_circuit_key_def)

lemma model_circuit_key_trim [simp]: "model_circuit_key u (trim_space k) = model_circuit_key u k"
  by (simp add: model_circuit_key_def)

text \<open>\<open>quiet T st\<close>: the circuit admits no probe before \<open>T\<close>.\<close>

definition quiet :: "gtime \<Rightarrow> circuit_state option \<Rightarrow> bool" where
  "quiet T st \<longleftrightarrow> (case st of None \<Rightarrow> True
     | Some s \<Rightarrow> \<not> manualOpen s \<and> (openUntil s = 0 \<or> T \<le> probeUntil s))"

lemma quiet_check:
  "quiet T st \<Longrightarrow> t < T \<Longrightarrow>
     snd (check_circuit_state_locked t st) \<noteq> HalfOpenGranted \<and>
     quiet T (fst (check_circuit_state_locked t st))"
  by (auto simp: quiet_def check_circuit_state_locked_def close_circuit_def split: option.splits)

lemma granted_quiet:
  "snd (check_circuit_state_locked t st) = HalfOpenGranted \<Longrightarrow>
     quiet (t + circuit_probe_ttl) (fst (check_circuit_state_locked t st))"
  by (auto simp: quiet_def check_circuit_state_locked_def split: option.splits if_splits)

lemma granted_denies:
  assumes "snd (check_circuit_state_locked t st) = HalfOpenGranted"
    and "t \<le> t'" "t' < t + circuit_probe_ttl"
    and "st = Some s" "t' \<le> openUntil s + circuit_probe_ttl"
  shows "snd (check_circuit_state_locked t' (fst (check_circuit_state_locked t st))) = HalfOpenDenied"
  using assms by (auto simp: check_circuit_state_locked_def split: if_splits)

lemma granted_release_regrants:
  assumes "snd (check_circuit_state_locked t st) = HalfOpenGranted"
    and "t \<le> t'" "0 \<le> t'" "st = Some s" "t' \<le> openUntil s + circuit_probe_ttl"
  shows "snd (check_circuit_state_locked t' (release_probe (fst (check_circuit_state_locked t st))))
           = HalfOpenGranted"
  using assms by (auto simp: check_circuit_state_locked_def release_probe_def split: if_splits)

lemma check_open_iff:
  "0 \<le> t \<Longrightarrow> snd (check_circuit_state_locked t st) = Opened \<longleftrightarrow> (\<exists>s. st = Some s \<and> t < openUntil s)"
  by (auto simp: check_circuit_state_locked_def split: option.splits)

lemma check_recovers:
  "0 \<le> t \<Longrightarrow> t > openUntil s + circuit_probe_ttl \<Longrightarrow> snd (check_circuit_state_locked t (Some s)) = Closed"
  by (auto simp: check_circuit_state_locked_def retention_defs)

interpretation circuits: swept_store
    "\<lambda>now s. circuit_state_expired s now"
    "\<lambda>t st. snd (check_circuit_state_locked t st)"
  by unfold_locales
     (auto simp: circuit_state_expired_def check_circuit_state_locked_def retention_defs
       split: if_splits)

section \<open>Failure windows\<close>

lemma record_failure_fields [simp]:
  "openUntil (record_failure t w s) = openUntil s"
  "probeUntil (record_failure t w s) = probeUntil s"
  "manualOpen (record_failure t w s) = manualOpen s"
  "lastFailure (record_failure t w s) = t"
  by (simp_all add: record_failure_def Let_def)

lemma record_failure_failures:
  "0 < w \<Longrightarrow> failures (record_failure t w s) = filter (\<lambda>x. x > t - w) (failures s) @ [t]"
  by (simp add: record_failure_def Let_def)

fun record_failures :: "duration \<Rightarrow> gtime list \<Rightarrow> circuit_state \<Rightarrow> circuit_state" where
  "record_failures w [] s = s"
| "record_failures w (t # ts) s = record_failures w ts (record_failure t w s)"

lemma record_failures_snoc:
  "record_failures w (ts @ [t]) s = record_failure t w (record_failures w ts s)"
  by (induction ts arbitrary: s) auto

lemma record_failures_window:
  assumes "0 < w" "sorted ts" "ts \<noteq> []"
  shows "failures (record_failures w ts new_circuit) = filter (\<lambda>x. x > last ts - w) ts"
  using assms(2,3)
proof (induction ts rule: rev_induct)
  case (snoc t ts)
  show ?case
  proof (cases "ts = []")
    case True
    with assms(1) show ?thesis by (simp add: record_failure_failures new_circuit_def)
  next
    case False
    from snoc.prems have le: "last ts \<le> t" using False by (simp add: sorted_append)
    have "failures (record_failures w ts new_circuit) = filter (\<lambda>x. x > last ts - w) ts"
      using snoc False by (simp add: sorted_append)
    moreover from le have "(\<lambda>x. x > last ts - w \<and> x > t - w) = (\<lambda>x. x > t - w)" by auto
    ultimately show ?thesis
      using assms(1) by (simp add: record_failures_snoc record_failure_failures conj_commute)
  qed
qed simp

lemma open_model_count_card:
  "open_model_count m u now seen keys =
     int (card {k \<in> model_circuit_key u ` set keys - set seen. \<exists>s. m k = Some s \<and> now < openUntil s})"
proof (induction m u now seen keys rule: open_model_count.induct)
  case (2 m u now seen modelKey rest)
  let ?key = "model_circuit_key u modelKey"
  let ?open = "\<lambda>k. \<exists>s. m k = Some s \<and> now < openUntil s"
  let ?S = "\<lambda>seen ks. {k \<in> model_circuit_key u ` set ks - set seen. ?open k}"
  show ?case
  proof (cases "?key \<in> set seen")
    case True
    then have "?S seen (modelKey # rest) = ?S seen rest" by auto
    with True 2(1) show ?thesis by simp
  next
    case False
    have "?S seen (modelKey # rest) =
        (if ?open ?key then insert ?key (?S (?key # seen) rest) else ?S (?key # seen) rest)"
      using False by auto
    moreover have "?key \<notin> ?S (?key # seen) rest" "finite (?S (?key # seen) rest)" by auto
    ultimately have card: "card (?S seen (modelKey # rest)) =
        (if ?open ?key then 1 else 0) + card (?S (?key # seen) rest)"
      by simp
    from 2(2) [OF refl] False have IH: "open_model_count m u now (?key # seen) rest = int (card (?S (?key # seen) rest))"
      by simp
    show ?thesis
      using False IH card by (cases "m ?key") (simp_all add: Let_def)
  qed
qed simp

section \<open>The interface of the circuit stores\<close>

text \<open>
  What route resolution relies on: \<open>circuit c i\<close> is the entry of circuit \<open>i\<close>, two keys are the
  same circuit when \<open>ident\<close> agrees, a check or a release of a (valid) key acts on that circuit
  alone.
\<close>

fun run_checks ::
    "(gtime \<Rightarrow> 'k \<Rightarrow> 'c \<Rightarrow> 'c \<times> circuit_status) \<Rightarrow> (gtime \<times> 'k) list \<Rightarrow> 'c \<Rightarrow>
     (gtime \<times> 'k \<times> circuit_status) list" where
  "run_checks check [] c = []"
| "run_checks check ((t, k) # calls) c =
     (let (c', r) = check t k c in (t, k, r) # run_checks check calls c')"

locale circuit_store =
  fixes circuit :: "'c \<Rightarrow> 'id \<Rightarrow> circuit_state option"
    and ident :: "'k \<Rightarrow> 'id"
    and check :: "gtime \<Rightarrow> 'k \<Rightarrow> 'c \<Rightarrow> 'c \<times> circuit_status"
    and release :: "'k \<Rightarrow> 'c \<Rightarrow> 'c"
    and valid :: "'k \<Rightarrow> bool"
  assumes check_status:
      "snd (check t k c) = snd (check_circuit_state_locked t (circuit c (ident k)))"
    and check_circuit:
      "circuit (fst (check t k c)) i =
         (if i = ident k then fst (check_circuit_state_locked t (circuit c i)) else circuit c i)"
    and release_circuit:
      "valid k \<Longrightarrow> circuit (release k c) i =
         (if i = ident k then release_probe (circuit c i) else circuit c i)"
begin

lemma check_quiet:
  "quiet T (circuit c i) \<Longrightarrow> t < T \<Longrightarrow> quiet T (circuit (fst (check t k c)) i)"
  using quiet_check [of T "circuit c i" t] by (auto simp: check_circuit)

lemma granted_then_quiet:
  "snd (check t k c) = HalfOpenGranted \<Longrightarrow>
     quiet (t + circuit_probe_ttl) (circuit (fst (check t k c)) (ident k))"
  using granted_quiet [of t "circuit c (ident k)"] by (simp add: check_status check_circuit)

lemma quiet_no_grant:
  assumes "quiet T (circuit c i)" "\<forall>(t, k) \<in> set calls. t < T"
    and "(t, k, HalfOpenGranted) \<in> set (run_checks check calls c)"
  shows "ident k \<noteq> i"
  using assms
proof (induction calls arbitrary: c)
  case (Cons call calls)
  obtain t0 k0 where call: "call = (t0, k0)" by (cases call) auto
  obtain c' r where step: "check t0 k0 c = (c', r)" by (cases "check t0 k0 c") auto
  from Cons.prems(2) have t0: "t0 < T" by (simp add: call)
  from check_quiet [OF Cons.prems(1) t0, of k0] have q: "quiet T (circuit c' i)"
    by (simp add: step)
  from Cons.prems(3) consider "t = t0" "k = k0" "r = HalfOpenGranted"
    | "(t, k, HalfOpenGranted) \<in> set (run_checks check calls c')"
    by (auto simp: call step)
  then show ?case
  proof cases
    case 1
    then have "snd (check_circuit_state_locked t (circuit c (ident k))) = HalfOpenGranted"
      using check_status [of t k c] step by simp
    with quiet_check [OF Cons.prems(1) t0] 1(1) show ?thesis by auto
  next
    case 2
    with Cons.IH [OF q] Cons.prems(2) show ?thesis by simp
  qed
qed simp

lemma probe_exclusive:
  assumes "snd (check t k c) = HalfOpenGranted"
    and "\<forall>(t', k') \<in> set calls. t' < t + circuit_probe_ttl"
    and "(t', k', HalfOpenGranted) \<in> set (run_checks check calls (fst (check t k c)))"
  shows "ident k' \<noteq> ident k"
  using quiet_no_grant [OF granted_then_quiet [OF assms(1)] assms(2,3)] .

lemma release_regrants:
  assumes granted: "snd (check t k c) = HalfOpenGranted"
    and "t \<le> t'" "0 \<le> t'"
    and s: "circuit c (ident k) = Some s" and "t' \<le> openUntil s + circuit_probe_ttl"
    and "valid k"
  shows "snd (check t' k (release k (fst (check t k c)))) = HalfOpenGranted"
  using granted_release_regrants [OF _ assms(2,3) s assms(5)] granted \<open>valid k\<close>
  by (simp add: check_status check_circuit release_circuit)

end

interpretation upstream_circuits: circuit_store upstreamCB "\<lambda>u. u"
    check_upstream_circuit_state "\<lambda>u. release_route_probes u []" "\<lambda>_. True"
  by unfold_locales
     (auto simp: check_upstream_circuit_state_def release_route_probes_def split: prod.splits)

interpretation model_circuits: circuit_store modelCB
    "\<lambda>(u, k). model_circuit_key u k"
    "\<lambda>t (u, k). check_model_circuit_state t u k"
    "\<lambda>(u, k). release_route_probes u k" "\<lambda>(u, k). trim_space k \<noteq> []"
  by unfold_locales
     (auto simp: check_model_circuit_state_def release_route_probes_def
        model_circuit_key_eq Let_def split: prod.splits)

section \<open>Parsed defaults\<close>

lemma apply_positive_pos: "0 < n \<Longrightarrow> 0 < apply_positive n v"
  by (simp add: apply_positive_def split: option.splits)

lemma apply_positive_le: "n \<le> B \<Longrightarrow> value_or_zero v \<le> B \<Longrightarrow> apply_positive n v \<le> B"
  by (simp add: apply_positive_def value_or_zero_def split: option.splits)

section \<open>Opening and recovering\<close>

lemma trip_circuit_openUntil:
  "trip \<Longrightarrow> 0 < d \<Longrightarrow> openUntil (trip_circuit now trip d s) = now + seconds d"
  by (simp add: trip_circuit_def)

lemma fail_circuit_fields [simp]:
  "openUntil (fail_circuit t w s) = openUntil s"
  "probeUntil (fail_circuit t w s) = 0"
  "lastFailure (fail_circuit t w s) = t"
  by (simp_all add: fail_circuit_def)

lemma sweep_keeps_recent_failure:
  "0 < now \<Longrightarrow> m k = Some s \<Longrightarrow> lastFailure s = now \<Longrightarrow>
     (if b then map_sweep (\<lambda>_ s. circuit_state_expired s now) m else m) k = Some s"
  by (simp add: map_sweep_apply circuit_state_expired_def retention_defs)

text \<open>The entry a failure leaves behind, at both levels; the sweep at the end never drops it.\<close>

definition failed_model_circuit :: "gtime \<Rightarrow> circuit_failure_input \<Rightarrow> circuit_state option \<Rightarrow> circuit_state" where
  "failed_model_circuit now i st =
     (let s = ensure_circuit st; s1 = fail_circuit now (seconds (cf_ModelWindowSec i)) s
      in trip_circuit now (now < probeUntil s \<or> should_trip s1 (cf_ModelFailureThreshold i))
           (cf_ModelDurationSec i) s1)"

lemma lastFailure_failed_model [simp]: "lastFailure (failed_model_circuit now i st) = now"
  by (simp add: failed_model_circuit_def trip_circuit_def Let_def)

definition failed_upstream_circuit ::
    "gtime \<Rightarrow> circuit_failure_input \<Rightarrow> int \<Rightarrow> circuit_state option \<Rightarrow> circuit_state" where
  "failed_upstream_circuit now i opened st =
     (let s = ensure_circuit st; s1 = fail_circuit now (seconds (cf_UpstreamWindowSec i)) s
      in trip_circuit now
           (should_trip_upstream
              (now < probeUntil s \<or> should_trip s1 (cf_UpstreamFailureThreshold i))
              (cf_UpstreamFailureThreshold i)
              (0 < cf_UpstreamModelThreshold i \<and> cf_UpstreamModelThreshold i \<le> opened)
              (cf_UpstreamModelThreshold i) (cf_UpstreamThresholdLogic i))
           (cf_UpstreamDurationSec i) s1)"

lemma lastFailure_failed_upstream [simp]: "lastFailure (failed_upstream_circuit now i n st) = now"
  by (simp add: failed_upstream_circuit_def trip_circuit_def Let_def)

abbreviation failed_key :: "circuit_failure_input \<Rightarrow> string" where
  "failed_key i \<equiv> model_circuit_key (cf_UpstreamID i) (cf_ModelKey i)"

definition failed_models ::
    "gtime \<Rightarrow> circuit_failure_input \<Rightarrow> cache \<Rightarrow> (string \<rightharpoonup> circuit_state)" where
  "failed_models now i c =
     (modelCB c)(failed_key i \<mapsto> failed_model_circuit now i (modelCB c (failed_key i)))"

lemma record_circuit_failure_eq:
  assumes "cf_UpstreamID i \<noteq> 0" "trim_space (cf_ModelKey i) \<noteq> []"
  shows "record_circuit_failure now i c = maybe_sweep now (c\<lparr>
      modelCB := failed_models now i c,
      upstreamCB := (upstreamCB c)(cf_UpstreamID i \<mapsto> failed_upstream_circuit now i
        (open_model_count (failed_models now i c) (cf_UpstreamID i) now [] (cf_ActiveModelKeys i))
        (upstreamCB c (cf_UpstreamID i)))\<rparr>)"
  using assms
  by (simp add: record_circuit_failure_def failed_models_def failed_model_circuit_def
        failed_upstream_circuit_def Let_def)

lemma modelCB_record_circuit_failure:
  assumes "0 < now" "cf_UpstreamID i \<noteq> 0" "trim_space (cf_ModelKey i) \<noteq> []"
  shows "modelCB (record_circuit_failure now i c) (failed_key i)
         = Some (failed_model_circuit now i (modelCB c (failed_key i)))"
  using assms
  by (simp add: record_circuit_failure_eq maybe_sweep_fields sweep_keeps_recent_failure failed_models_def)

lemma upstreamCB_record_circuit_failure:
  assumes "0 < now" "cf_UpstreamID i \<noteq> 0" "trim_space (cf_ModelKey i) \<noteq> []"
  shows "upstreamCB (record_circuit_failure now i c) (cf_UpstreamID i)
         = Some (failed_upstream_circuit now i
             (open_model_count (failed_models now i c) (cf_UpstreamID i) now [] (cf_ActiveModelKeys i))
             (upstreamCB c (cf_UpstreamID i)))"
  using assms
  by (simp add: record_circuit_failure_eq maybe_sweep_fields sweep_keeps_recent_failure)

lemma failed_model_opens:
  assumes "now < probeUntil (ensure_circuit st)
      \<or> should_trip (fail_circuit now (seconds (cf_ModelWindowSec i)) (ensure_circuit st))
          (cf_ModelFailureThreshold i)"
    and "0 < cf_ModelDurationSec i"
  shows "openUntil (failed_model_circuit now i st) = now + seconds (cf_ModelDurationSec i)"
  using assms by (auto simp: failed_model_circuit_def Let_def intro: trip_circuit_openUntil)

lemma window_trips:
  assumes "0 < w" "0 < th"
    and "th \<le> int (length (filter (\<lambda>x. x > now - seconds w) (failures s))) + 1"
    and "w \<le> 9223372036"
  shows "should_trip (fail_circuit now (seconds w) s) th"
  using assms seconds_pos [of w]
  by (simp add: should_trip_def fail_circuit_def record_failure_failures)

section \<open>Properties\<close>

text \<open>
  While a circuit is half open, at most one probe is admitted in any 30 seconds, whatever
  checks of this and other circuits are interleaved.
\<close>

theorem model_probe_exclusive:
  assumes "snd (check_model_circuit_state t u k c) = HalfOpenGranted"
    and "\<forall>(t', key) \<in> set calls. t' < t + circuit_probe_ttl"
    and "(t', (u', k'), HalfOpenGranted)
           \<in> set (run_checks (\<lambda>t (u, k). check_model_circuit_state t u k) calls
                    (fst (check_model_circuit_state t u k c)))"
  shows "u' \<noteq> u \<or> trim_space k' \<noteq> trim_space k"
  using model_circuits.probe_exclusive [of t "(u, k)" c calls t' "(u', k')"] assms
  by (simp add: model_circuit_key_eq)

text \<open>
  A probe that is released is admitted again: after a granted check and
  \<^verbatim>\<open>ReleaseRouteProbes\<close>, the next check of that circuit inside the half-open span is granted.
\<close>

theorem released_probe_regranted:
  assumes "snd (check_upstream_circuit_state t u c) = HalfOpenGranted"
    and "t \<le> t'" "0 \<le> t'"
    and "upstreamCB c u = Some s" "t' \<le> openUntil s + circuit_probe_ttl"
  shows "snd (check_upstream_circuit_state t' u
           (release_route_probes u [] (fst (check_upstream_circuit_state t u c)))) = HalfOpenGranted"
  using upstream_circuits.release_regrants [of t u c t' s] assms by simp

text \<open>
  When the failures inside the window, with the one being recorded, reach the model
  threshold, the model circuit refuses every check for the configured duration, and once the
  half-open span after it has passed it is closed again.
\<close>

theorem model_circuit_opens_and_recovers:
  assumes "0 < now" "cf_UpstreamID i \<noteq> 0" "trim_space (cf_ModelKey i) \<noteq> []"
    and "0 < cf_ModelDurationSec i" "cf_ModelDurationSec i \<le> 9223372036"
    and "0 < cf_ModelWindowSec i" "cf_ModelWindowSec i \<le> 9223372036"
    and "0 < cf_ModelFailureThreshold i"
    and "cf_ModelFailureThreshold i \<le> 1 + int (length (filter
           (\<lambda>x. x > now - cf_ModelWindowSec i * go_second)
           (failures (ensure_circuit
             (modelCB c (model_circuit_key (cf_UpstreamID i) (cf_ModelKey i)))))))"
    and "now \<le> t"
  shows "(t < now + cf_ModelDurationSec i * go_second \<longrightarrow>
      snd (check_model_circuit_state t (cf_UpstreamID i) (cf_ModelKey i)
             (record_circuit_failure now i c)) = Opened) \<and>
    (t > now + cf_ModelDurationSec i * go_second + circuit_probe_ttl \<longrightarrow>
      snd (check_model_circuit_state t (cf_UpstreamID i) (cf_ModelKey i)
             (record_circuit_failure now i c)) = Closed)"
proof -
  let ?k = "model_circuit_key (cf_UpstreamID i) (cf_ModelKey i)"
  let ?s = "failed_model_circuit now i (modelCB c ?k)"
  have "should_trip (fail_circuit now (seconds (cf_ModelWindowSec i)) (ensure_circuit (modelCB c ?k)))
          (cf_ModelFailureThreshold i)"
    using assms by (intro window_trips) (simp_all add: seconds_exact)
  then have "openUntil ?s = now + cf_ModelDurationSec i * go_second"
    using failed_model_opens [of now "modelCB c ?k" i] assms(4,5) by (simp add: seconds_exact)
  then show ?thesis
    using modelCB_record_circuit_failure [OF assms(1-3), of c]
      check_open_iff [of t "Some ?s"] check_recovers [of t ?s] assms(1,10)
    by (auto simp: check_model_circuit_state_def Let_def split: prod.splits)
qed

text \<open>
  A failure recorded while a probe is outstanding reopens the model circuit at once,
  whatever its threshold.
\<close>

theorem failed_probe_reopens:
  assumes "0 < now" "cf_UpstreamID i \<noteq> 0" "trim_space (cf_ModelKey i) \<noteq> []"
    and "0 < cf_ModelDurationSec i" "cf_ModelDurationSec i \<le> 9223372036"
    and "snd (check_model_circuit_state t0 (cf_UpstreamID i) (cf_ModelKey i) c) = HalfOpenGranted"
    and "t0 \<le> now" "now < t0 + circuit_probe_ttl"
    and "now \<le> t" "t < now + cf_ModelDurationSec i * go_second"
  shows "snd (check_model_circuit_state t (cf_UpstreamID i) (cf_ModelKey i)
           (record_circuit_failure now i
             (fst (check_model_circuit_state t0 (cf_UpstreamID i) (cf_ModelKey i) c)))) = Opened"
proof -
  let ?k = "model_circuit_key (cf_UpstreamID i) (cf_ModelKey i)"
  let ?c = "fst (check_model_circuit_state t0 (cf_UpstreamID i) (cf_ModelKey i) c)"
  let ?s = "failed_model_circuit now i (modelCB ?c ?k)"
  from assms(6) have "probeUntil (ensure_circuit (modelCB ?c ?k)) = t0 + circuit_probe_ttl"
    by (auto simp: check_model_circuit_state_def check_circuit_state_locked_def ensure_circuit_def
          Let_def split: option.splits if_splits)
  then have "openUntil ?s = now + cf_ModelDurationSec i * go_second"
    using failed_model_opens [of now "modelCB ?c ?k" i] assms(4,5,8) by (simp add: seconds_exact)
  then show ?thesis
    using modelCB_record_circuit_failure [OF assms(1-3), of ?c] check_open_iff [of t "Some ?s"] assms
    by (auto simp: check_model_circuit_state_def [of t] Let_def split: prod.splits)
qed

text \<open>
  The number of open model circuits the upstream threshold is compared with is the number
  of distinct circuits among the active model keys that are open, however the keys repeat.
\<close>

theorem open_model_count_distinct:
  "open_model_count m u now [] keys =
     int (card {k \<in> model_circuit_key u ` set keys. \<exists>s. m k = Some s \<and> now < openUntil s})"
  using open_model_count_card [of m u now "[]" keys] by simp

text \<open>
  Under the \<open>or\<close> logic, once as many distinct active models of an upstream are open as the
  upstream's model threshold asks for, counting the one the failure has just opened, the
  upstream circuit opens for its own duration.
\<close>

theorem upstream_opens_with_models:
  assumes "0 < now" "cf_UpstreamID i \<noteq> 0" "trim_space (cf_ModelKey i) \<noteq> []"
    and "0 < cf_UpstreamDurationSec i" "cf_UpstreamDurationSec i \<le> 9223372036"
    and "trim_space (cf_UpstreamThresholdLogic i) \<noteq> ''and''"
    and "0 < cf_UpstreamModelThreshold i"
    and "cf_UpstreamModelThreshold i \<le> int (card {k \<in> model_circuit_key (cf_UpstreamID i) `
           set (cf_ActiveModelKeys i).
           \<exists>s. modelCB (record_circuit_failure now i c) k = Some s \<and> now < openUntil s})"
    and "now \<le> t" "t < now + cf_UpstreamDurationSec i * go_second"
  shows "snd (check_upstream_circuit_state t (cf_UpstreamID i) (record_circuit_failure now i c)) = Opened"
proof -
  let ?n = "open_model_count (failed_models now i c) (cf_UpstreamID i) now [] (cf_ActiveModelKeys i)"
  let ?s = "failed_upstream_circuit now i ?n (upstreamCB c (cf_UpstreamID i))"
  have "card {k \<in> model_circuit_key (cf_UpstreamID i) ` set (cf_ActiveModelKeys i).
           \<exists>s. modelCB (record_circuit_failure now i c) k = Some s \<and> now < openUntil s}
      \<le> card {k \<in> model_circuit_key (cf_UpstreamID i) ` set (cf_ActiveModelKeys i).
           \<exists>s. failed_models now i c k = Some s \<and> now < openUntil s}"
    by (intro card_mono) (auto simp: record_circuit_failure_eq assms maybe_sweep_fields split: if_splits)
  with assms(8) have "cf_UpstreamModelThreshold i \<le> ?n"
    by (simp add: open_model_count_card)
  with assms have "openUntil ?s = now + cf_UpstreamDurationSec i * go_second"
    by (simp add: failed_upstream_circuit_def should_trip_upstream_def trip_circuit_def Let_def seconds_exact)
  then show ?thesis
    using upstreamCB_record_circuit_failure [OF assms(1-3), of c] check_open_iff [of t "Some ?s"] assms
    by (auto simp: check_upstream_circuit_state_def Let_def split: prod.splits)
qed

text \<open>
  The maintenance sweep never changes what a later check of a circuit answers.
\<close>

theorem sweep_keeps_circuit_status:
  "0 \<le> now \<Longrightarrow> now < t \<Longrightarrow>
     snd (check_model_circuit_state t u k (maybe_sweep now c)) =
       snd (check_model_circuit_state t u k c) \<and>
     snd (check_upstream_circuit_state t u (maybe_sweep now c)) =
       snd (check_upstream_circuit_state t u c)"
  by (simp add: circuits.sweep_invisible check_model_circuit_state_def check_upstream_circuit_state_def Let_def
        maybe_sweep_fields split_beta)

text \<open>
  A configured opening of more than 9223372036 seconds (and at most 18446744073) makes
  \<^verbatim>\<open>time.Duration(sec) * time.Second\<close> negative, so the circuit does not open at all.
\<close>

theorem long_duration_never_opens:
  assumes "9223372036 < cf_ModelDurationSec i" "cf_ModelDurationSec i \<le> 18446744073"
    and "0 < now" "cf_UpstreamID i \<noteq> 0" "trim_space (cf_ModelKey i) \<noteq> []"
    and "modelCB c (model_circuit_key (cf_UpstreamID i) (cf_ModelKey i)) = None"
    and "now \<le> t"
  shows "snd (check_model_circuit_state t (cf_UpstreamID i) (cf_ModelKey i)
           (record_circuit_failure now i c)) \<noteq> Opened"
proof -
  let ?s = "failed_model_circuit now i None"
  from assms(1,2) have "seconds (cf_ModelDurationSec i) < 0"
    by (rule seconds_wraps_negative)
  then have "openUntil ?s \<le> now"
    using assms(3) by (auto simp: failed_model_circuit_def trip_circuit_def ensure_circuit_def
        new_circuit_def Let_def)
  then show ?thesis
    using modelCB_record_circuit_failure [OF assms(3-5), of c] check_open_iff [of t "Some ?s"] assms
    by (auto simp: check_model_circuit_state_def Let_def split: prod.splits)
qed

text \<open>
  Whatever the stored JSON holds, an accepted set of breaker defaults passes the
  validation again and has positive thresholds, windows and durations.
\<close>

theorem parsed_breaker_defaults_ok:
  assumes "parse_breaker_defaults nulls i = Some d"
  shows "breaker_defaults_valid d \<and> 0 < bd_ModelFailureThreshold d \<and> 0 < bd_ModelDurationMin d \<and>
    0 < bd_ModelWindowMin d \<and> 0 < bd_UpstreamFailureThreshold d \<and> 0 < bd_UpstreamModelThreshold d \<and>
    0 < bd_UpstreamDurationMin d \<and> 0 < bd_UpstreamWindowMin d \<and>
    bd_UpstreamThresholdLogic d \<in> {''and'', ''or''}"
proof -
  let ?logic = "case bi_UpstreamThresholdLogic i of None \<Rightarrow> [] | Some l \<Rightarrow> l"
  have logic: "trim_space ?logic \<in> {[], ''and'', ''or''}"
    using assms by (simp add: parse_breaker_defaults_def breaker_defaults_valid_def Let_def split: if_splits)
  have bounds: "value_or_zero (bi_ModelDurationMin i) \<le> int64_max div 60"
      "value_or_zero (bi_ModelWindowMin i) \<le> int64_max div 60"
      "value_or_zero (bi_UpstreamDurationMin i) \<le> int64_max div 60"
      "value_or_zero (bi_UpstreamWindowMin i) \<le> int64_max div 60"
    using assms by (simp_all add: parse_breaker_defaults_def breaker_defaults_valid_def Let_def
        not_less split: if_splits)
  have d: "d = positive_defaults i"
    using assms by (simp add: parse_breaker_defaults_def positive_defaults_def Let_def split: if_splits)
  have trim: "trim_space ''and'' = ''and''" "trim_space ''or'' = ''or''"
    by (simp_all add: trim_space_def trim_left_def trim_right_def trim_with.simps go_spaces_def)
  show ?thesis
    using bounds logic trim
    unfolding d breaker_defaults_valid_def positive_defaults_def Let_def default_breaker_defaults_def
    by (auto simp: apply_positive_pos apply_positive_le not_less less_imp_le)
qed

section \<open>Witnesses\<close>

lemma model_key_eval [simp]: "trim_space ''m'' = ''m''" "trim_space ''n'' = ''n''"
  by (simp_all add: trim_eval)

definition sample_open :: circuit_state where
  "sample_open = new_circuit\<lparr>openUntil := 100\<rparr>"

definition sample_cache :: cache where
  "sample_cache = new_cache\<lparr>upstreamCB := [7 \<mapsto> sample_open],
     modelCB := [model_circuit_key 7 ''m'' \<mapsto> sample_open, model_circuit_key 7 ''n'' \<mapsto> sample_open]\<rparr>"

lemmas sample_defs = sample_cache_def sample_open_def new_cache_def new_circuit_def

theorem model_probe_exclusive_witness:
  "\<exists>c calls. snd (check_model_circuit_state 100 7 ''m'' c) = HalfOpenGranted \<and>
     (101, (7, ''n''), HalfOpenGranted) \<in> set (run_checks (\<lambda>t (u, k). check_model_circuit_state t u k) calls
                    (fst (check_model_circuit_state 100 7 ''m'' c))) \<and> ((7::nat) \<noteq> 7 \<or> trim_space ''n'' \<noteq> trim_space ''m'')"
proof -
  let ?calls = "[(101, (7, ''m'')), (101, (7, ''n''))] :: (gtime \<times> nat \<times> string) list"
  have grant: "snd (check_model_circuit_state 100 7 ''m'' sample_cache) = HalfOpenGranted"
    by (simp add: check_model_circuit_state_def check_circuit_state_locked_def sample_defs
        model_circuit_key_eq retention_defs)
  have mem: "(101, (7, ''n''), HalfOpenGranted) \<in> set (run_checks (\<lambda>t (u, k). check_model_circuit_state t u k) ?calls
                    (fst (check_model_circuit_state 100 7 ''m'' sample_cache)))"
    by (simp add: check_model_circuit_state_def check_circuit_state_locked_def sample_defs
        model_circuit_key_eq retention_defs)
  have times: "\<forall>(t', key) \<in> set ?calls. t' < 100 + circuit_probe_ttl"
    by (simp add: retention_defs)
  show ?thesis
    using grant mem model_probe_exclusive [OF grant times mem] by blast
qed

theorem released_probe_regranted_witness:
  "snd (check_upstream_circuit_state 101 7
      (release_route_probes 7 [] (fst (check_upstream_circuit_state 100 7 sample_cache)))) = HalfOpenGranted"
  by (rule released_probe_regranted [of 100 7 sample_cache 101 sample_open])
     (simp_all add: check_upstream_circuit_state_def check_circuit_state_locked_def sample_defs retention_defs)

definition sample_failure :: circuit_failure_input where
  "sample_failure = \<lparr>cf_UpstreamID = 7, cf_ModelKey = ''m'', cf_ModelWindowSec = 180,
     cf_ModelFailureThreshold = 1, cf_ModelDurationSec = 900, cf_UpstreamWindowSec = 300,
     cf_UpstreamFailureThreshold = 20, cf_UpstreamModelThreshold = 2,
     cf_UpstreamThresholdLogic = ''or'', cf_UpstreamDurationSec = 1800,
     cf_ActiveModelKeys = [''m'', ''n'', ''m'']\<rparr>"

lemma sample_failure_sel [simp]:
  "cf_UpstreamID sample_failure = 7" "cf_ModelKey sample_failure = ''m''"
  "cf_ModelFailureThreshold sample_failure = 1" "cf_ModelDurationSec sample_failure = 900"
  "cf_ModelWindowSec sample_failure = 180" "cf_UpstreamWindowSec sample_failure = 300"
  "cf_UpstreamModelThreshold sample_failure = 2"
  "cf_UpstreamThresholdLogic sample_failure = ''or''" "cf_UpstreamDurationSec sample_failure = 1800"
  "cf_ActiveModelKeys sample_failure = [''m'', ''n'', ''m'']"
  by (simp_all add: sample_failure_def)

theorem model_circuit_opens_and_recovers_witness:
  "snd (check_model_circuit_state 1000 7 ''m'' (record_circuit_failure 200 sample_failure sample_cache)) = Opened"
  using model_circuit_opens_and_recovers [of 200 sample_failure sample_cache 1000]
  by simp

theorem failed_probe_reopens_witness:
  "snd (check_model_circuit_state 300 7 ''m'' (record_circuit_failure 200 sample_failure
     (fst (check_model_circuit_state 100 7 ''m'' sample_cache)))) = Opened"
  using failed_probe_reopens [of 200 sample_failure 100 sample_cache 300]
  by (simp add: check_model_circuit_state_def check_circuit_state_locked_def
        sample_defs retention_defs model_circuit_key_eq)

lemma trim_or [simp]: "trim_space ''or'' = ''or''" "trim_space ''and'' = ''and''"
  by (simp_all add: trim_eval)

theorem upstream_opens_with_models_witness:
  "snd (check_upstream_circuit_state 300 7 (record_circuit_failure 50 sample_failure sample_cache)) = Opened"
proof -
  let ?open = "{k \<in> model_circuit_key (cf_UpstreamID sample_failure) ` set (cf_ActiveModelKeys sample_failure).
      \<exists>s. modelCB (record_circuit_failure 50 sample_failure sample_cache) k = Some s \<and> 50 < openUntil s}"
  have "?open = {model_circuit_key 7 ''m'', model_circuit_key 7 ''n''}"
    by (auto simp: record_circuit_failure_eq maybe_sweep_fields failed_models_def sweeps_def
        maintenance_interval_def
        failed_model_circuit_def trip_circuit_def fail_circuit_def record_failure_def should_trip_def ensure_circuit_def
        sample_defs model_circuit_key_eq seconds_exact Let_def)
  then have "card ?open = 2"
    by (simp add: model_circuit_key_eq del: sample_failure_sel)
  then have "snd (check_upstream_circuit_state 300 (cf_UpstreamID sample_failure)
      (record_circuit_failure 50 sample_failure sample_cache)) = Opened"
    by (intro upstream_opens_with_models) (simp_all del: sample_failure_sel(10))
  then show ?thesis by simp
qed

theorem sweep_keeps_circuit_status_witness:
  "snd (check_model_circuit_state 101 7 ''m'' (maybe_sweep 100 (sample_cache\<lparr>ops := 255\<rparr>))) =
     snd (check_model_circuit_state 101 7 ''m'' (sample_cache\<lparr>ops := 255\<rparr>))"
  using sweep_keeps_circuit_status [of 100 101 7 "''m''" "sample_cache\<lparr>ops := 255\<rparr>"] by simp

theorem long_duration_never_opens_witness:
  "breaker_defaults_valid (default_breaker_defaults\<lparr>bd_ModelDurationMin := 200000000\<rparr>) \<and>
   snd (check_model_circuit_state 200 7 ''m'' (record_circuit_failure 200
      (sample_failure\<lparr>cf_ModelDurationSec := 200000000 * 60\<rparr>) new_cache)) \<noteq> Opened"
  using long_duration_never_opens [of "sample_failure\<lparr>cf_ModelDurationSec := 200000000 * 60\<rparr>" 200 new_cache 200]
  by (simp add: sample_failure_def new_cache_def breaker_defaults_valid_def default_breaker_defaults_def)

theorem parsed_breaker_defaults_ok_witness:
  "\<exists>d. parse_breaker_defaults [] \<lparr>bi_Enabled = None, bi_ModelFailureThreshold = Some 7,
      bi_ModelDurationMin = None, bi_ModelWindowMin = Some 0, bi_UpstreamFailureThreshold = None,
      bi_UpstreamModelThreshold = None, bi_UpstreamThresholdLogic = Some '' and'',
      bi_UpstreamDurationMin = None, bi_UpstreamWindowMin = None\<rparr> = Some d \<and>
     breaker_defaults_valid d \<and> bd_UpstreamThresholdLogic d = ''and''"
proof -
  let ?i = "\<lparr>bi_Enabled = None, bi_ModelFailureThreshold = Some 7,
      bi_ModelDurationMin = None, bi_ModelWindowMin = Some 0, bi_UpstreamFailureThreshold = None,
      bi_UpstreamModelThreshold = None, bi_UpstreamThresholdLogic = Some '' and'',
      bi_UpstreamDurationMin = None, bi_UpstreamWindowMin = None\<rparr>"
  have "parse_breaker_defaults [] ?i = Some (positive_defaults ?i)"
    by (simp add: parse_breaker_defaults_def breaker_defaults_valid_def value_or_zero_def trim_eval)
  moreover from parsed_breaker_defaults_ok [OF this] have "breaker_defaults_valid (positive_defaults ?i)"
    by blast
  moreover have "bd_UpstreamThresholdLogic (positive_defaults ?i) = ''and''"
    by (simp add: positive_defaults_def trim_eval)
  ultimately show ?thesis by blast
qed

end
