(* ===== verification/Rate_Limit.thy ===== *)
theory Rate_Limit
  imports Memory_Cache
begin

text \<open>
  Rate limiting: the two HTTP limiters of the in-memory cache
  (\<^verbatim>\<open>infra/cache/memory/rate_limiter.go\<close>), the middleware that picks a policy and calls
  them (\<^verbatim>\<open>transport/http/middleware/ratelimit.go\<close>), the exponential backoff of a
  rate-limited upstream route and the round-robin counter of its keys
  (\<^verbatim>\<open>infra/cache/memory/channel.go\<close>).
\<close>

section \<open>The limiters\<close>

definition allow_sliding_window ::
    "gtime \<Rightarrow> string \<Rightarrow> int \<Rightarrow> duration \<Rightarrow> cache \<Rightarrow> cache \<times> bool" where
  "allow_sliding_window now key limit window c =
     (if trim_space key = [] \<or> limit \<le> 0 then (c, True)
      else
        let window = (if window \<le> 0 then go_minute else window);
            cutoff = now - window;
            old = (case slidingHTTP c key of None \<Rightarrow> [] | Some l \<Rightarrow> l);
            events = filter (\<lambda>e. e > cutoff) old;
            allowed = (int (length events) < limit);
            events = (if allowed then events @ [now] else events)
        in (maybe_sweep now (c\<lparr>slidingHTTP := (slidingHTTP c)(key \<mapsto> events)\<rparr>), allowed))"

definition fixed_window_hit :: "gtime \<Rightarrow> duration \<Rightarrow> fixed_window_counter option \<Rightarrow> fixed_window_counter" where
  "fixed_window_hit now ttl item =
     (let item = (case item of None \<Rightarrow> \<lparr>fw_count = 0, fw_expiresAt = zero_time\<rparr> | Some i \<Rightarrow> i);
          item = (if now > fw_expiresAt item then \<lparr>fw_count = 0, fw_expiresAt = now + ttl\<rparr> else item)
      in item\<lparr>fw_count := fw_count item + 1\<rparr>)"

fun fixed_window_loop ::
    "gtime \<Rightarrow> duration \<Rightarrow> int \<Rightarrow> string list \<Rightarrow> (string \<rightharpoonup> fixed_window_counter) \<Rightarrow> bool \<Rightarrow>
     (string \<rightharpoonup> fixed_window_counter) \<times> bool" where
  "fixed_window_loop now ttl limit [] m allowed = (m, allowed)"
| "fixed_window_loop now ttl limit (key # keys) m allowed =
     (let key = trim_space key in
      if key = [] then fixed_window_loop now ttl limit keys m allowed
      else
        let item = fixed_window_hit now ttl (m key)
        in fixed_window_loop now ttl limit keys (m(key \<mapsto> item))
             (if fw_count item > limit then False else allowed))"

definition allow_fixed_window ::
    "gtime \<Rightarrow> string list \<Rightarrow> int \<Rightarrow> duration \<Rightarrow> cache \<Rightarrow> cache \<times> bool" where
  "allow_fixed_window now keys limit ttl c =
     (if keys = [] \<or> limit \<le> 0 then (c, True)
      else
        let ttl = (if ttl \<le> 0 then go_minute else ttl);
            (m, allowed) = fixed_window_loop now ttl limit keys (fixedHTTP c) True
        in (maybe_sweep now (c\<lparr>fixedHTTP := m\<rparr>), allowed))"

section \<open>The policies of the middleware\<close>

record rate_limit_policy =
  rp_Name :: string
  rp_Limit :: int
  rp_Window :: duration
  rp_TTL :: duration
  rp_Message :: string

definition default_authenticated_rate_limit_rpm :: int where
  "default_authenticated_rate_limit_rpm = 60"
definition default_public_auth_rate_limit_rpm :: int where
  "default_public_auth_rate_limit_rpm = 30"
definition rate_limit_window :: duration where
  "rate_limit_window = go_minute"

lemmas rate_limit_constants = default_authenticated_rate_limit_rpm_def
  default_public_auth_rate_limit_rpm_def rate_limit_window_def

definition has_suffix :: "string \<Rightarrow> string \<Rightarrow> bool" where
  "has_suffix s p \<longleftrightarrow> has_prefix (rev s) (rev p)"

definition at_least :: "int \<Rightarrow> int \<Rightarrow> int" where
  "at_least value minimum = (if value < minimum then minimum else value)"

text \<open>The configured value of each limit; \<^verbatim>\<open>None\<close> is a missing runtime configuration.\<close>

definition authenticated_rate_limit_rpm :: "int option \<Rightarrow> int" where
  "authenticated_rate_limit_rpm runtime =
     (case runtime of None \<Rightarrow> default_authenticated_rate_limit_rpm
      | Some v \<Rightarrow> if v > 0 then v else default_authenticated_rate_limit_rpm)"

definition public_auth_rate_limit_rpm :: "int option \<Rightarrow> int" where
  "public_auth_rate_limit_rpm runtime =
     (case runtime of None \<Rightarrow> default_public_auth_rate_limit_rpm
      | Some v \<Rightarrow> if v > 0 then v else default_public_auth_rate_limit_rpm)"

definition new_rate_limit_policy :: "string \<Rightarrow> int \<Rightarrow> string \<Rightarrow> rate_limit_policy" where
  "new_rate_limit_policy name limit message =
     \<lparr>rp_Name = name,
      rp_Limit = (if limit \<le> 0 then default_authenticated_rate_limit_rpm else limit),
      rp_Window = rate_limit_window, rp_TTL = 2 * rate_limit_window, rp_Message = message\<rparr>"

definition normalized_route_path :: "string \<Rightarrow> string \<Rightarrow> string" where
  "normalized_route_path fullPath urlPath =
     (let route = trim_space fullPath;
          route = (if route = [] then trim_space urlPath else route);
          route = (case drop_prefix ''/api/v1'' route of Some r \<Rightarrow> r | None \<Rightarrow> route)
      in if route = [] then ''/''
         else if \<not> has_prefix route ''/'' then ''/'' @ route else route)"

definition is_message_generation_route :: "string \<Rightarrow> string \<Rightarrow> bool" where
  "is_message_generation_route m route \<longleftrightarrow> m = ''POST'' \<and>
     (has_suffix route ''/messages'' \<or> has_suffix route ''/messages/stream'' \<or>
      has_suffix route ''/cancel'')"

definition is_media_generation_route :: "string \<Rightarrow> string \<Rightarrow> bool" where
  "is_media_generation_route m route \<longleftrightarrow> m = ''POST'' \<and>
     (contains_sub route ''/media/images/'' \<or> contains_sub route ''/media/videos/'')"

definition is_file_upload_route :: "string \<Rightarrow> string \<Rightarrow> bool" where
  "is_file_upload_route m route \<longleftrightarrow> m = ''POST'' \<and> route = ''/files''"

definition is_polling_route :: "string \<Rightarrow> string \<Rightarrow> bool" where
  "is_polling_route m route \<longleftrightarrow>
     (if m = ''POST'' then
        route = ''/files/processing/statuses'' \<or> route = ''/conversation-runs/statuses'' \<or>
        has_suffix route ''/files/processing/statuses''
      else m = ''GET'' \<and> (has_suffix route ''/processing'' \<or> has_suffix route ''/runs'' \<or>
        has_suffix route ''/stream''))"

definition is_public_auth_read_route :: "string \<Rightarrow> string \<Rightarrow> bool" where
  "is_public_auth_read_route m route \<longleftrightarrow> m = ''GET'' \<and>
     (route = ''/auth/login-options'' \<or> has_suffix route ''/logo'')"

definition authenticated_rate_limit_policy :: "string \<Rightarrow> string \<Rightarrow> int \<Rightarrow> rate_limit_policy" where
  "authenticated_rate_limit_policy m route baseRPM =
     (if is_media_generation_route m route then
        new_rate_limit_policy ''media_generation'' (at_least (go_div baseRPM 2) 30) ''rate limit exceeded''
      else if is_message_generation_route m route then
        new_rate_limit_policy ''message_generation''
          (at_least baseRPM default_authenticated_rate_limit_rpm) ''rate limit exceeded''
      else if is_file_upload_route m route then
        new_rate_limit_policy ''file_upload'' (at_least (wrap64 (baseRPM * 2)) 120) ''rate limit exceeded''
      else if is_polling_route m route then
        new_rate_limit_policy ''polling'' (at_least (wrap64 (baseRPM * 10)) 600) ''rate limit exceeded''
      else if m = ''GET'' then
        new_rate_limit_policy ''read'' (at_least (wrap64 (baseRPM * 10)) 600) ''rate limit exceeded''
      else if m \<in> {''POST'', ''PUT'', ''PATCH'', ''DELETE''} then
        new_rate_limit_policy ''write'' (at_least (wrap64 (baseRPM * 4)) 240) ''rate limit exceeded''
      else
        new_rate_limit_policy ''general'' (at_least (wrap64 (baseRPM * 6)) 360) ''rate limit exceeded'')"

definition public_rate_limit_policy :: "string \<Rightarrow> string \<Rightarrow> int \<Rightarrow> rate_limit_policy" where
  "public_rate_limit_policy m route baseRPM =
     (if route = ''/auth/refresh'' then
        new_rate_limit_policy ''auth_refresh'' (at_least (wrap64 (baseRPM * 10)) 300)
          ''too many refresh attempts''
      else if is_public_auth_read_route m route then
        new_rate_limit_policy ''public_auth_read'' (at_least (wrap64 (baseRPM * 10)) 300)
          ''rate limit exceeded''
      else if has_prefix route ''/auth/'' then
        new_rate_limit_policy ''public_auth'' baseRPM ''too many authentication attempts''
      else if has_prefix route ''/billing/payments/'' then
        new_rate_limit_policy ''payment_callback'' (at_least (wrap64 (baseRPM * 20)) 600)
          ''rate limit exceeded''
      else if route = ''/settings/login-page'' \<or> has_prefix route ''/shared-conversations/'' then
        new_rate_limit_policy ''public_read'' (at_least (wrap64 (baseRPM * 20)) 600)
          ''rate limit exceeded''
      else
        new_rate_limit_policy ''public'' (at_least (wrap64 (baseRPM * 10)) 300) ''rate limit exceeded'')"

section \<open>The middleware\<close>

text \<open>
  What the middleware reads of a request and of the runtime configuration. \<open>rq_user\<close> is the
  authenticated user's id (a \<^verbatim>\<open>uint\<close>, so \<^verbatim>\<open>%v\<close> prints it in decimal), \<open>rq_role\<close> the role string
  of the context. The result is \<open>None\<close> when the request goes on and the policy whose error is
  written when it is refused.
\<close>

record rate_limit_request =
  rq_method :: string
  rq_fullPath :: string
  rq_urlPath :: string
  rq_clientIP :: string
  rq_user :: "nat option"
  rq_role :: "string option"

definition is_admin_role :: "string \<Rightarrow> bool" where
  "is_admin_role role \<longleftrightarrow> role = ''admin'' \<or> role = ''superadmin''"

definition request_route :: "rate_limit_request \<Rightarrow> string" where
  "request_route r = normalized_route_path (rq_fullPath r) (rq_urlPath r)"

definition user_rate_limit_key :: "nat \<Rightarrow> string \<Rightarrow> string" where
  "user_rate_limit_key user name = ''ratelimit:user:'' @ dec user @ '':'' @ name"

definition rate_limit ::
    "bool \<Rightarrow> int option \<Rightarrow> gtime \<Rightarrow> rate_limit_request \<Rightarrow> cache \<Rightarrow> cache \<times> rate_limit_policy option" where
  "rate_limit enabled runtime now r c =
     (if \<not> enabled then (c, None)
      else case rq_user r of None \<Rightarrow> (c, None)
      | Some user \<Rightarrow>
          if (case rq_role r of Some role \<Rightarrow> is_admin_role role | None \<Rightarrow> False) then (c, None)
          else
            let policy = authenticated_rate_limit_policy (rq_method r) (request_route r)
                           (authenticated_rate_limit_rpm runtime);
                (c', allowed) = allow_sliding_window now
                  (user_rate_limit_key user (rp_Name policy)) (rp_Limit policy) (rp_Window policy) c
            in (c', if allowed then None else Some policy))"

definition public_rate_limit_key :: "rate_limit_policy \<Rightarrow> rate_limit_request \<Rightarrow> string" where
  "public_rate_limit_key policy r =
     (let clientIP = (if rq_clientIP r = [] then ''unknown'' else rq_clientIP r)
      in if rp_Name policy = ''auth_refresh'' then ''ratelimit:token-refresh:ip:'' @ clientIP
         else ''ratelimit:public:'' @ rp_Name policy @ '':'' @ request_route r @ '':ip:'' @ clientIP)"

definition public_auth_rate_limit ::
    "bool \<Rightarrow> int option \<Rightarrow> gtime \<Rightarrow> rate_limit_request \<Rightarrow> cache \<Rightarrow> cache \<times> rate_limit_policy option" where
  "public_auth_rate_limit enabled runtime now r c =
     (if \<not> enabled then (c, None)
      else
        let policy = public_rate_limit_policy (rq_method r) (request_route r)
                       (public_auth_rate_limit_rpm runtime);
            (c', allowed) = allow_fixed_window now [public_rate_limit_key policy r]
                              (rp_Limit policy) (rp_TTL policy) c
        in (c', if allowed then None else Some policy))"

text \<open>The \<^verbatim>\<open>Retry-After\<close> seconds a refused request is told.\<close>

definition retry_after_seconds :: "rate_limit_policy \<Rightarrow> int" where
  "retry_after_seconds policy =
     (let retryAfter = go_div (rp_Window policy) go_second
      in if retryAfter \<le> 0 then 60 else retryAfter)"

section \<open>Backoff of a rate-limited route\<close>

record rate_limit_backoff_params =
  rb_UpstreamID :: nat
  rb_RouteID :: nat
  rb_BackoffBaseSec :: int
  rb_BackoffMaxSec :: int
  rb_BackoffMultiplier :: int
  rb_RetryAfterSec :: int

text \<open>\<open>backoff_loop n\<close>: \<open>n\<close> iterations are left.\<close>

fun backoff_loop :: "nat \<Rightarrow> int \<Rightarrow> int \<Rightarrow> int \<Rightarrow> int" where
  "backoff_loop 0 maxSec multiplier backoff = backoff"
| "backoff_loop (Suc n) maxSec multiplier backoff =
     (if backoff \<ge> maxSec then maxSec
      else
        let backoff = wrap64 (backoff * multiplier)
        in if backoff \<ge> maxSec then maxSec else backoff_loop n maxSec multiplier backoff)"

definition calculate_backoff_seconds :: "int \<Rightarrow> rate_limit_backoff_params \<Rightarrow> int" where
  "calculate_backoff_seconds attempt p =
     (let base = (if rb_BackoffBaseSec p \<le> 0 then 5 else rb_BackoffBaseSec p);
          maxSec = (if rb_BackoffMaxSec p \<le> 0 then 60 else rb_BackoffMaxSec p);
          multiplier = (if rb_BackoffMultiplier p \<le> 1 then 2 else rb_BackoffMultiplier p);
          backoff = backoff_loop (nat (attempt - 1)) maxSec multiplier base;
          backoff = (if rb_RetryAfterSec p > backoff then rb_RetryAfterSec p else backoff)
      in if backoff > maxSec then maxSec else backoff)"

text \<open>\<^verbatim>\<open>time.Until\<close> saturates at the bounds of a \<^verbatim>\<open>Duration\<close>.\<close>

definition until :: "gtime \<Rightarrow> gtime \<Rightarrow> duration" where
  "until now t = max (- 9223372036854775808) (min int64_max (t - now))"

definition get_rate_limit_backoff :: "gtime \<Rightarrow> nat \<Rightarrow> nat \<Rightarrow> cache \<Rightarrow> duration" where
  "get_rate_limit_backoff now u r c =
     (if u = 0 \<or> r = 0 then 0
      else
        let remaining = until now (case rateLimits c (u, r) of None \<Rightarrow> zero_time | Some s \<Rightarrow> backoffUntil s)
        in if remaining \<le> 0 then 0 else remaining)"

definition next_backoff ::
    "gtime \<Rightarrow> rate_limit_backoff_params \<Rightarrow> rate_limit_state option \<Rightarrow> rate_limit_state" where
  "next_backoff now p st =
     (let state = (case st of
            None \<Rightarrow> \<lparr>backoffUntil = zero_time, backoffCount = 0, countExpires = zero_time\<rparr> | Some s \<Rightarrow> s);
          count = (if now > countExpires state then 0 else backoffCount state);
          count = wrap64 (count + 1)
      in \<lparr>backoffUntil = now + seconds (calculate_backoff_seconds count p),
          backoffCount = count, countExpires = now + 5 * go_minute\<rparr>)"

definition record_rate_limit_backoff :: "gtime \<Rightarrow> rate_limit_backoff_params \<Rightarrow> cache \<Rightarrow> cache" where
  "record_rate_limit_backoff now p c =
     (if rb_UpstreamID p = 0 \<or> rb_RouteID p = 0 then c
      else
        let key = (rb_UpstreamID p, rb_RouteID p)
        in maybe_sweep now
             (c\<lparr>rateLimits := (rateLimits c)(key \<mapsto> next_backoff now p (rateLimits c key))\<rparr>))"

definition clear_rate_limit_backoff :: "nat \<Rightarrow> nat \<Rightarrow> cache \<Rightarrow> cache" where
  "clear_rate_limit_backoff u r c =
     (if u = 0 \<or> r = 0 then c else c\<lparr>rateLimits := map_delete (u, r) (rateLimits c)\<rparr>)"

section \<open>The round-robin counter\<close>

definition incr_api_key_counter :: "gtime \<Rightarrow> nat \<Rightarrow> cache \<Rightarrow> cache \<times> int" where
  "incr_api_key_counter now u c =
     (let next = (case keyCounters c u of None \<Rightarrow> 0 | Some k \<Rightarrow> next_index k)
      in (maybe_sweep now (c\<lparr>keyCounters :=
            (keyCounters c)(u \<mapsto> \<lparr>next_index = wrap64 (next + 1), lastUsed = now\<rparr>)\<rparr>), next))"

section \<open>The sliding window against its specification\<close>

text \<open>
  The specification keeps a log of the admitted calls and decides each call by the log alone:
  it is admitted when fewer than \<open>limit\<close> calls of the same key were admitted in the window
  that ends now. The implementation keeps only recent times, and forgets some in its sweeps.
\<close>

type_synonym sliding_call = "gtime \<times> string \<times> int"

definition sliding_decision :: "duration \<Rightarrow> (string \<times> gtime) list \<Rightarrow> sliding_call \<Rightarrow> bool" where
  "sliding_decision w hist call =
     (case call of (now, key, limit) \<Rightarrow>
        int (length (filter (\<lambda>(k, e). k = key \<and> e > now - w) hist)) < limit)"

fun spec_sliding :: "duration \<Rightarrow> sliding_call list \<Rightarrow> (string \<times> gtime) list \<Rightarrow> bool list" where
  "spec_sliding w [] hist = []"
| "spec_sliding w (call # calls) hist =
     (if sliding_decision w hist call
      then True # spec_sliding w calls (hist @ [(fst (snd call), fst call)])
      else False # spec_sliding w calls hist)"

fun run_sliding :: "duration \<Rightarrow> sliding_call list \<Rightarrow> cache \<Rightarrow> bool list" where
  "run_sliding w [] c = []"
| "run_sliding w ((now, key, limit) # calls) c =
     (let (c', allowed) = allow_sliding_window now key limit w c
      in allowed # run_sliding w calls c')"

definition recent :: "gtime \<Rightarrow> cache \<Rightarrow> string \<Rightarrow> gtime list" where
  "recent cutoff c key = filter (\<lambda>e. e > cutoff) (case slidingHTTP c key of None \<Rightarrow> [] | Some l \<Rightarrow> l)"

definition logged :: "gtime \<Rightarrow> (string \<times> gtime) list \<Rightarrow> string \<Rightarrow> gtime list" where
  "logged cutoff hist key = map snd (filter (\<lambda>(k, e). k = key \<and> e > cutoff) hist)"

definition sliding_rel :: "duration \<Rightarrow> gtime \<Rightarrow> (string \<times> gtime) list \<Rightarrow> cache \<Rightarrow> bool" where
  "sliding_rel w now hist c \<longleftrightarrow> (\<forall>cutoff \<ge> now - w. \<forall>key. recent cutoff c key = logged cutoff hist key)"

lemma filter_later: "b \<le> a \<Longrightarrow> filter (\<lambda>e. e > a) (filter (\<lambda>e. e > b) l) = filter (\<lambda>e. e > (a::gtime)) l"
  by (induction l) auto

lemma recent_maybe_sweep:
  assumes "now - sliding_window_retention \<le> cutoff"
  shows "recent cutoff (maybe_sweep now c) key = recent cutoff c key"
proof (cases "slidingHTTP c key")
  case (Some l)
  show ?thesis
    using filter_later [OF assms, of l] Some
    by (auto simp: recent_def maybe_sweep_fields sweep_sliding_def Let_def simp del: filter_filter)
qed (simp add: recent_def maybe_sweep_fields sweep_sliding_def)

lemma recent_update:
  assumes "cutoff \<ge> now - w"
  shows "recent cutoff (c\<lparr>slidingHTTP := (slidingHTTP c)(key \<mapsto> recent (now - w) c key @ l)\<rparr>) k =
     recent cutoff c k @ (if k = key then filter (\<lambda>e. e > cutoff) l else [])"
  using filter_later [OF assms] by (simp add: recent_def)

lemma allow_sliding_recent:
  assumes "trim_space key \<noteq> []" "0 < limit" "0 < w"
  shows "allow_sliding_window now key limit w c =
     (let allowed = int (length (recent (now - w) c key)) < limit
      in (maybe_sweep now (c\<lparr>slidingHTTP := (slidingHTTP c)
            (key \<mapsto> recent (now - w) c key @ (if allowed then [now] else []))\<rparr>), allowed))"
  using assms by (simp add: allow_sliding_window_def recent_def Let_def)

lemma sliding_step:
  assumes rel: "sliding_rel w now0 hist c" and "now0 \<le> now" "0 < w" "w \<le> sliding_window_retention"
    and "trim_space key \<noteq> []" "0 < limit"
    and step: "allow_sliding_window now key limit w c = (c', allowed)"
  shows "allowed = sliding_decision w hist (now, key, limit) \<and>
     sliding_rel w now (hist @ (if allowed then [(key, now)] else [])) c'"
proof -
  have "recent (now - w) c key = logged (now - w) hist key"
    using rel assms(2) by (simp add: sliding_rel_def)
  then have decide: "allowed = sliding_decision w hist (now, key, limit)"
    using step assms(3,5,6) by (simp add: allow_sliding_recent Let_def sliding_decision_def logged_def)
  have c': "c' = maybe_sweep now (c\<lparr>slidingHTTP := (slidingHTTP c)
            (key \<mapsto> recent (now - w) c key @ (if allowed then [now] else []))\<rparr>)"
    using step assms(3,5,6) by (auto simp: allow_sliding_recent Let_def)
  show ?thesis
    unfolding decide [symmetric] sliding_rel_def
  proof (intro conjI allI impI refl)
    fix cutoff k assume cutoff: "now - w \<le> cutoff"
    have "recent cutoff c' k = recent cutoff c k @
        (if k = key then filter (\<lambda>e. e > cutoff) (if allowed then [now] else []) else [])"
      using cutoff assms(4) unfolding c' by (simp only: recent_maybe_sweep recent_update)
    also have "recent cutoff c k = logged cutoff hist k"
      using rel assms(2) cutoff by (simp add: sliding_rel_def)
    finally show "recent cutoff c' k = logged cutoff (hist @ (if allowed then [(key, now)] else [])) k"
      by (simp add: logged_def)
  qed
qed

lemma sliding_refines:
  assumes "sliding_rel w now0 hist c" "0 < w" "w \<le> sliding_window_retention"
    and "sorted (now0 # map fst calls)"
    and "\<forall>(now, key, limit) \<in> set calls. trim_space key \<noteq> [] \<and> 0 < limit"
  shows "run_sliding w calls c = spec_sliding w calls hist"
  using assms(1,4,5)
proof (induction calls arbitrary: c hist now0)
  case (Cons call calls)
  obtain now key limit where call: "call = (now, key, limit)" by (cases call) auto
  obtain c' allowed where step: "allow_sliding_window now key limit w c = (c', allowed)"
    by (cases "allow_sliding_window now key limit w c") auto
  have "allowed = sliding_decision w hist (now, key, limit)"
       "sliding_rel w now (hist @ (if allowed then [(key, now)] else [])) c'"
    using sliding_step [OF Cons.prems(1) _ assms(2,3) _ _ step] Cons.prems call by auto
  then show ?case
    using Cons.IH [of now "hist @ (if allowed then [(key, now)] else [])" c'] Cons.prems call step
    by auto
qed simp

lemma sliding_rel_new: "sliding_rel w now [] new_cache"
  by (simp add: sliding_rel_def recent_def logged_def new_cache_def)

lemma sliding_from_new:
  assumes "0 < w" "w \<le> sliding_window_retention" "sorted (map fst calls)"
    and "\<forall>(now, key, limit) \<in> set calls. trim_space key \<noteq> [] \<and> 0 < limit"
  shows "run_sliding w calls new_cache = spec_sliding w calls []"
proof (cases calls)
  case (Cons call rest)
  then show ?thesis
    using sliding_refines [OF sliding_rel_new [of w "fst call"] assms(1,2) _ assms(4)] assms(3) by simp
qed simp

text \<open>The log never holds more than the limit in a window.\<close>

definition admitted_log :: "duration \<Rightarrow> sliding_call list \<Rightarrow> (string \<times> gtime) list \<Rightarrow> (string \<times> gtime) list" where
  "admitted_log w calls hist =
     map (\<lambda>(call, _). (fst (snd call), fst call)) (filter snd (zip calls (spec_sliding w calls hist)))"

definition in_window :: "(string \<times> gtime) list \<Rightarrow> string \<Rightarrow> duration \<Rightarrow> gtime \<Rightarrow> int" where
  "in_window hist key w t = int (length (filter (\<lambda>(k, e). k = key \<and> t - w < e \<and> e \<le> t) hist))"

lemma admitted_log_Cons:
  "admitted_log w (call # calls) hist =
     (if sliding_decision w hist call
      then (fst (snd call), fst call) # admitted_log w calls (hist @ [(fst (snd call), fst call)])
      else admitted_log w calls hist)"
  by (simp add: admitted_log_def)

lemma filter_length_mono: "(\<And>x. x \<in> set l \<Longrightarrow> P x \<Longrightarrow> Q x) \<Longrightarrow> length (filter P l) \<le> length (filter Q l)"
  by (induction l) (auto simp: le_SucI)

lemma in_window_append_one:
  assumes "\<forall>t. in_window hist key w t \<le> L" "\<forall>(k, e) \<in> set hist. e \<le> now"
    and "sliding_decision w hist (now, k, limit)" "limit \<le> L" "0 < w"
  shows "in_window (hist @ [(k, now)]) key w t \<le> L"
proof (cases "k = key \<and> t - w < now \<and> now \<le> t")
  case True
  have "in_window hist key w t \<le> int (length (filter (\<lambda>(k, e). k = key \<and> e > now - w) hist))"
    unfolding in_window_def using True by (intro of_nat_mono filter_length_mono) auto
  then show ?thesis
    using assms(3,4) True by (simp add: sliding_decision_def in_window_def)
next
  case False
  then have "filter (\<lambda>(k, e). k = key \<and> t - w < e \<and> e \<le> t) [(k, now)] = []" by auto
  then have "in_window (hist @ [(k, now)]) key w t = in_window hist key w t"
    by (simp only: in_window_def filter_append append_Nil2)
  then show ?thesis using assms(1) by simp
qed

lemma admitted_in_window:
  assumes "0 < w" "\<forall>t. in_window hist key w t \<le> L" "\<forall>(k, e) \<in> set hist. e \<le> now"
    and "sorted (now # map fst calls)" "\<forall>(t, k, limit) \<in> set calls. limit \<le> L"
  shows "in_window (hist @ admitted_log w calls hist) key w t \<le> L"
  using assms(2-)
proof (induction calls arbitrary: hist now)
  case Nil
  then show ?case by (simp add: admitted_log_def)
next
  case (Cons call calls)
  obtain now' k limit where call: "call = (now', k, limit)" by (cases call) auto
  have older: "\<forall>(k, e) \<in> set hist. e \<le> now'" using Cons.prems call by auto
  show ?case
  proof (cases "sliding_decision w hist call")
    case True
    with older have "\<forall>t. in_window (hist @ [(k, now')]) key w t \<le> L"
      using in_window_append_one [of hist key w L now' k limit] Cons.prems True call assms(1) by simp
    then show ?thesis
      using Cons.IH [of "hist @ [(k, now')]" now'] Cons.prems True call older
      by (simp add: admitted_log_Cons)
  next
    case False
    then show ?thesis using Cons.IH [of hist now'] Cons.prems call older by (auto simp: admitted_log_Cons)
  qed
qed

text \<open>
  C37: The sliding-window limiter, with its pruning and the sweeps of the cache, decides every
  call as the specification over the full log does, for windows up to the sweep's retention.
\<close>

theorem sliding_window_refines_log:
  assumes "0 < w" "w \<le> sliding_window_retention" "sorted (map fst calls)"
    and "\<forall>(now, key, limit) \<in> set calls. trim_space key \<noteq> [] \<and> 0 < limit"
  shows "run_sliding w calls new_cache = spec_sliding w calls []"
  using assms by (rule sliding_from_new)

text \<open>
  In every window of length \<open>w\<close>, wherever it starts, the limiter admits at most \<open>L\<close> calls
  of a key when no call asks for a higher limit.
\<close>

theorem sliding_window_limit:
  assumes "0 < w" "w \<le> sliding_window_retention" "sorted (map fst calls)" "0 \<le> L"
    and "\<forall>(now, key, limit) \<in> set calls. trim_space key \<noteq> [] \<and> 0 < limit \<and> limit \<le> L"
  shows "int (length (filter (\<lambda>((now, k, limit), allowed). allowed \<and> k = key \<and> t - w < now \<and> now \<le> t)
           (zip calls (run_sliding w calls new_cache)))) \<le> L"
proof -
  have run: "run_sliding w calls new_cache = spec_sliding w calls []"
    using assms by (intro sliding_from_new) auto
  have "sorted ((if calls = [] then 0 else fst (hd calls)) # map fst calls)"
    using assms(3) by (cases calls) auto
  moreover have "\<forall>t. in_window [] key w t \<le> L" "\<forall>(t, k, limit) \<in> set calls. limit \<le> L"
    using assms(4,5) by (auto simp: in_window_def)
  ultimately have "in_window ([] @ admitted_log w calls []) key w t \<le> L"
    by (intro admitted_in_window [OF assms(1), of _ _ _ "if calls = [] then 0 else fst (hd calls)"]) simp_all
  moreover have "(\<lambda>((now, k, limit::int), allowed). allowed \<and> k = key \<and> t - w < now \<and> now \<le> t)
      = (\<lambda>x. snd x \<and> fst (snd (fst x)) = key \<and> t - w < fst (fst x) \<and> fst (fst x) \<le> t)"
    by auto
  ultimately show ?thesis
    by (simp add: run in_window_def admitted_log_def filter_map comp_def split_beta)
qed

section \<open>Policies\<close>

lemma policy_fields [simp]:
  "rp_Name (new_rate_limit_policy n l m) = n"
  "rp_Window (new_rate_limit_policy n l m) = go_minute"
  "rp_TTL (new_rate_limit_policy n l m) = 2 * go_minute"
  by (simp_all add: new_rate_limit_policy_def rate_limit_constants)

lemma policy_limit_pos: "0 < rp_Limit (new_rate_limit_policy n l m)"
  by (simp add: new_rate_limit_policy_def rate_limit_constants)

lemma at_least_ge: "minimum \<le> at_least v minimum"
  by (simp add: at_least_def)

lemma policy_at_least: "0 < b \<Longrightarrow> b \<le> rp_Limit (new_rate_limit_policy n (at_least v b) m)"
  using at_least_ge [of b v] by (simp add: new_rate_limit_policy_def)

lemma policy_floor: "30 \<le> b \<Longrightarrow> 30 \<le> rp_Limit (new_rate_limit_policy n (at_least v b) m)"
  using policy_at_least [of b n v m] by simp

text \<open>
  Every policy of a signed-in route has a one-minute window and a limit of at least 30
  requests, whatever number the configuration holds.
\<close>

theorem authenticated_policy_floor:
  "rp_Window (authenticated_rate_limit_policy m route rpm) = go_minute \<and>
   30 \<le> rp_Limit (authenticated_rate_limit_policy m route rpm)"
  by (simp add: authenticated_rate_limit_policy_def policy_floor rate_limit_constants)

lemma user_rate_limit_key_inj:
  "user_rate_limit_key u n = user_rate_limit_key u' n' \<longleftrightarrow> u = u' \<and> n = n'"
proof
  assume "user_rate_limit_key u n = user_rate_limit_key u' n'"
  then have eq: "dec u @ '':'' @ n = dec u' @ '':'' @ n'" by (simp add: user_rate_limit_key_def)
  let ?p = "\<lambda>c. c \<noteq> CHR '':''"
  have "takeWhile ?p (dec v @ '':'' @ l) = dec v" for v l
    using colon_notin_dec by (subst takeWhile_append2) auto
  with eq have "dec u = dec u'" by metis
  with eq show "u = u' \<and> n = n'" by (simp add: dec_inj)
qed simp

text \<open>
  An administrator, or a request without a user, is never refused and leaves no trace in
  the limiter.
\<close>

theorem admin_bypasses_rate_limit:
  assumes "rq_user r = None \<or> (\<exists>role. rq_role r = Some role \<and> is_admin_role role)"
  shows "rate_limit enabled runtime now r c = (c, None)"
  using assms by (auto simp: rate_limit_def split: option.splits)

section \<open>Fixed windows\<close>

lemma sweep_keeps_fixed:
  "now \<le> fw_expiresAt i \<Longrightarrow> fixedHTTP (maybe_sweep now (c\<lparr>fixedHTTP := m(k \<mapsto> i)\<rparr>)) k = Some i"
  by (simp add: maybe_sweep_fields map_sweep_apply)

lemma allow_fixed_one:
  assumes "trim_space key \<noteq> []" "0 < limit" "0 < ttl" "0 < now"
  shows "let i = fixed_window_hit now ttl (fixedHTTP c (trim_space key))
    in snd (allow_fixed_window now [key] limit ttl c) = (fw_count i \<le> limit) \<and>
       fixedHTTP (fst (allow_fixed_window now [key] limit ttl c)) (trim_space key) = Some i"
proof -
  let ?i = "fixed_window_hit now ttl (fixedHTTP c (trim_space key))"
  have "now \<le> fw_expiresAt ?i"
    using assms(3,4) by (auto simp: fixed_window_hit_def Let_def split: option.splits)
  then show ?thesis
    using assms by (simp add: allow_fixed_window_def Let_def sweep_keeps_fixed not_less)
qed

text \<open>\<open>hits\<close>: consecutive calls for one key, at the given times.\<close>

fun hits :: "string \<Rightarrow> int \<Rightarrow> duration \<Rightarrow> gtime list \<Rightarrow> cache \<Rightarrow> bool list" where
  "hits key limit ttl [] c = []"
| "hits key limit ttl (t # ts) c =
     (let (c', ok) = allow_fixed_window t [key] limit ttl c in ok # hits key limit ttl ts c')"

lemma hits_in_window:
  assumes "trim_space key \<noteq> []" "0 < limit" "0 < ttl"
    and "fixedHTTP c (trim_space key) = Some i" "\<forall>t \<in> set ts. 0 < t \<and> t \<le> fw_expiresAt i"
  shows "hits key limit ttl ts c = map (\<lambda>n. fw_count i + int n + 1 \<le> limit) [0..<length ts]"
  using assms(4,5)
proof (induction ts arbitrary: c i)
  case (Cons t ts)
  let ?i = "i\<lparr>fw_count := fw_count i + 1\<rparr>"
  have "fixed_window_hit t ttl (Some i) = ?i"
    using Cons.prems by (simp add: fixed_window_hit_def)
  then have step: "snd (allow_fixed_window t [key] limit ttl c) = (fw_count i + 1 \<le> limit)"
       "fixedHTTP (fst (allow_fixed_window t [key] limit ttl c)) (trim_space key) = Some ?i"
    using allow_fixed_one [OF assms(1-3), of t c] Cons.prems by (simp_all add: Let_def)
  have "[0..<length (t # ts)] = 0 # map Suc [0..<length ts]"
    by (simp add: upt_conv_Cons map_Suc_upt del: upt_Suc)
  then show ?case
    using Cons.IH [OF step(2)] Cons.prems step(1) by (simp add: split_beta ac_simps comp_def)
qed simp

text \<open>
  A window of the fixed-window limiter opens with its first call at time \<open>t0\<close>; of the calls
  up to \<open>t0 + ttl\<close> exactly the first \<open>limit\<close> are admitted.
\<close>

theorem fixed_window_admits_exactly:
  assumes "trim_space key \<noteq> []" "0 < limit" "0 < ttl"
    and "fixedHTTP c (trim_space key) = None"
    and "0 < t0" "\<forall>t \<in> set ts. 0 < t \<and> t \<le> t0 + ttl"
  shows "hits key limit ttl (t0 # ts) c = map (\<lambda>n. int n < limit) [0..<length (t0 # ts)]"
proof -
  let ?i = "\<lparr>fw_count = 1, fw_expiresAt = t0 + ttl\<rparr>"
  have "fixed_window_hit t0 ttl None = ?i"
    using assms by (simp add: fixed_window_hit_def)
  then have step: "snd (allow_fixed_window t0 [key] limit ttl c) = (1 \<le> limit)"
      "fixedHTTP (fst (allow_fixed_window t0 [key] limit ttl c)) (trim_space key) = Some ?i"
    using allow_fixed_one [OF assms(1-3,5), of c] assms(4) by (simp_all add: Let_def)
  have "[0..<length (t0 # ts)] = 0 # map Suc [0..<length ts]"
    by (simp add: upt_conv_Cons map_Suc_upt del: upt_Suc)
  then show ?thesis
    using hits_in_window [OF assms(1-3) step(2), of ts] assms step(1)
    by (auto simp: split_beta ac_simps comp_def)
qed

section \<open>Backoff\<close>

lemma backoff_loop_exact:
  assumes "0 < b" "1 < mult" "maxSec * mult \<le> int64_max"
  shows "min maxSec (backoff_loop n maxSec mult b) = min maxSec (b * mult ^ n)"
  using assms(1)
proof (induction n arbitrary: b)
  case (Suc n)
  have pow: "1 \<le> mult ^ k" for k using assms(2) by simp
  show ?case
  proof (cases "b \<ge> maxSec")
    case True
    have "b * 1 \<le> b * mult ^ Suc n" using pow [of "Suc n"] Suc.prems by (intro mult_left_mono) auto
    with True have "maxSec \<le> b * (mult * mult ^ n)" by simp
    with True show ?thesis by simp
  next
    case False
    have "b * mult \<le> maxSec * mult" using False assms(2) by (intro mult_right_mono) auto
    then have "b * mult \<le> int64_max" using assms(3) by linarith
    moreover have pos: "0 < b * mult" using Suc.prems assms(2) by simp
    ultimately have exact: "wrap64 (b * mult) = b * mult" by (simp add: in_int64_def)
    have "b * mult * 1 \<le> b * mult * mult ^ n" using pow [of n] pos by (intro mult_left_mono) auto
    then show ?thesis
      using False exact Suc.IH [OF pos] by (auto simp: Let_def ac_simps)
  qed
qed simp

text \<open>
  The backoff of the \<open>n\<close>-th consecutive rate-limit answer is the base times the multiplier to
  the power \<open>n - 1\<close>, raised to the server's Retry-After and capped at the maximum, as long as
  the maximum times the multiplier fits in an \<^verbatim>\<open>int\<close>.
\<close>

theorem backoff_closed_form:
  assumes "0 < rb_BackoffBaseSec p" "0 < rb_BackoffMaxSec p" "1 < rb_BackoffMultiplier p"
    and "rb_BackoffMaxSec p * rb_BackoffMultiplier p \<le> int64_max"
  shows "calculate_backoff_seconds (int n + 1) p =
    min (rb_BackoffMaxSec p)
      (max (rb_RetryAfterSec p) (rb_BackoffBaseSec p * rb_BackoffMultiplier p ^ n))"
  using backoff_loop_exact [OF assms(1,3,4), of n] assms
  by (simp add: calculate_backoff_seconds_def Let_def min_def max_def split: if_splits)

interpretation backoffs: swept_store
    "\<lambda>now e. now > backoffUntil e \<and> now > countExpires e"
    "\<lambda>t st. case st of None \<Rightarrow> (0, 0)
       | Some e \<Rightarrow> (max 0 (until t (backoffUntil e)), if t > countExpires e then 0 else backoffCount e)"
  by unfold_locales (auto simp: until_def)

text \<open>
  A sweep between two answers never changes the remaining backoff of a route, nor the
  backoff its next rate-limit answer leads to.
\<close>

theorem sweep_keeps_backoff:
  assumes "0 \<le> now" "now < t"
  shows "get_rate_limit_backoff t u r (maybe_sweep now c) = get_rate_limit_backoff t u r c \<and>
    next_backoff t p (rateLimits (maybe_sweep now c) (u, r)) = next_backoff t p (rateLimits c (u, r))"
proof -
  let ?view = "\<lambda>st. case st of None \<Rightarrow> (0, 0)
       | Some e \<Rightarrow> (max 0 (until t (backoffUntil e)), if t > countExpires e then 0 else backoffCount e)"
  have view: "?view (rateLimits (maybe_sweep now c) (u, r)) = ?view (rateLimits c (u, r))"
    using assms by (simp add: maybe_sweep_fields backoffs.sweep_invisible)
  have get: "get_rate_limit_backoff t u r c' = (if u = 0 \<or> r = 0 then 0 else fst (?view (rateLimits c' (u, r))))" for c'
    using assms by (auto simp: get_rate_limit_backoff_def until_def Let_def split: option.splits)
  have nxt: "next_backoff t p st = \<lparr>backoffUntil = t + seconds (calculate_backoff_seconds (wrap64 (snd (?view st) + 1)) p),
      backoffCount = wrap64 (snd (?view st) + 1), countExpires = t + 5 * go_minute\<rparr>" for st
    using assms by (auto simp: next_backoff_def Let_def split: option.splits)
  show ?thesis unfolding get nxt view by simp
qed

text \<open>
  After a rate-limit answer the route is in backoff until the computed time, and is free
  from then on.
\<close>

theorem recorded_backoff_lasts:
  assumes "0 < now" "rb_UpstreamID p \<noteq> 0" "rb_RouteID p \<noteq> 0" "now \<le> t"
    and "calculate_backoff_seconds (backoffCount (next_backoff now p (rateLimits c (rb_UpstreamID p, rb_RouteID p)))) p = s"
    and "0 < s" "s \<le> 9223372036"
  shows "get_rate_limit_backoff t (rb_UpstreamID p) (rb_RouteID p) (record_rate_limit_backoff now p c)
           = max 0 (now + s * go_second - t)"
proof -
  let ?n = "next_backoff now p (rateLimits c (rb_UpstreamID p, rb_RouteID p))"
  have "rateLimits (record_rate_limit_backoff now p c) (rb_UpstreamID p, rb_RouteID p) = Some ?n"
    using assms(1-3) by (simp add: record_rate_limit_backoff_def maybe_sweep_fields map_sweep_apply
        next_backoff_def Let_def)
  moreover have "backoffUntil ?n = now + s * go_second"
    using assms(5-7) by (simp add: next_backoff_def Let_def seconds_exact)
  ultimately show ?thesis
    using assms by (simp add: get_rate_limit_backoff_def until_def Let_def)
qed

section \<open>Retry-After against the window\<close>

text \<open>
  The public limiter counts over \<^verbatim>\<open>policy.TTL\<close>, two minutes, not over the one-minute window:
  a client refused at \<open>t0\<close> that comes back after the 60 seconds of its \<^verbatim>\<open>Retry-After\<close> is still
  refused, up to \<open>t0 + 120s\<close>, for a limit named and configured per minute.
\<close>

theorem public_limit_outlasts_retry_after:
  assumes "policy = public_rate_limit_policy m route rpm"
    and "fixedHTTP c (trim_space key) = None" "trim_space key \<noteq> []" "0 < t0"
    and "retry_after_seconds policy * go_second < d" "d \<le> 2 * go_minute"
  shows "last (hits key (rp_Limit policy) (rp_TTL policy)
           (replicate (Suc (nat (rp_Limit policy))) t0 @ [t0 + d]) c) = False"
proof -
  obtain n l msg where p: "policy = new_rate_limit_policy n l msg"
    using assms(1) by (auto simp: public_rate_limit_policy_def split: if_splits)
  then have pos: "0 < rp_Limit policy" by (simp add: policy_limit_pos)
  have ttl: "rp_TTL policy = 2 * go_minute" and d: "0 < d"
    using p assms(5) by (simp_all add: retry_after_seconds_def)
  have "hits key (rp_Limit policy) (rp_TTL policy)
         (t0 # (replicate (nat (rp_Limit policy)) t0 @ [t0 + d])) c
       = map (\<lambda>n. int n < rp_Limit policy) [0..<length (t0 # (replicate (nat (rp_Limit policy)) t0 @ [t0 + d]))]"
    using assms(2-4,6) pos d unfolding ttl by (intro fixed_window_admits_exactly) auto
  then show ?thesis by (simp add: last_map)
qed

section \<open>Round robin\<close>

fun incr_many :: "gtime list \<Rightarrow> nat \<Rightarrow> cache \<Rightarrow> int list" where
  "incr_many [] u c = []"
| "incr_many (t # ts) u c = (let (c', n) = incr_api_key_counter t u c in n # incr_many ts u c')"

lemma incr_step:
  "keyCounters (fst (incr_api_key_counter t u c)) u
     = Some \<lparr>next_index = wrap64 (snd (incr_api_key_counter t u c) + 1), lastUsed = t\<rparr>"
  by (simp add: incr_api_key_counter_def Let_def maybe_sweep_fields map_sweep_apply retention_defs)

lemma incr_value:
  "snd (incr_api_key_counter t u c) = (case keyCounters c u of None \<Rightarrow> 0 | Some k \<Rightarrow> next_index k)"
  by (simp add: incr_api_key_counter_def Let_def)

lemma incr_many_from:
  "keyCounters c u = Some k \<Longrightarrow> in_int64 (next_index k) \<Longrightarrow>
     incr_many ts u c = map (\<lambda>i. wrap64 (next_index k + int i)) [0..<length ts]"
proof (induction ts arbitrary: c k)
  case (Cons t ts)
  let ?c = "fst (incr_api_key_counter t u c)"
  have n: "snd (incr_api_key_counter t u c) = next_index k" by (simp add: incr_value Cons.prems)
  have "[0..<length (t # ts)] = 0 # map Suc [0..<length ts]"
    by (simp add: upt_conv_Cons map_Suc_upt del: upt_Suc)
  then show ?case
    using Cons.IH [OF incr_step [of t u c]] Cons.prems(2)
    by (simp add: split_beta n wrap64_add_wrap64 wrap64_wrap64_add ac_simps comp_def)
qed simp

text \<open>
  The calls for one upstream return 0, 1, 2, ... in order, at whatever times they come,
  up to the wrap-around of the counter.
\<close>

theorem key_counter_consecutive:
  assumes "keyCounters c u = None"
  shows "incr_many ts u c = map (\<lambda>i. wrap64 (int i)) [0..<length ts]"
proof (cases ts)
  case (Cons t rest)
  have n: "snd (incr_api_key_counter t u c) = 0" by (simp add: incr_value assms)
  have one: "wrap64 1 = 1" by (simp add: in_int64_def)
  have "[0..<length (t # rest)] = 0 # map Suc [0..<length rest]"
    by (simp add: upt_conv_Cons map_Suc_upt del: upt_Suc)
  then show ?thesis
    using incr_many_from [OF incr_step [of t u c], of rest] n one
    by (simp add: Cons split_beta ac_simps comp_def in_int64_def)
qed simp

section \<open>Witnesses\<close>

lemma trim_k [simp]: "trim_space ''k'' = ''k''"
  by (simp add: trim_eval)

theorem sliding_window_refines_log_witness:
  "run_sliding go_minute [(1, ''k'', 1), (2, ''k'', 1), (70000000000, ''k'', 1)] new_cache = [True, False, True]"
  using sliding_window_refines_log [of go_minute "[(1, ''k'', 1), (2, ''k'', 1), (70000000000, ''k'', 1)]"]
  by (simp add: sliding_window_retention_def sliding_decision_def)

theorem sliding_window_limit_witness:
  "int (length (filter (\<lambda>((now, k, limit), allowed). allowed \<and> k = ''k'' \<and> 10 - go_minute < now \<and> now \<le> 10)
     (zip [(1, ''k'', 2::int), (2, ''k'', 2), (3, ''k'', 2)]
       (run_sliding go_minute [(1, ''k'', 2), (2, ''k'', 2), (3, ''k'', 2)] new_cache)))) \<le> 2"
  by (rule sliding_window_limit) (simp_all add: sliding_window_retention_def)

theorem admin_bypasses_rate_limit_witness:
  "rate_limit True (Some 60) 5 \<lparr>rq_method = ''POST'', rq_fullPath = ''/files'', rq_urlPath = [],
     rq_clientIP = [], rq_user = Some 3, rq_role = Some ''admin''\<rparr> new_cache = (new_cache, None)"
  by (rule admin_bypasses_rate_limit) (simp add: is_admin_role_def)

theorem fixed_window_admits_exactly_witness:
  "hits ''k'' 2 go_minute [10, 20, 30, 40] new_cache = [True, True, False, False]"
  using fixed_window_admits_exactly [of "''k''" 2 go_minute new_cache 10 "[20, 30, 40]"]
  by (simp add: new_cache_def)

definition sample_backoff :: rate_limit_backoff_params where
  "sample_backoff = \<lparr>rb_UpstreamID = 1, rb_RouteID = 2, rb_BackoffBaseSec = 5, rb_BackoffMaxSec = 60,
     rb_BackoffMultiplier = 2, rb_RetryAfterSec = 0\<rparr>"

theorem backoff_closed_form_witness: "calculate_backoff_seconds 4 sample_backoff = 40"
  using backoff_closed_form [of sample_backoff 3] by (simp add: sample_backoff_def)

theorem sweep_keeps_backoff_witness:
  "get_rate_limit_backoff 6 1 2 (maybe_sweep 5 (new_cache\<lparr>ops := 255\<rparr>)) = get_rate_limit_backoff 6 1 2 (new_cache\<lparr>ops := 255\<rparr>)"
  using sweep_keeps_backoff [of 5 6 1 2 "new_cache\<lparr>ops := 255\<rparr>" sample_backoff] by simp

theorem recorded_backoff_lasts_witness:
  "get_rate_limit_backoff 1000000007 1 2 (record_rate_limit_backoff 7 sample_backoff new_cache) = 4000000000"
proof -
  have "wrap64 1 = 1" by (simp add: in_int64_def)
  then have "calculate_backoff_seconds (backoffCount (next_backoff 7 sample_backoff
      (rateLimits new_cache (rb_UpstreamID sample_backoff, rb_RouteID sample_backoff)))) sample_backoff = 5"
    by (simp add: next_backoff_def new_cache_def calculate_backoff_seconds_def sample_backoff_def)
  from recorded_backoff_lasts [OF _ _ _ _ this, of 1000000007] show ?thesis
    by (simp add: sample_backoff_def)
qed

theorem public_limit_outlasts_retry_after_witness:
  "last (hits ''k'' 30 (2 * go_minute) (replicate 31 1 @ [1 + 90 * go_second]) new_cache) = False"
proof -
  let ?p = "public_rate_limit_policy ''POST'' ''/auth/login'' 30"
  have p: "?p = new_rate_limit_policy ''public_auth'' 30 ''too many authentication attempts''"
    by (simp add: public_rate_limit_policy_def is_public_auth_read_route_def has_prefix_def)
  have "last (hits ''k'' (rp_Limit ?p) (rp_TTL ?p)
           (replicate (Suc (nat (rp_Limit ?p))) 1 @ [1 + 90 * go_second]) new_cache) = False"
    by (rule public_limit_outlasts_retry_after [of _ "''POST''" "''/auth/login''" 30, OF refl])
       (simp_all add: new_cache_def p retry_after_seconds_def)
  then show ?thesis by (simp add: p new_rate_limit_policy_def rate_limit_window_def eval_nat_numeral)
qed

theorem key_counter_consecutive_witness:
  "incr_many [10, 20, 30] 1 new_cache = [0, 1, 2]"
  using key_counter_consecutive [of new_cache 1 "[10, 20, 30]"]
  by (simp add: new_cache_def in_int64_def upt_rec)

end
