(* ===== verification/Route_Model.thy ===== *)
theory Route_Model
  imports Circuit_Breaker Rate_Limit
begin

text \<open>
  The pure part of route resolution (\<^verbatim>\<open>application/channel\<close>): adapters, task types and model
  kinds (\<^verbatim>\<open>ports/llm/adapter.go\<close>, \<^verbatim>\<open>model_catalog.go\<close>), the normalisations of
  \<^verbatim>\<open>service_view_normalization.go\<close>, the weighted choice, the circuit parameters of a route and
  the classification of failures (\<^verbatim>\<open>service_routing.go\<close>).
\<close>

section \<open>Adapters and tasks\<close>

definition normalize_adapter :: "string \<Rightarrow> string" where
  "normalize_adapter raw =
     (let value = trim_space (to_lower raw) in if value = [] then ''openai_responses'' else value)"

definition implemented_adapters :: "string list" where
  "implemented_adapters = [''openai_responses'', ''openrouter_chat_completions'', ''openrouter_responses'',
     ''openai_chat_completions'', ''openai_image_generations'', ''openai_image_edits'', ''xai_responses'',
     ''anthropic_messages'', ''google_generate_content'', ''google_image_generation'',
     ''gemini_interactions'', ''xai_image'', ''xai_image_edits'', ''xai_video'', ''xai_video_extensions'']"

definition is_implemented_adapter :: "string \<Rightarrow> bool" where
  "is_implemented_adapter raw \<longleftrightarrow> normalize_adapter raw \<in> set implemented_adapters"

definition supports_streaming_adapter :: "string \<Rightarrow> bool" where
  "supports_streaming_adapter raw \<longleftrightarrow> normalize_adapter raw \<in>
     {''openai_responses'', ''openrouter_chat_completions'', ''openrouter_responses'',
      ''openai_chat_completions'', ''openai_image_generations'', ''openai_image_edits'',
      ''anthropic_messages'', ''google_generate_content'', ''google_image_generation'',
      ''gemini_interactions'', ''xai_responses''}"

datatype task_type = TaskChat | TaskImageGeneration | TaskImageEdit | TaskVideoGeneration | TaskVideoExtension

definition normalize_task_type :: "string \<Rightarrow> task_type" where
  "normalize_task_type raw =
     (let v = trim_space (to_lower raw) in
      if v = ''image_generation'' then TaskImageGeneration
      else if v = ''image_edit'' then TaskImageEdit
      else if v = ''video_generation'' then TaskVideoGeneration
      else if v = ''video_extension'' then TaskVideoExtension
      else TaskChat)"

definition chat_protocols :: "string list" where
  "chat_protocols = [''openai_responses'', ''openrouter_chat_completions'', ''openrouter_responses'',
     ''openai_chat_completions'', ''anthropic_messages'', ''google_generate_content'',
     ''gemini_interactions'', ''xai_responses'']"

definition audio_protocols :: "string list" where
  "audio_protocols = [''openai_responses'', ''openrouter_chat_completions'', ''openrouter_responses'',
     ''openai_chat_completions'', ''anthropic_messages'', ''google_generate_content'', ''xai_responses'']"

definition is_protocol_allowed_for_kind :: "string \<Rightarrow> string \<Rightarrow> bool" where
  "is_protocol_allowed_for_kind kind protocol =
     (if kind = ''chat'' then protocol \<in> set chat_protocols
      else if kind = ''audio'' then protocol \<in> set audio_protocols
      else if kind = ''image_gen'' then protocol \<in> {''openai_image_generations'', ''google_image_generation'',
          ''gemini_interactions'', ''xai_image''}
      else if kind = ''image_edit'' then protocol \<in> {''openai_image_edits'', ''google_image_generation'',
          ''gemini_interactions'', ''xai_image_edits''}
      else if kind = ''video_gen'' then protocol \<in> {''openai_video_generations'', ''gemini_interactions'', ''xai_video''}
      else if kind = ''video_extension'' then protocol = ''xai_video_extensions''
      else False)"

fun normalize_kind_list :: "string list \<Rightarrow> string list \<Rightarrow> string list" where
  "normalize_kind_list [] seen = []"
| "normalize_kind_list (kind # kinds) seen =
     (let value = trim_space (to_lower kind) in
      if value = [] \<or> value \<in> set seen then normalize_kind_list kinds seen
      else value # normalize_kind_list kinds (value # seen))"

text \<open>\<open>json_strings\<close> is \<^verbatim>\<open>json.Unmarshal\<close> into a \<^verbatim>\<open>[]string\<close>; \<open>None\<close> is its error.\<close>

definition parse_kinds :: "(string \<Rightarrow> string list option) \<Rightarrow> string \<Rightarrow> string list" where
  "parse_kinds json_strings raw =
     (let value = trim_space raw in
      if value = [] then []
      else case (if has_prefix value ''['' then json_strings value else None) of
             Some parsed \<Rightarrow> normalize_kind_list parsed []
           | None \<Rightarrow> normalize_kind_list [value] [])"

definition is_route_allowed_for_task :: "string \<Rightarrow> string list \<Rightarrow> string \<Rightarrow> bool" where
  "is_route_allowed_for_task taskType kinds protocol0 =
     (let protocol = trim_space (to_lower protocol0) in
      if kinds = [] then
        (case normalize_task_type taskType of
           TaskImageGeneration \<Rightarrow> is_protocol_allowed_for_kind ''image_gen'' protocol
         | TaskImageEdit \<Rightarrow> is_protocol_allowed_for_kind ''image_edit'' protocol
         | TaskVideoGeneration \<Rightarrow> is_protocol_allowed_for_kind ''video_gen'' protocol \<and>
             protocol \<noteq> ''xai_video_extensions''
         | TaskVideoExtension \<Rightarrow> is_protocol_allowed_for_kind ''video_extension'' protocol
         | TaskChat \<Rightarrow> is_protocol_allowed_for_kind ''chat'' protocol \<or>
             is_protocol_allowed_for_kind ''audio'' protocol)
      else
        (case normalize_task_type taskType of
           TaskImageGeneration \<Rightarrow> ''image_gen'' \<in> set kinds \<and> is_protocol_allowed_for_kind ''image_gen'' protocol
         | TaskImageEdit \<Rightarrow> ''image_edit'' \<in> set kinds \<and> is_protocol_allowed_for_kind ''image_edit'' protocol
         | TaskVideoGeneration \<Rightarrow> ''video_gen'' \<in> set kinds \<and>
             is_protocol_allowed_for_kind ''video_gen'' protocol \<and> protocol \<noteq> ''xai_video_extensions''
         | TaskVideoExtension \<Rightarrow> ''video_extension'' \<in> set kinds \<and>
             is_protocol_allowed_for_kind ''video_extension'' protocol
         | TaskChat \<Rightarrow> (\<exists>kind \<in> set kinds. (kind = ''chat'' \<or> kind = ''audio'') \<and>
             is_protocol_allowed_for_kind kind protocol)))"

section \<open>Normalisation\<close>

datatype route_scope = ScopeUser | ScopeInternal

definition normalize_route_scope :: "string \<Rightarrow> route_scope" where
  "normalize_route_scope raw = (if trim_space (to_lower raw) = ''internal'' then ScopeInternal else ScopeUser)"

definition normalize_model_access_scope_value :: "string \<Rightarrow> string" where
  "normalize_model_access_scope_value raw =
     (let value = trim_space (to_lower raw) in if value = [] then ''public'' else value)"

definition route_scope_allows_model_access :: "string \<Rightarrow> string \<Rightarrow> bool" where
  "route_scope_allows_model_access routeScope modelAccessScope =
     (if normalize_route_scope routeScope = ScopeInternal then True
      else normalize_model_access_scope_value modelAccessScope = ''public'')"

definition normalize_cb_logic :: "string \<Rightarrow> string" where
  "normalize_cb_logic raw = (if trim_space raw = ''and'' then ''and'' else ''or'')"

definition policy_enforced :: "string \<Rightarrow> bool" where
  "policy_enforced raw \<longleftrightarrow> trim_space (to_lower raw) = ''enforced''"

text \<open>
  A rune that is a control character, or a space other than \<^verbatim>\<open>' '\<close>, makes a model name invalid:
  the C0 and C1 controls, DEL, and the other entries of \<open>go_spaces\<close>.
\<close>

definition unsafe_model_name_rune :: "string \<Rightarrow> bool" where
  "unsafe_model_name_rune r \<longleftrightarrow>
     (case r of [c] \<Rightarrow> (of_char c :: nat) < 0x20 \<or> (of_char c :: nat) = 0x7F
      | [c, d] \<Rightarrow> c = CHR 0xC2 \<and> 0x80 \<le> (of_char d :: nat) \<and> (of_char d :: nat) \<le> 0x9F
      | _ \<Rightarrow> False) \<or> (r \<in> set go_spaces \<and> r \<noteq> '' '')"

definition normalize_platform_model_name :: "string \<Rightarrow> string option" where
  "normalize_platform_model_name raw =
     (let value = trim_space raw in
      if value = [] then None
      else if \<exists>r \<in> set (go_runes value). unsafe_model_name_rune r then None
      else Some value)"

definition truncate_message :: "string \<Rightarrow> int \<Rightarrow> string" where
  "truncate_message message limit =
     (let v = trim_space message in
      if limit \<le> 0 \<or> int (length (go_runes v)) \<le> limit then v
      else concat (take (nat limit) (go_runes v)))"

section \<open>Routes\<close>

record route_row =
  rr_RouteID :: nat
  rr_UpstreamModelID :: nat
  rr_UpstreamID :: nat
  rr_UpstreamName :: string
  rr_PlatformModelID :: nat
  rr_PlatformModelName :: string
  rr_ModelVendor :: string
  rr_ModelIcon :: string
  rr_ModelKindsJSON :: string
  rr_ModelCapabilitiesJSON :: string
  rr_ModelSystemPrompt :: string
  rr_Protocol :: string
  rr_BaseURL :: string
  rr_APIKeysEnc :: string
  rr_ConnectTimeoutMS :: int
  rr_ReadTimeoutMS :: int
  rr_StreamIdleTimeoutMS :: int
  rr_HeadersJSON :: string
  rr_RouteHeadersJSON :: string
  rr_BindingCode :: string
  rr_UpstreamModelName :: string
  rr_Weight :: int
  rr_RoutePriority :: int
  rr_UpstreamCbFailureThreshold :: int
  rr_UpstreamCbModelThreshold :: int
  rr_UpstreamCbThresholdLogic :: string
  rr_UpstreamCbDurationMin :: int
  rr_UpstreamCbWindowMin :: int
  rr_PlatformModelCbPolicyMode :: string
  rr_PlatformModelCbFailureThreshold :: int
  rr_PlatformModelCbDurationMin :: int
  rr_PlatformModelCbWindowMin :: int
  rr_ModelCbFailureThreshold :: int
  rr_ModelCbDurationMin :: int
  rr_ModelCbWindowMin :: int

record route_candidate =
  rc_row :: route_row
  rc_apiKey :: string

text \<open>The resolved route, its fields in the order of the struct.\<close>

record resolved_route =
  rd_RouteID :: nat
  rd_PlatformModelID :: nat
  rd_PlatformModelName :: string
  rd_UpstreamModelID :: nat
  rd_UpstreamID :: nat
  rd_UpstreamName :: string
  rd_BindingCode :: string
  rd_Protocol :: string
  rd_BaseURL :: string
  rd_APIKey :: string
  rd_ConnectTimeoutMS :: int
  rd_ReadTimeoutMS :: int
  rd_StreamIdleTimeoutMS :: int
  rd_HeadersJSON :: string
  rd_ModelVendor :: string
  rd_ModelIcon :: string
  rd_ModelCapabilitiesJSON :: string
  rd_ModelSystemPrompt :: string
  rd_UpstreamModel :: string
  rd_ReasoningContentPassback :: bool
  rd_ReasoningPassbackRequestOptions :: "(string \<times> string) list"
  rd_UpstreamCbFailureThreshold :: int
  rd_UpstreamCbModelThreshold :: int
  rd_UpstreamCbThresholdLogic :: string
  rd_UpstreamCbDurationMin :: int
  rd_UpstreamCbWindowMin :: int
  rd_PlatformModelCbPolicyMode :: string
  rd_PlatformModelCbFailureThreshold :: int
  rd_PlatformModelCbDurationMin :: int
  rd_PlatformModelCbWindowMin :: int
  rd_ModelCbFailureThreshold :: int
  rd_ModelCbDurationMin :: int
  rd_ModelCbWindowMin :: int
  rd_UpstreamProbeGranted :: bool
  rd_ModelProbeGranted :: bool

definition replace_colons :: "string \<Rightarrow> string" where
  "replace_colons s = map (\<lambda>c. if c = CHR '':'' then CHR ''-'' else c) s"

definition binding_circuit_key :: "string \<Rightarrow> string" where
  "binding_circuit_key bindingCode =
     (let code = trim_space bindingCode in if code = [] then [] else ''upstream-model-'' @ replace_colons code)"

definition binding_circuit_keys :: "string list \<Rightarrow> string list" where
  "binding_circuit_keys codes = filter (\<lambda>k. k \<noteq> []) (map binding_circuit_key codes)"

definition remove_candidate :: "route_candidate list \<Rightarrow> nat \<Rightarrow> nat \<Rightarrow> route_candidate list" where
  "remove_candidate items u um =
     filter (\<lambda>c. \<not> (rr_UpstreamID (rc_row c) = u \<and> rr_UpstreamModelID (rc_row c) = um)) items"

section \<open>Weighted choice\<close>

definition route_weight :: "route_candidate \<Rightarrow> int" where
  "route_weight c = (let w = rr_Weight (rc_row c) in if w \<le> 0 then 100 else w)"

definition total_weight :: "route_candidate list \<Rightarrow> int" where
  "total_weight cs = foldl (\<lambda>t c. wrap64 (t + route_weight c)) 0 cs"

text \<open>The second loop: the first candidate whose cumulative weight exceeds \<open>r\<close>, the last if none.\<close>

fun pick_cumulative :: "int \<Rightarrow> int \<Rightarrow> route_candidate list \<Rightarrow> route_candidate option" where
  "pick_cumulative r cum [] = None"
| "pick_cumulative r cum (c # cs) =
     (let cum = wrap64 (cum + route_weight c) in
      if r < cum then Some c else pick_cumulative r cum cs)"

text \<open>\<open>draw n\<close> is \<^verbatim>\<open>rand.Intn(n)\<close>.\<close>

definition weighted_random_candidate :: "(int \<Rightarrow> int) \<Rightarrow> route_candidate list \<Rightarrow> route_candidate option" where
  "weighted_random_candidate draw cs =
     (if cs = [] then None
      else
        let total = total_weight cs in
        if total \<le> 0 then Some (cs ! nat (draw (int (length cs))))
        else case pick_cumulative (draw total) 0 cs of
               Some c \<Rightarrow> Some c
             | None \<Rightarrow> Some (last cs))"

section \<open>Keys of an upstream\<close>

record api_key =
  ak_Key :: string
  ak_Status :: string
  ak_Note :: string

record api_keys_config =
  kc_Strategy :: string
  kc_Keys :: "api_key list"

definition active_keys :: "api_key list \<Rightarrow> api_key list" where
  "active_keys entries =
     filter (\<lambda>e. (ak_Status e = [] \<or> ak_Status e = ''active'') \<and> trim_space (ak_Key e) \<noteq> []) entries"

section \<open>Circuit parameters of a route\<close>

text \<open>A policy value: the platform's when it is enforced or the route has none, then the default.\<close>

definition resolve_model_circuit_value :: "bool \<Rightarrow> int \<Rightarrow> int \<Rightarrow> int \<Rightarrow> int" where
  "resolve_model_circuit_value enforced routeValue platformValue defaultValue =
     (let v = (if enforced \<or> routeValue \<le> 0 then platformValue else routeValue)
      in if v \<le> 0 then defaultValue else v)"

definition or_default :: "int \<Rightarrow> int \<Rightarrow> int" where
  "or_default v d = (if v \<le> 0 then d else v)"

definition circuit_failure_of ::
    "resolved_route \<Rightarrow> breaker_defaults \<Rightarrow> string list option \<Rightarrow> circuit_failure_input" where
  "circuit_failure_of route d activeBindingCodes =
     (let key = binding_circuit_key (rd_BindingCode route);
          enforced = policy_enforced (rd_PlatformModelCbPolicyMode route);
          th = resolve_model_circuit_value enforced (rd_ModelCbFailureThreshold route)
                 (rd_PlatformModelCbFailureThreshold route) (bd_ModelFailureThreshold d);
          win = resolve_model_circuit_value enforced (rd_ModelCbWindowMin route)
                 (rd_PlatformModelCbWindowMin route) (bd_ModelWindowMin d);
          dur = resolve_model_circuit_value enforced (rd_ModelCbDurationMin route)
                 (rd_PlatformModelCbDurationMin route) (bd_ModelDurationMin d);
          logic = (if trim_space (rd_UpstreamCbThresholdLogic route) = []
                   then normalize_cb_logic (bd_UpstreamThresholdLogic d)
                   else normalize_cb_logic (rd_UpstreamCbThresholdLogic route));
          keys = (case activeBindingCodes of None \<Rightarrow> [] | Some codes \<Rightarrow> binding_circuit_keys codes)
      in \<lparr>cf_UpstreamID = rd_UpstreamID route, cf_ModelKey = key,
          cf_ModelWindowSec = wrap64 (win * 60), cf_ModelFailureThreshold = th,
          cf_ModelDurationSec = wrap64 (dur * 60),
          cf_UpstreamWindowSec = wrap64 (or_default (rd_UpstreamCbWindowMin route) (bd_UpstreamWindowMin d) * 60),
          cf_UpstreamFailureThreshold =
            or_default (rd_UpstreamCbFailureThreshold route) (bd_UpstreamFailureThreshold d),
          cf_UpstreamModelThreshold =
            or_default (rd_UpstreamCbModelThreshold route) (bd_UpstreamModelThreshold d),
          cf_UpstreamThresholdLogic = logic,
          cf_UpstreamDurationSec = wrap64 (or_default (rd_UpstreamCbDurationMin route) (bd_UpstreamDurationMin d) * 60),
          cf_ActiveModelKeys = (if keys = [] then [key] else keys)\<rparr>)"

section \<open>Failures\<close>

text \<open>
  What the classification reads of an error chain: the \<^verbatim>\<open>UpstreamError\<close> in it (its status and,
  when it carries a debug snapshot, the response headers in the map's iteration order), whether
  \<^verbatim>\<open>errors.Is\<close> or \<^verbatim>\<open>errors.As\<close> finds the sentinel errors, and the message.
\<close>

record upstream_error =
  ue_StatusCode :: int
  ue_Message :: string
  ue_Body :: string
  ue_DebugHeaders :: "(string \<times> string) list option"

record failure_cause =
  fc_upstream :: "upstream_error option"
  fc_canceled :: bool
  fc_deadline :: bool
  fc_eof :: bool
  fc_network :: bool
  fc_accepted :: bool
  fc_message :: string

record error_rules =
  er_CircuitErrors :: "string list"
  er_RateLimitErrors :: "string list"
  er_IgnoreErrors :: "string list"

datatype failure_class = FailCircuit | FailRateLimit | FailIgnore

definition matches_failure_rule :: "string list \<Rightarrow> string \<Rightarrow> bool" where
  "matches_failure_rule rules target \<longleftrightarrow>
     (\<exists>rule \<in> set rules. trim_space (to_lower rule) = trim_space (to_lower target))"

definition is_rate_limit_failure :: "failure_cause \<Rightarrow> bool" where
  "is_rate_limit_failure c \<longleftrightarrow> (case fc_upstream c of None \<Rightarrow> False | Some u \<Rightarrow> ue_StatusCode u = 429)"

definition is_ignorable_failure :: "failure_cause \<Rightarrow> bool" where
  "is_ignorable_failure c \<longleftrightarrow> (case fc_upstream c of None \<Rightarrow> False
     | Some u \<Rightarrow> ue_StatusCode u \<ge> 400 \<and> ue_StatusCode u < 500 \<and> ue_StatusCode u \<noteq> 429)"

definition is_circuit_failure :: "failure_cause \<Rightarrow> bool" where
  "is_circuit_failure c =
     (case fc_upstream c of Some u \<Rightarrow> ue_StatusCode u \<ge> 500
      | None \<Rightarrow>
          if fc_deadline c then True
          else
            let m = to_lower (fc_message c)
            in \<exists>sub \<in> {''timeout'', ''deadline exceeded'', ''connection refused'', ''connection reset'',
                      ''broken pipe'', ''dial tcp'', ''no such host'', ''eof''}. contains_sub m sub)"

definition classify_route_failure :: "error_rules \<Rightarrow> failure_cause option \<Rightarrow> failure_class" where
  "classify_route_failure rules cause =
     (case cause of None \<Rightarrow> FailIgnore
      | Some c \<Rightarrow>
          if fc_canceled c then FailIgnore
          else if is_rate_limit_failure c \<and> matches_failure_rule (er_RateLimitErrors rules) ''429''
          then FailRateLimit
          else if is_ignorable_failure c \<and> matches_failure_rule (er_IgnoreErrors rules) ''4xx''
          then FailIgnore
          else if is_circuit_failure c \<and> (matches_failure_rule (er_CircuitErrors rules) ''5xx'' \<or>
            matches_failure_rule (er_CircuitErrors rules) ''timeout'' \<or>
            matches_failure_rule (er_CircuitErrors rules) ''connection_error'')
          then FailCircuit
          else FailCircuit)"

definition should_failover_route :: "failure_cause option \<Rightarrow> bool" where
  "should_failover_route cause =
     (case cause of None \<Rightarrow> False
      | Some c \<Rightarrow>
          if fc_canceled c \<or> fc_accepted c then False
          else case fc_upstream c of
                 Some u \<Rightarrow> ue_StatusCode u = 408 \<or> ue_StatusCode u = 429 \<or> ue_StatusCode u \<ge> 500
               | None \<Rightarrow> fc_deadline c \<or> fc_eof c \<or> fc_network c)"

text \<open>\<open>parse_time\<close> is \<^verbatim>\<open>http.ParseTime\<close>.\<close>

definition upstream_retry_after_seconds ::
    "(string \<Rightarrow> gtime option) \<Rightarrow> failure_cause option \<Rightarrow> gtime \<Rightarrow> int" where
  "upstream_retry_after_seconds parse_time cause now =
     (case cause of None \<Rightarrow> 0
      | Some c \<Rightarrow> (case fc_upstream c of None \<Rightarrow> 0
      | Some u \<Rightarrow> (case ue_DebugHeaders u of None \<Rightarrow> 0
      | Some headers \<Rightarrow>
          let raw = (case find (\<lambda>(k, v). to_lower (trim_space k) = ''retry-after'') headers of
                       Some (k, v) \<Rightarrow> trim_space v | None \<Rightarrow> [])
          in if raw = [] then 0
             else case atoi raw of
               Some s \<Rightarrow> max s 0
             | None \<Rightarrow> (case parse_time raw of
                 None \<Rightarrow> 0
               | Some retryAt \<Rightarrow> if \<not> retryAt > now then 0
                   else go_div (wrap64 (until now retryAt + go_second - 1)) go_second))))"

end
