(* ===== verification/Routing.thy ===== *)
theory Routing
  imports Route_Model
begin

text \<open>
  Route resolution and the accounting of its outcome (\<^verbatim>\<open>application/channel/service_routing.go\<close>,
  and \<^verbatim>\<open>isModelAccessible\<close> of \<^verbatim>\<open>service.go\<close>) over the in-memory cache.

  The world is what the service changes: the cache, the cached breaker defaults, the local key
  counters, and how many times the clock and the random source have been read. The environment
  holds what is not code of the repository or only reads: the clock, the random source, the rows
  of the database, decryption and JSON, the URL validation. \<open>env_check_error n\<close> is the error of
  the circuit check that reads the clock for the \<open>n\<close>-th time (a cache that can fail, such as
  Redis, then grants nothing); the in-memory cache never fails.
\<close>

section \<open>World and environment\<close>

record world =
  w_cache :: cache
  w_clock :: nat
  w_rand :: nat
  w_local :: "nat \<Rightarrow> nat"
  w_breaker :: breaker_defaults
  w_breakerLoaded :: bool
  w_breakerUntil :: gtime

record platform_model =
  pm_ID :: nat
  pm_AccessScope :: string

record route_env =
  env_hasCache :: bool
  env_now :: "nat \<Rightarrow> gtime"
  env_rand :: "nat \<Rightarrow> nat"
  env_check_error :: "nat \<Rightarrow> string option"
  env_model :: "string \<Rightarrow> string + platform_model"
  env_permGroups :: bool
  env_modelGroups :: "nat \<Rightarrow> string + nat list"
  env_userGroups :: "nat \<Rightarrow> string + nat list"
  env_defaultGroups :: "string + nat list"
  env_subscriptionGroup :: "(nat \<Rightarrow> string + nat option) option"
  env_routes :: "string \<Rightarrow> string + route_row list"
  env_bindingCodes :: "nat \<Rightarrow> string list option"
  env_breakerDefaults :: "nat \<Rightarrow> breaker_defaults option"
  env_rules :: error_rules
  env_rateDefaults :: "int \<times> int \<times> int"
  env_jsonStrings :: "string \<Rightarrow> string list option"
  env_validURL :: "string \<Rightarrow> bool"
  env_parseKeys :: "string \<Rightarrow> api_keys_config option"
  env_mergeHeaders :: "string \<Rightarrow> string \<Rightarrow> string"
  env_passback :: "route_row \<Rightarrow> bool"
  env_passbackOptions :: "route_row \<Rightarrow> (string \<times> string) list"
  env_parseTime :: "string \<Rightarrow> gtime option"

definition read_clock :: "route_env \<Rightarrow> world \<Rightarrow> world \<times> gtime" where
  "read_clock e w = (w\<lparr>w_clock := w_clock w + 1\<rparr>, env_now e (w_clock w))"

text \<open>\<^verbatim>\<open>rand.Intn(n)\<close>: a number below \<open>n\<close>.\<close>

definition intn :: "route_env \<Rightarrow> world \<Rightarrow> int \<Rightarrow> int" where
  "intn e w n = int (env_rand e (w_rand w)) mod n"

definition drew :: "world \<Rightarrow> world" where
  "drew w = w\<lparr>w_rand := w_rand w + 1\<rparr>"

definition zero_breaker_defaults :: breaker_defaults where
  "zero_breaker_defaults = \<lparr>bd_Enabled = False, bd_ModelFailureThreshold = 0, bd_ModelDurationMin = 0,
     bd_ModelWindowMin = 0, bd_UpstreamFailureThreshold = 0, bd_UpstreamModelThreshold = 0,
     bd_UpstreamThresholdLogic = [], bd_UpstreamDurationMin = 0, bd_UpstreamWindowMin = 0\<rparr>"

definition breaker_defaults_cache_ttl :: duration where
  "breaker_defaults_cache_ttl = 5 * go_second"
definition breaker_defaults_error_retry_ttl :: duration where
  "breaker_defaults_error_retry_ttl = go_second"

definition load_breaker_defaults :: "route_env \<Rightarrow> world \<Rightarrow> world \<times> breaker_defaults" where
  "load_breaker_defaults e w =
     (let (w, now) = read_clock e w in
      if now < w_breakerUntil w then (w, w_breaker w)
      else
        let (w, now) = read_clock e w in
        if now < w_breakerUntil w then (w, w_breaker w)
        else case env_breakerDefaults e (w_clock w) of
          None \<Rightarrow>
            (w\<lparr>w_breakerUntil := now + breaker_defaults_error_retry_ttl\<rparr>,
             if w_breakerLoaded w then w_breaker w else zero_breaker_defaults)
        | Some cfg \<Rightarrow>
            (w\<lparr>w_breaker := cfg, w_breakerLoaded := True,
               w_breakerUntil := now + breaker_defaults_cache_ttl\<rparr>, cfg))"

definition store_breaker_defaults :: "route_env \<Rightarrow> breaker_defaults \<Rightarrow> world \<Rightarrow> world" where
  "store_breaker_defaults e cfg w =
     (let (w', now) = read_clock e w
      in w'\<lparr>w_breaker := cfg, w_breakerLoaded := True, w_breakerUntil := now + breaker_defaults_cache_ttl\<rparr>)"

section \<open>Access to a model\<close>

definition resolve_user_group_ids :: "route_env \<Rightarrow> nat \<Rightarrow> string + nat list" where
  "resolve_user_group_ids e userID =
     (if \<not> env_permGroups e \<or> userID = 0 then Inr []
      else case env_userGroups e userID of Inl err \<Rightarrow> Inl err
      | Inr ids \<Rightarrow> (case env_defaultGroups e of Inl err \<Rightarrow> Inl err
      | Inr defaultIDs \<Rightarrow> (case env_subscriptionGroup e of None \<Rightarrow> Inr (ids @ defaultIDs)
      | Some resolver \<Rightarrow> (case resolver userID of Inl err \<Rightarrow> Inl err
      | Inr None \<Rightarrow> Inr (ids @ defaultIDs)
      | Inr (Some g) \<Rightarrow> Inr (ids @ defaultIDs @ [g])))))"

definition is_model_accessible :: "route_env \<Rightarrow> nat \<Rightarrow> nat \<Rightarrow> string + bool" where
  "is_model_accessible e platformModelID userID =
     (if \<not> env_permGroups e \<or> userID = 0 then Inr True
      else case env_modelGroups e platformModelID of Inl err \<Rightarrow> Inl err
      | Inr modelGroups \<Rightarrow>
          if modelGroups = [] then Inr False
          else case resolve_user_group_ids e userID of Inl err \<Rightarrow> Inl err
          | Inr userGroups \<Rightarrow> Inr (\<exists>g \<in> set modelGroups. g \<in> set userGroups))"

section \<open>Choosing a key\<close>

definition next_api_key_index :: "route_env \<Rightarrow> nat \<Rightarrow> world \<Rightarrow> world \<times> int" where
  "next_api_key_index e u w =
     (if u = 0 then (drew w, intn e w 1024)
      else if env_hasCache e then
        let (w, now) = read_clock e w;
            (c, idx) = incr_api_key_counter now u (w_cache w)
        in (w\<lparr>w_cache := c\<rparr>, idx mod 2 ^ 64)
      else (w\<lparr>w_local := (w_local w)(u := (w_local w u + 1) mod 2 ^ 64)\<rparr>, int (w_local w u)))"

definition pick_active_key :: "route_env \<Rightarrow> nat \<Rightarrow> api_key list \<Rightarrow> string \<Rightarrow> world \<Rightarrow> world \<times> string option" where
  "pick_active_key e u entries strategy w =
     (let active = active_keys entries in
      if active = [] then (w, None)
      else if trim_space strategy = ''failover'' then (w, Some (ak_Key (hd active)))
      else if trim_space strategy = ''round_robin'' then
        let (w, idx) = next_api_key_index e u w
        in (w, Some (ak_Key (active ! nat (idx mod int (length active)))))
      else (drew w, Some (ak_Key (active ! nat (intn e w (int (length active)))))))"

definition select_api_key :: "route_env \<Rightarrow> nat \<Rightarrow> api_keys_config \<Rightarrow> world \<Rightarrow> world \<times> string option" where
  "select_api_key e u cfg w =
     (if kc_Keys cfg = [] then (w, None) else pick_active_key e u (kc_Keys cfg) (kc_Strategy cfg) w)"

section \<open>The candidates of a priority\<close>

definition route_rate_limit_backoff :: "route_env \<Rightarrow> nat \<Rightarrow> nat \<Rightarrow> world \<Rightarrow> world \<times> duration" where
  "route_rate_limit_backoff e u r w =
     (if \<not> env_hasCache e \<or> u = 0 \<or> r = 0 then (w, 0)
      else let (w, now) = read_clock e w in (w, get_rate_limit_backoff now u r (w_cache w)))"

definition row_complete :: "route_env \<Rightarrow> route_row \<Rightarrow> bool" where
  "row_complete e row \<longleftrightarrow>
     \<not> (rr_UpstreamModelID row = 0 \<or> trim_space (rr_BindingCode row) = [] \<or>
        trim_space (rr_UpstreamModelName row) = []) \<and>
     is_implemented_adapter (rr_Protocol row) \<and> env_validURL e (rr_BaseURL row)"

text \<open>The inner loop over the rows of one priority; \<open>shortest\<close> is the shortest backoff met.\<close>

fun collect_group ::
    "route_env \<Rightarrow> route_row list \<Rightarrow> world \<Rightarrow> duration \<Rightarrow> world \<times> duration \<times> route_candidate list" where
  "collect_group e [] w shortest = (w, shortest, [])"
| "collect_group e (row # rows) w shortest =
     (if \<not> row_complete e row then collect_group e rows w shortest
      else
        let (w, remaining) = route_rate_limit_backoff e (rr_UpstreamID row) (rr_RouteID row) w in
        if remaining > 0 then
          collect_group e rows w (if shortest = 0 \<or> remaining < shortest then remaining else shortest)
        else case env_parseKeys e (rr_APIKeysEnc row) of
          None \<Rightarrow> collect_group e rows w shortest
        | Some cfg \<Rightarrow>
            let (w, key) = select_api_key e (rr_UpstreamID row) cfg w in
            (case key of
               None \<Rightarrow> collect_group e rows w shortest
             | Some apiKey \<Rightarrow>
                 let (w, shortest, group) = collect_group e rows w shortest
                 in (w, shortest, \<lparr>rc_row = row, rc_apiKey = apiKey\<rparr> # group)))"

section \<open>Trying the candidates\<close>

definition build_resolved_route :: "route_env \<Rightarrow> route_row \<Rightarrow> string \<Rightarrow> resolved_route" where
  "build_resolved_route e row apiKey = \<lparr>
     rd_RouteID = rr_RouteID row,
     rd_PlatformModelID = rr_PlatformModelID row,
     rd_PlatformModelName = trim_space (rr_PlatformModelName row),
     rd_UpstreamModelID = rr_UpstreamModelID row,
     rd_UpstreamID = rr_UpstreamID row,
     rd_UpstreamName = trim_space (rr_UpstreamName row),
     rd_BindingCode = trim_space (rr_BindingCode row),
     rd_Protocol = rr_Protocol row,
     rd_BaseURL = trim_space (rr_BaseURL row),
     rd_APIKey = apiKey,
     rd_ConnectTimeoutMS = rr_ConnectTimeoutMS row,
     rd_ReadTimeoutMS = rr_ReadTimeoutMS row,
     rd_StreamIdleTimeoutMS = rr_StreamIdleTimeoutMS row,
     rd_HeadersJSON = env_mergeHeaders e (rr_HeadersJSON row) (rr_RouteHeadersJSON row),
     rd_ModelVendor = trim_space (rr_ModelVendor row),
     rd_ModelIcon = trim_space (rr_ModelIcon row),
     rd_ModelCapabilitiesJSON = trim_space (rr_ModelCapabilitiesJSON row),
     rd_ModelSystemPrompt = trim_space (rr_ModelSystemPrompt row),
     rd_UpstreamModel = trim_space (rr_UpstreamModelName row),
     rd_ReasoningContentPassback = env_passback e row,
     rd_ReasoningPassbackRequestOptions = env_passbackOptions e row,
     rd_UpstreamCbFailureThreshold = rr_UpstreamCbFailureThreshold row,
     rd_UpstreamCbModelThreshold = rr_UpstreamCbModelThreshold row,
     rd_UpstreamCbThresholdLogic = rr_UpstreamCbThresholdLogic row,
     rd_UpstreamCbDurationMin = rr_UpstreamCbDurationMin row,
     rd_UpstreamCbWindowMin = rr_UpstreamCbWindowMin row,
     rd_PlatformModelCbPolicyMode = rr_PlatformModelCbPolicyMode row,
     rd_PlatformModelCbFailureThreshold = rr_PlatformModelCbFailureThreshold row,
     rd_PlatformModelCbDurationMin = rr_PlatformModelCbDurationMin row,
     rd_PlatformModelCbWindowMin = rr_PlatformModelCbWindowMin row,
     rd_ModelCbFailureThreshold = rr_ModelCbFailureThreshold row,
     rd_ModelCbDurationMin = rr_ModelCbDurationMin row,
     rd_ModelCbWindowMin = rr_ModelCbWindowMin row,
     rd_UpstreamProbeGranted = False,
     rd_ModelProbeGranted = False\<rparr>"

definition check_upstream :: "route_env \<Rightarrow> nat \<Rightarrow> world \<Rightarrow> world \<times> (string + circuit_status)" where
  "check_upstream e u w =
     (let (w', now) = read_clock e w
      in case env_check_error e (w_clock w) of
           Some err \<Rightarrow> (w', Inl err)
         | None \<Rightarrow> (let (c, r) = check_upstream_circuit_state now u (w_cache w')
                    in (w'\<lparr>w_cache := c\<rparr>, Inr r)))"

definition check_model :: "route_env \<Rightarrow> nat \<Rightarrow> string \<Rightarrow> world \<Rightarrow> world \<times> (string + circuit_status)" where
  "check_model e u key w =
     (let (w', now) = read_clock e w
      in case env_check_error e (w_clock w) of
           Some err \<Rightarrow> (w', Inl err)
         | None \<Rightarrow> (let (c, r) = check_model_circuit_state now u key (w_cache w')
                    in (w'\<lparr>w_cache := c\<rparr>, Inr r)))"

definition release_upstream_probe :: "nat \<Rightarrow> world \<Rightarrow> world" where
  "release_upstream_probe u w = w\<lparr>w_cache := release_route_probes u [] (w_cache w)\<rparr>"

definition refused :: "circuit_status \<Rightarrow> bool" where
  "refused s \<longleftrightarrow> s = Opened \<or> s = HalfOpenDenied"

text \<open>
  One pass through the loop for the selected candidate: \<open>Skip\<close> removes it and goes on, \<open>Fail\<close>
  and \<open>Done\<close> return from the resolution.
\<close>

datatype attempt = Skip | Fail string | Done circuit_status circuit_status

definition try_candidate :: "route_env \<Rightarrow> bool \<Rightarrow> route_row \<Rightarrow> world \<Rightarrow> world \<times> attempt" where
  "try_candidate e enabled row w =
     (if \<not> enabled then (w, Done Closed Closed)
      else
        let u = rr_UpstreamID row; (w, r) = check_upstream e u w in
        case r of Inl err \<Rightarrow> (w, Fail err)
        | Inr upstreamState \<Rightarrow>
            if refused upstreamState then (w, Skip)
            else
              let (w, r) = check_model e u (binding_circuit_key (rr_BindingCode row)) w;
                  release = (if upstreamState = HalfOpenGranted then release_upstream_probe u w else w)
              in case r of Inl err \<Rightarrow> (release, Fail err)
                 | Inr modelState \<Rightarrow>
                     if refused modelState then (release, Skip)
                     else (w, Done upstreamState modelState))"

lemma selected_in_candidates:
  "cs \<noteq> [] \<Longrightarrow> (\<And>n. 0 < n \<Longrightarrow> 0 \<le> draw n \<and> draw n < n) \<Longrightarrow>
     \<exists>c \<in> set cs. weighted_random_candidate draw cs = Some c"
proof -
  assume ne: "cs \<noteq> []" and draw: "\<And>n. 0 < n \<Longrightarrow> 0 \<le> draw n \<and> draw n < n"
  have pick: "pick_cumulative r cum cs = Some c \<Longrightarrow> c \<in> set cs" for r cum c
    by (induction cs arbitrary: cum) (auto simp: Let_def split: if_splits)
  have "nat (draw (int (length cs))) < length cs"
    using ne draw [of "int (length cs)"] by (simp add: nat_less_iff)
  then show ?thesis
    using ne pick by (auto simp: weighted_random_candidate_def Let_def split: option.splits)
qed

lemma intn_bounds: "0 < n \<Longrightarrow> 0 \<le> intn e w n \<and> intn e w n < n"
  by (simp add: intn_def)

definition selected_candidate :: "route_env \<Rightarrow> world \<Rightarrow> route_candidate list \<Rightarrow> route_candidate" where
  "selected_candidate e w cs =
     (case weighted_random_candidate (intn e w) cs of Some c \<Rightarrow> c | None \<Rightarrow> hd cs)"

lemma selected_candidate_mem: "cs \<noteq> [] \<Longrightarrow> selected_candidate e w cs \<in> set cs"
  using selected_in_candidates [of cs "intn e w"] intn_bounds by (auto simp: selected_candidate_def)

lemma remove_selected_shorter:
  "c \<in> set cs \<Longrightarrow> length (remove_candidate cs (rr_UpstreamID (rc_row c)) (rr_UpstreamModelID (rc_row c))) < length cs"
  unfolding remove_candidate_def by (rule length_filter_less) auto

datatype route_error =
    ModelNotFound | RepoError string | ModelAccessDenied | RouteNotFound
  | AllRoutesUnavailable | RoutesRateLimited duration

function try_candidates ::
    "route_env \<Rightarrow> bool \<Rightarrow> route_candidate list \<Rightarrow> world \<Rightarrow> world \<times> (route_error + resolved_route) option" where
  "try_candidates e enabled cs w =
     (if cs = [] then (w, None)
      else
        let sel = selected_candidate e w cs;
            row = rc_row sel;
            (w, r) = try_candidate e enabled row (drew w)
        in case r of
             Fail err \<Rightarrow> (w, Some (Inl (RepoError err)))
           | Skip \<Rightarrow> try_candidates e enabled
               (remove_candidate cs (rr_UpstreamID row) (rr_UpstreamModelID row)) w
           | Done us ms \<Rightarrow> (w, Some (Inr ((build_resolved_route e row (rc_apiKey sel))
               \<lparr>rd_UpstreamProbeGranted := (us = HalfOpenGranted),
                rd_ModelProbeGranted := (ms = HalfOpenGranted)\<rparr>))))"
  by pat_completeness auto
termination
  by (relation "measure (\<lambda>(e, enabled, cs, w). length cs)")
     (auto intro!: remove_selected_shorter selected_candidate_mem)

declare try_candidates.simps [simp del]

text \<open>The outer loop: one priority after the other.\<close>

function resolve_groups ::
    "route_env \<Rightarrow> bool \<Rightarrow> route_row list \<Rightarrow> world \<Rightarrow> duration \<Rightarrow> world \<times> (route_error + resolved_route)" where
  "resolve_groups e enabled [] w shortest =
     (w, Inl (if shortest > 0 then RoutesRateLimited shortest else AllRoutesUnavailable))"
| "resolve_groups e enabled (row # rows) w shortest =
     (let p = rr_RoutePriority row;
          (w, shortest, group) = collect_group e (row # takeWhile (\<lambda>r. rr_RoutePriority r = p) rows) w shortest;
          rest = dropWhile (\<lambda>r. rr_RoutePriority r = p) rows;
          (w, r) = try_candidates e enabled group w
      in case r of Some res \<Rightarrow> (w, res) | None \<Rightarrow> resolve_groups e enabled rest w shortest)"
  by pat_completeness auto
termination
  by (relation "measure (\<lambda>(e, enabled, rows, w, s). length rows)")
     (auto simp: length_dropWhile_le less_Suc_eq_le)

section \<open>Resolution\<close>

record resolve_input =
  ri_PlatformModelName :: string
  ri_TaskType :: string
  ri_Scope :: string
  ri_UserID :: nat
  ri_ExcludedRouteIDs :: "nat list"

definition available_rows :: "route_env \<Rightarrow> resolve_input \<Rightarrow> route_row list \<Rightarrow> route_row list" where
  "available_rows e i rows =
     filter (\<lambda>row. \<not> (rr_RouteID row \<noteq> 0 \<and> rr_RouteID row \<in> set (ri_ExcludedRouteIDs i)) \<and>
       is_route_allowed_for_task (ri_TaskType i) (parse_kinds (env_jsonStrings e) (rr_ModelKindsJSON row))
         (rr_Protocol row)) rows"

text \<open>The resolution once it is known whether the circuit breaker is enabled.\<close>

definition resolve_with_breaker ::
    "route_env \<Rightarrow> resolve_input \<Rightarrow> bool \<Rightarrow> world \<Rightarrow> world \<times> (route_error + resolved_route)" where
  "resolve_with_breaker e i enabled w =
     (case normalize_platform_model_name (ri_PlatformModelName i) of
        None \<Rightarrow> (w, Inl ModelNotFound)
      | Some name \<Rightarrow> (case env_model e name of
        Inl err \<Rightarrow> (w, Inl (RepoError err))
      | Inr model \<Rightarrow>
          if \<not> route_scope_allows_model_access (ri_Scope i) (pm_AccessScope model)
          then (w, Inl ModelAccessDenied)
          else case (if normalize_route_scope (ri_Scope i) = ScopeUser \<and> ri_UserID i > 0
                     then is_model_accessible e (pm_ID model) (ri_UserID i) else Inr True) of
            Inl err \<Rightarrow> (w, Inl (RepoError err))
          | Inr accessible \<Rightarrow>
              if \<not> accessible then (w, Inl ModelAccessDenied)
              else case env_routes e name of
                Inl err \<Rightarrow> (w, Inl (RepoError err))
              | Inr rows \<Rightarrow>
                  if rows = [] then (w, Inl RouteNotFound)
                  else
                    let available = available_rows e i rows in
                    if available = [] then (w, Inl AllRoutesUnavailable)
                    else resolve_groups e enabled available w 0))"

definition resolve_route :: "route_env \<Rightarrow> resolve_input \<Rightarrow> world \<Rightarrow> world \<times> (route_error + resolved_route)" where
  "resolve_route e i w =
     (if env_hasCache e then
        let (w, d) = load_breaker_defaults e w in resolve_with_breaker e i (bd_Enabled d) w
      else resolve_with_breaker e i False w)"

section \<open>Outcome of a call\<close>

definition route_model_circuit_key :: "resolved_route \<Rightarrow> string" where
  "route_model_circuit_key route = binding_circuit_key (rd_BindingCode route)"

definition upd_cache :: "(cache \<Rightarrow> cache) \<Rightarrow> world \<Rightarrow> world" where
  "upd_cache f w = w\<lparr>w_cache := f (w_cache w)\<rparr>"

text \<open>An operation of the cache that reads the clock once.\<close>

definition timed :: "route_env \<Rightarrow> (gtime \<Rightarrow> cache \<Rightarrow> cache) \<Rightarrow> world \<Rightarrow> world" where
  "timed e f w = (let (w', now) = read_clock e w in upd_cache (f now) w')"

definition mark_route_success :: "route_env \<Rightarrow> resolved_route \<Rightarrow> world \<Rightarrow> world" where
  "mark_route_success e route w =
     (if rd_UpstreamID route = 0 \<or> \<not> env_hasCache e then w
      else
        let u = rd_UpstreamID route;
            w = upd_cache (clear_rate_limit_backoff u (rd_RouteID route)) w;
            w = (if rd_UpstreamProbeGranted route then upd_cache (clear_upstream_circuit_keys u) w else w);
            key = route_model_circuit_key route;
            w = (if rd_ModelProbeGranted route \<and> key \<noteq> []
                 then upd_cache (clear_model_circuit_keys u key) w else w)
        in timed e (\<lambda>now. record_success_metadata now u) w)"

definition release_granted_route_probes :: "resolved_route \<Rightarrow> world \<Rightarrow> world" where
  "release_granted_route_probes route w =
     (if rd_UpstreamID route = 0 then w
      else
        let u = rd_UpstreamID route;
            w = (if rd_UpstreamProbeGranted route then upd_cache (release_route_probes u []) w else w);
            key = route_model_circuit_key route
        in if rd_ModelProbeGranted route \<and> key \<noteq> [] then upd_cache (release_route_probes u key) w else w)"

definition record_circuit_failure_for ::
    "route_env \<Rightarrow> resolved_route \<Rightarrow> breaker_defaults \<Rightarrow> world \<Rightarrow> world" where
  "record_circuit_failure_for e route d w =
     (if rd_UpstreamID route = 0 \<or> route_model_circuit_key route = [] then w
      else
        let i = circuit_failure_of route d (env_bindingCodes e (rd_UpstreamID route)) in
        if cf_UpstreamID i = 0 \<or> trim_space (cf_ModelKey i) = [] then w
        else timed e (\<lambda>now. record_circuit_failure now i) w)"

definition record_rate_limit_backoff_for ::
    "route_env \<Rightarrow> resolved_route \<Rightarrow> failure_cause option \<Rightarrow> world \<Rightarrow> world" where
  "record_rate_limit_backoff_for e route cause w =
     (if \<not> env_hasCache e \<or> rd_UpstreamID route = 0 \<or> rd_RouteID route = 0 then w
      else
        let (base, maxSec, multiplier) = env_rateDefaults e;
            (w, now) = read_clock e w
        in timed e (\<lambda>t. record_rate_limit_backoff t \<lparr>rb_UpstreamID = rd_UpstreamID route,
             rb_RouteID = rd_RouteID route, rb_BackoffBaseSec = base, rb_BackoffMaxSec = maxSec,
             rb_BackoffMultiplier = multiplier,
             rb_RetryAfterSec = upstream_retry_after_seconds (env_parseTime e) cause now\<rparr>) w)"

definition error_message :: "failure_cause option \<Rightarrow> string" where
  "error_message cause = (case cause of None \<Rightarrow> [] | Some c \<Rightarrow> fc_message c)"

definition mark_route_failure :: "route_env \<Rightarrow> resolved_route \<Rightarrow> failure_cause option \<Rightarrow> world \<Rightarrow> world" where
  "mark_route_failure e route cause w =
     (if rd_UpstreamID route = 0 \<or> \<not> env_hasCache e then w
      else
        let msg = truncate_message (trim_space (error_message cause)) 255;
            w = timed e (\<lambda>now. record_failure_metadata now (rd_UpstreamID route) msg) w
        in case classify_route_failure (env_rules e) cause of
             FailIgnore \<Rightarrow> release_granted_route_probes route w
           | FailRateLimit \<Rightarrow>
               record_rate_limit_backoff_for e route cause (release_granted_route_probes route w)
           | FailCircuit \<Rightarrow>
               (let (w, d) = load_breaker_defaults e w
                in if \<not> bd_Enabled d then release_granted_route_probes route w
                   else record_circuit_failure_for e route d w))"

section \<open>The weighted choice is proportional\<close>

fun prefix_weight :: "nat \<Rightarrow> route_candidate list \<Rightarrow> int" where
  "prefix_weight 0 cs = 0"
| "prefix_weight (Suc n) [] = 0"
| "prefix_weight (Suc n) (c # cs) = route_weight c + prefix_weight n cs"

lemma route_weight_pos: "0 < route_weight c"
  by (simp add: route_weight_def Let_def)

lemma sum_weight_nonneg: "0 \<le> sum_list (map route_weight cs)"
  using route_weight_pos by (intro sum_list_nonneg) (auto intro: less_imp_le)

lemma total_weight_exact:
  "0 \<le> t \<Longrightarrow> t + sum_list (map route_weight cs) \<le> int64_max \<Longrightarrow>
     foldl (\<lambda>t c. wrap64 (t + route_weight c)) t cs = t + sum_list (map route_weight cs)"
proof (induction cs arbitrary: t)
  case (Cons c cs)
  have "wrap64 (t + route_weight c) = t + route_weight c"
    using Cons.prems sum_weight_nonneg [of cs] route_weight_pos [of c] by (simp add: in_int64_def)
  with Cons.IH [of "t + route_weight c"] Cons.prems route_weight_pos [of c] show ?case by simp
qed simp

lemma pick_cumulative_spec:
  "0 \<le> cum \<Longrightarrow> cum \<le> r \<Longrightarrow> cum + sum_list (map route_weight cs) \<le> int64_max \<Longrightarrow> i < length cs \<Longrightarrow>
     cum + prefix_weight i cs \<le> r \<Longrightarrow> r < cum + prefix_weight (Suc i) cs \<Longrightarrow>
     pick_cumulative r cum cs = Some (cs ! i)"
proof (induction cs arbitrary: cum i)
  case (Cons c cs)
  have exact: "wrap64 (cum + route_weight c) = cum + route_weight c"
    using Cons.prems sum_weight_nonneg [of cs] route_weight_pos [of c] by (simp add: in_int64_def)
  show ?case
  proof (cases i)
    case 0
    then show ?thesis using Cons.prems exact by simp
  next
    case (Suc j)
    have nonneg: "0 \<le> prefix_weight n l" for n l
      using route_weight_pos by (induction n l rule: prefix_weight.induct) (auto intro: less_imp_le add_nonneg_nonneg)
    have "cum + route_weight c \<le> r" using Cons.prems(5) Suc nonneg [of j cs] by simp
    then show ?thesis
      using Cons.IH [of "cum + route_weight c" j] Cons.prems Suc exact route_weight_pos [of c]
      by (simp add: Let_def)
  qed
qed simp

lemma prefix_weight_mono: "i \<le> j \<Longrightarrow> prefix_weight i cs \<le> prefix_weight j cs"
proof (induction i cs arbitrary: j rule: prefix_weight.induct)
  case (1 cs)
  show ?case
    using route_weight_pos by (induction j cs rule: prefix_weight.induct) (auto intro: less_imp_le add_nonneg_nonneg)
next
  case (2 n)
  show ?case by (cases j) auto
next
  case (3 n c cs)
  then show ?case by (cases j) auto
qed

lemma prefix_weight_total: "prefix_weight (length cs) cs = sum_list (map route_weight cs)"
  by (induction cs) auto

lemma prefix_weight_Suc: "i < length cs \<Longrightarrow> prefix_weight (Suc i) cs = prefix_weight i cs + route_weight (cs ! i)"
  by (induction i cs rule: prefix_weight.induct) (auto simp: neq_Nil_conv split: nat.splits)

text \<open>
  Among the equally likely draws of the weighted choice, exactly \<open>weight\<close> many (100 for a
  non-positive weight) fall on the interval of a candidate, and each of them selects it: a
  route's share of the traffic of its priority is its weight over the total.
\<close>

theorem weighted_choice_proportional:
  assumes "i < length cs" "sum_list (map route_weight cs) \<le> int64_max"
  shows "card {r. prefix_weight i cs \<le> r \<and> r < prefix_weight (Suc i) cs} = nat (route_weight (cs ! i)) \<and>
    (\<forall>r. prefix_weight i cs \<le> r \<and> r < prefix_weight (Suc i) cs \<longrightarrow>
       0 \<le> r \<and> r < total_weight cs \<and> weighted_random_candidate (\<lambda>_. r) cs = Some (cs ! i))"
proof (intro conjI allI impI)
  have "{r. prefix_weight i cs \<le> r \<and> r < prefix_weight (Suc i) cs} = {prefix_weight i cs..<prefix_weight (Suc i) cs}"
    by auto
  then show "card {r. prefix_weight i cs \<le> r \<and> r < prefix_weight (Suc i) cs} = nat (route_weight (cs ! i))"
    using assms(1) by (simp add: prefix_weight_Suc)
next
  fix r assume r: "prefix_weight i cs \<le> r \<and> r < prefix_weight (Suc i) cs"
  have total: "total_weight cs = sum_list (map route_weight cs)"
    unfolding total_weight_def using total_weight_exact [of 0 cs] assms(2) by simp
  have "prefix_weight 0 cs \<le> prefix_weight i cs" by (rule prefix_weight_mono) simp
  then show nonneg: "0 \<le> r" using r by simp
  have "prefix_weight (Suc i) cs \<le> prefix_weight (length cs) cs"
    using assms(1) by (intro prefix_weight_mono) simp
  then show less: "r < total_weight cs" using r total by (simp add: prefix_weight_total)
  have "pick_cumulative r 0 cs = Some (cs ! i)"
    using pick_cumulative_spec [of 0 r cs i] r nonneg assms by simp
  then show "weighted_random_candidate (\<lambda>_. r) cs = Some (cs ! i)"
    using less nonneg assms(1) by (auto simp: weighted_random_candidate_def Let_def)
qed

section \<open>What resolution returns\<close>

definition key_of_row :: "route_env \<Rightarrow> route_row \<Rightarrow> string \<Rightarrow> bool" where
  "key_of_row e row k \<longleftrightarrow> (\<exists>cfg. env_parseKeys e (rr_APIKeysEnc row) = Some cfg \<and>
     (\<exists>a \<in> set (active_keys (kc_Keys cfg)). k = ak_Key a))"

lemma pick_active_key_mem:
  assumes "pick_active_key e u entries strategy w = (w', Some k)"
  shows "\<exists>a \<in> set (active_keys entries). k = ak_Key a"
proof -
  let ?a = "active_keys entries"
  have ne: "?a \<noteq> []" using assms by (auto simp: pick_active_key_def Let_def split: if_splits)
  have idx: "?a ! nat (x mod int (length ?a)) \<in> set ?a" for x
    using ne by (intro nth_mem) (simp add: nat_less_iff)
  have "hd ?a \<in> set ?a" using ne by simp
  with assms idx show ?thesis
    by (auto simp: pick_active_key_def intn_def Let_def split: if_splits prod.splits)
qed

lemma select_api_key_mem:
  "select_api_key e u cfg w = (w', Some k) \<Longrightarrow> \<exists>a \<in> set (active_keys (kc_Keys cfg)). k = ak_Key a"
  by (auto simp: select_api_key_def split: if_splits dest: pick_active_key_mem)

lemma collect_group_Cons:
  assumes "collect_group e (row # rows) w s = (w', s', g)"
  obtains (skip) w1 s1 where "collect_group e rows w1 s1 = (w', s', g)"
    | (take) w0 w1 cfg k g' where "row_complete e row" "env_parseKeys e (rr_APIKeysEnc row) = Some cfg"
       "select_api_key e (rr_UpstreamID row) cfg w0 = (w1, Some k)" "collect_group e rows w1 s = (w', s', g')"
       "g = \<lparr>rc_row = row, rc_apiKey = k\<rparr> # g'"
proof (cases "row_complete e row")
  case False
  with assms skip show thesis by simp
next
  case True
  obtain w0 rem where r: "route_rate_limit_backoff e (rr_UpstreamID row) (rr_RouteID row) w = (w0, rem)"
    by (cases "route_rate_limit_backoff e (rr_UpstreamID row) (rr_RouteID row) w")
  show thesis
  proof (cases "rem > 0")
    case True
    with assms \<open>row_complete e row\<close> r skip show thesis by simp
  next
    case False
    show thesis
    proof (cases "env_parseKeys e (rr_APIKeysEnc row)")
      case None
      with assms \<open>row_complete e row\<close> r False skip show thesis by simp
    next
      case (Some cfg)
      obtain w1 k where k: "select_api_key e (rr_UpstreamID row) cfg w0 = (w1, k)"
        by (cases "select_api_key e (rr_UpstreamID row) cfg w0")
      show thesis
      proof (cases k)
        case None
        with assms \<open>row_complete e row\<close> r False Some k skip show thesis by simp
      next
        case (Some key)
        obtain w2 s2 g' where "collect_group e rows w1 s = (w2, s2, g')"
          by (cases "collect_group e rows w1 s")
        with assms \<open>row_complete e row\<close> r False \<open>env_parseKeys e (rr_APIKeysEnc row) = Some cfg\<close> k Some
          take [of cfg w0 w1 key g'] show thesis by simp
      qed
    qed
  qed
qed

lemma collect_group_sound:
  "collect_group e rows w s = (w', s', g) \<Longrightarrow> c \<in> set g \<Longrightarrow>
     rc_row c \<in> set rows \<and> row_complete e (rc_row c) \<and> key_of_row e (rc_row c) (rc_apiKey c)"
proof (induction rows arbitrary: w s w' s' g)
  case (Cons row rows)
  from Cons.prems(1) show ?case
  proof (cases rule: collect_group_Cons)
    case (skip w1 s1)
    with Cons.IH [OF skip] Cons.prems(2) show ?thesis by simp
  next
    case (take w0 w1 cfg k g')
    have "key_of_row e row k" using take(2) select_api_key_mem [OF take(3)] by (auto simp: key_of_row_def)
    with take Cons.IH [OF take(4)] Cons.prems(2) show ?thesis by auto
  qed
qed simp

lemma try_candidates_sound:
  "try_candidates e enabled cs w = (w', Some (Inr r)) \<Longrightarrow>
     \<exists>c \<in> set cs. \<exists>us ms. r = (build_resolved_route e (rc_row c) (rc_apiKey c))
        \<lparr>rd_UpstreamProbeGranted := us, rd_ModelProbeGranted := ms\<rparr>"
proof (induction e enabled cs w arbitrary: w' r rule: try_candidates.induct)
  case (1 e enabled cs w)
  let ?sel = "selected_candidate e w cs"
  from 1(2) have ne: "cs \<noteq> []" by (auto simp: try_candidates.simps [of e enabled cs w])
  obtain w1 a where t: "try_candidate e enabled (rc_row ?sel) (drew w) = (w1, a)"
    by (cases "try_candidate e enabled (rc_row ?sel) (drew w)") auto
  show ?case
  proof (cases a)
    case Skip
    have "\<exists>c \<in> set (remove_candidate cs (rr_UpstreamID (rc_row ?sel)) (rr_UpstreamModelID (rc_row ?sel))).
        \<exists>us ms. r = (build_resolved_route e (rc_row c) (rc_apiKey c))
        \<lparr>rd_UpstreamProbeGranted := us, rd_ModelProbeGranted := ms\<rparr>"
      using 1(1) [OF ne refl refl t [symmetric] refl Skip] 1(2) ne t Skip
      by (simp add: try_candidates.simps [of e enabled cs w] Let_def)
    then show ?thesis by (auto simp: remove_candidate_def)
  next
    case (Done us ms)
    then show ?thesis
      using 1(2) ne t selected_candidate_mem [OF ne, of e w]
      by (auto simp: try_candidates.simps [of e enabled cs w] Let_def)
  qed (use 1(2) ne t in \<open>simp add: try_candidates.simps [of e enabled cs w] Let_def\<close>)
qed

lemma resolve_groups_sound:
  "resolve_groups e enabled rows w s = (w', Inr r) \<Longrightarrow>
     \<exists>row \<in> set rows. row_complete e row \<and> (\<exists>k us ms. key_of_row e row k \<and>
       r = (build_resolved_route e row k)\<lparr>rd_UpstreamProbeGranted := us, rd_ModelProbeGranted := ms\<rparr>)"
proof (induction e enabled rows w s arbitrary: w' rule: resolve_groups.induct)
  case (2 e enabled row rows w s)
  let ?p = "\<lambda>r. rr_RoutePriority r = rr_RoutePriority row"
  obtain w1 s1 g where c: "collect_group e (row # takeWhile ?p rows) w s = (w1, s1, g)"
    by (cases "collect_group e (row # takeWhile ?p rows) w s") auto
  obtain w2 res where t: "try_candidates e enabled g w1 = (w2, res)"
    by (cases "try_candidates e enabled g w1") auto
  show ?case
  proof (cases res)
    case None
    from 2(1) [OF refl c [symmetric] refl refl refl t [symmetric] refl None] 2(2) c t None
    obtain row' where "row' \<in> set (dropWhile ?p rows)" "row_complete e row' \<and> (\<exists>k us ms. key_of_row e row' k \<and>
       r = (build_resolved_route e row' k)\<lparr>rd_UpstreamProbeGranted := us, rd_ModelProbeGranted := ms\<rparr>)"
      by (auto simp: Let_def)
    then show ?thesis by (intro bexI [of _ row']) (auto dest: set_dropWhileD)
  next
    case (Some x)
    with 2(2) c t have "res = Some (Inr r)" by (simp add: Let_def)
    with try_candidates_sound t obtain cd us ms where cd: "cd \<in> set g"
      "r = (build_resolved_route e (rc_row cd) (rc_apiKey cd))
        \<lparr>rd_UpstreamProbeGranted := us, rd_ModelProbeGranted := ms\<rparr>" by blast
    from collect_group_sound [OF c cd(1)] cd(2) show ?thesis
      by (intro bexI [of _ "rc_row cd"]) (auto dest: set_takeWhileD)
  qed
qed simp

section \<open>Accounting of probes\<close>

text \<open>\<open>probe st\<close> is the time until which a probe of the circuit is outstanding, 0 for none.\<close>

definition probe :: "circuit_state option \<Rightarrow> gtime" where
  "probe st = (case st of None \<Rightarrow> 0 | Some s \<Rightarrow> probeUntil s)"

definition kept_except :: "nat set \<Rightarrow> string set \<Rightarrow> cache \<Rightarrow> cache \<Rightarrow> bool" where
  "kept_except U K c c' \<longleftrightarrow>
     (\<forall>u. u \<notin> U \<longrightarrow> probe (upstreamCB c' u) \<in> {probe (upstreamCB c u), 0}) \<and>
     (\<forall>k. k \<notin> K \<longrightarrow> probe (modelCB c' k) \<in> {probe (modelCB c k), 0})"

abbreviation probes_kept :: "cache \<Rightarrow> cache \<Rightarrow> bool" where
  "probes_kept \<equiv> kept_except {} {}"

lemma kept_refl [simp]: "kept_except U K c c"
  by (simp add: kept_except_def)

lemma kept_trans: "kept_except U K c c' \<Longrightarrow> kept_except U' K' c' c'' \<Longrightarrow> kept_except (U \<union> U') (K \<union> K') c c''"
  unfolding kept_except_def by (metis Un_iff empty_iff insert_iff)

lemma probes_kept_trans: "probes_kept c c' \<Longrightarrow> kept_except U K c' c'' \<Longrightarrow> kept_except U K c c''"
  using kept_trans [of "{}" "{}" c c' U K c''] by simp

lemma kept_then_probes_kept: "kept_except U K c c' \<Longrightarrow> probes_kept c' c'' \<Longrightarrow> kept_except U K c c''"
  using kept_trans [of U K c c' "{}" "{}" c''] by simp

lemma kept_weaken: "probes_kept c c' \<Longrightarrow> kept_except U K c c'"
  by (auto simp: kept_except_def)

lemma kept_sweep [simp]: "probes_kept c (maybe_sweep now c)"
  by (simp add: kept_except_def maybe_sweep_fields map_sweep_apply probe_def split: option.splits)

lemma kept_same: "upstreamCB c' = upstreamCB c \<Longrightarrow> modelCB c' = modelCB c \<Longrightarrow> kept_except U K c c'"
  by (simp add: kept_except_def)

lemma kept_same_sweep:
  "upstreamCB c1 = upstreamCB c \<Longrightarrow> modelCB c1 = modelCB c \<Longrightarrow> kept_except U K c (maybe_sweep now c1)"
  using probes_kept_trans [OF kept_same, of c1 c U K "maybe_sweep now c1"] kept_weaken kept_sweep by blast

lemma kept_incr: "kept_except U K c (fst (incr_api_key_counter now u c))"
  by (simp add: incr_api_key_counter_def Let_def kept_same_sweep)

lemma check_locked_probe:
  "snd (check_circuit_state_locked t st) \<noteq> HalfOpenGranted \<Longrightarrow>
     probe (fst (check_circuit_state_locked t st)) \<in> {probe st, 0}"
  by (auto simp: check_circuit_state_locked_def probe_def close_circuit_def split: option.splits)

lemma kept_check_upstream:
  "kept_except (if snd (check_upstream_circuit_state t u c) = HalfOpenGranted then {u} else {}) {} c
     (fst (check_upstream_circuit_state t u c))"
  using check_locked_probe [of t "upstreamCB c u"]
  by (auto simp: kept_except_def check_upstream_circuit_state_def split: prod.splits)

lemma kept_check_model:
  "kept_except {} (if snd (check_model_circuit_state t u k c) = HalfOpenGranted then {model_circuit_key u k} else {}) c
     (fst (check_model_circuit_state t u k c))"
  using check_locked_probe [of t "modelCB c (model_circuit_key u k)"]
  by (auto simp: kept_except_def check_model_circuit_state_def Let_def split: prod.splits)

lemma kept_release_upstream:
  "kept_except (insert u U) K c c' \<Longrightarrow> kept_except U K c (release_route_probes u [] c')"
  by (auto simp: kept_except_def release_route_probes_def release_probe_def probe_def split: option.splits)

lemma kept_release_model:
  "trim_space k \<noteq> [] \<Longrightarrow> kept_except U (insert (model_circuit_key u k) K) c c' \<Longrightarrow>
     kept_except U K c (release_route_probes u k c')"
  by (auto simp: kept_except_def release_route_probes_def release_probe_def probe_def Let_def split: option.splits)

lemma kept_clear_upstream:
  "kept_except (insert u U) K c c' \<Longrightarrow> kept_except U K c (clear_upstream_circuit_keys u c')"
  by (auto simp: kept_except_def clear_upstream_circuit_keys_def probe_def)

lemma kept_clear_model:
  "kept_except U (insert (model_circuit_key u k) K) c c' \<Longrightarrow> kept_except U K c (clear_model_circuit_keys u k c')"
  by (auto simp: kept_except_def clear_model_circuit_keys_def probe_def)

section \<open>Probes through resolution\<close>

lemma read_clock_cache [simp]: "w_cache (fst (read_clock e w)) = w_cache w"
  by (simp add: read_clock_def)

lemma drew_cache [simp]: "w_cache (drew w) = w_cache w"
  by (simp add: drew_def)

lemma kept_next_key: "kept_except U K (w_cache w) (w_cache (fst (next_api_key_index e u w)))"
  using kept_incr by (auto simp: next_api_key_index_def read_clock_def split: prod.splits) (metis fst_conv)

lemma kept_select_key: "kept_except U K (w_cache w) (w_cache (fst (select_api_key e u cfg w)))"
  using kept_next_key [of U K w e u]
  by (auto simp: select_api_key_def pick_active_key_def Let_def split: prod.splits)

lemma kept_backoff: "w_cache (fst (route_rate_limit_backoff e u r w)) = w_cache w"
  by (simp add: route_rate_limit_backoff_def read_clock_def)

lemma kept_collect: "probes_kept (w_cache w) (w_cache (fst (collect_group e rows w s)))"
proof (induction rows arbitrary: w s)
  case (Cons row rows)
  note kb = kept_backoff [of e "rr_UpstreamID row" "rr_RouteID row" w]
  have ks: "probes_kept (w_cache w) (w_cache (fst (select_api_key e (rr_UpstreamID row) cfg
      (fst (route_rate_limit_backoff e (rr_UpstreamID row) (rr_RouteID row) w)))))" for cfg
    using kept_select_key [of "{}" "{}"] kb by metis
  show ?case
    using Cons.IH kb probes_kept_trans [OF ks Cons.IH]
    by (auto simp: Let_def split: prod.splits option.splits) (metis fst_conv)+
qed simp

lemma check_upstream_cases:
  assumes "check_upstream e u w = (w', r)"
  obtains (fault) err where "r = Inl err" "w_cache w' = w_cache w"
    | (checked) t st where "r = Inr st" "check_upstream_circuit_state t u (w_cache w) = (w_cache w', st)"
  using assms by (auto simp: check_upstream_def read_clock_def Let_def split: option.splits prod.splits)

lemma check_model_cases:
  assumes "check_model e u k w = (w', r)"
  obtains (fault) err where "r = Inl err" "w_cache w' = w_cache w"
    | (checked) t st where "r = Inr st" "check_model_circuit_state t u k (w_cache w) = (w_cache w', st)"
  using assms by (auto simp: check_model_def read_clock_def Let_def split: option.splits prod.splits)

definition granted_upstream :: "nat \<Rightarrow> attempt \<Rightarrow> nat set" where
  "granted_upstream u a = (case a of Done us ms \<Rightarrow> if us = HalfOpenGranted then {u} else {} | _ \<Rightarrow> {})"

definition granted_model :: "string \<Rightarrow> attempt \<Rightarrow> string set" where
  "granted_model k a = (case a of Done us ms \<Rightarrow> if ms = HalfOpenGranted then {k} else {} | _ \<Rightarrow> {})"

lemma kept_try_candidate:
  assumes "try_candidate e enabled row w = (w', a)"
  shows "kept_except (granted_upstream (rr_UpstreamID row) a)
    (granted_model (model_circuit_key (rr_UpstreamID row) (binding_circuit_key (rr_BindingCode row))) a)
    (w_cache w) (w_cache w')"
proof (cases enabled)
  case False
  then show ?thesis using assms by (simp add: try_candidate_def)
next
  case True
  let ?u = "rr_UpstreamID row" and ?k = "binding_circuit_key (rr_BindingCode row)"
  obtain w1 r1 where c1: "check_upstream e ?u w = (w1, r1)" by (cases "check_upstream e ?u w")
  then show ?thesis
  proof (cases rule: check_upstream_cases)
    case (fault err)
    then show ?thesis using assms True c1 by (simp add: try_candidate_def Let_def)
  next
    case (checked t us)
    have k1: "kept_except (if us = HalfOpenGranted then {?u} else {}) {} (w_cache w) (w_cache w1)"
      using kept_check_upstream [of t ?u "w_cache w"] checked(2) by simp
    show ?thesis
    proof (cases "refused us")
      case True
      then have "us \<noteq> HalfOpenGranted" by (auto simp: refused_def)
      then show ?thesis using assms \<open>enabled\<close> c1 checked True k1
        by (auto simp: try_candidate_def Let_def granted_upstream_def granted_model_def)
    next
      case False
      obtain w2 r2 where c2: "check_model e ?u ?k w1 = (w2, r2)" by (cases "check_model e ?u ?k w1")
      let ?rel = "if us = HalfOpenGranted then release_upstream_probe ?u w2 else w2"
      have released: "probes_kept (w_cache w) (w_cache ?rel)" if "probes_kept (w_cache w1) (w_cache w2)"
        using kept_then_probes_kept [OF k1 that] kept_release_upstream [of ?u "{}" "{}" "w_cache w" "w_cache w2"]
        by (auto simp: release_upstream_probe_def)
      from c2 show ?thesis
      proof (cases rule: check_model_cases)
        case (fault err)
        then have "probes_kept (w_cache w) (w_cache ?rel)" using released by simp
        then show ?thesis using assms \<open>enabled\<close> c1 checked False c2 fault
          by (auto simp: try_candidate_def Let_def granted_upstream_def granted_model_def)
      next
        case checked': (checked t' ms)
        have k2: "kept_except {} (if ms = HalfOpenGranted then {model_circuit_key ?u ?k} else {}) (w_cache w1) (w_cache w2)"
          using kept_check_model [of t' ?u ?k "w_cache w1"] checked'(2) by simp
        show ?thesis
        proof (cases "refused ms")
          case True
          then have "ms \<noteq> HalfOpenGranted" by (auto simp: refused_def)
          with k2 released have "probes_kept (w_cache w) (w_cache ?rel)" by simp
          then show ?thesis using assms \<open>enabled\<close> c1 checked False c2 checked' True
            by (auto simp: try_candidate_def Let_def granted_upstream_def granted_model_def)
        next
          case False': False
          show ?thesis using assms \<open>enabled\<close> c1 checked False c2 checked' False' kept_trans [OF k1 k2]
            by (auto simp: try_candidate_def Let_def granted_upstream_def granted_model_def)
        qed
      qed
    qed
  qed
qed

text \<open>The probes a result holds.\<close>

definition held_upstream :: "resolved_route \<Rightarrow> nat set" where
  "held_upstream r = (if rd_UpstreamProbeGranted r then {rd_UpstreamID r} else {})"

definition held_model :: "resolved_route \<Rightarrow> string set" where
  "held_model r = (if rd_ModelProbeGranted r
     then {model_circuit_key (rd_UpstreamID r) (route_model_circuit_key r)} else {})"

definition result_kept :: "cache \<Rightarrow> (route_error + resolved_route) \<Rightarrow> cache \<Rightarrow> bool" where
  "result_kept c res c' = (case res of Inl _ \<Rightarrow> probes_kept c c'
     | Inr r \<Rightarrow> kept_except (held_upstream r) (held_model r) c c')"

lemma binding_key_trim [simp]: "binding_circuit_key (trim_space b) = binding_circuit_key b"
  by (simp add: binding_circuit_key_def)

lemma kept_try_candidates:
  "try_candidates e enabled cs w = (w', res) \<Longrightarrow>
     (case res of None \<Rightarrow> probes_kept (w_cache w) (w_cache w') | Some x \<Rightarrow> result_kept (w_cache w) x (w_cache w'))"
proof (induction e enabled cs w arbitrary: w' res rule: try_candidates.induct)
  case (1 e enabled cs w)
  show ?case
  proof (cases "cs = []")
    case True
    then show ?thesis using 1(2) by (auto simp: try_candidates.simps [of e enabled "[]" w])
  next
    case ne: False
    let ?sel = "selected_candidate e w cs"
    obtain w1 a where t: "try_candidate e enabled (rc_row ?sel) (drew w) = (w1, a)"
      by (cases "try_candidate e enabled (rc_row ?sel) (drew w)") auto
    note k = kept_try_candidate [OF t]
    show ?thesis
    proof (cases a)
      case Skip
      then have "probes_kept (w_cache w) (w_cache w1)"
        using k by (simp add: granted_upstream_def granted_model_def)
      moreover have "case res of None \<Rightarrow> probes_kept (w_cache w1) (w_cache w')
          | Some x \<Rightarrow> result_kept (w_cache w1) x (w_cache w')"
        using 1(1) [OF ne refl refl t [symmetric] refl Skip] 1(2) ne t Skip
        by (simp add: try_candidates.simps [of e enabled cs w] Let_def)
      ultimately show ?thesis
        by (auto simp: result_kept_def split: option.splits sum.splits intro: probes_kept_trans)
    next
      case (Fail err)
      then show ?thesis using k 1(2) ne t
        by (auto simp: try_candidates.simps [of e enabled cs w] Let_def result_kept_def
            granted_upstream_def granted_model_def)
    next
      case (Done us ms)
      then show ?thesis using k 1(2) ne t
        by (auto simp: try_candidates.simps [of e enabled cs w] Let_def result_kept_def
            granted_upstream_def granted_model_def held_upstream_def held_model_def
            build_resolved_route_def route_model_circuit_key_def)
    qed
  qed
qed

lemma kept_resolve_groups:
  "resolve_groups e enabled rows w s = (w', res) \<Longrightarrow> result_kept (w_cache w) res (w_cache w')"
proof (induction e enabled rows w s arbitrary: w' rule: resolve_groups.induct)
  case (2 e enabled row rows w s)
  let ?p = "\<lambda>r. rr_RoutePriority r = rr_RoutePriority row"
  obtain w1 s1 g where c: "collect_group e (row # takeWhile ?p rows) w s = (w1, s1, g)"
    by (cases "collect_group e (row # takeWhile ?p rows) w s") auto
  obtain w2 r where t: "try_candidates e enabled g w1 = (w2, r)"
    by (cases "try_candidates e enabled g w1") auto
  have k1: "probes_kept (w_cache w) (w_cache w1)" using kept_collect [of w e "row # takeWhile ?p rows" s] c by simp
  have chain: "result_kept (w_cache w) x (w_cache w'')"
    if "probes_kept (w_cache w) c1" "result_kept c1 x (w_cache w'')" for c1 x w''
    using that by (auto simp: result_kept_def split: sum.splits intro: probes_kept_trans)
  show ?case
  proof (cases r)
    case None
    from 2(1) [OF refl c [symmetric] refl refl refl t [symmetric] refl None] 2(2) c t None
    have "result_kept (w_cache w2) res (w_cache w')" by (simp add: Let_def)
    moreover have "probes_kept (w_cache w) (w_cache w2)"
      using kept_try_candidates [OF t] None probes_kept_trans [OF k1] by simp
    ultimately show ?thesis using chain by blast
  next
    case (Some x)
    then show ?thesis using kept_try_candidates [OF t] 2(2) c t chain [OF k1] by (simp add: Let_def)
  qed
qed (auto simp: result_kept_def)

lemma load_defaults_cache [simp]: "w_cache (fst (load_breaker_defaults e w)) = w_cache w"
  by (simp add: load_breaker_defaults_def read_clock_def Let_def split: option.splits)

lemma resolve_with_breaker_cases:
  assumes "resolve_with_breaker e i enabled w = (w', res)"
  obtains (error) err where "w' = w" "res = Inl err"
    | (groups) name model rows where "normalize_platform_model_name (ri_PlatformModelName i) = Some name"
       "env_model e name = Inr model" "route_scope_allows_model_access (ri_Scope i) (pm_AccessScope model)"
       "normalize_route_scope (ri_Scope i) = ScopeUser \<Longrightarrow> 0 < ri_UserID i \<Longrightarrow>
          is_model_accessible e (pm_ID model) (ri_UserID i) = Inr True"
       "env_routes e name = Inr rows" "resolve_groups e enabled (available_rows e i rows) w 0 = (w', res)"
  using assms unfolding resolve_with_breaker_def Let_def
  by (auto split: option.splits sum.splits if_splits)

lemma kept_resolve_route:
  assumes "resolve_route e i w = (w', res)"
  shows "result_kept (w_cache w) res (w_cache w')"
proof -
  obtain w0 enabled where w0: "w_cache w0 = w_cache w" "resolve_with_breaker e i enabled w0 = (w', res)"
  proof (cases "env_hasCache e")
    case True
    then show thesis
      using assms that [of "fst (load_breaker_defaults e w)"] by (simp add: resolve_route_def split_beta)
  next
    case False
    then show thesis using assms that [of w] by (simp add: resolve_route_def)
  qed
  from w0(2) show ?thesis
  proof (cases rule: resolve_with_breaker_cases)
    case (error err)
    then show ?thesis by (simp add: result_kept_def w0)
  next
    case (groups name model rows)
    from kept_resolve_groups [OF groups(6)] show ?thesis by (simp add: w0)
  qed
qed

section \<open>Returning the probes\<close>

lemma upd_cache_cache [simp]: "w_cache (upd_cache f w) = f (w_cache w)"
  by (simp add: upd_cache_def)

lemma timed_cache: "\<exists>t. w_cache (timed e f w) = f t (w_cache w)"
  by (auto simp: timed_def read_clock_def)

lemma kept_failure_metadata: "kept_except U K c (record_failure_metadata t u m c)"
  by (simp add: record_failure_metadata_def kept_same_sweep)

lemma kept_success_metadata: "kept_except U K c (record_success_metadata t u c)"
  by (simp add: record_success_metadata_def Let_def kept_same_sweep)

lemma kept_record_backoff: "kept_except U K c (record_rate_limit_backoff t p c)"
  by (simp add: record_rate_limit_backoff_def Let_def kept_same_sweep)

lemma kept_clear_backoff: "kept_except U K c (clear_rate_limit_backoff u r c)"
  by (simp add: clear_rate_limit_backoff_def kept_same)

lemma kept_on: "kept_except U K c (w_cache w) \<Longrightarrow> (\<And>t. probes_kept (w_cache w) (f t (w_cache w))) \<Longrightarrow>
    kept_except U K c (w_cache (timed e f w))"
  using timed_cache [of e f w] kept_then_probes_kept by metis

lemma kept_release_granted:
  assumes "kept_except (held_upstream r) (held_model r) c (w_cache w)" "rd_UpstreamID r \<noteq> 0"
    "trim_space (route_model_circuit_key r) \<noteq> []"
  shows "probes_kept c (w_cache (release_granted_route_probes r w))"
proof -
  let ?w1 = "if rd_UpstreamProbeGranted r then upd_cache (release_route_probes (rd_UpstreamID r) []) w else w"
  have one: "kept_except {} (held_model r) c (w_cache ?w1)"
    using assms(1) kept_release_upstream [of "rd_UpstreamID r" "{}" "held_model r" c "w_cache w"]
    by (auto simp: held_upstream_def)
  have key: "route_model_circuit_key r \<noteq> []" using assms(3) by auto
  show ?thesis
  proof (cases "rd_ModelProbeGranted r")
    case True
    then show ?thesis
      using kept_release_model [OF assms(3), of "{}" "rd_UpstreamID r" "{}" c "w_cache ?w1"] one assms(2) key
      by (simp add: release_granted_route_probes_def Let_def held_model_def)
  next
    case False
    then show ?thesis using one assms(2) by (simp add: release_granted_route_probes_def Let_def held_model_def)
  qed
qed

lemma probe_failed_circuits [simp]:
  "probe (Some (failed_model_circuit t i st)) = 0"
  "probe (Some (failed_upstream_circuit t i n st)) = 0"
  by (simp_all add: probe_def failed_model_circuit_def failed_upstream_circuit_def trip_circuit_def Let_def)

lemma kept_record_circuit_failure:
  assumes "kept_except U K c c'" "U \<subseteq> {cf_UpstreamID i}" "K \<subseteq> {failed_key i}"
    and "cf_UpstreamID i \<noteq> 0" "trim_space (cf_ModelKey i) \<noteq> []"
  shows "probes_kept c (record_circuit_failure t i c')"
proof -
  let ?n = "open_model_count (failed_models t i c') (cf_UpstreamID i) t [] (cf_ActiveModelKeys i)"
  let ?c = "c'\<lparr>modelCB := failed_models t i c',
      upstreamCB := (upstreamCB c')(cf_UpstreamID i \<mapsto> failed_upstream_circuit t i ?n
        (upstreamCB c' (cf_UpstreamID i)))\<rparr>"
  have "probes_kept c ?c"
    using assms(1-3) by (auto simp: kept_except_def failed_models_def)
  then show ?thesis
    unfolding record_circuit_failure_eq [OF assms(4,5)] by (rule kept_then_probes_kept) (rule kept_sweep)
qed

lemma binding_key_nonblank:
  assumes "trim_space b \<noteq> []"
  shows "trim_space (binding_circuit_key b) \<noteq> []"
  by (rule trim_space_keeps [of "CHR ''u''"]) (use assms in \<open>simp_all add: binding_circuit_key_def Let_def go_spaces_def\<close>)

lemma kept_mark_failure:
  assumes "kept_except (held_upstream r) (held_model r) c (w_cache w)" "rd_UpstreamID r \<noteq> 0" "env_hasCache e"
    "trim_space (rd_BindingCode r) \<noteq> []"
  shows "probes_kept c (w_cache (mark_route_failure e r cause w))"
proof -
  have key: "trim_space (route_model_circuit_key r) \<noteq> []"
    using binding_key_nonblank [OF assms(4)] by (simp add: route_model_circuit_key_def)
  then have key': "route_model_circuit_key r \<noteq> []" by auto
  let ?w1 = "timed e (\<lambda>now. record_failure_metadata now (rd_UpstreamID r)
      (truncate_message (trim_space (error_message cause)) 255)) w"
  have one: "kept_except (held_upstream r) (held_model r) c (w_cache ?w1)"
    using assms(1) kept_failure_metadata by (rule kept_on)
  have released: "probes_kept c (w_cache (release_granted_route_probes r w2))"
    if "w_cache w2 = w_cache ?w1" for w2
    using kept_release_granted [of r c w2] one assms(2) key that by simp
  have backoff: "probes_kept c (w_cache (record_rate_limit_backoff_for e r cause w2))"
    if "probes_kept c (w_cache w2)" for w2
    using that kept_on [of "{}" "{}" c _ "\<lambda>t. record_rate_limit_backoff t _" e] kept_record_backoff
    by (auto simp: record_rate_limit_backoff_for_def Let_def read_clock_def split: prod.splits)
  have circuit: "probes_kept c (w_cache (record_circuit_failure_for e r d w2))"
    if "w_cache w2 = w_cache ?w1" for w2 d
  proof -
    let ?i = "circuit_failure_of r d (env_bindingCodes e (rd_UpstreamID r))"
    have i: "cf_UpstreamID ?i = rd_UpstreamID r" "cf_ModelKey ?i = route_model_circuit_key r"
      by (simp_all add: circuit_failure_of_def route_model_circuit_key_def Let_def)
    obtain t where "w_cache (timed e (\<lambda>now. record_circuit_failure now ?i) w2) = record_circuit_failure t ?i (w_cache w2)"
      using timed_cache by blast
    moreover have "probes_kept c (record_circuit_failure t ?i (w_cache w2))"
      using kept_record_circuit_failure [OF one, of ?i t] i key assms(2) that
      by (auto simp: held_upstream_def held_model_def)
    ultimately show ?thesis using i key key' assms(2) by (simp add: record_circuit_failure_for_def Let_def)
  qed
  show ?thesis
    using assms(2,3) released [of ?w1] backoff circuit released load_defaults_cache [of e ?w1]
    by (simp add: mark_route_failure_def Let_def split_beta split: failure_class.splits)
qed

lemma kept_mark_success:
  assumes "kept_except (held_upstream r) (held_model r) c (w_cache w)" "rd_UpstreamID r \<noteq> 0" "env_hasCache e"
    "trim_space (rd_BindingCode r) \<noteq> []"
  shows "probes_kept c (w_cache (mark_route_success e r w))"
proof -
  have key: "route_model_circuit_key r \<noteq> []"
    using binding_key_nonblank [OF assms(4)] by (auto simp: route_model_circuit_key_def)
  let ?w1 = "upd_cache (clear_rate_limit_backoff (rd_UpstreamID r) (rd_RouteID r)) w"
  let ?w2 = "if rd_UpstreamProbeGranted r then upd_cache (clear_upstream_circuit_keys (rd_UpstreamID r)) ?w1 else ?w1"
  let ?w3 = "if rd_ModelProbeGranted r then
      upd_cache (clear_model_circuit_keys (rd_UpstreamID r) (route_model_circuit_key r)) ?w2 else ?w2"
  have "kept_except (held_upstream r) (held_model r) c (w_cache ?w1)"
    using assms(1) kept_then_probes_kept [OF _ kept_clear_backoff] by simp
  then have "kept_except {} (held_model r) c (w_cache ?w2)"
    using kept_clear_upstream [of "rd_UpstreamID r" "{}"] by (auto simp: held_upstream_def)
  then have "probes_kept c (w_cache ?w3)"
    using kept_clear_model [of "{}" "rd_UpstreamID r" "route_model_circuit_key r" "{}"] by (auto simp: held_model_def)
  then have "probes_kept c (w_cache (timed e (\<lambda>now. record_success_metadata now (rd_UpstreamID r)) ?w3))"
    using kept_success_metadata by (rule kept_on)
  then show ?thesis using assms(2,3) key by (simp add: mark_route_success_def Let_def)
qed

section \<open>Properties of resolution\<close>

text \<open>Which kinds of model serve a task, and over which protocols.\<close>

fun task_service :: "task_type \<Rightarrow> string list \<times> string list" where
  "task_service TaskChat = ([''chat'', ''audio''],
     [''openai_responses'', ''openrouter_chat_completions'', ''openrouter_responses'', ''openai_chat_completions'',
      ''anthropic_messages'', ''google_generate_content'', ''gemini_interactions'', ''xai_responses''])"
| "task_service TaskImageGeneration = ([''image_gen''],
     [''openai_image_generations'', ''google_image_generation'', ''gemini_interactions'', ''xai_image''])"
| "task_service TaskImageEdit = ([''image_edit''],
     [''openai_image_edits'', ''google_image_generation'', ''gemini_interactions'', ''xai_image_edits''])"
| "task_service TaskVideoGeneration = ([''video_gen''], [''gemini_interactions'', ''xai_video''])"
| "task_service TaskVideoExtension = ([''video_extension''], [''xai_video_extensions''])"

lemma allowed_task_service:
  assumes "is_route_allowed_for_task task kinds protocol" "is_implemented_adapter protocol"
  shows "(kinds = [] \<or> (\<exists>k \<in> set (fst (task_service (normalize_task_type task))). k \<in> set kinds)) \<and>
    trim_space (to_lower protocol) \<in> set (snd (task_service (normalize_task_type task)))"
proof -
  define q where "q = trim_space (to_lower protocol)"
  have implemented: "q \<noteq> ''openai_video_generations''"
    using assms(2) by (auto simp: is_implemented_adapter_def normalize_adapter_def implemented_adapters_def q_def)
  note allowed = assms(1) [unfolded is_route_allowed_for_task_def Let_def, folded q_def]
  show ?thesis
    unfolding q_def [symmetric] using allowed implemented
    by (cases "normalize_task_type task")
       (auto simp: is_protocol_allowed_for_kind_def chat_protocols_def audio_protocols_def split: if_splits)
qed

lemma accessible_by_group:
  assumes "is_model_accessible e model user = Inr True" "0 < user" "env_permGroups e"
  shows "\<exists>groups g. env_modelGroups e model = Inr groups \<and> g \<in> set groups \<and>
    ((\<exists>own. env_userGroups e user = Inr own \<and> g \<in> set own) \<or>
     (\<exists>common. env_defaultGroups e = Inr common \<and> g \<in> set common) \<or>
     (\<exists>resolver. env_subscriptionGroup e = Some resolver \<and> resolver user = Inr (Some g)))"
proof -
  obtain groups mine g where g: "env_modelGroups e model = Inr groups" "resolve_user_group_ids e user = Inr mine"
    "g \<in> set groups" "g \<in> set mine"
    using assms by (auto simp: is_model_accessible_def split: sum.splits if_splits)
  have "(\<exists>own. env_userGroups e user = Inr own \<and> g \<in> set own) \<or>
     (\<exists>common. env_defaultGroups e = Inr common \<and> g \<in> set common) \<or>
     (\<exists>resolver. env_subscriptionGroup e = Some resolver \<and> resolver user = Inr (Some g))"
    using g(2,4) assms(2,3) by (auto simp: resolve_user_group_ids_def split: sum.splits option.splits)
  with g show ?thesis by blast
qed

text \<open>
  C34: A resolved route is a route listed for the model and not excluded, its model is of a kind that serves
  the task and its protocol one of those the program implements for it, it names an upstream model and a
  binding and has a valid URL, and it carries a key of its own upstream that is not blank and not disabled.
  The caller may use the model: the scope is internal, or the model is public and, where groups are in use,
  a signed-in user shares one with it (an own one, a default one or that of the subscription).
\<close>

theorem resolved_route_eligible:
  assumes "resolve_route e i w = (w', Inr r)"
  shows "\<exists>name model rows row cfg key.
    normalize_platform_model_name (ri_PlatformModelName i) = Some name \<and>
    env_model e name = Inr model \<and> env_routes e name = Inr rows \<and> row \<in> set rows \<and>
    \<not> (rr_RouteID row \<noteq> 0 \<and> rr_RouteID row \<in> set (ri_ExcludedRouteIDs i)) \<and>
    (let kinds = parse_kinds (env_jsonStrings e) (rr_ModelKindsJSON row);
         service = task_service (normalize_task_type (ri_TaskType i))
     in (kinds = [] \<or> (\<exists>k \<in> set (fst service). k \<in> set kinds)) \<and>
        trim_space (to_lower (rd_Protocol r)) \<in> set (snd service)) \<and>
    rd_RouteID r = rr_RouteID row \<and> rd_UpstreamID r = rr_UpstreamID row \<and> rd_Protocol r = rr_Protocol row \<and>
    rd_UpstreamModelID r = rr_UpstreamModelID row \<and> rd_UpstreamModelID r \<noteq> 0 \<and>
    rd_BindingCode r = trim_space (rr_BindingCode row) \<and> rd_BindingCode r \<noteq> [] \<and>
    rd_UpstreamModel r = trim_space (rr_UpstreamModelName row) \<and> rd_UpstreamModel r \<noteq> [] \<and>
    rd_BaseURL r = trim_space (rr_BaseURL row) \<and> env_validURL e (rr_BaseURL row) \<and>
    env_parseKeys e (rr_APIKeysEnc row) = Some cfg \<and> key \<in> set (kc_Keys cfg) \<and> rd_APIKey r = ak_Key key \<and>
    trim_space (ak_Key key) \<noteq> [] \<and> (ak_Status key = [] \<or> ak_Status key = ''active'') \<and>
    (trim_space (to_lower (ri_Scope i)) = ''internal'' \<or>
     (trim_space (to_lower (pm_AccessScope model)) = [] \<or> trim_space (to_lower (pm_AccessScope model)) = ''public'') \<and>
     (0 < ri_UserID i \<and> env_permGroups e \<longrightarrow> (\<exists>groups g. env_modelGroups e (pm_ID model) = Inr groups \<and> g \<in> set groups \<and>
        ((\<exists>own. env_userGroups e (ri_UserID i) = Inr own \<and> g \<in> set own) \<or>
         (\<exists>common. env_defaultGroups e = Inr common \<and> g \<in> set common) \<or>
         (\<exists>resolver. env_subscriptionGroup e = Some resolver \<and> resolver (ri_UserID i) = Inr (Some g))))))"
proof -
  obtain w0 enabled where "resolve_with_breaker e i enabled w0 = (w', Inr r)"
    using assms by (auto simp: resolve_route_def split: if_splits prod.splits)
  then show ?thesis
  proof (cases rule: resolve_with_breaker_cases)
    case (groups name model rows)
    from resolve_groups_sound [OF groups(6)] obtain row k us ms where
      row: "row \<in> set (available_rows e i rows)" "row_complete e row" "key_of_row e row k"
      "r = (build_resolved_route e row k)\<lparr>rd_UpstreamProbeGranted := us, rd_ModelProbeGranted := ms\<rparr>" by blast
    obtain cfg key where key: "env_parseKeys e (rr_APIKeysEnc row) = Some cfg" "key \<in> set (kc_Keys cfg)" "k = ak_Key key"
      "trim_space (ak_Key key) \<noteq> []" "ak_Status key = [] \<or> ak_Status key = ''active''"
      using row(3) by (auto simp: key_of_row_def active_keys_def)
    have available: "row \<in> set rows" "\<not> (rr_RouteID row \<noteq> 0 \<and> rr_RouteID row \<in> set (ri_ExcludedRouteIDs i))"
      "is_route_allowed_for_task (ri_TaskType i) (parse_kinds (env_jsonStrings e) (rr_ModelKindsJSON row)) (rr_Protocol row)"
      using row(1) by (auto simp: available_rows_def)
    note service = allowed_task_service [OF available(3)]
    have scope: "trim_space (to_lower (ri_Scope i)) = ''internal'' \<or>
     (trim_space (to_lower (pm_AccessScope model)) = [] \<or> trim_space (to_lower (pm_AccessScope model)) = ''public'') \<and>
     (0 < ri_UserID i \<longrightarrow> is_model_accessible e (pm_ID model) (ri_UserID i) = Inr True)"
      using groups(3,4)
      by (auto simp: route_scope_allows_model_access_def normalize_route_scope_def normalize_model_access_scope_value_def Let_def
          split: if_splits)
    have group: "\<exists>groups g. env_modelGroups e (pm_ID model) = Inr groups \<and> g \<in> set groups \<and>
        ((\<exists>own. env_userGroups e (ri_UserID i) = Inr own \<and> g \<in> set own) \<or>
         (\<exists>common. env_defaultGroups e = Inr common \<and> g \<in> set common) \<or>
         (\<exists>resolver. env_subscriptionGroup e = Some resolver \<and> resolver (ri_UserID i) = Inr (Some g)))"
      if "0 < ri_UserID i \<and> env_permGroups e" "trim_space (to_lower (ri_Scope i)) \<noteq> ''internal''"
      by (rule accessible_by_group) (use scope that in auto)
    show ?thesis
      by (rule exI [of _ name], rule exI [of _ model], rule exI [of _ rows], rule exI [of _ row], rule exI [of _ cfg],
          rule exI [of _ key])
         (use groups(1,2,5) available(1,2) row(2,4) key service scope group in
           \<open>simp add: row_complete_def build_resolved_route_def Let_def; blast\<close>)
  qed simp
qed

text \<open>
  C32: Resolution leaves no half-open probe behind: whatever it returns, errors of the cache
  included, the outstanding probes afterwards are among those before, except the ones the
  returned route says it holds.
\<close>

theorem resolution_leaks_no_probe:
  assumes "resolve_route e i w = (w', res)"
  shows "(\<forall>u. probe (upstreamCB (w_cache w') u) \<in> {probe (upstreamCB (w_cache w) u), 0} \<or>
       (\<exists>r. res = Inr r \<and> rd_UpstreamProbeGranted r \<and> u = rd_UpstreamID r)) \<and>
    (\<forall>k. probe (modelCB (w_cache w') k) \<in> {probe (modelCB (w_cache w) k), 0} \<or>
       (\<exists>r. res = Inr r \<and> rd_ModelProbeGranted r \<and>
          k = model_circuit_key (rd_UpstreamID r) (route_model_circuit_key r)))"
  using kept_resolve_route [OF assms]
  by (auto simp: result_kept_def kept_except_def held_upstream_def held_model_def split: sum.splits if_splits)

lemma resolved_route_binding:
  assumes "resolve_route e i w = (w', Inr r)"
  shows "trim_space (rd_BindingCode r) \<noteq> []"
proof -
  obtain w0 enabled where "resolve_with_breaker e i enabled w0 = (w', Inr r)"
    using assms by (auto simp: resolve_route_def split: if_splits prod.splits)
  then show ?thesis
  proof (cases rule: resolve_with_breaker_cases)
    case (groups name model rows)
    from resolve_groups_sound [OF groups(6)] show ?thesis
      by (auto simp: row_complete_def build_resolved_route_def)
  qed simp
qed

text \<open>
  C33: Once the call of a resolved route has been marked, as a success or as a failure of any
  kind, every probe its resolution took has been given back.
\<close>

theorem marked_route_returns_probes:
  assumes "resolve_route e i w = (w1, Inr r)" "rd_UpstreamID r \<noteq> 0" "env_hasCache e"
    and "w_cache w2 = w_cache w1" "w3 = mark_route_failure e r cause w2 \<or> w3 = mark_route_success e r w2"
  shows "(\<forall>u. probe (upstreamCB (w_cache w3) u) \<in> {probe (upstreamCB (w_cache w) u), 0}) \<and>
    (\<forall>k. probe (modelCB (w_cache w3) k) \<in> {probe (modelCB (w_cache w) k), 0})"
proof -
  have "kept_except (held_upstream r) (held_model r) (w_cache w) (w_cache w2)"
    using kept_resolve_route [OF assms(1)] assms(4) by (simp add: result_kept_def)
  then have "probes_kept (w_cache w) (w_cache w3)"
    using kept_mark_failure kept_mark_success resolved_route_binding [OF assms(1)] assms(2,3,5) by metis
  then show ?thesis by (simp add: kept_except_def)
qed

section \<open>Open circuits\<close>

text \<open>\<open>not_open t st\<close>: the circuit did not refuse at \<open>t\<close>.\<close>

lemma check_not_refused:
  assumes "check_circuit_state_locked t st = (st', r)" "\<not> refused r" "0 \<le> t"
  shows "\<not> (\<exists>s. st' = Some s \<and> t < openUntil s)"
  using assms
  by (auto simp: check_circuit_state_locked_def refused_def close_circuit_def split: option.splits if_splits)

lemma check_upstream_clock: "check_upstream e u w = (w', Inr st) \<Longrightarrow>
   check_upstream_circuit_state (env_now e (w_clock w)) u (w_cache w) = (w_cache w', st) \<and> w_clock w' = Suc (w_clock w)"
  by (auto simp: check_upstream_def read_clock_def Let_def split: option.splits prod.splits)

lemma check_model_clock: "check_model e u k w = (w', Inr st) \<Longrightarrow>
   check_model_circuit_state (env_now e (w_clock w)) u k (w_cache w) = (w_cache w', st) \<and> w_clock w' = Suc (w_clock w)"
  by (auto simp: check_model_def read_clock_def Let_def split: option.splits prod.splits)

lemma check_upstream_entry:
  "check_upstream_circuit_state t u c = (c', r) \<Longrightarrow>
     check_circuit_state_locked t (upstreamCB c u) = (upstreamCB c' u, r)"
  by (auto simp: check_upstream_circuit_state_def split: prod.splits)

lemma check_model_entry:
  "check_model_circuit_state t u k c = (c', r) \<Longrightarrow>
     check_circuit_state_locked t (modelCB c (model_circuit_key u k)) = (modelCB c' (model_circuit_key u k), r)
     \<and> upstreamCB c' = upstreamCB c"
  by (auto simp: check_model_circuit_state_def Let_def split: prod.splits)

definition not_open_at :: "gtime \<Rightarrow> circuit_state option \<Rightarrow> bool" where
  "not_open_at t st \<longleftrightarrow> fst (query_circuit_status t st) = False"

lemma not_open_at_iff: "not_open_at t st \<longleftrightarrow> \<not> (\<exists>s. st = Some s \<and> t < openUntil s)"
  by (auto simp: not_open_at_def query_circuit_status_def split: option.splits)

lemma try_candidate_not_open:
  assumes "try_candidate e True row w = (w', Done us ms)" "\<forall>n. 0 \<le> env_now e n"
  shows "\<exists>n m. w_clock w \<le> n \<and> n < m \<and> m < w_clock w' \<and>
     not_open_at (env_now e n) (upstreamCB (w_cache w') (rr_UpstreamID row)) \<and>
     not_open_at (env_now e m) (modelCB (w_cache w')
       (model_circuit_key (rr_UpstreamID row) (binding_circuit_key (rr_BindingCode row))))"
proof -
  let ?u = "rr_UpstreamID row" and ?k = "binding_circuit_key (rr_BindingCode row)"
  obtain w1 where c1: "check_upstream e ?u w = (w1, Inr us)" "\<not> refused us"
      and c2: "check_model e ?u ?k w1 = (w', Inr ms)" "\<not> refused ms"
    using assms(1) by (auto simp: try_candidate_def Let_def split: prod.splits sum.splits if_splits)
  from check_upstream_clock [OF c1(1)] have s1: "check_upstream_circuit_state (env_now e (w_clock w)) ?u (w_cache w) = (w_cache w1, us)"
    "w_clock w1 = Suc (w_clock w)" by auto
  from check_model_clock [OF c2(1)] have s2: "check_model_circuit_state (env_now e (w_clock w1)) ?u ?k (w_cache w1) = (w_cache w', ms)"
    "w_clock w' = Suc (w_clock w1)" by auto
  note su = check_upstream_entry [OF s1(1)] and sm = check_model_entry [OF s2(1)]
  show ?thesis
    using check_not_refused [OF su c1(2)] check_not_refused [OF conjunct1 [OF sm] c2(2)] sm s1 s2 assms(2)
    by (intro exI [of _ "w_clock w"] exI [of _ "w_clock w1"]) (simp add: not_open_at_iff)
qed

lemma try_candidates_not_open:
  "try_candidates e True cs w = (w', Some (Inr r)) \<Longrightarrow> \<forall>n. 0 \<le> env_now e n \<Longrightarrow>
     \<exists>n m. n < m \<and> m < w_clock w' \<and>
     not_open_at (env_now e n) (upstreamCB (w_cache w') (rd_UpstreamID r)) \<and>
     not_open_at (env_now e m) (modelCB (w_cache w') (model_circuit_key (rd_UpstreamID r) (route_model_circuit_key r)))"
proof (induction e True cs w arbitrary: w' r rule: try_candidates.induct)
  case (1 e cs w)
  let ?sel = "selected_candidate e w cs"
  from 1(2) have ne: "cs \<noteq> []" by (auto simp: try_candidates.simps [of e True cs w])
  obtain w1 a where t: "try_candidate e True (rc_row ?sel) (drew w) = (w1, a)"
    by (cases "try_candidate e True (rc_row ?sel) (drew w)") auto
  show ?case
  proof (cases a)
    case Skip
    then show ?thesis
      using 1(1) [OF ne refl refl t [symmetric] refl Skip] 1(2,3) ne t
      by (simp add: try_candidates.simps [of e True cs w] Let_def)
  next
    case (Done us ms)
    have r: "r = (build_resolved_route e (rc_row ?sel) (rc_apiKey ?sel))\<lparr>rd_UpstreamProbeGranted := (us = HalfOpenGranted),
         rd_ModelProbeGranted := (ms = HalfOpenGranted)\<rparr>" and w1: "w1 = w'"
      using Done t 1(2) ne by (auto simp: try_candidates.simps [of e True cs w] Let_def)
    show ?thesis
      using try_candidate_not_open [of e "rc_row ?sel" "drew w" w1 us ms] t 1(3) Done unfolding r w1
      by (auto simp: try_candidates.simps [of e True cs w] Let_def build_resolved_route_def
          route_model_circuit_key_def)
  qed (use 1(2) ne t in \<open>simp add: try_candidates.simps [of e True cs w] Let_def\<close>)
qed

lemma resolve_groups_not_open:
  "resolve_groups e True rows w s = (w', Inr r) \<Longrightarrow> \<forall>n. 0 \<le> env_now e n \<Longrightarrow>
     \<exists>n m. n < m \<and> m < w_clock w' \<and>
     not_open_at (env_now e n) (upstreamCB (w_cache w') (rd_UpstreamID r)) \<and>
     not_open_at (env_now e m) (modelCB (w_cache w') (model_circuit_key (rd_UpstreamID r) (route_model_circuit_key r)))"
proof (induction e True rows w s arbitrary: w' rule: resolve_groups.induct)
  case (2 e row rows w s)
  let ?p = "\<lambda>r. rr_RoutePriority r = rr_RoutePriority row"
  obtain w1 s1 g where c: "collect_group e (row # takeWhile ?p rows) w s = (w1, s1, g)"
    by (cases "collect_group e (row # takeWhile ?p rows) w s") auto
  obtain w2 res where t: "try_candidates e True g w1 = (w2, res)"
    by (cases "try_candidates e True g w1") auto
  show ?case
  proof (cases res)
    case None
    from 2(1) [OF refl c [symmetric] refl refl refl t [symmetric] refl None] 2(2,3) c t None show ?thesis
      by (simp add: Let_def)
  next
    case (Some x)
    with 2(2,3) c t try_candidates_not_open [of e g w1 w2 r] show ?thesis by (simp add: Let_def)
  qed
qed simp

text \<open>
  With the breaker enabled, neither the upstream circuit nor the model circuit of a resolved
  route was open when resolution checked it.
\<close>

theorem resolved_route_not_open:
  assumes "resolve_route e i w = (w', Inr r)" "env_hasCache e" "bd_Enabled (snd (load_breaker_defaults e w))"
    and "\<forall>n. 0 \<le> env_now e n"
  shows "\<exists>n m. n < m \<and> m < w_clock w' \<and>
    not_open_at (env_now e n) (upstreamCB (w_cache w') (rd_UpstreamID r)) \<and>
    not_open_at (env_now e m) (modelCB (w_cache w') (model_circuit_key (rd_UpstreamID r) (route_model_circuit_key r)))"
proof -
  have "resolve_with_breaker e i True (fst (load_breaker_defaults e w)) = (w', Inr r)"
    using assms(1-3) by (simp add: resolve_route_def split_beta)
  then show ?thesis
    by (cases rule: resolve_with_breaker_cases) (use assms(4) in \<open>auto intro: resolve_groups_not_open\<close>)
qed

section \<open>Priorities\<close>

definition row_ready :: "route_env \<Rightarrow> route_row \<Rightarrow> bool" where
  "row_ready e row \<longleftrightarrow> row_complete e row \<and>
     (\<exists>cfg. env_parseKeys e (rr_APIKeysEnc row) = Some cfg \<and> active_keys (kc_Keys cfg) \<noteq> [])"

lemma select_key_some: "active_keys (kc_Keys cfg) \<noteq> [] \<longleftrightarrow> snd (select_api_key e u cfg w) \<noteq> None"
  by (auto simp: select_api_key_def pick_active_key_def Let_def active_keys_def split: prod.splits)

lemma incr_rateLimits: "rateLimits c = Map.empty \<Longrightarrow> rateLimits (fst (incr_api_key_counter t u c)) = Map.empty"
  by (rule ext) (simp add: incr_api_key_counter_def Let_def maybe_sweep_fields map_sweep_apply)

lemma select_rateLimits:
  "rateLimits (w_cache w) = Map.empty \<Longrightarrow> rateLimits (w_cache (fst (select_api_key e u cfg w))) = Map.empty"
  using incr_rateLimits [of "w_cache w"]
  by (auto simp: select_api_key_def pick_active_key_def next_api_key_index_def Let_def read_clock_def drew_def
      split: prod.splits) (metis fst_conv)

lemma until_past: "t \<le> now \<Longrightarrow> until now t \<le> 0"
  unfolding until_def by linarith

lemma no_backoff:
  "rateLimits (w_cache w) = Map.empty \<Longrightarrow> \<forall>n. 0 \<le> env_now e n \<Longrightarrow>
     snd (route_rate_limit_backoff e u r w) = 0"
proof -
  assume none: "rateLimits (w_cache w) = Map.empty" and pos: "\<forall>n. 0 \<le> env_now e n"
  have "until (env_now e (w_clock w)) 0 \<le> 0" using pos by (intro until_past) blast
  with none show ?thesis
    by (simp add: route_rate_limit_backoff_def read_clock_def get_rate_limit_backoff_def Let_def)
qed

lemma collect_ready:
  assumes "\<forall>n. 0 \<le> env_now e n"
  shows "rateLimits (w_cache w) = Map.empty \<Longrightarrow> collect_group e rows w s = (w', s', g) \<Longrightarrow>
     map rc_row g = filter (row_ready e) rows \<and> rateLimits (w_cache w') = Map.empty \<and> s' = s"
proof (induction rows arbitrary: w w' s' g)
  case (Cons row rows)
  obtain w0 rem where b: "route_rate_limit_backoff e (rr_UpstreamID row) (rr_RouteID row) w = (w0, rem)"
    by (cases "route_rate_limit_backoff e (rr_UpstreamID row) (rr_RouteID row) w")
  have rem: "rem = 0" and w0: "rateLimits (w_cache w0) = Map.empty"
    using no_backoff [OF Cons.prems(1) assms, of "rr_UpstreamID row" "rr_RouteID row"]
      kept_backoff [of e "rr_UpstreamID row" "rr_RouteID row" w] Cons.prems(1) b by simp_all
  show ?case
  proof (cases "row_complete e row \<and> env_parseKeys e (rr_APIKeysEnc row) \<noteq> None")
    case False
    then have "\<not> row_ready e row" by (auto simp: row_ready_def)
    moreover have c: "collect_group e rows (if row_complete e row then w0 else w) s = (w', s', g)"
      using Cons.prems(2) False b rem by (cases "row_complete e row") simp_all
    moreover have "rateLimits (w_cache (if row_complete e row then w0 else w)) = Map.empty"
      using w0 Cons.prems(1) by simp
    from Cons.IH [OF this c] have "map rc_row g = filter (row_ready e) rows \<and>
        rateLimits (w_cache w') = Map.empty \<and> s' = s" .
    ultimately show ?thesis by simp
  next
    case True
    then obtain cfg where cfg: "env_parseKeys e (rr_APIKeysEnc row) = Some cfg" by auto
    obtain w1 k where k: "select_api_key e (rr_UpstreamID row) cfg w0 = (w1, k)"
      by (cases "select_api_key e (rr_UpstreamID row) cfg w0")
    have w1: "rateLimits (w_cache w1) = Map.empty"
      using select_rateLimits [OF w0, of e "rr_UpstreamID row" cfg] k by simp
    have ready: "row_ready e row \<longleftrightarrow> k \<noteq> None"
      using True cfg select_key_some [of cfg e "rr_UpstreamID row" w0] k by (simp add: row_ready_def)
    obtain w2 s2 g' where rest: "collect_group e rows w1 s = (w2, s2, g')" by (cases "collect_group e rows w1 s")
    show ?thesis
      using Cons.prems(2) True cfg b rem k ready rest Cons.IH [OF w1 rest] by (cases k) auto
  qed
qed simp

lemma try_candidates_disabled:
  "cs \<noteq> [] \<Longrightarrow> \<exists>w' c. c \<in> set cs \<and> try_candidates e False cs w = (w', Some (Inr
     ((build_resolved_route e (rc_row c) (rc_apiKey c))\<lparr>rd_UpstreamProbeGranted := False, rd_ModelProbeGranted := False\<rparr>)))"
  using selected_candidate_mem [of cs e w]
  by (auto simp: try_candidates.simps [of e False cs w] try_candidate_def Let_def)

lemma priority_groups:
  assumes "sorted (map rr_RoutePriority (row # rows))"
  shows "\<forall>x \<in> set (row # takeWhile (\<lambda>r. rr_RoutePriority r = rr_RoutePriority row) rows).
      \<forall>y \<in> set (row # rows). rr_RoutePriority x \<le> rr_RoutePriority y"
  using assms by (auto dest: set_takeWhileD)

lemma resolve_groups_priority:
  "\<forall>n. 0 \<le> env_now e n \<Longrightarrow> rateLimits (w_cache w) = Map.empty \<Longrightarrow> sorted (map rr_RoutePriority rows) \<Longrightarrow>
     resolve_groups e False rows w s = (w', res) \<Longrightarrow>
     (case res of
        Inr r \<Rightarrow> \<exists>row \<in> set rows. row_ready e row \<and> rd_RouteID r = rr_RouteID row \<and>
          (\<forall>row' \<in> set rows. row_ready e row' \<longrightarrow> rr_RoutePriority row \<le> rr_RoutePriority row')
      | Inl err \<Rightarrow> (\<forall>row \<in> set rows. \<not> row_ready e row) \<and>
          err = (if s > 0 then RoutesRateLimited s else AllRoutesUnavailable))"
proof (induction e False rows w s arbitrary: w' res rule: resolve_groups.induct)
  case (2 e row rows w s)
  let ?p = "\<lambda>r. rr_RoutePriority r = rr_RoutePriority row"
  let ?top = "row # takeWhile ?p rows"
  have split: "set (row # rows) = set ?top \<union> set (dropWhile ?p rows)"
    by (metis append_Cons set_append takeWhile_dropWhile_id)
  obtain w1 s1 g where c: "collect_group e ?top w s = (w1, s1, g)"
    by (cases "collect_group e ?top w s") auto
  note cr = collect_ready [OF 2(2,3) c]
  show ?case
  proof (cases "g = []")
    case True
    have t: "try_candidates e False g w1 = (w1, None)" using True by (simp add: try_candidates.simps)
    have none: "\<forall>row \<in> set ?top. \<not> row_ready e row"
      using cr True by (metis filter_empty_conv list.map_disc_iff)
    have rest: "resolve_groups e False (dropWhile ?p rows) w1 s1 = (w', res)"
      using 2(5) c t by (simp add: Let_def)
    have srt: "sorted (map rr_RoutePriority (dropWhile ?p rows))"
      using 2(4) sorted_wrt_drop [of _ "map rr_RoutePriority rows"] by (simp add: dropWhile_eq_drop drop_map)
    have IH: "case res of
        Inr r \<Rightarrow> \<exists>row \<in> set (dropWhile ?p rows). row_ready e row \<and> rd_RouteID r = rr_RouteID row \<and>
          (\<forall>row' \<in> set (dropWhile ?p rows). row_ready e row' \<longrightarrow> rr_RoutePriority row \<le> rr_RoutePriority row')
      | Inl err \<Rightarrow> (\<forall>row \<in> set (dropWhile ?p rows). \<not> row_ready e row) \<and>
          err = (if s > 0 then RoutesRateLimited s else AllRoutesUnavailable)"
      using 2(1) [OF refl c [symmetric] refl refl refl t [symmetric] refl refl 2(2) _ srt rest] cr by blast
    show ?thesis unfolding split using IH none by (cases res) auto
  next
    case False
    obtain w2 cd where cd: "cd \<in> set g" "try_candidates e False g w1 = (w2, Some (Inr
       ((build_resolved_route e (rc_row cd) (rc_apiKey cd))\<lparr>rd_UpstreamProbeGranted := False, rd_ModelProbeGranted := False\<rparr>)))"
      using try_candidates_disabled [OF False] by blast
    have res: "res = Inr ((build_resolved_route e (rc_row cd) (rc_apiKey cd))
        \<lparr>rd_UpstreamProbeGranted := False, rd_ModelProbeGranted := False\<rparr>)"
      using 2(5) c cd(2) by (simp add: Let_def)
    have "rc_row cd \<in> set (filter (row_ready e) ?top)" using cr cd(1) by (metis imageI list.set_map)
    then have top: "rc_row cd \<in> set ?top" "row_ready e (rc_row cd)" unfolding set_filter by blast+
    have "\<forall>y \<in> set (row # rows). rr_RoutePriority (rc_row cd) \<le> rr_RoutePriority y"
      using priority_groups [OF 2(4)] top(1) by blast
    moreover have "rc_row cd \<in> set (row # rows)" unfolding split using top(1) by blast
    ultimately show ?thesis using top(2) by (auto simp: res build_resolved_route_def)
  qed
qed auto

text \<open>
  With no breaker and no backoff in force, resolution finds a route whenever one is ready,
  and takes it from the best priority (the rows come ordered by priority) that has one.
\<close>

theorem best_ready_priority:
  assumes "resolve_route e i w = (w', res)" "\<not> env_hasCache e \<or> \<not> bd_Enabled (snd (load_breaker_defaults e w))"
    and "rateLimits (w_cache w) = Map.empty" "\<forall>n. 0 \<le> env_now e n"
    and "normalize_platform_model_name (ri_PlatformModelName i) = Some name" "env_model e name = Inr model"
    and "route_scope_allows_model_access (ri_Scope i) (pm_AccessScope model)"
    and "is_model_accessible e (pm_ID model) (ri_UserID i) = Inr True"
    and "env_routes e name = Inr rows" "sorted (map rr_RoutePriority rows)" "available_rows e i rows \<noteq> []"
  shows "case res of
      Inr r \<Rightarrow> \<exists>row \<in> set (available_rows e i rows). row_ready e row \<and> rd_RouteID r = rr_RouteID row \<and>
        (\<forall>row' \<in> set (available_rows e i rows). row_ready e row' \<longrightarrow> rr_RoutePriority row \<le> rr_RoutePriority row')
    | Inl err \<Rightarrow> (\<forall>row \<in> set (available_rows e i rows). \<not> row_ready e row) \<and> err = AllRoutesUnavailable"
proof -
  define w0 where "w0 = (if env_hasCache e then fst (load_breaker_defaults e w) else w)"
  have "resolve_with_breaker e i False w0 = (w', res)"
    using assms(1,2) by (auto simp: resolve_route_def w0_def split_beta split: if_splits)
  moreover have "rows \<noteq> []" using assms(11) by (auto simp: available_rows_def)
  ultimately have groups: "resolve_groups e False (available_rows e i rows) w0 0 = (w', res)"
    using assms(5-11) by (simp add: resolve_with_breaker_def Let_def split: if_splits)
  have empty: "rateLimits (w_cache w0) = Map.empty" using assms(3) by (simp add: w0_def)
  have srt: "sorted (map rr_RoutePriority (available_rows e i rows))"
    using assms(10) by (simp add: available_rows_def sorted_filter)
  from resolve_groups_priority [OF assms(4) empty srt groups] show ?thesis by (simp split: sum.splits)
qed

section \<open>Rotation of the keys\<close>

text \<open>
  All the rows of a group belong to one upstream whose keys rotate: the candidates get
  consecutive keys, so one resolution advances the counter by the size of the group.
\<close>

definition counter_of :: "nat \<Rightarrow> cache \<Rightarrow> int" where
  "counter_of u c = (case keyCounters c u of None \<Rightarrow> 0 | Some k \<Rightarrow> next_index k)"

lemma incr_counter:
  "0 \<le> counter_of u c \<Longrightarrow> counter_of u c < int64_max \<Longrightarrow>
     counter_of u (fst (incr_api_key_counter t u c)) = counter_of u c + 1 \<and>
     snd (incr_api_key_counter t u c) = counter_of u c"
  using incr_step [of t u c] by (simp add: counter_of_def incr_value in_int64_def)

definition rotating_row :: "route_env \<Rightarrow> nat \<Rightarrow> api_key list \<Rightarrow> route_row \<Rightarrow> bool" where
  "rotating_row e u keys row \<longleftrightarrow> row_complete e row \<and> rr_UpstreamID row = u \<and>
     (\<exists>cfg. env_parseKeys e (rr_APIKeysEnc row) = Some cfg \<and> trim_space (kc_Strategy cfg) = ''round_robin'' \<and>
        active_keys (kc_Keys cfg) = keys)"

lemma select_rotating:
  assumes "u \<noteq> 0" "env_hasCache e" "keys \<noteq> []" "active_keys (kc_Keys cfg) = keys"
    "trim_space (kc_Strategy cfg) = ''round_robin''"
    "0 \<le> counter_of u (w_cache w)" "counter_of u (w_cache w) < int64_max"
  shows "\<exists>w'. select_api_key e u cfg w =
      (w', Some (ak_Key (keys ! nat (counter_of u (w_cache w) mod int (length keys))))) \<and>
    counter_of u (w_cache w') = counter_of u (w_cache w) + 1 \<and>
    (rateLimits (w_cache w) = Map.empty \<longrightarrow> rateLimits (w_cache w') = Map.empty)"
proof -
  let ?c = "w_cache w" and ?t = "env_now e (w_clock w)"
  have "kc_Keys cfg \<noteq> []" using assms(3,4) by (auto simp: active_keys_def)
  moreover have "counter_of u ?c mod 2 ^ 64 = counter_of u ?c" using assms(6,7) by simp
  ultimately show ?thesis
    using assms incr_counter [OF assms(6,7), of ?t] incr_rateLimits [of ?c ?t u]
    by (auto simp: select_api_key_def pick_active_key_def next_api_key_index_def read_clock_def Let_def
        split: prod.splits)
qed

lemma collect_rotating:
  assumes "\<forall>n. 0 \<le> env_now e n" "u \<noteq> 0" "env_hasCache e" "keys \<noteq> []"
  shows "\<forall>row \<in> set rows. rotating_row e u keys row \<Longrightarrow> rateLimits (w_cache w) = Map.empty \<Longrightarrow>
     0 \<le> counter_of u (w_cache w) \<Longrightarrow> counter_of u (w_cache w) + int (length rows) \<le> int64_max \<Longrightarrow>
     collect_group e rows w s = (w', s', g) \<Longrightarrow>
     map rc_apiKey g = map (\<lambda>j. ak_Key (keys ! nat ((counter_of u (w_cache w) + int j) mod int (length keys))))
       [0..<length rows] \<and>
     counter_of u (w_cache w') = counter_of u (w_cache w) + int (length rows) \<and>
     rateLimits (w_cache w') = Map.empty"
proof (induction rows arbitrary: w w' s' g)
  case (Cons row rows)
  let ?n = "counter_of u (w_cache w)"
  obtain cfg where cfg: "row_complete e row" "rr_UpstreamID row = u" "env_parseKeys e (rr_APIKeysEnc row) = Some cfg"
      "trim_space (kc_Strategy cfg) = ''round_robin''" "active_keys (kc_Keys cfg) = keys"
    using Cons.prems(1) by (auto simp: rotating_row_def)
  obtain w0 rem where b: "route_rate_limit_backoff e u (rr_RouteID row) w = (w0, rem)"
    by (cases "route_rate_limit_backoff e u (rr_RouteID row) w")
  have rem: "rem = 0" and w0: "w_cache w0 = w_cache w"
    using no_backoff [OF Cons.prems(2) assms(1), of u "rr_RouteID row"] kept_backoff [of e u "rr_RouteID row" w] b by simp_all
  obtain w1 where w1: "select_api_key e u cfg w0 = (w1, Some (ak_Key (keys ! nat (?n mod int (length keys)))))"
      "counter_of u (w_cache w1) = ?n + 1" "rateLimits (w_cache w1) = Map.empty"
    using select_rotating [OF assms(2-4) cfg(5,4), of w0] Cons.prems(2-4) w0 by auto
  obtain w2 s2 g' where rest: "collect_group e rows w1 s = (w2, s2, g')" by (cases "collect_group e rows w1 s")
  have g: "g = \<lparr>rc_row = row, rc_apiKey = ak_Key (keys ! nat (?n mod int (length keys)))\<rparr> # g'" "w' = w2"
    using Cons.prems(5) cfg b rem w1(1) rest by auto
  have "[0..<length (row # rows)] = 0 # map Suc [0..<length rows]"
    by (simp add: upt_conv_Cons map_Suc_upt del: upt_Suc)
  then show ?case
    using Cons.IH [OF _ w1(3) _ _ rest] Cons.prems(1,3,4) w1(2) unfolding g
    by (simp add: ac_simps comp_def del: upt_Suc)
qed simp

text \<open>
  The round-robin counter advances for every candidate that is collected, not for the one
  that is used: when the number of routes a priority has on one upstream is a multiple of the
  number of its active keys, every route is given the same key in every resolution.
\<close>

theorem round_robin_does_not_rotate:
  assumes "\<forall>n. 0 \<le> env_now e n" "u \<noteq> 0" "env_hasCache e" "keys \<noteq> []"
    and "\<forall>row \<in> set rows. rotating_row e u keys row" "length keys dvd length rows"
    and "rateLimits (w_cache w) = Map.empty" "0 \<le> counter_of u (w_cache w)"
    and "counter_of u (w_cache w) + 2 * int (length rows) \<le> int64_max"
    and "collect_group e rows w s = (w1, s1, g1)" "collect_group e rows w1 s = (w2, s2, g2)"
  shows "map rc_apiKey g2 = map rc_apiKey g1"
proof -
  let ?n = "counter_of u (w_cache w)" and ?L = "int (length keys)"
  have one: "map rc_apiKey g1 = map (\<lambda>j. ak_Key (keys ! nat ((?n + int j) mod ?L))) [0..<length rows]"
      "counter_of u (w_cache w1) = ?n + int (length rows)" "rateLimits (w_cache w1) = Map.empty"
    using collect_rotating [OF assms(1-5,7,8) _ assms(10)] assms(9) by simp_all
  have two: "map rc_apiKey g2 = map (\<lambda>j. ak_Key (keys ! nat ((?n + int (length rows) + int j) mod ?L))) [0..<length rows]"
    using collect_rotating [OF assms(1-5) one(3) _ _ assms(11)] one(2) assms(8,9) by simp
  obtain q where "length rows = length keys * q" using assms(6) by auto
  then have "(?n + int (length rows) + int j) mod ?L = (?n + int j) mod ?L" for j
    by (simp add: mod_eq_dvd_iff)
  then show ?thesis unfolding one(1) two by simp
qed

section \<open>Witnesses\<close>

definition sample_row :: "nat \<Rightarrow> int \<Rightarrow> route_row" where
  "sample_row i p = \<lparr>rr_RouteID = i, rr_UpstreamModelID = i, rr_UpstreamID = 9, rr_UpstreamName = ''u'',
     rr_PlatformModelID = 1, rr_PlatformModelName = ''m'', rr_ModelVendor = [], rr_ModelIcon = [],
     rr_ModelKindsJSON = [], rr_ModelCapabilitiesJSON = [], rr_ModelSystemPrompt = [],
     rr_Protocol = ''openai_responses'', rr_BaseURL = ''h'', rr_APIKeysEnc = ''failover'', rr_ConnectTimeoutMS = 1,
     rr_ReadTimeoutMS = 1, rr_StreamIdleTimeoutMS = 1, rr_HeadersJSON = [], rr_RouteHeadersJSON = [],
     rr_BindingCode = ''b'', rr_UpstreamModelName = ''x'', rr_Weight = 100, rr_RoutePriority = p,
     rr_UpstreamCbFailureThreshold = 0, rr_UpstreamCbModelThreshold = 0, rr_UpstreamCbThresholdLogic = [],
     rr_UpstreamCbDurationMin = 0, rr_UpstreamCbWindowMin = 0, rr_PlatformModelCbPolicyMode = [],
     rr_PlatformModelCbFailureThreshold = 0, rr_PlatformModelCbDurationMin = 0,
     rr_PlatformModelCbWindowMin = 0, rr_ModelCbFailureThreshold = 0, rr_ModelCbDurationMin = 0,
     rr_ModelCbWindowMin = 0\<rparr>"

definition sample_keys :: "api_key list" where
  "sample_keys = [\<lparr>ak_Key = ''K1'', ak_Status = [], ak_Note = []\<rparr>, \<lparr>ak_Key = ''K2'', ak_Status = ''active'', ak_Note = []\<rparr>]"

definition sample_env :: "route_row list \<Rightarrow> bool \<Rightarrow> route_env" where
  "sample_env rows enabled = \<lparr>env_hasCache = True, env_now = (\<lambda>n. 100 + int n), env_rand = (\<lambda>n. n),
     env_check_error = (\<lambda>n. None), env_model = (\<lambda>n. Inr \<lparr>pm_ID = 1, pm_AccessScope = []\<rparr>),
     env_permGroups = True, env_modelGroups = (\<lambda>m. Inr [5]), env_userGroups = (\<lambda>u. Inr [5, 6]),
     env_defaultGroups = Inr [], env_subscriptionGroup = None, env_routes = (\<lambda>n. Inr rows),
     env_bindingCodes = (\<lambda>u. Some [''b'']),
     env_breakerDefaults = (\<lambda>n. Some (default_breaker_defaults\<lparr>bd_Enabled := enabled\<rparr>)),
     env_rules = \<lparr>er_CircuitErrors = [''5xx''], er_RateLimitErrors = [''429''], er_IgnoreErrors = [''4xx'']\<rparr>,
     env_rateDefaults = (5, 60, 2), env_jsonStrings = (\<lambda>s. None), env_validURL = (\<lambda>u. True),
     env_parseKeys = (\<lambda>k. Some \<lparr>kc_Strategy = k, kc_Keys = sample_keys\<rparr>),
     env_mergeHeaders = (\<lambda>a b. a), env_passback = (\<lambda>r. False), env_passbackOptions = (\<lambda>r. []),
     env_parseTime = (\<lambda>s. None)\<rparr>"

definition sample_input :: resolve_input where
  "sample_input = \<lparr>ri_PlatformModelName = ''m'', ri_TaskType = ''chat'', ri_Scope = ''user'', ri_UserID = 3,
     ri_ExcludedRouteIDs = []\<rparr>"

text \<open>The upstream and the model circuit of the sample are half open.\<close>

definition half_open :: circuit_state where
  "half_open = new_circuit\<lparr>openUntil := 50\<rparr>"

definition sample_world :: world where
  "sample_world = \<lparr>w_cache = new_cache\<lparr>upstreamCB := [9 \<mapsto> half_open],
       modelCB := [model_circuit_key 9 (binding_circuit_key ''b'') \<mapsto> half_open]\<rparr>,
     w_clock = 0, w_rand = 0, w_local = (\<lambda>u. 0), w_breaker = zero_breaker_defaults, w_breakerLoaded = False,
     w_breakerUntil = 0\<rparr>"

lemma sample_name: "normalize_platform_model_name ''m'' = Some ''m''"
  by code_simp

lemma sample_scope: "route_scope_allows_model_access ''user'' []"
  by code_simp

lemma sample_scope2: "normalize_route_scope ''user'' = ScopeUser"
  by code_simp

lemma sample_task: "is_route_allowed_for_task ''chat'' [] ''openai_responses''"
  by code_simp

lemma sample_kinds: "parse_kinds (\<lambda>s. None) [] = []"
  by code_simp

lemma sample_trims: "trim_space ''b'' = ''b''" "trim_space ''x'' = ''x''" "trim_space ''u'' = ''u''" "trim_space ''m'' = ''m''"
    "trim_space ''h'' = ''h''" "trim_space [] = []" "trim_space ''round_robin'' = ''round_robin''"
    "trim_space ''failover'' = ''failover''" "trim_space ''active'' = ''active''"
  by code_simp+

lemma sample_adapter: "is_implemented_adapter ''openai_responses''"
  by code_simp

lemma sample_key: "binding_circuit_key ''b'' = ''upstream-model-b''"
  by code_simp

lemma sample_active: "active_keys sample_keys = sample_keys"
  by code_simp

lemma sample_complete: "row_complete (sample_env rows b) (sample_row i p) \<longleftrightarrow> i \<noteq> 0"
  by (simp add: row_complete_def sample_row_def sample_env_def sample_trims sample_adapter)

lemma sample_available: "available_rows (sample_env rows b) sample_input (map (\<lambda>(i, p). sample_row i p) xs) =
    map (\<lambda>(i, p). sample_row i p) xs"
  by (induction xs) (auto simp: available_rows_def sample_input_def sample_row_def sample_env_def sample_kinds sample_task)

lemma sample_collect:
  assumes "rateLimits (w_cache w) = Map.empty" "i \<noteq> 0"
  shows "collect_group (sample_env rows b) [sample_row i p] w s =
     (w\<lparr>w_clock := w_clock w + 1\<rparr>, s, [\<lparr>rc_row = sample_row i p, rc_apiKey = ''K1''\<rparr>])"
  using assms
  apply (simp add: sample_complete)
  apply (simp add: sample_env_def sample_row_def route_rate_limit_backoff_def read_clock_def get_rate_limit_backoff_def
    select_api_key_def sample_active pick_active_key_def sample_trims until_def)
  apply (simp add: sample_keys_def)
  done

lemma sample_selected: "selected_candidate e w [c] = c"
  using selected_candidate_mem [of "[c]" e w] by simp

lemma half_open_grants:
  assumes "50 \<le> t" "t \<le> 50 + circuit_probe_ttl"
  shows "check_circuit_state_locked t (Some half_open) =
    (Some (half_open\<lparr>probeUntil := t + circuit_probe_ttl\<rparr>), HalfOpenGranted)"
  using assms by (simp add: check_circuit_state_locked_def half_open_def new_circuit_def is_zero_def)

lemma sample_half_open:
  assumes "w_cache w = w_cache sample_world" "w_clock w < 100"
  shows "\<exists>w'. try_candidate (sample_env rows True) True (sample_row i p) w = (w', Done HalfOpenGranted HalfOpenGranted)"
proof -
  let ?e = "sample_env rows True"
  have t: "50 \<le> env_now ?e n" "n \<le> 200 \<Longrightarrow> env_now ?e n \<le> 50 + circuit_probe_ttl" for n
    by (simp_all add: sample_env_def circuit_probe_ttl_def)
  have e: "env_check_error ?e n = None" for n by (simp add: sample_env_def)
  have r: "rr_UpstreamID (sample_row i p) = 9" "rr_BindingCode (sample_row i p) = ''b''"
    by (simp_all add: sample_row_def)
  show ?thesis
    using assms half_open_grants [OF t(1) t(2)]
    by (simp add: try_candidate_def check_upstream_def check_model_def e r read_clock_def refused_def
       check_upstream_circuit_state_def check_model_circuit_state_def sample_world_def split: prod.splits)
qed

abbreviation sample_rows :: "route_row list" where
  "sample_rows \<equiv> [sample_row 7 1, sample_row 8 2]"

lemma sample_breaker:
  "\<exists>w. load_breaker_defaults (sample_env rows b) sample_world = (w, default_breaker_defaults\<lparr>bd_Enabled := b\<rparr>) \<and>
     w_cache w = w_cache sample_world \<and> w_clock w = 2"
  by (simp add: load_breaker_defaults_def read_clock_def sample_env_def sample_world_def)

lemma sample_input_available: "available_rows (sample_env rows b) sample_input sample_rows = sample_rows"
  using sample_available [of rows b "[(7, 1), (8, 2)]"] by simp

lemma sample_reaches:
  "resolve_with_breaker (sample_env sample_rows b) sample_input c w =
     resolve_groups (sample_env sample_rows b) c sample_rows w 0"
proof -
  have "normalize_platform_model_name (ri_PlatformModelName sample_input) = Some ''m''"
      "ri_Scope sample_input = ''user''"
    by (simp_all add: sample_input_def sample_name)
  moreover have "is_model_accessible (sample_env sample_rows b) 1 (ri_UserID sample_input) = Inr True"
    by (simp add: is_model_accessible_def resolve_user_group_ids_def sample_env_def sample_input_def)
  moreover have "env_model (sample_env sample_rows b) ''m'' = Inr \<lparr>pm_ID = 1, pm_AccessScope = []\<rparr>"
      "env_routes (sample_env sample_rows b) ''m'' = Inr sample_rows"
    by (simp_all add: sample_env_def)
  ultimately show ?thesis
    by (simp add: resolve_with_breaker_def sample_scope sample_input_available Let_def del: resolve_groups.simps)
qed

lemma sample_resolves:
  "\<exists>w' r. resolve_route (sample_env sample_rows b) sample_input sample_world = (w', Inr r) \<and>
     rd_RouteID r = 7 \<and> rd_UpstreamID r = 9 \<and> (b \<longrightarrow> rd_UpstreamProbeGranted r \<and> rd_ModelProbeGranted r)"
proof -
  let ?e = "sample_env sample_rows b"
  obtain w where w: "load_breaker_defaults ?e sample_world = (w, default_breaker_defaults\<lparr>bd_Enabled := b\<rparr>)"
      "w_cache w = w_cache sample_world" "w_clock w = 2"
    using sample_breaker by blast
  let ?w = "w\<lparr>w_clock := w_clock w + 1\<rparr>"
  have e: "env_hasCache ?e" by (simp add: sample_env_def)
  have p: "rr_RoutePriority (sample_row 7 1) = 1" "rr_RoutePriority (sample_row 8 2) = 2"
    by (simp_all add: sample_row_def)
  have "rateLimits (w_cache w) = Map.empty" by (simp add: w(2) sample_world_def new_cache_def)
  from sample_collect [OF this, of 7 sample_rows b 1 0]
  have c: "collect_group ?e [sample_row 7 1] w 0 = (?w, 0, [\<lparr>rc_row = sample_row 7 1, rc_apiKey = ''K1''\<rparr>])" by simp
  obtain w' where t: "try_candidate ?e b (sample_row 7 1) (drew ?w) =
      (w', if b then Done HalfOpenGranted HalfOpenGranted else Done Closed Closed)"
    using sample_half_open [of "drew ?w" sample_rows 7 1] w(2,3)
    by (cases b) (auto simp: drew_def try_candidate_def)
  have "rr_RouteID (sample_row 7 1) = 7" "rr_UpstreamID (sample_row 7 1) = 9" by (simp_all add: sample_row_def)
  with t have "\<exists>r. try_candidates ?e b [\<lparr>rc_row = sample_row 7 1, rc_apiKey = ''K1''\<rparr>] ?w = (w', Some (Inr r)) \<and>
     rd_RouteID r = 7 \<and> rd_UpstreamID r = 9 \<and> (b \<longrightarrow> rd_UpstreamProbeGranted r \<and> rd_ModelProbeGranted r)"
    by (subst try_candidates.simps) (auto simp: sample_selected build_resolved_route_def Let_def)
  then have g: "\<exists>r. resolve_groups ?e b sample_rows w 0 = (w', Inr r) \<and>
     rd_RouteID r = 7 \<and> rd_UpstreamID r = 9 \<and> (b \<longrightarrow> rd_UpstreamProbeGranted r \<and> rd_ModelProbeGranted r)"
    by (auto simp: p c Let_def simp del: collect_group.simps)
  have "resolve_route ?e sample_input sample_world = resolve_groups ?e b sample_rows w 0"
    by (simp add: resolve_route_def e w(1) sample_reaches del: resolve_groups.simps)
  with g show ?thesis by auto
qed

lemma weighted_choice_proportional_witness:
  "weighted_random_candidate (\<lambda>_. 250) [\<lparr>rc_row = sample_row 7 1, rc_apiKey = []\<rparr>,
      \<lparr>rc_row = (sample_row 8 1)\<lparr>rr_Weight := 200\<rparr>, rc_apiKey = []\<rparr>] =
    Some \<lparr>rc_row = (sample_row 8 1)\<lparr>rr_Weight := 200\<rparr>, rc_apiKey = []\<rparr>"
  using weighted_choice_proportional [of 1 "[\<lparr>rc_row = sample_row 7 1, rc_apiKey = []\<rparr>,
      \<lparr>rc_row = (sample_row 8 1)\<lparr>rr_Weight := 200\<rparr>, rc_apiKey = []\<rparr>]"]
  by (simp add: route_weight_def sample_row_def int64_max_def)

lemma resolved_route_eligible_witness:
  "\<exists>r. snd (resolve_route (sample_env sample_rows True) sample_input sample_world) = Inr r \<and>
     (\<exists>row \<in> set sample_rows. rd_RouteID r = rr_RouteID row)"
proof -
  let ?e = "sample_env sample_rows True"
  obtain w' r where r: "resolve_route ?e sample_input sample_world = (w', Inr r)"
    using sample_resolves by blast
  have "env_routes ?e name = Inr rows \<Longrightarrow> rows = sample_rows" for name rows by (simp add: sample_env_def)
  with resolved_route_eligible [OF r] r show ?thesis by fastforce
qed

lemma resolution_leaks_no_probe_witness:
  "probe (upstreamCB (w_cache (fst (resolve_route (sample_env sample_rows True) sample_input sample_world))) 8) = 0"
proof -
  let ?e = "sample_env sample_rows True"
  obtain w' r where r: "resolve_route ?e sample_input sample_world = (w', Inr r)" "rd_UpstreamID r = 9"
    using sample_resolves by blast
  have "probe (upstreamCB (w_cache sample_world) 8) = 0"
    by (simp add: probe_def sample_world_def new_cache_def)
  then show ?thesis using resolution_leaks_no_probe [OF r(1), THEN conjunct1, THEN spec, of 8] r by auto
qed

lemma marked_route_returns_probes_witness:
  "\<exists>w' r. resolve_route (sample_env sample_rows True) sample_input sample_world = (w', Inr r) \<and>
     rd_UpstreamProbeGranted r \<and>
     probe (upstreamCB (w_cache (mark_route_success (sample_env sample_rows True) r w')) 9) = 0"
proof -
  let ?e = "sample_env sample_rows True"
  obtain w' r where r: "resolve_route ?e sample_input sample_world = (w', Inr r)" "rd_UpstreamID r = 9"
      "rd_UpstreamProbeGranted r"
    using sample_resolves [of True] by blast
  have "probe (upstreamCB (w_cache sample_world) 9) = 0"
    by (simp add: probe_def sample_world_def new_cache_def half_open_def new_circuit_def)
  moreover have "env_hasCache ?e" by (simp add: sample_env_def)
  ultimately have "probe (upstreamCB (w_cache (mark_route_success ?e r w')) 9) = 0"
    using marked_route_returns_probes [OF r(1) _ _ _ disjI2, THEN conjunct1, THEN spec, of w' "mark_route_success ?e r w'" 9] r
    by simp
  with r show ?thesis by blast
qed

lemma resolved_route_not_open_witness:
  "\<exists>w' r n. resolve_route (sample_env sample_rows True) sample_input sample_world = (w', Inr r) \<and>
     not_open_at (100 + int n) (upstreamCB (w_cache w') 9)"
proof -
  let ?e = "sample_env sample_rows True"
  obtain w' r where r: "resolve_route ?e sample_input sample_world = (w', Inr r)" "rd_UpstreamID r = 9"
    using sample_resolves by blast
  have "bd_Enabled (snd (load_breaker_defaults ?e sample_world))" using sample_breaker [of sample_rows True] by auto
  then show ?thesis using resolved_route_not_open [OF r(1)] r by (auto simp: sample_env_def)
qed

lemma best_ready_priority_witness:
  "\<exists>r. snd (resolve_route (sample_env sample_rows False) sample_input sample_world) = Inr r \<and>
     rd_RouteID r = 7"
proof -
  let ?e = "sample_env sample_rows False"
  obtain w' r where r: "resolve_route ?e sample_input sample_world = (w', Inr r)"
    using sample_resolves by blast
  have "\<not> bd_Enabled (snd (load_breaker_defaults ?e sample_world))" using sample_breaker [of sample_rows False] by auto
  moreover have "rateLimits (w_cache sample_world) = Map.empty" by (simp add: sample_world_def new_cache_def)
  moreover have "is_model_accessible ?e 1 3 = Inr True"
    by (simp add: is_model_accessible_def resolve_user_group_ids_def sample_env_def)
  moreover have "row_ready ?e (sample_row i p) \<longleftrightarrow> i \<noteq> 0" for i p
    using sample_active by (simp add: row_ready_def sample_complete) (simp add: sample_env_def sample_keys_def)
  ultimately show ?thesis
    using best_ready_priority [OF r, of "''m''" "\<lparr>pm_ID = 1, pm_AccessScope = []\<rparr>" sample_rows] r
      sample_name sample_scope sample_input_available [of sample_rows False]
    by (auto simp: sample_env_def sample_input_def) (auto simp: sample_row_def)
qed

lemma round_robin_does_not_rotate_witness:
  "let rows = map (rr_APIKeysEnc_update (\<lambda>_. ''round_robin'')) [sample_row 7 1, sample_row 8 1];
       e = sample_env rows True; (w1, s1, g1) = collect_group e rows sample_world 0;
       (w2, s2, g2) = collect_group e rows w1 0
   in map rc_apiKey g2 = map rc_apiKey g1"
proof -
  let ?rows = "map (rr_APIKeysEnc_update (\<lambda>_. ''round_robin'')) [sample_row 7 1, sample_row 8 1]"
  let ?e = "sample_env ?rows True"
  have "row_complete ?e (rr_APIKeysEnc_update (\<lambda>_. ''round_robin'') (sample_row i p)) = row_complete ?e (sample_row i p)" for i p
    by (simp add: row_complete_def)
  then have rows: "\<forall>row \<in> set ?rows. rotating_row ?e 9 sample_keys row"
    using sample_active sample_trims
    by (auto simp: rotating_row_def sample_complete) (auto simp: sample_env_def sample_row_def)
  have cache: "rateLimits (w_cache sample_world) = Map.empty" "counter_of 9 (w_cache sample_world) = 0"
    by (simp_all add: sample_world_def new_cache_def counter_of_def)
  show ?thesis
    using round_robin_does_not_rotate [OF _ _ _ _ rows] cache
    by (auto simp: sample_env_def sample_keys_def int64_max_def Let_def simp del: collect_group.simps split: prod.splits)
qed

text \<open>
  The configured list of circuit errors has no effect: every failure that is neither
  cancelled, nor a rate limit, nor an ignored client error counts against the circuit.
\<close>

theorem circuit_rules_have_no_effect:
  "classify_route_failure (rules\<lparr>er_CircuitErrors := xs\<rparr>) cause = classify_route_failure rules cause"
  by (simp add: classify_route_failure_def split: option.split)

end
