(* ===== verification/Pricing.thy ===== *)
theory Pricing
  imports Go_Prelude
begin

text \<open>
  The price of a model call (\<^verbatim>\<open>application/billing/service.go\<close>): rate multipliers, tiers, the
  split of cache writes, the charge of a call and of its service items, and the ledger entry
  they give. Amounts are \<^verbatim>\<open>int64\<close> nano-dollars: every product and sum wraps, written out.

  The environment \<open>pricing_env\<close> holds what the service reads: the repository, the group rates,
  the catalogue of native tools, JSON decoding, and the operations of \<^verbatim>\<open>float64\<close>. The pricing
  snapshot of a ledger entry is a display copy of these values and is left out.
\<close>

section \<open>Arithmetic\<close>

definition add64 :: "int \<Rightarrow> int \<Rightarrow> int" where "add64 a b = wrap64 (a + b)"
definition mul64 :: "int \<Rightarrow> int \<Rightarrow> int" where "mul64 a b = wrap64 (a * b)"
definition div64 :: "int \<Rightarrow> int \<Rightarrow> int" where "div64 a b = wrap64 (go_div a b)"

definition clamp_non_negative :: "int \<Rightarrow> int" where
  "clamp_non_negative v = (if v < 0 then 0 else v)"

definition calc_nanousd_by_token :: "int \<Rightarrow> int \<Rightarrow> int" where
  "calc_nanousd_by_token tokens rate =
     (if tokens \<le> 0 \<or> rate \<le> 0 then 0
      else div64 (add64 (mul64 tokens rate) 500000) 1000000)"

definition calc_cache_write_billed_nanousd :: "int \<Rightarrow> int \<Rightarrow> int \<Rightarrow> int \<Rightarrow> int \<Rightarrow> int \<Rightarrow> int" where
  "calc_cache_write_billed_nanousd totalTokens fiveMinuteTokens oneHourTokens aggregateRate fiveMinuteRate oneHourRate =
     (if totalTokens \<le> 0 then 0
      else if fiveMinuteTokens \<le> 0 \<and> oneHourTokens \<le> 0 then calc_nanousd_by_token totalTokens aggregateRate
      else add64 (calc_nanousd_by_token fiveMinuteTokens fiveMinuteRate)
                 (calc_nanousd_by_token oneHourTokens oneHourRate))"

definition resolve_snapshot_rate_from_billed :: "int \<Rightarrow> int \<Rightarrow> int \<Rightarrow> int" where
  "resolve_snapshot_rate_from_billed tokens billed fallbackRate =
     (if tokens \<le> 0 \<or> billed \<le> 0 then fallbackRate
      else div64 (add64 (mul64 billed 1000000) (div64 tokens 2)) tokens)"

section \<open>Protocols, speeds and service tiers\<close>

abbreviation anthropic :: string where "anthropic \<equiv> ''anthropic_messages''"

definition normalize_anthropic_cache_timeout :: "string \<Rightarrow> string" where
  "normalize_anthropic_cache_timeout v = (if trim_space (to_lower v) = ''1h'' then ''1h'' else ''5m'')"

definition billing_cache_timeout_snapshot :: "string \<Rightarrow> string \<Rightarrow> string" where
  "billing_cache_timeout_snapshot protocol timeout =
     (if trim_space protocol \<noteq> anthropic then [] else normalize_anthropic_cache_timeout timeout)"

definition resolve_cache_write_rate :: "int \<Rightarrow> string \<Rightarrow> string \<Rightarrow> int" where
  "resolve_cache_write_rate configured protocol timeout =
     (if trim_space protocol \<noteq> anthropic then configured
      else if configured \<le> 0 then 0
      else if normalize_anthropic_cache_timeout timeout = ''1h'' then mul64 configured 2
      else div64 (mul64 configured 5) 4)"

definition normalize_cache_write_token_breakdown ::
    "int \<Rightarrow> int \<Rightarrow> int \<Rightarrow> string \<Rightarrow> string \<Rightarrow> int \<times> int \<times> int" where
  "normalize_cache_write_token_breakdown total0 five0 hour0 protocol timeout =
     (let total = clamp_non_negative total0; five = clamp_non_negative five0; hour = clamp_non_negative hour0 in
      if trim_space protocol \<noteq> anthropic then (total, 0, 0)
      else
        let split = add64 five hour;
            total = (if split > total then split else total);
            remainder = wrap64 (total - split)
        in if remainder \<le> 0 then (total, five, hour)
           else if normalize_anthropic_cache_timeout timeout = ''1h'' then (total, five, add64 hour remainder)
           else (total, add64 five remainder, hour))"

definition is_openai_provider_protocol :: "string \<Rightarrow> bool" where
  "is_openai_provider_protocol protocol \<longleftrightarrow>
     trim_space protocol \<in> {''openai_chat_completions'', ''openai_responses''}"

definition is_gpt55_series :: "string \<Rightarrow> bool" where
  "is_gpt55_series modelName \<longleftrightarrow> has_prefix (to_lower (trim_space modelName)) ''gpt-5.5''"

definition normalize_usage_speed :: "string \<Rightarrow> string" where
  "normalize_usage_speed v = trim_space (to_lower v)"

definition resolve_billing_speed :: "string \<Rightarrow> string \<Rightarrow> string \<Rightarrow> string" where
  "resolve_billing_speed protocol usageSpeed requestSpeed =
     (if trim_space protocol \<noteq> anthropic then []
      else if usageSpeed \<noteq> [] then normalize_usage_speed usageSpeed
      else normalize_usage_speed requestSpeed)"

definition normalize_openai_service_tier :: "string \<Rightarrow> string" where
  "normalize_openai_service_tier v =
     (let s = trim_space (to_lower v) in if s \<in> {''default'', ''flex'', ''priority''} then s else [])"

definition resolve_billing_service_tier :: "string \<Rightarrow> string \<Rightarrow> string" where
  "resolve_billing_service_tier protocol usageTier =
     (if \<not> is_openai_provider_protocol protocol then []
      else if usageTier \<noteq> [] then normalize_openai_service_tier usageTier
      else ''default'')"

definition is_anthropic_fast_mode :: "string \<Rightarrow> string \<Rightarrow> string \<Rightarrow> bool" where
  "is_anthropic_fast_mode protocol usageSpeed requestSpeed \<longleftrightarrow>
     trim_space protocol = anthropic \<and>
     (if normalize_usage_speed usageSpeed \<noteq> [] then normalize_usage_speed usageSpeed = ''fast''
      else normalize_usage_speed requestSpeed = ''fast'')"

section \<open>Rate multipliers\<close>

record rate_multiplier =
  Numerator :: int
  Denominator :: int

definition normalize_billing_rate_multiplier :: "rate_multiplier \<Rightarrow> rate_multiplier" where
  "normalize_billing_rate_multiplier m =
     (if Numerator m \<le> 0 \<or> Denominator m \<le> 0 then \<lparr>Numerator = 1, Denominator = 1\<rparr> else m)"

definition apply_rate_multiplier :: "int \<Rightarrow> rate_multiplier \<Rightarrow> int" where
  "apply_rate_multiplier rate m0 =
     (if rate \<le> 0 then 0
      else let m = normalize_billing_rate_multiplier m0 in
        if Numerator m = Denominator m then rate
        else div64 (add64 (mul64 rate (Numerator m)) (div64 (Denominator m) 2)) (Denominator m))"

definition resolve_usage_rate_multiplier :: "string \<Rightarrow> string \<Rightarrow> string \<Rightarrow> bool \<Rightarrow> string \<Rightarrow> rate_multiplier" where
  "resolve_usage_rate_multiplier protocol platformModel upstreamModel fastMode serviceTier =
     (if fastMode then \<lparr>Numerator = 6, Denominator = 1\<rparr>
      else if \<not> is_openai_provider_protocol protocol then \<lparr>Numerator = 1, Denominator = 1\<rparr>
      else
        let tier = normalize_openai_service_tier serviceTier in
        if tier = ''flex'' then \<lparr>Numerator = 1, Denominator = 2\<rparr>
        else if tier = ''priority'' then
          (if is_gpt55_series platformModel \<or> is_gpt55_series upstreamModel
           then \<lparr>Numerator = 5, Denominator = 2\<rparr> else \<lparr>Numerator = 2, Denominator = 1\<rparr>)
        else \<lparr>Numerator = 1, Denominator = 1\<rparr>)"

definition compose_group_rate_percent :: "rate_multiplier \<Rightarrow> int \<Rightarrow> rate_multiplier" where
  "compose_group_rate_percent base percent =
     (if percent \<le> 0 \<or> percent = 100 then base
      else let b = normalize_billing_rate_multiplier base in
        \<lparr>Numerator = mul64 (Numerator b) percent, Denominator = mul64 (Denominator b) 100\<rparr>)"

section \<open>Environment\<close>

datatype billing_error =
    BillNotFound | BillModelNotFound | BillInvalidInput | BillPricingRequired | BillOther string

datatype pricing_mode = PriceToken | PriceCall | PriceDuration | PriceTiered

definition normalize_pricing_mode :: "string \<Rightarrow> pricing_mode" where
  "normalize_pricing_mode raw =
     (let v = trim_space raw in
      if v = ''call'' then PriceCall else if v = ''duration'' then PriceDuration
      else if v = ''tiered'' then PriceTiered else PriceToken)"

record model_pricing =
  mp_PlatformModelName :: string
  mp_Currency :: string
  mp_IsFree :: bool
  mp_PricingMode :: string
  mp_Input :: int
  mp_CacheRead :: int
  mp_CacheWrite :: int
  mp_Output :: int
  mp_Call :: int
  mp_Duration :: int
  mp_TieredPricingJSON :: string

text \<open>The tiers as decoded: the bound and the four prices in dollars.\<close>

record json_tier =
  jt_UpTo :: int
  jt_Input :: real
  jt_CacheRead :: real
  jt_CacheWrite :: real
  jt_Output :: real

record pricing_tier =
  pt_UpTo :: int
  pt_Input :: int
  pt_CacheRead :: int
  pt_CacheWrite :: int
  pt_Output :: int

record model_identity =
  mi_ID :: nat
  mi_Name :: string

record usage_price =
  up_Provider :: string
  up_ServiceName :: string
  up_NanousdPerCall :: int

record pricing_env =
  pe_identity :: "(string \<Rightarrow> billing_error + model_identity) option"
  pe_billingMode :: "billing_error + string"
  pe_subscriptionGroup :: "nat \<Rightarrow> billing_error + nat option"
  pe_groupRate :: "(nat \<Rightarrow> nat \<Rightarrow> nat list \<Rightarrow> billing_error + int) option"
  pe_pricing :: "string \<Rightarrow> billing_error + model_pricing"
  pe_jsonTiers :: "string \<Rightarrow> billing_error + json_tier list"
  pe_nativeCatalog :: "billing_error + bool"
  pe_nativePrice :: "string \<Rightarrow> string \<Rightarrow> usage_price option"
  pe_fmul :: "real \<Rightarrow> real \<Rightarrow> real"
  pe_fdiv :: "int \<Rightarrow> int \<Rightarrow> real"
  pe_toInt64 :: "real \<Rightarrow> int"
  pe_dayStart :: "gtime \<Rightarrow> gtime"
  pe_now :: gtime

text \<open>
  \<open>pe_fmul\<close> and \<open>pe_fdiv\<close> are the product and the quotient of \<^verbatim>\<open>float64\<close>, \<open>pe_toInt64\<close> its
  conversion to \<^verbatim>\<open>int64\<close> (the language leaves it open out of range). \<open>pe_nativeCatalog\<close> is the
  reading of the native tool settings: an error, or whether native tools are billed;
  \<open>pe_nativePrice\<close> is the price of a native tool under the loaded catalogue and overrides.
  \<open>pe_dayStart\<close> is midnight of the day in the location of its argument.
\<close>

definition billing_rate_multiplier_value :: "pricing_env \<Rightarrow> rate_multiplier \<Rightarrow> real" where
  "billing_rate_multiplier_value e m =
     (let m = normalize_billing_rate_multiplier m in pe_fdiv e (Numerator m) (Denominator m))"

text \<open>\<^verbatim>\<open>math.Round\<close>: halves away from zero.\<close>

definition go_round :: "real \<Rightarrow> int" where
  "go_round x = (if x < 0 then - \<lfloor>- x + 1 / 2\<rfloor> else \<lfloor>x + 1 / 2\<rfloor>)"

definition usd_to_nanousd :: "pricing_env \<Rightarrow> real \<Rightarrow> int" where
  "usd_to_nanousd e v =
     (if v \<le> 0 then 0 else pe_toInt64 e (of_int (go_round (pe_fmul e v 1000000000))))"

definition resolve_platform_model_identity :: "pricing_env \<Rightarrow> string \<Rightarrow> billing_error + model_identity" where
  "resolve_platform_model_identity e platformModelName =
     (let name = trim_space platformModelName in
      if name = [] then Inl BillNotFound
      else case pe_identity e of
        None \<Rightarrow> Inr \<lparr>mi_ID = 0, mi_Name = name\<rparr>
      | Some resolve \<Rightarrow> (case resolve name of
          Inl BillModelNotFound \<Rightarrow> Inl BillNotFound
        | Inl err \<Rightarrow> Inl err
        | Inr i \<Rightarrow> Inr (i\<lparr>mi_Name := (let n = trim_space (mi_Name i) in if n = [] then name else n)\<rparr>)))"

definition resolve_group_rate_percent :: "pricing_env \<Rightarrow> nat \<Rightarrow> nat \<Rightarrow> nat option \<Rightarrow> billing_error + int" where
  "resolve_group_rate_percent e userID modelID subGroup =
     (case pe_groupRate e of
        None \<Rightarrow> Inr 100
      | Some rate \<Rightarrow> if userID = 0 then Inr 100
          else rate userID modelID (case subGroup of None \<Rightarrow> [] | Some g \<Rightarrow> [g]))"

text \<open>A result that treats \<^verbatim>\<open>repository.ErrNotFound\<close> as no result.\<close>

definition found :: "billing_error + 'a \<Rightarrow> billing_error + 'a option" where
  "found r = (case r of Inr x \<Rightarrow> Inr (Some x) | Inl BillNotFound \<Rightarrow> Inr None | Inl err \<Rightarrow> Inl err)"

section \<open>Tiers\<close>

fun check_tiers :: "pricing_env \<Rightarrow> json_tier list \<Rightarrow> int \<Rightarrow> pricing_tier list option" where
  "check_tiers e [] previous = Some []"
| "check_tiers e (t # ts) previous =
     (if jt_UpTo t > 0 \<and> jt_UpTo t \<le> previous then None
      else map_option ((#) \<lparr>pt_UpTo = jt_UpTo t, pt_Input = usd_to_nanousd e (jt_Input t),
          pt_CacheRead = usd_to_nanousd e (jt_CacheRead t), pt_CacheWrite = usd_to_nanousd e (jt_CacheWrite t),
          pt_Output = usd_to_nanousd e (jt_Output t)\<rparr>)
        (check_tiers e ts (if jt_UpTo t > 0 then jt_UpTo t else previous)))"

definition parse_tiered_pricing_tiers :: "pricing_env \<Rightarrow> string \<Rightarrow> billing_error + pricing_tier list" where
  "parse_tiered_pricing_tiers e raw0 =
     (let raw = trim_space raw0; raw = (if raw = [] then ''{}'' else raw) in
      case pe_jsonTiers e raw of Inl err \<Rightarrow> Inl err
      | Inr ts \<Rightarrow>
          if ts = [] \<or> length ts > 100 then Inl BillInvalidInput
          else case check_tiers e ts 0 of None \<Rightarrow> Inl BillInvalidInput | Some tiers \<Rightarrow> Inr tiers)"

record resolved_tier =
  rt_tier :: pricing_tier
  rt_from :: int
  rt_upTo :: "int option"

definition zero_tier :: pricing_tier where
  "zero_tier = \<lparr>pt_UpTo = 0, pt_Input = 0, pt_CacheRead = 0, pt_CacheWrite = 0, pt_Output = 0\<rparr>"

definition tier_upper_limit :: "int \<Rightarrow> int option" where
  "tier_upper_limit limit = (if limit \<le> 0 then None else Some limit)"

text \<open>The loop over the tiers; \<open>lastFrom\<close> and \<open>previous\<close> are its two variables.\<close>

fun find_tier :: "int \<Rightarrow> pricing_tier list \<Rightarrow> int \<Rightarrow> int \<Rightarrow> resolved_tier option \<times> int" where
  "find_tier inputTokens [] previous lastFrom = (None, lastFrom)"
| "find_tier inputTokens (t # ts) previous lastFrom =
     (if pt_UpTo t \<le> 0 \<or> inputTokens \<le> pt_UpTo t
      then (Some \<lparr>rt_tier = t, rt_from = previous, rt_upTo = tier_upper_limit (pt_UpTo t)\<rparr>, lastFrom)
      else find_tier inputTokens ts (pt_UpTo t) previous)"

definition resolve_tiered_pricing_tier :: "int \<Rightarrow> pricing_tier list \<Rightarrow> resolved_tier" where
  "resolve_tiered_pricing_tier inputTokens tiers =
     (if tiers = [] then \<lparr>rt_tier = zero_tier, rt_from = 0, rt_upTo = None\<rparr>
      else case find_tier inputTokens tiers 0 0 of
        (Some r, _) \<Rightarrow> r
      | (None, lastFrom) \<Rightarrow> \<lparr>rt_tier = last tiers, rt_from = lastFrom, rt_upTo = None\<rparr>)"

definition tiered_pricing_input_tokens :: "int \<Rightarrow> int \<Rightarrow> int \<Rightarrow> int" where
  "tiered_pricing_input_tokens inputTokens cacheRead cacheWrite =
     add64 (add64 (clamp_non_negative inputTokens) (clamp_non_negative cacheRead)) (clamp_non_negative cacheWrite)"

section \<open>Rates and charges of the tokens\<close>

record token_rates =
  tr_Input :: int
  tr_CacheRead :: int
  tr_CacheWrite :: int
  tr_CacheWrite5m :: int
  tr_CacheWrite1h :: int
  tr_Output :: int

definition no_rates :: token_rates where
  "no_rates = \<lparr>tr_Input = 0, tr_CacheRead = 0, tr_CacheWrite = 0, tr_CacheWrite5m = 0, tr_CacheWrite1h = 0, tr_Output = 0\<rparr>"

text \<open>The configured prices of a model or of a tier, with the cache write prices of the protocol.\<close>

definition base_token_rates :: "string \<Rightarrow> string \<Rightarrow> int \<Rightarrow> int \<Rightarrow> int \<Rightarrow> int \<Rightarrow> token_rates" where
  "base_token_rates protocol timeout inputRate cacheRead cacheWrite outputRate =
     \<lparr>tr_Input = inputRate, tr_CacheRead = cacheRead,
      tr_CacheWrite = resolve_cache_write_rate cacheWrite protocol timeout,
      tr_CacheWrite5m = resolve_cache_write_rate cacheWrite protocol ''5m'',
      tr_CacheWrite1h = resolve_cache_write_rate cacheWrite protocol ''1h'', tr_Output = outputRate\<rparr>"

definition multiplied_rates :: "rate_multiplier \<Rightarrow> token_rates \<Rightarrow> token_rates" where
  "multiplied_rates m r =
     \<lparr>tr_Input = apply_rate_multiplier (tr_Input r) m, tr_CacheRead = apply_rate_multiplier (tr_CacheRead r) m,
      tr_CacheWrite = apply_rate_multiplier (tr_CacheWrite r) m,
      tr_CacheWrite5m = apply_rate_multiplier (tr_CacheWrite5m r) m,
      tr_CacheWrite1h = apply_rate_multiplier (tr_CacheWrite1h r) m,
      tr_Output = apply_rate_multiplier (tr_Output r) m\<rparr>"

definition pricing_token_rates :: "string \<Rightarrow> string \<Rightarrow> model_pricing \<Rightarrow> token_rates" where
  "pricing_token_rates protocol timeout p =
     base_token_rates protocol timeout (mp_Input p) (mp_CacheRead p) (mp_CacheWrite p) (mp_Output p)"

definition tier_token_rates :: "string \<Rightarrow> string \<Rightarrow> pricing_tier \<Rightarrow> token_rates" where
  "tier_token_rates protocol timeout t =
     base_token_rates protocol timeout (pt_Input t) (pt_CacheRead t) (pt_CacheWrite t) (pt_Output t)"

record token_counts =
  tc_Input :: int
  tc_CacheRead :: int
  tc_CacheWrite :: int
  tc_CacheWrite5m :: int
  tc_CacheWrite1h :: int
  tc_Output :: int
  tc_Reasoning :: int

record bill =
  b_Input :: int
  b_CacheRead :: int
  b_CacheWrite :: int
  b_Output :: int
  b_Call :: int
  b_Duration :: int

definition no_bill :: bill where
  "no_bill = \<lparr>b_Input = 0, b_CacheRead = 0, b_CacheWrite = 0, b_Output = 0, b_Call = 0, b_Duration = 0\<rparr>"

definition token_bill :: "token_counts \<Rightarrow> token_rates \<Rightarrow> bill" where
  "token_bill t r = no_bill\<lparr>
     b_Input := calc_nanousd_by_token (tc_Input t) (tr_Input r),
     b_CacheRead := calc_nanousd_by_token (tc_CacheRead t) (tr_CacheRead r),
     b_CacheWrite := calc_cache_write_billed_nanousd (tc_CacheWrite t) (tc_CacheWrite5m t) (tc_CacheWrite1h t)
       (tr_CacheWrite r) (tr_CacheWrite5m r) (tr_CacheWrite1h r),
     b_Output := calc_nanousd_by_token (add64 (tc_Output t) (tc_Reasoning t)) (tr_Output r)\<rparr>"

definition bill_total :: "bill \<Rightarrow> int" where
  "bill_total b = add64 (add64 (add64 (add64 (add64 (b_Input b) (b_CacheRead b)) (b_CacheWrite b)) (b_Output b))
     (b_Call b)) (b_Duration b)"

section \<open>Service items\<close>

record service_usage_input =
  su_ServiceCode :: string
  su_ServiceName :: string
  su_PlatformModelName :: string
  su_UpstreamModelName :: string
  su_ProviderProtocol :: string
  su_CacheTimeout :: string
  su_RequestSpeed :: string
  su_UsageSpeed :: string
  su_RequestServiceTier :: string
  su_UsageServiceTier :: string
  su_Input :: int
  su_CacheRead :: int
  su_CacheWrite :: int
  su_CacheWrite5m :: int
  su_CacheWrite1h :: int
  su_Output :: int
  su_Reasoning :: int
  su_CallCount :: int

record usage_service_item =
  si_ServiceCode :: string
  si_ServiceName :: string
  si_PlatformModelName :: string
  si_ProviderProtocol :: string
  si_CacheTimeout :: string
  si_RequestSpeed :: string
  si_UsageSpeed :: string
  si_BillingSpeed :: string
  si_RequestServiceTier :: string
  si_UsageServiceTier :: string
  si_BillingServiceTier :: string
  si_FastMode :: bool
  si_RateMultiplier :: real
  si_PricingMode :: pricing_mode
  si_tokens :: token_counts
  si_CallCount :: int
  si_DurationSeconds :: int
  si_rates :: token_rates
  si_CallRate :: int
  si_DurationRate :: int
  si_bill :: bill
  si_CacheWrite5mBilled :: int
  si_CacheWrite1hBilled :: int
  si_BilledNanousd :: int
  si_TieredFrom :: int
  si_TieredUpTo :: "int option"

text \<open>The part the tiered and the token price share: rates, then charges, then the displayed rate.\<close>

definition price_item_tokens :: "rate_multiplier \<Rightarrow> token_rates \<Rightarrow> usage_service_item \<Rightarrow> usage_service_item" where
  "price_item_tokens m base item =
     (let r = multiplied_rates m base; t = si_tokens item; b = token_bill t r in
      item\<lparr>si_rates := r\<lparr>tr_CacheWrite :=
             resolve_snapshot_rate_from_billed (tc_CacheWrite t) (b_CacheWrite b) (tr_CacheWrite r)\<rparr>,
           si_bill := b,
           si_CacheWrite5mBilled := calc_nanousd_by_token (tc_CacheWrite5m t) (tr_CacheWrite5m r),
           si_CacheWrite1hBilled := calc_nanousd_by_token (tc_CacheWrite1h t) (tr_CacheWrite1h r)\<rparr>)"

definition price_service_item ::
    "pricing_env \<Rightarrow> service_usage_input \<Rightarrow> model_pricing \<Rightarrow> rate_multiplier \<Rightarrow> usage_service_item \<Rightarrow>
       billing_error + usage_service_item" where
  "price_service_item e i p m item0 =
     (let item = item0\<lparr>si_PricingMode := normalize_pricing_mode (mp_PricingMode p)\<rparr>;
          total = (\<lambda>it. it\<lparr>si_BilledNanousd := bill_total (si_bill it)\<rparr>) in
      case si_PricingMode item of
        PriceCall \<Rightarrow>
          (let rate = apply_rate_multiplier (mp_Call p) m in
           Inr (total (item\<lparr>si_CallRate := rate, si_bill := no_bill\<lparr>b_Call := mul64 (si_CallCount item) rate\<rparr>\<rparr>)))
      | PriceDuration \<Rightarrow>
          (let rate = apply_rate_multiplier (mp_Duration p) m in
           Inr (total (item\<lparr>si_DurationRate := rate,
             si_bill := no_bill\<lparr>b_Duration := mul64 (si_DurationSeconds item) rate\<rparr>\<rparr>)))
      | PriceTiered \<Rightarrow> (case parse_tiered_pricing_tiers e (mp_TieredPricingJSON p) of Inl err \<Rightarrow> Inl err
          | Inr tiers \<Rightarrow>
              let t = si_tokens item;
                  r = resolve_tiered_pricing_tier
                    (tiered_pricing_input_tokens (tc_Input t) (tc_CacheRead t) (tc_CacheWrite t)) tiers
              in Inr (total (price_item_tokens m
                   (tier_token_rates (su_ProviderProtocol i) (su_CacheTimeout i) (rt_tier r))
                   (item\<lparr>si_TieredFrom := rt_from r, si_TieredUpTo := rt_upTo r\<rparr>))))
      | PriceToken \<Rightarrow>
          Inr (total (price_item_tokens m (pricing_token_rates (su_ProviderProtocol i) (su_CacheTimeout i) p) item)))"

text \<open>The item before it is priced. The input has no duration, so \<open>si_DurationSeconds\<close> is zero.\<close>

definition unpriced_service_item :: "pricing_env \<Rightarrow> service_usage_input \<Rightarrow> rate_multiplier \<Rightarrow> usage_service_item" where
  "unpriced_service_item e i m =
     (let proto = su_ProviderProtocol i;
          usageSpeed = normalize_usage_speed (su_UsageSpeed i);
          requestSpeed = normalize_usage_speed (su_RequestSpeed i);
          usageTier = normalize_openai_service_tier (su_UsageServiceTier i);
          (total, five, hour) = normalize_cache_write_token_breakdown (su_CacheWrite i) (su_CacheWrite5m i)
            (su_CacheWrite1h i) proto (su_CacheTimeout i);
          code = trim_space (su_ServiceCode i); name = trim_space (su_ServiceName i)
      in \<lparr>si_ServiceCode = code, si_ServiceName = (if name = [] then code else name),
          si_PlatformModelName = trim_space (su_PlatformModelName i), si_ProviderProtocol = trim_space proto,
          si_CacheTimeout = billing_cache_timeout_snapshot proto (su_CacheTimeout i),
          si_RequestSpeed = requestSpeed, si_UsageSpeed = usageSpeed,
          si_BillingSpeed = resolve_billing_speed proto usageSpeed requestSpeed,
          si_RequestServiceTier = normalize_openai_service_tier (su_RequestServiceTier i),
          si_UsageServiceTier = usageTier,
          si_BillingServiceTier = resolve_billing_service_tier proto usageTier,
          si_FastMode = is_anthropic_fast_mode proto usageSpeed requestSpeed,
          si_RateMultiplier = billing_rate_multiplier_value e m, si_PricingMode = PriceToken,
          si_tokens = \<lparr>tc_Input = clamp_non_negative (su_Input i), tc_CacheRead = clamp_non_negative (su_CacheRead i),
            tc_CacheWrite = total, tc_CacheWrite5m = five, tc_CacheWrite1h = hour,
            tc_Output = clamp_non_negative (su_Output i), tc_Reasoning = clamp_non_negative (su_Reasoning i)\<rparr>,
          si_CallCount = (if su_CallCount i \<le> 0 then 1 else su_CallCount i), si_DurationSeconds = 0,
          si_rates = no_rates, si_CallRate = 0, si_DurationRate = 0, si_bill = no_bill,
          si_CacheWrite5mBilled = 0, si_CacheWrite1hBilled = 0, si_BilledNanousd = 0,
          si_TieredFrom = 0, si_TieredUpTo = None\<rparr>)"

definition build_usage_service_item ::
    "pricing_env \<Rightarrow> string \<Rightarrow> nat \<Rightarrow> nat option \<Rightarrow> service_usage_input \<Rightarrow> billing_error + usage_service_item" where
  "build_usage_service_item e mode userID subGroup i =
     (let fast = is_anthropic_fast_mode (su_ProviderProtocol i) (normalize_usage_speed (su_UsageSpeed i))
                   (normalize_usage_speed (su_RequestSpeed i));
          m = resolve_usage_rate_multiplier (su_ProviderProtocol i) (su_PlatformModelName i) (su_UpstreamModelName i) fast
                (resolve_billing_service_tier (su_ProviderProtocol i)
                   (normalize_openai_service_tier (su_UsageServiceTier i)));
          item = unpriced_service_item e i m
      in case found (resolve_platform_model_identity e (si_PlatformModelName item)) of Inl err \<Rightarrow> Inl err
      | Inr identity \<Rightarrow>
        (case (if mode \<noteq> ''self'' then
                 map_sum id (compose_group_rate_percent m)
                   (resolve_group_rate_percent e userID (case identity of None \<Rightarrow> 0 | Some d \<Rightarrow> mi_ID d) subGroup)
               else Inr m) of Inl err \<Rightarrow> Inl err
      | Inr m \<Rightarrow>
          let item = item\<lparr>si_RateMultiplier := billing_rate_multiplier_value e m\<rparr>;
              name = (let n = trim_space (case identity of None \<Rightarrow> [] | Some d \<Rightarrow> mi_Name d)
                      in if n = [] then si_PlatformModelName item else n)
          in case (if name \<noteq> [] then found (pe_pricing e name) else Inr None) of Inl err \<Rightarrow> Inl err
             | Inr pricing \<Rightarrow>
                 if mode = ''self'' then Inr item
                 else case pricing of
                   None \<Rightarrow> Inl BillPricingRequired
                 | Some p \<Rightarrow> if mp_IsFree p then Inr item else price_service_item e i p m item))"

fun build_usage_service_items ::
    "pricing_env \<Rightarrow> string \<Rightarrow> nat \<Rightarrow> nat option \<Rightarrow> service_usage_input list \<Rightarrow> usage_service_item list \<Rightarrow> int \<Rightarrow>
       billing_error + usage_service_item list \<times> int" where
  "build_usage_service_items e mode u sub [] results acc = Inr (results, acc)"
| "build_usage_service_items e mode u sub (i # is) results acc =
     (case build_usage_service_item e mode u sub i of Inl err \<Rightarrow> Inl err
      | Inr item \<Rightarrow> build_usage_service_items e mode u sub is (results @ [item])
          (add64 acc (si_BilledNanousd item)))"

section \<open>Native and MCP tools\<close>

record mcp_tool_usage =
  mcp_ServerName :: string
  mcp_ToolName :: string
  mcp_CallCount :: int
  mcp_PriceNanousd :: int

definition call_service_item :: "pricing_env \<Rightarrow> string \<Rightarrow> string \<Rightarrow> string \<Rightarrow> string \<Rightarrow> int \<Rightarrow> int \<Rightarrow> usage_service_item" where
  "call_service_item e code name model protocol count price =
     \<lparr>si_ServiceCode = code, si_ServiceName = name, si_PlatformModelName = trim_space model,
      si_ProviderProtocol = trim_space protocol, si_CacheTimeout = [], si_RequestSpeed = [], si_UsageSpeed = [],
      si_BillingSpeed = [], si_RequestServiceTier = [], si_UsageServiceTier = [], si_BillingServiceTier = [],
      si_FastMode = False, si_RateMultiplier = 1, si_PricingMode = PriceCall,
      si_tokens = \<lparr>tc_Input = 0, tc_CacheRead = 0, tc_CacheWrite = 0, tc_CacheWrite5m = 0, tc_CacheWrite1h = 0,
        tc_Output = 0, tc_Reasoning = 0\<rparr>,
      si_CallCount = count, si_DurationSeconds = 0, si_rates = no_rates, si_CallRate = price, si_DurationRate = 0,
      si_bill = no_bill\<lparr>b_Call := mul64 count price\<rparr>, si_CacheWrite5mBilled = 0, si_CacheWrite1hBilled = 0,
      si_BilledNanousd = mul64 count price, si_TieredFrom = 0, si_TieredUpTo = None\<rparr>"

text \<open>
  Counts per tool name: a map of the code is the list of its entries in the order the code
  happens to iterate over it.
\<close>

fun add_count :: "string \<Rightarrow> int \<Rightarrow> (string \<times> int) list \<Rightarrow> (string \<times> int) list" where
  "add_count k v [] = [(k, v)]"
| "add_count k v ((k', v') # m) = (if k = k' then (k, add64 v' v) # m else (k', v') # add_count k v m)"

definition normalize_usage_count_map :: "(string \<times> int) list \<Rightarrow> (string \<times> int) list" where
  "normalize_usage_count_map items = fold (\<lambda>(key, value) m.
     let k = trim_space key in if k = [] \<or> value \<le> 0 then m else add_count k value m) items []"

definition native_tool_service_code :: "string \<Rightarrow> string \<Rightarrow> string" where
  "native_tool_service_code provider tool =
     (let p = trim_space provider; t = trim_space tool in
      ''native_tool.'' @ (if p = [] then ''unknown'' else p) @ ''.'' @ (if t = [] then ''unknown'' else t))"

definition mcp_tool_service_code :: "string \<Rightarrow> string \<Rightarrow> string" where
  "mcp_tool_service_code server tool =
     (let s = trim_space server; t = trim_space tool in
      ''mcp_tool.'' @ (if s = [] then ''unknown'' else s) @ ''.'' @ (if t = [] then ''unknown'' else t))"

definition mcp_tool_service_name :: "string \<Rightarrow> string \<Rightarrow> string" where
  "mcp_tool_service_name server tool =
     (let s = trim_space server; t = trim_space tool in
      if s = [] then t else if t = [] then s else s @ '' / '' @ t)"

section \<open>The ledger entry of a call\<close>

record usage_pricing_input =
  ui_AuthorizationMode :: "string option"
  ui_UserID :: nat
  ui_ConversationID :: nat
  ui_PlatformModelName :: string
  ui_RoutedBindingCode :: string
  ui_ProviderProtocol :: string
  ui_UpstreamName :: string
  ui_UpstreamModelName :: string
  ui_CacheTimeout :: string
  ui_RequestSpeed :: string
  ui_UsageSpeed :: string
  ui_RequestServiceTier :: string
  ui_UsageServiceTier :: string
  ui_ServiceOnly :: bool
  ui_tokens :: token_counts
  ui_CallCount :: int
  ui_DurationBillable :: bool
  ui_DurationSeconds :: int
  ui_LatencyMS :: int
  ui_ServerSideToolUsage :: "(string \<times> int) list"
  ui_MCPToolUsage :: "mcp_tool_usage list"
  ui_ServiceItems :: "service_usage_input list"
  ui_BillingAt :: gtime

definition build_native_tool_service_items ::
    "pricing_env \<Rightarrow> usage_pricing_input \<Rightarrow> string \<Rightarrow> bool \<Rightarrow> bool \<Rightarrow> usage_service_item list \<times> int" where
  "build_native_tool_service_items e i mode isFree enabled =
     (if mode = ''self'' \<or> isFree \<or> \<not> enabled then ([], 0)
      else fold (\<lambda>(tool, count) (items, acc).
        case pe_nativePrice e (ui_ProviderProtocol i) tool of
          None \<Rightarrow> (items, acc)
        | Some price \<Rightarrow>
            if up_NanousdPerCall price \<le> 0 \<or> count \<le> 0 then (items, acc)
            else let item = call_service_item e (native_tool_service_code (up_Provider price) tool)
                       (up_ServiceName price) (ui_PlatformModelName i) (ui_ProviderProtocol i) count
                       (up_NanousdPerCall price)
                 in (items @ [item], add64 acc (si_BilledNanousd item)))
        (normalize_usage_count_map (ui_ServerSideToolUsage i)) ([], 0))"

definition build_mcp_tool_service_items ::
    "pricing_env \<Rightarrow> usage_pricing_input \<Rightarrow> string \<Rightarrow> usage_service_item list \<times> int" where
  "build_mcp_tool_service_items e i mode =
     (if mode = ''self'' then ([], 0)
      else fold (\<lambda>usage (items, acc).
        if mcp_CallCount usage \<le> 0 \<or> mcp_PriceNanousd usage \<le> 0 then (items, acc)
        else let item = call_service_item e (mcp_tool_service_code (mcp_ServerName usage) (mcp_ToolName usage))
                   (mcp_tool_service_name (mcp_ServerName usage) (mcp_ToolName usage))
                   (ui_PlatformModelName i) (ui_ProviderProtocol i) (mcp_CallCount usage) (mcp_PriceNanousd usage)
             in (items @ [item], add64 acc (si_BilledNanousd item)))
        (ui_MCPToolUsage i) ([], 0))"

record usage_ledger =
  ul_UserID :: nat
  ul_ConversationID :: nat
  ul_ProviderProtocol :: string
  ul_UpstreamName :: string
  ul_PlatformModelName :: string
  ul_RoutedBindingCode :: string
  ul_UpstreamModelName :: string
  ul_IsFreeModel :: bool
  ul_BillingAt :: gtime
  ul_UsageDate :: gtime
  ul_tokens :: token_counts
  ul_CallCount :: int
  ul_DurationSeconds :: int
  ul_LatencyMS :: int
  ul_UsageSpeed :: string
  ul_ServiceTier :: string
  ul_BilledCurrency :: string
  ul_BilledNanousd :: int

text \<open>The charge of the model itself: the prices of the pricing mode, then the amounts.\<close>

definition model_charge ::
    "pricing_env \<Rightarrow> usage_pricing_input \<Rightarrow> string \<Rightarrow> model_pricing option \<Rightarrow> rate_multiplier \<Rightarrow> token_counts \<Rightarrow>
       int \<Rightarrow> int \<Rightarrow> billing_error + bill" where
  "model_charge e i mode pricing m t callCount durationSeconds =
     (let charged = (\<not> ui_ServiceOnly i \<and> mode \<noteq> ''self'' \<and> (case pricing of None \<Rightarrow> False | Some p \<Rightarrow> \<not> mp_IsFree p));
          protocol = trim_space (ui_ProviderProtocol i)
      in case pricing of
           None \<Rightarrow> Inr (if ui_ServiceOnly i then no_bill else token_bill t no_rates)
         | Some p \<Rightarrow> (case normalize_pricing_mode (mp_PricingMode p) of
             PriceCall \<Rightarrow>
               (let rate = (if charged then apply_rate_multiplier (mp_Call p) m else 0) in
                Inr (if ui_ServiceOnly i then no_bill else no_bill\<lparr>b_Call := mul64 callCount rate\<rparr>))
           | PriceDuration \<Rightarrow>
               (let rate = (if charged then apply_rate_multiplier (mp_Duration p) m else 0) in
                Inr (if ui_ServiceOnly i then no_bill else no_bill\<lparr>b_Duration := mul64 durationSeconds rate\<rparr>))
           | PriceTiered \<Rightarrow>
               (case (if charged then parse_tiered_pricing_tiers e (mp_TieredPricingJSON p) else Inr []) of
                  Inl err \<Rightarrow> Inl err
                | Inr tiers \<Rightarrow>
                    let tier = rt_tier (resolve_tiered_pricing_tier
                          (tiered_pricing_input_tokens (tc_Input t) (tc_CacheRead t) (tc_CacheWrite t)) tiers)
                    in Inr (if ui_ServiceOnly i then no_bill
                         else token_bill t (multiplied_rates m (tier_token_rates protocol (ui_CacheTimeout i) tier))))
           | PriceToken \<Rightarrow>
               Inr (if ui_ServiceOnly i then no_bill
                    else token_bill t (if charged
                      then multiplied_rates m (pricing_token_rates protocol (ui_CacheTimeout i) p) else no_rates))))"

text \<open>A priced model that is not free must have a price, and a duration price a billable duration.\<close>

definition pricing_missing :: "usage_pricing_input \<Rightarrow> string \<Rightarrow> model_pricing option \<Rightarrow> bool" where
  "pricing_missing i mode pricing \<longleftrightarrow> mode \<noteq> ''self'' \<and> \<not> ui_ServiceOnly i \<and>
     (case pricing of None \<Rightarrow> True
      | Some p \<Rightarrow> \<not> mp_IsFree p \<and> normalize_pricing_mode (mp_PricingMode p) = PriceDuration \<and>
          (\<not> ui_DurationBillable i \<or> ui_DurationSeconds i \<le> 0))"

definition billing_mode_of :: "pricing_env \<Rightarrow> usage_pricing_input \<Rightarrow> billing_error + string" where
  "billing_mode_of e i =
     (let m = (case ui_AuthorizationMode i of None \<Rightarrow> [] | Some v \<Rightarrow> trim_space v)
      in if m = [] then pe_billingMode e else Inr m)"

text \<open>Subscription group and group rate: read only outside the \<^verbatim>\<open>self\<close> mode.\<close>

definition group_rate_of ::
    "pricing_env \<Rightarrow> usage_pricing_input \<Rightarrow> string \<Rightarrow> model_identity option \<Rightarrow> rate_multiplier \<Rightarrow>
       billing_error + nat option \<times> rate_multiplier" where
  "group_rate_of e i mode identity m =
     (if mode = ''self'' then Inr (None, m)
      else case pe_subscriptionGroup e (ui_UserID i) of Inl err \<Rightarrow> Inl err
      | Inr sub \<Rightarrow> map_sum id (\<lambda>percent. (sub, compose_group_rate_percent m percent))
          (resolve_group_rate_percent e (ui_UserID i) (case identity of None \<Rightarrow> 0 | Some d \<Rightarrow> mi_ID d) sub))"

definition ledger_rate_multiplier :: "usage_pricing_input \<Rightarrow> rate_multiplier" where
  "ledger_rate_multiplier i =
     (let protocol = trim_space (ui_ProviderProtocol i) in
      resolve_usage_rate_multiplier protocol (trim_space (ui_PlatformModelName i)) (ui_UpstreamModelName i)
        (is_anthropic_fast_mode protocol (normalize_usage_speed (ui_UsageSpeed i)) (normalize_usage_speed (ui_RequestSpeed i)))
        (resolve_billing_service_tier protocol (normalize_openai_service_tier (ui_UsageServiceTier i))))"

definition ledger_tokens :: "usage_pricing_input \<Rightarrow> token_counts" where
  "ledger_tokens i =
     (let t = ui_tokens i;
          (total, five, hour) = normalize_cache_write_token_breakdown (tc_CacheWrite t) (tc_CacheWrite5m t)
            (tc_CacheWrite1h t) (trim_space (ui_ProviderProtocol i)) (ui_CacheTimeout i)
      in t\<lparr>tc_CacheWrite := total, tc_CacheWrite5m := five, tc_CacheWrite1h := hour\<rparr>)"

definition ledger_call_count :: "usage_pricing_input \<Rightarrow> int" where
  "ledger_call_count i = (if ui_CallCount i \<le> 0 then 1 else ui_CallCount i)"

definition ledger_duration :: "usage_pricing_input \<Rightarrow> int" where
  "ledger_duration i =
     (if ui_DurationBillable i then (if ui_DurationSeconds i < 0 then 0 else ui_DurationSeconds i) else 0)"

definition ledger_entry ::
    "pricing_env \<Rightarrow> usage_pricing_input \<Rightarrow> model_pricing option \<Rightarrow> int \<Rightarrow> usage_ledger" where
  "ledger_entry e i pricing billed =
     (let protocol = trim_space (ui_ProviderProtocol i);
          billingAt = (if is_zero (ui_BillingAt i) then pe_now e else ui_BillingAt i)
      in \<lparr>ul_UserID = ui_UserID i, ul_ConversationID = ui_ConversationID i, ul_ProviderProtocol = protocol,
          ul_UpstreamName = trim_space (ui_UpstreamName i),
          ul_PlatformModelName = trim_space (ui_PlatformModelName i),
          ul_RoutedBindingCode = trim_space (ui_RoutedBindingCode i),
          ul_UpstreamModelName = trim_space (ui_UpstreamModelName i),
          ul_IsFreeModel = ((case pricing of None \<Rightarrow> False | Some p \<Rightarrow> mp_IsFree p) \<and> billed \<le> 0),
          ul_BillingAt = billingAt, ul_UsageDate = pe_dayStart e billingAt, ul_tokens = ledger_tokens i,
          ul_CallCount = ledger_call_count i, ul_DurationSeconds = ledger_duration i,
          ul_LatencyMS = ui_LatencyMS i,
          ul_UsageSpeed = resolve_billing_speed protocol (normalize_usage_speed (ui_UsageSpeed i))
            (normalize_usage_speed (ui_RequestSpeed i)),
          ul_ServiceTier = resolve_billing_service_tier protocol (normalize_openai_service_tier (ui_UsageServiceTier i)),
          ul_BilledCurrency = (case pricing of None \<Rightarrow> ''USD'' | Some p \<Rightarrow> mp_Currency p),
          ul_BilledNanousd = billed\<rparr>)"

text \<open>The entry with its service items (the code keeps the items in the snapshot only).\<close>

definition build_usage_ledger ::
    "pricing_env \<Rightarrow> usage_pricing_input \<Rightarrow> billing_error + usage_ledger \<times> usage_service_item list" where
  "build_usage_ledger e i =
     (case found (resolve_platform_model_identity e (trim_space (ui_PlatformModelName i))) of Inl err \<Rightarrow> Inl err
      | Inr identity \<Rightarrow> (case billing_mode_of e i of Inl err \<Rightarrow> Inl err
      | Inr mode \<Rightarrow> (case group_rate_of e i mode identity (ledger_rate_multiplier i) of Inl err \<Rightarrow> Inl err
      | Inr (sub, m) \<Rightarrow> (case found (pe_pricing e (trim_space (ui_PlatformModelName i))) of Inl err \<Rightarrow> Inl err
      | Inr pricing \<Rightarrow>
          if pricing_missing i mode pricing then Inl BillPricingRequired
          else case model_charge e i mode pricing m (ledger_tokens i) (ledger_call_count i) (ledger_duration i) of
            Inl err \<Rightarrow> Inl err
          | Inr b \<Rightarrow> (case build_usage_service_items e mode (ui_UserID i) sub (ui_ServiceItems i) [] 0 of
              Inl err \<Rightarrow> Inl err
            | Inr (items, service) \<Rightarrow> (case pe_nativeCatalog e of Inl err \<Rightarrow> Inl err
            | Inr nativeEnabled \<Rightarrow>
                let (nativeItems, native) = build_native_tool_service_items e i mode
                      (case pricing of None \<Rightarrow> False | Some p \<Rightarrow> mp_IsFree p) nativeEnabled;
                    (mcpItems, mcp) = build_mcp_tool_service_items e i mode
                in Inr (ledger_entry e i pricing (add64 (bill_total b) (add64 (add64 service native) mcp)),
                        items @ nativeItems @ mcpItems)))))))"

section \<open>Charges without overflow\<close>

lemma go_div_pos: "0 \<le> a \<Longrightarrow> 0 < b \<Longrightarrow> go_div a b = a div b"
  by (cases "a = 0") (simp_all add: go_div_def)

lemma in_int64_div: "in_int64 a \<Longrightarrow> 0 \<le> a \<Longrightarrow> 0 < b \<Longrightarrow> in_int64 (a div b)"
proof -
  assume a: "in_int64 a" "0 \<le> a" and b: "0 < b"
  have "a div b \<le> a" using zdiv_mono2 [of a 1 b] a(2) b by simp
  moreover have "0 \<le> a div b" using a(2) b by (simp add: pos_imp_zdiv_nonneg_iff)
  ultimately show ?thesis using a(1) by (simp add: in_int64_def)
qed

lemma div64_pos: "in_int64 a \<Longrightarrow> 0 \<le> a \<Longrightarrow> 0 < b \<Longrightarrow> div64 a b = a div b"
  by (simp add: div64_def go_div_pos in_int64_div)

definition fits :: "int \<Rightarrow> int \<Rightarrow> bool" where
  "fits tokens rate \<longleftrightarrow> tokens * rate + 500000 \<le> int64_max"

lemma calc_exact:
  assumes "0 \<le> tokens" "0 \<le> rate" "fits tokens rate"
  shows "calc_nanousd_by_token tokens rate = (tokens * rate + 500000) div 1000000"
proof (cases "tokens = 0 \<or> rate = 0")
  case False
  have nn: "0 \<le> tokens * rate" using assms by simp
  then have "in_int64 (tokens * rate)" "in_int64 (tokens * rate + 500000)"
    using assms(3) by (simp_all add: fits_def in_int64_def int64_max_def)
  then show ?thesis
    using False assms(1,2) nn by (simp add: calc_nanousd_by_token_def mul64_def add64_def div64_pos)
qed (auto simp: calc_nanousd_by_token_def)

text \<open>
  The charge of a token count is the exact product rounded to the nearest nano-dollar, halves
  up, as long as the product fits 64 bits.
\<close>

theorem token_charge_rounds:
  assumes "0 \<le> tokens" "0 \<le> rate" "tokens * rate + 500000 \<le> int64_max"
  shows "0 \<le> calc_nanousd_by_token tokens rate \<and>
    2 * tokens * rate - 1000000 < 2000000 * calc_nanousd_by_token tokens rate \<and>
    2000000 * calc_nanousd_by_token tokens rate \<le> 2 * tokens * rate + 1000000"
proof -
  have nn: "0 \<le> tokens * rate" using assms by simp
  have c: "calc_nanousd_by_token tokens rate = (tokens * rate + 500000) div 1000000"
    using calc_exact assms by (simp add: fits_def)
  show ?thesis unfolding c mult.assoc using nn by linarith
qed

theorem token_charge_rounds_witness:
  "0 \<le> calc_nanousd_by_token 1234 2500000001 \<and>
    2 * 1234 * 2500000001 - 1000000 < 2000000 * calc_nanousd_by_token 1234 2500000001 \<and>
    2000000 * calc_nanousd_by_token 1234 2500000001 \<le> 2 * 1234 * 2500000001 + 1000000"
  using token_charge_rounds [of 1234 2500000001] by (simp add: int64_max_def)

text \<open>
  The rate shown for cache writes is derived from their charge; charging the same tokens at
  the shown rate gives that charge again, below a million tokens.
\<close>

theorem snapshot_rate_roundtrip:
  assumes "0 < tokens" "tokens < 1000000" "0 < billed" "billed * 1000000 + 1000000 \<le> int64_max"
  shows "calc_nanousd_by_token tokens (resolve_snapshot_rate_from_billed tokens billed fallback) = billed"
proof -
  let ?r = "(billed * 1000000 + tokens div 2) div tokens"
  have h: "div64 tokens 2 = tokens div 2"
    using assms(1,2) by (simp add: div64_pos in_int64_def)
  have "in_int64 (billed * 1000000)" "in_int64 (billed * 1000000 + tokens div 2)" "0 \<le> billed * 1000000 + tokens div 2"
    using assms by (auto simp: in_int64_def int64_max_def)
  then have rate: "resolve_snapshot_rate_from_billed tokens billed fallback = ?r"
    using assms(1,3) h by (simp add: resolve_snapshot_rate_from_billed_def mul64_def add64_def div64_pos)
  have split: "tokens * ?r = billed * 1000000 + tokens div 2 - (billed * 1000000 + tokens div 2) mod tokens"
    by (simp add: minus_mod_eq_mult_div)
  have m: "0 \<le> (billed * 1000000 + tokens div 2) mod tokens" "(billed * 1000000 + tokens div 2) mod tokens < tokens"
    using assms(1) by simp_all
  have "0 \<le> ?r" using assms by (simp add: pos_imp_zdiv_nonneg_iff)
  moreover have "fits tokens ?r" unfolding fits_def split using m assms by linarith
  ultimately have "calc_nanousd_by_token tokens ?r = (tokens * ?r + 500000) div 1000000"
    using calc_exact assms(1) by simp
  also have "\<dots> = billed" unfolding split using m assms(1,2) by linarith
  finally show ?thesis by (simp add: rate)
qed

theorem snapshot_rate_roundtrip_witness:
  "calc_nanousd_by_token 7777 (resolve_snapshot_rate_from_billed 7777 123456 0) = 123456"
  by (rule snapshot_rate_roundtrip) (simp_all add: int64_max_def)

section \<open>The split of cache writes\<close>

text \<open>
  Of an Anthropic call every cache write token is charged exactly once, as a five-minute or a
  one-hour write: the two parts add up to the total, no reported part is lowered, and the total
  is the reported one or the sum of the reported parts, whichever is larger.
\<close>

theorem cache_write_split:
  assumes "normalize_cache_write_token_breakdown tot five hour protocol timeout = (t, f, h)"
    and "trim_space protocol = anthropic" "tot \<le> int64_max" "five + hour \<le> int64_max" "five \<le> int64_max" "hour \<le> int64_max"
  shows "f + h = t \<and> max 0 five \<le> f \<and> max 0 hour \<le> h \<and>
    t = max (max 0 tot) (max 0 five + max 0 hour)"
proof -
  define p q r where "p = clamp_non_negative five" and "q = clamp_non_negative hour" and "r = clamp_non_negative tot"
  have m: "p = max 0 five" "q = max 0 hour" "r = max 0 tot"
    by (auto simp: p_def q_def r_def clamp_non_negative_def)
  have b: "0 \<le> p" "0 \<le> q" "0 \<le> r" "p + q \<le> int64_max" "r \<le> int64_max"
    using assms(3-6) by (auto simp: m max_def int64_max_def)
  then have w: "0 \<le> x \<Longrightarrow> x \<le> int64_max \<Longrightarrow> wrap64 x = x" for x
    by (simp add: in_int64_def int64_max_def)
  have eq: "normalize_cache_write_token_breakdown tot five hour protocol timeout =
    (if r \<le> p + q then (p + q, p, q)
     else if normalize_anthropic_cache_timeout timeout = ''1h'' then (r, p, r - p)
     else (r, r - q, q))"
    using assms(2) b w [of "p + q"] w [of "r - (p + q)"] w [of "r - p"] w [of "r - q"] w [of 0]
    by (auto simp: normalize_cache_write_token_breakdown_def add64_def p_def [symmetric] q_def [symmetric]
        r_def [symmetric] Let_def)
  show ?thesis
    using assms(1) b unfolding eq m(1-3) [symmetric] by (auto split: if_splits)
qed

theorem cache_write_split_witness:
  "normalize_cache_write_token_breakdown 100 30 20 anthropic ''1h'' = (100, 30, 70) \<and> (30::int) + 70 = 100"
proof -
  have n: "normalize_cache_write_token_breakdown 100 30 20 anthropic ''1h'' = (100, 30, 70)" by code_simp
  have "trim_space anthropic = anthropic" by code_simp
  then show ?thesis using cache_write_split [OF n] n by (simp add: int64_max_def)
qed

section \<open>Tiers\<close>

lemma find_tier_some:
  "find_tier n ts previous lastFrom = (Some r, from) \<Longrightarrow>
     \<exists>pre post. ts = pre @ rt_tier r # post \<and> (\<forall>t \<in> set pre. 0 < pt_UpTo t \<and> pt_UpTo t < n) \<and>
       (pt_UpTo (rt_tier r) \<le> 0 \<or> n \<le> pt_UpTo (rt_tier r)) \<and>
       rt_from r = (if pre = [] then previous else pt_UpTo (last pre)) \<and>
       rt_upTo r = tier_upper_limit (pt_UpTo (rt_tier r))"
proof (induction ts arbitrary: previous lastFrom)
  case (Cons t ts)
  show ?case
  proof (cases "pt_UpTo t \<le> 0 \<or> n \<le> pt_UpTo t")
    case True
    then show ?thesis using Cons.prems by (intro exI [of _ "[]"] exI [of _ ts]) auto
  next
    case False
    then have "find_tier n ts (pt_UpTo t) previous = (Some r, from)" using Cons.prems by simp
    from Cons.IH [OF this] obtain pre post where pp: "ts = pre @ rt_tier r # post"
      "\<forall>t \<in> set pre. 0 < pt_UpTo t \<and> pt_UpTo t < n" "pt_UpTo (rt_tier r) \<le> 0 \<or> n \<le> pt_UpTo (rt_tier r)"
      "rt_from r = (if pre = [] then pt_UpTo t else pt_UpTo (last pre))"
      "rt_upTo r = tier_upper_limit (pt_UpTo (rt_tier r))" by blast
    then show ?thesis using False by (intro exI [of _ "t # pre"] exI [of _ post]) auto
  qed
qed simp

lemma find_tier_none:
  "find_tier n ts previous lastFrom = (None, from) \<Longrightarrow>
     (\<forall>t \<in> set ts. 0 < pt_UpTo t \<and> pt_UpTo t < n) \<and>
     (ts \<noteq> [] \<longrightarrow> from = (if butlast ts = [] then previous else pt_UpTo (last (butlast ts))))"
proof (induction ts arbitrary: previous lastFrom)
  case (Cons t ts)
  then have h: "0 < pt_UpTo t" "pt_UpTo t < n" "find_tier n ts (pt_UpTo t) previous = (None, from)"
    by (auto split: if_splits)
  from Cons.IH [OF h(3)] h(1,2) show ?case
    by (cases ts) (use h(3) in auto)
qed simp

text \<open>
  A call is charged at the first tier whose bound its input tokens do not exceed, a tier with
  no bound ends the list, and beyond every bound the last tier applies; the displayed interval
  starts at the bound of the tier before it.
\<close>

theorem tier_of_input:
  assumes "tiers \<noteq> []"
  shows "\<exists>pre post. let r = resolve_tiered_pricing_tier n tiers in
    tiers = pre @ rt_tier r # post \<and> (\<forall>t \<in> set pre. 0 < pt_UpTo t \<and> pt_UpTo t < n) \<and>
    (pt_UpTo (rt_tier r) \<le> 0 \<or> n \<le> pt_UpTo (rt_tier r) \<or> post = []) \<and>
    rt_from r = (if pre = [] then 0 else pt_UpTo (last pre)) \<and>
    (case rt_upTo r of Some u \<Rightarrow> u = pt_UpTo (rt_tier r) \<and> n \<le> u
     | None \<Rightarrow> pt_UpTo (rt_tier r) \<le> 0 \<or> pt_UpTo (rt_tier r) < n \<and> post = [])"
proof -
  obtain q fr where f: "find_tier n tiers 0 0 = (q, fr)" by (cases "find_tier n tiers 0 0")
  show ?thesis
  proof (cases q)
    case None
    with find_tier_none [OF f [unfolded None]] f assms show ?thesis
      by (intro exI [of _ "butlast tiers"] exI [of _ "[]"])
         (auto simp: resolve_tiered_pricing_tier_def Let_def dest: in_set_butlastD)
  next
    case (Some r)
    with find_tier_some [OF f [unfolded Some]] f assms show ?thesis
      by (auto simp: resolve_tiered_pricing_tier_def Let_def tier_upper_limit_def split: if_splits option.splits)
  qed
qed

definition sample_tiers :: "pricing_tier list" where
  "sample_tiers = [zero_tier\<lparr>pt_UpTo := 1000, pt_Input := 1\<rparr>, zero_tier\<lparr>pt_UpTo := 5000, pt_Input := 2\<rparr>]"

theorem tier_of_input_witness:
  "rt_from (resolve_tiered_pricing_tier 1001 sample_tiers) = 1000 \<and>
    rt_upTo (resolve_tiered_pricing_tier 1001 sample_tiers) = Some 5000 \<and>
    rt_tier (resolve_tiered_pricing_tier 1001 sample_tiers) \<in> set sample_tiers"
proof -
  have "sample_tiers \<noteq> []" by (simp add: sample_tiers_def)
  from tier_of_input [OF this, of 1001]
  have "rt_tier (resolve_tiered_pricing_tier 1001 sample_tiers) \<in> set sample_tiers"
    by (metis (no_types, lifting) in_set_conv_decomp)
  then show ?thesis
    by (simp add: sample_tiers_def resolve_tiered_pricing_tier_def zero_tier_def tier_upper_limit_def)
qed

text \<open>The intervals of accepted tiers do not overlap: positive bounds increase strictly.\<close>

fun ordered_tiers :: "pricing_tier list \<Rightarrow> int \<Rightarrow> bool" where
  "ordered_tiers [] previous = True"
| "ordered_tiers (t # ts) previous \<longleftrightarrow>
     (0 < pt_UpTo t \<longrightarrow> previous < pt_UpTo t) \<and> ordered_tiers ts (if 0 < pt_UpTo t then pt_UpTo t else previous)"

lemma check_tiers_ordered: "check_tiers e ts previous = Some tiers \<Longrightarrow> ordered_tiers tiers previous"
  by (induction ts arbitrary: previous tiers) (auto split: if_splits)

lemma check_tiers_length: "check_tiers e ts previous = Some tiers \<Longrightarrow> length tiers = length ts"
  by (induction ts arbitrary: previous tiers) (auto split: if_splits)

lemma parsed_tiers_ordered:
  "parse_tiered_pricing_tiers e raw = Inr tiers \<Longrightarrow> ordered_tiers tiers 0 \<and> tiers \<noteq> []"
  by (force simp: parse_tiered_pricing_tiers_def Let_def check_tiers_ordered dest: check_tiers_length
      split: sum.splits if_splits option.splits)

section \<open>What is charged\<close>

lemma calc_zero_rate [simp]: "calc_nanousd_by_token t 0 = 0"
  by (simp add: calc_nanousd_by_token_def)

lemma bill_total_no_bill [simp]: "bill_total no_bill = 0"
  by (simp add: bill_total_def no_bill_def add64_def wrap64_def)

lemma token_bill_no_rates [simp]: "token_bill t no_rates = no_bill"
  by (simp add: token_bill_def no_rates_def no_bill_def calc_cache_write_billed_nanousd_def add64_def wrap64_def)

lemma mul64_zero [simp]: "mul64 a 0 = 0" "mul64 0 a = 0" "add64 0 0 = 0"
  by (simp_all add: mul64_def add64_def wrap64_def)

lemma apply_rate_zero [simp]: "apply_rate_multiplier 0 m = 0"
  by (simp add: apply_rate_multiplier_def)

lemma zero_tier_rates: "multiplied_rates m (tier_token_rates p t zero_tier) = no_rates"
  by (simp add: tier_token_rates_def base_token_rates_def zero_tier_def multiplied_rates_def no_rates_def
      resolve_cache_write_rate_def apply_rate_multiplier_def)

lemma uncharged_bill:
  assumes "model_charge e i mode pricing m t c d = Inr b"
    and "ui_ServiceOnly i \<or> mode = ''self'' \<or> (case pricing of None \<Rightarrow> True | Some p \<Rightarrow> mp_IsFree p)"
  shows "b = no_bill"
proof (cases pricing)
  case None
  then show ?thesis using assms by (auto simp: model_charge_def Let_def split: if_splits)
next
  case (Some p)
  define charged where "charged = (\<not> ui_ServiceOnly i \<and> mode \<noteq> ''self'' \<and> \<not> mp_IsFree p)"
  have "\<not> charged" using assms(2) Some by (auto simp: charged_def)
  moreover have "rt_tier (resolve_tiered_pricing_tier n []) = zero_tier" for n
    by (simp add: resolve_tiered_pricing_tier_def)
  ultimately show ?thesis
    using assms(1) unfolding model_charge_def Let_def Some option.case charged_def [symmetric]
    by (auto simp: zero_tier_rates no_bill_def split: pricing_mode.splits if_splits)
qed

lemma unpriced_item_bill [simp]: "si_BilledNanousd (unpriced_service_item e i m) = 0"
  by (simp add: unpriced_service_item_def Let_def split: prod.splits)

lemma self_item_free:
  "build_usage_service_item e ''self'' u sub i = Inr item \<Longrightarrow> si_BilledNanousd item = 0"
  by (auto simp: build_usage_service_item_def Let_def split: sum.splits)

lemma wrap64_cong: "wrap64 a = wrap64 b \<Longrightarrow> wrap64 (a + c) = wrap64 (b + c)"
  by (metis wrap64_add_wrap64)

lemma build_items_sum:
  "build_usage_service_items e mode u sub is res acc = Inr (items, acc') \<Longrightarrow>
     \<exists>new. items = res @ new \<and> list_all2 (\<lambda>i item. build_usage_service_item e mode u sub i = Inr item) is new \<and>
       wrap64 acc' = wrap64 (acc + sum_list (map si_BilledNanousd new))"
proof (induction "is" arbitrary: res acc)
  case (Cons i "is")
  then obtain item where item: "build_usage_service_item e mode u sub i = Inr item"
    and rest: "build_usage_service_items e mode u sub is (res @ [item]) (add64 acc (si_BilledNanousd item)) = Inr (items, acc')"
    by (auto split: sum.splits)
  from Cons.IH [OF rest] obtain new where new: "items = (res @ [item]) @ new"
    "list_all2 (\<lambda>i item. build_usage_service_item e mode u sub i = Inr item) is new"
    "wrap64 acc' = wrap64 (add64 acc (si_BilledNanousd item) + sum_list (map si_BilledNanousd new))" by blast
  then show ?case using item
    by (intro exI [of _ "item # new"]) (simp add: add64_def wrap64_add_wrap64 wrap64_wrap64_add ac_simps)
qed simp

lemma fold_items_sum:
  assumes "\<And>x items acc. step x (items, acc) = (items, acc) \<or>
      (\<exists>it. step x (items, acc) = (items @ [it], add64 acc (si_BilledNanousd it)))"
  shows "fold step xs (items, acc) = (items', acc') \<Longrightarrow>
     \<exists>new. items' = items @ new \<and> wrap64 acc' = wrap64 (acc + sum_list (map si_BilledNanousd new))"
proof (induction xs arbitrary: items acc)
  case (Cons x xs)
  from assms [of x items acc] show ?case
  proof
    assume "step x (items, acc) = (items, acc)"
    then show ?thesis using Cons by simp
  next
    assume "\<exists>it. step x (items, acc) = (items @ [it], add64 acc (si_BilledNanousd it))"
    then obtain it where it: "step x (items, acc) = (items @ [it], add64 acc (si_BilledNanousd it))" by blast
    have "fold step xs (items @ [it], add64 acc (si_BilledNanousd it)) = (items', acc')"
      using Cons.prems it by simp
    from Cons.IH [OF this] obtain new where "items' = (items @ [it]) @ new"
      "wrap64 acc' = wrap64 (add64 acc (si_BilledNanousd it) + sum_list (map si_BilledNanousd new))"
      by blast
    then show ?thesis
      by (intro exI [of _ "it # new"]) (simp add: add64_def wrap64_add_wrap64 wrap64_wrap64_add ac_simps)
  qed
qed simp

lemma native_items_sum:
  "build_native_tool_service_items e i mode free enabled = (items, acc) \<Longrightarrow>
     wrap64 acc = wrap64 (sum_list (map si_BilledNanousd items))"
  by (auto simp: build_native_tool_service_items_def Let_def split: if_splits
      dest!: fold_items_sum [rotated] split: option.splits)

lemma mcp_items_sum:
  "build_mcp_tool_service_items e i mode = (items, acc) \<Longrightarrow>
     wrap64 acc = wrap64 (sum_list (map si_BilledNanousd items))"
  by (auto simp: build_mcp_tool_service_items_def Let_def split: if_splits dest!: fold_items_sum [rotated])

text \<open>The steps of a successful \<^verbatim>\<open>BuildUsageLedger\<close>.\<close>

lemma build_usage_ledger_cases [consumes 1]:
  assumes "build_usage_ledger e i = Inr (l, items)"
  obtains identity mode sub m pricing b sitems service nativeEnabled nitems native mitems mcp where
    "found (resolve_platform_model_identity e (trim_space (ui_PlatformModelName i))) = Inr identity"
    "billing_mode_of e i = Inr mode"
    "group_rate_of e i mode identity (ledger_rate_multiplier i) = Inr (sub, m)"
    "found (pe_pricing e (trim_space (ui_PlatformModelName i))) = Inr pricing" "\<not> pricing_missing i mode pricing"
    "model_charge e i mode pricing m (ledger_tokens i) (ledger_call_count i) (ledger_duration i) = Inr b"
    "build_usage_service_items e mode (ui_UserID i) sub (ui_ServiceItems i) [] 0 = Inr (sitems, service)"
    "build_native_tool_service_items e i mode (case pricing of None \<Rightarrow> False | Some p \<Rightarrow> mp_IsFree p) nativeEnabled =
       (nitems, native)"
    "build_mcp_tool_service_items e i mode = (mitems, mcp)" "items = sitems @ nitems @ mitems"
    "l = ledger_entry e i pricing (add64 (bill_total b) (add64 (add64 service native) mcp))"
  using assms unfolding build_usage_ledger_def
  by (auto split: sum.splits prod.splits if_splits)

lemma ledger_entry_billed [simp]: "ul_BilledNanousd (ledger_entry e i pricing b) = b"
  by (simp add: ledger_entry_def Let_def)

lemma ledger_sum:
  assumes "build_usage_ledger e i = Inr (l, items)"
  shows "\<exists>mode pricing m b. billing_mode_of e i = Inr mode \<and>
    found (pe_pricing e (trim_space (ui_PlatformModelName i))) = Inr pricing \<and>
    model_charge e i mode pricing m (ledger_tokens i) (ledger_call_count i) (ledger_duration i) = Inr b \<and>
    ul_BilledNanousd l = wrap64 (bill_total b + sum_list (map si_BilledNanousd items))"
  using assms
proof (cases rule: build_usage_ledger_cases)
  case (1 identity mode sub m pricing b sitems service nativeEnabled nitems native mitems mcp)
  let ?S = "\<lambda>xs. sum_list (map si_BilledNanousd xs)"
  have "wrap64 service = wrap64 (?S sitems)" using build_items_sum [OF 1(7)] by auto
  then have "wrap64 (bill_total b + (service + native + mcp)) = wrap64 (bill_total b + (?S sitems + ?S nitems + ?S mitems))"
    using native_items_sum [OF 1(8)] mcp_items_sum [OF 1(9)]
    by (metis (no_types, lifting) wrap64_add_wrap64 wrap64_wrap64_add)
  then have "ul_BilledNanousd l = wrap64 (bill_total b + ?S items)"
    unfolding 1(10,11) by (simp add: add64_def wrap64_add_wrap64 wrap64_wrap64_add ac_simps)
  with 1 show ?thesis by blast
qed

text \<open>
  The amount of a ledger entry is the charge of the model and of all its service items, each
  counted once.
\<close>

theorem ledger_amount_is_sum:
  assumes "build_usage_ledger e i = Inr (l, items)"
  shows "\<exists>mode pricing m b. billing_mode_of e i = Inr mode \<and>
    found (pe_pricing e (trim_space (ui_PlatformModelName i))) = Inr pricing \<and>
    model_charge e i mode pricing m (ledger_tokens i) (ledger_call_count i) (ledger_duration i) = Inr b \<and>
    ul_BilledNanousd l = wrap64 (bill_total b + sum_list (map si_BilledNanousd items))"
  by (rule ledger_sum [OF assms])

lemma self_items_free:
  "list_all2 (\<lambda>i item. build_usage_service_item e ''self'' u sub i = Inr item) is items \<Longrightarrow>
     sum_list (map si_BilledNanousd items) = 0 \<and> (\<forall>item \<in> set items. si_BilledNanousd item = 0)"
  by (induction "is" items rule: list_all2_induct) (auto dest: self_item_free)

text \<open>In the \<^verbatim>\<open>self\<close> mode nothing is charged.\<close>

theorem self_mode_bills_nothing:
  assumes "build_usage_ledger e i = Inr (l, items)" "billing_mode_of e i = Inr ''self''"
  shows "ul_BilledNanousd l = 0 \<and> (\<forall>item \<in> set items. si_BilledNanousd item = 0)"
  using assms(1)
proof (cases rule: build_usage_ledger_cases)
  case (1 identity mode sub m pricing b sitems service nativeEnabled nitems native mitems mcp)
  have mode: "mode = ''self''" using 1(2) assms(2) by simp
  have b: "b = no_bill" using uncharged_bill [OF 1(6)] mode by simp
  have n: "nitems = []" "native = 0" using 1(8) mode by (simp_all add: build_native_tool_service_items_def)
  have m: "mitems = []" "mcp = 0" using 1(9) mode by (simp_all add: build_mcp_tool_service_items_def)
  from build_items_sum [OF 1(7)] mode self_items_free
  have s: "wrap64 service = wrap64 0" "\<forall>item \<in> set sitems. si_BilledNanousd item = 0"
    by fastforce+
  have "ul_BilledNanousd l = wrap64 service"
    unfolding 1(11) b n m by (simp add: add64_def)
  then show ?thesis using s unfolding 1(10) n m by (simp add: wrap64_def)
qed

text \<open>
  Of a free model only service items are charged (MCP tools and models used by services), and
  the entry is marked free exactly when its whole amount is not positive.
\<close>

theorem free_model_bills_services_only:
  assumes "build_usage_ledger e i = Inr (l, items)"
    and "pe_pricing e (trim_space (ui_PlatformModelName i)) = Inr p" "mp_IsFree p"
  shows "ul_BilledNanousd l = wrap64 (sum_list (map si_BilledNanousd items)) \<and>
    (ul_IsFreeModel l \<longleftrightarrow> ul_BilledNanousd l \<le> 0)"
proof -
  obtain mode pricing m b where c: "found (pe_pricing e (trim_space (ui_PlatformModelName i))) = Inr pricing"
    "model_charge e i mode pricing m (ledger_tokens i) (ledger_call_count i) (ledger_duration i) = Inr b"
    "ul_BilledNanousd l = wrap64 (bill_total b + sum_list (map si_BilledNanousd items))"
    using ledger_sum [OF assms(1)] by blast
  have p: "pricing = Some p" using c(1) assms(2) by (simp add: found_def)
  have "b = no_bill" using uncharged_bill [OF c(2)] p assms(3) by simp
  moreover have "ul_IsFreeModel l \<longleftrightarrow> ul_BilledNanousd l \<le> 0"
    using assms(1)
  proof (cases rule: build_usage_ledger_cases)
    case (1 identity mode sub m pricing' b sitems service nativeEnabled nitems native mitems mcp)
    have "pricing' = Some p" using 1(4) c(1) p by simp
    then show ?thesis unfolding 1(11) using assms(3) by (simp add: ledger_entry_def Let_def)
  qed
  ultimately show ?thesis using c(3) by simp
qed

text \<open>
  A call outside the \<^verbatim>\<open>self\<close> mode is never silently charged nothing: when an entry is built, the
  model had a price, and a duration price came with a positive billable duration.
\<close>

theorem entry_needs_price:
  assumes "build_usage_ledger e i = Inr (l, items)" "billing_mode_of e i \<noteq> Inr ''self''" "\<not> ui_ServiceOnly i"
  shows "\<exists>p. pe_pricing e (trim_space (ui_PlatformModelName i)) = Inr p \<and>
    (mp_IsFree p \<or> normalize_pricing_mode (mp_PricingMode p) \<noteq> PriceDuration \<or>
     ui_DurationBillable i \<and> 0 < ui_DurationSeconds i)"
  using assms(1)
proof (cases rule: build_usage_ledger_cases)
  case (1 identity mode sub m pricing b sitems service nativeEnabled nitems native mitems mcp)
  have "mode \<noteq> ''self''" using 1(2) assms(2) by auto
  with 1(5) assms(3) obtain p where p: "pricing = Some p"
    "mp_IsFree p \<or> normalize_pricing_mode (mp_PricingMode p) \<noteq> PriceDuration \<or>
       ui_DurationBillable i \<and> 0 < ui_DurationSeconds i"
    by (auto simp: pricing_missing_def split: option.splits)
  with 1(4) show ?thesis by (auto simp: found_def split: sum.splits billing_error.splits)
qed

lemma price_service_item_mode:
  "price_service_item e i p m item = Inr item' \<Longrightarrow> si_PricingMode item' = normalize_pricing_mode (mp_PricingMode p)"
  by (auto simp: price_service_item_def price_item_tokens_def Let_def split: pricing_mode.splits sum.splits)

text \<open>
  The same does not hold of a model used by a service: its usage carries no duration, so a
  service item of a model priced by duration is charged nothing.
\<close>

theorem duration_service_item_bills_nothing:
  assumes "build_usage_service_item e mode u sub i = Inr item" "si_PricingMode item = PriceDuration"
  shows "si_BilledNanousd item = 0"
proof -
  have unpriced: "si_PricingMode (unpriced_service_item e i m) = PriceToken"
      "si_DurationSeconds (unpriced_service_item e i m) = 0" for m
    by (simp_all add: unpriced_service_item_def Let_def split: prod.splits)
  obtain p m r m' where "item = (unpriced_service_item e i m')\<lparr>si_RateMultiplier := r\<rparr> \<or>
     price_service_item e i p m ((unpriced_service_item e i m')\<lparr>si_RateMultiplier := r\<rparr>) = Inr item"
    using assms(1) by (auto simp: build_usage_service_item_def Let_def split: sum.splits option.splits if_splits)
  then show ?thesis
  proof
    assume priced: "price_service_item e i p m ((unpriced_service_item e i m')\<lparr>si_RateMultiplier := r\<rparr>) = Inr item"
    then have "normalize_pricing_mode (mp_PricingMode p) = PriceDuration"
      using price_service_item_mode assms(2) by simp
    with priced show ?thesis
      by (auto simp: price_service_item_def Let_def unpriced bill_total_def no_bill_def)
  qed (use assms(2) unpriced in simp)
qed

section \<open>The two pricing paths agree\<close>

text \<open>The call of a service as a call of its own.\<close>

definition as_model_call :: "service_usage_input \<Rightarrow> usage_pricing_input" where
  "as_model_call s = \<lparr>ui_AuthorizationMode = None, ui_UserID = 0, ui_ConversationID = 0,
     ui_PlatformModelName = su_PlatformModelName s, ui_RoutedBindingCode = [],
     ui_ProviderProtocol = su_ProviderProtocol s, ui_UpstreamName = [], ui_UpstreamModelName = su_UpstreamModelName s,
     ui_CacheTimeout = su_CacheTimeout s, ui_RequestSpeed = su_RequestSpeed s, ui_UsageSpeed = su_UsageSpeed s,
     ui_RequestServiceTier = su_RequestServiceTier s, ui_UsageServiceTier = su_UsageServiceTier s,
     ui_ServiceOnly = False,
     ui_tokens = \<lparr>tc_Input = su_Input s, tc_CacheRead = su_CacheRead s, tc_CacheWrite = su_CacheWrite s,
       tc_CacheWrite5m = su_CacheWrite5m s, tc_CacheWrite1h = su_CacheWrite1h s, tc_Output = su_Output s,
       tc_Reasoning = su_Reasoning s\<rparr>,
     ui_CallCount = su_CallCount s, ui_DurationBillable = False, ui_DurationSeconds = 0, ui_LatencyMS = 0,
     ui_ServerSideToolUsage = [], ui_MCPToolUsage = [], ui_ServiceItems = [], ui_BillingAt = 0\<rparr>"

lemma resolve_cache_write_rate_trim [simp]:
  "resolve_cache_write_rate c (trim_space p) t = resolve_cache_write_rate c p t"
  by (simp add: resolve_cache_write_rate_def)

lemma breakdown_trim [simp]:
  "normalize_cache_write_token_breakdown a b c (trim_space p) t = normalize_cache_write_token_breakdown a b c p t"
  by (simp add: normalize_cache_write_token_breakdown_def)

lemma base_rates_trim [simp]: "base_token_rates (trim_space p) t a b c d = base_token_rates p t a b c d"
  by (simp add: base_token_rates_def)

text \<open>
  The model's part of the charge is computed by two copies of the pricing code, one for calls
  and one for service items: for the same usage, price and multiplier they charge the same,
  part by part, and fail on the same tiers.
\<close>

theorem service_and_call_charges_agree:
  assumes "0 \<le> su_Input s" "0 \<le> su_CacheRead s" "0 \<le> su_Output s" "0 \<le> su_Reasoning s"
    and "mode \<noteq> ''self''" "\<not> mp_IsFree p" "normalize_pricing_mode (mp_PricingMode p) \<noteq> PriceDuration"
  shows "map_sum id si_bill (price_service_item e s p m (unpriced_service_item e s m')) =
    model_charge e (as_model_call s) mode (Some p) m (ledger_tokens (as_model_call s))
      (ledger_call_count (as_model_call s)) (ledger_duration (as_model_call s))"
proof -
  let ?u = "unpriced_service_item e s m'"
  obtain t f h where b: "normalize_cache_write_token_breakdown (su_CacheWrite s) (su_CacheWrite5m s) (su_CacheWrite1h s)
      (su_ProviderProtocol s) (su_CacheTimeout s) = (t, f, h)"
    by (metis prod_cases3)
  have u: "si_tokens ?u = ledger_tokens (as_model_call s)" "si_CallCount ?u = ledger_call_count (as_model_call s)"
      "si_bill ?u = no_bill"
    using assms(1-4) b
    by (simp_all add: unpriced_service_item_def ledger_tokens_def as_model_call_def ledger_call_count_def
        clamp_non_negative_def Let_def)
  have a: "ui_ServiceOnly (as_model_call s) = False" "ui_ProviderProtocol (as_model_call s) = su_ProviderProtocol s"
      "ui_CacheTimeout (as_model_call s) = su_CacheTimeout s"
    by (simp_all add: as_model_call_def)
  show ?thesis
    using assms(5-7) unfolding price_service_item_def model_charge_def Let_def
    by (cases "normalize_pricing_mode (mp_PricingMode p)")
       (auto simp: u a price_item_tokens_def Let_def pricing_token_rates_def tier_token_rates_def split: sum.splits)
qed

section \<open>Exactness\<close>

definition charge :: "int \<Rightarrow> int \<Rightarrow> int" where
  "charge tokens rate = (tokens * rate + 500000) div 1000000"

lemma calc_charge:
  assumes "0 \<le> n" "n \<le> 10000000" "0 \<le> q" "q \<le> 900000000000"
  shows "calc_nanousd_by_token n q = charge n q" "0 \<le> charge n q" "charge n q \<le> 9000000000001"
proof -
  have "n * q \<le> 10000000 * 900000000000" using assms by (intro mult_mono) auto
  moreover have "0 \<le> n * q" using assms by simp
  ultimately show "calc_nanousd_by_token n q = charge n q" "0 \<le> charge n q" "charge n q \<le> 9000000000001"
    using calc_exact assms unfolding fits_def charge_def int64_max_def by (simp, linarith, linarith)
qed

text \<open>
  C38: Below ten million tokens of each kind and 900 dollars per million tokens nothing overflows:
  the charge is the exact sum of the rounded charges, cache writes either at their own two
  rates or, when the split is not known, at the common one.
\<close>

theorem token_bill_exact:
  assumes "\<forall>n \<in> {tc_Input t, tc_CacheRead t, tc_CacheWrite t, tc_CacheWrite5m t, tc_CacheWrite1h t, tc_Output t,
      tc_Reasoning t, tc_Output t + tc_Reasoning t}. 0 \<le> n \<and> n \<le> 10000000"
    and "\<forall>q \<in> {tr_Input r, tr_CacheRead r, tr_CacheWrite r, tr_CacheWrite5m r, tr_CacheWrite1h r, tr_Output r}.
      0 \<le> q \<and> q \<le> 900000000000"
    and "tc_CacheWrite5m t + tc_CacheWrite1h t \<noteq> 0 \<longrightarrow> tc_CacheWrite t \<noteq> 0"
  shows "bill_total (token_bill t r) = charge (tc_Input t) (tr_Input r) + charge (tc_CacheRead t) (tr_CacheRead r) +
    (if tc_CacheWrite5m t + tc_CacheWrite1h t = 0 then charge (tc_CacheWrite t) (tr_CacheWrite r)
     else charge (tc_CacheWrite5m t) (tr_CacheWrite5m r) + charge (tc_CacheWrite1h t) (tr_CacheWrite1h r)) +
    charge (tc_Output t + tc_Reasoning t) (tr_Output r)"
proof -
  have w: "0 \<le> x \<Longrightarrow> x \<le> 100000000000000 \<Longrightarrow> wrap64 x = x" for x by (simp add: in_int64_def)
  note c = calc_charge [of "tc_Input t" "tr_Input r"] calc_charge [of "tc_CacheRead t" "tr_CacheRead r"]
    calc_charge [of "tc_CacheWrite t" "tr_CacheWrite r"] calc_charge [of "tc_CacheWrite5m t" "tr_CacheWrite5m r"]
    calc_charge [of "tc_CacheWrite1h t" "tr_CacheWrite1h r"]
    calc_charge [of "tc_Output t + tc_Reasoning t" "tr_Output r"]
  have o: "add64 (tc_Output t) (tc_Reasoning t) = tc_Output t + tc_Reasoning t"
    using assms(1) by (simp add: add64_def w)
  define cw where "cw = (if tc_CacheWrite5m t + tc_CacheWrite1h t = 0 then charge (tc_CacheWrite t) (tr_CacheWrite r)
     else charge (tc_CacheWrite5m t) (tr_CacheWrite5m r) + charge (tc_CacheWrite1h t) (tr_CacheWrite1h r))"
  have cwb: "0 \<le> cw" "cw \<le> 20000000000000" using assms(1,2) c by (auto simp: cw_def)
  have zero: "tc_CacheWrite t = 0 \<Longrightarrow> cw = 0"
    using assms(3) by (auto simp: cw_def charge_def)
  have cw: "calc_cache_write_billed_nanousd (tc_CacheWrite t) (tc_CacheWrite5m t) (tc_CacheWrite1h t)
      (tr_CacheWrite r) (tr_CacheWrite5m r) (tr_CacheWrite1h r) = cw"
  proof (cases "tc_CacheWrite t = 0")
    case True
    then show ?thesis using zero by (simp add: calc_cache_write_billed_nanousd_def)
  next
    case False
    then have "0 < tc_CacheWrite t" using assms(1) by simp
    moreover have "tc_CacheWrite5m t \<le> 0 \<and> tc_CacheWrite1h t \<le> 0 \<longleftrightarrow> tc_CacheWrite5m t + tc_CacheWrite1h t = 0"
      using assms(1) by auto
    ultimately show ?thesis
      using assms(1,2) c unfolding cw_def calc_cache_write_billed_nanousd_def by (simp add: add64_def w)
  qed
  show ?thesis
    using assms(1,2) c cwb unfolding cw_def [symmetric]
    by (simp add: bill_total_def token_bill_def no_bill_def o cw) (simp add: add64_def w)
qed

text \<open>
  The effective rate of a call is its configured rate times the speed or tier multiplier times
  the percentage of the caller's groups, rounded once to the nearest nano-dollar.
\<close>

theorem effective_rate_rounds_once:
  assumes "0 \<le> rate" "rate \<le> 1000000000000" "0 < percent" "percent \<le> 10000"
    and "m = resolve_usage_rate_multiplier protocol platformModel upstreamModel fast tier"
  shows "let num = Numerator m * percent; den = Denominator m * 100;
      x = apply_rate_multiplier rate (compose_group_rate_percent m percent)
    in 2 * rate * num - den \<le> 2 * den * x \<and> 2 * den * x \<le> 2 * rate * num + den"
proof -
  have m: "1 \<le> Numerator m" "Numerator m \<le> 6" "1 \<le> Denominator m" "Denominator m \<le> 2"
    unfolding assms(5) resolve_usage_rate_multiplier_def Let_def by auto
  have np: "Numerator m * percent \<le> 6 * 10000" "0 < Numerator m * percent"
    using mult_mono [of "Numerator m" 6 percent 10000] m(1,2) assms(3,4) by simp_all
  have rn: "rate * (Numerator m * percent) \<le> 1000000000000 * (6 * 10000)"
    using mult_mono [of rate 1000000000000 "Numerator m * percent" "6 * 10000"] assms(1,2) np by simp
  have w: "0 \<le> x \<Longrightarrow> x \<le> 9000000000000000000 \<Longrightarrow> wrap64 x = x" for x by (simp add: in_int64_def)
  have eff: "apply_rate_multiplier rate \<lparr>Numerator = a, Denominator = b\<rparr> =
      (if a = b then rate else (rate * a + b div 2) div b)"
    if "0 < a" "1 \<le> b" "b \<le> 200" "rate * a \<le> 1000000000000 * (6 * 10000)" for a b
  proof (cases "rate = 0")
    case True
    then show ?thesis using that by (simp add: apply_rate_multiplier_def zdiv_eq_0_iff)
  next
    case False
    have h: "div64 b 2 = b div 2" using that by (simp add: div64_pos in_int64_def)
    have nn: "0 \<le> rate * a" using assms(1) that(1) by simp
    then have "in_int64 (rate * a + b div 2)" "0 \<le> rate * a + b div 2"
      using that by (auto simp: in_int64_def)
    then have "div64 (rate * a + b div 2) b = (rate * a + b div 2) div b"
      using that by (simp add: div64_pos)
    moreover have "wrap64 (rate * a + b div 2) = rate * a + b div 2" using \<open>in_int64 (rate * a + b div 2)\<close> by simp
    ultimately show ?thesis
      using False assms(1) that h nn
      by (simp add: apply_rate_multiplier_def normalize_billing_rate_multiplier_def Let_def mul64_def add64_def w
          div64_pos in_int64_def)
  qed
  have round: "2 * rate * a - b \<le> 2 * b * x \<and> 2 * b * x \<le> 2 * rate * a + b"
    if "0 < b" "x = (if a = b then rate else (rate * a + b div 2) div b)" for a b x :: int
  proof (cases "a = b")
    case False
    define k where "k = (rate * a + b div 2) mod b"
    have "x * b = rate * a + b div 2 - k"
      using False that by (simp add: k_def minus_mod_eq_div_mult)
    moreover have "0 \<le> k" "k < b" using that(1) by (simp_all add: k_def)
    moreover have "2 * b * x = 2 * (x * b)" "2 * rate * a = 2 * (rate * a)" by simp_all
    ultimately show ?thesis by linarith
  qed (use that in simp)
  show ?thesis
  proof (cases "percent = 100")
    case True
    have mm: "m = \<lparr>Numerator = Numerator m, Denominator = Denominator m\<rparr>" by simp
    have "rate * Numerator m \<le> 1000000000000 * (6 * 10000)"
      using rn True assms(1) m(1) by (simp add: algebra_simps)
    then have x: "apply_rate_multiplier rate m =
        (if Numerator m = Denominator m then rate else (rate * Numerator m + Denominator m div 2) div Denominator m)"
      using eff [of "Numerator m" "Denominator m"] m mm by simp
    from round [OF _ x] m True show ?thesis
      by (simp add: compose_group_rate_percent_def Let_def algebra_simps)
  next
    case False
    have "compose_group_rate_percent m percent = \<lparr>Numerator = Numerator m * percent, Denominator = Denominator m * 100\<rparr>"
      using False assms(3) m np
      by (simp add: compose_group_rate_percent_def normalize_billing_rate_multiplier_def mul64_def Let_def w)
    then show ?thesis
      using round [OF _ eff [of "Numerator m * percent" "Denominator m * 100"]] m np rn by (simp add: Let_def)
  qed
qed

section \<open>Witnesses\<close>

definition sample_price :: "bool \<Rightarrow> string \<Rightarrow> model_pricing" where
  "sample_price free mode = \<lparr>mp_PlatformModelName = ''m'', mp_Currency = ''USD'', mp_IsFree = free,
     mp_PricingMode = mode, mp_Input = 2000000000, mp_CacheRead = 100000000, mp_CacheWrite = 1000000000,
     mp_Output = 8000000000, mp_Call = 5000000, mp_Duration = 7000000, mp_TieredPricingJSON = []\<rparr>"

definition sample_pricing_env :: "string \<Rightarrow> model_pricing \<Rightarrow> pricing_env" where
  "sample_pricing_env mode p = \<lparr>pe_identity = None, pe_billingMode = Inr mode,
     pe_subscriptionGroup = (\<lambda>u. Inr None), pe_groupRate = None, pe_pricing = (\<lambda>n. Inr p),
     pe_jsonTiers = (\<lambda>s. Inl BillInvalidInput), pe_nativeCatalog = Inr True, pe_nativePrice = (\<lambda>a b. None),
     pe_fmul = (*), pe_fdiv = (\<lambda>a b. of_int a / of_int b), pe_toInt64 = floor, pe_dayStart = (\<lambda>t. t), pe_now = 9\<rparr>"

definition sample_service :: service_usage_input where
  "sample_service = \<lparr>su_ServiceCode = ''a'', su_ServiceName = [], su_PlatformModelName = ''m'', su_UpstreamModelName = ''m'',
     su_ProviderProtocol = ''p'', su_CacheTimeout = [], su_RequestSpeed = [], su_UsageSpeed = [],
     su_RequestServiceTier = [], su_UsageServiceTier = [], su_Input = 1000, su_CacheRead = 0, su_CacheWrite = 0,
     su_CacheWrite5m = 0, su_CacheWrite1h = 0, su_Output = 500, su_Reasoning = 0, su_CallCount = 1\<rparr>"

definition sample_call :: usage_pricing_input where
  "sample_call = (as_model_call sample_service)\<lparr>ui_MCPToolUsage :=
     [\<lparr>mcp_ServerName = [], mcp_ToolName = ''t'', mcp_CallCount = 2, mcp_PriceNanousd = 30\<rparr>]\<rparr>"

definition built :: "string \<Rightarrow> model_pricing \<Rightarrow> billing_error + usage_ledger \<times> usage_service_item list" where
  "built mode p = build_usage_ledger (sample_pricing_env mode p) sample_call"

lemma sample_built:
  "case built ''usage'' (sample_price False ''token'') of Inl _ \<Rightarrow> False | Inr (l, items) \<Rightarrow> ul_BilledNanousd l = 6000060"
  by code_simp

lemma sample_built2:
  "case built ''self'' (sample_price False ''token'') of Inl _ \<Rightarrow> False | Inr (l, items) \<Rightarrow> ul_BilledNanousd l = 0"
  "case built ''usage'' (sample_price True ''token'') of Inl _ \<Rightarrow> False | Inr (l, items) \<Rightarrow> ul_BilledNanousd l = 60"
  by code_simp+

lemma sample_item:
  "case build_usage_service_item (sample_pricing_env ''usage'' (sample_price False ''duration''))
      ''usage'' 0 None sample_service of Inl _ \<Rightarrow> False | Inr item \<Rightarrow> si_PricingMode item = PriceDuration"
  by code_simp

theorem ledger_amount_is_sum_witness:
  "\<exists>l items. built ''usage'' (sample_price False ''token'') = Inr (l, items) \<and>
     (\<exists>b. ul_BilledNanousd l = wrap64 (bill_total b + sum_list (map si_BilledNanousd items)))"
  using sample_built ledger_amount_is_sum [of "sample_pricing_env ''usage'' (sample_price False ''token'')" sample_call]
  by (auto simp: built_def split: sum.splits)

theorem self_mode_bills_nothing_witness:
  "\<exists>l items. built ''self'' (sample_price False ''token'') = Inr (l, items) \<and> (\<forall>item \<in> set items. si_BilledNanousd item = 0)"
proof -
  have "billing_mode_of (sample_pricing_env ''self'' p) sample_call = Inr ''self''" for p
    by (simp add: billing_mode_of_def sample_call_def as_model_call_def sample_pricing_env_def)
  then show ?thesis
    using sample_built2(1) self_mode_bills_nothing [of "sample_pricing_env ''self'' (sample_price False ''token'')" sample_call]
    by (auto simp: built_def split: sum.splits)
qed

theorem free_model_bills_services_only_witness:
  "\<exists>l items. built ''usage'' (sample_price True ''token'') = Inr (l, items) \<and> ul_BilledNanousd l = 60 \<and> \<not> ul_IsFreeModel l"
proof -
  let ?e = "sample_pricing_env ''usage'' (sample_price True ''token'')"
  have "pe_pricing ?e n = Inr (sample_price True ''token'')" "mp_IsFree (sample_price True ''token'')" for n
    by (simp_all add: sample_pricing_env_def sample_price_def)
  then show ?thesis
    using sample_built2(2) free_model_bills_services_only [of ?e sample_call]
    by (auto simp: built_def split: sum.splits)
qed

theorem entry_needs_price_witness:
  "\<exists>p. pe_pricing (sample_pricing_env ''usage'' (sample_price False ''token'')) (trim_space (ui_PlatformModelName sample_call)) = Inr p"
proof -
  let ?e = "sample_pricing_env ''usage'' (sample_price False ''token'')"
  have "billing_mode_of ?e sample_call \<noteq> Inr ''self''" "\<not> ui_ServiceOnly sample_call"
    by (simp_all add: billing_mode_of_def sample_call_def as_model_call_def sample_pricing_env_def)
  then show ?thesis
    using sample_built entry_needs_price [of ?e sample_call] by (auto simp: built_def split: sum.splits)
qed

theorem duration_service_item_bills_nothing_witness:
  "\<exists>item. build_usage_service_item (sample_pricing_env ''usage'' (sample_price False ''duration''))
     ''usage'' 0 None sample_service = Inr item \<and> si_BilledNanousd item = 0"
  using sample_item duration_service_item_bills_nothing
    [of "sample_pricing_env ''usage'' (sample_price False ''duration'')" "''usage''" 0 None sample_service]
  by (auto split: sum.splits)

theorem service_and_call_charges_agree_witness:
  "let e = sample_pricing_env ''usage'' (sample_price False ''token'');
       m = \<lparr>Numerator = 1, Denominator = 1\<rparr>; j = as_model_call sample_service
   in map_sum id si_bill (price_service_item e sample_service (sample_price False ''token'') m
        (unpriced_service_item e sample_service m)) =
      model_charge e j ''usage'' (Some (sample_price False ''token'')) m (ledger_tokens j) (ledger_call_count j)
        (ledger_duration j)"
proof -
  have mode: "normalize_pricing_mode ''token'' \<noteq> PriceDuration" by code_simp
  show ?thesis unfolding Let_def
    by (rule service_and_call_charges_agree) (use mode in \<open>simp_all add: sample_service_def sample_price_def\<close>)
qed

theorem token_bill_exact_witness:
  "bill_total (token_bill (ledger_tokens sample_call) (pricing_token_rates ''p'' [] (sample_price False ''token''))) = 6000000"
proof -
  have t: "ledger_tokens sample_call = \<lparr>tc_Input = 1000, tc_CacheRead = 0, tc_CacheWrite = 0, tc_CacheWrite5m = 0,
      tc_CacheWrite1h = 0, tc_Output = 500, tc_Reasoning = 0\<rparr>" by code_simp
  have r: "pricing_token_rates ''p'' [] (sample_price False ''token'') = \<lparr>tr_Input = 2000000000, tr_CacheRead = 100000000,
      tr_CacheWrite = 1000000000, tr_CacheWrite5m = 1000000000, tr_CacheWrite1h = 1000000000, tr_Output = 8000000000\<rparr>"
    by code_simp
  show ?thesis unfolding t r by (subst token_bill_exact) (simp_all add: charge_def)
qed

theorem effective_rate_rounds_once_witness:
  "let m = resolve_usage_rate_multiplier ''openai_responses'' ''gpt-5.5'' [] False ''priority''
   in 2 * 2000000001 * (Numerator m * 150) - Denominator m * 100 \<le>
      2 * (Denominator m * 100) * apply_rate_multiplier 2000000001 (compose_group_rate_percent m 150)"
  using effective_rate_rounds_once [of 2000000001 150] by (simp add: Let_def)

end
