(* ===== verification/Gen_Stream.thy ===== *)
theory Gen_Stream
  imports Memory_Cache
begin

text \<open>
  The resumable generation streams of the in-memory cache
  (\<^verbatim>\<open>infra/cache/memory/generation_stream.go\<close>): ownership, the active and cancel flags, the
  bounded event log with its text snapshot, and the blocking reader.

  A blocking read is a sequence of attempts, one per wake-up: \<open>read_attempt\<close> is what one pass
  through the loop does under the mutex, and its \<open>Wait\<close> outcomes name the channel (as its
  generation) the reader then selects on.
\<close>

section \<open>Streams by run\<close>

definition new_stream :: generation_stream where
  "new_stream = \<lparr>gs_ownerID = 0, gs_conversationID = [], gs_ownerExpiresAt = zero_time,
     gs_activeExpiresAt = zero_time, gs_cancelExpiresAt = zero_time,
     gs_eventsExpiresAt = zero_time, gs_seq = 0, gs_events = [], gs_textContent = [],
     gs_textSeq = 0, gs_notify = 0\<rparr>"

definition find_stream :: "string \<Rightarrow> cache \<Rightarrow> generation_stream option" where
  "find_stream runID c = streams c (trim_space runID)"

definition ensure_stream :: "string \<Rightarrow> cache \<Rightarrow> generation_stream" where
  "ensure_stream runID c = (case find_stream runID c of None \<Rightarrow> new_stream | Some s \<Rightarrow> s)"

definition put_stream :: "string \<Rightarrow> generation_stream \<Rightarrow> cache \<Rightarrow> cache" where
  "put_stream runID s c = c\<lparr>streams := (streams c)(trim_space runID \<mapsto> s)\<rparr>"

definition notify_stream :: "generation_stream \<Rightarrow> generation_stream" where
  "notify_stream s = s\<lparr>gs_notify := gs_notify s + 1\<rparr>"

definition notify_generation_streams :: "cache \<Rightarrow> cache" where
  "notify_generation_streams c = c\<lparr>streamNotify := streamNotify c + 1\<rparr>"

section \<open>Owner, active and cancel flags\<close>

definition register_generation_stream ::
    "gtime \<Rightarrow> gtime \<Rightarrow> string \<Rightarrow> nat \<Rightarrow> string \<Rightarrow> duration \<Rightarrow> cache \<Rightarrow> cache" where
  "register_generation_stream t1 t2 runID userID conversationPublicID ttl c =
     maybe_sweep t2 (put_stream runID ((ensure_stream runID c)\<lparr>gs_ownerID := userID,
       gs_conversationID := trim_space conversationPublicID,
       gs_ownerExpiresAt := ttl_from t1 ttl, gs_cancelExpiresAt := zero_time\<rparr>) c)"

definition get_generation_stream_owner :: "gtime \<Rightarrow> string \<Rightarrow> cache \<Rightarrow> nat option" where
  "get_generation_stream_owner now runID c =
     (case find_stream runID c of None \<Rightarrow> None
      | Some s \<Rightarrow> if gs_ownerID s = 0 \<or> owner_expired s now then None else Some (gs_ownerID s))"

definition touch_generation_stream_active ::
    "gtime \<Rightarrow> gtime \<Rightarrow> string \<Rightarrow> nat \<Rightarrow> duration \<Rightarrow> cache \<Rightarrow> cache" where
  "touch_generation_stream_active t1 t2 runID userID ttl c =
     (let s = ensure_stream runID c
      in if gs_ownerID s \<noteq> userID then put_stream runID s c
         else maybe_sweep t2 (put_stream runID (s\<lparr>gs_activeExpiresAt := ttl_from t1 ttl\<rparr>) c))"

definition clear_generation_stream_active :: "string \<Rightarrow> nat \<Rightarrow> cache \<Rightarrow> cache" where
  "clear_generation_stream_active runID userID c =
     (case find_stream runID c of None \<Rightarrow> c
      | Some s \<Rightarrow> if gs_ownerID s = userID then put_stream runID (s\<lparr>gs_activeExpiresAt := zero_time\<rparr>) c
                  else c)"

text \<open>Go's map iteration order is the argument \<open>order\<close>, any enumeration of the keys.\<close>

definition list_active_generation_streams ::
    "gtime \<Rightarrow> nat \<Rightarrow> string list \<Rightarrow> cache \<Rightarrow> cache \<times> (string \<times> string) list" where
  "list_active_generation_streams now userID order c =
     (let c' = maybe_sweep now c
      in (c', List.map_filter (\<lambda>runID. case streams c' runID of None \<Rightarrow> None
            | Some s \<Rightarrow> if gs_ownerID s \<noteq> userID \<or> active_expired s now
                  \<or> trim_space (gs_conversationID s) = [] then None
                else Some (runID, gs_conversationID s)) order))"

definition is_generation_stream_active :: "gtime \<Rightarrow> string \<Rightarrow> cache \<Rightarrow> bool" where
  "is_generation_stream_active now runID c =
     (case find_stream runID c of None \<Rightarrow> False | Some s \<Rightarrow> \<not> active_expired s now)"

definition request_generation_stream_cancel ::
    "gtime \<Rightarrow> gtime \<Rightarrow> string \<Rightarrow> duration \<Rightarrow> cache \<Rightarrow> cache" where
  "request_generation_stream_cancel t1 t2 runID ttl c =
     maybe_sweep t2 (put_stream runID
       (notify_stream ((ensure_stream runID c)\<lparr>gs_cancelExpiresAt := ttl_from t1 ttl\<rparr>)) c)"

definition is_generation_stream_canceled :: "gtime \<Rightarrow> string \<Rightarrow> cache \<Rightarrow> bool" where
  "is_generation_stream_canceled now runID c =
     (case find_stream runID c of None \<Rightarrow> False | Some s \<Rightarrow> \<not> cancel_expired s now)"

section \<open>The event log\<close>

record stream_append =
  sa_PayloadJSON :: string
  sa_TextDelta :: string

definition append_stream_event :: "stream_append \<Rightarrow> int \<Rightarrow> generation_stream \<Rightarrow> generation_stream \<times> stream_message" where
  "append_stream_event input maxEvents s =
     (let seq = wrap64 (gs_seq s + 1);
          rec = \<lparr>sm_ID = dec_int seq, sm_Seq = seq,
                 sm_PayloadJSON = sa_PayloadJSON input\<rparr>;
          events = gs_events s @ [rec];
          maxEvents = (if maxEvents \<le> 0 then 1024 else maxEvents);
          excess = int (length events) - maxEvents;
          kept = (if excess > 0 then drop (nat excess) events else events)
      in (if sa_TextDelta input \<noteq> []
          then s\<lparr>gs_seq := seq, gs_events := kept,
                 gs_textContent := gs_textContent s @ sa_TextDelta input, gs_textSeq := seq\<rparr>
          else s\<lparr>gs_seq := seq, gs_events := kept\<rparr>, rec))"

definition append_generation_stream_event ::
    "gtime \<Rightarrow> gtime \<Rightarrow> string \<Rightarrow> stream_append \<Rightarrow> int \<Rightarrow> duration \<Rightarrow> cache \<Rightarrow> cache \<times> stream_message" where
  "append_generation_stream_event t1 t2 runID input maxEvents ttl c =
     (let (s, rec) = append_stream_event input maxEvents (ensure_stream runID c)
      in (maybe_sweep t2 (notify_generation_streams (put_stream runID
            (notify_stream (s\<lparr>gs_eventsExpiresAt := ttl_from t1 ttl\<rparr>)) c)), rec))"

definition get_generation_stream_text_snapshot :: "gtime \<Rightarrow> string \<Rightarrow> cache \<Rightarrow> (int \<times> string) option" where
  "get_generation_stream_text_snapshot now runID c =
     (case find_stream runID c of None \<Rightarrow> None
      | Some s \<Rightarrow> if events_expired s now \<or> gs_textSeq s \<le> 0 then None
                  else Some (gs_textSeq s, gs_textContent s))"

definition list_generation_stream_events :: "gtime \<Rightarrow> string \<Rightarrow> int \<Rightarrow> cache \<Rightarrow> stream_message list" where
  "list_generation_stream_events now runID limit c =
     (case find_stream runID c of None \<Rightarrow> []
      | Some s \<Rightarrow>
          if events_expired s now then []
          else if limit \<le> 0 \<or> limit \<ge> int (length (gs_events s)) then gs_events s
          else drop (length (gs_events s) - nat limit) (gs_events s))"

text \<open>The loop of \<^verbatim>\<open>generationEventsAfter\<close>; \<open>taken\<close> is the number of results so far.\<close>

fun generation_events_after :: "int \<Rightarrow> int \<Rightarrow> int \<Rightarrow> stream_message list \<Rightarrow> stream_message list" where
  "generation_events_after afterSeq limit taken [] = []"
| "generation_events_after afterSeq limit taken (item # rest) =
     (if sm_Seq item \<le> afterSeq then generation_events_after afterSeq limit taken rest
      else if limit > 0 \<and> taken + 1 \<ge> limit then [item]
      else item # generation_events_after afterSeq limit (taken + 1) rest)"

datatype read_outcome = Records "stream_message list" | WaitAny nat | WaitStream nat

definition read_attempt :: "gtime \<Rightarrow> string \<Rightarrow> int \<Rightarrow> int \<Rightarrow> cache \<Rightarrow> read_outcome" where
  "read_attempt now runID afterSeq limit c =
     (case find_stream runID c of None \<Rightarrow> WaitAny (streamNotify c)
      | Some s \<Rightarrow>
          if events_expired s now then WaitAny (streamNotify c)
          else
            let records = generation_events_after afterSeq limit 0 (gs_events s)
            in if records \<noteq> [] then Records records else WaitStream (gs_notify s))"

definition parse_stream_id :: "string \<Rightarrow> int" where
  "parse_stream_id raw =
     (let value = trim_space raw
      in if value = [] \<or> value = ''0-0'' then 0
         else parse_int64 (takeWhile (\<lambda>ch. ch \<noteq> CHR ''-'') value))"

text \<open>
  The whole blocking read: the attempts it makes, each at the time and on the state of the cache
  it sees when it holds the mutex; the list ends when the deadline or the context ends the wait.
\<close>

fun read_generation_stream_events ::
    "string \<Rightarrow> string \<Rightarrow> int \<Rightarrow> (gtime \<times> cache) list \<Rightarrow> stream_message list" where
  "read_generation_stream_events runID afterID limit [] = []"
| "read_generation_stream_events runID afterID limit ((now, c) # wakeups) =
     (case read_attempt now runID (parse_stream_id afterID) limit c of
        Records records \<Rightarrow> records
      | WaitAny _ \<Rightarrow> read_generation_stream_events runID afterID limit wakeups
      | WaitStream _ \<Rightarrow> read_generation_stream_events runID afterID limit wakeups)"

definition reset_generation_stream_events :: "string \<Rightarrow> cache \<Rightarrow> cache" where
  "reset_generation_stream_events runID c =
     (case find_stream runID c of None \<Rightarrow> c
      | Some s \<Rightarrow> put_stream runID (notify_stream
          (s\<lparr>gs_events := [], gs_textContent := [], gs_textSeq := 0\<rparr>)) c)"

definition expire_generation_stream ::
    "gtime \<Rightarrow> gtime \<Rightarrow> gtime \<Rightarrow> gtime \<Rightarrow> gtime \<Rightarrow> string \<Rightarrow> duration \<Rightarrow> cache \<Rightarrow> cache" where
  "expire_generation_stream now t1 t2 t3 t4 runID ttl c =
     (case find_stream runID c of None \<Rightarrow> c
      | Some s \<Rightarrow>
          let s1 = s\<lparr>gs_eventsExpiresAt := ttl_from t1 ttl, gs_ownerExpiresAt := ttl_from t2 ttl\<rparr>;
              s2 = (if \<not> cancel_expired s1 now then s1\<lparr>gs_cancelExpiresAt := ttl_from t3 ttl\<rparr> else s1)
          in maybe_sweep t4 (put_stream runID (notify_stream s2) c))"

section \<open>The log against its specification\<close>

text \<open>
  The specification of a stream never forgets: it numbers the appended inputs consecutively and
  keeps them all until a reset, which keeps the numbering. The implementation keeps the last
  \<open>M\<close> events and the accumulated text.
\<close>

datatype stream_op = Append stream_append | Reset

fun spec_ops :: "stream_op list \<Rightarrow> nat \<times> (nat \<times> stream_append) list \<Rightarrow> nat \<times> (nat \<times> stream_append) list" where
  "spec_ops [] st = st"
| "spec_ops (Append a # rest) (n, l) = spec_ops rest (Suc n, l @ [(Suc n, a)])"
| "spec_ops (Reset # rest) (n, l) = spec_ops rest (n, [])"

definition reset_stream :: "generation_stream \<Rightarrow> generation_stream" where
  "reset_stream s = s\<lparr>gs_events := [], gs_textContent := [], gs_textSeq := 0\<rparr>"

fun run_stream_ops :: "int \<Rightarrow> stream_op list \<Rightarrow> generation_stream \<Rightarrow> generation_stream" where
  "run_stream_ops M [] s = s"
| "run_stream_ops M (Append a # rest) s = run_stream_ops M rest (fst (append_stream_event a M s))"
| "run_stream_ops M (Reset # rest) s = run_stream_ops M rest (reset_stream s)"

definition record_of :: "nat \<times> stream_append \<Rightarrow> stream_message" where
  "record_of = (\<lambda>(n, a). \<lparr>sm_ID = dec n, sm_Seq = int n, sm_PayloadJSON = sa_PayloadJSON a\<rparr>)"

definition text_of :: "(nat \<times> stream_append) list \<Rightarrow> string" where
  "text_of l = concat (map (sa_TextDelta \<circ> snd) l)"

definition text_seq_of :: "(nat \<times> stream_append) list \<Rightarrow> nat" where
  "text_seq_of l = foldl (\<lambda>m (n, a). if sa_TextDelta a \<noteq> [] then n else m) 0 l"

definition stream_rel :: "nat \<Rightarrow> nat \<times> (nat \<times> stream_append) list \<Rightarrow> generation_stream \<Rightarrow> bool" where
  "stream_rel M = (\<lambda>(n, l) s. gs_seq s = int n \<and>
     gs_events s = drop (length l - M) (map record_of l) \<and>
     gs_textContent s = text_of l \<and> gs_textSeq s = int (text_seq_of l))"

lemma stream_rel_append:
  assumes rel: "stream_rel M (n, l) s" and M: "0 < M" and n: "int n < int64_max"
  shows "stream_rel M (Suc n, l @ [(Suc n, a)]) (fst (append_stream_event a (int M) s))
    \<and> snd (append_stream_event a (int M) s) = record_of (Suc n, a)"
proof -
  have seq: "wrap64 (gs_seq s + 1) = int (Suc n)"
    using rel n by (simp add: stream_rel_def in_int64_def ac_simps)
  let ?rec = "record_of (Suc n, a)"
  have kept: "int M < 1 + (int (length l) - int (length l - M)) \<Longrightarrow> Suc (length l - M) = Suc (length l) - M"
    "\<not> int M < 1 + (int (length l) - int (length l - M)) \<Longrightarrow> length l - M = 0 \<and> Suc (length l) - M = 0"
    using M by linarith+
  have rec: "?rec = \<lparr>sm_ID = dec_int (int (Suc n)), sm_Seq = int (Suc n), sm_PayloadJSON = sa_PayloadJSON a\<rparr>"
    by (simp add: record_of_def dec_int_def nat_add_distrib)
  show ?thesis
    using kept rel M unfolding append_stream_event_def Let_def seq rec [symmetric]
    by (simp add: stream_rel_def text_of_def text_seq_of_def)
qed

lemma stream_rel_reset: "stream_rel M (n, l) s \<Longrightarrow> stream_rel M (n, []) (reset_stream s)"
  by (simp add: stream_rel_def reset_stream_def text_of_def text_seq_of_def)

lemma stream_rel_new: "stream_rel M (0, []) new_stream"
  by (simp add: stream_rel_def new_stream_def text_of_def text_seq_of_def)

lemma stream_rel_ops:
  "stream_rel M st s \<Longrightarrow> 0 < M \<Longrightarrow> int (fst st + length acts) \<le> int64_max \<Longrightarrow>
     stream_rel M (spec_ops acts st) (run_stream_ops (int M) acts s)"
proof (induction acts st arbitrary: s rule: spec_ops.induct)
  case (2 a rest n l)
  then show ?case using stream_rel_append [of M n l s a] by simp
next
  case (3 rest n l)
  then show ?case using stream_rel_reset [of M n l s] by simp
qed simp

lemma spec_ops_numbered:
  "map fst l = [Suc n - length l..<Suc n] \<Longrightarrow> length l \<le> n \<Longrightarrow> spec_ops acts (n, l) = (n', l') \<Longrightarrow>
     map fst l' = [Suc n' - length l'..<Suc n'] \<and> length l' \<le> n'"
proof (induction acts "(n, l)" arbitrary: n l rule: spec_ops.induct)
  case (2 a rest n l)
  have "map fst (l @ [(Suc n, a)]) = [Suc (Suc n) - length (l @ [(Suc n, a)])..<Suc (Suc n)]"
    using 2(2,3) by simp
  with 2 show ?case by simp
qed auto

lemma text_seq_of_snoc:
  "text_seq_of (l @ [x]) = (if sa_TextDelta (snd x) \<noteq> [] then fst x else text_seq_of l)"
  by (simp add: text_seq_of_def split_beta)

lemma text_up_to_seq:
  assumes "sorted_wrt (<) (map fst l)"
  shows "(\<forall>(n, a) \<in> set l. text_seq_of l < n \<longrightarrow> sa_TextDelta a = []) \<and>
         text_of l = text_of (filter (\<lambda>(n, a). n \<le> text_seq_of l) l)"
  using assms
proof (induction l rule: rev_induct)
  case (snoc x l)
  then have IH: "\<forall>(n, a) \<in> set l. text_seq_of l < n \<longrightarrow> sa_TextDelta a = []"
      "text_of l = text_of (filter (\<lambda>(n, a). n \<le> text_seq_of l) l)"
    and lt: "\<forall>(n, a) \<in> set l. n < fst x"
    by (auto simp: sorted_wrt_append)
  show ?case
  proof (cases "sa_TextDelta (snd x) = []")
    case True
    then show ?thesis using IH by (cases x) (auto simp: text_seq_of_snoc text_of_def)
  next
    case False
    have "filter (\<lambda>(n, a). n \<le> fst x) l = l" using lt by (auto simp: filter_id_conv)
    then show ?thesis using False lt by (cases x) (auto simp: text_seq_of_snoc text_of_def)
  qed
qed (simp add: text_of_def)

section \<open>Reading by cursor\<close>

lemma generation_events_after_take:
  "taken < limit \<or> limit \<le> 0 \<Longrightarrow> generation_events_after a limit taken l =
     (let new = filter (\<lambda>m. sm_Seq m > a) l
      in if limit \<le> 0 then new else take (nat (limit - taken)) new)"
proof (induction l arbitrary: taken)
  case (Cons m l)
  have "limit - taken = 1 + (limit - (taken + 1))" by simp
  then have "nat (limit - taken) = Suc (nat (limit - (taken + 1)))" if "taken < limit"
    using that by (simp add: nat_eq_iff)
  with Cons show ?case by (auto simp: Let_def not_less take_Cons')
qed simp

definition page_after :: "int \<Rightarrow> int \<Rightarrow> stream_message list \<Rightarrow> stream_message list" where
  "page_after a limit l = generation_events_after a limit 0 l"

lemma page_after_eq:
  "page_after a limit l = (let new = filter (\<lambda>m. sm_Seq m > a) l in if limit \<le> 0 then new else take (nat limit) new)"
  using generation_events_after_take [of 0 limit a l] by (simp add: page_after_def Let_def)

fun read_pages :: "nat \<Rightarrow> int \<Rightarrow> int \<Rightarrow> stream_message list \<Rightarrow> stream_message list" where
  "read_pages 0 limit a l = []"
| "read_pages (Suc fuel) limit a l =
     (let page = page_after a limit l
      in if page = [] then [] else page @ read_pages fuel limit (sm_Seq (last page)) l)"

lemma filter_after_last:
  assumes "sorted_wrt (<) (map sm_Seq (p @ q))" "p \<noteq> []"
  shows "filter (\<lambda>m. sm_Seq m > sm_Seq (last p)) (p @ q) = q"
proof -
  obtain p' x where p: "p = p' @ [x]" using assms(2) by (cases p rule: rev_cases) auto
  have "\<forall>m \<in> set p. \<not> sm_Seq m > sm_Seq x" "\<forall>m \<in> set q. sm_Seq m > sm_Seq x"
    using assms(1) unfolding p by (auto simp: sorted_wrt_append)
  then show ?thesis by (simp add: p filter_id_conv filter_empty_conv)
qed

lemma filter_after_page:
  assumes "sorted_wrt (<) (map sm_Seq l)" "filter (\<lambda>m. sm_Seq m > a) l = p @ q" "p \<noteq> []"
  shows "filter (\<lambda>m. sm_Seq m > sm_Seq (last p)) l = q"
proof -
  have "sorted_wrt (<) (map sm_Seq (p @ q))"
    unfolding assms(2) [symmetric] using assms(1) by (simp add: sorted_wrt_map sorted_wrt_filter)
  moreover have "last p \<in> set (filter (\<lambda>m. sm_Seq m > a) l)" unfolding assms(2) using assms(3) by simp
  then have "filter (\<lambda>m. sm_Seq m > sm_Seq (last p)) l
      = filter (\<lambda>m. sm_Seq m > sm_Seq (last p)) (filter (\<lambda>m. sm_Seq m > a) l)"
    unfolding filter_filter by (intro filter_cong) auto
  ultimately show ?thesis
    using filter_after_last [OF _ assms(3), of q] unfolding assms(2) by simp
qed

lemma read_pages_filter:
  assumes "sorted_wrt (<) (map sm_Seq l)"
  shows "length (filter (\<lambda>m. sm_Seq m > a) l) < fuel \<Longrightarrow>
     read_pages fuel limit a l = filter (\<lambda>m. sm_Seq m > a) l"
proof (induction fuel arbitrary: a)
  case (Suc fuel)
  let ?new = "filter (\<lambda>m. sm_Seq m > a) l"
  let ?p = "page_after a limit l"
  obtain q where q: "?new = ?p @ q"
    unfolding page_after_eq Let_def by (metis append_Nil2 append_take_drop_id)
  show ?case
  proof (cases "?p = []")
    case True
    then have "?new = []" unfolding page_after_eq Let_def by (auto split: if_splits)
    with True show ?thesis by simp
  next
    case False
    have rest: "filter (\<lambda>m. sm_Seq m > sm_Seq (last ?p)) l = q"
      using filter_after_page [OF assms q False] .
    have "length q < fuel" using Suc.prems False unfolding q by (cases ?p) auto
    with Suc.IH [of "sm_Seq (last ?p)"] rest False q show ?thesis by (simp add: Let_def)
  qed
qed simp

section \<open>Identifiers of events\<close>

lemma strip_one_not_prefix: "(\<And>p. p \<in> set ps \<Longrightarrow> p \<noteq> [] \<and> hd p \<noteq> c) \<Longrightarrow> strip_one ps (c # s) = None"
  by (force simp: strip_one_None prefix_Cons)

lemma spaces_not_digit:
  "\<forall>p \<in> set go_spaces. p \<noteq> [] \<and> \<not> is_digit (hd p) \<and> \<not> is_digit (last p)"
  by (simp add: go_spaces_def is_digit_def)

lemma trim_space_digits:
  assumes "list_all is_digit s"
  shows "trim_space s = s"
proof -
  have unchanged: "trim_with ps t = t" if "list_all is_digit t" "\<forall>p \<in> set ps. p \<noteq> [] \<and> \<not> is_digit (hd p)" for ps t
  proof (rule trim_with_fixed, cases t)
    case (Cons c r)
    then show "strip_one ps t = None" using that by (auto intro!: strip_one_not_prefix)
  next
    case Nil
    then show "strip_one ps t = None" using that by (auto simp: strip_one_None)
  qed
  have "trim_left s = s"
    unfolding trim_left_def using spaces_not_digit assms by (intro unchanged) auto
  moreover have "trim_right s = s"
    unfolding trim_right_def using spaces_not_digit assms
    by (subst unchanged) (auto simp: hd_rev list_all_iff)
  ultimately show ?thesis by (simp add: trim_space_def)
qed

lemma takeWhile_digits: "list_all is_digit s \<Longrightarrow> takeWhile (\<lambda>ch. ch \<noteq> CHR ''-'') s = s"
  using digit_not_special by (auto simp: takeWhile_eq_all_conv list_all_iff)

text \<open>
  The identifier of an event is a cursor for it: parsing it back gives the event's sequence
  number.
\<close>

theorem stream_id_roundtrip:
  assumes "int n \<le> int64_max"
  shows "parse_stream_id (sm_ID (record_of (n, a))) = sm_Seq (record_of (n, a))"
proof -
  have "dec n \<noteq> ''0-0''" using dec_digits [of n] by (auto simp: is_digit_def)
  then show ?thesis
    using assms dec_digits [of n]
    by (simp add: record_of_def parse_stream_id_def trim_space_digits takeWhile_digits parse_int64_dec)
qed

section \<open>Readers and sweeps\<close>

definition stream_view ::
    "gtime \<Rightarrow> generation_stream option \<Rightarrow> nat option \<times> bool \<times> bool \<times> (int \<times> string) option \<times> stream_message list" where
  "stream_view t st = (case st of None \<Rightarrow> (None, False, False, None, [])
     | Some s \<Rightarrow> (if gs_ownerID s = 0 \<or> owner_expired s t then None else Some (gs_ownerID s),
         \<not> active_expired s t, \<not> cancel_expired s t,
         if events_expired s t \<or> gs_textSeq s \<le> 0 then None else Some (gs_textSeq s, gs_textContent s),
         if events_expired s t then [] else gs_events s))"

interpretation streams: swept_store stream_dead stream_view
  by unfold_locales (auto simp: stream_dead_def stream_view_def stream_expiry_defs)

lemma readers_view:
  "get_generation_stream_owner t r c = fst (stream_view t (find_stream r c))"
  "is_generation_stream_active t r c = fst (snd (stream_view t (find_stream r c)))"
  "is_generation_stream_canceled t r c = fst (snd (snd (stream_view t (find_stream r c))))"
  "get_generation_stream_text_snapshot t r c = fst (snd (snd (snd (stream_view t (find_stream r c)))))"
  "list_generation_stream_events t r limit c =
     (let l = snd (snd (snd (snd (stream_view t (find_stream r c)))))
      in if limit \<le> 0 \<or> limit \<ge> int (length l) then l else drop (length l - nat limit) l)"
  by (auto simp: stream_view_def get_generation_stream_owner_def is_generation_stream_active_def
      is_generation_stream_canceled_def get_generation_stream_text_snapshot_def
      list_generation_stream_events_def Let_def split: option.splits)

lemma sweep_view:
  "0 \<le> now \<Longrightarrow> now < t \<Longrightarrow> stream_view t (find_stream r (maybe_sweep now c)) = stream_view t (find_stream r c)"
  by (simp add: find_stream_def maybe_sweep_fields streams.sweep_invisible)

text \<open>
  A maintenance sweep is invisible to every later reader of a generation stream: owner,
  active flag, cancel flag, text snapshot and event list.
\<close>

theorem sweep_keeps_stream_readers:
  assumes "0 \<le> now" "now < t"
  shows "get_generation_stream_owner t r (maybe_sweep now c) = get_generation_stream_owner t r c \<and>
    is_generation_stream_active t r (maybe_sweep now c) = is_generation_stream_active t r c \<and>
    is_generation_stream_canceled t r (maybe_sweep now c) = is_generation_stream_canceled t r c \<and>
    get_generation_stream_text_snapshot t r (maybe_sweep now c) = get_generation_stream_text_snapshot t r c \<and>
    list_generation_stream_events t r limit (maybe_sweep now c) = list_generation_stream_events t r limit c"
  unfolding readers_view using sweep_view [OF assms, of r c] by simp

text \<open>
  \<^verbatim>\<open>TouchGenerationStreamActive\<close> by a user who does not own the run changes nothing any reader
  of any run can see.
\<close>

theorem stranger_touch_invisible:
  assumes "gs_ownerID (ensure_stream runID c) \<noteq> userID"
  shows "stream_view t (find_stream r (touch_generation_stream_active t1 t2 runID userID ttl c))
       = stream_view t (find_stream r c)"
proof -
  have "stream_view t (Some new_stream) = stream_view t None"
    by (simp add: stream_view_def new_stream_def stream_expiry_defs)
  then show ?thesis
    using assms by (auto simp: touch_generation_stream_active_def put_stream_def find_stream_def
        ensure_stream_def split: option.splits)
qed

section \<open>The event log\<close>

text \<open>
  C36: After any sequence of appends and resets the stored stream is the bounded image of a log
  that forgets nothing: the retained events are the last \<open>M\<close> of it, the text is the
  concatenation of all its deltas, and the sequence numbers never restart.
\<close>

theorem stream_refines_log:
  assumes "0 < M" "int (length acts) \<le> int64_max"
  shows "let (n, l) = spec_ops acts (0, []); s = run_stream_ops (int M) acts new_stream
    in gs_seq s = int n \<and> gs_events s = drop (length l - M) (map record_of l) \<and>
       gs_textContent s = text_of l \<and> gs_textSeq s = int (text_seq_of l) \<and>
       map fst l = [Suc n - length l..<Suc n]"
  using stream_rel_ops [OF stream_rel_new assms(1), of acts] assms(2)
    spec_ops_numbered [of "[]" 0 acts]
  by (cases "spec_ops acts (0, [])") (auto simp: stream_rel_def)

text \<open>
  Resuming from the text snapshot loses and repeats nothing: the snapshot's content is the
  text of all events up to its sequence number, and the events after it carry no text.
\<close>

theorem snapshot_complete:
  assumes "0 < M" "int (length acts) \<le> int64_max"
    and "spec_ops acts (0, []) = (n, l)" "s = run_stream_ops (int M) acts new_stream"
  shows "gs_textContent s = text_of (filter (\<lambda>(k, a). int k \<le> gs_textSeq s) l) \<and>
    (\<forall>(k, a) \<in> set l. gs_textSeq s < int k \<longrightarrow> sa_TextDelta a = [])"
proof -
  have rel: "gs_textContent s = text_of l" "gs_textSeq s = int (text_seq_of l)"
    using stream_rel_ops [OF stream_rel_new assms(1), of acts] assms(2-4) by (auto simp: stream_rel_def)
  have "map fst l = [Suc n - length l..<Suc n]"
    using spec_ops_numbered [of "[]" 0 acts n l] assms(3) by simp
  then have "sorted_wrt (<) (map fst l)" by (simp del: upt_Suc)
  from text_up_to_seq [OF this] show ?thesis using rel by simp
qed

text \<open>
  A reader that pages through a stream with any page limit, moving its cursor to the last
  event of each page, gets exactly the retained events after its first cursor, in order, each
  once.
\<close>

theorem paging_reads_all:
  assumes "0 < M" "int (length acts) \<le> int64_max"
    and "s = run_stream_ops (int M) acts new_stream" "length (gs_events s) < fuel"
  shows "read_pages fuel limit a (gs_events s) = filter (\<lambda>m. sm_Seq m > a) (gs_events s)"
proof -
  obtain n l where sp: "spec_ops acts (0, []) = (n, l)" by (cases "spec_ops acts (0, [])") auto
  have ev: "gs_events s = drop (length l - M) (map record_of l)"
    using stream_rel_ops [OF stream_rel_new assms(1), of acts] assms(2,3) sp by (auto simp: stream_rel_def)
  have num: "map fst l = [Suc n - length l..<Suc n]"
    using spec_ops_numbered [of "[]" 0 acts n l] sp by simp
  have "map sm_Seq (map record_of l) = map int (map fst l)"
    by (auto simp: record_of_def)
  then have "map sm_Seq (gs_events s) = map int (drop (length l - M) (map fst l))"
    unfolding ev by (simp only: drop_map [symmetric])
  then have "sorted_wrt (<) (map sm_Seq (gs_events s))"
    unfolding num by (simp add: sorted_wrt_map del: upt_Suc)
  moreover have "length (filter (\<lambda>m. sm_Seq m > a) (gs_events s)) < fuel"
    using assms(4) length_filter_le le_less_trans by blast
  ultimately show ?thesis by (rule read_pages_filter)
qed

section \<open>Waking readers\<close>

lemma append_event_last:
  "snd (append_stream_event a M s) \<in> set (gs_events (fst (append_stream_event a M s)))"
  by (auto simp: append_stream_event_def Let_def)

lemma generation_events_after_nonempty:
  "generation_events_after a limit taken l = [] \<longleftrightarrow> (\<forall>m \<in> set l. sm_Seq m \<le> a)"
  by (induction l arbitrary: taken) (auto simp: Let_def)

lemma find_put [simp]: "find_stream r (put_stream r s c) = Some s"
  by (simp add: find_stream_def put_stream_def)

lemma find_notify [simp]: "find_stream r (notify_generation_streams c) = find_stream r c"
  by (simp add: find_stream_def notify_generation_streams_def)

lemma sweep_keeps_stream:
  "find_stream r c = Some s \<Longrightarrow> \<not> stream_dead t s \<Longrightarrow> find_stream r (maybe_sweep t c) = Some s"
  by (simp add: find_stream_def maybe_sweep_fields map_sweep_apply)

lemma find_append:
  assumes "0 < t1" "t1 \<le> t2" "t2 \<le> ttl_from t1 ttl"
  shows "find_stream r (fst (append_generation_stream_event t1 t2 r a M ttl c))
    = Some (notify_stream ((fst (append_stream_event a M (ensure_stream r c)))
             \<lparr>gs_eventsExpiresAt := ttl_from t1 ttl\<rparr>))"
proof -
  have "0 < ttl_from t1 ttl" using assms(1) ttl_from_future [of t1 ttl] by linarith
  then show ?thesis
    using assms unfolding append_generation_stream_event_def
    by (simp add: split_beta) (rule sweep_keeps_stream, simp,
        simp add: stream_dead_def stream_expiry_defs notify_stream_def)
qed

text \<open>
  No lost wake-up: if a reader found nothing after its cursor and waits, an append to that
  run closes the channel it waits on, and its next attempt before the events expire returns
  the new event's page.
\<close>

theorem append_wakes_reader:
  assumes "0 < t1" "t1 \<le> t2" "t2 \<le> ttl_from t1 ttl" "t2 \<le> t3" "t3 \<le> ttl_from t1 ttl"
    and "append_generation_stream_event t1 t2 r a M ttl c = (c', rec)" "cursor < sm_Seq rec"
  shows "(case read_attempt t0 r cursor limit c of
      Records _ \<Rightarrow> True
    | WaitAny g \<Rightarrow> streamNotify c' \<noteq> g
    | WaitStream g \<Rightarrow> (\<forall>s. find_stream r c' = Some s \<longrightarrow> gs_notify s \<noteq> g)) \<and>
    (\<exists>records. read_attempt t3 r cursor limit c' = Records records \<and> records \<noteq> [] \<and>
       (\<forall>m \<in> set records. cursor < sm_Seq m))"
proof -
  let ?s = "fst (append_stream_event a M (ensure_stream r c))"
  have rec: "rec = snd (append_stream_event a M (ensure_stream r c))"
    using assms(6) by (simp add: append_generation_stream_event_def split_beta)
  have found: "find_stream r c' = Some (notify_stream (?s\<lparr>gs_eventsExpiresAt := ttl_from t1 ttl\<rparr>))"
    using find_append [OF assms(1-3), of r a M c] assms(6) by simp
  have notify: "streamNotify c' = Suc (streamNotify c)"
    using assms(6) by (auto simp: append_generation_stream_event_def split_beta
        notify_generation_streams_def put_stream_def)
  have gen: "gs_notify ?s = gs_notify (ensure_stream r c)"
    by (simp add: append_stream_event_def Let_def)
  have first: "case read_attempt t0 r cursor limit c of Records _ \<Rightarrow> True
    | WaitAny g \<Rightarrow> streamNotify c' \<noteq> g
    | WaitStream g \<Rightarrow> (\<forall>s. find_stream r c' = Some s \<longrightarrow> gs_notify s \<noteq> g)"
    using gen by (auto simp: read_attempt_def found notify ensure_stream_def notify_stream_def Let_def
        split: option.splits)
  have "0 < ttl_from t1 ttl" using assms(1) ttl_from_future [of t1 ttl] by linarith
  then have live: "\<not> events_expired (notify_stream (?s\<lparr>gs_eventsExpiresAt := ttl_from t1 ttl\<rparr>)) t3"
    using assms(5) by (simp add: stream_expiry_defs notify_stream_def)
  have "generation_events_after cursor limit 0 (gs_events ?s) \<noteq> []"
    using append_event_last [of a M "ensure_stream r c"] assms(7) rec
    by (auto simp: generation_events_after_nonempty not_le)
  moreover have "\<forall>m \<in> set (generation_events_after cursor limit 0 (gs_events ?s)). cursor < sm_Seq m"
    using page_after_eq [of cursor limit "gs_events ?s"]
    by (auto simp: page_after_def Let_def split: if_splits dest: in_set_takeD)
  moreover have "gs_events (notify_stream (?s\<lparr>gs_eventsExpiresAt := ttl_from t1 ttl\<rparr>)) = gs_events ?s"
    by (simp add: notify_stream_def)
  ultimately show ?thesis using first live by (simp add: read_attempt_def found)
qed

text \<open>
  A cancel request is visible until its time to live runs out, and registering the run again
  withdraws it.
\<close>

theorem cancel_visible_until_reregistered:
  assumes "0 < t1" "t1 \<le> t2" "t2 \<le> ttl_from t1 ttl" "t2 \<le> t"
  shows "is_generation_stream_canceled t r (request_generation_stream_cancel t1 t2 r ttl c)
      = (t \<le> ttl_from t1 ttl) \<and>
    \<not> is_generation_stream_canceled t3 r (register_generation_stream t4 t5 r user conv ttl' c)"
proof -
  have pos: "0 < ttl_from t1 ttl" using assms(1) ttl_from_future [of t1 ttl] by linarith
  let ?s = "notify_stream ((ensure_stream r c)\<lparr>gs_cancelExpiresAt := ttl_from t1 ttl\<rparr>)"
  have "find_stream r (request_generation_stream_cancel t1 t2 r ttl c) = Some ?s"
    unfolding request_generation_stream_cancel_def using pos assms
    by (intro sweep_keeps_stream) (simp_all add: stream_dead_def stream_expiry_defs notify_stream_def)
  then have "is_generation_stream_canceled t r (request_generation_stream_cancel t1 t2 r ttl c)
      = (t \<le> ttl_from t1 ttl)"
    using pos by (auto simp: is_generation_stream_canceled_def stream_expiry_defs notify_stream_def)
  moreover have "\<not> is_generation_stream_canceled t3 r (register_generation_stream t4 t5 r user conv ttl' c)"
    by (auto simp: is_generation_stream_canceled_def register_generation_stream_def find_stream_def
        put_stream_def maybe_sweep_fields stream_expiry_defs split: option.splits if_splits)
  ultimately show ?thesis by blast
qed

section \<open>Witnesses\<close>

definition sample_delta :: stream_append where
  "sample_delta = \<lparr>sa_PayloadJSON = ''p'', sa_TextDelta = ''t''\<rparr>"

definition sample_event :: stream_append where
  "sample_event = \<lparr>sa_PayloadJSON = ''e'', sa_TextDelta = []\<rparr>"

lemmas sample_append_defs = sample_delta_def sample_event_def

theorem stream_id_roundtrip_witness:
  "parse_stream_id (sm_ID (record_of (17, sample_event))) = 17"
  using stream_id_roundtrip [of 17 sample_event] by (simp add: record_of_def)

theorem sweep_keeps_stream_readers_witness:
  "is_generation_stream_active 6 ''r'' (maybe_sweep 5 (new_cache\<lparr>ops := 255\<rparr>)) =
     is_generation_stream_active 6 ''r'' (new_cache\<lparr>ops := 255\<rparr>)"
  using sweep_keeps_stream_readers [of 5 6 "''r''" "new_cache\<lparr>ops := 255\<rparr>" 0] by simp

theorem stranger_touch_invisible_witness:
  "stream_view 9 (find_stream ''r'' (touch_generation_stream_active 1 1 ''r'' 7 5 new_cache))
     = stream_view 9 (find_stream ''r'' new_cache)"
  by (rule stranger_touch_invisible) (simp add: ensure_stream_def find_stream_def new_cache_def new_stream_def)

theorem stream_refines_log_witness:
  "gs_textContent (run_stream_ops 2 [Append sample_delta, Append sample_event, Append sample_delta] new_stream) = ''tt''"
  using stream_refines_log [of 2 "[Append sample_delta, Append sample_event, Append sample_delta]"]
  by (simp add: sample_append_defs text_of_def Let_def del: run_stream_ops.simps)

theorem snapshot_complete_witness:
  "gs_textContent (run_stream_ops 1 [Append sample_delta, Append sample_event] new_stream)
     = text_of (filter (\<lambda>(k, a). int k \<le> gs_textSeq (run_stream_ops 1 [Append sample_delta, Append sample_event] new_stream))
         [(1, sample_delta), (2, sample_event)])"
  using snapshot_complete [of 1 "[Append sample_delta, Append sample_event]" 2
      "[(1, sample_delta), (2, sample_event)]", OF _ _ _ refl]
  by (simp add: eval_nat_numeral)

theorem paging_reads_all_witness:
  "read_pages 5 1 1 (gs_events (run_stream_ops 9 [Append sample_delta, Append sample_event, Append sample_delta] new_stream))
     = [record_of (2, sample_event), record_of (3, sample_delta)]"
proof -
  let ?acts = "[Append sample_delta, Append sample_event, Append sample_delta]"
  have ev: "gs_events (run_stream_ops (int 9) ?acts new_stream)
      = [record_of (1, sample_delta), record_of (2, sample_event), record_of (3, sample_delta)]"
    using stream_rel_ops [OF stream_rel_new [of 9], of ?acts]
    by (simp add: stream_rel_def eval_nat_numeral del: run_stream_ops.simps)
  have len: "length (gs_events (run_stream_ops (int 9) ?acts new_stream)) < 5" unfolding ev by simp
  show ?thesis
    using paging_reads_all [OF _ _ refl len, of 1 1] ev
    by (simp add: record_of_def del: run_stream_ops.simps)
qed

theorem append_wakes_reader_witness:
  "\<exists>records. read_attempt 12 ''r'' 0 5 (fst (append_generation_stream_event 10 11 ''r'' sample_delta 4 100 new_cache))
     = Records records \<and> records \<noteq> []"
proof -
  have "snd (append_generation_stream_event 10 11 ''r'' sample_delta 4 100 new_cache)
      = snd (append_stream_event sample_delta 4 (ensure_stream ''r'' new_cache))"
    by (simp add: append_generation_stream_event_def split_beta)
  also have "sm_Seq \<dots> = 1"
    by (simp add: append_stream_event_def ensure_stream_def find_stream_def new_cache_def new_stream_def
        Let_def in_int64_def)
  finally have seq: "sm_Seq (snd (append_generation_stream_event 10 11 ''r'' sample_delta 4 100 new_cache)) = 1" .
  show ?thesis
    using append_wakes_reader [of 10 11 100 12 "''r''" sample_delta 4 new_cache
        "fst (append_generation_stream_event 10 11 ''r'' sample_delta 4 100 new_cache)"
        "snd (append_generation_stream_event 10 11 ''r'' sample_delta 4 100 new_cache)" 0 9 5] seq
    by (auto simp: ttl_from_def)
qed

theorem cancel_visible_until_reregistered_witness:
  "is_generation_stream_canceled 50 ''r'' (request_generation_stream_cancel 10 11 ''r'' 100 new_cache)"
  using cancel_visible_until_reregistered [of 10 11 100 50 "''r''" new_cache 0 0 0 1 "[]" 1]
  by (simp add: ttl_from_def)

end
