(* ===== verification/File_Queue.thy ===== *)
theory File_Queue
  imports Memory_Cache "HOL-Library.Multiset"
begin

text \<open>
  The file-processing queue of the in-memory cache (\<^verbatim>\<open>infra/cache/memory/file_queue.go\<close>): a
  bounded main queue, leased messages in flight, a dead-letter list. \<open>ctxErr\<close> says that the
  caller's context is already done. A blocking read is a sequence of attempts, as for the
  generation streams. The message counter is a natural number: it would take 2^63 messages to
  wrap around.
\<close>

section \<open>Operations\<close>

definition file_processing_min_idle :: duration where
  "file_processing_min_idle = 45 * go_second"

definition max_file_queue_length :: nat where
  "max_file_queue_length = 10000"

datatype file_error = CtxDone | QueueFull

definition init_file_processing_stream :: "bool \<Rightarrow> file_error option" where
  "init_file_processing_stream ctxErr = (if ctxErr then Some CtxDone else None)"

definition notify_file_queue :: "cache \<Rightarrow> cache" where
  "notify_file_queue c = c\<lparr>fileNotify := fileNotify c + 1\<rparr>"

definition enqueue_file_processing ::
    "gtime \<Rightarrow> bool \<Rightarrow> nat \<Rightarrow> string \<Rightarrow> int \<Rightarrow> string \<Rightarrow> cache \<Rightarrow> cache \<times> file_error option" where
  "enqueue_file_processing now ctxErr userID fileID retry lastError c =
     (if trim_space fileID = [] then (c, None)
      else if ctxErr then (c, Some CtxDone)
      else if length (fileQueue c) \<ge> max_file_queue_length then (maybe_sweep now c, Some QueueFull)
      else
        let n = fileSeq c + 1;
            msg = \<lparr>fm_ID = dec n, fm_UserID = userID, fm_FileID = trim_space fileID,
                   fm_Retry = retry, fm_LastError = trim_space lastError, fm_Reclaimed = False\<rparr>
        in (maybe_sweep now (notify_file_queue (c\<lparr>fileSeq := n, fileQueue := fileQueue c @ [msg]\<rparr>)),
            None))"

text \<open>The scan of \<^verbatim>\<open>fileInflight\<close> for the longest idle lease, in iteration order.\<close>

fun oldest_idle_lease ::
    "gtime \<Rightarrow> (string \<times> file_lease) list \<Rightarrow> (string \<times> file_lease) option \<Rightarrow> (string \<times> file_lease) option" where
  "oldest_idle_lease now [] cand = cand"
| "oldest_idle_lease now ((messageID, lease) # rest) cand =
     (if now - fl_leasedAt lease < file_processing_min_idle then oldest_idle_lease now rest cand
      else case cand of
        None \<Rightarrow> oldest_idle_lease now rest (Some (messageID, lease))
      | Some (candID, candLease) \<Rightarrow>
          if candID = [] \<or> fl_leasedAt lease < fl_leasedAt candLease
          then oldest_idle_lease now rest (Some (messageID, lease))
          else oldest_idle_lease now rest cand)"

definition lease_list :: "string list \<Rightarrow> cache \<Rightarrow> (string \<times> file_lease) list" where
  "lease_list order c = List.map_filter (\<lambda>k. map_option (\<lambda>l. (k, l)) (fileInflight c k)) order"

definition claim_timed_out_file_processing_messages ::
    "gtime \<Rightarrow> bool \<Rightarrow> string \<Rightarrow> string list \<Rightarrow> cache \<Rightarrow> cache \<times> (file_error + file_message list)" where
  "claim_timed_out_file_processing_messages now ctxErr consumerName order c =
     (if trim_space consumerName = [] then (c, Inr [])
      else if ctxErr then (c, Inl CtxDone)
      else case oldest_idle_lease now (lease_list order c) None of
        None \<Rightarrow> (c, Inr [])
      | Some (candID, lease) \<Rightarrow>
          if candID = [] then (c, Inr [])
          else
            let message = (fl_message lease)\<lparr>fm_Reclaimed := True\<rparr>
            in (c\<lparr>fileInflight := (fileInflight c)(candID \<mapsto> \<lparr>fl_consumerName = trim_space consumerName,
                    fl_leasedAt = now, fl_message = message\<rparr>)\<rparr>, Inr [message]))"

text \<open>One pass of the reading loop: the message it leases, or the channel it waits on.\<close>

definition read_file_attempt :: "gtime \<Rightarrow> string \<Rightarrow> cache \<Rightarrow> cache \<times> (nat + file_message)" where
  "read_file_attempt now consumerName c =
     (case fileQueue c of
        [] \<Rightarrow> (c, Inl (fileNotify c))
      | msg # rest \<Rightarrow>
          (c\<lparr>fileQueue := rest, fileInflight := (fileInflight c)(fm_ID msg \<mapsto>
             \<lparr>fl_consumerName = trim_space consumerName, fl_leasedAt = now, fl_message = msg\<rparr>)\<rparr>, Inr msg))"

definition held_lease :: "string \<Rightarrow> string \<Rightarrow> cache \<Rightarrow> file_lease option" where
  "held_lease consumerName messageID c =
     (case fileInflight c (trim_space messageID) of None \<Rightarrow> None
      | Some lease \<Rightarrow> if fl_consumerName lease \<noteq> trim_space consumerName then None else Some lease)"

definition renew_file_processing_message_lease ::
    "gtime \<Rightarrow> bool \<Rightarrow> string \<Rightarrow> string \<Rightarrow> cache \<Rightarrow> cache \<times> (file_error + bool)" where
  "renew_file_processing_message_lease now ctxErr consumerName messageID c =
     (if ctxErr then (c, Inl CtxDone)
      else case held_lease consumerName messageID c of None \<Rightarrow> (c, Inr False)
      | Some lease \<Rightarrow> (c\<lparr>fileInflight := (fileInflight c)
            (trim_space messageID \<mapsto> lease\<lparr>fl_leasedAt := now\<rparr>)\<rparr>, Inr True))"

definition settle_file_processing_message ::
    "gtime \<Rightarrow> bool \<Rightarrow> string \<Rightarrow> string \<Rightarrow> cache \<Rightarrow> cache \<times> (file_error + bool)" where
  "settle_file_processing_message now ctxErr consumerName messageID c =
     (if ctxErr then (c, Inl CtxDone)
      else case held_lease consumerName messageID c of None \<Rightarrow> (c, Inr False)
      | Some lease \<Rightarrow> (maybe_sweep now
            (c\<lparr>fileInflight := map_delete (trim_space messageID) (fileInflight c)\<rparr>), Inr True))"

definition requeue_file_processing_message ::
    "gtime \<Rightarrow> bool \<Rightarrow> string \<Rightarrow> file_message \<Rightarrow> int \<Rightarrow> string \<Rightarrow> cache \<Rightarrow> cache \<times> (file_error + bool)" where
  "requeue_file_processing_message now ctxErr consumerName message retry lastError c =
     (if ctxErr then (c, Inl CtxDone)
      else case held_lease consumerName (fm_ID message) c of None \<Rightarrow> (c, Inr False)
      | Some lease \<Rightarrow>
          let n = fileSeq c + 1;
              msg = \<lparr>fm_ID = dec n, fm_UserID = fm_UserID message, fm_FileID = trim_space (fm_FileID message),
                     fm_Retry = retry, fm_LastError = trim_space lastError, fm_Reclaimed = False\<rparr>
          in (maybe_sweep now (notify_file_queue (c\<lparr>fileSeq := n, fileQueue := fileQueue c @ [msg],
                fileInflight := map_delete (trim_space (fm_ID message)) (fileInflight c)\<rparr>)), Inr True))"

definition dead_letter_file_processing_message ::
    "gtime \<Rightarrow> bool \<Rightarrow> string \<Rightarrow> file_message \<Rightarrow> string \<Rightarrow> cache \<Rightarrow> cache \<times> (file_error + bool)" where
  "dead_letter_file_processing_message now ctxErr consumerName message lastError c =
     (if ctxErr then (c, Inl CtxDone)
      else case held_lease consumerName (fm_ID message) c of None \<Rightarrow> (c, Inr False)
      | Some lease \<Rightarrow>
          let n = fileSeq c + 1;
              msg = \<lparr>fm_ID = ''dlq-'' @ dec n, fm_UserID = fm_UserID message,
                     fm_FileID = trim_space (fm_FileID message), fm_Retry = fm_Retry message,
                     fm_LastError = trim_space lastError, fm_Reclaimed = False\<rparr>;
              dlq = fileDLQ c @ [msg];
              dlq = (if length dlq > 10000 then drop (length dlq - 10000) dlq else dlq)
          in (maybe_sweep now (c\<lparr>fileSeq := n, fileDLQ := dlq,
                fileInflight := map_delete (trim_space (fm_ID message)) (fileInflight c)\<rparr>), Inr True))"

section \<open>Steps\<close>

text \<open>
  A task is what a message asks for. The steps are the operations with the outcome that changes
  the queue; \<open>other\<close> stands for every operation of the cache that leaves the queue alone. The
  workers pass to \<open>requeue\<close> and \<open>dead_letter\<close> the message they were handed, so the task of the
  argument is that of the lease.
\<close>

type_synonym task = "nat \<times> string"

definition task_of :: "file_message \<Rightarrow> task" where
  "task_of m = (fm_UserID m, trim_space (fm_FileID m))"

datatype file_label = Enqueued task | Delivered file_message | Settled task | DeadLettered task | Silent

inductive file_step :: "cache \<Rightarrow> file_label \<Rightarrow> cache \<Rightarrow> bool" where
  enqueue: "trim_space fileID \<noteq> [] \<Longrightarrow>
     enqueue_file_processing now False userID fileID retry lastError c = (c', None) \<Longrightarrow>
     file_step c (Enqueued (userID, trim_space fileID)) c'"
| full: "enqueue_file_processing now ctxErr userID fileID retry lastError c = (c', Some err) \<Longrightarrow>
     file_step c Silent c'"
| read: "read_file_attempt now consumerName c = (c', Inr msg) \<Longrightarrow> file_step c (Delivered msg) c'"
| claim: "claim_timed_out_file_processing_messages now ctxErr consumerName order c = (c', r) \<Longrightarrow>
     file_step c Silent c'"
| renew: "renew_file_processing_message_lease now ctxErr consumerName messageID c = (c', r) \<Longrightarrow>
     file_step c Silent c'"
| settle: "held_lease consumerName messageID c = Some lease \<Longrightarrow>
     settle_file_processing_message now False consumerName messageID c = (c', Inr True) \<Longrightarrow>
     file_step c (Settled (task_of (fl_message lease))) c'"
| requeue: "held_lease consumerName (fm_ID message) c = Some lease \<Longrightarrow>
     task_of message = task_of (fl_message lease) \<Longrightarrow>
     requeue_file_processing_message now False consumerName message retry lastError c = (c', Inr True) \<Longrightarrow>
     file_step c Silent c'"
| dead_letter: "held_lease consumerName (fm_ID message) c = Some lease \<Longrightarrow>
     task_of message = task_of (fl_message lease) \<Longrightarrow>
     dead_letter_file_processing_message now False consumerName message lastError c = (c', Inr True) \<Longrightarrow>
     file_step c (DeadLettered (task_of message)) c'"
| other: "fileSeq c' = fileSeq c \<Longrightarrow> fileQueue c' = fileQueue c \<Longrightarrow> fileInflight c' = fileInflight c \<Longrightarrow>
     fileDLQ c' = fileDLQ c \<Longrightarrow> file_step c Silent c'"

inductive file_run :: "cache \<Rightarrow> file_label list \<Rightarrow> cache \<Rightarrow> bool" where
  start: "file_run c [] c"
| more: "file_run c ls c' \<Longrightarrow> file_step c' l c'' \<Longrightarrow> file_run c (ls @ [l]) c''"

inductive_cases file_step_cases: "file_step c l c'"

section \<open>The invariant\<close>

text \<open>
  Queued identifiers are the decimal numbers of strictly increasing counters up to \<open>fileSeq\<close>,
  each lease is stored under its message's identifier, and no identifier is both queued and
  leased.
\<close>

definition issued :: "nat \<Rightarrow> string \<Rightarrow> bool" where
  "issued n k \<longleftrightarrow> (\<exists>m \<le> n. k = dec m)"

definition queue_ids :: "nat \<Rightarrow> file_message list \<Rightarrow> bool" where
  "queue_ids n q \<longleftrightarrow> (\<exists>ns. map fm_ID q = map dec ns \<and> sorted_wrt (<) ns \<and> (\<forall>m \<in> set ns. m \<le> n))"

definition queue_wf :: "cache \<Rightarrow> bool" where
  "queue_wf c \<longleftrightarrow>
     queue_ids (fileSeq c) (fileQueue c) \<and>
     finite (dom (fileInflight c)) \<and>
     (\<forall>k l. fileInflight c k = Some l \<longrightarrow> fm_ID (fl_message l) = k \<and> k \<notin> fm_ID ` set (fileQueue c) \<and>
        issued (fileSeq c) k) \<and>
     length (fileDLQ c) \<le> 10000"

definition inflight_tasks :: "(string \<rightharpoonup> file_lease) \<Rightarrow> task multiset" where
  "inflight_tasks m = (\<Sum>k \<in> dom m. {#task_of (fl_message (the (m k)))#})"

definition pending :: "cache \<Rightarrow> task multiset" where
  "pending c = image_mset task_of (mset (fileQueue c)) + inflight_tasks (fileInflight c)"

lemma inflight_tasks_insert:
  "finite (dom m) \<Longrightarrow> m k = None \<Longrightarrow> inflight_tasks (m(k \<mapsto> l)) = add_mset (task_of (fl_message l)) (inflight_tasks m)"
  by (auto simp: inflight_tasks_def domIff intro!: sum.cong)

lemma inflight_tasks_delete:
  assumes "finite (dom m)" "m k = Some l"
  shows "inflight_tasks m = add_mset (task_of (fl_message l)) (inflight_tasks (m(k := None)))"
proof -
  have "m = (m(k := None))(k \<mapsto> l)" using assms(2) by auto
  moreover have "finite (dom (m(k := None)))" using assms(1) by simp
  ultimately show ?thesis by (metis fun_upd_same inflight_tasks_insert)
qed

lemma inflight_tasks_update:
  assumes "finite (dom m)" "m k = Some l" "task_of (fl_message l') = task_of (fl_message l)"
  shows "inflight_tasks (m(k \<mapsto> l')) = inflight_tasks m"
  using inflight_tasks_delete [OF assms(1,2)] inflight_tasks_delete [of "m(k \<mapsto> l')" k l'] assms by simp

lemma held_lease_Some:
  "held_lease n i c = Some l \<longleftrightarrow> fileInflight c (trim_space i) = Some l \<and> fl_consumerName l = trim_space n"
  by (auto simp: held_lease_def split: option.splits)

lemma dlq_bound: "length (if length (l @ [x]) > 10000 then drop (length (l @ [x]) - 10000) (l @ [x]) else l @ [x]) \<le> 10000"
  by simp

lemma queue_wf_finite: "queue_wf c \<Longrightarrow> finite (dom (fileInflight c))"
  by (simp add: queue_wf_def)

lemma queue_wf_sweep [simp]: "queue_wf (maybe_sweep now c) = queue_wf c"
  by (simp add: queue_wf_def)

lemma queue_wf_frame:
  "fileSeq c' = fileSeq c \<Longrightarrow> fileQueue c' = fileQueue c \<Longrightarrow> fileInflight c' = fileInflight c \<Longrightarrow>
     fileDLQ c' = fileDLQ c \<Longrightarrow> queue_wf c' = queue_wf c"
  by (simp add: queue_wf_def)

lemma issued_Suc: "issued n k \<Longrightarrow> issued (Suc n) k"
  by (auto simp: issued_def intro: le_SucI)

lemma issued_fresh: "issued n k \<Longrightarrow> k \<noteq> dec (Suc n)"
  by (auto simp: issued_def dec_inj)

lemma queue_ids_Suc: "queue_ids n q \<Longrightarrow> queue_ids (Suc n) q"
  unfolding queue_ids_def by (metis le_SucI)

lemma queue_ids_push: "queue_ids n q \<Longrightarrow> fm_ID msg = dec (Suc n) \<Longrightarrow> queue_ids (Suc n) (q @ [msg])"
proof -
  assume "queue_ids n q" and msg: "fm_ID msg = dec (Suc n)"
  then obtain ns where ns: "map fm_ID q = map dec ns" "sorted_wrt (<) ns" "\<forall>m \<in> set ns. m \<le> n"
    by (auto simp: queue_ids_def)
  then show ?thesis unfolding queue_ids_def
    using msg by (intro exI [of _ "ns @ [Suc n]"]) (auto simp: sorted_wrt_append)
qed

lemma queue_ids_tl:
  "queue_ids n (msg # rest) \<Longrightarrow> queue_ids n rest \<and> issued n (fm_ID msg) \<and> fm_ID msg \<notin> fm_ID ` set rest"
proof -
  assume "queue_ids n (msg # rest)"
  then obtain m ns where ns: "fm_ID msg = dec m" "map fm_ID rest = map dec ns" "sorted_wrt (<) (m # ns)"
      "\<forall>k \<in> set (m # ns). k \<le> n"
    by (auto simp: queue_ids_def Cons_eq_map_conv)
  moreover from ns(2) have "fm_ID ` set rest = dec ` set ns" by (metis list.set_map)
  ultimately show ?thesis by (auto simp: queue_ids_def issued_def dec_inj)
qed

lemma queue_wf_push:
  assumes "queue_wf c" "fm_ID msg = dec (Suc (fileSeq c))"
  shows "queue_wf (c\<lparr>fileSeq := Suc (fileSeq c), fileQueue := fileQueue c @ [msg]\<rparr>)"
  using assms by (auto simp: queue_wf_def queue_ids_push issued_Suc dest: issued_fresh)

lemma queue_wf_release:
  assumes "queue_wf c"
  shows "queue_wf (c\<lparr>fileInflight := map_delete k (fileInflight c)\<rparr>)"
  using assms by (auto simp: queue_wf_def)

lemma queue_wf_update:
  assumes "queue_wf c" "fileInflight c k = Some l" "fm_ID (fl_message l') = fm_ID (fl_message l)"
  shows "queue_wf (c\<lparr>fileInflight := (fileInflight c)(k \<mapsto> l')\<rparr>)"
  using assms by (auto simp: queue_wf_def)

lemma queue_wf_requeue:
  assumes "queue_wf c" "fm_ID msg = dec (Suc (fileSeq c))"
  shows "queue_wf (c\<lparr>fileSeq := Suc (fileSeq c), fileQueue := fileQueue c @ [msg],
    fileInflight := (fileInflight c)(k := None)\<rparr>)"
  using queue_wf_push [OF queue_wf_release [OF assms(1), of k], of msg] assms(2)
  by (simp add: queue_wf_def)

lemma queue_wf_read:
  assumes "queue_wf c" "fileQueue c = msg # rest" "fl_message l = msg"
  shows "queue_wf (c\<lparr>fileQueue := rest, fileInflight := (fileInflight c)(fm_ID msg \<mapsto> l)\<rparr>)"
  using assms queue_ids_tl [of "fileSeq c" msg rest] by (auto simp: queue_wf_def)

lemma queue_wf_dead:
  "queue_wf c \<Longrightarrow> length q \<le> 10000 \<Longrightarrow>
     queue_wf (c\<lparr>fileSeq := Suc (fileSeq c), fileDLQ := q, fileInflight := (fileInflight c)(k := None)\<rparr>)"
  by (auto simp: queue_wf_def queue_ids_Suc issued_Suc split: if_splits)

lemma oldest_idle_lease_mem:
  "oldest_idle_lease now l cand = Some x \<Longrightarrow> cand = Some x \<or> x \<in> set l"
  by (induction now l cand rule: oldest_idle_lease.induct) (auto split: if_splits option.splits)

lemma claim_cases:
  assumes "claim_timed_out_file_processing_messages now ctxErr n order c = (c', r)"
  obtains "c' = c" | k lease where "fileInflight c k = Some lease"
     "c' = c\<lparr>fileInflight := (fileInflight c)(k \<mapsto> \<lparr>fl_consumerName = trim_space n,
         fl_leasedAt = now, fl_message = (fl_message lease)\<lparr>fm_Reclaimed := True\<rparr>\<rparr>)\<rparr>"
proof (cases "c' = c")
  case False
  then obtain k lease where o: "oldest_idle_lease now (lease_list order c) None = Some (k, lease)"
    and c': "c' = c\<lparr>fileInflight := (fileInflight c)(k \<mapsto> \<lparr>fl_consumerName = trim_space n,
         fl_leasedAt = now, fl_message = (fl_message lease)\<lparr>fm_Reclaimed := True\<rparr>\<rparr>)\<rparr>"
    using assms by (auto simp: claim_timed_out_file_processing_messages_def Let_def split: if_splits option.splits)
  from oldest_idle_lease_mem [OF o] have "fileInflight c k = Some lease"
    by (auto simp: lease_list_def List.map_filter_def)
  with c' show ?thesis by (rule that(2) [rotated])
qed (rule that(1))

lemma enqueue_ok:
  assumes "enqueue_file_processing now False u f r e c = (c', None)" "trim_space f \<noteq> []"
  obtains msg where "fm_ID msg = dec (Suc (fileSeq c))" "task_of msg = (u, trim_space f)"
    "c' = maybe_sweep now (notify_file_queue (c\<lparr>fileSeq := Suc (fileSeq c), fileQueue := fileQueue c @ [msg]\<rparr>))"
proof (rule that [of "\<lparr>fm_ID = dec (Suc (fileSeq c)), fm_UserID = u, fm_FileID = trim_space f,
    fm_Retry = r, fm_LastError = trim_space e, fm_Reclaimed = False\<rparr>"])
qed (use assms in \<open>auto simp: enqueue_file_processing_def task_of_def Let_def split: if_splits\<close>)

lemma notify_wf [simp]: "queue_wf (notify_file_queue c) = queue_wf c"
  by (simp add: queue_wf_def notify_file_queue_def)

lemma file_step_wf: "file_step c l c' \<Longrightarrow> queue_wf c \<Longrightarrow> queue_wf c'"
proof (induction rule: file_step.induct)
  case (enqueue f now u r e c c')
  then show ?case by (auto elim!: enqueue_ok intro: queue_wf_push)
next
  case (full now ctxErr u f r e c c' err)
  then show ?case by (auto simp: enqueue_file_processing_def Let_def split: if_splits)
next
  case (read now n c c' msg)
  then show ?case
    by (auto simp: read_file_attempt_def split: list.splits intro: queue_wf_read)
next
  case (claim now ctxErr n order c c' r)
  then show ?case by (elim claim_cases) (auto intro!: queue_wf_update)
next
  case (renew now ctxErr n i c c' r)
  then show ?case
    by (auto simp: renew_file_processing_message_lease_def held_lease_Some
        split: if_splits option.splits intro: queue_wf_update)
next
  case (settle n i c lease now c')
  then show ?case
    by (auto simp: settle_file_processing_message_def simp del: map_delete_def intro: queue_wf_release)
next
  case (requeue n m c lease now r e c')
  then show ?case
    by (auto simp: requeue_file_processing_message_def Let_def intro!: queue_wf_requeue)
next
  case (dead_letter n m c lease now e c')
  then show ?case
    by (auto simp: dead_letter_file_processing_message_def Let_def intro!: queue_wf_dead)
next
  case (other c' c)
  then show ?case using queue_wf_frame by blast
qed

fun consumed :: "file_label \<Rightarrow> task multiset" where
  "consumed (Settled t) = {#t#}"
| "consumed (DeadLettered t) = {#t#}"
| "consumed _ = {#}"

fun produced :: "file_label \<Rightarrow> task multiset" where
  "produced (Enqueued t) = {#t#}"
| "produced _ = {#}"

lemma pending_frame [simp]:
  "pending (maybe_sweep now c) = pending c"
  "pending (notify_file_queue c) = pending c"
  "pending (fileSeq_update f c) = pending c"
  "pending (fileDLQ_update g c) = pending c"
  by (simp_all add: pending_def notify_file_queue_def)

lemma inflight_release:
  "queue_wf c \<Longrightarrow> held_lease n i c = Some l \<Longrightarrow>
     inflight_tasks (fileInflight c) =
       add_mset (task_of (fl_message l)) (inflight_tasks ((fileInflight c)(trim_space i := None)))"
  by (rule inflight_tasks_delete) (auto simp: held_lease_Some queue_wf_finite)

lemma pending_push:
  "pending (c\<lparr>fileQueue := fileQueue c @ [m]\<rparr>) = add_mset (task_of m) (pending c)"
  by (simp add: pending_def)

lemma pending_push_seq:
  "pending (c\<lparr>fileSeq := n, fileQueue := fileQueue c @ [m]\<rparr>) = add_mset (task_of m) (pending c)"
  by (simp add: pending_def)

lemma file_step_conserves:
  "file_step c l c' \<Longrightarrow> queue_wf c \<Longrightarrow> pending c + produced l = pending c' + consumed l"
proof (induction rule: file_step.induct)
  case (enqueue f now u r e c c')
  then show ?case by (auto elim!: enqueue_ok simp: pending_push_seq)
next
  case (full now ctxErr u f r e c c' err)
  then show ?case by (auto simp: enqueue_file_processing_def Let_def split: if_splits)
next
  case (read now n c c' msg)
  then have q: "fileQueue c = msg # tl (fileQueue c)" and "fileInflight c (fm_ID msg) = None"
    by (auto simp: read_file_attempt_def queue_wf_def split: list.splits)
       (metis image_eqI list.set_intros(1) option.exhaust)
  then show ?case
    using read inflight_tasks_insert [OF queue_wf_finite]
    by (auto simp: read_file_attempt_def pending_def split: list.splits)
next
  case (claim now ctxErr n order c c' r)
  then show ?case
    by (elim claim_cases) (auto simp: pending_def task_of_def intro!: inflight_tasks_update [symmetric] queue_wf_finite)
next
  case (renew now ctxErr n i c c' r)
  then show ?case
    by (auto simp: renew_file_processing_message_lease_def held_lease_Some pending_def
        split: if_splits option.splits intro!: inflight_tasks_update [symmetric] queue_wf_finite)
next
  case (settle n i c lease now c')
  then show ?case using inflight_release [of c n i lease]
    by (auto simp: settle_file_processing_message_def pending_def notify_file_queue_def)
next
  case (requeue n m c lease now r e c')
  then show ?case using inflight_release [of c n "fm_ID m" lease]
    by (auto simp: requeue_file_processing_message_def Let_def pending_def task_of_def notify_file_queue_def)
next
  case (dead_letter n m c lease now e c')
  then show ?case using inflight_release [of c n "fm_ID m" lease]
    by (auto simp: dead_letter_file_processing_message_def Let_def pending_def)
next
  case (other c' c)
  then show ?case by (simp add: pending_def)
qed

lemma file_run_wf: "file_run c ls c' \<Longrightarrow> queue_wf c \<Longrightarrow> queue_wf c'"
  by (induction rule: file_run.induct) (auto intro: file_step_wf)

lemma balance_add:
  fixes a b d p s x y :: "'m::cancel_comm_monoid_add"
  assumes "d + x = b + y" "a + p = d + s"
  shows "a + (p + x) = b + (s + y)"
proof -
  have "a + (p + x) = (a + p) + x" by (simp only: add.assoc)
  also have "\<dots> = (d + x) + s" unfolding assms(2) by (simp only: ac_simps)
  also have "\<dots> = b + (s + y)" unfolding assms(1) by (simp only: ac_simps)
  finally show ?thesis .
qed

lemma file_run_conserves:
  "file_run c ls c' \<Longrightarrow> queue_wf c \<Longrightarrow>
     pending c + sum_list (map produced ls) = pending c' + sum_list (map consumed ls)"
proof (induction rule: file_run.induct)
  case (more c ls c' l c'')
  have "pending c' + produced l = pending c'' + consumed l"
    using more file_run_wf file_step_conserves by blast
  from balance_add [OF this more.IH [OF more.prems]] show ?case by simp
qed simp

lemma queue_wf_new: "queue_wf new_cache"
  by (simp add: queue_wf_def queue_ids_def new_cache_def)

section \<open>Delivery order\<close>

fun delivered :: "file_label list \<Rightarrow> file_message list" where
  "delivered [] = []"
| "delivered (Delivered m # ls) = m # delivered ls"
| "delivered (_ # ls) = delivered ls"

lemma delivered_append [simp]: "delivered (xs @ ys) = delivered xs @ delivered ys"
  by (induction xs rule: delivered.induct) auto

lemma queue_after_step:
  assumes "file_step c l c'"
  shows "fileSeq c \<le> fileSeq c' \<and>
    (\<exists>new. delivered [l] @ fileQueue c' = fileQueue c @ new \<and>
       (new = [] \<or> (\<exists>m. new = [m] \<and> fm_ID m = dec (Suc (fileSeq c)) \<and> fileSeq c' = Suc (fileSeq c))))"
  using assms
  by cases
    (auto simp: enqueue_file_processing_def read_file_attempt_def claim_timed_out_file_processing_messages_def
      renew_file_processing_message_lease_def settle_file_processing_message_def
      requeue_file_processing_message_def dead_letter_file_processing_message_def notify_file_queue_def
      Let_def split: if_splits list.splits option.splits)

lemma run_queue_ids:
  "file_run c ls c' \<Longrightarrow> queue_ids (fileSeq c) (fileQueue c) \<Longrightarrow>
     queue_ids (fileSeq c') (delivered ls @ fileQueue c')"
proof (induction rule: file_run.induct)
  case (more c ls c' l c'')
  then have ids: "queue_ids (fileSeq c') (delivered ls @ fileQueue c')" by simp
  from queue_after_step [OF more.hyps(2)] obtain new where
    le: "fileSeq c' \<le> fileSeq c''" and q: "delivered [l] @ fileQueue c'' = fileQueue c' @ new" and
    new: "new = [] \<or> (\<exists>m. new = [m] \<and> fm_ID m = dec (Suc (fileSeq c')) \<and> fileSeq c'' = Suc (fileSeq c'))"
    by blast
  have "queue_ids (fileSeq c'') ((delivered ls @ fileQueue c') @ new)"
    using new
  proof
    assume "new = []"
    then show ?thesis using ids le unfolding queue_ids_def by (metis append_Nil2 le_trans)
  next
    assume "\<exists>m. new = [m] \<and> fm_ID m = dec (Suc (fileSeq c')) \<and> fileSeq c'' = Suc (fileSeq c')"
    then show ?thesis using queue_ids_push [OF ids] by auto
  qed
  then show ?case using q by simp
qed simp

section \<open>Timed-out leases\<close>

lemma oldest_idle_lease_best:
  assumes "\<forall>(k, l) \<in> set ls. k \<noteq> []" "\<forall>k l. cand = Some (k, l) \<longrightarrow> k \<noteq> [] \<and> file_processing_min_idle \<le> now - fl_leasedAt l"
  shows "case oldest_idle_lease now ls cand of
      None \<Rightarrow> cand = None \<and> (\<forall>(k, l) \<in> set ls. now - fl_leasedAt l < file_processing_min_idle)
    | Some (k0, l0) \<Rightarrow> file_processing_min_idle \<le> now - fl_leasedAt l0 \<and>
        (\<forall>(k, l) \<in> set ls. fl_leasedAt l0 \<le> fl_leasedAt l) \<and>
        (\<forall>k l. cand = Some (k, l) \<longrightarrow> fl_leasedAt l0 \<le> fl_leasedAt l)"
  using assms
proof (induction now ls cand rule: oldest_idle_lease.induct)
  case (2 now k l rest cand)
  show ?case
  proof (cases "now - fl_leasedAt l < file_processing_min_idle")
    case True
    with 2 show ?thesis by (force split: option.splits)
  next
    case False
    show ?thesis
    proof (cases cand)
      case None
      with 2 False show ?thesis by (force split: option.splits)
    next
      case (Some cd)
      obtain k' l' where cd: "cd = (k', l')" by (cases cd)
      with 2 False Some show ?thesis
        by (cases "fl_leasedAt l < fl_leasedAt l'") (force split: option.splits)+
    qed
  qed
qed (auto split: option.splits)

section \<open>Properties\<close>

text \<open>
  C35: No task is lost or doubled: after any run of the queue, the tasks accepted so far are the
  tasks still queued or leased together with those settled and those dead-lettered.
\<close>

theorem queue_conserves_tasks:
  assumes "file_run new_cache ls c"
  shows "sum_list (map produced ls) = pending c + sum_list (map consumed ls) \<and> queue_wf c"
proof -
  have "pending new_cache = {#}" by (simp add: pending_def inflight_tasks_def new_cache_def)
  then show ?thesis
    using file_run_conserves [OF assms queue_wf_new] file_run_wf [OF assms queue_wf_new] by simp
qed

text \<open>
  The queue delivers messages in the order they were queued, each at most once: the
  identifiers handed to readers are strictly increasing, and all below those still queued.
\<close>

theorem deliveries_in_order:
  assumes "file_run new_cache ls c"
  shows "\<exists>ns. map fm_ID (delivered ls @ fileQueue c) = map dec ns \<and> sorted_wrt (<) ns"
  using run_queue_ids [OF assms] by (auto simp: queue_ids_def new_cache_def)

text \<open>
  A worker whose lease was reclaimed by another can no longer act on the message: its renew,
  settle, requeue and dead-letter calls fail and change nothing.
\<close>

theorem reclaimed_lease_is_lost:
  assumes "claim_timed_out_file_processing_messages now False new_owner order c = (c', Inr [m])"
    and "queue_wf c" "trim_space worker \<noteq> trim_space new_owner"
    and "trim_space (fm_ID m') = fm_ID m" "trim_space i = fm_ID m"
  shows "renew_file_processing_message_lease t False worker i c' = (c', Inr False) \<and>
    settle_file_processing_message t False worker i c' = (c', Inr False) \<and>
    requeue_file_processing_message t False worker m' retry e c' = (c', Inr False) \<and>
    dead_letter_file_processing_message t False worker m' e c' = (c', Inr False)"
proof -
  obtain k lease where k: "oldest_idle_lease now (lease_list order c) None = Some (k, lease)"
    and m: "m = (fl_message lease)\<lparr>fm_Reclaimed := True\<rparr>"
    and c': "c' = c\<lparr>fileInflight := (fileInflight c)(k \<mapsto> \<lparr>fl_consumerName = trim_space new_owner,
                    fl_leasedAt = now, fl_message = m\<rparr>)\<rparr>"
    using assms(1)
    by (auto simp: claim_timed_out_file_processing_messages_def Let_def split: if_splits option.splits)
  from oldest_idle_lease_mem [OF k] have "fileInflight c k = Some lease"
    by (auto simp: lease_list_def List.map_filter_def)
  with assms(2) m have "k = fm_ID m" by (auto simp: queue_wf_def)
  then have "held_lease worker i c' = None" "held_lease worker (fm_ID m') c' = None"
    using assms(3-5) c' by (simp_all add: held_lease_def)
  then show ?thesis
    by (simp add: renew_file_processing_message_lease_def settle_file_processing_message_def
        requeue_file_processing_message_def dead_letter_file_processing_message_def)
qed

text \<open>
  A claim takes the longest idle lease, in whatever order the map is iterated, and takes
  one exactly when some lease has been idle for 45 seconds.
\<close>

theorem claim_takes_longest_idle:
  assumes "queue_wf c" "set order = dom (fileInflight c)" "trim_space consumer \<noteq> []"
    and "claim_timed_out_file_processing_messages now False consumer order c = (c', Inr ms)"
  shows "(ms = [] \<longleftrightarrow> (\<forall>k l. fileInflight c k = Some l \<longrightarrow> now - fl_leasedAt l < 45 * go_second)) \<and>
    (\<forall>m. ms = [m] \<longrightarrow> (\<exists>l0. fileInflight c (fm_ID m) = Some l0 \<and>
       m = (fl_message l0)\<lparr>fm_Reclaimed := True\<rparr> \<and>
       (\<forall>k l. fileInflight c k = Some l \<longrightarrow> fl_leasedAt l0 \<le> fl_leasedAt l)))"
proof -
  have leases: "(k, l) \<in> set (lease_list order c) \<longleftrightarrow> fileInflight c k = Some l" for k l
    using assms(2) by (force simp: lease_list_def List.map_filter_def)
  have ne: "\<forall>(k, l) \<in> set (lease_list order c). k \<noteq> []"
    using assms(1) by (auto simp: leases queue_wf_def issued_def) (metis dec_nonempty)
  show ?thesis
  proof (cases "oldest_idle_lease now (lease_list order c) None")
    case None
    then have "\<forall>k l. fileInflight c k = Some l \<longrightarrow> now - fl_leasedAt l < 45 * go_second"
      using oldest_idle_lease_best [OF ne, of None now] leases by (auto simp: file_processing_min_idle_def)
    moreover have "ms = []"
      using None assms(3,4) by (simp add: claim_timed_out_file_processing_messages_def)
    ultimately show ?thesis by simp
  next
    case (Some x)
    obtain k0 l0 where x: "x = (k0, l0)" by (cases x)
    have l0: "fileInflight c k0 = Some l0"
      using oldest_idle_lease_mem [of now "lease_list order c" None x] Some x leases by simp
    then have k0: "k0 \<noteq> []" "fm_ID (fl_message l0) = k0" using assms(1) by (auto simp: queue_wf_def issued_def) (metis dec_nonempty)
    have ms: "ms = [(fl_message l0)\<lparr>fm_Reclaimed := True\<rparr>]"
      using Some x k0 assms(3,4) by (auto simp: claim_timed_out_file_processing_messages_def Let_def)
    have best: "file_processing_min_idle \<le> now - fl_leasedAt l0"
        "\<forall>k l. fileInflight c k = Some l \<longrightarrow> fl_leasedAt l0 \<le> fl_leasedAt l"
      using oldest_idle_lease_best [OF ne, of None now] Some x by (auto simp: leases [symmetric])
    from best(1) l0 have "\<not> (\<forall>k l. fileInflight c k = Some l \<longrightarrow> now - fl_leasedAt l < 45 * go_second)"
      by (force simp: file_processing_min_idle_def)
    then show ?thesis using ms best(2) l0 k0(2) by auto
  qed
qed

section \<open>Witnesses\<close>

lemma trim_f [simp]: "trim_space ''f'' = ''f''" "trim_space ''w'' = ''w''" "trim_space ''v'' = ''v''"
  by (simp_all add: trim_eval)

lemma dec_1: "dec 1 = ''1''" "dec (Suc 0) = ''1''" "trim_space ''1'' = ''1''"
  by code_simp+

definition queued_cache :: cache where
  "queued_cache = fst (enqueue_file_processing 5 False 7 ''f'' 0 [] new_cache)"

definition sample_message :: file_message where
  "sample_message = \<lparr>fm_ID = ''1'', fm_UserID = 7, fm_FileID = ''f'', fm_Retry = 0, fm_LastError = [],
     fm_Reclaimed = False\<rparr>"

definition leased_cache :: cache where
  "leased_cache = fst (read_file_attempt 6 ''w'' queued_cache)"

lemma queued_fields:
  "fileQueue queued_cache = [sample_message]" "fileInflight queued_cache = Map.empty"
  "fileSeq queued_cache = 1" "fileDLQ queued_cache = []"
  by (simp_all add: queued_cache_def enqueue_file_processing_def new_cache_def notify_file_queue_def
      max_file_queue_length_def sample_message_def dec_1 Let_def)

lemma leased_fields:
  "fileQueue leased_cache = []" "fileSeq leased_cache = 1" "fileDLQ leased_cache = []"
  "fileInflight leased_cache = [''1'' \<mapsto> \<lparr>fl_consumerName = ''w'', fl_leasedAt = 6, fl_message = sample_message\<rparr>]"
  by (simp_all add: leased_cache_def read_file_attempt_def queued_fields) (simp add: sample_message_def)

lemma sample_run: "file_run new_cache [Enqueued (7, ''f''), Delivered sample_message] leased_cache"
proof -
  have enq: "enqueue_file_processing 5 False 7 ''f'' 0 [] new_cache = (queued_cache, None)"
    by (simp add: queued_cache_def enqueue_file_processing_def new_cache_def max_file_queue_length_def Let_def)
  have rd: "read_file_attempt 6 ''w'' queued_cache = (leased_cache, Inr sample_message)"
    by (simp add: leased_cache_def read_file_attempt_def queued_fields)
  have "file_run new_cache ([] @ [Enqueued (7, ''f'')]) queued_cache"
    using file_run.more [OF file_run.start file_step.enqueue [OF _ enq]] by simp
  from file_run.more [OF this file_step.read [OF rd]] show ?thesis by simp
qed

theorem queue_conserves_tasks_witness:
  "pending leased_cache = {#(7, ''f'')#}"
  using queue_conserves_tasks [OF sample_run] by simp

theorem deliveries_in_order_witness:
  "\<exists>ns. map fm_ID (delivered [Enqueued (7, ''f''), Delivered sample_message] @ fileQueue leased_cache) = map dec ns
     \<and> sorted_wrt (<) ns"
  by (rule deliveries_in_order [OF sample_run])

lemma claim_eval:
  "claim_timed_out_file_processing_messages 60000000000 False ''v'' [''1''] leased_cache =
     (leased_cache\<lparr>fileInflight := [''1'' \<mapsto> \<lparr>fl_consumerName = ''v'', fl_leasedAt = 60000000000,
        fl_message = sample_message\<lparr>fm_Reclaimed := True\<rparr>\<rparr>]\<rparr>, Inr [sample_message\<lparr>fm_Reclaimed := True\<rparr>])"
  by (simp add: claim_timed_out_file_processing_messages_def lease_list_def List.map_filter_def leased_fields
      file_processing_min_idle_def Let_def)

theorem reclaimed_lease_is_lost_witness:
  "snd (settle_file_processing_message 70 False ''w'' ''1''
     (fst (claim_timed_out_file_processing_messages 60000000000 False ''v'' [''1''] leased_cache))) = Inr False"
  using reclaimed_lease_is_lost [OF claim_eval, of "''w''" sample_message "''1''" 70]
    file_run_wf [OF sample_run queue_wf_new]
  by (simp add: claim_eval) (simp add: sample_message_def dec_1)

theorem claim_takes_longest_idle_witness:
  "\<not> (\<forall>k l. fileInflight leased_cache k = Some l \<longrightarrow> 60000000000 - fl_leasedAt l < 45 * go_second)"
  using claim_takes_longest_idle [OF file_run_wf [OF sample_run queue_wf_new] _ _ claim_eval]
  by (simp add: leased_fields)

end
