(* ===== verification/Key_Value.thy ===== *)
theory Key_Value
  imports Memory_Cache
begin

text \<open>
  The smaller stores of the in-memory cache: global settings (\<^verbatim>\<open>settings.go\<close>), versioned user
  settings (\<^verbatim>\<open>user_settings.go\<close>), retrieval results (\<^verbatim>\<open>rag.go\<close>) and the two one-time stores
  of the provider auth bridge (\<^verbatim>\<open>provider_auth_bridge.go\<close>). A fresh \<^verbatim>\<open>uuid.NewString()\<close> is
  the argument \<open>uuid\<close> of the operation that draws it.
\<close>

section \<open>Settings\<close>

definition settings_key :: "string \<Rightarrow> string \<Rightarrow> string" where
  "settings_key namespace key = namespace @ '':'' @ key"

definition set_setting :: "gtime \<Rightarrow> string \<Rightarrow> string \<Rightarrow> string \<Rightarrow> cache \<Rightarrow> cache" where
  "set_setting now namespace key value c =
     maybe_sweep now (c\<lparr>settings := (settings c)(settings_key namespace key \<mapsto>
       \<lparr>es_value = value, es_expiresAt = now + go_minute\<rparr>)\<rparr>)"

definition del_setting :: "gtime \<Rightarrow> string \<Rightarrow> string \<Rightarrow> cache \<Rightarrow> cache" where
  "del_setting now namespace key c =
     maybe_sweep now (c\<lparr>settings := map_delete (settings_key namespace key) (settings c)\<rparr>)"

section \<open>User settings\<close>

definition user_setting_version_key :: "nat \<Rightarrow> string \<Rightarrow> string" where
  "user_setting_version_key userID key = dec userID @ '':'' @ key"

definition user_setting_value_key :: "nat \<Rightarrow> string \<Rightarrow> string \<Rightarrow> string" where
  "user_setting_value_key userID key version = dec userID @ '':'' @ key @ '':'' @ version"

definition get_user_setting_cache_version ::
    "gtime \<Rightarrow> gtime \<Rightarrow> string \<Rightarrow> nat \<Rightarrow> string \<Rightarrow> duration \<Rightarrow> cache \<Rightarrow> cache \<times> string" where
  "get_user_setting_cache_version now t1 uuid userID key ttl c =
     (let cacheKey = user_setting_version_key userID key;
          fresh = (maybe_sweep now (c\<lparr>userSettingVersions := (userSettingVersions c)
             (cacheKey \<mapsto> \<lparr>es_value = uuid, es_expiresAt = ttl_from t1 ttl\<rparr>)\<rparr>), uuid)
      in case userSettingVersions c cacheKey of
           Some item \<Rightarrow>
             if now < es_expiresAt item then
               (c\<lparr>userSettingVersions := (userSettingVersions c)
                  (cacheKey \<mapsto> item\<lparr>es_expiresAt := ttl_from t1 ttl\<rparr>)\<rparr>, es_value item)
             else fresh
         | None \<Rightarrow> fresh)"

definition advance_user_setting_cache_version ::
    "gtime \<Rightarrow> gtime \<Rightarrow> string \<Rightarrow> nat \<Rightarrow> string \<Rightarrow> duration \<Rightarrow> cache \<Rightarrow> cache \<times> string" where
  "advance_user_setting_cache_version t1 t2 uuid userID key ttl c =
     (maybe_sweep t2 (c\<lparr>userSettingVersions := (userSettingVersions c)
        (user_setting_version_key userID key \<mapsto> \<lparr>es_value = uuid, es_expiresAt = ttl_from t1 ttl\<rparr>)\<rparr>), uuid)"

definition get_user_setting_cache ::
    "gtime \<Rightarrow> nat \<Rightarrow> string \<Rightarrow> string \<Rightarrow> cache \<Rightarrow> cache \<times> string option" where
  "get_user_setting_cache now userID key version c =
     (let cacheKey = user_setting_value_key userID key version
      in case userSettings c cacheKey of
           None \<Rightarrow> (c, None)
         | Some item \<Rightarrow>
             if \<not> now < es_expiresAt item
             then (c\<lparr>userSettings := map_delete cacheKey (userSettings c)\<rparr>, None)
             else (c, Some (es_value item)))"

definition set_user_setting_cache ::
    "gtime \<Rightarrow> gtime \<Rightarrow> nat \<Rightarrow> string \<Rightarrow> string \<Rightarrow> string \<Rightarrow> duration \<Rightarrow> cache \<Rightarrow> cache" where
  "set_user_setting_cache now t1 userID key version value ttl c =
     maybe_sweep now (c\<lparr>userSettings := (userSettings c)(user_setting_value_key userID key version \<mapsto>
       \<lparr>es_value = value, es_expiresAt = ttl_from t1 ttl\<rparr>)\<rparr>)"

section \<open>Retrieval results\<close>

definition get_rag_cache :: "gtime \<Rightarrow> string \<Rightarrow> cache \<Rightarrow> cache \<times> rag_chunk list option" where
  "get_rag_cache now key c =
     (case rag c key of
        None \<Rightarrow> (c\<lparr>rag := map_delete key (rag c)\<rparr>, None)
      | Some item \<Rightarrow>
          if expired_at now (er_expiresAt item) then (c\<lparr>rag := map_delete key (rag c)\<rparr>, None)
          else (c, Some (er_chunks item)))"

definition set_rag_cache :: "gtime \<Rightarrow> gtime \<Rightarrow> string \<Rightarrow> rag_chunk list \<Rightarrow> duration \<Rightarrow> cache \<Rightarrow> cache" where
  "set_rag_cache now t1 key chunks ttl c =
     maybe_sweep now (c\<lparr>rag := (rag c)(key \<mapsto> \<lparr>er_chunks = chunks, er_expiresAt = ttl_from t1 ttl\<rparr>)\<rparr>)"

section \<open>One-time stores\<close>

datatype bridge_error = InvalidInput | NotFound

definition put_provider_auth_transaction ::
    "gtime \<Rightarrow> string \<Rightarrow> auth_transaction \<Rightarrow> duration \<Rightarrow> cache \<Rightarrow> cache \<times> bridge_error option" where
  "put_provider_auth_transaction now i item ttl c =
     (if i = [] \<or> ttl \<le> 0 then (c, Some InvalidInput)
      else
        let c = maybe_sweep now c
        in (c\<lparr>authTransactions := (authTransactions c)(i \<mapsto> \<lparr>ex_value = item, ex_expiresAt = now + ttl\<rparr>)\<rparr>,
            None))"

definition consume_provider_auth_transaction ::
    "gtime \<Rightarrow> string \<Rightarrow> cache \<Rightarrow> cache \<times> (bridge_error + auth_transaction)" where
  "consume_provider_auth_transaction now i c =
     (if i = [] then (c, Inl NotFound)
      else case authTransactions c i of
        None \<Rightarrow> (c, Inl NotFound)
      | Some item \<Rightarrow>
          (c\<lparr>authTransactions := map_delete i (authTransactions c)\<rparr>,
           if now > ex_expiresAt item then Inl NotFound else Inr (ex_value item)))"

definition put_provider_auth_grant ::
    "gtime \<Rightarrow> string \<Rightarrow> auth_grant \<Rightarrow> duration \<Rightarrow> cache \<Rightarrow> cache \<times> bridge_error option" where
  "put_provider_auth_grant now key item ttl c =
     (if key = [] \<or> ttl \<le> 0 then (c, Some InvalidInput)
      else
        let c = maybe_sweep now c
        in (c\<lparr>authGrants := (authGrants c)(key \<mapsto> \<lparr>ex_value = item, ex_expiresAt = now + ttl\<rparr>)\<rparr>, None))"

definition consume_provider_auth_grant ::
    "gtime \<Rightarrow> string \<Rightarrow> cache \<Rightarrow> cache \<times> (bridge_error + auth_grant)" where
  "consume_provider_auth_grant now key c =
     (if key = [] then (c, Inl NotFound)
      else case authGrants c key of
        None \<Rightarrow> (c, Inl NotFound)
      | Some item \<Rightarrow>
          (c\<lparr>authGrants := map_delete key (authGrants c)\<rparr>,
           if now > ex_expiresAt item then Inl NotFound else Inr (ex_value item)))"

text \<open>
  The contract of a one-time store: \<open>peek\<close> is its content; a put adds one entry and may drop
  others; a consume removes the entry and yields it only if it was there.
\<close>

datatype 'a bridge_call = Put gtime string 'a duration | Consume gtime string

fun bridge_run ::
    "(gtime \<Rightarrow> string \<Rightarrow> 'a \<Rightarrow> duration \<Rightarrow> cache \<Rightarrow> cache \<times> bridge_error option) \<Rightarrow>
     (gtime \<Rightarrow> string \<Rightarrow> cache \<Rightarrow> cache \<times> (bridge_error + 'a)) \<Rightarrow>
     'a bridge_call list \<Rightarrow> cache \<Rightarrow> (string \<times> 'a) list" where
  "bridge_run put consume [] c = []"
| "bridge_run put consume (Put t i x ttl # calls) c = bridge_run put consume calls (fst (put t i x ttl c))"
| "bridge_run put consume (Consume t i # calls) c =
     (let (c', r) = consume t i c
      in (case r of Inr x \<Rightarrow> [(i, x)] | Inl _ \<Rightarrow> []) @ bridge_run put consume calls c')"

fun puts_of :: "string \<Rightarrow> 'a bridge_call list \<Rightarrow> 'a list" where
  "puts_of i [] = []"
| "puts_of i (Put t j x ttl # calls) = (if j = i then [x] else []) @ puts_of i calls"
| "puts_of i (Consume t j # calls) = puts_of i calls"

locale one_time_store =
  fixes peek :: "cache \<Rightarrow> string \<Rightarrow> 'a expiring option"
    and put :: "gtime \<Rightarrow> string \<Rightarrow> 'a \<Rightarrow> duration \<Rightarrow> cache \<Rightarrow> cache \<times> bridge_error option"
    and consume :: "gtime \<Rightarrow> string \<Rightarrow> cache \<Rightarrow> cache \<times> (bridge_error + 'a)"
  assumes put_other: "j \<noteq> i \<Longrightarrow> peek (fst (put t i x ttl c)) j = None \<or> peek (fst (put t i x ttl c)) j = peek c j"
    and put_same: "i \<noteq> [] \<Longrightarrow> 0 < ttl \<Longrightarrow>
      peek (fst (put t i x ttl c)) i = Some \<lparr>ex_value = x, ex_expiresAt = t + ttl\<rparr>"
    and put_refused: "i = [] \<or> ttl \<le> 0 \<Longrightarrow> put t i x ttl c = (c, Some InvalidInput)"
    and consume_peek: "i \<noteq> [] \<Longrightarrow> peek (fst (consume t i c)) = (peek c)(i := None)"
    and consume_blank: "consume t [] c = (c, Inl NotFound)"
    and consume_result: "i \<noteq> [] \<Longrightarrow> snd (consume t i c) =
      (case peek c i of None \<Rightarrow> Inl NotFound
       | Some e \<Rightarrow> if t > ex_expiresAt e then Inl NotFound else Inr (ex_value e))"
begin

lemma consume_twice:
  "i \<noteq> [] \<Longrightarrow> snd (consume t' i (fst (consume t i c))) = Inl NotFound"
  by (simp add: consume_result consume_peek)

lemma put_consume:
  "i \<noteq> [] \<Longrightarrow> 0 < ttl \<Longrightarrow>
     snd (consume t' i (fst (put t i x ttl c))) = (if t' > t + ttl then Inl NotFound else Inr x)"
  by (simp add: consume_result put_same)

text \<open>What is consumed under a name was put under it, and each put is consumed at most once.\<close>

lemma consumed_at_most_put:
  "length (filter (\<lambda>(j, x). j = i) (bridge_run put consume calls c))
     \<le> length (puts_of i calls) + (if peek c i = None then 0 else 1)"
proof (induction calls arbitrary: c)
  case (Cons call calls)
  show ?case
  proof (cases call)
    case (Put t j x ttl)
    show ?thesis
    proof (cases "j = i")
      case True
      with Cons.IH [of "fst (put t j x ttl c)"] Put show ?thesis by (auto split: if_splits)
    next
      case False
      then have "peek (fst (put t j x ttl c)) i = None \<or> peek (fst (put t j x ttl c)) i = peek c i"
        using put_other [of i j] by simp
      with Cons.IH [of "fst (put t j x ttl c)"] Put False show ?thesis by (auto split: if_splits)
    qed
  next
    case (Consume t j)
    show ?thesis
    proof (cases "j = []")
      case True
      then show ?thesis using Cons.IH [of c] Consume by (simp add: consume_blank)
    next
      case False
      then show ?thesis
        using Cons.IH [of "fst (consume t j c)"] consume_peek [OF False, of t c] consume_result [OF False, of t c] Consume
        by (cases "j = i") (auto simp: split_beta split: option.splits sum.splits if_splits)
    qed
  qed
qed simp

end

interpretation transactions: one_time_store authTransactions
    put_provider_auth_transaction consume_provider_auth_transaction
  by unfold_locales
     (auto simp: put_provider_auth_transaction_def consume_provider_auth_transaction_def
        maybe_sweep_fields map_sweep_apply Let_def split: option.splits)

interpretation grants: one_time_store authGrants
    put_provider_auth_grant consume_provider_auth_grant
  by unfold_locales
     (auto simp: put_provider_auth_grant_def consume_provider_auth_grant_def
        maybe_sweep_fields map_sweep_apply Let_def split: option.splits)

section \<open>Keys\<close>

lemma dec_colon_eq: "dec u @ '':'' @ r = dec u' @ '':'' @ r' \<longleftrightarrow> u = u' \<and> r = r'"
proof
  assume eq: "dec u @ '':'' @ r = dec u' @ '':'' @ r'"
  let ?p = "\<lambda>c. c \<noteq> CHR '':''"
  have "takeWhile ?p (dec v @ '':'' @ l) = dec v" for v l
    using colon_notin_dec by (subst takeWhile_append2) auto
  with eq have "dec u = dec u'" by metis
  with eq show "u = u' \<and> r = r'" by (simp add: dec_inj)
qed simp

lemma last_colon_eq:
  assumes "CHR '':'' \<notin> set v" "CHR '':'' \<notin> set v'"
  shows "k @ '':'' @ v = k' @ '':'' @ v' \<longleftrightarrow> k = k' \<and> v = v'"
proof
  assume eq: "k @ '':'' @ v = k' @ '':'' @ v'"
  let ?p = "\<lambda>c. c \<noteq> CHR '':''"
  have "takeWhile ?p (rev (l @ '':'' @ w)) = rev w" if "CHR '':'' \<notin> set w" for l w
    using that by (simp add: takeWhile_append2 takeWhile_tail) (metis set_rev takeWhile_eq_all_conv)
  with eq assms have "rev v = rev v'" by metis
  with eq show "k = k' \<and> v = v'" by simp
qed simp

lemma value_key_eq:
  "CHR '':'' \<notin> set v \<Longrightarrow> CHR '':'' \<notin> set v' \<Longrightarrow>
     user_setting_value_key u k v = user_setting_value_key u' k' v' \<longleftrightarrow> u = u' \<and> k = k' \<and> v = v'"
  unfolding user_setting_value_key_def dec_colon_eq using last_colon_eq by metis

section \<open>Properties\<close>

text \<open>
  The transactions of the auth bridge are one-time: in any sequence of calls, the successful
  consumes of an identifier number at most the puts of it, starting from an empty cache.
\<close>

theorem transaction_consumed_once:
  "length (filter (\<lambda>(j, x). j = i) (bridge_run put_provider_auth_transaction
     consume_provider_auth_transaction calls new_cache)) \<le> length (puts_of i calls)"
  using transactions.consumed_at_most_put [of i calls new_cache] by (simp add: new_cache_def)

text \<open>
  A grant put with a time to live is handed out once, until that time has passed, and never
  again.
\<close>

theorem grant_put_consume:
  assumes "key \<noteq> []" "0 < ttl"
  shows "let c' = fst (put_provider_auth_grant t key g ttl c)
    in snd (consume_provider_auth_grant t' key c') = (if t' > t + ttl then Inl NotFound else Inr g) \<and>
       snd (consume_provider_auth_grant t'' key (fst (consume_provider_auth_grant t' key c'))) = Inl NotFound"
  using grants.put_consume [OF assms, of t' t g c] grants.consume_twice [OF assms(1)] by (simp add: Let_def)

text \<open>
  After the version of a user setting is advanced to a fresh one, a slow writer that still
  stores a value under the old version cannot make a reader of the new version see it; a reader
  that asks for the version gets the new one while it lives.
\<close>

theorem advanced_version_hides_stale_writes:
  assumes "uuid \<noteq> old" "CHR '':'' \<notin> set uuid" "CHR '':'' \<notin> set old"
    and "userSettings c (user_setting_value_key u key uuid) = None"
    and "0 < t1" "t1 \<le> t2" "t2 \<le> ttl_from t1 ttl" "t < ttl_from t1 ttl"
    and "(c', v) = advance_user_setting_cache_version t1 t2 uuid u key ttl c"
  shows "snd (get_user_setting_cache_version t t3 other u key ttl' c') = uuid \<and>
    snd (get_user_setting_cache t4 u key uuid (set_user_setting_cache t5 t6 u key old stale ttl'' c')) = None"
proof -
  have c': "c' = maybe_sweep t2 (c\<lparr>userSettingVersions := (userSettingVersions c)
        (user_setting_version_key u key \<mapsto> \<lparr>es_value = uuid, es_expiresAt = ttl_from t1 ttl\<rparr>)\<rparr>)"
    using assms(9) by (simp add: advance_user_setting_cache_version_def)
  have "userSettingVersions c' (user_setting_version_key u key)
      = Some \<lparr>es_value = uuid, es_expiresAt = ttl_from t1 ttl\<rparr>"
    using assms(7) by (simp add: c' maybe_sweep_fields map_sweep_apply)
  then have "snd (get_user_setting_cache_version t t3 other u key ttl' c') = uuid"
    using assms(8) by (simp add: get_user_setting_cache_version_def Let_def)
  moreover have "userSettings c' (user_setting_value_key u key uuid) = None"
    using assms(4) by (simp add: c' maybe_sweep_fields map_sweep_apply)
  then have "userSettings (set_user_setting_cache t5 t6 u key old stale ttl'' c')
      (user_setting_value_key u key uuid) = None"
    using assms(1) value_key_eq [OF assms(2,3), of u key u key]
    by (simp add: set_user_setting_cache_def maybe_sweep_fields map_sweep_apply)
  then have "snd (get_user_setting_cache t4 u key uuid (set_user_setting_cache t5 t6 u key old stale ttl'' c')) = None"
    by (simp add: get_user_setting_cache_def Let_def)
  ultimately show ?thesis by blast
qed

theorem grant_put_consume_witness:
  "snd (consume_provider_auth_grant 9 ''g'' (fst (put_provider_auth_grant 5 ''g''
     \<lparr>ag_ProviderSlug = [], ag_ClientID = [], ag_UserID = 1, ag_Subject = [], ag_RegistrationCode = [],
      ag_ErrorCode = [], ag_ErrorMessage = [], ag_ErrorDetails = [], ag_ExpiresAt = 0\<rparr> 10 new_cache))) \<noteq> Inl NotFound"
  using grant_put_consume [of "''g''" 10 5 _ new_cache 9] by (simp add: Let_def)

theorem advanced_version_hides_stale_writes_witness:
  "snd (get_user_setting_cache 20 3 ''k'' ''b'' (set_user_setting_cache 12 12 3 ''k'' ''a'' ''old'' 50
     (fst (advance_user_setting_cache_version 10 11 ''b'' 3 ''k'' 100 new_cache)))) = None"
  using advanced_version_hides_stale_writes [of "''b''" "''a''" new_cache 3 "''k''" 10 11 100 11
      "fst (advance_user_setting_cache_version 10 11 ''b'' 3 ''k'' 100 new_cache)" "''b''" 12 "''x''" 5 20 12 12 "''old''" 50]
  by (simp add: ttl_from_def new_cache_def advance_user_setting_cache_version_def)

end
