(* ===== verification/Repo_Tx.thy ===== *)
theory Repo_Tx
  imports Go_Prelude
begin

text \<open>
  What the repositories share: the errors they return (\<^verbatim>\<open>repository/errors.go\<close>) and the
  transaction that wraps an operation (gorm's \<^verbatim>\<open>db.Transaction\<close>). The body of a transaction
  returns an error, or a result and the database to commit; an error leaves the database as it
  was.
\<close>

datatype repo_error =
    InvalidInput | NotFound | Conflict | Duplicate | InsufficientBalance | ReservationLimitExceeded
  | RedemptionUnavailable | RedemptionExhausted | RedemptionUserLimitExceeded | StorageQuotaExceeded
  | OutOfRange

type_synonym ('db, 'a) repo_tx = "'db \<Rightarrow> repo_error + 'a \<times> 'db"

definition run_tx :: "('db, 'a) repo_tx \<Rightarrow> 'db \<Rightarrow> 'db \<times> (repo_error + 'a)" where
  "run_tx body db = (case body db of Inl err \<Rightarrow> (db, Inl err) | Inr (x, db') \<Rightarrow> (db', Inr x))"

lemma run_tx_Inl: "run_tx body db = (db', Inl err) \<Longrightarrow> db' = db"
  by (auto simp: run_tx_def split: sum.splits prod.splits)

lemma run_tx_Inr: "run_tx body db = (db', Inr x) \<longleftrightarrow> body db = Inr (x, db')"
  by (auto simp: run_tx_def split: sum.splits prod.splits)

lemma run_tx_cases:
  assumes "run_tx body db = (db', r)"
  obtains (abort) err where "db' = db" "r = Inl err" | (commit) x where "body db = Inr (x, db')" "r = Inr x"
  using assms by (auto simp: run_tx_def split: sum.splits prod.splits)

text \<open>An invariant that the body of a transaction keeps is kept by the transaction.\<close>

lemma run_tx_keeps:
  assumes "P db" "\<And>x db'. body db = Inr (x, db') \<Longrightarrow> P db'" "run_tx body db = (db', r)"
  shows "P db'"
  using assms(3) by (cases rule: run_tx_cases) (auto intro: assms(1,2))

lemma if_Inr: "(if b then Inl x else y) = Inr z \<longleftrightarrow> \<not> b \<and> y = Inr z"
  by simp

end
