(* ===== verification/Billing_Store.thy ===== *)
theory Billing_Store
  imports Pricing Repo_Tx
begin

text \<open>
  The rows the billing repository keeps (\<^verbatim>\<open>infra/persistence/models/billing.go\<close>), the transaction
  that wraps each of its operations, and the account operations that the others share
  (\<^verbatim>\<open>infra/persistence/postgres/billing/repository.go\<close>).

  A table is a list of rows in insertion order and an identifier is a position in it; accounts,
  of which a user has at most one, are a map. A transaction runs on a copy and either commits
  or leaves the database as it was; the row locks the code takes make the transactions of a
  user atomic, so an operation is one step. A statement that cannot store its result in a
  \<^verbatim>\<open>bigint\<close> column fails, and so does reading a sum that does not fit \<^verbatim>\<open>int64\<close>. Failures of the
  connection are not modelled (they abort the transaction), nor are the description texts of
  balance transactions and the JSON snapshots of redemptions. \<open>db_settings\<close> holds the settings of the namespace
  \<^verbatim>\<open>billing\<close>.
\<close>

section \<open>Rows\<close>

record billing_account =
  ba_ID :: nat
  ba_UserID :: nat
  ba_Currency :: string
  ba_BalanceNanousd :: int
  ba_Status :: string

datatype transaction_type =
    TxTopUp | TxUsage | TxUsageReserve | TxUsageRefund | TxAdminSet | TxRedemption | TxInvitation | TxDailyCheckin

record balance_transaction =
  bt_AccountID :: nat
  bt_UserID :: nat
  bt_Type :: transaction_type
  bt_AmountNanousd :: int
  bt_BalanceAfterNanousd :: int
  bt_RefType :: string
  bt_RefID :: nat
  bt_RefNo :: string

datatype reservation_status = RsvActive | RsvSettled | RsvReleased | RsvReconciliation

record usage_reservation =
  rv_ID :: nat
  rv_UserID :: nat
  rv_RefNo :: string
  rv_Mode :: string
  rv_BalanceNanousd :: int
  rv_PeriodCreditNanousd :: int
  rv_PeriodLimitNanousd :: int
  rv_PeriodStartAt :: "gtime option"
  rv_PeriodEndAt :: "gtime option"
  rv_Status :: reservation_status
  rv_UsageLedgerID :: nat
  rv_ExpiresAt :: gtime
  rv_SettledAt :: "gtime option"
  rv_ReleasedAt :: "gtime option"
  rv_ReconciliationAt :: "gtime option"
  rv_FailureCode :: string

text \<open>What a settled period entry adds to the pricing snapshot.\<close>

record period_settlement =
  ps_CreditNanousd :: int
  ps_UsedBefore :: int
  ps_UsedAfter :: int
  ps_CreditCovered :: int
  ps_CreditReserved :: int
  ps_Overage :: int
  ps_BalanceReserved :: int
  ps_SettlementDelta :: int

record ledger_row =
  lr_usage :: usage_ledger
  lr_BalanceAfterNanousd :: "int option"
  lr_settlement :: "period_settlement option"

datatype billing_interval = Monthly | Yearly | Lifetime

record billing_plan =
  bp_ID :: nat
  bp_Code :: string
  bp_Name :: string
  bp_Description :: string
  bp_FeatureJSON :: string
  bp_PeriodCreditNanousd :: int
  bp_DiscountPercent :: int
  bp_SortOrder :: int
  bp_IsActive :: bool
  bp_PermissionGroupID :: "nat option"

record billing_price =
  pr_ID :: nat
  pr_PlanID :: nat
  pr_Code :: string
  pr_BillingInterval :: billing_interval
  pr_Currency :: string
  pr_AmountCents :: int
  pr_IsActive :: bool
  pr_IsDefault :: bool
  pr_ExternalPriceRef :: string

datatype order_type = OrderSubscription | OrderTopUp

record payment_order =
  po_ID :: nat
  po_OrderNo :: string
  po_OrderType :: order_type
  po_UserID :: nat
  po_PlanID :: nat
  po_PriceID :: nat
  po_Provider :: string
  po_Status :: string
  po_BaseCurrency :: string
  po_BaseAmountCents :: int
  po_PayCurrency :: string
  po_PayAmountCents :: int
  po_FXRate :: string
  po_CreditNanousd :: int
  po_BillingInterval :: billing_interval
  po_Cycles :: int
  po_ExternalPaymentID :: string
  po_ExternalCheckoutID :: string
  po_CheckoutURL :: string
  po_PaidAt :: "gtime option"
  po_ExpiredAt :: "gtime option"
  po_SnapshotJSON :: string

datatype code_mode = CodeUsage | CodePeriod
datatype reward_type = RewardBalance | RewardSubscription
datatype code_status = CodeActive | CodeInactive | CodeDeleted

record redemption_code =
  rc_ID :: nat
  rc_CodeHash :: string
  rc_CodeEncrypted :: string
  rc_CodeHint :: string
  rc_Mode :: code_mode
  rc_RewardType :: reward_type
  rc_CreditNanousd :: int
  rc_PlanID :: nat
  rc_DurationDays :: int
  rc_MaxRedemptions :: "int option"
  rc_PerUserLimit :: int
  rc_RedeemedCount :: int
  rc_Status :: code_status
  rc_ExpiresAt :: "gtime option"
  rc_Description :: string
  rc_CreatedByUserID :: nat

record redemption =
  rd_CodeID :: nat
  rd_UserID :: nat
  rd_Mode :: code_mode
  rd_RewardType :: reward_type
  rd_CreditNanousd :: int
  rd_PlanID :: nat
  rd_SubscriptionID :: nat
  rd_BalanceTransactionID :: nat
  rd_RefNo :: string

record subscription =
  sb_ID :: nat
  sb_UserID :: nat
  sb_PlanID :: nat
  sb_PriceID :: nat
  sb_Status :: string
  sb_StartAt :: gtime
  sb_CurrentPeriodStartAt :: gtime
  sb_CurrentPeriodEndAt :: "gtime option"
  sb_CancelAtPeriodEnd :: bool
  sb_CanceledAt :: "gtime option"
  sb_AutoRenew :: bool

record billing_db =
  db_accounts :: "nat \<Rightarrow> billing_account option"
  db_accountSeq :: nat
  db_transactions :: "balance_transaction list"
  db_reservations :: "usage_reservation list"
  db_ledger :: "ledger_row list"
  db_orders :: "payment_order list"
  db_codes :: "redemption_code list"
  db_redemptions :: "redemption list"
  db_subscriptions :: "subscription list"
  db_plans :: "billing_plan list"
  db_prices :: "billing_price list"
  db_settings :: "string \<Rightarrow> string option"

definition empty_db :: billing_db where
  "empty_db = \<lparr>db_accounts = Map.empty, db_accountSeq = 0, db_transactions = [], db_reservations = [],
     db_ledger = [], db_orders = [], db_codes = [], db_redemptions = [], db_subscriptions = [],
     db_plans = [], db_prices = [], db_settings = Map.empty\<rparr>"

section \<open>Transactions\<close>

type_synonym 'a tx = "(billing_db, 'a) repo_tx"

text \<open>Reading a sum of a \<^verbatim>\<open>bigint\<close> column.\<close>

definition scan64 :: "int \<Rightarrow> repo_error + int" where
  "scan64 x = (if in_int64 x then Inr x else Inl OutOfRange)"

section \<open>Accounts\<close>

definition get_or_create_billing_account :: "nat \<Rightarrow> billing_account tx" where
  "get_or_create_billing_account u db =
     (if u = 0 then Inl InvalidInput
      else case db_accounts db u of
        Some a \<Rightarrow> Inr (a, db)
      | None \<Rightarrow>
          let a = \<lparr>ba_ID = Suc (db_accountSeq db), ba_UserID = u, ba_Currency = ''USD'', ba_BalanceNanousd = 0,
                   ba_Status = ''active''\<rparr>
          in Inr (a, db\<lparr>db_accounts := (db_accounts db)(u \<mapsto> a), db_accountSeq := Suc (db_accountSeq db)\<rparr>))"

text \<open>Writing a balance also resets the currency and the status.\<close>

definition put_balance :: "billing_account \<Rightarrow> int \<Rightarrow> billing_db \<Rightarrow> billing_db" where
  "put_balance a balance db = db\<lparr>db_accounts := (db_accounts db)(ba_UserID a \<mapsto>
     a\<lparr>ba_BalanceNanousd := balance, ba_Currency := ''USD'', ba_Status := ''active''\<rparr>)\<rparr>"

text \<open>The update by an expression, \<^verbatim>\<open>balance_nanousd + ?\<close>: the new balance and the database.\<close>

definition add_balance :: "billing_account \<Rightarrow> int \<Rightarrow> int tx" where
  "add_balance a amount db =
     (let balance = ba_BalanceNanousd a + amount in
      if in_int64 balance then Inr (balance, put_balance a balance db) else Inl OutOfRange)"

definition add_transaction :: "balance_transaction \<Rightarrow> billing_db \<Rightarrow> billing_db" where
  "add_transaction t db = db\<lparr>db_transactions := db_transactions db @ [t]\<rparr>"

section \<open>The books balance\<close>

definition transactions_of :: "nat \<Rightarrow> billing_db \<Rightarrow> balance_transaction list" where
  "transactions_of u db = filter (\<lambda>t. bt_UserID t = u) (db_transactions db)"

definition balance_of :: "nat \<Rightarrow> billing_db \<Rightarrow> int" where
  "balance_of u db = (case db_accounts db u of None \<Rightarrow> 0 | Some a \<Rightarrow> ba_BalanceNanousd a)"

text \<open>
  The books of a database: every account belongs to its user and holds what its transactions
  add up to (in the arithmetic of the column), and each transaction shows the balance after it.
\<close>

definition books_balance :: "billing_db \<Rightarrow> bool" where
  "books_balance db \<longleftrightarrow>
     (\<forall>u a. db_accounts db u = Some a \<longrightarrow> ba_UserID a = u) \<and>
     (\<forall>u. balance_of u db = wrap64 (sum_list (map bt_AmountNanousd (transactions_of u db)))) \<and>
     (\<forall>u t ts. transactions_of u db = ts @ [t] \<longrightarrow> bt_BalanceAfterNanousd t = balance_of u db)"

lemma wrap64_zero [simp]: "wrap64 0 = 0"
  by (simp add: wrap64_def)

lemma books_balance_empty: "books_balance empty_db"
  by (simp add: books_balance_def empty_db_def balance_of_def transactions_of_def)

lemma books_int64: "books_balance db \<Longrightarrow> in_int64 (balance_of u db)"
  by (simp add: books_balance_def)

lemma get_or_create_books:
  assumes "get_or_create_billing_account u db = Inr (a, db')" "books_balance db"
  shows "books_balance db' \<and> db_accounts db' u = Some a \<and> ba_UserID a = u \<and> u \<noteq> 0 \<and>
    ba_BalanceNanousd a = balance_of u db \<and> balance_of v db' = balance_of v db"
proof (cases "db_accounts db u")
  case None
  then have db': "db' = db\<lparr>db_accounts := (db_accounts db)(u \<mapsto> a), db_accountSeq := Suc (db_accountSeq db)\<rparr>"
    and a: "ba_UserID a = u" "ba_BalanceNanousd a = 0" "u \<noteq> 0"
    using assms(1) by (auto simp: get_or_create_billing_account_def Let_def split: if_splits)
  have bal: "balance_of v db' = balance_of v db" for v
    using None a by (simp add: balance_of_def db')
  have tx: "transactions_of v db' = transactions_of v db" for v by (simp add: transactions_of_def db')
  have "books_balance db'"
    using assms(2) a(1) unfolding books_balance_def bal tx
    by (intro conjI; elim conjE) (simp add: db', blast+)
  moreover have "balance_of u db = 0" using None by (simp add: balance_of_def)
  ultimately show ?thesis using bal a by (simp add: db')
next
  case (Some b)
  then show ?thesis
    using assms by (auto simp: get_or_create_billing_account_def books_balance_def balance_of_def split: if_splits)
qed

lemma get_or_create_other:
  assumes "get_or_create_billing_account u db = Inr (a, db')"
  shows "db_reservations db' = db_reservations db" "db_ledger db' = db_ledger db"
    "db_transactions db' = db_transactions db" "db_orders db' = db_orders db" "db_codes db' = db_codes db"
    "db_redemptions db' = db_redemptions db" "db_subscriptions db' = db_subscriptions db"
    "db_plans db' = db_plans db" "db_prices db' = db_prices db" "db_settings db' = db_settings db"
  using assms by (auto simp: get_or_create_billing_account_def Let_def split: if_splits option.splits)

lemma get_or_create_balance:
  assumes "get_or_create_billing_account u db = Inr (a, db')"
  shows "db_accounts db' u = Some a" "balance_of u db' = ba_BalanceNanousd a"
proof -
  show "db_accounts db' u = Some a"
    using assms by (cases "db_accounts db u") (auto simp: get_or_create_billing_account_def Let_def split: if_splits)
  then show "balance_of u db' = ba_BalanceNanousd a" by (simp add: balance_of_def)
qed

lemma add_balance_Inr:
  "add_balance a x db = Inr (b, db') \<longleftrightarrow>
     b = ba_BalanceNanousd a + x \<and> in_int64 b \<and> db' = put_balance a b db"
  by (auto simp: add_balance_def Let_def)

text \<open>
  A posting: the balance of \<open>u\<close> becomes \<open>balance\<close> and a transaction of the difference is added.
\<close>

lemma posting_books:
  assumes "books_balance db" "db_accounts db u = Some a"
    and "bt_UserID t = u" "bt_BalanceAfterNanousd t = balance" "in_int64 balance"
    and "wrap64 (ba_BalanceNanousd a + bt_AmountNanousd t) = balance"
  shows "books_balance (add_transaction t (put_balance a balance db))"
proof -
  let ?db = "add_transaction t (put_balance a balance db)"
  have a: "ba_UserID a = u" using assms(1,2) by (simp add: books_balance_def)
  have bal: "balance_of v ?db = (if v = u then balance else balance_of v db)" for v
    by (simp add: balance_of_def put_balance_def add_transaction_def a)
  have tx: "transactions_of v ?db = (if v = u then transactions_of v db @ [t] else transactions_of v db)" for v
    using assms(3) by (simp add: transactions_of_def put_balance_def add_transaction_def)
  have "balance_of u db = ba_BalanceNanousd a" using assms(2) by (simp add: balance_of_def)
  then have "wrap64 (sum_list (map bt_AmountNanousd (transactions_of u db)) + bt_AmountNanousd t) = balance"
    using assms(1,6) by (metis books_balance_def wrap64_add_wrap64)
  then show ?thesis
    using assms(1) unfolding books_balance_def bal tx
    by (auto simp: assms(4) put_balance_def add_transaction_def a)
qed

text \<open>Changing tables other than the accounts and the transactions.\<close>

lemma books_other_tables [simp]:
  "books_balance (db\<lparr>db_reservations := rs\<rparr>) = books_balance db"
  "books_balance (db\<lparr>db_ledger := ls\<rparr>) = books_balance db"
  "books_balance (db\<lparr>db_orders := os\<rparr>) = books_balance db"
  "books_balance (db\<lparr>db_codes := cs\<rparr>) = books_balance db"
  "books_balance (db\<lparr>db_redemptions := ds\<rparr>) = books_balance db"
  "books_balance (db\<lparr>db_subscriptions := ss\<rparr>) = books_balance db"
  "books_balance (db\<lparr>db_plans := ps\<rparr>) = books_balance db"
  "books_balance (db\<lparr>db_prices := qs\<rparr>) = books_balance db"
  by (simp_all add: books_balance_def balance_of_def transactions_of_def)

end
