(* ===== verification/Timeline.thy ===== *)
theory Timeline
  imports Billing_Store "HOL-Library.Product_Lexorder" "HOL-Library.Multiset"
begin

text \<open>
  The subscription timeline of a user (\<^verbatim>\<open>buildSubscriptionTimeline\<close> and what it calls in
  \<^verbatim>\<open>infra/persistence/postgres/billing/repository.go\<close>): a new grant is placed from its start
  on around the segments of its rank and above, and pushes aside those below, whose lost time
  is granted again later.

  Ranks are natural numbers, as \<^verbatim>\<open>subscriptionPlanRank\<close> computes them. \<open>time_sub\<close> is
  \<^verbatim>\<open>time.Time.Sub\<close>, which saturates at the bounds of a duration; \<^verbatim>\<open>time.Time\<close> itself is
  unbounded here. \<^verbatim>\<open>sort.SliceStable\<close> is \<open>sort_key\<close>, which is stable; \<open>timeline_less_key\<close> states
  that the key orders as the comparison of the code does.
\<close>

section \<open>Segments and grants\<close>

record segment =
  sg_SubscriptionID :: nat
  sg_PlanID :: nat
  sg_PriceID :: nat
  sg_Rank :: nat
  sg_StartAt :: gtime
  sg_EndAt :: gtime
  sg_CancelAtPeriodEnd :: bool
  sg_AutoRenew :: bool
  sg_NewGrant :: bool

record timeline_grant =
  gr_SubscriptionID :: nat
  gr_PlanID :: nat
  gr_PriceID :: nat
  gr_Rank :: nat
  gr_StartAt :: gtime
  gr_Duration :: duration
  gr_CancelAtPeriodEnd :: bool
  gr_AutoRenew :: bool
  gr_NewGrant :: bool

definition time_sub :: "gtime \<Rightarrow> gtime \<Rightarrow> duration" where
  "time_sub a b = max (- int64_max - 1) (min int64_max (a - b))"

definition min_time :: "gtime \<Rightarrow> gtime \<Rightarrow> gtime" where
  "min_time left right = (if left < right then left else right)"

definition max_time :: "gtime \<Rightarrow> gtime \<Rightarrow> gtime" where
  "max_time left right = (if left > right then left else right)"

definition timeline_overlaps :: "segment \<Rightarrow> segment \<Rightarrow> bool" where
  "timeline_overlaps left right \<longleftrightarrow> sg_StartAt left < sg_EndAt right \<and> sg_StartAt right < sg_EndAt left"

section \<open>Normal form\<close>

definition timeline_less :: "segment \<Rightarrow> segment \<Rightarrow> bool" where
  "timeline_less a b =
     (if sg_StartAt a = sg_StartAt b then
        if sg_Rank a = sg_Rank b then
          if sg_EndAt a = sg_EndAt b then sg_PlanID a < sg_PlanID b else sg_EndAt a < sg_EndAt b
        else sg_Rank a > sg_Rank b
      else sg_StartAt a < sg_StartAt b)"

definition timeline_key :: "segment \<Rightarrow> int \<times> int \<times> int \<times> nat" where
  "timeline_key s = (sg_StartAt s, - int (sg_Rank s), sg_EndAt s, sg_PlanID s)"

lemma timeline_less_key: "timeline_less a b \<longleftrightarrow> timeline_key a < timeline_key b"
  by (auto simp: timeline_less_def timeline_key_def less_prod_def)

definition proper_segment :: "segment \<Rightarrow> bool" where
  "proper_segment s \<longleftrightarrow> sg_PlanID s \<noteq> 0 \<and> sg_PriceID s \<noteq> 0 \<and> sg_EndAt s > sg_StartAt s"

text \<open>Everything of a segment but its times.\<close>

definition same_grant :: "segment \<Rightarrow> segment \<Rightarrow> bool" where
  "same_grant a b \<longleftrightarrow> sg_PlanID a = sg_PlanID b \<and> sg_PriceID a = sg_PriceID b \<and> sg_Rank a = sg_Rank b \<and>
     sg_SubscriptionID a = sg_SubscriptionID b \<and> sg_CancelAtPeriodEnd a = sg_CancelAtPeriodEnd b \<and>
     sg_AutoRenew a = sg_AutoRenew b \<and> sg_NewGrant a = sg_NewGrant b"

definition merge_step :: "segment list \<Rightarrow> segment \<Rightarrow> segment list" where
  "merge_step merged item =
     (if merged \<noteq> [] \<and> same_grant (last merged) item \<and> \<not> sg_EndAt (last merged) < sg_StartAt item then
        if sg_EndAt item > sg_EndAt (last merged)
        then butlast merged @ [(last merged)\<lparr>sg_EndAt := sg_EndAt item\<rparr>] else merged
      else merged @ [item])"

definition normalize_timeline :: "segment list \<Rightarrow> segment list" where
  "normalize_timeline segments =
     foldl merge_step [] (sort_key timeline_key (filter proper_segment segments))"

section \<open>Placing a grant\<close>

fun next_blocker_from :: "segment option \<Rightarrow> segment list \<Rightarrow> nat \<Rightarrow> gtime \<Rightarrow> segment option" where
  "next_blocker_from result [] rank cursor = result"
| "next_blocker_from result (item # items) rank cursor =
     (if sg_Rank item < rank \<or> \<not> sg_EndAt item > cursor then next_blocker_from result items rank cursor
      else if (case result of None \<Rightarrow> True | Some r \<Rightarrow> sg_StartAt item < sg_StartAt r \<or>
                 (sg_StartAt item = sg_StartAt r \<and> sg_EndAt item < sg_EndAt r))
      then next_blocker_from (Some item) items rank cursor
      else next_blocker_from result items rank cursor)"

definition next_blocker :: "segment list \<Rightarrow> nat \<Rightarrow> gtime \<Rightarrow> segment option" where
  "next_blocker segments rank cursor = next_blocker_from None segments rank cursor"

definition displaced_grant :: "segment \<Rightarrow> segment \<Rightarrow> timeline_grant" where
  "displaced_grant allocated item =
     \<lparr>gr_SubscriptionID = sg_SubscriptionID item, gr_PlanID = sg_PlanID item, gr_PriceID = sg_PriceID item,
      gr_Rank = sg_Rank item, gr_StartAt = max_time (sg_EndAt allocated) (sg_EndAt item),
      gr_Duration = time_sub (min_time (sg_EndAt item) (sg_EndAt allocated))
        (max_time (sg_StartAt item) (sg_StartAt allocated)),
      gr_CancelAtPeriodEnd = sg_CancelAtPeriodEnd item, gr_AutoRenew = sg_AutoRenew item,
      gr_NewGrant = sg_NewGrant item\<rparr>"

fun insert_loop :: "segment list \<Rightarrow> segment \<Rightarrow> segment list \<times> timeline_grant list" where
  "insert_loop [] allocated = ([], [])"
| "insert_loop (item # items) allocated =
     (let (kept, moved) = insert_loop items allocated in
      if \<not> timeline_overlaps item allocated \<or> sg_Rank item \<ge> sg_Rank allocated then (item # kept, moved)
      else
        let overlapStart = max_time (sg_StartAt item) (sg_StartAt allocated);
            overlapEnd = min_time (sg_EndAt item) (sg_EndAt allocated)
        in ((if sg_StartAt item < overlapStart then [item\<lparr>sg_EndAt := overlapStart\<rparr>] else []) @
            (if sg_EndAt item > overlapEnd then [item\<lparr>sg_StartAt := overlapEnd\<rparr>] else []) @ kept,
            (if overlapEnd > overlapStart then [displaced_grant allocated item] else []) @ moved))"

definition insert_timeline_segment :: "segment list \<Rightarrow> segment \<Rightarrow> segment list \<times> timeline_grant list" where
  "insert_timeline_segment segments allocated =
     (let (kept, moved) = insert_loop segments allocated in (normalize_timeline (kept @ [allocated]), moved))"

definition allocated_segment :: "timeline_grant \<Rightarrow> gtime \<Rightarrow> gtime \<Rightarrow> segment" where
  "allocated_segment g cursor endAt =
     \<lparr>sg_SubscriptionID = gr_SubscriptionID g, sg_PlanID = gr_PlanID g, sg_PriceID = gr_PriceID g,
      sg_Rank = gr_Rank g, sg_StartAt = cursor, sg_EndAt = endAt,
      sg_CancelAtPeriodEnd = gr_CancelAtPeriodEnd g, sg_AutoRenew = gr_AutoRenew g, sg_NewGrant = gr_NewGrant g\<rparr>"

lemma next_blocker_from_Some:
  "next_blocker_from result segments rank cursor = Some b \<Longrightarrow>
     result = Some b \<or> b \<in> set segments \<and> rank \<le> sg_Rank b \<and> cursor < sg_EndAt b"
  by (induction result segments rank cursor rule: next_blocker_from.induct) (auto split: if_splits)

lemma next_blocker_Some:
  "next_blocker segments rank cursor = Some b \<Longrightarrow> b \<in> set segments \<and> rank \<le> sg_Rank b \<and> cursor < sg_EndAt b"
  using next_blocker_from_Some [of None] by (auto simp: next_blocker_def)

text \<open>The end of the piece that fits at the cursor.\<close>

definition piece_end :: "segment option \<Rightarrow> gtime \<Rightarrow> duration \<Rightarrow> gtime" where
  "piece_end blocker cursor remaining =
     (case blocker of None \<Rightarrow> cursor + remaining
      | Some b \<Rightarrow> if sg_StartAt b < cursor + remaining then sg_StartAt b else cursor + remaining)"

function place_loop ::
    "timeline_grant \<Rightarrow> segment list \<Rightarrow> duration \<Rightarrow> gtime \<Rightarrow> timeline_grant list \<Rightarrow>
       segment list \<times> timeline_grant list" where
  "place_loop g segments remaining cursor displaced =
     (if remaining > 0 then
        let blocker = next_blocker segments (gr_Rank g) cursor;
            past = (case blocker of None \<Rightarrow> 0 | Some b \<Rightarrow> sg_EndAt b);
            endAt = piece_end blocker cursor remaining
        in if (case blocker of None \<Rightarrow> False | Some b \<Rightarrow> \<not> sg_StartAt b > cursor)
           then place_loop g segments remaining past displaced
           else if \<not> endAt > cursor then place_loop g segments remaining past displaced
           else let (segments', moved) = insert_timeline_segment segments (allocated_segment g cursor endAt)
                in place_loop g segments' (remaining - time_sub endAt cursor) endAt (displaced @ moved)
      else (normalize_timeline segments, displaced))"
  by pat_completeness auto

text \<open>
  The loop ends: it either allocates time or moves the cursor past a segment that blocks.
\<close>

definition blockers_left :: "timeline_grant \<Rightarrow> segment list \<Rightarrow> gtime \<Rightarrow> nat" where
  "blockers_left g segments cursor = length (filter (\<lambda>s. gr_Rank g \<le> sg_Rank s \<and> cursor < sg_EndAt s) segments)"

lemma blockers_left_decreases:
  assumes "next_blocker segments (gr_Rank g) cursor = Some b"
  shows "blockers_left g segments (sg_EndAt b) < blockers_left g segments cursor"
proof -
  let ?F = "\<lambda>c. filter (\<lambda>s. gr_Rank g \<le> sg_Rank s \<and> c < sg_EndAt s) segments"
  have b: "b \<in> set segments" "gr_Rank g \<le> sg_Rank b" "cursor < sg_EndAt b"
    using next_blocker_Some [OF assms] by blast+
  have "?F (sg_EndAt b) = filter (\<lambda>s. sg_EndAt b < sg_EndAt s) (?F cursor)"
    using b(3) by (auto intro: filter_cong)
  moreover have "length (filter (\<lambda>s. sg_EndAt b < sg_EndAt s) (?F cursor)) < length (?F cursor)"
    by (rule length_filter_less [of b]) (use b in auto)
  ultimately show ?thesis by (simp add: blockers_left_def)
qed

lemma piece_end_after:
  assumes "0 < remaining" "\<not> (case blocker of None \<Rightarrow> False | Some b \<Rightarrow> \<not> sg_StartAt b > cursor)"
  shows "cursor < piece_end blocker cursor remaining"
  using assms by (auto simp: piece_end_def split: option.splits)

lemma time_sub_pos: "b < a \<Longrightarrow> 0 < time_sub a b"
  by (auto simp: time_sub_def)

termination place_loop
proof (relation "measures [\<lambda>(g, segments, remaining, cursor, displaced). nat remaining,
      \<lambda>(g, segments, remaining, cursor, displaced). blockers_left g segments cursor]", goal_cases)
  case 1
  then show ?case by simp
next
  case (2 g segments remaining cursor displaced)
  then show ?case using blockers_left_decreases by (auto split: option.splits)
next
  case (3 g segments remaining cursor displaced)
  then show ?case using piece_end_after by blast
next
  case (4 g segments remaining cursor displaced)
  then show ?case using time_sub_pos by auto
qed

declare place_loop.simps [simp del]

definition place_timeline_grant ::
    "segment list \<Rightarrow> timeline_grant \<Rightarrow> repo_error + segment list \<times> timeline_grant list" where
  "place_timeline_grant existing g =
     (if gr_Duration g \<le> 0 then Inl InvalidInput
      else Inr (place_loop g (normalize_timeline existing) (gr_Duration g) (gr_StartAt g) []))"

text \<open>The three things the loop does, and the induction over them.\<close>

lemma place_loop_ready:
  "remaining \<le> 0 \<Longrightarrow> place_loop g segments remaining cursor displaced = (normalize_timeline segments, displaced)"
  by (simp add: place_loop.simps [of g segments remaining])

lemma place_loop_jump:
  assumes "0 < remaining" "next_blocker segments (gr_Rank g) cursor = Some b" "sg_StartAt b \<le> cursor"
  shows "place_loop g segments remaining cursor displaced = place_loop g segments remaining (sg_EndAt b) displaced"
  using assms(3) by (subst place_loop.simps) (simp add: assms(1,2) Let_def)

lemma place_loop_allocate:
  assumes "0 < remaining" "\<not> (case next_blocker segments (gr_Rank g) cursor of None \<Rightarrow> False | Some b \<Rightarrow> \<not> sg_StartAt b > cursor)"
    and "endAt = piece_end (next_blocker segments (gr_Rank g) cursor) cursor remaining"
    and "insert_timeline_segment segments (allocated_segment g cursor endAt) = (segments', moved)"
  shows "place_loop g segments remaining cursor displaced =
    place_loop g segments' (remaining - time_sub endAt cursor) endAt (displaced @ moved)"
  using piece_end_after [OF assms(1,2)] assms
  by (subst place_loop.simps) (simp add: Let_def if_not_P)

lemma place_loop_induct [case_names ready jump allocate]:
  assumes "\<And>g segs rem cur disp. rem \<le> 0 \<Longrightarrow> P g segs rem cur disp (normalize_timeline segs, disp)"
    and "\<And>g segs rem cur disp b res. 0 < rem \<Longrightarrow> next_blocker segs (gr_Rank g) cur = Some b \<Longrightarrow>
      sg_StartAt b \<le> cur \<Longrightarrow> P g segs rem (sg_EndAt b) disp res \<Longrightarrow> P g segs rem cur disp res"
    and "\<And>g segs rem cur disp endAt segs' moved res. 0 < rem \<Longrightarrow>
      endAt = piece_end (next_blocker segs (gr_Rank g) cur) cur rem \<Longrightarrow> cur < endAt \<Longrightarrow>
      insert_timeline_segment segs (allocated_segment g cur endAt) = (segs', moved) \<Longrightarrow>
      P g segs' (rem - time_sub endAt cur) endAt (disp @ moved) res \<Longrightarrow> P g segs rem cur disp res"
  shows "P g segments remaining cursor displaced (place_loop g segments remaining cursor displaced)"
proof (induction g segments remaining cursor displaced rule: place_loop.induct)
  case (1 g segments remaining cursor displaced)
  let ?blocker = "next_blocker segments (gr_Rank g) cursor"
  let ?stop = "piece_end ?blocker cursor remaining"
  consider (ready) "remaining \<le> 0"
    | (jump) b where "0 < remaining" "?blocker = Some b" "sg_StartAt b \<le> cursor"
    | (allocate) "0 < remaining" "\<not> (case ?blocker of None \<Rightarrow> False | Some b \<Rightarrow> \<not> sg_StartAt b > cursor)"
    by (cases ?blocker) force+
  then show ?case
  proof cases
    case ready
    then show ?thesis using assms(1) by (simp add: place_loop_ready)
  next
    case jump
    from 1(1) [OF jump(1) refl refl refl] jump(2,3)
    have "P g segments remaining (sg_EndAt b) displaced (place_loop g segments remaining (sg_EndAt b) displaced)" by simp
    then show ?thesis unfolding place_loop_jump [OF jump] by (rule assms(2) [OF jump])
  next
    case allocate
    note after = piece_end_after [OF allocate]
    obtain segs' moved where ins: "insert_timeline_segment segments (allocated_segment g cursor ?stop) = (segs', moved)"
      by (rule prod.exhaust)
    from 1(3) [OF allocate(1) refl refl refl allocate(2) _ ins [symmetric] refl] after
    have "P g segs' (remaining - time_sub ?stop cursor) ?stop (displaced @ moved)
        (place_loop g segs' (remaining - time_sub ?stop cursor) ?stop (displaced @ moved))" by simp
    then show ?thesis
      unfolding place_loop_allocate [OF allocate refl ins] by (rule assms(3) [OF allocate(1) refl after ins])
  qed
qed

section \<open>The queue of displaced grants\<close>

text \<open>What a placement displaces has a lower rank and a positive duration.\<close>

lemma insert_loop_moved:
  assumes "g \<in> set (snd (insert_loop segments allocated))"
  shows "gr_Rank g < sg_Rank allocated \<and> 0 < gr_Duration g"
  using assms
proof (induction segments)
  case (Cons item items)
  then show ?case
    by (auto simp: Let_def displaced_grant_def intro: time_sub_pos split: if_splits prod.splits)
qed simp

lemma place_loop_displaced:
  assumes "\<forall>x \<in> set displaced. gr_Rank x < gr_Rank g \<and> 0 < gr_Duration x"
  shows "\<forall>x \<in> set (snd (place_loop g segments remaining cursor displaced)). gr_Rank x < gr_Rank g \<and> 0 < gr_Duration x"
proof -
  let ?ok = "\<lambda>g ds. \<forall>x \<in> set ds. gr_Rank x < gr_Rank g \<and> 0 < gr_Duration x"
  have "?ok g displaced \<longrightarrow> ?ok g (snd (place_loop g segments remaining cursor displaced))"
  proof (rule place_loop_induct [where P = "\<lambda>g segs rem cur disp res. ?ok g disp \<longrightarrow> ?ok g (snd res)"], goal_cases)
    case (3 g segs rem cur disp endAt segs' moved res)
    have "?ok g moved"
    proof -
      have "moved = snd (insert_loop segs (allocated_segment g cur endAt))"
        using 3(4) by (simp add: insert_timeline_segment_def split: prod.splits)
      then show ?thesis
        using insert_loop_moved [of _ segs "allocated_segment g cur endAt"] by (simp add: allocated_segment_def)
    qed
    with 3(5) show ?case unfolding set_append ball_Un by blast
  qed (unfold snd_conv, blast+)
  then show ?thesis using assms by blast
qed

function build_loop :: "segment list \<Rightarrow> timeline_grant list \<Rightarrow> repo_error + segment list" where
  "build_loop segments [] = Inr (normalize_timeline segments)"
| "build_loop segments (current # queue) =
     (case place_timeline_grant segments current of
        Inl err \<Rightarrow> Inl err
      | Inr (segments', displaced) \<Rightarrow> build_loop segments' (displaced @ queue))"
  by pat_completeness auto

text \<open>The queue ends: a grant is replaced by finitely many of lower ranks.\<close>

termination build_loop
proof (relation "inv_image (mult {(a, b). a < b}) (\<lambda>(segments, queue). mset (map gr_Rank queue))", goal_cases)
  case 1
  then show ?case by (intro wf_inv_image wf_mult wf_less)
next
  case (2 segments current queue x segments' displaced)
  then have "\<forall>x \<in> set displaced. gr_Rank x < gr_Rank current"
    using place_loop_displaced [of "[]" current "normalize_timeline segments" "gr_Duration current" "gr_StartAt current"]
    by (auto simp: place_timeline_grant_def split: if_splits)
  then have "(mset (map gr_Rank queue) + mset (map gr_Rank displaced), mset (map gr_Rank queue) + {#gr_Rank current#})
      \<in> mult {(a, b). a < b}"
    by (intro one_step_implies_mult) auto
  then show ?case by (simp add: ac_simps)
qed

definition build_subscription_timeline :: "segment list \<Rightarrow> timeline_grant \<Rightarrow> repo_error + segment list" where
  "build_subscription_timeline existing g =
     (if gr_Duration g \<le> 0 then Inl InvalidInput else build_loop (normalize_timeline existing) [g])"

section \<open>Measures of a timeline\<close>

definition active_at :: "gtime \<Rightarrow> segment \<Rightarrow> bool" where
  "active_at t s \<longleftrightarrow> sg_StartAt s \<le> t \<and> t < sg_EndAt s"

text \<open>No time belongs to two segments, and no segment is empty or without plan or price.\<close>

definition timeline_ok :: "segment list \<Rightarrow> bool" where
  "timeline_ok segments \<longleftrightarrow>
     (\<forall>t. length (filter (active_at t) segments) \<le> 1) \<and> (\<forall>s \<in> set segments. proper_segment s)"

text \<open>
  A quantity that adds up when a segment is split. Such a quantity survives the normal form,
  and an insertion changes it only by what it inserts and what it cuts out.
\<close>

locale segment_measure =
  fixes f :: "segment \<Rightarrow> int"
  assumes split: "sg_StartAt s \<le> m \<Longrightarrow> m \<le> sg_EndAt s \<Longrightarrow>
    f s = f (s\<lparr>sg_EndAt := m\<rparr>) + f (s\<lparr>sg_StartAt := m\<rparr>)"
begin

definition total :: "segment list \<Rightarrow> int" where
  "total segments = sum_list (map f segments)"

lemma total_simps [simp]:
  "total [] = 0" "total (s # ss) = f s + total ss" "total (ss @ ts) = total ss + total ts"
  by (simp_all add: total_def)

lemma merged:
  assumes "same_grant a b" "sg_EndAt a = sg_StartAt b" "proper_segment a" "proper_segment b"
  shows "f (a\<lparr>sg_EndAt := sg_EndAt b\<rparr>) = f a + f b"
proof -
  let ?s = "a\<lparr>sg_EndAt := sg_EndAt b\<rparr>"
  have "f ?s = f (?s\<lparr>sg_EndAt := sg_EndAt a\<rparr>) + f (?s\<lparr>sg_StartAt := sg_EndAt a\<rparr>)"
    using assms by (intro split) (auto simp: proper_segment_def)
  moreover have "?s\<lparr>sg_EndAt := sg_EndAt a\<rparr> = a" by simp
  moreover have "?s\<lparr>sg_StartAt := sg_EndAt a\<rparr> = b"
    by (rule segment.equality) (use assms(1,2) in \<open>simp_all add: same_grant_def\<close>)
  ultimately show ?thesis by simp
qed

end

definition piece :: "segment \<Rightarrow> segment \<Rightarrow> segment" where
  "piece allocated item = item\<lparr>sg_StartAt := max (sg_StartAt item) (sg_StartAt allocated),
     sg_EndAt := min (sg_EndAt item) (sg_EndAt allocated)\<rparr>"

definition pieces :: "segment list \<Rightarrow> segment \<Rightarrow> segment list" where
  "pieces segments allocated = map (piece allocated)
     (filter (\<lambda>item. timeline_overlaps item allocated \<and> sg_Rank item < sg_Rank allocated) segments)"

lemma min_max_time [simp]: "min_time a b = min a b" "max_time a b = max a b"
  by (auto simp: min_time_def max_time_def)

lemma occurs_twice: "x \<in> set xs \<Longrightarrow> P x \<Longrightarrow> P y \<Longrightarrow> 2 \<le> length (filter P (xs @ y # ys))"
  by (induction xs) auto

context segment_measure
begin

lemma insert_loop_total:
  assumes "\<forall>s \<in> set segments. proper_segment s" "sg_StartAt allocated \<le> sg_EndAt allocated"
  shows "total (fst (insert_loop segments allocated)) + total (pieces segments allocated) = total segments"
  using assms
proof (induction segments)
  case (Cons item items)
  let ?a = "max (sg_StartAt item) (sg_StartAt allocated)" and ?b = "min (sg_EndAt item) (sg_EndAt allocated)"
  have IH: "total (fst (insert_loop items allocated)) + total (pieces items allocated) = total items"
    using Cons by simp
  show ?case
  proof (cases "\<not> timeline_overlaps item allocated \<or> sg_Rank item \<ge> sg_Rank allocated")
    case True
    then show ?thesis using IH by (auto simp: pieces_def split: prod.splits)
  next
    case False
    have pr: "sg_StartAt item < sg_EndAt item" using Cons(2) by (simp add: proper_segment_def)
    have ov: "sg_StartAt item \<le> ?a" "?a \<le> ?b" "?b \<le> sg_EndAt item"
      using False pr assms(2) by (auto simp: timeline_overlaps_def)
    have 1: "f item = f (item\<lparr>sg_EndAt := ?a\<rparr>) + f (item\<lparr>sg_StartAt := ?a\<rparr>)"
      using ov by (intro split) auto
    have 2: "f (item\<lparr>sg_StartAt := ?a\<rparr>) = f (piece allocated item) + f (item\<lparr>sg_StartAt := ?b\<rparr>)"
      using split [of "item\<lparr>sg_StartAt := ?a\<rparr>" ?b] ov by (simp add: piece_def)
    have l: "f (item\<lparr>sg_EndAt := ?a\<rparr>) = 0" if "\<not> sg_StartAt item < ?a"
      using split [of item "sg_StartAt item"] that ov(1) pr by simp
    have r: "f (item\<lparr>sg_StartAt := ?b\<rparr>) = 0" if "\<not> sg_EndAt item > ?b"
      using split [of item "sg_EndAt item"] that ov(3) pr by simp
    have "total (fst (insert_loop (item # items) allocated)) =
        f (item\<lparr>sg_EndAt := ?a\<rparr>) + f (item\<lparr>sg_StartAt := ?b\<rparr>) + total (fst (insert_loop items allocated))"
      using False l r by (simp add: Let_def split: prod.splits)
    moreover have "total (pieces (item # items) allocated) = f (piece allocated item) + total (pieces items allocated)"
      using False by (simp add: pieces_def)
    ultimately show ?thesis using IH 1 2 by simp
  qed
qed (simp add: pieces_def)

end

text \<open>The number of segments at a time is such a quantity.\<close>

lemma filter_length_sum: "int (length (filter P xs)) = sum_list (map (\<lambda>x. of_bool (P x)) xs)"
  by (induction xs) auto

interpretation depth: segment_measure "\<lambda>s. of_bool (active_at t s)" for t
  by unfold_locales (auto simp: active_at_def)

lemma depth_total: "depth.total t segments = int (length (filter (active_at t) segments))"
  by (simp add: depth.total_def filter_length_sum)

section \<open>The normal form\<close>

lemma merge_step_exclusive:
  assumes "\<forall>t. length (filter (active_at t) (merged @ item # rest)) \<le> 1" "merged \<noteq> []"
    and "\<not> sg_EndAt (last merged) < sg_StartAt item" "sg_StartAt (last merged) \<le> sg_StartAt item" "proper_segment item"
  shows "sg_EndAt (last merged) = sg_StartAt item"
proof (rule ccontr)
  assume "sg_EndAt (last merged) \<noteq> sg_StartAt item"
  then have "active_at (sg_StartAt item) (last merged)" "active_at (sg_StartAt item) item"
    using assms(3-5) by (auto simp: active_at_def proper_segment_def)
  then have "2 \<le> length (filter (active_at (sg_StartAt item)) (merged @ item # rest))"
    using assms(2) by (intro occurs_twice) auto
  then show False using assms(1) by (metis Suc_1 Suc_n_not_le_n order_trans)
qed

lemma merge_step_eq:
  assumes "timeline_ok (merged @ item # rest)" "\<forall>m \<in> set merged. sg_StartAt m \<le> sg_StartAt item"
  obtains (append) "merge_step merged item = merged @ [item]"
  | (merge) ms a where "merged = ms @ [a]" "same_grant a item" "sg_EndAt a = sg_StartAt item"
      "merge_step merged item = ms @ [a\<lparr>sg_EndAt := sg_EndAt item\<rparr>]" "proper_segment a" "proper_segment item"
proof (cases "merged \<noteq> [] \<and> same_grant (last merged) item \<and> \<not> sg_EndAt (last merged) < sg_StartAt item")
  case True
  then obtain ms a where m: "merged = ms @ [a]" by (metis rev_exhaust)
  have p: "proper_segment a" "proper_segment item" using assms(1) m by (auto simp: timeline_ok_def)
  have "sg_EndAt (last merged) = sg_StartAt item"
    using assms True p by (intro merge_step_exclusive [of merged item rest]) (auto simp: timeline_ok_def m)
  moreover from this have "sg_EndAt item > sg_EndAt (last merged)" using p by (simp add: proper_segment_def)
  ultimately show thesis using True p by (intro merge [of ms a]) (auto simp: merge_step_def m)
next
  case False
  then show thesis by (intro append) (auto simp: merge_step_def)
qed

lemma merge_step_ok:
  assumes "timeline_ok (merged @ item # rest)" "\<forall>m \<in> set merged. sg_StartAt m \<le> sg_StartAt item"
  shows "timeline_ok (merge_step merged item @ rest)"
  using assms
proof (cases rule: merge_step_eq)
  case append
  then show ?thesis using assms(1) by simp
next
  case (merge ms a)
  let ?a = "a\<lparr>sg_EndAt := sg_EndAt item\<rparr>"
  have count: "length (filter (active_at t) (merge_step merged item @ rest)) =
      length (filter (active_at t) (merged @ item # rest))" for t
  proof -
    have "of_bool (active_at t ?a) = (of_bool (active_at t a) + of_bool (active_at t item) :: int)"
      by (rule depth.merged [OF merge(2,3,5,6)])
    then have "depth.total t (merge_step merged item @ rest) = depth.total t (merged @ item # rest)"
      unfolding merge(4) unfolding merge(1) by simp
    then show ?thesis unfolding depth_total by simp
  qed
  have "proper_segment ?a" using merge(3,5,6) by (simp add: proper_segment_def)
  then have "\<forall>s \<in> set (merge_step merged item @ rest). proper_segment s"
    using assms(1) unfolding timeline_ok_def merge(4) by (simp add: merge(1))
  with assms(1) show ?thesis unfolding timeline_ok_def count by blast
qed

lemma merge_fold_ok:
  assumes "timeline_ok (merged @ rest)" "sorted (map sg_StartAt rest)"
    and "\<forall>m \<in> set merged. \<forall>s \<in> set rest. sg_StartAt m \<le> sg_StartAt s"
  shows "timeline_ok (foldl merge_step merged rest)"
  using assms
proof (induction rest arbitrary: merged)
  case (Cons item rest)
  have starts: "sg_StartAt ` set (merge_step merged item) \<subseteq> sg_StartAt ` (set merged \<union> {item})"
    by (rule merge_step_eq [OF Cons.prems(1)]) (use Cons.prems(3) in auto)
  have "timeline_ok (foldl merge_step (merge_step merged item) rest)"
  proof (rule Cons.IH)
    show "timeline_ok (merge_step merged item @ rest)" using Cons.prems by (intro merge_step_ok) auto
    show "sorted (map sg_StartAt rest)" using Cons.prems(2) by simp
    show "\<forall>m \<in> set (merge_step merged item). \<forall>s \<in> set rest. sg_StartAt m \<le> sg_StartAt s"
      using starts Cons.prems(2,3) by (fastforce simp: image_subset_iff)
  qed
  then show ?case by simp
qed simp

context segment_measure
begin

lemma merge_fold_total:
  assumes "timeline_ok (merged @ rest)" "sorted (map sg_StartAt rest)"
    and "\<forall>m \<in> set merged. \<forall>s \<in> set rest. sg_StartAt m \<le> sg_StartAt s"
  shows "total (foldl merge_step merged rest) = total (merged @ rest)"
  using assms
proof (induction rest arbitrary: merged)
  case (Cons item rest)
  have starts: "sg_StartAt ` set (merge_step merged item) \<subseteq> sg_StartAt ` (set merged \<union> {item})"
    by (rule merge_step_eq [OF Cons.prems(1)]) (use Cons.prems(3) in auto)
  have "total (foldl merge_step (merge_step merged item) rest) = total (merge_step merged item @ rest)"
  proof (rule Cons.IH)
    show "timeline_ok (merge_step merged item @ rest)" using Cons.prems by (intro merge_step_ok) auto
    show "sorted (map sg_StartAt rest)" using Cons.prems(2) by simp
    show "\<forall>m \<in> set (merge_step merged item). \<forall>s \<in> set rest. sg_StartAt m \<le> sg_StartAt s"
      using starts Cons.prems(2,3) by (fastforce simp: image_subset_iff)
  qed
  also have "\<dots> = total (merged @ item # rest)"
    by (rule merge_step_eq [OF Cons.prems(1)]) (use Cons.prems(3) in \<open>auto simp: merged\<close>)
  finally show ?case by simp
qed simp

end

lemma length_filter_sort_key [simp]: "length (filter P (sort_key k xs)) = length (filter P xs)"
  by (metis mset_filter mset_sort size_mset)

lemma sorted_starts: "sorted (map sg_StartAt (sort_key timeline_key xs))"
proof -
  have "sorted (map timeline_key (sort_key timeline_key xs))" by simp
  then show ?thesis
    unfolding sorted_map by (rule sorted_wrt_mono_rel [rotated]) (auto simp: timeline_key_def less_eq_prod_def)
qed

lemma timeline_ok_filter: "timeline_ok xs \<Longrightarrow> filter proper_segment xs = xs"
  by (simp add: timeline_ok_def)

lemma timeline_ok_sort [simp]: "timeline_ok (sort_key k xs) = timeline_ok xs"
  by (simp add: timeline_ok_def)

lemma normalize_ok: "timeline_ok (filter proper_segment xs) \<Longrightarrow> timeline_ok (normalize_timeline xs)"
  unfolding normalize_timeline_def by (rule merge_fold_ok) (simp_all add: sorted_starts)

context segment_measure
begin

lemma total_sort [simp]: "total (sort_key k xs) = total xs"
  unfolding total_def by (metis mset_map mset_sort sum_mset_sum_list)

lemma normalize_total: "timeline_ok xs \<Longrightarrow> total (normalize_timeline xs) = total xs"
  unfolding normalize_timeline_def
  using merge_fold_total [of "[]" "sort_key timeline_key (filter proper_segment xs)"]
  by (simp add: timeline_ok_filter sorted_starts)

end

section \<open>Inserting\<close>

lemma insert_loop_proper:
  assumes "\<forall>s \<in> set segments. proper_segment s"
  shows "\<forall>s \<in> set (fst (insert_loop segments allocated)). proper_segment s"
  using assms
proof (induction segments)
  case (Cons item items)
  then have "\<forall>s \<in> set (fst (insert_loop items allocated)). proper_segment s" "proper_segment item" by simp_all
  then show ?case by (auto simp: Let_def proper_segment_def timeline_overlaps_def split: prod.splits if_splits)
qed simp

text \<open>A segment fits when no segment of its rank or above overlaps it.\<close>

definition fits :: "segment list \<Rightarrow> segment \<Rightarrow> bool" where
  "fits segments a \<longleftrightarrow> proper_segment a \<and> (\<forall>s \<in> set segments. sg_Rank a \<le> sg_Rank s \<longrightarrow> \<not> timeline_overlaps s a)"

lemma active_piece: "active_at t (piece a s) \<longleftrightarrow> active_at t s \<and> active_at t a"
  by (auto simp: active_at_def piece_def)

lemma active_overlap: "active_at t s \<Longrightarrow> active_at t a \<Longrightarrow> timeline_overlaps s a"
  by (auto simp: active_at_def timeline_overlaps_def)

lemma depth_pieces:
  assumes "fits segments a"
  shows "length (filter (active_at t) (pieces segments a)) =
    (if active_at t a then length (filter (active_at t) segments) else 0)"
proof -
  have "filter (active_at t \<circ> piece a)
        (filter (\<lambda>item. timeline_overlaps item a \<and> sg_Rank item < sg_Rank a) segments) =
      (if active_at t a then filter (active_at t) segments else [])"
    using assms active_overlap [of t _ a] unfolding fits_def filter_filter
    by (auto simp: active_piece linorder_not_le intro!: filter_cong)
  then show ?thesis unfolding pieces_def filter_map by simp
qed

lemma insert_ok:
  assumes "timeline_ok segments" "fits segments a"
  shows "timeline_ok (fst (insert_loop segments a) @ [a])"
proof -
  have p: "\<forall>s \<in> set segments. proper_segment s" "proper_segment a" "sg_StartAt a \<le> sg_EndAt a"
    using assms by (auto simp: timeline_ok_def fits_def proper_segment_def)
  have "length (filter (active_at t) (fst (insert_loop segments a) @ [a])) \<le> 1" for t
  proof -
    have "length (filter (active_at t) (fst (insert_loop segments a))) + length (filter (active_at t) (pieces segments a)) =
        length (filter (active_at t) segments)"
      using depth.insert_loop_total [OF p(1,3), of t] unfolding depth_total by linarith
    then show ?thesis using assms(1) by (simp add: depth_pieces [OF assms(2)] timeline_ok_def split: if_splits)
  qed
  then show ?thesis using insert_loop_proper [OF p(1)] p(2) by (auto simp: timeline_ok_def)
qed

lemma insert_timeline_eq:
  "insert_timeline_segment segments a =
     (normalize_timeline (fst (insert_loop segments a) @ [a]), snd (insert_loop segments a))"
  by (simp add: insert_timeline_segment_def split: prod.splits)

lemma insert_timeline_ok:
  "timeline_ok segments \<Longrightarrow> fits segments a \<Longrightarrow> timeline_ok (fst (insert_timeline_segment segments a))"
  using normalize_ok insert_ok [of segments a]
  by (simp add: insert_timeline_eq timeline_ok_filter del: filter_append)

context segment_measure
begin

lemma insert_total:
  assumes "timeline_ok segments" "fits segments a"
  shows "total (fst (insert_timeline_segment segments a)) = total segments + f a - total (pieces segments a)"
proof -
  have "total (fst (insert_timeline_segment segments a)) = total (fst (insert_loop segments a) @ [a])"
    using normalize_total [OF insert_ok [OF assms]] by (simp add: insert_timeline_eq)
  moreover have "total (fst (insert_loop segments a)) + total (pieces segments a) = total segments"
    using assms by (intro insert_loop_total) (auto simp: timeline_ok_def fits_def proper_segment_def)
  ultimately show ?thesis by simp
qed

end

text \<open>The piece the placement allocates fits.\<close>

lemma next_blocker_from_result:
  "\<exists>b. next_blocker_from (Some r) segments rank cursor = Some b \<and> sg_StartAt b \<le> sg_StartAt r"
proof (induction segments arbitrary: r)
  case (Cons item items)
  have "\<exists>b. next_blocker_from (Some item) items rank cursor = Some b \<and> sg_StartAt b \<le> sg_StartAt r"
    if "sg_StartAt item \<le> sg_StartAt r"
    using Cons [of item] that order_trans by blast
  with Cons [of r] show ?case by simp
qed simp

lemma next_blocker_from_first:
  assumes "s \<in> set segments" "rank \<le> sg_Rank s" "cursor < sg_EndAt s"
  shows "\<exists>b. next_blocker_from result segments rank cursor = Some b \<and> sg_StartAt b \<le> sg_StartAt s"
  using assms(1)
proof (induction segments arbitrary: result)
  case (Cons item items)
  show ?case
  proof (cases "s \<in> set items")
    case True
    then show ?thesis using Cons.IH by simp
  next
    case False
    then have s: "item = s" using Cons.prems by simp
    show ?thesis
    proof (cases result)
      case None
      then show ?thesis using assms(2,3) next_blocker_from_result by (simp add: s)
    next
      case (Some r)
      have "\<exists>b. next_blocker_from (Some r) items rank cursor = Some b \<and> sg_StartAt b \<le> sg_StartAt s"
        if "sg_StartAt r \<le> sg_StartAt s"
        using next_blocker_from_result [of r items rank cursor] that order_trans by blast
      then show ?thesis using assms(2,3) next_blocker_from_result [of s items rank cursor]
        by (auto simp: s Some)
    qed
  qed
qed simp

lemma next_blocker_first:
  "s \<in> set segments \<Longrightarrow> rank \<le> sg_Rank s \<Longrightarrow> cursor < sg_EndAt s \<Longrightarrow>
     \<exists>b. next_blocker segments rank cursor = Some b \<and> sg_StartAt b \<le> sg_StartAt s"
  unfolding next_blocker_def by (rule next_blocker_from_first) auto

lemma piece_fits:
  assumes "cursor < endAt" "endAt = piece_end (next_blocker segments (gr_Rank g) cursor) cursor remaining"
    and "gr_PlanID g \<noteq> 0" "gr_PriceID g \<noteq> 0"
  shows "fits segments (allocated_segment g cursor endAt)"
  unfolding fits_def
proof (intro conjI ballI impI notI)
  show "proper_segment (allocated_segment g cursor endAt)"
    using assms by (simp add: proper_segment_def allocated_segment_def)
  fix s assume s: "s \<in> set segments" "sg_Rank (allocated_segment g cursor endAt) \<le> sg_Rank s"
    "timeline_overlaps s (allocated_segment g cursor endAt)"
  then have "gr_Rank g \<le> sg_Rank s" "cursor < sg_EndAt s" "sg_StartAt s < endAt"
    by (auto simp: allocated_segment_def timeline_overlaps_def)
  from next_blocker_first [OF s(1) this(1,2)] this(3) show False
    unfolding assms(2) by (auto simp: piece_end_def split: if_splits)
qed

lemma piece_end_bound: "0 < remaining \<Longrightarrow> piece_end blocker cursor remaining \<le> cursor + remaining"
  by (auto simp: piece_end_def split: option.splits)

section \<open>The time of a grant\<close>

text \<open>Everything of a segment or a grant but its times, and the time that the segments or grants of
  the selected keys have in a timeline or in a queue.\<close>

type_synonym segment_key = "nat \<times> nat \<times> nat \<times> nat \<times> bool \<times> bool \<times> bool"

definition segment_key :: "segment \<Rightarrow> segment_key" where
  "segment_key s = (sg_SubscriptionID s, sg_PlanID s, sg_PriceID s, sg_Rank s, sg_CancelAtPeriodEnd s, sg_AutoRenew s, sg_NewGrant s)"

definition grant_key :: "timeline_grant \<Rightarrow> segment_key" where
  "grant_key g = (gr_SubscriptionID g, gr_PlanID g, gr_PriceID g, gr_Rank g, gr_CancelAtPeriodEnd g, gr_AutoRenew g, gr_NewGrant g)"

definition time_of :: "(segment_key \<Rightarrow> bool) \<Rightarrow> segment list \<Rightarrow> duration" where
  "time_of k segments = sum_list (map (\<lambda>s. if k (segment_key s) then sg_EndAt s - sg_StartAt s else 0) segments)"

definition granted_time :: "(segment_key \<Rightarrow> bool) \<Rightarrow> timeline_grant list \<Rightarrow> duration" where
  "granted_time k gs = sum_list (map (\<lambda>g. if k (grant_key g) then gr_Duration g else 0) gs)"

definition grant_ok :: "timeline_grant \<Rightarrow> bool" where
  "grant_ok g \<longleftrightarrow> gr_PlanID g \<noteq> 0 \<and> gr_PriceID g \<noteq> 0 \<and> 0 < gr_Duration g \<and> gr_Duration g \<le> int64_max"

lemma granted_time_simps [simp]:
  "granted_time k [] = 0" "granted_time k (xs @ ys) = granted_time k xs + granted_time k ys"
  "granted_time k (g # gs) = (if k (grant_key g) then gr_Duration g else 0) + granted_time k gs"
  by (simp_all add: granted_time_def)

interpretation span: segment_measure "\<lambda>s. if k (segment_key s) then sg_EndAt s - sg_StartAt s else 0" for k
  by unfold_locales (simp add: segment_key_def)

lemma span_total: "span.total k segments = time_of k segments"
  by (simp add: span.total_def time_of_def)

lemma segment_key_allocated [simp]: "segment_key (allocated_segment g s e) = grant_key g"
  "sg_Rank (allocated_segment g s e) = gr_Rank g" "sg_StartAt (allocated_segment g s e) = s"
  "sg_EndAt (allocated_segment g s e) = e"
  by (simp_all add: segment_key_def grant_key_def allocated_segment_def)

lemma segment_key_piece: "segment_key (piece a s) = segment_key s"
  by (simp add: piece_def segment_key_def)

lemma time_sub_exact: "0 \<le> a - b \<Longrightarrow> a - b \<le> int64_max \<Longrightarrow> time_sub a b = a - b"
  by (simp add: time_sub_def)

text \<open>What an insertion pushes aside is granted again in full.\<close>

lemma moved_time:
  assumes "\<forall>s \<in> set segments. proper_segment s" "proper_segment a" "sg_EndAt a - sg_StartAt a \<le> int64_max"
  shows "granted_time k (snd (insert_loop segments a)) = time_of k (pieces segments a) \<and>
    (\<forall>g \<in> set (snd (insert_loop segments a)). grant_ok g)"
  using assms(1)
proof (induction segments)
  case (Cons item items)
  have IH: "granted_time k (snd (insert_loop items a)) = time_of k (pieces items a)"
    "\<forall>g \<in> set (snd (insert_loop items a)). grant_ok g"
    using Cons by simp_all
  show ?case
  proof (cases "\<not> timeline_overlaps item a \<or> sg_Rank item \<ge> sg_Rank a")
    case True
    then show ?thesis using IH by (auto simp: pieces_def split: prod.splits)
  next
    case False
    let ?s = "max (sg_StartAt item) (sg_StartAt a)" and ?e = "min (sg_EndAt item) (sg_EndAt a)"
    have item: "proper_segment item" using Cons(2) by simp
    have se: "?s < ?e" "?e - ?s \<le> int64_max"
      using False item assms(2,3) by (auto simp: timeline_overlaps_def proper_segment_def)
    have d: "time_sub ?e ?s = ?e - ?s" using se by (intro time_sub_exact) simp_all
    have ok: "grant_ok (displaced_grant a item)"
      using item se by (simp add: displaced_grant_def grant_ok_def proper_segment_def d)
    have "snd (insert_loop (item # items) a) = displaced_grant a item # snd (insert_loop items a)"
      using False se by (simp add: Let_def split: prod.splits)
    moreover have "pieces (item # items) a = piece a item # pieces items a"
      using False by (simp add: pieces_def)
    moreover have "grant_key (displaced_grant a item) = segment_key item"
      by (simp add: grant_key_def displaced_grant_def segment_key_def)
    ultimately show ?thesis
      using IH ok by (simp add: time_of_def segment_key_piece displaced_grant_def d) (simp add: piece_def)
  qed
qed (simp add: pieces_def time_of_def)

lemma place_loop_spec:
  assumes "timeline_ok segments" "gr_PlanID g \<noteq> 0" "gr_PriceID g \<noteq> 0" "remaining \<le> int64_max"
    and "\<forall>d \<in> set displaced. grant_ok d"
    and "place_loop g segments remaining cursor displaced = (segments', displaced')"
  shows "timeline_ok segments' \<and> (\<forall>d \<in> set displaced'. grant_ok d) \<and>
    time_of k segments' + granted_time k displaced' =
      time_of k segments + granted_time k displaced + (if k (grant_key g) then max 0 remaining else 0)"
proof -
  let ?P = "\<lambda>g segs rem disp res. timeline_ok segs \<and> gr_PlanID g \<noteq> 0 \<and> gr_PriceID g \<noteq> 0 \<and> rem \<le> int64_max \<and>
    (\<forall>d \<in> set disp. grant_ok d) \<longrightarrow>
    timeline_ok (fst res) \<and> (\<forall>d \<in> set (snd res). grant_ok d) \<and>
    time_of k (fst res) + granted_time k (snd res) =
      time_of k segs + granted_time k disp + (if k (grant_key g) then max 0 rem else 0)"
  have "?P g segments remaining displaced (place_loop g segments remaining cursor displaced)"
  proof (rule place_loop_induct [where P = "\<lambda>g segs rem cur disp res. ?P g segs rem disp res"], goal_cases)
    case (1 g segs rem cur disp)
    show ?case
      using 1 normalize_ok [of segs] span.normalize_total [of segs k]
      by (auto simp: timeline_ok_filter span_total)
  next
    case (2 g segs rem cur disp b res)
    then show ?case by blast
  next
    case (3 g segs rem cur disp endAt segs' moved res)
    let ?a = "allocated_segment g cur endAt"
    show ?case
    proof (intro impI, elim conjE)
      assume ok: "timeline_ok segs" "gr_PlanID g \<noteq> 0" "gr_PriceID g \<noteq> 0" "rem \<le> int64_max"
        "\<forall>d \<in> set disp. grant_ok d"
      have fit: "fits segs ?a" by (rule piece_fits [OF 3(3,2) ok(2,3)])
      have "endAt \<le> cur + rem" unfolding 3(2) by (rule piece_end_bound [OF 3(1)])
      with 3(3) have len: "0 < endAt - cur" "endAt - cur \<le> rem" by simp_all
      have sub: "time_sub endAt cur = endAt - cur" using len ok(4) by (intro time_sub_exact) auto
      have "segs' = fst (insert_timeline_segment segs ?a)" and moved: "moved = snd (insert_loop segs ?a)"
        using 3(4) by (simp_all add: insert_timeline_eq)
      then have segs': "timeline_ok segs'"
        "time_of k segs' = time_of k segs + (if k (grant_key g) then endAt - cur else 0) - time_of k (pieces segs ?a)"
        using insert_timeline_ok [OF ok(1) fit] span.insert_total [OF ok(1) fit, of k] by (simp_all add: span_total)
      have m: "granted_time k moved = time_of k (pieces segs ?a)" "\<forall>d \<in> set moved. grant_ok d"
        using moved_time [of segs ?a k] ok(1,4) fit len by (simp_all add: timeline_ok_def fits_def moved)
      have "\<forall>d \<in> set (disp @ moved). grant_ok d" using ok(5) m(2) by auto
      then have "timeline_ok (fst res) \<and> (\<forall>d \<in> set (snd res). grant_ok d) \<and>
          time_of k (fst res) + granted_time k (snd res) = time_of k segs' + granted_time k (disp @ moved) +
            (if k (grant_key g) then max 0 (rem - (endAt - cur)) else 0)"
        using 3(5) segs'(1) ok(2-4) len unfolding sub by simp
      then show "timeline_ok (fst res) \<and> (\<forall>d \<in> set (snd res). grant_ok d) \<and>
          time_of k (fst res) + granted_time k (snd res) = time_of k segs + granted_time k disp +
            (if k (grant_key g) then max 0 rem else 0)"
        using segs'(2) m(1) len by (auto simp: max_def)
    qed
  qed
  then show ?thesis using assms by simp
qed

lemma build_loop_spec:
  assumes "timeline_ok segments" "\<forall>g \<in> set queue. grant_ok g"
  shows "\<exists>segments'. build_loop segments queue = Inr segments' \<and> timeline_ok segments' \<and>
    (\<forall>k. time_of k segments' = time_of k segments + granted_time k queue)"
  using assms
proof (induction segments queue rule: build_loop.induct)
  case (1 segments)
  then show ?case
    using normalize_ok [of segments] span.normalize_total [of segments] by (simp add: timeline_ok_filter span_total)
next
  case (2 segments current queue)
  have cur: "grant_ok current" using 2(3) by simp
  obtain segs' disp where p: "place_loop current (normalize_timeline segments) (gr_Duration current) (gr_StartAt current) [] = (segs', disp)"
    by (rule prod.exhaust)
  have norm: "timeline_ok (normalize_timeline segments)" "time_of k (normalize_timeline segments) = time_of k segments" for k
    using 2(2) normalize_ok [of segments] span.normalize_total [of segments k] by (simp_all add: timeline_ok_filter span_total)
  have spec: "timeline_ok segs' \<and> (\<forall>d \<in> set disp. grant_ok d) \<and>
      time_of k segs' + granted_time k disp = time_of k segments + (if k (grant_key current) then gr_Duration current else 0)" for k
    using place_loop_spec [OF norm(1) _ _ _ _ p, of k] cur norm(2) by (simp add: grant_ok_def)
  have pl: "place_timeline_grant segments current = Inr (segs', disp)"
    using cur by (simp add: place_timeline_grant_def p grant_ok_def)
  have "timeline_ok segs'" "\<forall>g \<in> set (disp @ queue). grant_ok g" using spec 2(3) by auto
  from 2(1) [OF pl refl this] obtain segs'' where b: "build_loop segs' (disp @ queue) = Inr segs''" "timeline_ok segs''"
    "\<forall>k. time_of k segs'' = time_of k segs' + granted_time k (disp @ queue)" by blast
  have "time_of k segs'' = time_of k segments + granted_time k (current # queue)" for k
    using b(3) [rule_format, of k] spec [of k] by simp
  with b(1,2) show ?case by (simp add: pl)
qed

section \<open>Who holds a time\<close>

interpretation occ: segment_measure "\<lambda>s. of_bool (segment_key s = k \<and> active_at t s)" for k t
  by unfold_locales (auto simp: active_at_def segment_key_def)

lemma occ_pos: "0 < occ.total k t segments \<longleftrightarrow> (\<exists>s \<in> set segments. segment_key s = k \<and> active_at t s)"
  and occ_nonneg: "0 \<le> occ.total k t segments"
proof -
  show "0 \<le> occ.total k t segments" by (induction segments) auto
  show "0 < occ.total k t segments \<longleftrightarrow> (\<exists>s \<in> set segments. segment_key s = k \<and> active_at t s)"
  proof (induction segments)
    case (Cons s segments)
    have "0 \<le> occ.total k t segments" by (induction segments) auto
    with Cons show ?case by (auto simp del: not_gr_zero)
  qed simp
qed

lemma segment_key_rank: "segment_key a = segment_key b \<Longrightarrow> sg_Rank a = sg_Rank b"
  by (simp add: segment_key_def)

lemma occ_pieces:
  assumes "\<And>s. s \<in> set segments \<Longrightarrow> segment_key s = k \<Longrightarrow> sg_Rank s < sg_Rank a \<Longrightarrow> \<not> active_at t a"
  shows "occ.total k t (pieces segments a) = 0"
proof -
  have "\<not> 0 < occ.total k t (pieces segments a)"
    unfolding occ_pos using assms by (auto simp: pieces_def segment_key_piece active_piece)
  with occ_nonneg [of k t "pieces segments a"] show ?thesis by linarith
qed

lemma normalize_keeps:
  assumes "timeline_ok segments" "s \<in> set segments" "active_at t s"
  shows "\<exists>s' \<in> set (normalize_timeline segments). active_at t s' \<and> segment_key s' = segment_key s"
proof -
  have "0 < occ.total (segment_key s) t segments" unfolding occ_pos using assms by blast
  then have "0 < occ.total (segment_key s) t (normalize_timeline segments)"
    by (simp add: occ.normalize_total [OF assms(1)])
  then show ?thesis unfolding occ_pos by blast
qed

lemma insert_keeps:
  assumes "timeline_ok segments" "fits segments a"
  shows "active_at t a \<Longrightarrow> \<exists>s' \<in> set (fst (insert_timeline_segment segments a)). active_at t s' \<and> segment_key s' = segment_key a"
    and "s \<in> set segments \<Longrightarrow> active_at t s \<Longrightarrow> \<exists>s' \<in> set (fst (insert_timeline_segment segments a)).
      active_at t s' \<and> (segment_key s' = segment_key s \<or> sg_Rank s < sg_Rank a \<and> segment_key s' = segment_key a)"
proof -
  note total = occ.insert_total [OF assms]
  show new: "\<exists>s' \<in> set (fst (insert_timeline_segment segments a)). active_at t s' \<and> segment_key s' = segment_key a"
    if "active_at t a"
  proof -
    have "occ.total (segment_key a) t (pieces segments a) = 0"
      by (rule occ_pieces) (metis segment_key_rank less_irrefl)
    then have "0 < occ.total (segment_key a) t (fst (insert_timeline_segment segments a))"
      using that occ_nonneg [of "segment_key a" t segments] by (simp add: total)
    then show ?thesis unfolding occ_pos by blast
  qed
  show "\<exists>s' \<in> set (fst (insert_timeline_segment segments a)).
      active_at t s' \<and> (segment_key s' = segment_key s \<or> sg_Rank s < sg_Rank a \<and> segment_key s' = segment_key a)"
    if s: "s \<in> set segments" "active_at t s"
  proof (cases "active_at t a \<and> sg_Rank s < sg_Rank a")
    case True
    then show ?thesis using new by blast
  next
    case False
    have "occ.total (segment_key s) t (pieces segments a) = 0"
      by (rule occ_pieces) (metis False segment_key_rank)
    moreover have "0 < occ.total (segment_key s) t segments" unfolding occ_pos using s by blast
    ultimately have "0 < occ.total (segment_key s) t (fst (insert_timeline_segment segments a))"
      using total [of "segment_key s" t] by simp
    then show ?thesis unfolding occ_pos by blast
  qed
qed

text \<open>Every time a segment held is still held by its grant, or by one of a higher rank if it is below \<open>r\<close>.\<close>

definition timeline_kept :: "nat \<Rightarrow> segment list \<Rightarrow> segment list \<Rightarrow> bool" where
  "timeline_kept r segs segs' \<longleftrightarrow> (\<forall>t. \<forall>s \<in> set segs. active_at t s \<longrightarrow> (\<exists>s' \<in> set segs'. active_at t s' \<and>
     (segment_key s' = segment_key s \<or> sg_Rank s < r \<and> sg_Rank s < sg_Rank s')))"

lemma timeline_kept_trans:
  assumes "timeline_kept r a b" "timeline_kept r b c"
  shows "timeline_kept r a c"
  unfolding timeline_kept_def
proof (intro allI ballI impI)
  fix t s assume "s \<in> set a" "active_at t s"
  then obtain s1 where 1: "s1 \<in> set b" "active_at t s1"
    "segment_key s1 = segment_key s \<or> sg_Rank s < r \<and> sg_Rank s < sg_Rank s1"
    using assms(1) unfolding timeline_kept_def by blast
  then obtain s2 where 2: "s2 \<in> set c" "active_at t s2"
    "segment_key s2 = segment_key s1 \<or> sg_Rank s1 < r \<and> sg_Rank s1 < sg_Rank s2"
    using assms(2) unfolding timeline_kept_def by blast
  have "segment_key s2 = segment_key s \<or> sg_Rank s < r \<and> sg_Rank s < sg_Rank s2"
    using 1(3) 2(3) segment_key_rank [of s1 s] segment_key_rank [of s2 s1] by (elim disjE) auto
  with 2(1,2) show "\<exists>s' \<in> set c. active_at t s' \<and> (segment_key s' = segment_key s \<or> sg_Rank s < r \<and> sg_Rank s < sg_Rank s')"
    by blast
qed

lemma normalize_kept: "timeline_ok segments \<Longrightarrow> timeline_kept r segments (normalize_timeline segments)"
  unfolding timeline_kept_def using normalize_keeps by blast

lemma insert_kept:
  assumes "timeline_ok segments" "fits segments a" "sg_Rank a \<le> r"
  shows "timeline_kept r segments (fst (insert_timeline_segment segments a))"
  unfolding timeline_kept_def
proof (intro allI ballI impI)
  fix t s assume "s \<in> set segments" "active_at t s"
  from insert_keeps(2) [OF assms(1,2) this] obtain s' where s': "s' \<in> set (fst (insert_timeline_segment segments a))"
    "active_at t s'" "segment_key s' = segment_key s \<or> sg_Rank s < sg_Rank a \<and> segment_key s' = segment_key a" by blast
  then have "segment_key s' = segment_key s \<or> sg_Rank s < r \<and> sg_Rank s < sg_Rank s'"
    using segment_key_rank [of s' a] assms(3) by (elim disjE) auto
  with s'(1,2) show "\<exists>s' \<in> set (fst (insert_timeline_segment segments a)). active_at t s' \<and>
      (segment_key s' = segment_key s \<or> sg_Rank s < r \<and> sg_Rank s < sg_Rank s')" by blast
qed

definition covered :: "nat \<Rightarrow> gtime \<Rightarrow> segment list \<Rightarrow> bool" where
  "covered r t segments \<longleftrightarrow> (\<exists>s \<in> set segments. r \<le> sg_Rank s \<and> active_at t s)"

lemma covered_kept: "covered r t segs \<Longrightarrow> timeline_kept r' segs segs' \<Longrightarrow> covered r t segs'"
  unfolding covered_def timeline_kept_def by (metis less_le_not_le order_trans segment_key_rank)

lemma place_loop_keeps:
  assumes "timeline_ok segments" "gr_PlanID g \<noteq> 0" "gr_PriceID g \<noteq> 0" "remaining \<le> int64_max" "gr_Rank g \<le> r"
  shows "timeline_kept r segments (fst (place_loop g segments remaining cursor displaced)) \<and>
    (\<forall>t. cursor \<le> t \<and> t < cursor + remaining \<longrightarrow>
       covered (gr_Rank g) t (fst (place_loop g segments remaining cursor displaced)))"
proof -
  let ?Q = "\<lambda>g segs rem cur res. timeline_kept r segs (fst res) \<and>
    (\<forall>t. cur \<le> t \<and> t < cur + rem \<longrightarrow> covered (gr_Rank g) t (fst res))"
  let ?P = "\<lambda>g segs rem cur res. timeline_ok segs \<and> gr_PlanID g \<noteq> 0 \<and> gr_PriceID g \<noteq> 0 \<and> rem \<le> int64_max \<and>
    gr_Rank g \<le> r \<longrightarrow> ?Q g segs rem cur res"
  have "?P g segments remaining cursor (place_loop g segments remaining cursor displaced)"
  proof (rule place_loop_induct [where P = "\<lambda>g segs rem cur disp res. ?P g segs rem cur res"], goal_cases)
    case (1 g segs rem cur disp)
    then show ?case using normalize_kept [of segs r] by auto
  next
    case (2 g segs rem cur disp b res)
    show ?case
    proof (intro impI)
      assume ok: "timeline_ok segs \<and> gr_PlanID g \<noteq> 0 \<and> gr_PriceID g \<noteq> 0 \<and> rem \<le> int64_max \<and> gr_Rank g \<le> r"
      with 2(4) have IH: "?Q g segs rem (sg_EndAt b) res" by blast
      have b: "b \<in> set segs" "gr_Rank g \<le> sg_Rank b" "cur < sg_EndAt b" using next_blocker_Some [OF 2(2)] by blast+
      have "covered (gr_Rank g) t (fst res)" if "cur \<le> t" "t < cur + rem" for t
      proof (cases "t < sg_EndAt b")
        case True
        then have "covered (gr_Rank g) t segs" using b 2(3) that by (auto simp: covered_def active_at_def)
        then show ?thesis using covered_kept IH by blast
      qed (use IH b that in auto)
      with IH show "?Q g segs rem cur res" by blast
    qed
  next
    case (3 g segs rem cur disp endAt segs' moved res)
    let ?a = "allocated_segment g cur endAt"
    show ?case
    proof (intro impI)
      assume ok: "timeline_ok segs \<and> gr_PlanID g \<noteq> 0 \<and> gr_PriceID g \<noteq> 0 \<and> rem \<le> int64_max \<and> gr_Rank g \<le> r"
      then have fit: "fits segs ?a" by (intro piece_fits [OF 3(3,2)]) blast+
      have "endAt \<le> cur + rem" unfolding 3(2) by (rule piece_end_bound [OF 3(1)])
      with 3(3) ok have sub: "time_sub endAt cur = endAt - cur" by (intro time_sub_exact) auto
      have segs': "segs' = fst (insert_timeline_segment segs ?a)" using 3(4) by simp
      have ok': "timeline_ok segs'" unfolding segs' using ok fit by (intro insert_timeline_ok) blast+
      have IH: "?Q g segs' (rem - (endAt - cur)) endAt res"
        using 3(5) ok ok' 3(3) unfolding sub by auto
      have k: "timeline_kept r segs segs'" unfolding segs' using ok fit by (intro insert_kept) auto
      have "covered (gr_Rank g) t (fst res)" if "cur \<le> t" "t < cur + rem" for t
      proof (cases "t < endAt")
        case True
        then have "active_at t ?a" using that by (simp add: active_at_def)
        from insert_keeps(1) [OF _ fit this] ok obtain s' where s': "s' \<in> set segs'" "active_at t s'" "segment_key s' = segment_key ?a"
          unfolding segs' by blast
        then have "covered (gr_Rank g) t segs'"
          using segment_key_rank [OF s'(3)] unfolding covered_def by (intro bexI [of _ s']) simp_all
        then show ?thesis using covered_kept IH by blast
      qed (use IH that in auto)
      with IH timeline_kept_trans [OF k] show "?Q g segs rem cur res" by blast
    qed
  qed
  then show ?thesis using assms by blast
qed

lemma build_loop_keeps:
  assumes "build_loop segments queue = Inr segments'" "timeline_ok segments"
    and "\<forall>g \<in> set queue. grant_ok g \<and> gr_Rank g \<le> r"
  shows "timeline_kept r segments segments'"
  using assms
proof (induction segments queue rule: build_loop.induct)
  case (1 segments)
  then show ?case using normalize_kept [of segments r] by auto
next
  case (2 segments current queue)
  have cur: "grant_ok current" "gr_Rank current \<le> r" using 2(4) by simp_all
  let ?n = "normalize_timeline segments"
  obtain segs' disp where p: "place_loop current ?n (gr_Duration current) (gr_StartAt current) [] = (segs', disp)"
    by (rule prod.exhaust)
  have norm: "timeline_ok ?n" using 2(3) normalize_ok [of segments] by (simp add: timeline_ok_filter)
  have pl: "place_timeline_grant segments current = Inr (segs', disp)"
    using cur by (simp add: place_timeline_grant_def p grant_ok_def)
  have ok: "timeline_ok segs' \<and> (\<forall>d \<in> set disp. grant_ok d)"
    using place_loop_spec [OF norm _ _ _ _ p] cur by (simp add: grant_ok_def)
  have "\<forall>d \<in> set disp. gr_Rank d < gr_Rank current"
    using place_loop_displaced [of "[]" current ?n "gr_Duration current" "gr_StartAt current"] p by simp
  then have "\<forall>g \<in> set (disp @ queue). grant_ok g \<and> gr_Rank g \<le> r" using ok cur 2(4) by fastforce
  with 2(1) [OF pl refl _ _ this] ok 2(2) have "timeline_kept r segs' segments'" by (simp add: pl)
  moreover have "timeline_kept r ?n segs'"
    using place_loop_keeps [OF norm, of current "gr_Duration current" r "gr_StartAt current" "[]"] cur p
    by (simp add: grant_ok_def)
  moreover have "timeline_kept r segments ?n" by (rule normalize_kept [OF 2(3)])
  ultimately show ?case using timeline_kept_trans by blast
qed

lemma build_loop_covers:
  assumes "build_loop segments (g # queue) = Inr segments'" "timeline_ok segments"
    and "grant_ok g" "\<forall>g \<in> set queue. grant_ok g" "gr_StartAt g \<le> t" "t < gr_StartAt g + gr_Duration g"
  shows "covered (gr_Rank g) t segments'"
proof -
  let ?n = "normalize_timeline segments"
  obtain segs' disp where p: "place_loop g ?n (gr_Duration g) (gr_StartAt g) [] = (segs', disp)"
    by (rule prod.exhaust)
  have norm: "timeline_ok ?n" using assms(2) normalize_ok [of segments] by (simp add: timeline_ok_filter)
  have ok: "timeline_ok segs' \<and> (\<forall>d \<in> set disp. grant_ok d)"
    using place_loop_spec [OF norm _ _ _ _ p] assms(3) by (simp add: grant_ok_def)
  have "covered (gr_Rank g) t segs'"
    using place_loop_keeps [OF norm, of g "gr_Duration g" "gr_Rank g" "gr_StartAt g" "[]"] assms(3,5,6) p
    by (simp add: grant_ok_def)
  moreover have "build_loop segs' (disp @ queue) = Inr segments'"
    using assms(1,3) by (simp add: place_timeline_grant_def p grant_ok_def)
  moreover obtain r where "\<forall>x \<in> set (disp @ queue). gr_Rank x \<le> r"
    by (metis List.finite_set bounded_nat_set_is_finite finite_imageI finite_nat_set_iff_bounded_le imageI)
  ultimately show ?thesis
    using build_loop_keeps [of segs' "disp @ queue" segments' r] covered_kept ok assms(4) by fastforce
qed

text \<open>No time before the start of all.\<close>

lemma normalize_starts:
  assumes "\<forall>s \<in> set segments. lo \<le> sg_StartAt s"
  shows "\<forall>s \<in> set (normalize_timeline segments). lo \<le> sg_StartAt s"
proof -
  have "\<forall>s \<in> set (foldl merge_step merged rest). lo \<le> sg_StartAt s"
    if "\<forall>s \<in> set merged. lo \<le> sg_StartAt s" "\<forall>s \<in> set rest. lo \<le> sg_StartAt s" for merged rest
    using that
  proof (induction rest arbitrary: merged)
    case (Cons item rest)
    have "\<forall>s \<in> set (merge_step merged item). lo \<le> sg_StartAt s"
      using Cons.prems by (auto simp: merge_step_def dest: in_set_butlastD)
    moreover have "\<forall>s \<in> set rest. lo \<le> sg_StartAt s" using Cons.prems(2) by simp
    ultimately show ?case unfolding foldl_Cons by (rule Cons.IH)
  qed simp
  from this [of "[]" "sort_key timeline_key (filter proper_segment segments)"] assms
  show ?thesis by (simp add: normalize_timeline_def)
qed

lemma insert_loop_starts:
  assumes "\<forall>s \<in> set segments. lo \<le> sg_StartAt s"
  shows "\<forall>s \<in> set (fst (insert_loop segments a)). lo \<le> sg_StartAt s"
    and "lo \<le> sg_EndAt a \<Longrightarrow> \<forall>g \<in> set (snd (insert_loop segments a)). lo \<le> gr_StartAt g"
  using assms
proof (induction segments)
  case (Cons item items)
  {
    case 1
    then show ?case using Cons by (auto simp: Let_def timeline_overlaps_def split: prod.splits)
  next
    case 2
    then show ?case using Cons by (auto simp: Let_def displaced_grant_def split: prod.splits)
  }
qed simp_all

lemma place_loop_starts:
  assumes "\<forall>s \<in> set segments. lo \<le> sg_StartAt s" "lo \<le> cursor" "\<forall>d \<in> set displaced. lo \<le> gr_StartAt d"
  shows "(\<forall>s \<in> set (fst (place_loop g segments remaining cursor displaced)). lo \<le> sg_StartAt s) \<and>
    (\<forall>d \<in> set (snd (place_loop g segments remaining cursor displaced)). lo \<le> gr_StartAt d)"
proof -
  let ?A = "\<lambda>segs. \<forall>s \<in> set segs. lo \<le> sg_StartAt s" and ?B = "\<lambda>ds. \<forall>d \<in> set ds. lo \<le> gr_StartAt d"
  have "?A segments \<and> lo \<le> cursor \<and> ?B displaced \<longrightarrow>
      ?A (fst (place_loop g segments remaining cursor displaced)) \<and> ?B (snd (place_loop g segments remaining cursor displaced))"
  proof (rule place_loop_induct [where P = "\<lambda>g segs rem cur disp res. ?A segs \<and> lo \<le> cur \<and> ?B disp \<longrightarrow> ?A (fst res) \<and> ?B (snd res)"],
      goal_cases)
    case (1 g segs rem cur disp)
    show ?case using normalize_starts [of segs lo] by simp
  next
    case (2 g segs rem cur disp b res)
    have "cur < sg_EndAt b" using next_blocker_Some [OF 2(2)] by blast
    then have "lo \<le> cur \<longrightarrow> lo \<le> sg_EndAt b" by linarith
    with 2(4) show ?case by blast
  next
    case (3 g segs rem cur disp endAt segs' moved res)
    show ?case
    proof (intro impI, elim conjE)
      assume a: "?A segs" "lo \<le> cur" "?B disp"
      let ?a = "allocated_segment g cur endAt"
      have eq: "segs' = normalize_timeline (fst (insert_loop segs ?a) @ [?a])" "moved = snd (insert_loop segs ?a)"
        using 3(4) by (simp_all add: insert_timeline_eq)
      have "?A (fst (insert_loop segs ?a) @ [?a])" using insert_loop_starts(1) [OF a(1)] a(2) by simp
      then have "?A segs'" unfolding eq(1) by (rule normalize_starts)
      moreover have "?B moved" unfolding eq(2) by (rule insert_loop_starts(2) [OF a(1)]) (use a(2) 3(3) in simp)
      moreover have "lo \<le> endAt" using a(2) 3(3) by linarith
      ultimately have "?A segs' \<and> lo \<le> endAt \<and> ?B (disp @ moved)" using a(3) unfolding set_append ball_Un by blast
      then show "?A (fst res) \<and> ?B (snd res)" by (rule 3(5) [rule_format])
    qed
  qed
  with assms show ?thesis by blast
qed

lemma build_loop_starts:
  assumes "build_loop segments queue = Inr segments'" "\<forall>s \<in> set segments. lo \<le> sg_StartAt s"
    and "\<forall>g \<in> set queue. lo \<le> gr_StartAt g"
  shows "\<forall>s \<in> set segments'. lo \<le> sg_StartAt s"
  using assms
proof (induction segments queue rule: build_loop.induct)
  case (1 segments)
  then show ?case using normalize_starts [of segments lo] by auto
next
  case (2 segments current queue)
  obtain segs' disp where p: "place_loop current (normalize_timeline segments) (gr_Duration current) (gr_StartAt current) [] = (segs', disp)"
    by (rule prod.exhaust)
  have pl: "place_timeline_grant segments current = Inr (segs', disp)"
    using 2(2) p by (auto simp: place_timeline_grant_def split: if_splits)
  have "(\<forall>s \<in> set segs'. lo \<le> sg_StartAt s) \<and> (\<forall>d \<in> set disp. lo \<le> gr_StartAt d)"
    using place_loop_starts [OF normalize_starts [OF 2(3)], of "gr_StartAt current" "[]" current "gr_Duration current"] 2(4) p by simp
  moreover from this have "\<forall>g \<in> set (disp @ queue). lo \<le> gr_StartAt g" using 2(4) by auto
  ultimately show ?case using 2(1) [OF pl refl] 2(2) by (simp add: pl)
qed

lemma build_starts:
  assumes "build_subscription_timeline existing g = Inr segments" "\<forall>s \<in> set existing. lo \<le> sg_StartAt s" "lo \<le> gr_StartAt g"
  shows "\<forall>s \<in> set segments. lo \<le> sg_StartAt s"
  using assms build_loop_starts [of "normalize_timeline existing" "[g]" segments lo] normalize_starts [of existing lo]
  by (simp add: build_subscription_timeline_def split: if_splits)

section \<open>Properties\<close>

text \<open>The construction ends for every timeline, and fails only for a grant without duration.\<close>

lemma build_loop_total:
  "\<forall>g \<in> set queue. 0 < gr_Duration g \<Longrightarrow> \<exists>segments'. build_loop segments queue = Inr segments'"
proof (induction segments queue rule: build_loop.induct)
  case (2 segments current queue)
  obtain segs' disp where p: "place_loop current (normalize_timeline segments) (gr_Duration current) (gr_StartAt current) [] = (segs', disp)"
    by (rule prod.exhaust)
  have pl: "place_timeline_grant segments current = Inr (segs', disp)"
    using 2(2) by (simp add: place_timeline_grant_def p)
  have "\<forall>d \<in> set disp. 0 < gr_Duration d"
    using place_loop_displaced [of "[]" current "normalize_timeline segments" "gr_Duration current" "gr_StartAt current"] p by simp
  with 2(2) have "\<forall>g \<in> set (disp @ queue). 0 < gr_Duration g" by auto
  from 2(1) [OF pl refl this] show ?case by (simp add: pl)
qed simp

lemma timeline_always_built_iff:
  "(\<exists>segments. build_subscription_timeline existing g = Inr segments) \<longleftrightarrow> 0 < gr_Duration g"
  using build_loop_total [of "[g]" "normalize_timeline existing"]
  by (simp add: build_subscription_timeline_def)

text \<open>C8: The construction of a timeline always ends, and fails exactly for a grant without a positive duration.\<close>

theorem timeline_always_built:
  "(\<exists>segments. build_subscription_timeline existing g = Inr segments) \<longleftrightarrow> 0 < gr_Duration g"
  by (rule timeline_always_built_iff)

lemma timeline_conserves:
  assumes "build_subscription_timeline existing g = Inr segments" "timeline_ok existing" "grant_ok g"
  shows "timeline_ok segments \<and>
    time_of k segments = time_of k existing + (if k (grant_key g) then gr_Duration g else 0)"
proof -
  have norm: "timeline_ok (normalize_timeline existing)" "time_of k (normalize_timeline existing) = time_of k existing"
    using assms(2) normalize_ok [of existing] span.normalize_total [of existing k] by (simp_all add: timeline_ok_filter span_total)
  have "build_loop (normalize_timeline existing) [g] = Inr segments"
    using assms(1,3) by (simp add: build_subscription_timeline_def grant_ok_def)
  moreover have "\<forall>x \<in> set [g]. grant_ok x" using assms(3) by simp
  ultimately have "timeline_ok segments \<and> (\<forall>k. time_of k segments = time_of k (normalize_timeline existing) + granted_time k [g])"
    using build_loop_spec [OF norm(1)] by (metis Inr_inject)
  then have "timeline_ok segments" "time_of k segments = time_of k (normalize_timeline existing) + granted_time k [g]" by blast+
  then show ?thesis using norm(2) by simp
qed

lemma sum_list_0_all: "(\<And>x. x \<in> set xs \<Longrightarrow> f x = 0) \<Longrightarrow> sum_list (map f xs) = (0 :: int)"
  by (induction xs) auto

lemma time_of_member:
  assumes "t \<in> set segments" "timeline_ok segments" "k (segment_key t)"
  shows "sg_EndAt t - sg_StartAt t \<le> time_of k segments"
proof -
  let ?f = "\<lambda>s. if k (segment_key s) then sg_EndAt s - sg_StartAt s else 0"
  have "?f t \<le> sum_list (map ?f segments)"
    using assms(1,2) by (intro member_le_sum_list) (auto simp: timeline_ok_def proper_segment_def)
  then show ?thesis using assms(3) by (simp add: time_of_def)
qed

text \<open>
  C11: A grant on a timeline without overlaps takes away nobody's time: the result has no overlaps
  either, and whichever grants are counted, they have as much time as before, and the new one
  exactly what was bought.
\<close>

theorem timeline_conserves_time:
  assumes "build_subscription_timeline existing g = Inr segments" "timeline_ok existing" "grant_ok g"
  shows "timeline_ok segments \<and>
    time_of k segments = time_of k existing + (if k (grant_key g) then gr_Duration g else 0)"
  using timeline_conserves [OF assms] .

text \<open>
  C30: A grant takes effect at once: from its start on, for as long as was bought, the user has a
  plan of its rank or above without a gap.
\<close>

theorem grant_takes_effect:
  assumes "build_subscription_timeline existing g = Inr segments" "timeline_ok existing" "grant_ok g"
    and "gr_StartAt g \<le> t" "t < gr_StartAt g + gr_Duration g"
  shows "\<exists>s \<in> set segments. gr_Rank g \<le> sg_Rank s \<and> active_at t s"
proof -
  have "timeline_ok (normalize_timeline existing)"
    using assms(2) normalize_ok [of existing] by (simp add: timeline_ok_filter)
  moreover have "build_loop (normalize_timeline existing) [g] = Inr segments"
    using assms(1,3) by (simp add: build_subscription_timeline_def grant_ok_def)
  ultimately show ?thesis
    using build_loop_covers [of "normalize_timeline existing" g "[]" segments t] assms(3-5) by (simp add: covered_def)
qed

text \<open>
  A grant never moves one of its rank or above, and where it replaces one of a lower rank, it
  is by one of a higher rank.
\<close>

theorem grant_respects_rank:
  assumes "build_subscription_timeline existing g = Inr segments" "timeline_ok existing" "grant_ok g"
    and "s \<in> set existing" "active_at t s"
  shows "\<exists>s' \<in> set segments. active_at t s' \<and>
    (segment_key s' = segment_key s \<or> sg_Rank s < gr_Rank g \<and> sg_Rank s < sg_Rank s')"
proof -
  have norm: "timeline_ok (normalize_timeline existing)"
    using assms(2) normalize_ok [of existing] by (simp add: timeline_ok_filter)
  have "build_loop (normalize_timeline existing) [g] = Inr segments"
    using assms(1,3) by (simp add: build_subscription_timeline_def grant_ok_def)
  then have "timeline_kept (gr_Rank g) (normalize_timeline existing) segments"
    by (rule build_loop_keeps) (use norm assms(3) in simp_all)
  with normalize_kept [OF assms(2)] have "timeline_kept (gr_Rank g) existing segments"
    by (rule timeline_kept_trans)
  with assms(4,5) show ?thesis unfolding timeline_kept_def by blast
qed

section \<open>A concrete timeline\<close>

definition sample_existing :: "segment list" where
  "sample_existing = [\<lparr>sg_SubscriptionID = 7, sg_PlanID = 1, sg_PriceID = 1, sg_Rank = 1, sg_StartAt = 0, sg_EndAt = 100,
     sg_CancelAtPeriodEnd = False, sg_AutoRenew = False, sg_NewGrant = False\<rparr>]"

definition sample_grant :: timeline_grant where
  "sample_grant = \<lparr>gr_SubscriptionID = 0, gr_PlanID = 2, gr_PriceID = 2, gr_Rank = 2, gr_StartAt = 10, gr_Duration = 30,
     gr_CancelAtPeriodEnd = False, gr_AutoRenew = False, gr_NewGrant = True\<rparr>"

definition sample_timeline :: "segment list" where
  "sample_timeline =
     [(hd sample_existing)\<lparr>sg_EndAt := 10\<rparr>, allocated_segment sample_grant 10 40,
      (hd sample_existing)\<lparr>sg_StartAt := 40, sg_EndAt := 130\<rparr>]"

lemma sample_timeline_built: "build_subscription_timeline sample_existing sample_grant = Inr sample_timeline"
  by code_simp

lemma sample_ok: "timeline_ok sample_existing" "grant_ok sample_grant"
  by (simp_all add: timeline_ok_def sample_existing_def proper_segment_def grant_ok_def sample_grant_def)

theorem timeline_conserves_time_witness:
  "timeline_ok sample_timeline \<and> time_of (\<lambda>k. k = (7, 1, 1, 1, False, False, False)) sample_timeline = 100"
  using timeline_conserves_time [OF sample_timeline_built sample_ok, of "\<lambda>k. k = (7, 1, 1, 1, False, False, False)"]
  by (simp add: sample_existing_def sample_grant_def time_of_def segment_key_def grant_key_def)

theorem grant_takes_effect_witness: "\<exists>s \<in> set sample_timeline. 2 \<le> sg_Rank s \<and> active_at 39 s"
  using grant_takes_effect [OF sample_timeline_built sample_ok, of 39] by (simp add: sample_grant_def)

theorem grant_respects_rank_witness: "\<exists>s \<in> set sample_timeline. active_at 20 s \<and>
    (segment_key s = (7, 1, 1, 1, False, False, False) \<or> 1 < sg_Rank s)"
  using grant_respects_rank [OF sample_timeline_built sample_ok, of "hd sample_existing" 20]
  by (auto simp: sample_existing_def segment_key_def active_at_def)

end
