(* ===== verification/Subscriptions.thy ===== *)
theory Subscriptions
  imports Timeline
begin

text \<open>
  Subscriptions: how a grant on the timeline is written to the rows
  (\<^verbatim>\<open>grantSubscriptionOnTimeline\<close>, \<^verbatim>\<open>applySubscriptionTimeline\<close>, \<^verbatim>\<open>ReplaceSubscription\<close> and the queries
  of \<^verbatim>\<open>infra/persistence/postgres/billing/repository.go\<close>), and what the service derives from
  the rows: the current subscription, its end, and the plan whose credit the period has.
  \<open>clock\<close> is what \<^verbatim>\<open>time.Now\<close> returns.
\<close>

section \<open>Plans and prices\<close>

definition find_plan :: "billing_db \<Rightarrow> nat \<Rightarrow> billing_plan option" where
  "find_plan db planID = find (\<lambda>p. bp_ID p = planID) (db_plans db)"

definition find_price :: "billing_db \<Rightarrow> nat \<Rightarrow> billing_price option" where
  "find_price db priceID = find (\<lambda>p. pr_ID p = priceID) (db_prices db)"

definition or_not_found :: "'a option \<Rightarrow> repo_error + 'a" where
  "or_not_found x = (case x of None \<Rightarrow> Inl NotFound | Some y \<Rightarrow> Inr y)"

definition get_plan_by_id :: "billing_db \<Rightarrow> nat \<Rightarrow> repo_error + billing_plan" where
  "get_plan_by_id db planID = or_not_found (find_plan db planID)"

definition get_price_by_id :: "billing_db \<Rightarrow> nat \<Rightarrow> repo_error + billing_price" where
  "get_price_by_id db priceID = or_not_found (find_price db priceID)"

definition get_active_plan_by_code :: "billing_db \<Rightarrow> string \<Rightarrow> repo_error + billing_plan" where
  "get_active_plan_by_code db code =
     or_not_found (find (\<lambda>p. bp_Code p = trim_space code \<and> bp_IsActive p) (db_plans db))"

definition list_plans_by_ids :: "billing_db \<Rightarrow> nat list \<Rightarrow> billing_plan list" where
  "list_plans_by_ids db ids = filter (\<lambda>p. bp_ID p \<in> set ids) (db_plans db)"

text \<open>Sorting by a key is what \<^verbatim>\<open>ORDER BY\<close> does.\<close>

definition list_active_prices_by_plan_ids :: "billing_db \<Rightarrow> nat list \<Rightarrow> billing_price list" where
  "list_active_prices_by_plan_ids db ids =
     sort_key (\<lambda>p. (pr_PlanID p, pr_AmountCents p, pr_ID p))
       (filter (\<lambda>p. pr_PlanID p \<in> set ids \<and> pr_IsActive p) (db_prices db))"

definition active_default_price_for_plan :: "billing_db \<Rightarrow> nat \<Rightarrow> repo_error + billing_price" where
  "active_default_price_for_plan db planID =
     (case find (\<lambda>p. pr_PlanID p = planID \<and> pr_IsActive p \<and> pr_IsDefault p) (db_prices db) of
        Some p \<Rightarrow> Inr p
      | None \<Rightarrow> (case sort_key (\<lambda>p. (pr_AmountCents p, pr_ID p))
            (filter (\<lambda>p. pr_PlanID p = planID \<and> pr_IsActive p) (db_prices db)) of
          [] \<Rightarrow> Inl NotFound
        | p # _ \<Rightarrow> Inr p))"

definition is_free_plan_code :: "string \<Rightarrow> bool" where
  "is_free_plan_code code \<longleftrightarrow> trim_space code = ''free''"

definition subscription_plan_rank :: "billing_plan \<Rightarrow> nat" where
  "subscription_plan_rank p =
     (if is_free_plan_code (bp_Code p) then 0
      else if bp_SortOrder p > 0 then nat (bp_SortOrder p) else bp_ID p)"

section \<open>Granting a subscription\<close>

fun append_plan_ids :: "nat list \<Rightarrow> subscription list \<Rightarrow> nat list" where
  "append_plan_ids ids [] = ids"
| "append_plan_ids ids (item # items) =
     (if sb_PlanID item = 0 \<or> sb_PlanID item \<in> set ids then append_plan_ids ids items
      else append_plan_ids (ids @ [sb_PlanID item]) items)"

definition append_subscription_plan_id :: "subscription list \<Rightarrow> nat \<Rightarrow> nat list" where
  "append_subscription_plan_id items planID = append_plan_ids (if planID > 0 then [planID] else []) items"

definition billing_plans_for_timeline :: "billing_db \<Rightarrow> nat list \<Rightarrow> repo_error + (nat \<Rightarrow> billing_plan option)" where
  "billing_plans_for_timeline db planIDs =
     (let rows = list_plans_by_ids db planIDs in
      if length (remdups (map bp_ID rows)) \<noteq> length planIDs then Inl InvalidInput
      else Inr (map_of (rev (map (\<lambda>p. (bp_ID p, p)) rows))))"

text \<open>The rows a grant may move: active, and with an end after \<open>now\<close>.\<close>

definition movable_rows :: "billing_db \<Rightarrow> nat \<Rightarrow> gtime \<Rightarrow> subscription list" where
  "movable_rows db u now = sort_key (\<lambda>s. (sb_CurrentPeriodStartAt s, the (sb_CurrentPeriodEndAt s), sb_ID s))
     (filter (\<lambda>s. sb_UserID s = u \<and> sb_Status s = ''active'' \<and>
        (case sb_CurrentPeriodEndAt s of None \<Rightarrow> False | Some e \<Rightarrow> e > now)) (db_subscriptions db))"

fun timeline_segments :: "(nat \<Rightarrow> billing_plan option) \<Rightarrow> gtime \<Rightarrow> subscription list \<Rightarrow> repo_error + segment list" where
  "timeline_segments plans now [] = Inr []"
| "timeline_segments plans now (item # items) =
     (case sb_CurrentPeriodEndAt item of
        None \<Rightarrow> timeline_segments plans now items
      | Some endAt \<Rightarrow>
          let startAt = (if sb_CurrentPeriodStartAt item < now then now else sb_CurrentPeriodStartAt item) in
          if \<not> endAt > now \<or> \<not> endAt > startAt then timeline_segments plans now items
          else (case plans (sb_PlanID item) of
              None \<Rightarrow> Inl InvalidInput
            | Some plan \<Rightarrow>
                map_sum id (\<lambda>segments. \<lparr>sg_SubscriptionID = sb_ID item, sg_PlanID = sb_PlanID item,
                  sg_PriceID = sb_PriceID item, sg_Rank = subscription_plan_rank plan, sg_StartAt = startAt,
                  sg_EndAt = endAt, sg_CancelAtPeriodEnd = sb_CancelAtPeriodEnd item,
                  sg_AutoRenew = sb_AutoRenew item, sg_NewGrant = False\<rparr> # segments)
                (timeline_segments plans now items)))"

definition update_subscription :: "nat \<Rightarrow> (subscription \<Rightarrow> subscription) \<Rightarrow> billing_db \<Rightarrow> billing_db" where
  "update_subscription sid f db =
     db\<lparr>db_subscriptions := map (\<lambda>s. if sb_ID s = sid then f s else s) (db_subscriptions db)\<rparr>"

definition expire_subscription_for_timeline :: "subscription \<Rightarrow> gtime \<Rightarrow> billing_db \<Rightarrow> billing_db" where
  "expire_subscription_for_timeline item now db =
     (let endAt = (if sb_CurrentPeriodStartAt item > now then sb_CurrentPeriodStartAt item else now);
          endAt = (case sb_CurrentPeriodEndAt item of None \<Rightarrow> endAt | Some e \<Rightarrow> if e < endAt then e else endAt)
      in update_subscription (sb_ID item) (\<lambda>s. s\<lparr>sb_Status := ''expired'', sb_AutoRenew := False,
           sb_CancelAtPeriodEnd := False, sb_CurrentPeriodEndAt := Some endAt\<rparr>) db)"

definition segment_row :: "subscription \<Rightarrow> segment \<Rightarrow> gtime \<Rightarrow> subscription \<Rightarrow> subscription" where
  "segment_row item segment now s =
     (let startAt = (if sb_CurrentPeriodStartAt item < now \<and> \<not> sg_StartAt segment > now
            then sb_CurrentPeriodStartAt item else sg_StartAt segment);
          recordStartAt = (if sb_StartAt item < startAt \<and> \<not> sg_StartAt segment > now then sb_StartAt item else startAt)
      in s\<lparr>sb_PlanID := sg_PlanID segment, sb_PriceID := sg_PriceID segment, sb_Status := ''active'',
           sb_StartAt := recordStartAt, sb_CurrentPeriodStartAt := startAt,
           sb_CurrentPeriodEndAt := Some (sg_EndAt segment), sb_CancelAtPeriodEnd := sg_CancelAtPeriodEnd segment,
           sb_CanceledAt := None, sb_AutoRenew := sg_AutoRenew segment\<rparr>)"

definition update_subscription_segment :: "subscription \<Rightarrow> segment \<Rightarrow> gtime \<Rightarrow> subscription tx" where
  "update_subscription_segment item segment now db =
     (let db' = update_subscription (sb_ID item) (segment_row item segment now) db in
      case find (\<lambda>s. sb_ID s = sb_ID item) (db_subscriptions db') of
        None \<Rightarrow> Inl NotFound
      | Some s \<Rightarrow> Inr (s, db'))"

definition create_subscription_segment :: "nat \<Rightarrow> segment \<Rightarrow> subscription tx" where
  "create_subscription_segment u segment db =
     (if u = 0 \<or> sg_PlanID segment = 0 \<or> sg_PriceID segment = 0 \<or> \<not> sg_EndAt segment > sg_StartAt segment
      then Inl InvalidInput
      else
        let row = \<lparr>sb_ID = Suc (length (db_subscriptions db)), sb_UserID = u, sb_PlanID = sg_PlanID segment,
              sb_PriceID = sg_PriceID segment, sb_Status = ''active'', sb_StartAt = sg_StartAt segment,
              sb_CurrentPeriodStartAt = sg_StartAt segment, sb_CurrentPeriodEndAt = Some (sg_EndAt segment),
              sb_CancelAtPeriodEnd = sg_CancelAtPeriodEnd segment, sb_CanceledAt = None, sb_AutoRenew = sg_AutoRenew segment\<rparr>
        in Inr (row, db\<lparr>db_subscriptions := db_subscriptions db @ [row]\<rparr>))"

fun reusable_index_from :: "nat \<Rightarrow> subscription \<Rightarrow> segment list \<Rightarrow> gtime \<Rightarrow> nat option" where
  "reusable_index_from i item [] now = None"
| "reusable_index_from i item (target # targets) now =
     (if \<not> sg_EndAt target > sg_StartAt target then reusable_index_from (Suc i) item targets now
      else if sb_CurrentPeriodStartAt item < now \<and> sg_StartAt target > now then reusable_index_from (Suc i) item targets now
      else Some i)"

definition reusable_subscription_segment_index :: "subscription \<Rightarrow> segment list \<Rightarrow> gtime \<Rightarrow> nat option" where
  "reusable_subscription_segment_index item targets now = reusable_index_from 0 item targets now"

text \<open>The row a grant returns is the first written for a new segment of its plan.\<close>

definition note_granted :: "nat \<Rightarrow> segment \<Rightarrow> subscription \<Rightarrow> subscription option \<Rightarrow> subscription option" where
  "note_granted grantPlanID target record granted =
     (if granted = None \<and> sg_NewGrant target \<and> sg_PlanID target = grantPlanID then Some record else granted)"

fun write_targets ::
    "nat \<Rightarrow> nat \<Rightarrow> gtime \<Rightarrow> subscription \<Rightarrow> nat option \<Rightarrow> nat \<Rightarrow> segment list \<Rightarrow> subscription option \<Rightarrow>
       subscription option tx" where
  "write_targets u grantPlanID now item reusable i [] granted db = Inr (granted, db)"
| "write_targets u grantPlanID now item reusable i (target # targets) granted db =
     (case (if reusable = Some i then update_subscription_segment item target now db
            else create_subscription_segment u target db) of
        Inl err \<Rightarrow> Inl err
      | Inr (record, db) \<Rightarrow>
          write_targets u grantPlanID now item reusable (Suc i) targets (note_granted grantPlanID target record granted) db)"

fun write_existing ::
    "nat \<Rightarrow> nat \<Rightarrow> gtime \<Rightarrow> (nat \<Rightarrow> segment list) \<Rightarrow> subscription list \<Rightarrow> subscription option \<Rightarrow> subscription option tx" where
  "write_existing u grantPlanID now targetsOf [] granted db = Inr (granted, db)"
| "write_existing u grantPlanID now targetsOf (item # items) granted db =
     (let targets = targetsOf (sb_ID item); reusable = reusable_subscription_segment_index item targets now in
      if targets = [] then
        write_existing u grantPlanID now targetsOf items granted (expire_subscription_for_timeline item now db)
      else case write_targets u grantPlanID now item reusable 0 targets granted
             (if reusable = None then expire_subscription_for_timeline item now db else db) of
        Inl err \<Rightarrow> Inl err
      | Inr (granted, db) \<Rightarrow> write_existing u grantPlanID now targetsOf items granted db)"

fun write_new :: "nat \<Rightarrow> nat \<Rightarrow> segment list \<Rightarrow> subscription option \<Rightarrow> subscription option tx" where
  "write_new u grantPlanID [] granted db = Inr (granted, db)"
| "write_new u grantPlanID (target # targets) granted db =
     (case create_subscription_segment u target db of
        Inl err \<Rightarrow> Inl err
      | Inr (record, db) \<Rightarrow> write_new u grantPlanID targets (note_granted grantPlanID target record granted) db)"

definition apply_subscription_timeline ::
    "nat \<Rightarrow> subscription list \<Rightarrow> segment list \<Rightarrow> gtime \<Rightarrow> nat \<Rightarrow> subscription tx" where
  "apply_subscription_timeline u existing segments now grantPlanID db =
     (let normal = normalize_timeline segments;
          targetsOf = (\<lambda>sid. filter (\<lambda>s. sg_SubscriptionID s > 0 \<and> sg_SubscriptionID s = sid) normal);
          newSegments = filter (\<lambda>s. \<not> sg_SubscriptionID s > 0) normal
      in case write_existing u grantPlanID now targetsOf existing None db of
        Inl err \<Rightarrow> Inl err
      | Inr (granted, db) \<Rightarrow> (case write_new u grantPlanID newSegments granted db of
          Inl err \<Rightarrow> Inl err
        | Inr (None, _) \<Rightarrow> Inl InvalidInput
        | Inr (Some record, db) \<Rightarrow> Inr (record, db)))"

record grant_request =
  gq_UserID :: nat
  gq_Plan :: billing_plan
  gq_Price :: billing_price
  gq_StartAt :: gtime
  gq_Duration :: duration
  gq_CancelAtPeriodEnd :: bool
  gq_AutoRenew :: bool
  gq_NewGrant :: bool

definition timeline_grant_of :: "grant_request \<Rightarrow> gtime \<Rightarrow> timeline_grant" where
  "timeline_grant_of q now = \<lparr>gr_SubscriptionID = 0, gr_PlanID = bp_ID (gq_Plan q), gr_PriceID = pr_ID (gq_Price q),
     gr_Rank = subscription_plan_rank (gq_Plan q), gr_StartAt = now, gr_Duration = gq_Duration q,
     gr_CancelAtPeriodEnd = gq_CancelAtPeriodEnd q, gr_AutoRenew = gq_AutoRenew q, gr_NewGrant = gq_NewGrant q\<rparr>"

definition grant_subscription_on_timeline :: "gtime \<Rightarrow> grant_request \<Rightarrow> subscription tx" where
  "grant_subscription_on_timeline clock q db =
     (if gq_UserID q = 0 \<or> bp_ID (gq_Plan q) = 0 \<or> pr_ID (gq_Price q) = 0 \<or> gq_Duration q \<le> 0 then Inl InvalidInput
      else
        let now = (if is_zero (gq_StartAt q) then clock else gq_StartAt q);
            existing = movable_rows db (gq_UserID q) now
        in case billing_plans_for_timeline db (append_subscription_plan_id existing (bp_ID (gq_Plan q))) of Inl err \<Rightarrow> Inl err
        | Inr plans \<Rightarrow> (case timeline_segments plans now existing of Inl err \<Rightarrow> Inl err
        | Inr segments \<Rightarrow> (case build_subscription_timeline segments (timeline_grant_of q now) of Inl err \<Rightarrow> Inl err
        | Inr segments \<Rightarrow> apply_subscription_timeline (gq_UserID q) existing segments now (bp_ID (gq_Plan q)) db)))"

text \<open>The subscription an administrator or a free plan sets replaces all others.\<close>

definition replace_subscription :: "gtime \<Rightarrow> subscription \<Rightarrow> billing_db \<Rightarrow> billing_db" where
  "replace_subscription clock item db =
     (let rows = map (\<lambda>s. if sb_UserID s = sb_UserID item \<and> sb_Status s = ''active''
            then s\<lparr>sb_Status := ''expired'', sb_AutoRenew := False, sb_CancelAtPeriodEnd := False,
                   sb_CurrentPeriodEndAt := Some clock\<rparr> else s) (db_subscriptions db)
      in db\<lparr>db_subscriptions := rows @ [item\<lparr>sb_ID := Suc (length rows)\<rparr>]\<rparr>)"

section \<open>Sums over rows\<close>

text \<open>
  What a grant does to the rows is followed through a quantity \<open>g\<close> of a row that does not
  depend on the identifier and is nothing for an expired row.
\<close>

definition row_sum :: "(subscription \<Rightarrow> int) \<Rightarrow> billing_db \<Rightarrow> int" where
  "row_sum g db = sum_list (map g (db_subscriptions db))"

definition ids_ok :: "billing_db \<Rightarrow> bool" where
  "ids_ok db \<longleftrightarrow> map sb_ID (db_subscriptions db) = map Suc [0..<length (db_subscriptions db)]"

lemma ids_distinct: "ids_ok db \<Longrightarrow> distinct (map sb_ID (db_subscriptions db))"
  by (simp add: ids_ok_def distinct_map)

lemma sum_update:
  assumes "distinct (map k xs)" "x \<in> set xs"
  shows "sum_list (map g (map (\<lambda>s. if k s = k x then f s else s) xs)) = sum_list (map g xs) - g x + (g (f x) :: int)"
  using assms
proof (induction xs)
  case (Cons y ys)
  show ?case
  proof (cases "y = x")
    case True
    then have "\<forall>s \<in> set ys. k s \<noteq> k x" using Cons.prems(1) by (metis distinct.simps(2) image_eqI image_set list.simps(9))
    then have "map (\<lambda>s. if k s = k x then f s else s) ys = ys" by (simp add: map_idI)
    then show ?thesis using True by simp
  next
    case False
    then have "x \<in> set ys" "k y \<noteq> k x" using Cons.prems by force+
    then show ?thesis using Cons by simp
  qed
qed simp

lemma update_row_sum:
  assumes "ids_ok db" "item \<in> set (db_subscriptions db)"
  shows "row_sum g (update_subscription (sb_ID item) f db) = row_sum g db - g item + g (f item)"
  unfolding row_sum_def update_subscription_def
  using sum_update [OF ids_distinct [OF assms(1)] assms(2), of g f] by simp

lemma update_ids: "(\<And>s. sb_ID (f s) = sb_ID s) \<Longrightarrow> ids_ok (update_subscription sid f db) = ids_ok db"
  by (simp add: ids_ok_def update_subscription_def comp_def if_distrib cong: if_cong)

lemma update_other:
  "s \<in> set (db_subscriptions db) \<Longrightarrow> sb_ID s \<noteq> sid \<Longrightarrow> s \<in> set (db_subscriptions (update_subscription sid f db))"
  by (force simp: update_subscription_def)

definition created_row :: "nat \<Rightarrow> nat \<Rightarrow> segment \<Rightarrow> subscription" where
  "created_row sid u segment = \<lparr>sb_ID = sid, sb_UserID = u, sb_PlanID = sg_PlanID segment,
     sb_PriceID = sg_PriceID segment, sb_Status = ''active'', sb_StartAt = sg_StartAt segment,
     sb_CurrentPeriodStartAt = sg_StartAt segment, sb_CurrentPeriodEndAt = Some (sg_EndAt segment),
     sb_CancelAtPeriodEnd = sg_CancelAtPeriodEnd segment, sb_CanceledAt = None, sb_AutoRenew = sg_AutoRenew segment\<rparr>"

lemma create_Inr:
  assumes "create_subscription_segment u segment db = Inr (row, db')"
  shows "u \<noteq> 0" "proper_segment segment" "row = created_row (Suc (length (db_subscriptions db))) u segment"
    "db' = db\<lparr>db_subscriptions := db_subscriptions db @ [row]\<rparr>"
  using assms by (auto simp: create_subscription_segment_def created_row_def proper_segment_def Let_def split: if_splits)

definition same_but_subscriptions :: "billing_db \<Rightarrow> billing_db \<Rightarrow> bool" where
  "same_but_subscriptions a b \<longleftrightarrow> db_accounts b = db_accounts a \<and> db_accountSeq b = db_accountSeq a \<and>
     db_transactions b = db_transactions a \<and> db_reservations b = db_reservations a \<and> db_ledger b = db_ledger a \<and>
     db_orders b = db_orders a \<and> db_codes b = db_codes a \<and> db_redemptions b = db_redemptions a \<and>
     db_plans b = db_plans a \<and> db_prices b = db_prices a \<and> db_settings b = db_settings a"

lemma same_but_refl [simp]: "same_but_subscriptions db db"
  by (simp add: same_but_subscriptions_def)

lemma same_but_trans: "same_but_subscriptions a b \<Longrightarrow> same_but_subscriptions b c \<Longrightarrow> same_but_subscriptions a c"
  by (simp add: same_but_subscriptions_def)

lemma same_but_update [simp]: "same_but_subscriptions db (update_subscription sid f db)"
  and same_but_append [simp]: "same_but_subscriptions db (db\<lparr>db_subscriptions := xs\<rparr>)"
  by (simp_all add: same_but_subscriptions_def update_subscription_def)

text \<open>The value of the rows written for the targets of a row.\<close>

fun written_sum :: "(subscription \<Rightarrow> int) \<Rightarrow> nat \<Rightarrow> gtime \<Rightarrow> subscription \<Rightarrow> nat option \<Rightarrow> nat \<Rightarrow> segment list \<Rightarrow> int" where
  "written_sum g u now item reusable i [] = 0"
| "written_sum g u now item reusable i (target # targets) =
     (if reusable = Some i then g (segment_row item target now item) else g (created_row 0 u target)) +
     written_sum g u now item reusable (Suc i) targets"

locale row_measure =
  fixes g :: "subscription \<Rightarrow> int"
  assumes any_id: "g (s\<lparr>sb_ID := x\<rparr>) = g s"
    and expired: "sb_Status s = ''expired'' \<Longrightarrow> g s = 0"
begin

lemma created_any_id: "g (created_row sid u segment) = g (created_row 0 u segment)"
  using any_id [where s = "created_row 0 u segment" and x = sid] by (simp add: created_row_def)

text \<open>One step: a row is updated or appended.\<close>

definition wrote :: "nat \<Rightarrow> nat \<Rightarrow> billing_db \<Rightarrow> billing_db \<Rightarrow> int \<Rightarrow> bool" where
  "wrote u sid db db' x \<longleftrightarrow> ids_ok db' \<and> same_but_subscriptions db db' \<and> row_sum g db' = row_sum g db + x \<and>
     (\<forall>s \<in> set (db_subscriptions db). sb_ID s \<noteq> sid \<longrightarrow> s \<in> set (db_subscriptions db')) \<and>
     length (db_subscriptions db) \<le> length (db_subscriptions db') \<and>
     (\<forall>v. v \<noteq> u \<longrightarrow> filter (\<lambda>s. sb_UserID s = v) (db_subscriptions db') = filter (\<lambda>s. sb_UserID s = v) (db_subscriptions db))"

lemma wrote_refl: "ids_ok db \<Longrightarrow> wrote u sid db db 0"
  by (simp add: wrote_def)

lemma wrote_trans: "wrote u sid a b x \<Longrightarrow> wrote u sid b c y \<Longrightarrow> wrote u sid a c (x + y)"
  using same_but_trans by (auto simp: wrote_def)

lemma create_wrote:
  assumes "create_subscription_segment u segment db = Inr (row, db')" "ids_ok db"
  shows "wrote u sid db db' (g (created_row 0 u segment))"
proof -
  note c = create_Inr [OF assms(1)]
  have "sb_UserID row = u" "sb_ID row = Suc (length (db_subscriptions db))" unfolding c(3) by (simp_all add: created_row_def)
  moreover have "g row = g (created_row 0 u segment)" unfolding c(3) by (rule created_any_id)
  ultimately show ?thesis using assms(2) c(4) by (auto simp: wrote_def ids_ok_def row_sum_def)
qed

lemma update_wrote:
  assumes "ids_ok db" "item \<in> set (db_subscriptions db)" "sb_UserID item = u"
    and "\<And>s. sb_ID (f s) = sb_ID s \<and> sb_UserID (f s) = sb_UserID s"
  shows "wrote u (sb_ID item) db (update_subscription (sb_ID item) f db) (g (f item) - g item)"
proof -
  have "filter (\<lambda>s. sb_UserID s = v) (map (\<lambda>s. if sb_ID s = sb_ID item then f s else s) xs) = filter (\<lambda>s. sb_UserID s = v) xs"
    if "v \<noteq> u" "distinct (map sb_ID xs)" "set xs \<subseteq> set (db_subscriptions db)" for v xs
    using that(3)
  proof (induction xs)
    case (Cons x xs)
    have "sb_ID x = sb_ID item \<Longrightarrow> x = item"
      using Cons.prems assms(2) ids_distinct [OF assms(1)] by (auto simp: distinct_map inj_on_def)
    then show ?case using Cons that(1) assms(3,4) by auto
  qed simp
  from this [OF _ ids_distinct [OF assms(1)]] show ?thesis
    using update_row_sum [OF assms(1,2)] update_ids [of f] assms(1,4) update_other [of _ db "sb_ID item" f]
    by (auto simp: wrote_def) (auto simp: update_subscription_def)
qed

lemma segment_row_key [simp]:
  "sb_ID (segment_row item segment now s) = sb_ID s" "sb_UserID (segment_row item segment now s) = sb_UserID s"
  by (simp_all add: segment_row_def Let_def)

lemma update_segment_Inr:
  assumes "update_subscription_segment item segment now db = Inr (row, db')"
  shows "db' = update_subscription (sb_ID item) (segment_row item segment now) db"
  using assms by (auto simp: update_subscription_segment_def Let_def split: option.splits)

lemma write_targets_sum:
  assumes "write_targets u gp now item reusable i targets granted db = Inr (granted', db')"
    and "ids_ok db" "sb_UserID item = u" "sb_ID item \<le> length (db_subscriptions db)"
    and "(\<exists>j. reusable = Some j \<and> i \<le> j) \<Longrightarrow> item \<in> set (db_subscriptions db)"
  shows "wrote u (sb_ID item) db db' (written_sum g u now item reusable i targets -
      (if \<exists>j. reusable = Some j \<and> i \<le> j \<and> j < i + length targets then g item else 0))"
  using assms
proof (induction targets arbitrary: i granted db)
  case Nil
  then show ?case by (auto intro: wrote_refl)
next
  case (Cons target targets)
  obtain row db1 where step: "(if reusable = Some i then update_subscription_segment item target now db
            else create_subscription_segment u target db) = Inr (row, db1)"
    and rest: "write_targets u gp now item reusable (Suc i) targets (note_granted gp target row granted) db1 = Inr (granted', db')"
    using Cons.prems(1) by (auto split: sum.splits)
  show ?case
  proof (cases "reusable = Some i")
    case True
    then have "update_subscription_segment item target now db = Inr (row, db1)" using step by simp
    note db1 = update_segment_Inr [OF this]
    have "item \<in> set (db_subscriptions db)" using Cons.prems(5) True by simp
    then have w: "wrote u (sb_ID item) db db1 (g (segment_row item target now item) - g item)"
      unfolding db1 by (intro update_wrote Cons.prems(2,3)) simp_all
    from w have "ids_ok db1" "sb_ID item \<le> length (db_subscriptions db1)"
      using Cons.prems(4) by (auto simp: wrote_def)
    then have "wrote u (sb_ID item) db1 db' (written_sum g u now item reusable (Suc i) targets)"
      using Cons.IH [OF rest _ Cons.prems(3)] True by simp
    from wrote_trans [OF w this] show ?thesis using True by (simp add: algebra_simps)
  next
    case False
    then have c: "create_subscription_segment u target db = Inr (row, db1)" using step by simp
    note w = create_wrote [OF c Cons.prems(2), of "sb_ID item"]
    have "item \<in> set (db_subscriptions db1)" if "\<exists>j. reusable = Some j \<and> Suc i \<le> j"
      using Cons.prems(5) create_Inr(4) [OF c] that by auto
    then have "wrote u (sb_ID item) db1 db' (written_sum g u now item reusable (Suc i) targets -
        (if \<exists>j. reusable = Some j \<and> Suc i \<le> j \<and> j < Suc i + length targets then g item else 0))"
      using Cons.IH [OF rest _ Cons.prems(3)] w Cons.prems(4) by (auto simp: wrote_def)
    from wrote_trans [OF w this] have "wrote u (sb_ID item) db db' (g (created_row 0 u target) +
        (written_sum g u now item reusable (Suc i) targets -
        (if \<exists>j. reusable = Some j \<and> Suc i \<le> j \<and> j < Suc i + length targets then g item else 0)))" .
    moreover have "(\<exists>j. reusable = Some j \<and> Suc i \<le> j \<and> j < Suc i + length targets) \<longleftrightarrow>
        (\<exists>j. reusable = Some j \<and> i \<le> j \<and> j < i + length (target # targets))"
      using False by (auto simp: le_less Suc_le_eq)
    ultimately show ?thesis using False by (simp only: written_sum.simps if_False add_diff_eq)
  qed
qed

text \<open>All rows a grant may move, with the segments each receives.\<close>

definition rewritten :: "nat \<Rightarrow> gtime \<Rightarrow> (nat \<Rightarrow> segment list) \<Rightarrow> subscription \<Rightarrow> int" where
  "rewritten u now targetsOf item = written_sum g u now item
     (reusable_subscription_segment_index item (targetsOf (sb_ID item)) now) 0 (targetsOf (sb_ID item))"

definition stepped :: "nat \<Rightarrow> billing_db \<Rightarrow> billing_db \<Rightarrow> int \<Rightarrow> bool" where
  "stepped u db db' x \<longleftrightarrow> ids_ok db' \<and> same_but_subscriptions db db' \<and> row_sum g db' = row_sum g db + x \<and>
     (\<forall>v. v \<noteq> u \<longrightarrow> filter (\<lambda>s. sb_UserID s = v) (db_subscriptions db') = filter (\<lambda>s. sb_UserID s = v) (db_subscriptions db))"

lemma wrote_stepped: "wrote u sid db db' x \<Longrightarrow> stepped u db db' x"
  by (simp add: wrote_def stepped_def)

lemma stepped_trans: "stepped u a b x \<Longrightarrow> stepped u b c y \<Longrightarrow> stepped u a c (x + y)"
  using same_but_trans by (auto simp: stepped_def)

lemma expire_wrote:
  assumes "ids_ok db" "item \<in> set (db_subscriptions db)" "sb_UserID item = u"
  shows "wrote u (sb_ID item) db (expire_subscription_for_timeline item now db) (- g item)"
proof -
  obtain e where f: "expire_subscription_for_timeline item now db = update_subscription (sb_ID item)
      (\<lambda>s. s\<lparr>sb_Status := ''expired'', sb_AutoRenew := False, sb_CancelAtPeriodEnd := False, sb_CurrentPeriodEndAt := Some e\<rparr>) db"
    by (auto simp: expire_subscription_for_timeline_def Let_def)
  let ?f = "\<lambda>s. s\<lparr>sb_Status := ''expired'', sb_AutoRenew := False, sb_CancelAtPeriodEnd := False, sb_CurrentPeriodEndAt := Some e\<rparr>"
  have "wrote u (sb_ID item) db (update_subscription (sb_ID item) ?f db) (g (?f item) - g item)"
    by (rule update_wrote [OF assms]) simp
  moreover have "g (?f item) = 0" by (rule expired) simp
  ultimately show ?thesis unfolding f by simp
qed

lemma reusable_bound: "reusable_index_from i item targets now = Some j \<Longrightarrow> i \<le> j \<and> j < i + length targets"
  by (induction i item targets now rule: reusable_index_from.induct) (auto split: if_splits)

lemma write_item:
  assumes "targetsOf (sb_ID item) \<noteq> []" "reusable = reusable_subscription_segment_index item (targetsOf (sb_ID item)) now"
    and "write_targets u gp now item reusable 0 (targetsOf (sb_ID item)) granted
      (if reusable = None then expire_subscription_for_timeline item now db else db) = Inr (granted', db')"
    and "ids_ok db" "item \<in> set (db_subscriptions db)" "sb_UserID item = u"
  shows "wrote u (sb_ID item) db db' (rewritten u now targetsOf item - g item)"
proof -
  let ?db = "if reusable = None then expire_subscription_for_timeline item now db else db"
  have id: "sb_ID item \<le> length (db_subscriptions db)"
  proof -
    have "sb_ID item \<in> set (map Suc [0..<length (db_subscriptions db)])"
      using assms(4,5) unfolding ids_ok_def by (metis image_eqI image_set)
    then show ?thesis by auto
  qed
  have w: "wrote u (sb_ID item) db ?db (if reusable = None then - g item else 0)"
    using expire_wrote [OF assms(4,5,6)] wrote_refl [OF assms(4)] by simp
  have "wrote u (sb_ID item) ?db db' (written_sum g u now item reusable 0 (targetsOf (sb_ID item)) -
      (if \<exists>j. reusable = Some j \<and> 0 \<le> j \<and> j < 0 + length (targetsOf (sb_ID item)) then g item else 0))"
    by (rule write_targets_sum [OF assms(3)]) (use w id assms(5,6) in \<open>auto simp: wrote_def\<close>)
  moreover have "(\<exists>j. reusable = Some j \<and> 0 \<le> j \<and> j < 0 + length (targetsOf (sb_ID item))) \<longleftrightarrow> reusable \<noteq> None"
    using assms(2) reusable_bound [of 0 item "targetsOf (sb_ID item)" now]
    by (auto simp: reusable_subscription_segment_index_def)
  ultimately have "wrote u (sb_ID item) db db' ((if reusable = None then - g item else 0) +
      (rewritten u now targetsOf item - (if reusable \<noteq> None then g item else 0)))"
    using wrote_trans [OF w] by (simp add: rewritten_def assms(2))
  then show ?thesis by (simp split: if_splits)
qed

lemma write_existing_sum:
  assumes "write_existing u gp now targetsOf items granted db = Inr (granted', db')"
    and "ids_ok db" "set items \<subseteq> set (db_subscriptions db)" "distinct (map sb_ID items)"
    and "\<forall>item \<in> set items. sb_UserID item = u"
  shows "stepped u db db' (sum_list (map (rewritten u now targetsOf) items) - sum_list (map g items))"
  using assms
proof (induction items arbitrary: granted db)
  case Nil
  then show ?case by (auto simp: stepped_def)
next
  case (Cons item items)
  have item: "item \<in> set (db_subscriptions db)" "sb_UserID item = u" using Cons.prems by simp_all
  obtain granted1 db1 where w: "wrote u (sb_ID item) db db1 (rewritten u now targetsOf item - g item)"
    and rest: "write_existing u gp now targetsOf items granted1 db1 = Inr (granted', db')"
  proof (cases "targetsOf (sb_ID item) = []")
    case True
    then show thesis
      using that [of "expire_subscription_for_timeline item now db" granted] Cons.prems(1) expire_wrote [OF Cons.prems(2) item, of now]
      by (simp add: rewritten_def)
  next
    case False
    let ?r = "reusable_subscription_segment_index item (targetsOf (sb_ID item)) now"
    from False Cons.prems(1) obtain granted1 db1 where
      "write_targets u gp now item ?r 0 (targetsOf (sb_ID item)) granted
         (if ?r = None then expire_subscription_for_timeline item now db else db) = Inr (granted1, db1)"
      "write_existing u gp now targetsOf items granted1 db1 = Inr (granted', db')"
      by (auto simp: Let_def split: sum.splits)
    then show thesis
      using that write_item [where targetsOf = targetsOf and item = item and now = now and reusable = ?r, OF False refl _ Cons.prems(2) item]
      by blast
  qed
  have "stepped u db1 db' (sum_list (map (rewritten u now targetsOf) items) - sum_list (map g items))"
  proof (rule Cons.IH [OF rest])
    show "set items \<subseteq> set (db_subscriptions db1)"
    proof
      fix x assume x: "x \<in> set items"
      then have "sb_ID x \<noteq> sb_ID item" using Cons.prems(4) by (metis distinct.simps(2) image_eqI image_set list.simps(9))
      with x show "x \<in> set (db_subscriptions db1)" using w Cons.prems(3) by (auto simp: wrote_def)
    qed
  qed (use w Cons.prems in \<open>auto simp: wrote_def\<close>)
  from stepped_trans [OF wrote_stepped [OF w] this] show ?case by (simp add: algebra_simps)
qed

lemma write_new_sum:
  assumes "write_new u gp targets granted db = Inr (granted', db')" "ids_ok db"
  shows "stepped u db db' (sum_list (map (\<lambda>t. g (created_row 0 u t)) targets))"
  using assms
proof (induction targets arbitrary: granted db)
  case Nil
  then show ?case by (auto simp: stepped_def)
next
  case (Cons target targets)
  from Cons.prems(1) obtain row db1 where c: "create_subscription_segment u target db = Inr (row, db1)"
    and rest: "write_new u gp targets (note_granted gp target row granted) db1 = Inr (granted', db')"
    by (auto split: sum.splits)
  note w = wrote_stepped [OF create_wrote [OF c Cons.prems(2), of 0]]
  then have "stepped u db1 db' (sum_list (map (\<lambda>t. g (created_row 0 u t)) targets))"
    by (intro Cons.IH [OF rest]) (simp add: stepped_def)
  from stepped_trans [OF w this] show ?case by simp
qed

end

section \<open>A grant on the rows\<close>

context row_measure
begin

lemma apply_sum:
  assumes "apply_subscription_timeline u existing segments now gp db = Inr (record, db')"
    and "ids_ok db" "set existing \<subseteq> set (db_subscriptions db)" "distinct (map sb_ID existing)"
    and "\<forall>item \<in> set existing. sb_UserID item = u"
  shows "stepped u db db'
    (sum_list (map (rewritten u now (\<lambda>sid. filter (\<lambda>s. sg_SubscriptionID s > 0 \<and> sg_SubscriptionID s = sid) (normalize_timeline segments))) existing)
      - sum_list (map g existing)
      + sum_list (map (\<lambda>t. g (created_row 0 u t)) (filter (\<lambda>s. \<not> sg_SubscriptionID s > 0) (normalize_timeline segments))))"
proof -
  let ?t = "\<lambda>sid. filter (\<lambda>s. sg_SubscriptionID s > 0 \<and> sg_SubscriptionID s = sid) (normalize_timeline segments)"
  obtain granted db1 granted' where e: "write_existing u gp now ?t existing None db = Inr (granted, db1)"
    and n: "write_new u gp (filter (\<lambda>s. \<not> sg_SubscriptionID s > 0) (normalize_timeline segments)) granted db1 = Inr (granted', db')"
    using assms(1) unfolding apply_subscription_timeline_def Let_def by (auto split: sum.splits option.splits)
  note a = write_existing_sum [OF e assms(2-5)]
  then have "ids_ok db1" by (simp add: stepped_def)
  from stepped_trans [OF a write_new_sum [OF n this]] show ?thesis .
qed

end

text \<open>A row as a segment from \<open>now\<close> on.\<close>

definition row_segment :: "gtime \<Rightarrow> subscription \<Rightarrow> segment" where
  "row_segment now s = \<lparr>sg_SubscriptionID = 0, sg_PlanID = sb_PlanID s, sg_PriceID = sb_PriceID s, sg_Rank = 0,
     sg_StartAt = max now (sb_CurrentPeriodStartAt s), sg_EndAt = the (sb_CurrentPeriodEndAt s),
     sg_CancelAtPeriodEnd = sb_CancelAtPeriodEnd s, sg_AutoRenew = sb_AutoRenew s, sg_NewGrant = False\<rparr>"

definition holds_after :: "nat \<Rightarrow> gtime \<Rightarrow> subscription \<Rightarrow> bool" where
  "holds_after u now s \<longleftrightarrow> sb_UserID s = u \<and> sb_Status s = ''active'' \<and>
     (case sb_CurrentPeriodEndAt s of None \<Rightarrow> False | Some e \<Rightarrow> e > now \<and> e > sb_CurrentPeriodStartAt s)"

definition row_value :: "(segment \<Rightarrow> int) \<Rightarrow> nat \<Rightarrow> gtime \<Rightarrow> subscription \<Rightarrow> int" where
  "row_value f u now s = (if holds_after u now s then f (row_segment now s) else 0)"

text \<open>
  A measure of segments that looks only at what a row keeps measures the rows as well, and a
  grant makes the rows measure what the new timeline does.
\<close>

locale row_view = segment_measure f for f +
  fixes u :: nat and now :: gtime
  assumes kept_fields: "f (s\<lparr>sg_SubscriptionID := a, sg_Rank := b, sg_NewGrant := c\<rparr>) = f s"
begin

lemma created_value:
  assumes "proper_segment t" "now \<le> sg_StartAt t"
  shows "row_value f u now (created_row sid u t) = f t"
proof -
  have "row_segment now (created_row sid u t) = t\<lparr>sg_SubscriptionID := 0, sg_Rank := 0, sg_NewGrant := False\<rparr>"
    using assms by (intro segment.equality) (simp_all add: row_segment_def created_row_def)
  moreover have "holds_after u now (created_row sid u t)"
    using assms by (simp add: holds_after_def created_row_def proper_segment_def)
  ultimately show ?thesis by (simp add: row_value_def kept_fields)
qed

lemma updated_value:
  assumes "proper_segment t" "now \<le> sg_StartAt t" "sb_UserID item = u"
  shows "row_value f u now (segment_row item t now item) = f t"
proof -
  have "row_segment now (segment_row item t now item) = t\<lparr>sg_SubscriptionID := 0, sg_Rank := 0, sg_NewGrant := False\<rparr>"
    using assms by (intro segment.equality) (simp_all add: row_segment_def segment_row_def Let_def)
  moreover have "holds_after u now (segment_row item t now item)"
    using assms by (simp add: holds_after_def segment_row_def Let_def proper_segment_def)
  ultimately show ?thesis by (simp add: row_value_def kept_fields)
qed

lemma written_value:
  assumes "\<forall>t \<in> set targets. proper_segment t \<and> now \<le> sg_StartAt t" "sb_UserID item = u"
  shows "written_sum (row_value f u now) u now item reusable i targets = total targets"
  using assms(1) by (induction targets arbitrary: i) (simp_all add: created_value updated_value assms(2))

end

sublocale row_view \<subseteq> rows: row_measure "row_value f u now"
proof
  fix s :: subscription and x
  show "row_value f u now (s\<lparr>sb_ID := x\<rparr>) = row_value f u now s"
    unfolding row_value_def holds_after_def row_segment_def by (simp cong: if_cong option.case_cong)
  show "sb_Status s = ''expired'' \<Longrightarrow> row_value f u now s = 0"
    by (simp add: row_value_def holds_after_def)
qed

lemma sum_partition:
  fixes k :: "'a \<Rightarrow> nat"
  assumes "distinct ids" "\<forall>x \<in> set xs. k x = 0 \<or> k x \<in> set ids" "0 \<notin> set ids"
  shows "(\<Sum>i \<leftarrow> ids. \<Sum>x \<leftarrow> filter (\<lambda>x. k x > 0 \<and> k x = i) xs. f x) + (\<Sum>x \<leftarrow> filter (\<lambda>x. \<not> k x > 0) xs. f x) =
    (\<Sum>x \<leftarrow> xs. f x :: int)"
  using assms(2)
proof (induction xs)
  case (Cons x xs)
  have "(\<Sum>i \<leftarrow> ids. \<Sum>x \<leftarrow> filter (\<lambda>x. k x > 0 \<and> k x = i) (x # xs). f x) =
      (\<Sum>i \<leftarrow> ids. (if k x = i then if k x > (0::nat) then f x else 0 else 0) + (\<Sum>x \<leftarrow> filter (\<lambda>x. k x > 0 \<and> k x = i) xs. f x))"
    by (intro arg_cong [where f = sum_list] map_cong) auto
  also have "\<dots> = (\<Sum>i \<leftarrow> ids. if k x = i then if k x > 0 then f x else 0 else 0) +
      (\<Sum>i \<leftarrow> ids. \<Sum>x \<leftarrow> filter (\<lambda>x. k x > 0 \<and> k x = i) xs. f x)"
    by (rule sum_list_addf)
  also have "(\<Sum>i \<leftarrow> ids. if k x = i then if k x > 0 then f x else 0 else 0) = (if k x > 0 then f x else 0)"
  proof (cases "k x > 0")
    case True
    then have "k x \<in> set ids" using Cons.prems by auto
    with assms(1) have "(\<Sum>i \<leftarrow> ids. if k x = i then f x else 0) = f x"
    proof (induction ids)
      case (Cons i ids)
      have "k x \<notin> set js \<Longrightarrow> (\<Sum>i \<leftarrow> js. if k x = i then f x else 0) = 0" for js by (induction js) auto
      with Cons show ?case by auto
    qed simp
    with True show ?thesis by simp
  qed (simp add: sum_list_0)
  finally show ?case using Cons by simp
qed simp

text \<open>The segments the existing rows make.\<close>

lemma movable_rows_facts:
  "set (movable_rows db u now) \<subseteq> set (db_subscriptions db)"
  "s \<in> set (movable_rows db u now) \<Longrightarrow> sb_UserID s = u \<and> sb_Status s = ''active'' \<and>
     (\<exists>e. sb_CurrentPeriodEndAt s = Some e \<and> now < e)"
  "ids_ok db \<Longrightarrow> distinct (map sb_ID (movable_rows db u now))"
proof -
  show "set (movable_rows db u now) \<subseteq> set (db_subscriptions db)" by (auto simp: movable_rows_def)
  show "s \<in> set (movable_rows db u now) \<Longrightarrow> sb_UserID s = u \<and> sb_Status s = ''active'' \<and>
     (\<exists>e. sb_CurrentPeriodEndAt s = Some e \<and> now < e)" by (auto simp: movable_rows_def split: option.splits)
  assume "ids_ok db"
  then have "inj_on sb_ID (set (db_subscriptions db))" "distinct (db_subscriptions db)"
    using ids_distinct by (auto simp: distinct_map)
  then show "distinct (map sb_ID (movable_rows db u now))"
    unfolding movable_rows_def distinct_map by (auto intro: inj_on_subset)
qed

context row_view
begin

lemma movable_value: "sum_list (map (row_value f u now) (movable_rows db u now)) = row_sum (row_value f u now) db"
proof -
  have z: "row_value f u now s = 0"
    if "\<not> (sb_UserID s = u \<and> sb_Status s = ''active'' \<and>
        (case sb_CurrentPeriodEndAt s of None \<Rightarrow> False | Some e \<Rightarrow> e > now))" for s
    using that by (auto simp: row_value_def holds_after_def split: option.splits)
  have "sum_list (map g (sort_key k xs)) = sum_list (map g xs)" for g :: "subscription \<Rightarrow> int" and k :: "subscription \<Rightarrow> gtime \<times> gtime \<times> nat" and xs
    by (metis mset_map mset_sort sum_mset_sum_list)
  then have "sum_list (map (row_value f u now) (movable_rows db u now)) =
      sum_list (map (row_value f u now) (filter (\<lambda>s. sb_UserID s = u \<and> sb_Status s = ''active'' \<and>
        (case sb_CurrentPeriodEndAt s of None \<Rightarrow> False | Some e \<Rightarrow> e > now)) (db_subscriptions db)))"
    by (simp add: movable_rows_def)
  also have "\<dots> = row_sum (row_value f u now) db"
    unfolding row_sum_def by (rule sum_list_map_filter) (use z in blast)
  finally show ?thesis .
qed

lemma segments_value:
  assumes "timeline_segments plans now items = Inr segs"
    and "\<forall>s \<in> set items. sb_UserID s = u \<and> sb_Status s = ''active'' \<and> (\<exists>e. sb_CurrentPeriodEndAt s = Some e \<and> now < e)"
  shows "total segs = sum_list (map (row_value f u now) items)"
  using assms
proof (induction items arbitrary: segs)
  case (Cons item items)
  obtain e where item: "sb_UserID item = u" "sb_Status item = ''active''" "sb_CurrentPeriodEndAt item = Some e" "now < e"
    using Cons.prems(2) by auto
  let ?start = "if sb_CurrentPeriodStartAt item < now then now else sb_CurrentPeriodStartAt item"
  show ?case
  proof (cases "e > ?start")
    case False
    then have "row_value f u now item = 0" using item by (auto simp: row_value_def holds_after_def split: if_splits)
    then show ?thesis using Cons item False by (auto split: if_splits)
  next
    case True
    then obtain plan segs' where s: "timeline_segments plans now items = Inr segs'"
      "segs = \<lparr>sg_SubscriptionID = sb_ID item, sg_PlanID = sb_PlanID item,
                  sg_PriceID = sb_PriceID item, sg_Rank = subscription_plan_rank plan, sg_StartAt = ?start,
                  sg_EndAt = e, sg_CancelAtPeriodEnd = sb_CancelAtPeriodEnd item,
                  sg_AutoRenew = sb_AutoRenew item, sg_NewGrant = False\<rparr> # segs'" (is "_ = ?s # _")
      using Cons.prems(1) item by (cases "timeline_segments plans now items") (auto simp: Let_def split: option.splits)
    have "row_segment now item = ?s\<lparr>sg_SubscriptionID := 0, sg_Rank := 0, sg_NewGrant := False\<rparr>"
      using item by (intro segment.equality) (auto simp: row_segment_def)
    then have "row_value f u now item = f ?s"
      using item True kept_fields [where s = ?s and a = 0 and b = 0 and c = False] by (simp add: row_value_def holds_after_def split: if_splits)
    moreover have "total segs' = sum_list (map (row_value f u now) items)" by (rule Cons.IH [OF s(1)]) (use Cons.prems(2) in simp)
    ultimately show ?thesis unfolding s(2) by simp
  qed
qed auto

end

lemma segments_facts:
  assumes "timeline_segments plans now items = Inr segs" "t \<in> set segs"
  shows "now \<le> sg_StartAt t \<and> sg_StartAt t < sg_EndAt t \<and>
    (\<exists>s \<in> set items. sg_SubscriptionID t = sb_ID s \<and> sg_PlanID t = sb_PlanID s \<and> sg_PriceID t = sb_PriceID s \<and>
       sg_NewGrant t = False \<and> (\<exists>plan. plans (sb_PlanID s) = Some plan \<and> sg_Rank t = subscription_plan_rank plan))"
  using assms
proof (induction items arbitrary: segs)
  case (Cons item items)
  show ?case
  proof (cases "timeline_segments plans now items = Inr segs")
    case True
    from Cons.IH [OF this Cons.prems(2)] show ?thesis by auto
  next
    case False
    then obtain e plan segs' where s: "timeline_segments plans now items = Inr segs'" "plans (sb_PlanID item) = Some plan"
      "e > now" "e > (if sb_CurrentPeriodStartAt item < now then now else sb_CurrentPeriodStartAt item)"
      "segs = \<lparr>sg_SubscriptionID = sb_ID item, sg_PlanID = sb_PlanID item,
                  sg_PriceID = sb_PriceID item, sg_Rank = subscription_plan_rank plan,
                  sg_StartAt = (if sb_CurrentPeriodStartAt item < now then now else sb_CurrentPeriodStartAt item),
                  sg_EndAt = e, sg_CancelAtPeriodEnd = sb_CancelAtPeriodEnd item,
                  sg_AutoRenew = sb_AutoRenew item, sg_NewGrant = False\<rparr> # segs'"
      using Cons.prems(1) by (cases "timeline_segments plans now items") (auto simp: Let_def split: option.splits if_splits)
    show ?thesis
    proof (cases "t \<in> set segs'")
      case True
      from Cons.IH [OF s(1) this] show ?thesis by auto
    next
      case False
      with Cons.prems(2) s(5) have "t = hd segs" by auto
      with s show ?thesis by auto
    qed
  qed
qed auto

section \<open>Which rows of a user are in force\<close>

text \<open>
  When a row is in force, as the queries of the current subscription read it: a row without an end (a
  lifetime plan) is in force from its start on. \<open>row_active\<close> are the rows in force that end, which are those
  the timeline arranges.
\<close>

definition in_force :: "nat \<Rightarrow> gtime \<Rightarrow> subscription \<Rightarrow> bool" where
  "in_force u t s \<longleftrightarrow> sb_UserID s = u \<and> sb_Status s = ''active'' \<and> sb_CurrentPeriodStartAt s \<le> t \<and>
     (case sb_CurrentPeriodEndAt s of None \<Rightarrow> True | Some e \<Rightarrow> t < e)"

definition row_active :: "nat \<Rightarrow> gtime \<Rightarrow> subscription \<Rightarrow> bool" where
  "row_active u t s \<longleftrightarrow> sb_UserID s = u \<and> sb_Status s = ''active'' \<and>
     (case sb_CurrentPeriodEndAt s of None \<Rightarrow> False | Some e \<Rightarrow> sb_CurrentPeriodStartAt s \<le> t \<and> t < e)"

definition row_endless :: "nat \<Rightarrow> subscription \<Rightarrow> bool" where
  "row_endless u s \<longleftrightarrow> sb_UserID s = u \<and> sb_Status s = ''active'' \<and> sb_CurrentPeriodEndAt s = None"

text \<open>
  Identifiers are positions, an active row has a plan and a price, of the rows of a user that end at most
  one is in force at any time, and a user has at most one active row without an end.
\<close>

definition subscriptions_ok :: "billing_db \<Rightarrow> bool" where
  "subscriptions_ok db \<longleftrightarrow> ids_ok db \<and>
     (\<forall>s \<in> set (db_subscriptions db). sb_Status s = ''active'' \<longrightarrow> sb_PlanID s \<noteq> 0 \<and> sb_PriceID s \<noteq> 0) \<and>
     (\<forall>u t. length (filter (row_active u t) (db_subscriptions db)) \<le> 1) \<and>
     (\<forall>u. length (filter (row_endless u) (db_subscriptions db)) \<le> 1)"

text \<open>So two rows are in force at once only if one of them is the lifetime plan of the user.\<close>

definition in_force_bounded :: "billing_db \<Rightarrow> bool" where
  "in_force_bounded db \<longleftrightarrow> (\<forall>u t.
     length (filter (\<lambda>s. in_force u t s \<and> sb_CurrentPeriodEndAt s \<noteq> None) (db_subscriptions db)) \<le> 1 \<and>
     length (filter (\<lambda>s. in_force u t s \<and> sb_CurrentPeriodEndAt s = None) (db_subscriptions db)) \<le> 1)"

lemma subscriptions_bounded:
  assumes "subscriptions_ok db"
  shows "in_force_bounded db"
  unfolding in_force_bounded_def
proof (intro allI conjI)
  fix u t
  have "length (filter (\<lambda>s. in_force u t s \<and> sb_CurrentPeriodEndAt s = None) xs) \<le> length (filter (row_endless u) xs)" for xs
    by (induction xs) (auto simp: in_force_def row_endless_def)
  then show "length (filter (\<lambda>s. in_force u t s \<and> sb_CurrentPeriodEndAt s = None) (db_subscriptions db)) \<le> 1"
    using assms unfolding subscriptions_ok_def by (meson order_trans)
  have "(\<lambda>s. in_force u t s \<and> sb_CurrentPeriodEndAt s \<noteq> None) = row_active u t"
    by (auto simp: fun_eq_iff in_force_def row_active_def split: option.splits)
  then show "length (filter (\<lambda>s. in_force u t s \<and> sb_CurrentPeriodEndAt s \<noteq> None) (db_subscriptions db)) \<le> 1"
    using assms by (simp add: subscriptions_ok_def)
qed

text \<open>The time the user still has of a plan.\<close>

definition remaining_time :: "nat \<Rightarrow> nat \<Rightarrow> gtime \<Rightarrow> billing_db \<Rightarrow> duration" where
  "remaining_time p u now db = sum_list (map (\<lambda>s. if holds_after u now s \<and> sb_PlanID s = p
     then the (sb_CurrentPeriodEndAt s) - max now (sb_CurrentPeriodStartAt s) else 0) (db_subscriptions db))"

interpretation at: row_view "\<lambda>s. of_bool (active_at t s)" u now for t u now
  by unfold_locales (simp add: active_at_def)

interpretation plan_time: row_view "\<lambda>s. if sg_PlanID s = p then sg_EndAt s - sg_StartAt s else 0" u now for p u now
  by unfold_locales simp_all

lemma remaining_time_sum:
  "remaining_time p u now db = row_sum (row_value (\<lambda>s. if sg_PlanID s = p then sg_EndAt s - sg_StartAt s else 0) u now) db"
  unfolding remaining_time_def row_sum_def
  by (intro arg_cong [where f = sum_list] map_cong refl) (simp add: row_value_def row_segment_def)

lemma plan_time_total: "plan_time.total p segs = time_of (\<lambda>k. fst (snd k) = p) segs"
  by (simp add: plan_time.total_def time_of_def segment_key_def)

lemma active_value:
  "now \<le> t \<Longrightarrow> row_value (\<lambda>s. of_bool (active_at t s)) u now s = of_bool (row_active u t s)"
  by (auto simp: row_value_def row_active_def holds_after_def active_at_def row_segment_def split: option.splits)

lemma active_sum:
  "now \<le> t \<Longrightarrow> row_sum (row_value (\<lambda>s. of_bool (active_at t s)) u now) db =
     int (length (filter (row_active u t) (db_subscriptions db)))"
  unfolding row_sum_def filter_length_sum
  by (intro arg_cong [where f = sum_list] map_cong refl) (rule active_value)

lemma segments_timeline_ok:
  assumes "timeline_segments plans now (movable_rows db u now) = Inr segs" "subscriptions_ok db"
  shows "timeline_ok segs"
  unfolding timeline_ok_def
proof (intro conjI allI ballI)
  fix t
  show "length (filter (active_at t) segs) \<le> 1"
  proof (cases "now \<le> t")
    case True
    have "depth.total t segs = row_sum (row_value (\<lambda>s. of_bool (active_at t s)) u now) db"
      using at.segments_value [OF assms(1)] movable_rows_facts(2) at.movable_value by metis
    then have "length (filter (active_at t) segs) = length (filter (row_active u t) (db_subscriptions db))"
      unfolding active_sum [OF True] depth.total_def filter_length_sum [symmetric] by simp
    then show ?thesis using assms(2) by (simp add: subscriptions_ok_def)
  next
    case False
    then have "filter (active_at t) segs = []"
      using segments_facts [OF assms(1)] by (fastforce simp: active_at_def filter_empty_conv)
    then show ?thesis by simp
  qed
next
  fix s assume "s \<in> set segs"
  from segments_facts [OF assms(1) this] obtain r where r: "r \<in> set (movable_rows db u now)"
    "sg_PlanID s = sb_PlanID r" "sg_PriceID s = sb_PriceID r" "sg_StartAt s < sg_EndAt s" by blast
  then have "r \<in> set (db_subscriptions db)" "sb_Status r = ''active''"
    using movable_rows_facts(1) [of db u now] movable_rows_facts(2) [OF r(1)] r(1) by auto
  with r assms(2) show "proper_segment s" by (simp add: proper_segment_def subscriptions_ok_def)
qed

lemma grant_Inr:
  assumes "grant_subscription_on_timeline clock q db = Inr (row, db')"
  defines "now \<equiv> if is_zero (gq_StartAt q) then clock else gq_StartAt q"
  obtains plans segs segs' where
    "gq_UserID q \<noteq> 0" "bp_ID (gq_Plan q) \<noteq> 0" "pr_ID (gq_Price q) \<noteq> 0" "0 < gq_Duration q"
    "billing_plans_for_timeline db (append_subscription_plan_id (movable_rows db (gq_UserID q) now) (bp_ID (gq_Plan q))) = Inr plans"
    "timeline_segments plans now (movable_rows db (gq_UserID q) now) = Inr segs"
    "build_subscription_timeline segs (timeline_grant_of q now) = Inr segs'"
    "apply_subscription_timeline (gq_UserID q) (movable_rows db (gq_UserID q) now) segs' now (bp_ID (gq_Plan q)) db = Inr (row, db')"
proof -
  have pre: "\<not> (gq_UserID q = 0 \<or> bp_ID (gq_Plan q) = 0 \<or> pr_ID (gq_Price q) = 0 \<or> gq_Duration q \<le> 0)"
    using assms(1) unfolding grant_subscription_on_timeline_def by (metis Inl_Inr_False)
  then have "(case billing_plans_for_timeline db (append_subscription_plan_id (movable_rows db (gq_UserID q) now) (bp_ID (gq_Plan q))) of Inl err \<Rightarrow> Inl err
        | Inr plans \<Rightarrow> (case timeline_segments plans now (movable_rows db (gq_UserID q) now) of Inl err \<Rightarrow> Inl err
        | Inr segments \<Rightarrow> (case build_subscription_timeline segments (timeline_grant_of q now) of Inl err \<Rightarrow> Inl err
        | Inr segments \<Rightarrow> apply_subscription_timeline (gq_UserID q) (movable_rows db (gq_UserID q) now) segments now (bp_ID (gq_Plan q)) db))) = Inr (row, db')"
    using assms(1) unfolding grant_subscription_on_timeline_def now_def [symmetric] Let_def by simp
  with pre show thesis by (auto intro: that split: sum.splits)
qed

text \<open>What the new timeline has of the old grants and of the new one.\<close>

lemma grant_timeline:
  assumes "timeline_segments plans now (movable_rows db u now) = Inr segs" "subscriptions_ok db"
    and "build_subscription_timeline segs (timeline_grant_of q now) = Inr segs'"
    and "bp_ID (gq_Plan q) \<noteq> 0" "pr_ID (gq_Price q) \<noteq> 0" "gq_Duration q \<le> int64_max"
  shows "timeline_ok segs'"
    and "time_of k segs' = time_of k segs + (if k (grant_key (timeline_grant_of q now)) then gq_Duration q else 0)"
    and "t \<in> set (normalize_timeline segs') \<Longrightarrow> proper_segment t \<and> now \<le> sg_StartAt t"
    and "t \<in> set (normalize_timeline segs') \<Longrightarrow> sg_SubscriptionID t = 0 \<or> sg_SubscriptionID t \<in> sb_ID ` set (movable_rows db u now)"
proof -
  let ?g = "timeline_grant_of q now"
  note ok = segments_timeline_ok [OF assms(1,2)]
  have "0 < gr_Duration ?g" using assms(3) timeline_always_built_iff by blast
  then have g: "grant_ok ?g" using assms(4-6) by (simp add: grant_ok_def timeline_grant_of_def)
  have c: "timeline_ok segs' \<and> time_of k segs' = time_of k segs + (if k (grant_key ?g) then gq_Duration q else 0)" for k
    using timeline_conserves [OF assms(3) ok g, of k] by (simp add: timeline_grant_of_def)
  show okS: "timeline_ok segs'" and
    "time_of k segs' = time_of k segs + (if k (grant_key (timeline_grant_of q now)) then gq_Duration q else 0)"
    using c by blast+
  have okN: "timeline_ok (normalize_timeline segs')" using okS normalize_ok [of segs'] by (simp add: timeline_ok_filter)
  have "\<forall>s \<in> set segs'. now \<le> sg_StartAt s"
    using build_starts [OF assms(3), of now] segments_facts [OF assms(1)] by (auto simp: timeline_grant_of_def)
  from normalize_starts [OF this] show "proper_segment t \<and> now \<le> sg_StartAt t" if "t \<in> set (normalize_timeline segs')"
    using that okN by (simp add: timeline_ok_def)
  show "sg_SubscriptionID t = 0 \<or> sg_SubscriptionID t \<in> sb_ID ` set (movable_rows db u now)" if t: "t \<in> set (normalize_timeline segs')"
  proof (rule ccontr)
    assume not: "\<not> (sg_SubscriptionID t = 0 \<or> sg_SubscriptionID t \<in> sb_ID ` set (movable_rows db u now))"
    define Q :: "segment_key \<Rightarrow> bool" where "Q = (\<lambda>k. fst k \<noteq> 0 \<and> fst k \<notin> sb_ID ` set (movable_rows db u now))"
    have "time_of Q segs = 0"
      unfolding time_of_def using segments_facts [OF assms(1)]
      by (intro sum_list_0_all) (auto simp: Q_def segment_key_def)
    then have z: "time_of Q (normalize_timeline segs') = 0"
      using c [of Q] span.normalize_total [OF okS, of Q, unfolded span_total]
      by (simp add: Q_def grant_key_def timeline_grant_of_def)
    have "0 < sg_EndAt t - sg_StartAt t" using okN t by (simp add: timeline_ok_def proper_segment_def)
    moreover have "sg_EndAt t - sg_StartAt t \<le> time_of Q (normalize_timeline segs')"
      using t okN not by (intro time_of_member) (auto simp: Q_def segment_key_def)
    ultimately show False using z by simp
  qed
qed

context row_view
begin

lemma grant_rows:
  assumes "apply_subscription_timeline u (movable_rows db u now) segs' now (bp_ID (gq_Plan q)) db = Inr (row, db')"
    and "subscriptions_ok db" "gq_Duration q \<le> int64_max" "bp_ID (gq_Plan q) \<noteq> 0" "pr_ID (gq_Price q) \<noteq> 0"
    and "timeline_segments plans now (movable_rows db u now) = Inr segs"
    and "build_subscription_timeline segs (timeline_grant_of q now) = Inr segs'"
  shows "rows.stepped u db db' (total segs' - row_sum (row_value f u now) db)"
proof -
  let ?N = "normalize_timeline segs'" and ?E = "movable_rows db u now"
  let ?T = "\<lambda>sid. filter (\<lambda>s. sg_SubscriptionID s > 0 \<and> sg_SubscriptionID s = sid) ?N"
  note t = grant_timeline [OF assms(6,2,7,4,5,3)]
  have ids: "ids_ok db" using assms(2) by (simp add: subscriptions_ok_def)
  note m = movable_rows_facts
  have users: "\<forall>item \<in> set ?E. sb_UserID item = u" using m(2) by blast
  note step = rows.apply_sum [OF assms(1) ids m(1) m(3) [OF ids] users]
  have old: "sum_list (map (rows.rewritten u now ?T) ?E) =
      (\<Sum>i \<leftarrow> map sb_ID ?E. \<Sum>x \<leftarrow> filter (\<lambda>x. sg_SubscriptionID x > 0 \<and> sg_SubscriptionID x = i) ?N. f x)"
    unfolding map_map
  proof (intro arg_cong [where f = sum_list] map_cong refl)
    fix s assume "s \<in> set ?E"
    then have "sb_UserID s = u" using m(2) by blast
    then have "rows.rewritten u now ?T s = total (?T (sb_ID s))"
      unfolding rows.rewritten_def by (intro written_value) (use t(3) in auto)
    then show "rows.rewritten u now ?T s =
        ((\<lambda>i. \<Sum>x \<leftarrow> filter (\<lambda>x. sg_SubscriptionID x > 0 \<and> sg_SubscriptionID x = i) ?N. f x) \<circ> sb_ID) s"
      by (simp add: total_def)
  qed
  have new: "(\<Sum>x \<leftarrow> filter (\<lambda>s. \<not> sg_SubscriptionID s > 0) ?N. row_value f u now (created_row 0 u x)) =
      (\<Sum>x \<leftarrow> filter (\<lambda>x. \<not> sg_SubscriptionID x > 0) ?N. f x)"
    using t(3) by (intro arg_cong [where f = sum_list] map_cong refl created_value) auto
  have part: "(\<Sum>i \<leftarrow> map sb_ID ?E. \<Sum>x \<leftarrow> filter (\<lambda>x. sg_SubscriptionID x > 0 \<and> sg_SubscriptionID x = i) ?N. f x) +
      (\<Sum>x \<leftarrow> filter (\<lambda>x. \<not> sg_SubscriptionID x > 0) ?N. f x) = (\<Sum>x \<leftarrow> ?N. f x)"
  proof (rule sum_partition)
    show "distinct (map sb_ID ?E)" by (rule m(3) [OF ids])
    show "\<forall>x \<in> set ?N. sg_SubscriptionID x = 0 \<or> sg_SubscriptionID x \<in> set (map sb_ID ?E)" using t(4) by auto
    have "0 \<notin> sb_ID ` set (db_subscriptions db)"
      using ids unfolding ids_ok_def by (metis Zero_not_Suc imageE image_set)
    then show "0 \<notin> set (map sb_ID ?E)" using m(1) [of db u now] by auto
  qed
  have "total ?N = total segs'" by (rule normalize_total [OF t(1)])
  with old new part have eq: "sum_list (map (rows.rewritten u now ?T) ?E) - sum_list (map (row_value f u now) ?E) +
      (\<Sum>x \<leftarrow> filter (\<lambda>s. \<not> sg_SubscriptionID s > 0) ?N. row_value f u now (created_row 0 u x)) =
      total segs' - row_sum (row_value f u now) db"
    unfolding movable_value total_def by linarith
  from step show ?thesis unfolding eq .
qed

end

context row_measure
begin

lemma stepped_frame:
  assumes "stepped u db db' x"
  shows "ids_ok db'" "same_but_subscriptions db db'"
    "v \<noteq> u \<Longrightarrow> filter (\<lambda>s. sb_UserID s = v) (db_subscriptions db') = filter (\<lambda>s. sb_UserID s = v) (db_subscriptions db)"
    "row_sum g db' = row_sum g db + x"
  using assms by (simp_all add: stepped_def)

end

interpretation active: row_measure "\<lambda>s. of_bool (row_active u t s)" for u t
  by unfold_locales (simp_all add: row_active_def cong: if_cong option.case_cong)

interpretation unpriced: row_measure "\<lambda>s. of_bool (sb_Status s = ''active'' \<and> (sb_PlanID s = 0 \<or> sb_PriceID s = 0))"
  by unfold_locales simp_all

interpretation endless: row_measure "\<lambda>s. of_bool (row_endless u s)" for u
  by unfold_locales (simp_all add: row_endless_def)

lemma endless_written: "written_sum (\<lambda>s. of_bool (row_endless u s)) v now item reusable i targets = 0"
  by (induction targets arbitrary: i) (simp_all add: created_row_def segment_row_def Let_def row_endless_def)

text \<open>Before \<open>now\<close> a grant leaves to each row at most what it had.\<close>

lemma active_written:
  assumes "\<forall>x \<in> set targets. now \<le> sg_StartAt x" "t < now"
    and "sb_UserID item = u" "sb_Status item = ''active''" "sb_CurrentPeriodEndAt item = Some e" "now < e"
  shows "written_sum (\<lambda>s. of_bool (row_active u t s)) u now item reusable i targets \<le>
    (if \<exists>j. reusable = Some j \<and> i \<le> j then of_bool (row_active u t item) else 0)"
  using assms(1)
proof (induction targets arbitrary: i)
  case (Cons x targets)
  have created: "\<not> row_active u t (created_row 0 u x)"
    using Cons.prems assms(2) by (simp add: row_active_def created_row_def)
  have updated: "row_active u t (segment_row item x now item) \<Longrightarrow> row_active u t item"
    using Cons.prems assms by (auto simp: row_active_def segment_row_def Let_def split: if_splits)
  have IH: "written_sum (\<lambda>s. of_bool (row_active u t s)) u now item reusable (Suc i) targets \<le>
      (if \<exists>j. reusable = Some j \<and> Suc i \<le> j then of_bool (row_active u t item) else 0)"
    using Cons by simp
  show ?case
  proof (cases "reusable = Some i")
    case True
    then show ?thesis using IH updated by auto
  next
    case False
    then have "(\<exists>j. reusable = Some j \<and> Suc i \<le> j) \<longleftrightarrow> (\<exists>j. reusable = Some j \<and> i \<le> j)"
      by (auto simp: Suc_le_eq le_less)
    then show ?thesis using IH created False by simp
  qed
qed simp

lemma active_written_le:
  assumes "\<forall>x \<in> set targets. now \<le> sg_StartAt x" "t < now"
    and "sb_UserID item = u" "sb_Status item = ''active''" "sb_CurrentPeriodEndAt item = Some e" "now < e"
  shows "written_sum (\<lambda>s. of_bool (row_active u t s)) u now item reusable i targets \<le> of_bool (row_active u t item)"
  by (rule order_trans [OF active_written [OF assms]]) simp

lemma unpriced_written:
  assumes "\<forall>x \<in> set targets. proper_segment x"
  shows "written_sum (\<lambda>s. of_bool (sb_Status s = ''active'' \<and> (sb_PlanID s = 0 \<or> sb_PriceID s = 0))) u now item reusable i targets = 0"
  using assms
  by (induction targets arbitrary: i) (simp_all add: created_row_def segment_row_def Let_def proper_segment_def)

lemma sum_list_le_0: "(\<And>x. x \<in> set xs \<Longrightarrow> f x \<le> g x) \<Longrightarrow> sum_list (map f xs) - sum_list (map g xs) \<le> (0 :: int)"
  by (induction xs) fastforce+

lemma grant_ok_rows:
  assumes "apply_subscription_timeline u (movable_rows db u now) segs' now (bp_ID (gq_Plan q)) db = Inr (row, db')"
    and "subscriptions_ok db" "gq_Duration q \<le> int64_max" "bp_ID (gq_Plan q) \<noteq> 0" "pr_ID (gq_Price q) \<noteq> 0"
    and "timeline_segments plans now (movable_rows db u now) = Inr segs"
    and "build_subscription_timeline segs (timeline_grant_of q now) = Inr segs'"
  shows "subscriptions_ok db' \<and> same_but_subscriptions db db' \<and>
    (\<forall>v. v \<noteq> u \<longrightarrow> filter (\<lambda>s. sb_UserID s = v) (db_subscriptions db') = filter (\<lambda>s. sb_UserID s = v) (db_subscriptions db))"
proof -
  let ?N = "normalize_timeline segs'" and ?E = "movable_rows db u now"
  let ?T = "\<lambda>sid. filter (\<lambda>s. sg_SubscriptionID s > 0 \<and> sg_SubscriptionID s = sid) ?N"
  note t = grant_timeline [OF assms(6,2,7,4,5,3)]
  have ids: "ids_ok db" and one: "length (filter (row_active v t) (db_subscriptions db)) \<le> 1" for v t
    using assms(2) by (simp_all add: subscriptions_ok_def)
  note m = movable_rows_facts
  have users: "\<forall>item \<in> set ?E. sb_UserID item = u" using m(2) by blast
  note step = unpriced.apply_sum [OF assms(1) ids m(1) m(3) [OF ids] users]
  let ?z = "\<lambda>s. of_bool (sb_Status s = ''active'' \<and> (sb_PlanID s = 0 \<or> sb_PriceID s = 0)) :: int"
  have db0: "s \<in> set (db_subscriptions db) \<Longrightarrow> ?z s = 0" for s using assms(2) by (auto simp: subscriptions_ok_def)
  have z1: "sum_list (map (unpriced.rewritten u now ?T) ?E) = 0"
    unfolding unpriced.rewritten_def using t(3) by (intro sum_list_0_all unpriced_written) auto
  have z2: "sum_list (map ?z ?E) = 0" using db0 m(1) [of db u now] by (intro sum_list_0_all) blast
  have z3: "sum_list (map (\<lambda>t. ?z (created_row 0 u t)) (filter (\<lambda>s. \<not> sg_SubscriptionID s > 0) ?N)) = 0"
    using t(3) by (intro sum_list_0_all) (auto simp: created_row_def proper_segment_def)
  have z4: "row_sum ?z db = 0" unfolding row_sum_def by (rule sum_list_0_all) (rule db0)
  have zero: "row_sum ?z db' = 0" using unpriced.stepped_frame(4) [OF step] unfolding z1 z2 z3 z4 by linarith
  have frame: "ids_ok db'" "same_but_subscriptions db db'"
    "\<And>v. v \<noteq> u \<Longrightarrow> filter (\<lambda>s. sb_UserID s = v) (db_subscriptions db') = filter (\<lambda>s. sb_UserID s = v) (db_subscriptions db)"
    by (rule unpriced.stepped_frame [OF step], assumption?)+
  have priced: "sb_PlanID s \<noteq> 0 \<and> sb_PriceID s \<noteq> 0" if "s \<in> set (db_subscriptions db')" "sb_Status s = ''active''" for s
  proof (rule ccontr)
    assume "\<not> (sb_PlanID s \<noteq> 0 \<and> sb_PriceID s \<noteq> 0)"
    with that have "s \<in> set (filter (\<lambda>s. sb_Status s = ''active'' \<and> (sb_PlanID s = 0 \<or> sb_PriceID s = 0)) (db_subscriptions db'))"
      by simp
    then have "0 < length (filter (\<lambda>s. sb_Status s = ''active'' \<and> (sb_PlanID s = 0 \<or> sb_PriceID s = 0)) (db_subscriptions db'))"
      by (rule length_pos_if_in_set)
    moreover have "int (length (filter (\<lambda>s. sb_Status s = ''active'' \<and> (sb_PlanID s = 0 \<or> sb_PriceID s = 0)) (db_subscriptions db'))) = 0"
      using zero unfolding row_sum_def filter_length_sum .
    ultimately show False by linarith
  qed
  have after: "length (filter (row_active u x) (db_subscriptions db')) \<le> 1" if "now \<le> x" for x
  proof -
    have "row_sum (row_value (\<lambda>s. of_bool (active_at x s)) u now) db' = depth.total x segs'"
      using at.grant_rows [OF assms, of x] by (simp add: at.rows.stepped_def)
    moreover have "depth.total x segs' \<le> 1"
      using t(1) unfolding depth.total_def filter_length_sum [symmetric] by (simp add: timeline_ok_def)
    ultimately show ?thesis unfolding active_sum [OF that] by simp
  qed
  have before: "length (filter (row_active u x) (db_subscriptions db')) \<le> 1" if "\<not> now \<le> x" for x
  proof -
    let ?g = "\<lambda>s. of_bool (row_active u x s) :: int"
    have e: "sum_list (map (active.rewritten u x u now ?T) ?E) - sum_list (map ?g ?E) \<le> 0"
    proof (rule sum_list_le_0)
      fix s assume "s \<in> set ?E"
      then obtain e where s: "sb_UserID s = u" "sb_Status s = ''active''" "sb_CurrentPeriodEndAt s = Some e" "now < e"
        using m(2) by blast
      have "\<forall>y \<in> set (?T (sb_ID s)). now \<le> sg_StartAt y" using t(3) by auto
      then show "active.rewritten u x u now ?T s \<le> ?g s"
        unfolding active.rewritten_def by (rule active_written_le [OF _ _ s]) (use that in simp)
    qed
    have n: "sum_list (map (\<lambda>t. ?g (created_row 0 u t)) (filter (\<lambda>s. \<not> sg_SubscriptionID s > 0) ?N)) = 0"
      using t(3) that by (intro sum_list_0_all) (fastforce simp: created_row_def row_active_def)
    have "row_sum ?g db' \<le> row_sum ?g db"
      using active.stepped_frame(4) [OF active.apply_sum [OF assms(1) ids m(1) m(3) [OF ids] users, of u x]] e unfolding n by linarith
    then show ?thesis using one [of u x] unfolding row_sum_def filter_length_sum [symmetric] by simp
  qed
  have other: "length (filter (row_active v x) (db_subscriptions db')) \<le> 1" if "v \<noteq> u" for v x
  proof -
    have "filter (row_active v x) xs = filter (row_active v x) (filter (\<lambda>s. sb_UserID s = v) xs)" for xs
      by (auto simp: row_active_def intro!: filter_cong)
    then show ?thesis using frame(3) [OF that] one [of v x] by metis
  qed
  have "length (filter (row_active v x) (db_subscriptions db')) \<le> 1" for v x
    by (cases "v = u"; cases "now \<le> x") (use after before other in blast)+
  moreover have "length (filter (row_endless v) (db_subscriptions db')) \<le> 1" for v
  proof -
    let ?h = "\<lambda>s. of_bool (row_endless v s) :: int"
    have w: "sum_list (map (endless.rewritten v u now ?T) ?E) = 0"
      unfolding endless.rewritten_def by (intro sum_list_0_all endless_written)
    have e: "sum_list (map ?h ?E) = 0"
    proof (rule sum_list_0_all)
      fix s assume "s \<in> set ?E"
      then show "?h s = 0" using m(2) by (fastforce simp: row_endless_def)
    qed
    have c: "sum_list (map (\<lambda>t. ?h (created_row 0 u t)) (filter (\<lambda>s. \<not> sg_SubscriptionID s > 0) ?N)) = 0"
      by (intro sum_list_0_all) (simp add: row_endless_def created_row_def)
    have "row_sum ?h db' = row_sum ?h db"
      using endless.stepped_frame(4) [OF endless.apply_sum [OF assms(1) ids m(1) m(3) [OF ids] users, of v]]
      unfolding w e c by linarith
    then show ?thesis using assms(2) unfolding row_sum_def filter_length_sum [symmetric] subscriptions_ok_def by simp
  qed
  ultimately show ?thesis using frame priced unfolding subscriptions_ok_def by blast
qed

section \<open>Properties of a grant\<close>

lemma grant_effect:
  assumes "grant_subscription_on_timeline clock q db = Inr (row, db')" "subscriptions_ok db" "gq_Duration q \<le> int64_max"
  shows "subscriptions_ok db' \<and> same_but_subscriptions db db' \<and>
    (\<forall>v. v \<noteq> gq_UserID q \<longrightarrow>
       filter (\<lambda>s. sb_UserID s = v) (db_subscriptions db') = filter (\<lambda>s. sb_UserID s = v) (db_subscriptions db))"
  by (rule grant_Inr [OF assms(1)]) (rule grant_ok_rows [OF _ assms(2,3)])

text \<open>
  C15: A grant keeps the subscription rows well formed: identifiers are positions, active rows have a plan
  and a price, and at any time at most one row of a user that ends is in force and at most one that never
  ends (a lifetime plan, which the timeline leaves alone and which can be in force beside a granted one).
  It touches no other user and no other table.
\<close>

theorem grant_keeps_subscriptions:
  assumes "grant_subscription_on_timeline clock q db = Inr (row, db')" "subscriptions_ok db" "gq_Duration q \<le> int64_max"
  shows "subscriptions_ok db' \<and> in_force_bounded db' \<and> same_but_subscriptions db db' \<and>
    (\<forall>v. v \<noteq> gq_UserID q \<longrightarrow>
       filter (\<lambda>s. sb_UserID s = v) (db_subscriptions db') = filter (\<lambda>s. sb_UserID s = v) (db_subscriptions db))"
  using grant_effect [OF assms] subscriptions_bounded by blast

lemma grant_time:
  assumes "grant_subscription_on_timeline clock q db = Inr (row, db')" "subscriptions_ok db" "gq_Duration q \<le> int64_max"
    and "now = (if is_zero (gq_StartAt q) then clock else gq_StartAt q)"
  shows "remaining_time p (gq_UserID q) now db' =
    remaining_time p (gq_UserID q) now db + (if p = bp_ID (gq_Plan q) then gq_Duration q else 0)"
proof (rule grant_Inr [OF assms(1)], fold assms(4))
  let ?u = "gq_UserID q" and ?k = "\<lambda>k :: segment_key. fst (snd k) = p"
  fix plans segs segs'
  assume pl: "bp_ID (gq_Plan q) \<noteq> 0" "pr_ID (gq_Price q) \<noteq> 0"
    and segs: "timeline_segments plans now (movable_rows db ?u now) = Inr segs"
    and build: "build_subscription_timeline segs (timeline_grant_of q now) = Inr segs'"
    and app: "apply_subscription_timeline ?u (movable_rows db ?u now) segs' now (bp_ID (gq_Plan q)) db = Inr (row, db')"
  have "remaining_time p ?u now db' = time_of ?k segs'"
    using plan_time.rows.stepped_frame(4) [OF plan_time.grant_rows [OF app assms(2,3) pl segs build, of p]]
    unfolding plan_time_total remaining_time_sum by linarith
  also have "\<dots> = time_of ?k segs + (if p = bp_ID (gq_Plan q) then gq_Duration q else 0)"
    using grant_timeline(2) [OF segs assms(2) build pl assms(3), of ?k]
    by (auto simp: grant_key_def timeline_grant_of_def)
  also have "time_of ?k segs = remaining_time p ?u now db"
  proof -
    have "\<forall>s \<in> set (movable_rows db ?u now). sb_UserID s = ?u \<and> sb_Status s = ''active'' \<and>
        (\<exists>e. sb_CurrentPeriodEndAt s = Some e \<and> now < e)" using movable_rows_facts(2) by blast
    from plan_time.segments_value [OF segs this, of p] show ?thesis
      unfolding plan_time_total remaining_time_sum plan_time.movable_value .
  qed
  finally show ?thesis .
qed

text \<open>
  C16: A grant adds exactly what was bought: of the plan of the grant the user has the duration
  longer, and of every other plan, displaced or not, as long as before.
\<close>

theorem grant_adds_duration:
  assumes "grant_subscription_on_timeline clock q db = Inr (row, db')" "subscriptions_ok db" "gq_Duration q \<le> int64_max"
    and "now = (if is_zero (gq_StartAt q) then clock else gq_StartAt q)"
  shows "remaining_time p (gq_UserID q) now db' =
    remaining_time p (gq_UserID q) now db + (if p = bp_ID (gq_Plan q) then gq_Duration q else 0)"
  using assms by (rule grant_time)

section \<open>Replacing\<close>

lemma replace_ok:
  assumes "subscriptions_ok db" "sb_PlanID item \<noteq> 0" "sb_PriceID item \<noteq> 0"
  shows "subscriptions_ok (replace_subscription clock item db)"
proof -
  let ?f = "\<lambda>s. if sb_UserID s = sb_UserID item \<and> sb_Status s = ''active''
            then s\<lparr>sb_Status := ''expired'', sb_AutoRenew := False, sb_CancelAtPeriodEnd := False,
                   sb_CurrentPeriodEndAt := Some clock\<rparr> else s"
  let ?rows = "map ?f (db_subscriptions db)"
  have subs: "db_subscriptions (replace_subscription clock item db) = ?rows @ [item\<lparr>sb_ID := Suc (length ?rows)\<rparr>]"
    by (simp add: replace_subscription_def Let_def)
  have idf: "sb_ID (?f s) = sb_ID s" for s by simp
  have "map sb_ID ?rows = map sb_ID (db_subscriptions db)" unfolding map_map comp_def idf ..
  then have ids: "ids_ok (replace_subscription clock item db)"
    using assms(1) unfolding ids_ok_def subs subscriptions_ok_def by simp
  have act: "row_active u t (?f s) \<longleftrightarrow> row_active u t s \<and> u \<noteq> sb_UserID item" for u t s
    by (auto simp: row_active_def)
  have one: "length (filter (row_active u t) (?rows @ [item\<lparr>sb_ID := Suc (length ?rows)\<rparr>])) \<le> 1" for u t
  proof (cases "u = sb_UserID item")
    case True
    then have "filter (row_active u t) ?rows = []" unfolding filter_empty_conv set_map using act by blast
    then show ?thesis by simp
  next
    case False
    then have "filter (row_active u t \<circ> ?f) xs = filter (row_active u t) xs" for xs
      using act by (intro filter_cong) auto
    then have "length (filter (row_active u t) ?rows) = length (filter (row_active u t) (db_subscriptions db))"
      unfolding filter_map by simp
    moreover have "\<not> row_active u t (item\<lparr>sb_ID := Suc (length ?rows)\<rparr>)" using False by (simp add: row_active_def)
    ultimately show ?thesis using assms(1) by (simp add: subscriptions_ok_def del: filter_map)
  qed
  have "sb_PlanID s \<noteq> 0 \<and> sb_PriceID s \<noteq> 0" if "s \<in> set (?rows @ [item\<lparr>sb_ID := Suc (length ?rows)\<rparr>])" "sb_Status s = ''active''" for s
    using that assms by (auto simp: subscriptions_ok_def split: if_splits)
  moreover have "length (filter (row_endless u) (?rows @ [item\<lparr>sb_ID := Suc (length ?rows)\<rparr>])) \<le> 1" for u
  proof -
    have h: "row_endless u (?f s) \<longleftrightarrow> row_endless u s \<and> u \<noteq> sb_UserID item" for s
      by (auto simp: row_endless_def)
    show ?thesis
    proof (cases "u = sb_UserID item")
      case True
      then have "filter (row_endless u) ?rows = []" unfolding filter_empty_conv set_map using h by blast
      then show ?thesis by simp
    next
      case False
      then have "filter (row_endless u \<circ> ?f) xs = filter (row_endless u) xs" for xs
        using h by (intro filter_cong) auto
      then have "length (filter (row_endless u) ?rows) = length (filter (row_endless u) (db_subscriptions db))"
        unfolding filter_map by simp
      moreover have "\<not> row_endless u (item\<lparr>sb_ID := Suc (length ?rows)\<rparr>)" using False by (simp add: row_endless_def)
      ultimately show ?thesis using assms(1) by (simp add: subscriptions_ok_def del: filter_map)
    qed
  qed
  ultimately show ?thesis using ids one unfolding subscriptions_ok_def subs by blast
qed

section \<open>The current subscription\<close>

definition list_subscription_entitlements :: "billing_db \<Rightarrow> nat \<Rightarrow> gtime \<Rightarrow> subscription list" where
  "list_subscription_entitlements db u now =
     sort_key (\<lambda>s. (sb_CurrentPeriodStartAt s,
         (case sb_CurrentPeriodEndAt s of None \<Rightarrow> (1 :: nat, 0) | Some e \<Rightarrow> (0, e)), sb_ID s))
       (filter (\<lambda>s. sb_UserID s = u \<and> sb_Status s = ''active'' \<and>
          (case sb_CurrentPeriodEndAt s of None \<Rightarrow> True | Some e \<Rightarrow> e > now)) (db_subscriptions db))"

text \<open>The end of the year 9999 stands for no end.\<close>

definition no_end_time :: gtime where
  "no_end_time = 315537897599 * go_second"

definition subscription_end_sort_time :: "subscription \<Rightarrow> gtime" where
  "subscription_end_sort_time s = (case sb_CurrentPeriodEndAt s of None \<Rightarrow> no_end_time | Some e \<Rightarrow> e)"

definition is_higher_priority_subscription :: "(nat \<Rightarrow> billing_plan option) \<Rightarrow> subscription \<Rightarrow> subscription \<Rightarrow> bool" where
  "is_higher_priority_subscription plans candidate current =
     (let rank = (\<lambda>s. case plans (sb_PlanID s) of None \<Rightarrow> 0 | Some p \<Rightarrow> subscription_plan_rank p);
          candidateEnd = subscription_end_sort_time candidate; currentEnd = subscription_end_sort_time current
      in if rank candidate \<noteq> rank current then rank candidate > rank current
         else if candidateEnd \<noteq> currentEnd then candidateEnd > currentEnd
         else sb_ID candidate > sb_ID current)"

definition is_current :: "(nat \<Rightarrow> billing_plan option) \<Rightarrow> gtime \<Rightarrow> subscription \<Rightarrow> bool" where
  "is_current plans now item \<longleftrightarrow>
     \<not> (sb_Status item \<noteq> ''active'' \<or> sb_CurrentPeriodStartAt item > now) \<and>
     (case sb_CurrentPeriodEndAt item of None \<Rightarrow> True | Some e \<Rightarrow> e > now) \<and>
     (case plans (sb_PlanID item) of None \<Rightarrow> False | Some p \<Rightarrow> bp_IsActive p)"

fun select_from :: "(nat \<Rightarrow> billing_plan option) \<Rightarrow> gtime \<Rightarrow> subscription option \<Rightarrow> subscription list \<Rightarrow> subscription option" where
  "select_from plans now result [] = result"
| "select_from plans now result (item # items) =
     (if is_current plans now item \<and>
         (case result of None \<Rightarrow> True | Some r \<Rightarrow> is_higher_priority_subscription plans item r)
      then select_from plans now (Some item) items else select_from plans now result items)"

definition select_current_subscription ::
    "(nat \<Rightarrow> billing_plan option) \<Rightarrow> gtime \<Rightarrow> subscription list \<Rightarrow> subscription option" where
  "select_current_subscription plans now items = select_from plans now None items"

text \<open>One pass over the rows, and passes until none extends the end.\<close>

fun extend_pass :: "subscription \<Rightarrow> subscription list \<Rightarrow> gtime \<Rightarrow> gtime" where
  "extend_pass current [] endAt = endAt"
| "extend_pass current (item # items) endAt =
     (case sb_CurrentPeriodEndAt item of
        None \<Rightarrow> extend_pass current items endAt
      | Some e \<Rightarrow>
          if sb_ID item = sb_ID current \<or> sb_PlanID item \<noteq> sb_PlanID current then extend_pass current items endAt
          else if sb_CurrentPeriodStartAt item > endAt \<or> \<not> e > endAt then extend_pass current items endAt
          else extend_pass current items e)"

definition extends_to :: "subscription \<Rightarrow> subscription \<Rightarrow> gtime \<Rightarrow> bool" where
  "extends_to current item t \<longleftrightarrow> sb_ID item \<noteq> sb_ID current \<and> sb_PlanID item = sb_PlanID current \<and>
     (\<exists>e. sb_CurrentPeriodEndAt item = Some e \<and> sb_CurrentPeriodStartAt item \<le> t \<and> t < e)"

lemma extend_pass_ge: "endAt \<le> extend_pass current items endAt"
  by (induction current items endAt rule: extend_pass.induct) (force split: option.splits)+

text \<open>A pass that changes the end leaves fewer rows that end later.\<close>

definition later_ends :: "subscription list \<Rightarrow> gtime \<Rightarrow> nat" where
  "later_ends items t = length (filter (\<lambda>s. case sb_CurrentPeriodEndAt s of None \<Rightarrow> False | Some e \<Rightarrow> t < e) items)"

lemma extend_pass_value:
  "extend_pass current items endAt = endAt \<or> (\<exists>s \<in> set items. sb_CurrentPeriodEndAt s = Some (extend_pass current items endAt))"
  by (induction current items endAt rule: extend_pass.induct) (force split: option.splits)+

lemma later_ends_less:
  assumes "extend_pass current items endAt \<noteq> endAt"
  shows "later_ends items (extend_pass current items endAt) < later_ends items endAt"
proof -
  let ?e = "extend_pass current items endAt"
  have gt: "endAt < ?e" using assms extend_pass_ge [of endAt current items] by simp
  obtain s where s: "s \<in> set items" "sb_CurrentPeriodEndAt s = Some ?e" using extend_pass_value assms by blast
  let ?P = "\<lambda>t s. case sb_CurrentPeriodEndAt s of None \<Rightarrow> False | Some e \<Rightarrow> t < e"
  have "filter (?P ?e) items = filter (?P ?e) (filter (?P endAt) items)"
    using gt by (auto intro!: filter_cong split: option.splits)
  moreover have "length (filter (?P ?e) (filter (?P endAt) items)) < length (filter (?P endAt) items)"
    by (rule length_filter_less [of s]) (use s gt in simp_all)
  ultimately show ?thesis unfolding later_ends_def by simp
qed

function extend_end :: "subscription \<Rightarrow> subscription list \<Rightarrow> gtime \<Rightarrow> gtime" where
  "extend_end current items endAt =
     (let next_end = extend_pass current items endAt in
      if next_end = endAt then endAt else extend_end current items next_end)"
  by pat_completeness auto
termination
  by (relation "measure (\<lambda>(current, items, endAt). later_ends items endAt)") (simp_all add: later_ends_less)

declare extend_end.simps [simp del]

definition contiguous_subscription_end :: "subscription \<Rightarrow> subscription list \<Rightarrow> gtime option" where
  "contiguous_subscription_end current items = map_option (extend_end current items) (sb_CurrentPeriodEndAt current)"

definition plan_map :: "billing_db \<Rightarrow> subscription list \<Rightarrow> nat \<Rightarrow> billing_plan option" where
  "plan_map db items = map_of (rev (map (\<lambda>p. (bp_ID p, p))
     (list_plans_by_ids db (filter (\<lambda>i. i \<noteq> 0) (map sb_PlanID items)))))"

definition current_period_plan ::
    "(gtime \<Rightarrow> gtime \<times> gtime) \<Rightarrow> billing_db \<Rightarrow> nat \<Rightarrow> gtime \<Rightarrow> repo_error + billing_plan \<times> gtime \<times> gtime" where
  "current_period_plan month_bounds db u now =
     (let (monthStart, monthEnd) = month_bounds now;
          subscriptions = list_subscription_entitlements db u now;
          plans = plan_map db subscriptions
      in case select_current_subscription plans now subscriptions of
           None \<Rightarrow> map_sum id (\<lambda>plan. (plan, monthStart, monthEnd)) (get_active_plan_by_code db ''free'')
         | Some s \<Rightarrow> (case plans (sb_PlanID s) of None \<Rightarrow> Inl NotFound | Some plan \<Rightarrow> Inr (plan, monthStart, monthEnd)))"

record subscription_snapshot =
  ss_UserID :: nat
  ss_PlanID :: nat
  ss_PlanName :: string
  ss_Tier :: string
  ss_Status :: string
  ss_ExpiresAt :: "gtime option"
  ss_PermissionGroupID :: "nat option"

definition first_non_empty :: "string \<Rightarrow> string \<Rightarrow> string" where
  "first_non_empty a b = (if trim_space a \<noteq> [] then trim_space a else trim_space b)"

definition get_current_subscription_snapshot :: "billing_db \<Rightarrow> nat \<Rightarrow> gtime \<Rightarrow> subscription_snapshot option" where
  "get_current_subscription_snapshot db u now =
     (let items = list_subscription_entitlements db u now; plans = plan_map db items in
      case select_current_subscription plans now items of
        None \<Rightarrow> None
      | Some s \<Rightarrow>
          let planCode = (case plans (sb_PlanID s) of None \<Rightarrow> [] | Some p \<Rightarrow> trim_space (bp_Code p));
              planName = (case plans (sb_PlanID s) of None \<Rightarrow> [] | Some p \<Rightarrow> trim_space (bp_Name p));
              free = (planCode = ''free'')
          in Some \<lparr>ss_UserID = u, ss_PlanID = sb_PlanID s, ss_PlanName = first_non_empty planName (to_upper planCode),
                ss_Tier = first_non_empty planCode ''free'',
                ss_Status = first_non_empty (if free then ''free'' else trim_space (sb_Status s)) ''free'',
                ss_ExpiresAt = (if free then None else contiguous_subscription_end s items),
                ss_PermissionGroupID = (case plans (sb_PlanID s) of None \<Rightarrow> None | Some p \<Rightarrow> bp_PermissionGroupID p)\<rparr>)"

definition priority_key :: "(nat \<Rightarrow> billing_plan option) \<Rightarrow> subscription \<Rightarrow> nat \<times> gtime \<times> nat" where
  "priority_key plans s = ((case plans (sb_PlanID s) of None \<Rightarrow> 0 | Some p \<Rightarrow> subscription_plan_rank p),
     subscription_end_sort_time s, sb_ID s)"

lemma higher_priority_key:
  "is_higher_priority_subscription plans a b \<longleftrightarrow> priority_key plans a > priority_key plans b"
  by (auto simp: is_higher_priority_subscription_def priority_key_def Let_def)

lemma select_from_best:
  "select_from plans now result items = None \<longleftrightarrow> result = None \<and> (\<forall>x \<in> set items. \<not> is_current plans now x)"
  "select_from plans now result items = Some s \<Longrightarrow> (result = Some s \<or> s \<in> set items \<and> is_current plans now s) \<and>
     (\<forall>x. result = Some x \<or> x \<in> set items \<and> is_current plans now x \<longrightarrow> priority_key plans x \<le> priority_key plans s)"
proof (induction plans now result items rule: select_from.induct)
  case (2 plans now result item items)
  {
    case 1
    then show ?case using "2.IH"(1,3) by (cases result) auto
  next
    case 2
    show ?case
    proof (cases "is_current plans now item \<and>
         (case result of None \<Rightarrow> True | Some r \<Rightarrow> is_higher_priority_subscription plans item r)")
      case True
      then have IH: "(item = s \<or> s \<in> set items \<and> is_current plans now s) \<and>
         (\<forall>x. item = x \<or> x \<in> set items \<and> is_current plans now x \<longrightarrow> priority_key plans x \<le> priority_key plans s)"
        using "2.IH"(2) 2 by simp
      have "priority_key plans x \<le> priority_key plans s" if "result = Some x" for x
        using True that IH unfolding higher_priority_key [symmetric] by (auto simp: higher_priority_key)
      with IH True show ?thesis by auto
    next
      case False
      then have "select_from plans now result items = Some s" using 2 by (simp only: select_from.simps if_False)
      then have IH: "(result = Some s \<or> s \<in> set items \<and> is_current plans now s) \<and>
         (\<forall>x. result = Some x \<or> x \<in> set items \<and> is_current plans now x \<longrightarrow> priority_key plans x \<le> priority_key plans s)"
        by (rule "2.IH"(4) [OF False])
      have "priority_key plans item \<le> priority_key plans s" if "is_current plans now item"
      proof (cases result)
        case None
        then show ?thesis using False that by simp
      next
        case (Some r)
        then have "priority_key plans item \<le> priority_key plans r" using False that by (simp add: higher_priority_key not_less)
        also have "\<dots> \<le> priority_key plans s" using IH Some by blast
        finally show ?thesis .
      qed
      with IH show ?thesis by auto
    qed
  }
qed simp_all

text \<open>
  C31: The current subscription is one in force with an active plan, and there is none only if no row of
  that kind exists. Among them it is the greatest by rank of the plan (nothing for the free plan, else its
  position, else its identifier), then by end (a row that never ends counts as ending with the year 9999),
  then by identifier.
\<close>

theorem current_subscription_is_best:
  assumes "current = (\<lambda>x. sb_Status x = ''active'' \<and> sb_CurrentPeriodStartAt x \<le> now \<and>
      (\<forall>e. sb_CurrentPeriodEndAt x = Some e \<longrightarrow> now < e) \<and> (\<exists>p. plans (sb_PlanID x) = Some p \<and> bp_IsActive p))"
    and "rank = (\<lambda>x. case plans (sb_PlanID x) of None \<Rightarrow> 0 | Some p \<Rightarrow> if trim_space (bp_Code p) = ''free'' then 0
      else if 0 < bp_SortOrder p then nat (bp_SortOrder p) else bp_ID p)"
    and "until = (\<lambda>x. case sb_CurrentPeriodEndAt x of None \<Rightarrow> no_end_time | Some e \<Rightarrow> e)"
  shows "(select_current_subscription plans now items = None \<longleftrightarrow> (\<forall>x \<in> set items. \<not> current x)) \<and>
   (\<forall>s. select_current_subscription plans now items = Some s \<longrightarrow> s \<in> set items \<and> current s \<and>
      (\<forall>x \<in> set items. current x \<longrightarrow> rank x < rank s \<or>
         rank x = rank s \<and> (until x < until s \<or> until x = until s \<and> sb_ID x \<le> sb_ID s)))"
proof -
  have c: "is_current plans now x = current x" for x
    unfolding assms(1) is_current_def by (auto split: option.splits)
  have k: "priority_key plans x = (rank x, until x, sb_ID x)" for x
    unfolding assms(2,3) priority_key_def subscription_plan_rank_def is_free_plan_code_def subscription_end_sort_time_def ..
  have le: "priority_key plans x \<le> priority_key plans s \<longleftrightarrow> rank x < rank s \<or>
      rank x = rank s \<and> (until x < until s \<or> until x = until s \<and> sb_ID x \<le> sb_ID s)" for x s
    unfolding k by auto
  show ?thesis
    using select_from_best [of plans now None items] unfolding select_current_subscription_def c le by blast
qed

lemma extend_pass_fixed:
  "extend_pass current items endAt = endAt \<Longrightarrow> \<forall>s \<in> set items. \<not> extends_to current s endAt"
proof (induction current items endAt rule: extend_pass.induct)
  case (2 current item items endAt)
  have ge: "\<And>e. extend_pass current items e = endAt \<Longrightarrow> e \<le> endAt" using extend_pass_ge by metis
  show ?case
  proof (cases "sb_CurrentPeriodEndAt item")
    case None
    then show ?thesis using 2 by (simp add: extends_to_def)
  next
    case (Some e)
    then show ?thesis using 2 ge [of e] by (auto simp: extends_to_def not_less split: if_splits)
  qed
qed simp

lemma extend_pass_covered:
  assumes "endAt \<le> t" "t < extend_pass current items endAt"
  shows "\<exists>s \<in> set items. extends_to current s t"
  using assms
proof (induction current items endAt rule: extend_pass.induct)
  case (2 current item items endAt)
  show ?case
  proof (cases "sb_CurrentPeriodEndAt item")
    case None
    then show ?thesis using 2 by simp
  next
    case (Some e)
    show ?thesis
    proof (cases "extends_to current item endAt")
      case True
      then have "extend_pass current (item # items) endAt = extend_pass current items e"
        using Some by (auto simp: extends_to_def)
      then show ?thesis using 2 True Some by (cases "t < e") (auto simp: extends_to_def)
    next
      case False
      then have "extend_pass current (item # items) endAt = extend_pass current items endAt"
        using Some by (auto simp: extends_to_def)
      then show ?thesis using 2 False Some by (auto simp: extends_to_def split: if_splits)
    qed
  qed
qed simp

lemma extend_end_spec:
  "endAt \<le> extend_end current items endAt \<and> (\<forall>s \<in> set items. \<not> extends_to current s (extend_end current items endAt)) \<and>
   (\<forall>t. endAt \<le> t \<and> t < extend_end current items endAt \<longrightarrow> (\<exists>s \<in> set items. extends_to current s t))"
proof (induction current items endAt rule: extend_end.induct)
  case (1 current items endAt)
  let ?n = "extend_pass current items endAt"
  show ?case
  proof (cases "?n = endAt")
    case True
    then show ?thesis using extend_pass_fixed [OF True] by (auto simp: extend_end.simps [of current items endAt])
  next
    case False
    then have eq: "extend_end current items endAt = extend_end current items ?n"
      by (simp add: extend_end.simps [of current items endAt] Let_def)
    note IH = 1 [OF refl False]
    have "\<exists>s \<in> set items. extends_to current s t" if "endAt \<le> t" "t < extend_end current items ?n" for t
      using IH that extend_pass_covered [of endAt t current items] by (cases "t < ?n") auto
    then show ?thesis unfolding eq using IH extend_pass_ge [of endAt current items] by auto
  qed
qed

text \<open>
  The end shown to the user is where the plan really ends: from the end of the current
  subscription up to it another subscription of the plan follows without a gap, and none goes on
  beyond it. The search for it ends, whatever the rows.
\<close>

theorem contiguous_end_is_maximal:
  assumes "sb_CurrentPeriodEndAt current = Some e"
  shows "\<exists>endAt. contiguous_subscription_end current items = Some endAt \<and> e \<le> endAt \<and>
    (\<forall>t. e \<le> t \<and> t < endAt \<longrightarrow> (\<exists>s \<in> set items. extends_to current s t)) \<and>
    (\<forall>s \<in> set items. \<not> extends_to current s endAt)"
  using extend_end_spec [of e current items] by (simp add: contiguous_subscription_end_def assms)

section \<open>Concrete subscriptions\<close>

definition sample_row :: "nat \<Rightarrow> gtime \<Rightarrow> gtime \<Rightarrow> subscription" where
  "sample_row sid s e = \<lparr>sb_ID = sid, sb_UserID = 5, sb_PlanID = 1, sb_PriceID = 1, sb_Status = ''active'', sb_StartAt = s,
     sb_CurrentPeriodStartAt = s, sb_CurrentPeriodEndAt = Some e, sb_CancelAtPeriodEnd = False, sb_CanceledAt = None,
     sb_AutoRenew = False\<rparr>"

definition sample_plan :: "nat \<Rightarrow> billing_plan" where
  "sample_plan pid = \<lparr>bp_ID = pid, bp_Code = ''pro'', bp_Name = [], bp_Description = [], bp_FeatureJSON = [],
     bp_PeriodCreditNanousd = 10, bp_DiscountPercent = 0, bp_SortOrder = 0, bp_IsActive = True, bp_PermissionGroupID = None\<rparr>"

definition sample_plan_price :: "nat \<Rightarrow> billing_price" where
  "sample_plan_price pid = \<lparr>pr_ID = pid, pr_PlanID = pid, pr_Code = [], pr_BillingInterval = Monthly, pr_Currency = ''USD'',
     pr_AmountCents = 100, pr_IsActive = True, pr_IsDefault = True, pr_ExternalPriceRef = []\<rparr>"

definition sample_subscription_db :: billing_db where
  "sample_subscription_db = empty_db\<lparr>db_subscriptions := [sample_row 1 0 100], db_plans := [sample_plan 1, sample_plan 2],
     db_prices := [sample_plan_price 1, sample_plan_price 2]\<rparr>"

definition sample_grant_request :: grant_request where
  "sample_grant_request = \<lparr>gq_UserID = 5, gq_Plan = sample_plan 2, gq_Price = sample_plan_price 2, gq_StartAt = 10,
     gq_Duration = 30, gq_CancelAtPeriodEnd = False, gq_AutoRenew = False, gq_NewGrant = True\<rparr>"

definition sample_granted :: "repo_error + subscription \<times> billing_db" where
  "sample_granted = grant_subscription_on_timeline 10 sample_grant_request sample_subscription_db"

lemma sample_granted_Inr: "\<exists>row db'. sample_granted = Inr (row, db') \<and> sb_PlanID row = 2"
proof -
  have "case sample_granted of Inl _ \<Rightarrow> False | Inr (row, db') \<Rightarrow> sb_PlanID row = 2" by code_simp
  then show ?thesis by (auto split: sum.splits)
qed

lemma sample_subscriptions_ok: "subscriptions_ok sample_subscription_db"
  by (simp add: subscriptions_ok_def ids_ok_def sample_subscription_db_def sample_row_def row_active_def row_endless_def)

theorem grant_keeps_subscriptions_witness:
  "\<exists>row db'. sample_granted = Inr (row, db') \<and> subscriptions_ok db'"
proof -
  from sample_granted_Inr obtain row db' where r: "sample_granted = Inr (row, db')" by blast
  have "subscriptions_ok db'"
    using grant_keeps_subscriptions [OF r [unfolded sample_granted_def] sample_subscriptions_ok]
    by (simp add: sample_grant_request_def)
  with r show ?thesis by blast
qed

theorem grant_adds_duration_witness:
  "\<exists>row db'. sample_granted = Inr (row, db') \<and> remaining_time 1 5 10 db' = 90 \<and> remaining_time 2 5 10 db' = 30"
proof -
  from sample_granted_Inr obtain row db' where r: "sample_granted = Inr (row, db')" by blast
  note g = grant_adds_duration [OF r [unfolded sample_granted_def] sample_subscriptions_ok _ refl]
  have q: "gq_UserID sample_grant_request = 5" "gq_Duration sample_grant_request = 30" "gq_StartAt sample_grant_request = 10"
    "bp_ID (gq_Plan sample_grant_request) = 2" by (simp_all add: sample_grant_request_def sample_plan_def)
  have "remaining_time 1 5 10 sample_subscription_db = 90" "remaining_time 2 5 10 sample_subscription_db = 0" by code_simp+
  then have "remaining_time 1 5 10 db' = 90 \<and> remaining_time 2 5 10 db' = 30" using g [of 1] g [of 2] by (simp add: q)
  with r show ?thesis by blast
qed

theorem contiguous_end_is_maximal_witness:
  "contiguous_subscription_end (sample_row 1 0 100) [sample_row 3 150 200, sample_row 2 100 160, sample_row 1 0 100] = Some 200"
proof -
  let ?rows = "[sample_row 3 150 200, sample_row 2 100 160, sample_row 1 0 100]"
  from contiguous_end_is_maximal [of "sample_row 1 0 100" 100 ?rows] obtain endAt where
    "contiguous_subscription_end (sample_row 1 0 100) ?rows = Some endAt" "100 \<le> endAt"
    "\<forall>t. 100 \<le> t \<and> t < endAt \<longrightarrow> (\<exists>s \<in> set ?rows. extends_to (sample_row 1 0 100) s t)"
    "\<forall>s \<in> set ?rows. \<not> extends_to (sample_row 1 0 100) s endAt"
    by (auto simp: sample_row_def)
  moreover from this(3) have "endAt \<le> 200"
    by (rule_tac ccontr) (drule spec [of _ 200], auto simp: extends_to_def sample_row_def)
  ultimately show ?thesis by (auto simp: extends_to_def sample_row_def)
qed

theorem current_subscription_is_best_witness:
  "select_current_subscription (map_of [(1, sample_plan 1)]) 20 [sample_row 2 10 200, sample_row 1 0 100] = Some (sample_row 2 10 200)"
proof -
  let ?plans = "map_of [(1 :: nat, sample_plan 1)]" and ?rows = "[sample_row 2 10 200, sample_row 1 0 100]"
  note best = current_subscription_is_best [OF refl refl refl, of ?plans 20 ?rows]
  have "select_current_subscription ?plans 20 ?rows \<noteq> None"
    unfolding conjunct1 [OF best] by (simp add: sample_row_def sample_plan_def)
  then obtain s where s: "select_current_subscription ?plans 20 ?rows = Some s" by blast
  note b = conjunct2 [OF best, THEN spec, THEN mp, OF s]
  have "s \<noteq> sample_row 1 0 100"
  proof
    assume "s = sample_row 1 0 100"
    from b [unfolded this] show False by (simp add: sample_row_def sample_plan_def)
  qed
  moreover have "s \<in> set ?rows" by (rule conjunct1 [OF b])
  ultimately show ?thesis using s by simp
qed

text \<open>A lifetime plan is not on the timeline: a plan granted afterwards is in force beside it.\<close>

definition sample_lifetime_db :: billing_db where
  "sample_lifetime_db = replace_subscription 5 ((sample_row 1 0 100)\<lparr>sb_CurrentPeriodEndAt := None\<rparr>) sample_subscription_db"

lemma grant_beside_lifetime:
  "case grant_subscription_on_timeline 10 sample_grant_request sample_lifetime_db of
     Inl _ \<Rightarrow> False
   | Inr (row, db') \<Rightarrow> length (filter (in_force 5 20) (db_subscriptions db')) = 2"
  by code_simp

end
