(* ===== verification/Go_Calendar.thy ===== *)
theory Go_Calendar
  imports Go_Prelude
begin

text \<open>
  The civil calendar of \<^verbatim>\<open>time.Time\<close>: \<^verbatim>\<open>Date\<close>, \<^verbatim>\<open>AddDate\<close> and \<^verbatim>\<open>time.Date\<close> on the proleptic Gregorian
  calendar, in a zone whose offset \<open>zone\<close> from UTC is constant. Days count from Go's zero time,
  1 January of the year 1. Years are reckoned from March, so that the leap day is the last.
\<close>

definition days_of_civil :: "int \<Rightarrow> int \<Rightarrow> int \<Rightarrow> int" where
  "days_of_civil year month day =
     (let y = (if month \<le> 2 then year - 1 else year);
          era = y div 400; yoe = y mod 400;
          doy = (153 * ((month + 9) mod 12) + 2) div 5 + day - 1
      in era * 146097 + yoe * 365 + yoe div 4 - yoe div 100 + doy - 306)"

definition civil_of_days :: "int \<Rightarrow> int \<times> int \<times> int" where
  "civil_of_days days =
     (let z = days + 306; era = z div 146097; doe = z mod 146097;
          yoe = (doe - doe div 1460 + doe div 36524 - doe div 146096) div 365;
          doy = doe - (365 * yoe + yoe div 4 - yoe div 100);
          mp = (5 * doy + 2) div 153;
          month = (if mp < 10 then mp + 3 else mp - 9)
      in (yoe + era * 400 + (if month \<le> 2 then 1 else 0), month, doy - (153 * mp + 2) div 5 + 1))"

definition day_length :: duration where
  "day_length = 24 * go_hour"

text \<open>\<^verbatim>\<open>time.Date\<close> at the start of a day, months and days out of range carried over.\<close>

definition date_start :: "duration \<Rightarrow> int \<Rightarrow> int \<Rightarrow> int \<Rightarrow> gtime" where
  "date_start zone year month day =
     (days_of_civil (year + (month - 1) div 12) ((month - 1) mod 12 + 1) 1 + day - 1) * day_length - zone"

definition date_of :: "duration \<Rightarrow> gtime \<Rightarrow> int \<times> int \<times> int" where
  "date_of zone t = civil_of_days ((t + zone) div day_length)"

definition add_date :: "duration \<Rightarrow> gtime \<Rightarrow> int \<Rightarrow> int \<Rightarrow> int \<Rightarrow> gtime" where
  "add_date zone t years months days =
     (let (y, m, d) = date_of zone t in
      date_start zone (y + years) (m + months) (d + days) + (t + zone) mod day_length)"

text \<open>The calendar on a few dates: a month after 31 January 2024, and a year after 29 February.\<close>

lemma add_date_examples:
  "date_of 0 (add_date 0 (date_start 0 2024 1 31) 0 1 0) = (2024, 3, 2)"
  "date_of 0 (add_date 0 (date_start 0 2024 2 29) 1 0 0) = (2025, 3, 1)"
  "date_of 0 (add_date 0 (date_start 0 2023 11 30) 0 15 0) = (2025, 3, 2)"
  "date_of 0 0 = (1, 1, 1)"
  by code_simp+

end
