(* ===== verification/Payments.thy ===== *)
theory Payments
  imports Subscriptions Go_Calendar
begin

text \<open>
  Payment orders, the balance an administrator sets and rewards
  (\<^verbatim>\<open>infra/persistence/postgres/billing/repository.go\<close>), with the service operations that create and
  complete orders (\<^verbatim>\<open>application/billing/service.go\<close>). \<open>clock\<close> is what \<^verbatim>\<open>time.Now\<close> returns; the
  drawn order numbers, the conversion between currencies (floating point) and the JSON snapshot
  are arguments.
\<close>

section \<open>Normal forms\<close>

definition normalize_currency :: "string \<Rightarrow> string" where
  "normalize_currency value0 = (let normalized = to_upper (trim_space value0) in if normalized = [] then ''USD'' else normalized)"

definition normalize_order_type :: "string \<Rightarrow> order_type" where
  "normalize_order_type value0 = (if trim_space value0 = ''topup'' then OrderTopUp else OrderSubscription)"

definition normalize_interval :: "string \<Rightarrow> billing_interval" where
  "normalize_interval value0 =
     (if trim_space value0 = ''year'' then Yearly else if trim_space value0 = ''lifetime'' then Lifetime else Monthly)"

section \<open>Orders\<close>

record order_input =
  oi_OrderNo :: string
  oi_OrderType :: string
  oi_UserID :: nat
  oi_PlanID :: nat
  oi_PriceID :: nat
  oi_Provider :: string
  oi_Status :: string
  oi_BaseCurrency :: string
  oi_BaseAmountCents :: int
  oi_PayCurrency :: string
  oi_PayAmountCents :: int
  oi_FXRate :: string
  oi_CreditNanousd :: int
  oi_BillingInterval :: string
  oi_Cycles :: int
  oi_ExpiredAt :: "gtime option"
  oi_SnapshotJSON :: string

definition find_order :: "billing_db \<Rightarrow> string \<Rightarrow> payment_order option" where
  "find_order db orderNo = find (\<lambda>o'. po_OrderNo o' = orderNo) (db_orders db)"

definition create_payment_order :: "order_input \<Rightarrow> billing_db \<Rightarrow> billing_db \<times> (repo_error + payment_order)" where
  "create_payment_order i db =
     (if trim_space (oi_OrderNo i) = [] then (db, Inl InvalidInput)
      else if find_order db (trim_space (oi_OrderNo i)) \<noteq> None then (db, Inl Duplicate)
      else
        let row = \<lparr>po_ID = Suc (length (db_orders db)), po_OrderNo = trim_space (oi_OrderNo i),
              po_OrderType = normalize_order_type (oi_OrderType i), po_UserID = oi_UserID i, po_PlanID = oi_PlanID i,
              po_PriceID = oi_PriceID i, po_Provider = trim_space (oi_Provider i),
              po_Status = first_non_empty (trim_space (oi_Status i)) ''pending'',
              po_BaseCurrency = normalize_currency (oi_BaseCurrency i),
              po_BaseAmountCents = clamp_non_negative (oi_BaseAmountCents i),
              po_PayCurrency = normalize_currency (oi_PayCurrency i),
              po_PayAmountCents = clamp_non_negative (oi_PayAmountCents i), po_FXRate = trim_space (oi_FXRate i),
              po_CreditNanousd = clamp_non_negative (oi_CreditNanousd i),
              po_BillingInterval = normalize_interval (oi_BillingInterval i),
              po_Cycles = (if oi_Cycles i \<le> 0 then 1 else oi_Cycles i), po_ExternalPaymentID = [],
              po_ExternalCheckoutID = [], po_CheckoutURL = [], po_PaidAt = None, po_ExpiredAt = oi_ExpiredAt i,
              po_SnapshotJSON = trim_space (oi_SnapshotJSON i)\<rparr>
        in (db\<lparr>db_orders := db_orders db @ [row]\<rparr>, Inr row))"

definition update_orders :: "(payment_order \<Rightarrow> bool) \<Rightarrow> (payment_order \<Rightarrow> payment_order) \<Rightarrow> billing_db \<Rightarrow> billing_db" where
  "update_orders hit f db = db\<lparr>db_orders := map (\<lambda>r. if hit r then f r else r) (db_orders db)\<rparr>"

definition update_payment_order_checkout ::
    "string \<Rightarrow> string \<Rightarrow> string \<Rightarrow> billing_db \<Rightarrow> billing_db \<times> (repo_error + unit)" where
  "update_payment_order_checkout orderNo0 checkoutID url db =
     (let orderNo = trim_space orderNo0 in
      if orderNo = [] then (db, Inl InvalidInput)
      else (update_orders (\<lambda>r. po_OrderNo r = orderNo)
              (\<lambda>r. r\<lparr>po_ExternalCheckoutID := trim_space checkoutID, po_CheckoutURL := trim_space url\<rparr>) db, Inr ()))"

definition get_payment_order_by_order_no :: "billing_db \<Rightarrow> string \<Rightarrow> repo_error + payment_order" where
  "get_payment_order_by_order_no db orderNo = or_not_found (find_order db (trim_space orderNo))"

definition expired_before :: "payment_order \<Rightarrow> gtime \<Rightarrow> bool" where
  "expired_before r t \<longleftrightarrow> (case po_ExpiredAt r of None \<Rightarrow> False | Some e \<Rightarrow> e < t)"

text \<open>The order as paid, read back from the database.\<close>

definition pay_order :: "payment_order \<Rightarrow> string \<Rightarrow> gtime \<Rightarrow> (payment_order \<times> bool) tx" where
  "pay_order r externalPaymentID paidAt db =
     (let db' = update_orders (\<lambda>x. po_ID x = po_ID r)
          (\<lambda>x. x\<lparr>po_Status := ''paid'', po_ExternalPaymentID := trim_space externalPaymentID, po_PaidAt := Some paidAt\<rparr>) db
      in case find_order db' (po_OrderNo r) of None \<Rightarrow> Inl NotFound | Some x \<Rightarrow> Inr ((x, True), db'))"

text \<open>
  An expired order is written as expired, but the transaction then fails; see \<open>expired_order_stays_pending\<close>.
\<close>

definition expire_order :: "payment_order \<Rightarrow> 'a tx" where
  "expire_order r db =
     (let db' = update_orders (\<lambda>x. po_ID x = po_ID r) (\<lambda>x. x\<lparr>po_Status := ''expired''\<rparr>) db in Inl InvalidInput)"

definition credit_body :: "string \<Rightarrow> string \<Rightarrow> gtime \<Rightarrow> (payment_order \<times> bool) tx" where
  "credit_body orderNo externalPaymentID paidAt db =
     (case find_order db orderNo of None \<Rightarrow> Inl NotFound
      | Some r \<Rightarrow>
          if po_Status r = ''paid'' then Inr ((r, False), db)
          else if po_Status r \<noteq> ''pending'' \<or> po_OrderType r \<noteq> OrderTopUp \<or> po_CreditNanousd r \<le> 0 then Inl InvalidInput
          else if expired_before r paidAt then expire_order r db
          else case get_or_create_billing_account (po_UserID r) db of Inl err \<Rightarrow> Inl err
          | Inr (account, db) \<Rightarrow>
              let nextBalance = wrap64 (ba_BalanceNanousd account + po_CreditNanousd r);
                  db = add_transaction \<lparr>bt_AccountID = ba_ID account, bt_UserID = po_UserID r, bt_Type = TxTopUp,
                    bt_AmountNanousd = po_CreditNanousd r, bt_BalanceAfterNanousd = nextBalance,
                    bt_RefType = ''payment_order'', bt_RefID = po_ID r, bt_RefNo = po_OrderNo r\<rparr>
                    (put_balance account nextBalance db)
              in pay_order r externalPaymentID paidAt db)"

definition mark_payment_order_paid_and_credit_balance ::
    "gtime \<Rightarrow> string \<Rightarrow> string \<Rightarrow> gtime \<Rightarrow> billing_db \<Rightarrow> billing_db \<times> (repo_error + payment_order \<times> bool)" where
  "mark_payment_order_paid_and_credit_balance clock orderNo0 externalPaymentID paidAt0 db =
     (let orderNo = trim_space orderNo0; paidAt = (if is_zero paidAt0 then clock else paidAt0) in
      if orderNo = [] then (db, Inl InvalidInput)
      else run_tx (credit_body orderNo externalPaymentID paidAt) db)"

definition grant_body :: "gtime \<Rightarrow> string \<Rightarrow> string \<Rightarrow> gtime \<Rightarrow> subscription \<Rightarrow> (payment_order \<times> bool) tx" where
  "grant_body clock orderNo externalPaymentID paidAt s db =
     (case find_order db orderNo of None \<Rightarrow> Inl NotFound
      | Some r \<Rightarrow>
          if po_Status r = ''paid'' then Inr ((r, False), db)
          else if po_Status r \<noteq> ''pending'' then Inl InvalidInput
          else if po_OrderType r \<noteq> OrderSubscription then Inl InvalidInput
          else if expired_before r paidAt then expire_order r db
          else case or_not_found (find (\<lambda>p. bp_ID p = sb_PlanID s \<and> bp_IsActive p) (db_plans db)) of Inl err \<Rightarrow> Inl err
          | Inr plan \<Rightarrow> (case or_not_found (find (\<lambda>p. pr_ID p = sb_PriceID s \<and> pr_PlanID p = sb_PlanID s \<and> pr_IsActive p)
                (db_prices db)) of Inl err \<Rightarrow> Inl err
          | Inr price \<Rightarrow> (case sb_CurrentPeriodEndAt s of None \<Rightarrow> Inl InvalidInput
          | Some endAt \<Rightarrow>
              let duration = time_sub endAt paidAt in
              if duration \<le> 0 then Inl InvalidInput
              else case grant_subscription_on_timeline clock \<lparr>gq_UserID = sb_UserID s, gq_Plan = plan, gq_Price = price,
                  gq_StartAt = paidAt, gq_Duration = duration, gq_CancelAtPeriodEnd = sb_CancelAtPeriodEnd s,
                  gq_AutoRenew = sb_AutoRenew s, gq_NewGrant = True\<rparr> db of Inl err \<Rightarrow> Inl err
              | Inr (_, db) \<Rightarrow> pay_order r externalPaymentID paidAt db)))"

definition mark_payment_order_paid_and_grant_subscription ::
    "gtime \<Rightarrow> string \<Rightarrow> string \<Rightarrow> gtime \<Rightarrow> subscription \<Rightarrow> billing_db \<Rightarrow> billing_db \<times> (repo_error + payment_order \<times> bool)" where
  "mark_payment_order_paid_and_grant_subscription clock orderNo0 externalPaymentID paidAt0 s db =
     (let orderNo = trim_space orderNo0; paidAt = (if is_zero paidAt0 then clock else paidAt0) in
      if orderNo = [] then (db, Inl InvalidInput)
      else run_tx (grant_body clock orderNo externalPaymentID paidAt s) db)"

text \<open>\<^verbatim>\<open>resolvePeriodEnd\<close> and the completion of an order by the service.\<close>

definition resolve_period_end :: "duration \<Rightarrow> gtime \<Rightarrow> billing_interval \<Rightarrow> int \<Rightarrow> gtime option" where
  "resolve_period_end zone now interval cycles0 =
     (let cycles = (if cycles0 \<le> 0 then 1 else cycles0) in
      case interval of
        Yearly \<Rightarrow> Some (add_date zone now cycles 0 0)
      | Lifetime \<Rightarrow> None
      | Monthly \<Rightarrow> Some (add_date zone now 0 cycles 0))"

definition complete_payment_order ::
    "duration \<Rightarrow> gtime \<Rightarrow> string \<Rightarrow> string \<Rightarrow> gtime \<Rightarrow> billing_db \<Rightarrow> billing_db \<times> (repo_error + payment_order \<times> bool)" where
  "complete_payment_order zone clock orderNo externalPaymentID paidAt0 db =
     (case get_payment_order_by_order_no db orderNo of Inl err \<Rightarrow> (db, Inl err)
      | Inr r \<Rightarrow>
          if po_Status r = ''paid'' then (db, Inr (r, False))
          else
            let paidAt = (if is_zero paidAt0 then clock else paidAt0) in
            if po_OrderType r = OrderTopUp then
              mark_payment_order_paid_and_credit_balance clock orderNo externalPaymentID paidAt db
            else
              mark_payment_order_paid_and_grant_subscription clock orderNo externalPaymentID paidAt
                \<lparr>sb_ID = 0, sb_UserID = po_UserID r, sb_PlanID = po_PlanID r, sb_PriceID = po_PriceID r,
                 sb_Status = ''active'', sb_StartAt = paidAt, sb_CurrentPeriodStartAt = paidAt,
                 sb_CurrentPeriodEndAt = resolve_period_end zone paidAt (po_BillingInterval r) (po_Cycles r),
                 sb_CancelAtPeriodEnd = False, sb_CanceledAt = None,
                 sb_AutoRenew = (po_BillingInterval r \<noteq> Lifetime)\<rparr> db)"

section \<open>The balance an administrator sets\<close>

definition set_balance_body :: "nat \<Rightarrow> int \<Rightarrow> string \<Rightarrow> billing_account tx" where
  "set_balance_body u balance refNo db0 =
     (case get_or_create_billing_account u db0 of Inl err \<Rightarrow> Inl err
      | Inr (account, db) \<Rightarrow>
          let amount = wrap64 (balance - ba_BalanceNanousd account);
              db = put_balance account balance db;
              db = (if amount \<noteq> 0 then add_transaction \<lparr>bt_AccountID = ba_ID account, bt_UserID = u, bt_Type = TxAdminSet,
                      bt_AmountNanousd = amount, bt_BalanceAfterNanousd = balance, bt_RefType = ''admin'', bt_RefID = 0,
                      bt_RefNo = trim_space refNo\<rparr> db
                    else db)
          in case db_accounts db u of None \<Rightarrow> Inl NotFound | Some a \<Rightarrow> Inr (a, db))"

definition set_billing_account_balance ::
    "nat \<Rightarrow> int \<Rightarrow> string \<Rightarrow> billing_db \<Rightarrow> billing_db \<times> (repo_error + billing_account)" where
  "set_billing_account_balance u balance refNo db =
     (if u = 0 \<or> balance < 0 then (db, Inl InvalidInput) else run_tx (set_balance_body u balance refNo) db)"

definition fetch_billing_account :: "nat \<Rightarrow> billing_db \<Rightarrow> billing_db \<times> (repo_error + billing_account)" where
  "fetch_billing_account u db = (if u = 0 then (db, Inl InvalidInput) else run_tx (get_or_create_billing_account u) db)"

text \<open>A reward added to the balance, as invitations and redemption codes do.\<close>

definition reward_body :: "transaction_type \<Rightarrow> nat \<Rightarrow> int \<Rightarrow> string \<Rightarrow> nat \<Rightarrow> string \<Rightarrow> (billing_account \<times> nat) tx" where
  "reward_body kind u amount refType refID refNo db0 =
     (case get_or_create_billing_account u db0 of Inl err \<Rightarrow> Inl err
      | Inr (account, db) \<Rightarrow> (case add_balance account amount db of Inl err \<Rightarrow> Inl err
      | Inr (balance, db) \<Rightarrow>
          let db = add_transaction \<lparr>bt_AccountID = ba_ID account, bt_UserID = u, bt_Type = kind, bt_AmountNanousd = amount,
                bt_BalanceAfterNanousd = balance, bt_RefType = refType, bt_RefID = refID, bt_RefNo = trim_space refNo\<rparr> db
          in case db_accounts db u of None \<Rightarrow> Inl NotFound
             | Some a \<Rightarrow> Inr ((a, length (db_transactions db)), db)))"

definition apply_invitation_reward ::
    "nat \<Rightarrow> int \<Rightarrow> string \<Rightarrow> nat \<Rightarrow> string \<Rightarrow> (billing_account \<times> nat) option tx" where
  "apply_invitation_reward u reward refType refID refNo db =
     (if u = 0 \<or> reward \<le> 0 then Inr (None, db)
      else map_sum id (\<lambda>(x, db). (Some x, db)) (reward_body TxInvitation u reward refType refID refNo db))"

section \<open>What the operations leave alone\<close>

lemma same_but_step [intro]:
  "create_subscription_segment u segment db = Inr (row, db') \<Longrightarrow> same_but_subscriptions db db'"
  "update_subscription_segment item segment now db = Inr (row, db') \<Longrightarrow> same_but_subscriptions db db'"
  "same_but_subscriptions db (expire_subscription_for_timeline item now db)"
  by (auto simp: create_subscription_segment_def update_subscription_segment_def expire_subscription_for_timeline_def
      Let_def split: if_splits option.splits)

lemma same_but_write_targets:
  "write_targets u p now item reusable i targets granted db = Inr (g, db') \<Longrightarrow> same_but_subscriptions db db'"
proof (induction u p now item reusable i targets granted db rule: write_targets.induct)
  case (2 u p now item reusable i target targets granted db)
  from "2.prems" obtain row0 db1 where 1: "(if reusable = Some i then update_subscription_segment item target now db
      else create_subscription_segment u target db) = Inr (row0, db1)"
    and rest: "write_targets u p now item reusable (Suc i) targets (note_granted p target row0 granted) db1 = Inr (g, db')"
    by (auto split: sum.splits)
  from 1 have "same_but_subscriptions db db1" by (auto split: if_splits)
  from this "2.IH" [OF 1 refl rest] show ?case by (rule same_but_trans)
qed simp

lemma same_but_write_existing:
  "write_existing u p now targetsOf items granted db = Inr (g, db') \<Longrightarrow> same_but_subscriptions db db'"
proof (induction items arbitrary: granted db)
  case (Cons item items)
  let ?expired = "expire_subscription_for_timeline item now db"
    and ?reusable = "reusable_subscription_segment_index item (targetsOf (sb_ID item)) now"
  have expired: "same_but_subscriptions db ?expired" by auto
  show ?case
  proof (cases "targetsOf (sb_ID item) = []")
    case True
    with Cons have "same_but_subscriptions ?expired db'" by simp
    with expired show ?thesis by (rule same_but_trans)
  next
    case False
    with Cons.prems obtain g1 db1 where 1: "write_targets u p now item ?reusable 0 (targetsOf (sb_ID item)) granted
        (if ?reusable = None then ?expired else db) = Inr (g1, db1)"
      and rest: "write_existing u p now targetsOf items g1 db1 = Inr (g, db')" by (auto simp: Let_def split: sum.splits)
    have "same_but_subscriptions db db1"
      using same_but_write_targets [OF 1] expired by (auto intro: same_but_trans split: if_splits)
    with Cons.IH [OF rest] show ?thesis by (blast intro: same_but_trans)
  qed
qed simp

lemma same_but_write_new:
  "write_new u p targets granted db = Inr (g, db') \<Longrightarrow> same_but_subscriptions db db'"
proof (induction targets arbitrary: granted db)
  case (Cons target targets)
  then obtain row0 db1 where 1: "create_subscription_segment u target db = Inr (row0, db1)"
    and rest: "write_new u p targets (note_granted p target row0 granted) db1 = Inr (g, db')" by (auto split: sum.splits)
  from same_but_step(1) [OF 1] Cons.IH [OF rest] show ?case by (rule same_but_trans)
qed simp

lemma same_but_grant:
  assumes "grant_subscription_on_timeline clock q db = Inr (row, db')"
  shows "same_but_subscriptions db db'"
  using assms by (auto simp: grant_subscription_on_timeline_def apply_subscription_timeline_def Let_def
      dest!: same_but_write_existing same_but_write_new split: if_splits sum.splits option.splits)
    (blast intro: same_but_trans)+

lemma grant_subscriptions_ok:
  assumes "grant_subscription_on_timeline clock q db = Inr (row, db')" "subscriptions_ok db" "gq_Duration q \<le> int64_max"
  shows "subscriptions_ok db'"
  by (rule grant_Inr [OF assms(1)]) (rule grant_ok_rows [OF _ assms(2,3), THEN conjunct1])

lemma same_but_books:
  assumes "same_but_subscriptions db db'"
  shows "books_balance db' = books_balance db" "balance_of u db' = balance_of u db"
  using assms by (simp_all add: same_but_subscriptions_def books_balance_def balance_of_def transactions_of_def)

section \<open>Orders\<close>

text \<open>
  Identifiers are positions and order numbers are unique. A top-up transaction credits a paid
  top-up order to its user with its amount, and a paid top-up order has exactly one.
\<close>

definition credits_of :: "billing_db \<Rightarrow> nat \<Rightarrow> balance_transaction list" where
  "credits_of db oid = filter (\<lambda>t. bt_Type t = TxTopUp \<and> bt_RefID t = oid) (db_transactions db)"

definition order_credited :: "billing_db \<Rightarrow> payment_order \<Rightarrow> bool" where
  "order_credited db r \<longleftrightarrow>
     (if po_Status r = ''paid'' \<and> po_OrderType r = OrderTopUp
      then \<exists>t. credits_of db (po_ID r) = [t] \<and> bt_UserID t = po_UserID r \<and> bt_AmountNanousd t = po_CreditNanousd r
      else credits_of db (po_ID r) = [])"

definition orders_ok :: "billing_db \<Rightarrow> bool" where
  "orders_ok db \<longleftrightarrow>
     map po_ID (db_orders db) = map Suc [0..<length (db_orders db)] \<and>
     distinct (map po_OrderNo (db_orders db)) \<and>
     (\<forall>r \<in> set (db_orders db). order_credited db r) \<and>
     (\<forall>t \<in> set (db_transactions db). bt_Type t = TxTopUp \<longrightarrow> bt_RefID t \<le> length (db_orders db))"

lemma orders_ok_empty: "orders_ok empty_db"
  by (simp add: orders_ok_def empty_db_def)

lemma orders_ok_cong:
  assumes "orders_ok db" "db_orders db' = db_orders db"
    and "db_transactions db' = db_transactions db \<or>
      (\<exists>t. db_transactions db' = db_transactions db @ [t] \<and> bt_Type t \<noteq> TxTopUp)"
  shows "orders_ok db'"
  using assms by (auto simp: orders_ok_def order_credited_def credits_of_def)

lemma order_ids: "orders_ok db \<Longrightarrow> distinct (map po_ID (db_orders db))"
  by (simp add: orders_ok_def distinct_map)

lemma order_id_bound: "orders_ok db \<Longrightarrow> r \<in> set (db_orders db) \<Longrightarrow> po_ID r \<le> length (db_orders db)"
proof -
  assume "orders_ok db" "r \<in> set (db_orders db)"
  then have "po_ID r \<in> set (map Suc [0..<length (db_orders db)])" by (metis image_eqI list.set_map orders_ok_def)
  then show ?thesis by auto
qed

lemma find_order_Some: "find_order db no = Some r \<Longrightarrow> r \<in> set (db_orders db) \<and> po_OrderNo r = no"
  by (auto simp: find_order_def find_Some_iff)

lemma find_map_if:
  assumes "find P xs = Some r" "P (f r)" "\<And>x. x \<in> set xs \<Longrightarrow> hit x \<Longrightarrow> P (f x) = P x" "hit r"
  shows "find P (map (\<lambda>x. if hit x then f x else x) xs) = Some (f r)"
  using assms
proof (induction xs)
  case (Cons x xs)
  then show ?case by (cases "P x") (auto split: if_splits)
qed simp

definition paid_order :: "payment_order \<Rightarrow> string \<Rightarrow> gtime \<Rightarrow> payment_order" where
  "paid_order r ext paidAt = r\<lparr>po_Status := ''paid'', po_ExternalPaymentID := trim_space ext, po_PaidAt := Some paidAt\<rparr>"

lemma paid_order_sel [simp]:
  "po_Status (paid_order r ext t) = ''paid''" "po_ID (paid_order r ext t) = po_ID r"
  "po_OrderNo (paid_order r ext t) = po_OrderNo r" "po_OrderType (paid_order r ext t) = po_OrderType r"
  "po_UserID (paid_order r ext t) = po_UserID r" "po_CreditNanousd (paid_order r ext t) = po_CreditNanousd r"
  "po_PlanID (paid_order r ext t) = po_PlanID r" "po_BillingInterval (paid_order r ext t) = po_BillingInterval r"
  "po_Cycles (paid_order r ext t) = po_Cycles r"
  by (simp_all add: paid_order_def)

lemma pay_order_eq:
  assumes "find_order db no = Some r"
  shows "pay_order r ext paidAt db = Inr ((paid_order r ext paidAt, True),
    db\<lparr>db_orders := map (\<lambda>x. if po_ID x = po_ID r then paid_order x ext paidAt else x) (db_orders db)\<rparr>)"
proof -
  let ?db = "db\<lparr>db_orders := map (\<lambda>x. if po_ID x = po_ID r then paid_order x ext paidAt else x) (db_orders db)\<rparr>"
  have no: "find_order db (po_OrderNo r) = Some r" using assms find_order_Some by metis
  have "find_order ?db (po_OrderNo r) = Some (paid_order r ext paidAt)"
    using no unfolding find_order_def by (simp, intro find_map_if) auto
  then show ?thesis
    by (simp add: pay_order_def update_orders_def Let_def flip: paid_order_def)
qed

text \<open>What a call that settles an order has done: nothing for a paid order, or one of the two fulfilments.\<close>

definition credited_db :: "payment_order \<Rightarrow> billing_account \<Rightarrow> billing_db \<Rightarrow> billing_db" where
  "credited_db r a db = (let balance = wrap64 (ba_BalanceNanousd a + po_CreditNanousd r) in
     add_transaction \<lparr>bt_AccountID = ba_ID a, bt_UserID = po_UserID r, bt_Type = TxTopUp,
       bt_AmountNanousd = po_CreditNanousd r, bt_BalanceAfterNanousd = balance, bt_RefType = ''payment_order'',
       bt_RefID = po_ID r, bt_RefNo = po_OrderNo r\<rparr> (put_balance a balance db))"

definition settled_order :: "payment_order \<Rightarrow> string \<Rightarrow> gtime \<Rightarrow> billing_db \<Rightarrow> billing_db" where
  "settled_order r ext paidAt db =
     db\<lparr>db_orders := map (\<lambda>x. if po_ID x = po_ID r then paid_order x ext paidAt else x) (db_orders db)\<rparr>"

lemma credited_db_other [simp]: "db_orders (credited_db r a db) = db_orders db"
  by (simp add: credited_db_def add_transaction_def put_balance_def Let_def)

lemma credit_body_cases:
  assumes "credit_body no ext paidAt db = Inr ((r', credited), db')"
  obtains (paid) "find_order db no = Some r'" "po_Status r' = ''paid''" "\<not> credited" "db' = db"
  | (now) r a db1 where "find_order db no = Some r" "po_Status r = ''pending''" "po_OrderType r = OrderTopUp"
      "0 < po_CreditNanousd r" "\<not> expired_before r paidAt" "get_or_create_billing_account (po_UserID r) db = Inr (a, db1)"
      "r' = paid_order r ext paidAt" "credited" "db' = settled_order r ext paidAt (credited_db r a db1)"
proof -
  obtain r where r: "find_order db no = Some r"
    using assms by (cases "find_order db no") (simp_all add: credit_body_def)
  show thesis
  proof (cases "po_Status r = ''paid''")
    case True
    then have "credit_body no ext paidAt db = Inr ((r, False), db)" by (simp add: credit_body_def r)
    with assms have "r' = r" "\<not> credited" "db' = db" by simp_all
    with r True show thesis by (intro paid) simp_all
  next
    case False
    have body: "credit_body no ext paidAt db =
      (if po_Status r \<noteq> ''pending'' \<or> po_OrderType r \<noteq> OrderTopUp \<or> po_CreditNanousd r \<le> 0 then Inl InvalidInput
       else if expired_before r paidAt then Inl InvalidInput
       else case get_or_create_billing_account (po_UserID r) db of Inl err \<Rightarrow> Inl err
         | Inr (a, db1) \<Rightarrow> pay_order r ext paidAt (credited_db r a db1))"
      using False unfolding credit_body_def r option.case expire_order_def credited_db_def Let_def by (simp only: if_False)
    obtain a db1 where pending: "po_Status r = ''pending''" "po_OrderType r = OrderTopUp" "0 < po_CreditNanousd r"
      and time: "\<not> expired_before r paidAt" and acc: "get_or_create_billing_account (po_UserID r) db = Inr (a, db1)"
      and pay: "pay_order r ext paidAt (credited_db r a db1) = Inr ((r', credited), db')"
      using assms unfolding body by (auto simp del: not_None_eq split: if_splits sum.splits)
    have "find_order (credited_db r a db1) no = Some r"
      using r get_or_create_other(4) [OF acc] by (simp add: find_order_def)
    from pay_order_eq [OF this] pay show thesis
      by (intro now [OF r pending time acc]) (auto simp: settled_order_def)
  qed
qed

definition subscription_grant :: "subscription \<Rightarrow> billing_plan \<Rightarrow> billing_price \<Rightarrow> gtime \<Rightarrow> duration \<Rightarrow> grant_request" where
  "subscription_grant s plan price paidAt duration = \<lparr>gq_UserID = sb_UserID s, gq_Plan = plan, gq_Price = price,
     gq_StartAt = paidAt, gq_Duration = duration, gq_CancelAtPeriodEnd = sb_CancelAtPeriodEnd s,
     gq_AutoRenew = sb_AutoRenew s, gq_NewGrant = True\<rparr>"

lemma subscription_grant_sel [simp]:
  "gq_UserID (subscription_grant s plan price t d) = sb_UserID s" "gq_Plan (subscription_grant s plan price t d) = plan"
  "gq_StartAt (subscription_grant s plan price t d) = t" "gq_Duration (subscription_grant s plan price t d) = d"
  by (simp_all add: subscription_grant_def)

lemma find_first: "find P xs = Some x \<Longrightarrow> P x"
  by (auto simp: find_Some_iff)

lemma grant_body_cases:
  assumes "grant_body clock no ext paidAt s db = Inr ((r', activated), db')"
  obtains (paid) "find_order db no = Some r'" "po_Status r' = ''paid''" "\<not> activated" "db' = db"
  | (now) r plan price endAt row db1 where "find_order db no = Some r" "po_Status r = ''pending''"
      "po_OrderType r = OrderSubscription" "\<not> expired_before r paidAt" "bp_ID plan = sb_PlanID s" "bp_IsActive plan"
      "sb_CurrentPeriodEndAt s = Some endAt" "0 < time_sub endAt paidAt"
      "grant_subscription_on_timeline clock (subscription_grant s plan price paidAt (time_sub endAt paidAt)) db = Inr (row, db1)"
      "r' = paid_order r ext paidAt" "activated" "db' = settled_order r ext paidAt db1"
proof -
  obtain r where r: "find_order db no = Some r"
    using assms by (cases "find_order db no") (simp_all add: grant_body_def)
  show thesis
  proof (cases "po_Status r = ''paid''")
    case True
    then have "grant_body clock no ext paidAt s db = Inr ((r, False), db)" by (simp add: grant_body_def r)
    with assms have "r' = r" "\<not> activated" "db' = db" by simp_all
    with r True show thesis by (intro paid) simp_all
  next
    case False
    let ?plan = "or_not_found (find (\<lambda>p. bp_ID p = sb_PlanID s \<and> bp_IsActive p) (db_plans db))"
    let ?price = "or_not_found (find (\<lambda>p. pr_ID p = sb_PriceID s \<and> pr_PlanID p = sb_PlanID s \<and> pr_IsActive p) (db_prices db))"
    have body: "grant_body clock no ext paidAt s db =
      (if po_Status r \<noteq> ''pending'' then Inl InvalidInput
       else if po_OrderType r \<noteq> OrderSubscription then Inl InvalidInput
       else if expired_before r paidAt then Inl InvalidInput
       else case ?plan of Inl err \<Rightarrow> Inl err | Inr plan \<Rightarrow> (case ?price of Inl err \<Rightarrow> Inl err
         | Inr price \<Rightarrow> (case sb_CurrentPeriodEndAt s of None \<Rightarrow> Inl InvalidInput
         | Some endAt \<Rightarrow> if time_sub endAt paidAt \<le> 0 then Inl InvalidInput
           else case grant_subscription_on_timeline clock (subscription_grant s plan price paidAt (time_sub endAt paidAt)) db of
             Inl err \<Rightarrow> Inl err | Inr (_, db1) \<Rightarrow> pay_order r ext paidAt db1)))"
      using False unfolding grant_body_def r option.case expire_order_def subscription_grant_def Let_def by (simp only: if_False)
    obtain plan price endAt row db1 where pending: "po_Status r = ''pending''" "po_OrderType r = OrderSubscription"
      and time: "\<not> expired_before r paidAt" and plan: "?plan = Inr plan" and "?price = Inr price"
      and endAt: "sb_CurrentPeriodEndAt s = Some endAt" "0 < time_sub endAt paidAt"
      and grant: "grant_subscription_on_timeline clock (subscription_grant s plan price paidAt (time_sub endAt paidAt)) db = Inr (row, db1)"
      and pay: "pay_order r ext paidAt db1 = Inr ((r', activated), db')"
      using assms unfolding body by (auto simp del: not_None_eq split: if_splits sum.splits option.splits)
    have "bp_ID plan = sb_PlanID s \<and> bp_IsActive plan"
      using plan by (auto simp: or_not_found_def split: option.splits dest: find_first)
    moreover have "find_order db1 no = Some r"
      using r same_but_grant [OF grant] by (simp add: find_order_def same_but_subscriptions_def)
    from pay_order_eq [OF this] pay have "r' = paid_order r ext paidAt" "activated" "db' = settled_order r ext paidAt db1"
      by (auto simp: settled_order_def)
    ultimately show thesis using r pending time endAt grant by (intro now) simp_all
  qed
qed

text \<open>The time of a payment, and the two outcomes of a completion that returns an order.\<close>

definition paid_time :: "gtime \<Rightarrow> gtime \<Rightarrow> gtime" where
  "paid_time clock paidAt = (if is_zero paidAt then clock else paidAt)"

definition order_subscription :: "duration \<Rightarrow> gtime \<Rightarrow> payment_order \<Rightarrow> subscription" where
  "order_subscription zone paidAt r = \<lparr>sb_ID = 0, sb_UserID = po_UserID r, sb_PlanID = po_PlanID r, sb_PriceID = po_PriceID r,
     sb_Status = ''active'', sb_StartAt = paidAt, sb_CurrentPeriodStartAt = paidAt,
     sb_CurrentPeriodEndAt = resolve_period_end zone paidAt (po_BillingInterval r) (po_Cycles r),
     sb_CancelAtPeriodEnd = False, sb_CanceledAt = None, sb_AutoRenew = (po_BillingInterval r \<noteq> Lifetime)\<rparr>"

lemma order_subscription_sel [simp]:
  "sb_UserID (order_subscription zone t r) = po_UserID r" "sb_PlanID (order_subscription zone t r) = po_PlanID r"
  "sb_CurrentPeriodEndAt (order_subscription zone t r) = resolve_period_end zone t (po_BillingInterval r) (po_Cycles r)"
  by (simp_all add: order_subscription_def)

lemma paid_time_idem [simp]: "paid_time clock (paid_time clock t) = paid_time clock t"
  by (simp add: paid_time_def)

lemma complete_eq:
  assumes "find_order db (trim_space no) = Some r" "po_Status r \<noteq> ''paid''" "trim_space no \<noteq> []"
  shows "complete_payment_order zone clock no ext paidAt db =
    (if po_OrderType r = OrderTopUp then run_tx (credit_body (trim_space no) ext (paid_time clock paidAt)) db
     else run_tx (grant_body clock (trim_space no) ext (paid_time clock paidAt)
       (order_subscription zone (paid_time clock paidAt) r)) db)"
  using assms unfolding complete_payment_order_def get_payment_order_by_order_no_def or_not_found_def
    mark_payment_order_paid_and_credit_balance_def mark_payment_order_paid_and_grant_subscription_def
    order_subscription_def [symmetric] paid_time_def [symmetric] Let_def
  by simp

lemma complete_blank:
  assumes "trim_space no = []"
  shows "complete_payment_order zone clock no ext paidAt db =
    (case find_order db [] of None \<Rightarrow> (db, Inl NotFound)
     | Some r \<Rightarrow> if po_Status r = ''paid'' then (db, Inr (r, False)) else (db, Inl InvalidInput))"
  using assms by (simp add: complete_payment_order_def get_payment_order_by_order_no_def or_not_found_def
      mark_payment_order_paid_and_credit_balance_def mark_payment_order_paid_and_grant_subscription_def Let_def
      split: option.split)

lemma complete_paid:
  assumes "find_order db (trim_space no) = Some r" "po_Status r = ''paid''"
  shows "complete_payment_order zone clock no ext paidAt db = (db, Inr (r, False))"
  using assms by (simp add: complete_payment_order_def get_payment_order_by_order_no_def or_not_found_def)

lemma complete_cases:
  assumes "complete_payment_order zone clock no ext paidAt db = (db', res)"
  obtains (error) err where "res = Inl err" "db' = db"
  | (paid) r where "res = Inr (r, False)" "find_order db (trim_space no) = Some r" "po_Status r = ''paid''" "db' = db"
  | (topup) r a db1 where "res = Inr (paid_order r ext (paid_time clock paidAt), True)"
      "find_order db (trim_space no) = Some r" "po_Status r = ''pending''"
      "po_OrderType r = OrderTopUp" "0 < po_CreditNanousd r" "\<not> expired_before r (paid_time clock paidAt)"
      "get_or_create_billing_account (po_UserID r) db = Inr (a, db1)"
      "db' = settled_order r ext (paid_time clock paidAt) (credited_db r a db1)"
  | (subscription) r plan price endAt row db1 where "res = Inr (paid_order r ext (paid_time clock paidAt), True)"
      "find_order db (trim_space no) = Some r" "po_Status r = ''pending''" "po_OrderType r = OrderSubscription"
      "\<not> expired_before r (paid_time clock paidAt)" "bp_ID plan = po_PlanID r" "bp_IsActive plan"
      "resolve_period_end zone (paid_time clock paidAt) (po_BillingInterval r) (po_Cycles r) = Some endAt"
      "0 < time_sub endAt (paid_time clock paidAt)"
      "grant_subscription_on_timeline clock (subscription_grant (order_subscription zone (paid_time clock paidAt) r) plan price
         (paid_time clock paidAt) (time_sub endAt (paid_time clock paidAt))) db = Inr (row, db1)"
      "db' = settled_order r ext (paid_time clock paidAt) db1"
proof (cases "find_order db (trim_space no)")
  case None
  then show thesis
    using assms error by (auto simp: complete_payment_order_def get_payment_order_by_order_no_def or_not_found_def)
next
  case (Some r)
  show thesis
  proof (cases "po_Status r = ''paid'' \<or> trim_space no = []")
    case True
    show thesis
    proof (cases "po_Status r = ''paid''")
      case True
      with assms have "db' = db" "res = Inr (r, False)" by (simp_all add: complete_paid [OF Some])
      with paid Some True show thesis by simp
    next
      case False
      with True Some have "trim_space no = []" "find_order db [] = Some r" by simp_all
      with assms False have "db' = db" "res = Inl InvalidInput" by (simp_all add: complete_blank)
      with error show thesis by simp
    qed
  next
    case False
    then have eq: "complete_payment_order zone clock no ext paidAt db =
      (if po_OrderType r = OrderTopUp then run_tx (credit_body (trim_space no) ext (paid_time clock paidAt)) db
       else run_tx (grant_body clock (trim_space no) ext (paid_time clock paidAt)
         (order_subscription zone (paid_time clock paidAt) r)) db)" by (intro complete_eq [OF Some]) simp_all
    show thesis
    proof (cases "po_OrderType r = OrderTopUp")
      case True
      with eq assms have "run_tx (credit_body (trim_space no) ext (paid_time clock paidAt)) db = (db', res)" by simp
      then show thesis
      proof (cases rule: run_tx_cases)
        case (commit x)
        obtain r' c where x: "x = (r', c)" by (cases x)
        from commit(1)[unfolded x] show thesis
        proof (cases rule: credit_body_cases)
          case paid
          then show thesis using commit(2) x Some \<open>\<not> (po_Status r = ''paid'' \<or> trim_space no = [])\<close> by simp
        next
          case (now r0 a db1)
          from now(1) Some have "r0 = r" by simp
          note now = now [unfolded this]
          show thesis
            by (rule topup [OF _ Some now(2,3,4,5,6)]) (use now commit(2) x in simp_all)
        qed
      qed (rule error)
    next
      case False
      with eq assms have "run_tx (grant_body clock (trim_space no) ext (paid_time clock paidAt)
         (order_subscription zone (paid_time clock paidAt) r)) db = (db', res)" by simp
      then show thesis
      proof (cases rule: run_tx_cases)
        case (commit x)
        obtain r' c where x: "x = (r', c)" by (cases x)
        from commit(1)[unfolded x] show thesis
        proof (cases rule: grant_body_cases)
          case paid
          then show thesis using commit(2) x Some \<open>\<not> (po_Status r = ''paid'' \<or> trim_space no = [])\<close> by simp
        next
          case (now r0 plan price endAt row db1)
          from now(1) Some have "r0 = r" by simp
          note now = now [unfolded this]
          show thesis
            by (rule subscription [OF _ Some now(2,3,4)]) (use now commit(2) x in simp_all)
        qed
      qed (rule error)
    qed
  qed
qed

lemma find_settled:
  assumes "find_order db no = Some r"
  shows "find_order (settled_order r ext t db) no = Some (paid_order r ext t)"
proof -
  have "po_OrderNo r = no" using assms find_order_Some by blast
  then show ?thesis
    using assms unfolding find_order_def settled_order_def by (simp, intro find_map_if) auto
qed

lemma settled_other [simp]:
  "db_accounts (settled_order r ext t db) = db_accounts db" "db_transactions (settled_order r ext t db) = db_transactions db"
  "db_subscriptions (settled_order r ext t db) = db_subscriptions db" "db_codes (settled_order r ext t db) = db_codes db"
  "db_redemptions (settled_order r ext t db) = db_redemptions db" "db_ledger (settled_order r ext t db) = db_ledger db"
  "db_reservations (settled_order r ext t db) = db_reservations db"
  "books_balance (settled_order r ext t db) = books_balance db" "balance_of u (settled_order r ext t db) = balance_of u db"
  by (simp_all add: settled_order_def balance_of_def)

lemma credited_books:
  assumes "books_balance db" "get_or_create_billing_account (po_UserID r) db = Inr (a, db1)"
  shows "books_balance (credited_db r a db1)"
    "balance_of u (credited_db r a db1) =
       (if u = po_UserID r then wrap64 (balance_of u db + po_CreditNanousd r) else balance_of u db)"
proof -
  note acc = get_or_create_books [OF assms(2,1)]
  then show "books_balance (credited_db r a db1)"
    unfolding credited_db_def Let_def by (intro posting_books [where u = "po_UserID r" and a = a]) simp_all
  from acc [of "po_UserID r"] acc [of u] show "balance_of u (credited_db r a db1) =
       (if u = po_UserID r then wrap64 (balance_of u db + po_CreditNanousd r) else balance_of u db)"
    by (simp add: credited_db_def Let_def balance_of_def add_transaction_def put_balance_def)
qed

lemma credited_transactions:
  "get_or_create_billing_account (po_UserID r) db = Inr (a, db1) \<Longrightarrow>
     \<exists>t. db_transactions (credited_db r a db1) = db_transactions db @ [t] \<and> bt_Type t = TxTopUp \<and> bt_RefID t = po_ID r \<and>
       bt_UserID t = po_UserID r \<and> bt_AmountNanousd t = po_CreditNanousd r"
  using get_or_create_other(3) by (simp add: credited_db_def Let_def add_transaction_def put_balance_def)

text \<open>
  C19: Paying is final. A completion that succeeds leaves the order paid, and every later completion of
  it, from whatever callback and at whatever time, returns it unchanged without a second fulfilment.
\<close>

theorem completed_order_is_final:
  assumes "complete_payment_order zone clock no ext paidAt db = (db', Inr (r, fulfilled))"
  shows "po_Status r = ''paid'' \<and> find_order db' (trim_space no) = Some r \<and>
    complete_payment_order zone' clock' no ext' paidAt' db' = (db', Inr (r, False))"
proof -
  from assms have "find_order db' (trim_space no) = Some r \<and> po_Status r = ''paid''"
  proof (cases rule: complete_cases)
    case (topup r0 a db1)
    from topup(2,7) have "find_order (credited_db r0 a db1) (trim_space no) = Some r0"
      by (simp add: find_order_def get_or_create_other(4))
    from find_settled [OF this] topup show ?thesis by simp
  next
    case (subscription r0 plan price endAt row db1)
    from subscription(2) same_but_grant [OF subscription(10)] have "find_order db1 (trim_space no) = Some r0"
      by (simp add: find_order_def same_but_subscriptions_def)
    from find_settled [OF this] subscription show ?thesis by simp
  qed simp_all
  then show ?thesis using complete_paid by blast
qed

text \<open>
  C20: A top-up that is fulfilled adds exactly the credit of the order to the balance of its user, once,
  with a transaction that says so; no other balance changes and the books still balance.
\<close>

theorem topup_credited_exactly:
  assumes "complete_payment_order zone clock no ext paidAt db = (db', Inr (r, True))" "po_OrderType r = OrderTopUp"
    and "books_balance db"
  shows "books_balance db' \<and> balance_of (po_UserID r) db' = wrap64 (balance_of (po_UserID r) db + po_CreditNanousd r) \<and>
    (\<forall>v. v \<noteq> po_UserID r \<longrightarrow> balance_of v db' = balance_of v db) \<and>
    (\<exists>t. db_transactions db' = db_transactions db @ [t] \<and> bt_Type t = TxTopUp \<and> bt_RefID t = po_ID r \<and>
       bt_UserID t = po_UserID r \<and> bt_AmountNanousd t = po_CreditNanousd r) \<and>
    db_subscriptions db' = db_subscriptions db"
  using assms(1)
proof (cases rule: complete_cases)
  case (topup r0 a db1)
  note books = credited_books [OF assms(3) topup(7)]
  have "db_subscriptions (credited_db r0 a db1) = db_subscriptions db"
    using get_or_create_other(7) [OF topup(7)] by (simp add: credited_db_def Let_def add_transaction_def put_balance_def)
  with topup books credited_transactions [OF topup(7)] show ?thesis by simp
next
  case (subscription r0 plan price endAt row db1)
  then show ?thesis using assms(2) by simp
qed simp_all

lemma time_sub_max: "time_sub a b \<le> int64_max"
  by (simp add: time_sub_def int64_max_def)

text \<open>
  A subscription order that is fulfilled adds the period it was sold for, measured on the calendar
  from the time of payment, to the time its user has left of the plan, and nothing else.
\<close>

theorem subscription_order_extends:
  assumes "complete_payment_order zone clock no ext paidAt db = (db', Inr (r, True))" "po_OrderType r = OrderSubscription"
    and "subscriptions_ok db"
  defines "t \<equiv> paid_time clock paidAt"
  shows "\<exists>endAt. resolve_period_end zone t (po_BillingInterval r) (po_Cycles r) = Some endAt \<and>
    (\<forall>p. remaining_time p (po_UserID r) t db' =
       remaining_time p (po_UserID r) t db + (if p = po_PlanID r then time_sub endAt t else 0)) \<and>
    subscriptions_ok db' \<and> db_transactions db' = db_transactions db \<and> db_accounts db' = db_accounts db"
  using assms(1)
proof (cases rule: complete_cases)
  case (topup r0 a db1)
  then show ?thesis using assms(2) by simp
next
  case (subscription r0 plan price endAt row db1)
  let ?q = "subscription_grant (order_subscription zone t r0) plan price t (time_sub endAt t)"
  have db': "db_subscriptions db' = db_subscriptions db1" using subscription by simp
  have same: "same_but_subscriptions db db1" by (rule same_but_grant [OF subscription(10)])
  have now: "t = (if is_zero (gq_StartAt ?q) then clock else gq_StartAt ?q)" by (simp add: t_def paid_time_def)
  have "gq_Duration ?q \<le> int64_max" by (simp only: subscription_grant_sel time_sub_max)
  from grant_time [OF subscription(10)[folded t_def] assms(3) this now]
  have "remaining_time p (po_UserID r0) t db1 =
      remaining_time p (po_UserID r0) t db + (if p = po_PlanID r0 then time_sub endAt t else 0)" for p
    using subscription(6) by simp
  moreover have "subscriptions_ok db1"
    using subscription(10) assms(3) by (rule grant_subscriptions_ok) (simp only: subscription_grant_sel time_sub_max)
  ultimately show ?thesis
    using subscription same by (auto simp: t_def db' remaining_time_def subscriptions_ok_def ids_ok_def same_but_subscriptions_def)
qed simp_all

text \<open>
  C39: An order whose payment arrives after its expiry is refused, and stays pending: the transaction that
  writes the status expired returns an error and is rolled back.
\<close>

theorem expired_order_stays_pending:
  assumes "find_order db (trim_space no) = Some r" "po_Status r = ''pending''" "trim_space no \<noteq> []"
    and "expired_before r (paid_time clock paidAt)"
  shows "complete_payment_order zone clock no ext paidAt db = (db, Inl InvalidInput)"
proof -
  note eq = complete_eq [OF assms(1) _ assms(3), of zone clock ext paidAt]
  show ?thesis
  proof (cases "po_OrderType r = OrderTopUp \<and> po_CreditNanousd r \<le> 0")
    case True
    then show ?thesis using assms eq by (simp add: run_tx_def credit_body_def)
  next
    case False
    then show ?thesis
      using assms eq
      by (cases "po_OrderType r") (simp_all add: run_tx_def credit_body_def grant_body_def expire_order_def)
  qed
qed

text \<open>
  C40: A paid subscription order for a lifetime price is never fulfilled: its period has no end, and the
  grant refuses a period without an end, so every completion fails and leaves the order as it is.
\<close>

theorem lifetime_order_never_granted:
  assumes "find_order db (trim_space no) = Some r" "po_Status r \<noteq> ''paid''"
    and "po_OrderType r = OrderSubscription" "po_BillingInterval r = Lifetime"
  shows "\<exists>err. complete_payment_order zone clock no ext paidAt db = (db, Inl err)"
proof -
  obtain db' res where res: "complete_payment_order zone clock no ext paidAt db = (db', res)" by fastforce
  then show ?thesis
  proof (cases rule: complete_cases)
    case (subscription r0 plan price endAt row db1)
    then show ?thesis using assms by (simp add: resolve_period_end_def Let_def)
  qed (use assms res in simp_all)
qed

section \<open>The orders of a database\<close>

lemma order_credited_cong:
  assumes "db_transactions db' = db_transactions db" "po_ID r' = po_ID r" "po_Status r' = po_Status r"
    "po_OrderType r' = po_OrderType r" "po_UserID r' = po_UserID r" "po_CreditNanousd r' = po_CreditNanousd r"
  shows "order_credited db' r' = order_credited db r"
  by (simp add: order_credited_def credits_of_def assms)

lemma credits_of_settled [simp]: "credits_of (settled_order r ext t db) = credits_of db"
  by (simp add: fun_eq_iff credits_of_def)

lemma create_order_cases:
  assumes "create_payment_order i db = (db', res)"
  obtains (error) err where "res = Inl err" "db' = db"
  | (created) row where "res = Inr row" "db' = db\<lparr>db_orders := db_orders db @ [row]\<rparr>"
      "po_ID row = Suc (length (db_orders db))" "po_OrderNo row = trim_space (oi_OrderNo i)"
      "po_Status row = first_non_empty (trim_space (oi_Status i)) ''pending''" "po_UserID row = oi_UserID i"
      "find_order db (po_OrderNo row) = None" "po_OrderNo row \<noteq> []"
      "po_OrderType row = normalize_order_type (oi_OrderType i)" "po_BillingInterval row = normalize_interval (oi_BillingInterval i)"
  using assms unfolding create_payment_order_def Let_def by (auto simp del: not_None_eq split: if_splits)

lemma trim_pending: "trim_space ''pending'' = ''pending''"
  by code_simp

lemma create_order_ok:
  assumes "orders_ok db" "create_payment_order i db = (db', res)" "trim_space (oi_Status i) \<noteq> ''paid''"
  shows "orders_ok db'"
  using assms(2)
proof (cases rule: create_order_cases)
  case (created row)
  have new: "credits_of db (po_ID row) = []"
    using assms(1) created(3) by (force simp: credits_of_def orders_ok_def filter_empty_conv)
  have "po_Status row \<noteq> ''paid''"
    using created(5) assms(3) trim_pending by (auto simp: first_non_empty_def)
  with new have "order_credited db' row"
    by (simp add: order_credited_def created(2) credits_of_def)
  moreover have "\<forall>r \<in> set (db_orders db). order_credited db' r"
  proof
    fix r assume r: "r \<in> set (db_orders db)"
    have "order_credited db' r = order_credited db r" by (rule order_credited_cong) (simp_all add: created(2))
    with assms(1) r show "order_credited db' r" by (simp add: orders_ok_def)
  qed
  moreover have "po_OrderNo row \<notin> set (map po_OrderNo (db_orders db))"
    using created(7) by (auto simp: find_order_def find_None_iff)
  ultimately show ?thesis
    using assms(1) created(2,3) by (auto simp: orders_ok_def)
qed (use assms in simp)

lemma map_orders_ok:
  assumes "orders_ok db" "db_orders db' = map f (db_orders db)"
    and "\<And>x. po_ID (f x) = po_ID x \<and> po_OrderNo (f x) = po_OrderNo x"
    and "\<And>x. x \<in> set (db_orders db) \<Longrightarrow> order_credited db' (f x)"
    and "\<forall>t \<in> set (db_transactions db'). bt_Type t = TxTopUp \<longrightarrow> bt_RefID t \<le> length (db_orders db)"
  shows "orders_ok db'"
proof -
  have "map po_ID (map f xs) = map po_ID xs" "map po_OrderNo (map f xs) = map po_OrderNo xs" for xs
    using assms(3) by simp_all
  moreover have "\<forall>r \<in> set (map f (db_orders db)). order_credited db' r" using assms(4) by auto
  ultimately show ?thesis
    using assms(1,5) unfolding orders_ok_def assms(2) by (simp del: map_map set_map)
qed

lemma settled_order_ok:
  assumes "orders_ok db" "r \<in> set (db_orders db)" "db_orders db1 = db_orders db"
    and "\<And>oid. oid \<noteq> po_ID r \<Longrightarrow> credits_of db1 oid = credits_of db oid"
    and "order_credited db1 (paid_order r ext t)"
    and "\<forall>t \<in> set (db_transactions db1). bt_Type t = TxTopUp \<longrightarrow> bt_RefID t \<le> length (db_orders db)"
  shows "orders_ok (settled_order r ext t db1)"
proof -
  let ?f = "\<lambda>x. if po_ID x = po_ID r then paid_order x ext t else x"
  have orders: "db_orders (settled_order r ext t db1) = map ?f (db_orders db)" by (simp add: settled_order_def assms(3))
  have own: "x = r" if "x \<in> set (db_orders db)" "po_ID x = po_ID r" for x
    using order_ids [OF assms(1)] assms(2) that by (auto simp: distinct_map dest: inj_onD)
  show ?thesis
  proof (rule map_orders_ok [OF assms(1) orders])
    fix x assume x: "x \<in> set (db_orders db)"
    show "order_credited (settled_order r ext t db1) (?f x)"
    proof (cases "po_ID x = po_ID r")
      case True
      have "order_credited (settled_order r ext t db1) (paid_order r ext t) = order_credited db1 (paid_order r ext t)"
        by (rule order_credited_cong) simp_all
      with own [OF x True] assms(5) show ?thesis by simp
    next
      case False
      then show ?thesis
        using x assms(1) assms(4) [OF False] by (simp add: order_credited_def orders_ok_def)
    qed
  qed (use assms(6) in simp_all)
qed

lemma complete_orders_ok:
  assumes "orders_ok db" "complete_payment_order zone clock no ext paidAt db = (db', res)"
  shows "orders_ok db'"
  using assms(2)
proof (cases rule: complete_cases)
  case (topup r a db1)
  have r: "r \<in> set (db_orders db)" using topup(2) find_order_Some by blast
  obtain t where t: "db_transactions (credited_db r a db1) = db_transactions db @ [t]" "bt_Type t = TxTopUp"
    "bt_RefID t = po_ID r" "bt_UserID t = po_UserID r" "bt_AmountNanousd t = po_CreditNanousd r"
    using credited_transactions [OF topup(7)] by blast
  have none: "credits_of db (po_ID r) = []" using assms(1) r topup(3) by (simp add: orders_ok_def order_credited_def)
  show ?thesis unfolding topup(8)
  proof (rule settled_order_ok [OF assms(1) r])
    show "order_credited (credited_db r a db1) (paid_order r ext (paid_time clock paidAt))"
      using none t topup(4) by (simp add: order_credited_def credits_of_def)
    show "\<forall>t \<in> set (db_transactions (credited_db r a db1)). bt_Type t = TxTopUp \<longrightarrow> bt_RefID t \<le> length (db_orders db)"
      using assms(1) t order_id_bound [OF assms(1) r] by (auto simp: orders_ok_def)
  qed (use t get_or_create_other(4) [OF topup(7)] in \<open>simp_all add: credits_of_def\<close>)
next
  case (subscription r plan price endAt row db1)
  have r: "r \<in> set (db_orders db)" using subscription(2) find_order_Some by blast
  have same: "db_orders db1 = db_orders db" "db_transactions db1 = db_transactions db"
    using same_but_grant [OF subscription(10)] by (simp_all add: same_but_subscriptions_def)
  show ?thesis unfolding subscription(11)
    by (rule settled_order_ok [OF assms(1) r])
      (use assms(1) r same subscription(4) in \<open>auto simp: credits_of_def orders_ok_def order_credited_def\<close>)
qed (use assms in simp_all)

lemma checkout_orders_ok:
  assumes "orders_ok db" "update_payment_order_checkout no cid url db = (db', res)"
  shows "orders_ok db'"
proof (cases "trim_space no = []")
  case True
  then show ?thesis using assms by (simp add: update_payment_order_checkout_def)
next
  case False
  let ?f = "\<lambda>r. if po_OrderNo r = trim_space no
     then r\<lparr>po_ExternalCheckoutID := trim_space cid, po_CheckoutURL := trim_space url\<rparr> else r"
  have db': "db' = db\<lparr>db_orders := map ?f (db_orders db)\<rparr>"
    using False assms(2) by (simp add: update_payment_order_checkout_def update_orders_def Let_def)
  show ?thesis
  proof (rule map_orders_ok [OF assms(1), where f = ?f])
    fix x assume x: "x \<in> set (db_orders db)"
    have "order_credited db' (?f x) = order_credited db x" by (rule order_credited_cong) (simp_all add: db')
    with assms(1) x show "order_credited db' (?f x)" by (simp add: orders_ok_def)
  qed (use assms(1) in \<open>auto simp: db' orders_ok_def\<close>)
qed

section \<open>What keeps the books\<close>

lemma complete_books: "books_balance db \<Longrightarrow> complete_payment_order zone clock no ext t db = (db', res) \<Longrightarrow> books_balance db'"
  by (erule complete_cases) (auto simp: credited_books same_but_books dest: same_but_grant)

lemma complete_subscriptions:
  assumes "subscriptions_ok db" "complete_payment_order zone clock no ext t db = (db', res)"
  shows "subscriptions_ok db'"
  using assms(2)
proof (cases rule: complete_cases)
  case (topup r a db1)
  then show ?thesis
    using assms(1) get_or_create_other(7) [OF topup(7)]
    by (simp add: subscriptions_ok_def ids_ok_def credited_db_def add_transaction_def put_balance_def Let_def)
next
  case (subscription r plan price endAt row db1)
  have "subscriptions_ok db1"
    using subscription(10) assms(1) by (rule grant_subscriptions_ok) (simp only: subscription_grant_sel time_sub_max)
  then show ?thesis by (simp add: subscription(11) subscriptions_ok_def ids_ok_def)
qed (use assms in simp_all)

section \<open>Witnesses\<close>

definition sample_order :: "nat \<Rightarrow> string \<Rightarrow> order_type \<Rightarrow> billing_interval \<Rightarrow> payment_order" where
  "sample_order oid no kind interval = \<lparr>po_ID = oid, po_OrderNo = no, po_OrderType = kind, po_UserID = 5, po_PlanID = 2,
     po_PriceID = 2, po_Provider = ''stripe'', po_Status = ''pending'', po_BaseCurrency = ''USD'', po_BaseAmountCents = 100,
     po_PayCurrency = ''USD'', po_PayAmountCents = 100, po_FXRate = [], po_CreditNanousd = 100, po_BillingInterval = interval,
     po_Cycles = 1, po_ExternalPaymentID = [], po_ExternalCheckoutID = [], po_CheckoutURL = [], po_PaidAt = None,
     po_ExpiredAt = Some 1000, po_SnapshotJSON = []\<rparr>"

definition sample_order_db :: billing_db where
  "sample_order_db = sample_subscription_db\<lparr>db_orders := [sample_order 1 ''T1'' OrderTopUp Lifetime,
     sample_order 2 ''S1'' OrderSubscription Monthly, sample_order 3 ''L1'' OrderSubscription Lifetime]\<rparr>"

lemma sample_order_ok: "books_balance sample_order_db" "subscriptions_ok sample_order_db"
proof -
  show "books_balance sample_order_db"
    by (simp add: sample_order_db_def sample_subscription_db_def books_balance_empty)
  show "subscriptions_ok sample_order_db"
    using sample_subscriptions_ok by (simp add: sample_order_db_def subscriptions_ok_def ids_ok_def)
qed

definition sample_topped_up :: "billing_db \<times> (repo_error + payment_order \<times> bool)" where
  "sample_topped_up = complete_payment_order 0 50 ''T1'' [] 50 sample_order_db"

definition sample_extended :: "billing_db \<times> (repo_error + payment_order \<times> bool)" where
  "sample_extended = complete_payment_order 0 50 ''S1'' [] 50 sample_order_db"

lemma sample_topped_up_Inr: "\<exists>db' r. sample_topped_up = (db', Inr (r, True)) \<and> po_OrderType r = OrderTopUp \<and>
  po_UserID r = 5 \<and> po_CreditNanousd r = 100"
proof -
  have "case snd sample_topped_up of Inl _ \<Rightarrow> False | Inr (r, c) \<Rightarrow> c \<and> po_OrderType r = OrderTopUp \<and> po_UserID r = 5 \<and>
    po_CreditNanousd r = 100" by code_simp
  then show ?thesis by (auto simp: prod_eq_iff split: sum.splits)
qed

lemma sample_extended_Inr: "\<exists>db' r. sample_extended = (db', Inr (r, True)) \<and> po_OrderType r = OrderSubscription \<and>
  po_UserID r = 5 \<and> po_PlanID r = 2 \<and> po_BillingInterval r = Monthly \<and> po_Cycles r = 1"
proof -
  have "case snd sample_extended of Inl _ \<Rightarrow> False | Inr (r, c) \<Rightarrow> c \<and> po_OrderType r = OrderSubscription \<and>
    po_UserID r = 5 \<and> po_PlanID r = 2 \<and> po_BillingInterval r = Monthly \<and> po_Cycles r = 1" by code_simp
  then show ?thesis by (auto simp: prod_eq_iff split: sum.splits)
qed

theorem completed_order_is_final_witness:
  "\<exists>db' r. sample_topped_up = (db', Inr (r, True)) \<and> complete_payment_order 0 2000 ''T1'' ''x'' 0 db' = (db', Inr (r, False))"
proof -
  from sample_topped_up_Inr obtain db' r where r: "sample_topped_up = (db', Inr (r, True))" by blast
  with completed_order_is_final [OF r [unfolded sample_topped_up_def]] show ?thesis by blast
qed

theorem topup_credited_exactly_witness:
  "\<exists>db' r. sample_topped_up = (db', Inr (r, True)) \<and> balance_of 5 db' = 100 \<and> balance_of 6 db' = 0"
proof -
  from sample_topped_up_Inr obtain db' r where r: "sample_topped_up = (db', Inr (r, True))"
    "po_OrderType r = OrderTopUp" "po_UserID r = 5" "po_CreditNanousd r = 100" by blast
  have none: "balance_of v sample_order_db = 0" for v
    by (simp add: balance_of_def sample_order_db_def sample_subscription_db_def empty_db_def)
  have "wrap64 100 = 100" by (simp add: in_int64_def)
  with topup_credited_exactly [OF r(1) [unfolded sample_topped_up_def] r(2) sample_order_ok(1)] r none show ?thesis
    by (intro exI [of _ db'] exI [of _ r]) simp
qed

theorem subscription_order_extends_witness:
  "\<exists>db' r endAt. sample_extended = (db', Inr (r, True)) \<and> resolve_period_end 0 50 Monthly 1 = Some endAt \<and>
     remaining_time 2 5 50 db' = time_sub endAt 50 \<and> remaining_time 1 5 50 db' = 50"
proof -
  from sample_extended_Inr obtain db' r where r: "sample_extended = (db', Inr (r, True))"
    "po_OrderType r = OrderSubscription" "po_UserID r = 5" "po_PlanID r = 2" "po_BillingInterval r = Monthly" "po_Cycles r = 1" by blast
  have "remaining_time 1 5 50 sample_order_db = 50" "remaining_time 2 5 50 sample_order_db = 0" by code_simp+
  with subscription_order_extends [OF r(1) [unfolded sample_extended_def] r(2) sample_order_ok(2)] r show ?thesis
    by (auto simp: paid_time_def)
qed

theorem expired_order_stays_pending_witness:
  "complete_payment_order 0 2000 ''T1'' [] 0 sample_order_db = (sample_order_db, Inl InvalidInput)"
proof -
  have trim: "trim_space ''T1'' = ''T1''" by code_simp
  show ?thesis
    using expired_order_stays_pending [of sample_order_db "''T1''" "sample_order 1 ''T1'' OrderTopUp Lifetime" 2000 0 0 "[]"]
    by (simp add: trim find_order_def sample_order_db_def sample_order_def expired_before_def paid_time_def)
qed

theorem lifetime_order_never_granted_witness:
  "\<exists>err. complete_payment_order 0 50 ''L1'' [] 50 sample_order_db = (sample_order_db, Inl err)"
proof -
  have trim: "trim_space ''L1'' = ''L1''" by code_simp
  show ?thesis
    using lifetime_order_never_granted [of sample_order_db "''L1''" "sample_order 3 ''L1'' OrderSubscription Lifetime" 0 50 "[]" 50]
    by (simp add: trim find_order_def sample_order_db_def sample_order_def)
qed

end
