(* ===== verification/Redemptions.thy ===== *)
theory Redemptions
  imports Payments
begin

text \<open>
  Redemption codes: their administration, the checks of a redemption and its reward
  (\<^verbatim>\<open>infra/persistence/postgres/billing/repository.go\<close>, \<^verbatim>\<open>domain/billing/redemption.go\<close>).
\<close>

section \<open>Redemption codes\<close>

definition normalize_redemption_mode :: "string \<Rightarrow> code_mode" where
  "normalize_redemption_mode value0 = (if trim_space value0 = ''period'' then CodePeriod else CodeUsage)"

definition normalize_redemption_reward_type :: "string \<Rightarrow> reward_type" where
  "normalize_redemption_reward_type value0 =
     (if trim_space value0 = ''subscription'' then RewardSubscription else RewardBalance)"

definition normalize_redemption_status :: "string \<Rightarrow> code_status" where
  "normalize_redemption_status value0 =
     (if trim_space value0 = ''inactive'' then CodeInactive
      else if trim_space value0 = ''deleted'' then CodeDeleted else CodeActive)"

record code_input =
  ci_CodeHash :: string
  ci_CodeEncrypted :: string
  ci_CodeHint :: string
  ci_Mode :: string
  ci_RewardType :: string
  ci_CreditNanousd :: int
  ci_PlanID :: nat
  ci_DurationDays :: int
  ci_MaxRedemptions :: "int option"
  ci_PerUserLimit :: int
  ci_Status :: string
  ci_ExpiresAt :: "gtime option"
  ci_Description :: string
  ci_CreatedByUserID :: nat

definition find_code :: "(redemption_code \<Rightarrow> bool) \<Rightarrow> billing_db \<Rightarrow> redemption_code option" where
  "find_code hit db = find hit (db_codes db)"

definition update_code :: "nat \<Rightarrow> (redemption_code \<Rightarrow> redemption_code) \<Rightarrow> billing_db \<Rightarrow> billing_db" where
  "update_code cid f db = db\<lparr>db_codes := map (\<lambda>c. if rc_ID c = cid then f c else c) (db_codes db)\<rparr>"

definition create_redemption_code :: "code_input \<Rightarrow> billing_db \<Rightarrow> billing_db \<times> (repo_error + redemption_code)" where
  "create_redemption_code i db =
     (if trim_space (ci_CodeHash i) = [] then (db, Inl InvalidInput)
      else if find_code (\<lambda>c. rc_CodeHash c = trim_space (ci_CodeHash i)) db \<noteq> None then (db, Inl Duplicate)
      else
        let row = \<lparr>rc_ID = Suc (length (db_codes db)), rc_CodeHash = trim_space (ci_CodeHash i),
              rc_CodeEncrypted = trim_space (ci_CodeEncrypted i), rc_CodeHint = trim_space (ci_CodeHint i),
              rc_Mode = normalize_redemption_mode (ci_Mode i),
              rc_RewardType = normalize_redemption_reward_type (ci_RewardType i),
              rc_CreditNanousd = clamp_non_negative (ci_CreditNanousd i), rc_PlanID = ci_PlanID i,
              rc_DurationDays = ci_DurationDays i, rc_MaxRedemptions = ci_MaxRedemptions i,
              rc_PerUserLimit = (if ci_PerUserLimit i \<le> 0 then 1 else ci_PerUserLimit i), rc_RedeemedCount = 0,
              rc_Status = normalize_redemption_status (ci_Status i), rc_ExpiresAt = ci_ExpiresAt i,
              rc_Description = trim_space (ci_Description i), rc_CreatedByUserID = ci_CreatedByUserID i\<rparr>
        in (db\<lparr>db_codes := db_codes db @ [row]\<rparr>, Inr row))"

text \<open>\<open>None\<close> leaves a field as it is; the limits and the expiry can be set to none.\<close>

record code_patch =
  cp_Status :: "string option"
  cp_MaxRedemptions :: "int option option"
  cp_PerUserLimit :: "int option"
  cp_ExpiresAt :: "gtime option option"
  cp_Description :: "string option"

definition patched_code :: "code_patch \<Rightarrow> redemption_code \<Rightarrow> redemption_code" where
  "patched_code p c = c\<lparr>
     rc_Status := (case cp_Status p of None \<Rightarrow> rc_Status c | Some s \<Rightarrow> normalize_redemption_status s),
     rc_MaxRedemptions := (case cp_MaxRedemptions p of None \<Rightarrow> rc_MaxRedemptions c | Some m \<Rightarrow> m),
     rc_PerUserLimit := (case cp_PerUserLimit p of None \<Rightarrow> rc_PerUserLimit c | Some l \<Rightarrow> l),
     rc_ExpiresAt := (case cp_ExpiresAt p of None \<Rightarrow> rc_ExpiresAt c | Some e \<Rightarrow> e),
     rc_Description := (case cp_Description p of None \<Rightarrow> rc_Description c | Some d \<Rightarrow> trim_space d)\<rparr>"

definition patch_allowed :: "code_patch \<Rightarrow> redemption_code \<Rightarrow> bool" where
  "patch_allowed p c \<longleftrightarrow>
     (case cp_MaxRedemptions p of Some (Some m) \<Rightarrow> \<not> (m \<le> 0 \<or> m < rc_RedeemedCount c) | _ \<Rightarrow> True) \<and>
     (case cp_PerUserLimit p of Some l \<Rightarrow> \<not> l \<le> 0 | None \<Rightarrow> True) \<and>
     (case rc_MaxRedemptions (patched_code p c) of Some m \<Rightarrow> \<not> rc_PerUserLimit (patched_code p c) > m | None \<Rightarrow> True)"

definition patch_body :: "nat \<Rightarrow> code_patch \<Rightarrow> redemption_code tx" where
  "patch_body cid p db =
     (case find_code (\<lambda>c. rc_ID c = cid \<and> rc_Status c \<noteq> CodeDeleted) db of None \<Rightarrow> Inl NotFound
      | Some c \<Rightarrow> if \<not> patch_allowed p c then Inl InvalidInput else Inr (patched_code p c, update_code cid (patched_code p) db))"

definition patch_redemption_code :: "nat \<Rightarrow> code_patch \<Rightarrow> billing_db \<Rightarrow> billing_db \<times> (repo_error + redemption_code)" where
  "patch_redemption_code cid p db = (if cid = 0 then (db, Inl InvalidInput) else run_tx (patch_body cid p) db)"

definition delete_redemption_code :: "nat \<Rightarrow> billing_db \<Rightarrow> billing_db \<times> (repo_error + unit)" where
  "delete_redemption_code cid db =
     (if cid = 0 then (db, Inl InvalidInput)
      else if find_code (\<lambda>c. rc_ID c = cid \<and> rc_Status c \<noteq> CodeDeleted) db = None then (db, Inl NotFound)
      else (update_code cid (\<lambda>c. if rc_Status c \<noteq> CodeDeleted then c\<lparr>rc_Status := CodeDeleted\<rparr> else c) db, Inr ()))"

definition mode_available_in_billing_mode :: "code_mode \<Rightarrow> string \<Rightarrow> bool" where
  "mode_available_in_billing_mode mode billingMode =
     (if trim_space billingMode = ''usage'' then mode = CodeUsage else trim_space billingMode = ''period'')"

definition redemptions_of :: "billing_db \<Rightarrow> nat \<Rightarrow> redemption list" where
  "redemptions_of db cid = filter (\<lambda>r. rd_CodeID r = cid) (db_redemptions db)"

definition validate_redeemable_code :: "billing_db \<Rightarrow> redemption_code \<Rightarrow> nat \<Rightarrow> string \<Rightarrow> gtime \<Rightarrow> repo_error option" where
  "validate_redeemable_code db c u currentMode now =
     (if rc_Status c \<noteq> CodeActive \<or> \<not> mode_available_in_billing_mode (rc_Mode c) currentMode \<or>
         (case rc_ExpiresAt c of None \<Rightarrow> False | Some e \<Rightarrow> \<not> e > now) then Some RedemptionUnavailable
      else if (case rc_MaxRedemptions c of None \<Rightarrow> False | Some m \<Rightarrow> rc_RedeemedCount c \<ge> m) then Some RedemptionExhausted
      else
        let perUserLimit = (if rc_PerUserLimit c \<le> 0 then 1 else rc_PerUserLimit c);
            userCount = int (length (filter (\<lambda>r. rd_UserID r = u) (redemptions_of db (rc_ID c))))
        in if userCount \<ge> perUserLimit then Some RedemptionUserLimitExceeded
           else case rc_Mode c of
             CodeUsage \<Rightarrow> if rc_RewardType c \<noteq> RewardBalance \<or> rc_CreditNanousd c \<le> 0 then Some InvalidInput else None
           | CodePeriod \<Rightarrow> if rc_RewardType c \<noteq> RewardSubscription \<or> rc_PlanID c = 0 then Some InvalidInput else None)"

definition days_duration :: "int \<Rightarrow> duration" where
  "days_duration days = wrap64 (wrap64 (days * 24) * go_hour)"

definition apply_redemption_subscription :: "gtime \<Rightarrow> nat \<Rightarrow> redemption_code \<Rightarrow> gtime \<Rightarrow> subscription tx" where
  "apply_redemption_subscription clock u c now db =
     (case or_not_found (find (\<lambda>p. bp_ID p = rc_PlanID c \<and> bp_IsActive p) (db_plans db)) of Inl err \<Rightarrow> Inl err
      | Inr plan \<Rightarrow> (case active_default_price_for_plan db (bp_ID plan) of Inl err \<Rightarrow> Inl err
      | Inr price \<Rightarrow>
          if rc_DurationDays c \<le> 0 then Inl InvalidInput
          else grant_subscription_on_timeline clock \<lparr>gq_UserID = u, gq_Plan = plan, gq_Price = price, gq_StartAt = now,
            gq_Duration = days_duration (rc_DurationDays c), gq_CancelAtPeriodEnd = False, gq_AutoRenew = False,
            gq_NewGrant = True\<rparr> db))"

text \<open>The balance transaction or the subscription of the reward.\<close>

definition apply_reward :: "gtime \<Rightarrow> nat \<Rightarrow> redemption_code \<Rightarrow> gtime \<Rightarrow> string \<Rightarrow> (nat \<times> nat) tx" where
  "apply_reward clock u c now refNo db =
     (case rc_RewardType c of
        RewardBalance \<Rightarrow> map_sum id (\<lambda>((a, txID), db). ((txID, 0), db))
          (reward_body TxRedemption u (rc_CreditNanousd c) ''redemption_code'' (rc_ID c) refNo db)
      | RewardSubscription \<Rightarrow> map_sum id (\<lambda>(s, db). ((0, sb_ID s), db)) (apply_redemption_subscription clock u c now db))"

definition redeem_body :: "gtime \<Rightarrow> string \<Rightarrow> nat \<Rightarrow> string \<Rightarrow> string \<Rightarrow> gtime \<Rightarrow> redemption tx" where
  "redeem_body clock codeHash u currentMode refNo now db0 =
     (case find_code (\<lambda>c. rc_CodeHash c = codeHash) db0 of None \<Rightarrow> Inl RedemptionUnavailable
      | Some c \<Rightarrow> (case validate_redeemable_code db0 c u (trim_space currentMode) now of Some err \<Rightarrow> Inl err
      | None \<Rightarrow> (case apply_reward clock u c now (trim_space refNo) db0 of Inl err \<Rightarrow> Inl err
      | Inr ((txID, subscriptionID), db) \<Rightarrow>
          let row = \<lparr>rd_CodeID = rc_ID c, rd_UserID = u, rd_Mode = rc_Mode c, rd_RewardType = rc_RewardType c,
                rd_CreditNanousd = rc_CreditNanousd c, rd_PlanID = rc_PlanID c, rd_SubscriptionID = subscriptionID,
                rd_BalanceTransactionID = txID, rd_RefNo = trim_space refNo\<rparr>
          in Inr (row, update_code (rc_ID c) (\<lambda>c. c\<lparr>rc_RedeemedCount := rc_RedeemedCount c + 1\<rparr>)
               (db\<lparr>db_redemptions := db_redemptions db @ [row]\<rparr>)))))"

definition redeem_code ::
    "gtime \<Rightarrow> string \<Rightarrow> nat \<Rightarrow> string \<Rightarrow> string \<Rightarrow> gtime \<Rightarrow> billing_db \<Rightarrow> billing_db \<times> (repo_error + redemption)" where
  "redeem_code clock codeHash0 u currentMode refNo subscriptionAt db =
     (let codeHash = trim_space codeHash0; now = (if is_zero subscriptionAt then clock else subscriptionAt) in
      if codeHash = [] \<or> u = 0 then (db, Inl InvalidInput)
      else run_tx (redeem_body clock codeHash u currentMode refNo now) db)"

section \<open>Rewards\<close>

lemma reward_body_Inr:
  assumes "reward_body kind u amount refType rid no db = Inr ((account, txID), db')"
  obtains a db1 t where "get_or_create_billing_account u db = Inr (a, db1)" "in_int64 (ba_BalanceNanousd a + amount)"
    "db' = add_transaction t (put_balance a (ba_BalanceNanousd a + amount) db1)"
    "bt_Type t = kind" "bt_UserID t = u" "bt_AmountNanousd t = amount" "bt_RefID t = rid"
    "bt_BalanceAfterNanousd t = ba_BalanceNanousd a + amount" "txID = Suc (length (db_transactions db))"
proof -
  from assms obtain a db1 b db2 where acc: "get_or_create_billing_account u db = Inr (a, db1)"
    and add: "add_balance a amount db1 = Inr (b, db2)"
    by (auto simp: reward_body_def split: sum.splits prod.splits)
  let ?t = "\<lparr>bt_AccountID = ba_ID a, bt_UserID = u, bt_Type = kind, bt_AmountNanousd = amount,
                bt_BalanceAfterNanousd = b, bt_RefType = refType, bt_RefID = rid, bt_RefNo = trim_space no\<rparr>"
  from assms have "db' = add_transaction ?t db2 \<and> txID = length (db_transactions (add_transaction ?t db2))"
    by (auto simp: reward_body_def acc add Let_def split: option.splits)
  with acc add show thesis
    by (intro that [of a db1 ?t]) (auto simp: add_balance_Inr add_transaction_def put_balance_def get_or_create_other(3) [OF acc])
qed

lemma reward_spec:
  assumes "reward_body kind u amount refType rid no db = Inr ((account, txID), db')"
  shows "\<exists>t. db_transactions db' = db_transactions db @ [t] \<and> bt_Type t = kind \<and> bt_UserID t = u \<and>
      bt_AmountNanousd t = amount \<and> bt_RefID t = rid"
    and "txID = length (db_transactions db')" "db_codes db' = db_codes db" "db_redemptions db' = db_redemptions db"
    "db_orders db' = db_orders db" "db_reservations db' = db_reservations db" "db_ledger db' = db_ledger db"
    "db_subscriptions db' = db_subscriptions db"
    and "books_balance db \<Longrightarrow> books_balance db' \<and>
      balance_of v db' = (if v = u then balance_of u db + amount else balance_of v db)"
proof -
  from assms obtain a db1 t where acc: "get_or_create_billing_account u db = Inr (a, db1)"
    and db': "db' = add_transaction t (put_balance a (ba_BalanceNanousd a + amount) db1)"
    and fits: "in_int64 (ba_BalanceNanousd a + amount)"
    and t: "bt_Type t = kind" "bt_UserID t = u" "bt_AmountNanousd t = amount" "bt_RefID t = rid"
      "bt_BalanceAfterNanousd t = ba_BalanceNanousd a + amount" "txID = Suc (length (db_transactions db))"
    by (rule reward_body_Inr)
  note same = get_or_create_other [OF acc]
  show "\<exists>t. db_transactions db' = db_transactions db @ [t] \<and> bt_Type t = kind \<and> bt_UserID t = u \<and>
      bt_AmountNanousd t = amount \<and> bt_RefID t = rid"
    using t same(3) by (simp add: db' add_transaction_def put_balance_def)
  show "txID = length (db_transactions db')" "db_codes db' = db_codes db" "db_redemptions db' = db_redemptions db"
    "db_orders db' = db_orders db" "db_reservations db' = db_reservations db" "db_ledger db' = db_ledger db"
    "db_subscriptions db' = db_subscriptions db"
    using t same by (simp_all add: db' add_transaction_def put_balance_def)
  assume books: "books_balance db"
  note acc = get_or_create_books [OF acc books]
  then have "books_balance db'"
    unfolding db' using t fits by (intro posting_books [where u = u and a = a]) simp_all
  moreover have "balance_of v db' = (if v = u then balance_of u db + amount else balance_of v db)"
    using acc [of u] acc [of v] by (simp add: db' balance_of_def add_transaction_def put_balance_def)
  ultimately show "books_balance db' \<and> balance_of v db' = (if v = u then balance_of u db + amount else balance_of v db)" ..
qed

lemma redemption_subscription_Inr:
  assumes "apply_redemption_subscription clock u c now db = Inr (row, db')"
  obtains plan price where "bp_ID plan = rc_PlanID c" "bp_IsActive plan" "0 < rc_DurationDays c"
    "grant_subscription_on_timeline clock \<lparr>gq_UserID = u, gq_Plan = plan, gq_Price = price, gq_StartAt = now,
       gq_Duration = days_duration (rc_DurationDays c), gq_CancelAtPeriodEnd = False, gq_AutoRenew = False,
       gq_NewGrant = True\<rparr> db = Inr (row, db')"
proof -
  let ?plan = "find (\<lambda>p. bp_ID p = rc_PlanID c \<and> bp_IsActive p) (db_plans db)"
  obtain plan where plan: "?plan = Some plan"
    using assms by (cases ?plan) (simp_all add: apply_redemption_subscription_def or_not_found_def)
  have of_plan: "bp_ID plan = rc_PlanID c" "bp_IsActive plan" using find_first [OF plan] by simp_all
  obtain price where price: "active_default_price_for_plan db (rc_PlanID c) = Inr price"
    using assms by (cases "active_default_price_for_plan db (rc_PlanID c)")
      (simp_all add: apply_redemption_subscription_def or_not_found_def plan of_plan)
  have "\<not> rc_DurationDays c \<le> 0"
    using assms by (auto simp: apply_redemption_subscription_def or_not_found_def plan price of_plan)
  with assms that [of plan price] show thesis
    by (simp add: apply_redemption_subscription_def or_not_found_def plan price of_plan)
qed

lemma apply_reward_cases:
  assumes "apply_reward clock u c now no db = Inr ((txID, subscriptionID), db')"
  obtains (balance) account where "rc_RewardType c = RewardBalance" "subscriptionID = 0"
      "reward_body TxRedemption u (rc_CreditNanousd c) ''redemption_code'' (rc_ID c) no db = Inr ((account, txID), db')"
  | (subscription) row where "rc_RewardType c = RewardSubscription" "txID = 0" "subscriptionID = sb_ID row"
      "apply_redemption_subscription clock u c now db = Inr (row, db')"
proof (cases "rc_RewardType c")
  case RewardBalance
  let ?r = "reward_body TxRedemption u (rc_CreditNanousd c) ''redemption_code'' (rc_ID c) no db"
  show thesis
  proof (cases ?r)
    case (Inr x)
    obtain account tx db1 where x: "x = ((account, tx), db1)" by (metis prod.collapse)
    with assms RewardBalance Inr balance show thesis by (simp add: apply_reward_def)
  qed (use assms RewardBalance in \<open>simp add: apply_reward_def\<close>)
next
  case RewardSubscription
  show thesis
  proof (cases "apply_redemption_subscription clock u c now db")
    case (Inr x)
    obtain row db1 where x: "x = (row, db1)" by (cases x)
    with assms RewardSubscription Inr show thesis
      by (intro subscription [of row]) (auto simp: apply_reward_def)
  qed (use assms RewardSubscription in \<open>simp add: apply_reward_def\<close>)
qed

lemma apply_reward_other:
  assumes "apply_reward clock u c now no db = Inr ((txID, subscriptionID), db')"
  shows "db_codes db' = db_codes db \<and> db_redemptions db' = db_redemptions db \<and> db_orders db' = db_orders db \<and>
    db_reservations db' = db_reservations db \<and> db_ledger db' = db_ledger db \<and>
    (db_transactions db' = db_transactions db \<or>
      (\<exists>t. db_transactions db' = db_transactions db @ [t] \<and> bt_Type t \<noteq> TxTopUp)) \<and>
    (books_balance db \<longrightarrow> books_balance db') \<and> (subscriptions_ok db \<longrightarrow> subscriptions_ok db')"
  using assms
proof (cases rule: apply_reward_cases)
  case (balance account)
  note spec = reward_spec [OF balance(3)]
  from spec(1) have "\<exists>t. db_transactions db' = db_transactions db @ [t] \<and> bt_Type t \<noteq> TxTopUp" by auto
  with spec(3-9) show ?thesis by (simp add: subscriptions_ok_def ids_ok_def)
next
  case (subscription row)
  from subscription(4) obtain plan price where
    grant: "grant_subscription_on_timeline clock \<lparr>gq_UserID = u, gq_Plan = plan, gq_Price = price, gq_StartAt = now,
       gq_Duration = days_duration (rc_DurationDays c), gq_CancelAtPeriodEnd = False, gq_AutoRenew = False,
       gq_NewGrant = True\<rparr> db = Inr (row, db')" by (rule redemption_subscription_Inr)
  note same = same_but_grant [OF grant]
  have "in_int64 (days_duration (rc_DurationDays c))" by (simp add: days_duration_def)
  then have max: "days_duration (rc_DurationDays c) \<le> int64_max" by (simp only: in_int64_def)
  have "subscriptions_ok db \<longrightarrow> subscriptions_ok db'"
    using grant_subscriptions_ok [OF grant] max by (simp del: in_int64_def)
  with same show ?thesis by (simp add: same_but_books(1) [OF same]) (simp add: same_but_subscriptions_def)
qed

section \<open>The codes of a database\<close>

text \<open>
  Identifiers are positions and hashes are unique, a code counts its redemptions, and has no more of
  them than its limit allows.
\<close>

definition code_counted :: "billing_db \<Rightarrow> redemption_code \<Rightarrow> bool" where
  "code_counted db c \<longleftrightarrow> rc_RedeemedCount c = int (length (redemptions_of db (rc_ID c))) \<and>
     (case rc_MaxRedemptions c of None \<Rightarrow> True | Some m \<Rightarrow> rc_RedeemedCount c \<le> max 0 m)"

definition codes_ok :: "billing_db \<Rightarrow> bool" where
  "codes_ok db \<longleftrightarrow>
     map rc_ID (db_codes db) = map Suc [0..<length (db_codes db)] \<and>
     distinct (map rc_CodeHash (db_codes db)) \<and>
     (\<forall>c \<in> set (db_codes db). code_counted db c) \<and>
     (\<forall>r \<in> set (db_redemptions db). rd_CodeID r \<le> length (db_codes db))"

lemma codes_ok_empty: "codes_ok empty_db"
  by (simp add: codes_ok_def empty_db_def)

lemma codes_ok_cong:
  "codes_ok db \<Longrightarrow> db_codes db' = db_codes db \<Longrightarrow> db_redemptions db' = db_redemptions db \<Longrightarrow> codes_ok db'"
  by (simp add: codes_ok_def code_counted_def redemptions_of_def)

lemma find_code_Some: "find_code hit db = Some c \<Longrightarrow> c \<in> set (db_codes db) \<and> hit c"
  by (auto simp: find_code_def find_Some_iff)

lemma code_by_id:
  assumes "codes_ok db" "c \<in> set (db_codes db)" "c' \<in> set (db_codes db)" "rc_ID c = rc_ID c'"
  shows "c = c'"
proof -
  have "distinct (map rc_ID (db_codes db))" using assms(1) by (simp add: codes_ok_def distinct_map)
  with assms show ?thesis by (auto simp: distinct_map dest: inj_onD)
qed

lemma code_id_bound:
  assumes "codes_ok db" "c \<in> set (db_codes db)"
  shows "0 < rc_ID c \<and> rc_ID c \<le> length (db_codes db)"
proof -
  have "rc_ID c \<in> set (map Suc [0..<length (db_codes db)])"
    using assms by (metis codes_ok_def image_eqI list.set_map)
  then show ?thesis by auto
qed

text \<open>An update of one code.\<close>

lemma update_code_ok:
  assumes "codes_ok db" "\<And>c. rc_ID (f c) = rc_ID c \<and> rc_CodeHash (f c) = rc_CodeHash c"
    and "\<And>c. c \<in> set (db_codes db) \<Longrightarrow> code_counted (db\<lparr>db_redemptions := rs\<rparr>) (if rc_ID c = cid then f c else c)"
    and "\<forall>r \<in> set rs. rd_CodeID r \<le> length (db_codes db)"
  shows "codes_ok (update_code cid f (db\<lparr>db_redemptions := rs\<rparr>))"
proof -
  let ?f = "\<lambda>c. if rc_ID c = cid then f c else c" and ?db = "update_code cid f (db\<lparr>db_redemptions := rs\<rparr>)"
  have rows: "db_codes ?db = map ?f (db_codes db)" "db_redemptions ?db = rs" by (simp_all add: update_code_def)
  have "map rc_ID (map ?f cs) = map rc_ID cs" "map rc_CodeHash (map ?f cs) = map rc_CodeHash cs" for cs
    using assms(2) by simp_all
  moreover have "\<forall>c \<in> set (map ?f (db_codes db)). code_counted ?db c"
  proof
    fix c assume "c \<in> set (map ?f (db_codes db))"
    then obtain c0 where "c0 \<in> set (db_codes db)" "c = ?f c0" by auto
    with assms(3) [of c0] show "code_counted ?db c" by (simp add: code_counted_def redemptions_of_def rows)
  qed
  ultimately show ?thesis
    using assms(1,4) unfolding codes_ok_def rows by (simp del: map_map set_map)
qed

lemma update_code_only_ok:
  assumes "codes_ok db" "\<And>c. rc_ID (f c) = rc_ID c \<and> rc_CodeHash (f c) = rc_CodeHash c"
    and "\<And>c. c \<in> set (db_codes db) \<Longrightarrow> rc_ID c = cid \<Longrightarrow> code_counted db (f c)"
  shows "codes_ok (update_code cid f db)"
proof -
  have "codes_ok (update_code cid f (db\<lparr>db_redemptions := db_redemptions db\<rparr>))"
    using assms by (intro update_code_ok) (auto simp: codes_ok_def)
  then show ?thesis by simp
qed

lemma create_code_ok:
  assumes "codes_ok db" "create_redemption_code i db = (db', res)"
  shows "codes_ok db'"
proof (cases "db' = db")
  case False
  then obtain row where db': "db' = db\<lparr>db_codes := db_codes db @ [row]\<rparr>" and row: "rc_ID row = Suc (length (db_codes db))"
    "rc_RedeemedCount row = 0" "find_code (\<lambda>c. rc_CodeHash c = rc_CodeHash row) db = None"
    using assms(2) by (auto simp: create_redemption_code_def Let_def simp del: not_None_eq split: if_splits)
  have "redemptions_of db (rc_ID row) = []"
    using assms(1) row(1) by (force simp: redemptions_of_def codes_ok_def filter_empty_conv)
  then have "code_counted db' row"
    using row(2) by (simp add: code_counted_def db' redemptions_of_def split: option.split)
  moreover have "\<forall>c \<in> set (db_codes db). code_counted db' c"
    using assms(1) by (simp add: codes_ok_def code_counted_def db' redemptions_of_def)
  moreover have "rc_CodeHash row \<notin> set (map rc_CodeHash (db_codes db))"
    using row(3) by (auto simp: find_code_def find_None_iff)
  ultimately show ?thesis using assms(1) row(1) by (auto simp: codes_ok_def db')
qed (use assms in simp)

lemma patch_code_ok:
  assumes "codes_ok db" "patch_redemption_code cid p db = (db', res)"
  shows "codes_ok db'"
proof (cases "cid = 0")
  case False
  with assms(2) have "run_tx (patch_body cid p) db = (db', res)" by (simp add: patch_redemption_code_def)
  then show ?thesis
  proof (cases rule: run_tx_cases)
    case (commit x)
    then obtain c where c: "find_code (\<lambda>c. rc_ID c = cid \<and> rc_Status c \<noteq> CodeDeleted) db = Some c"
      and ok: "patch_allowed p c" and db': "db' = update_code cid (patched_code p) db"
      by (auto simp: patch_body_def split: option.splits if_splits)
    note c = find_code_Some [OF c]
    show ?thesis unfolding db'
    proof (rule update_code_only_ok [OF assms(1)])
      fix c' assume "c' \<in> set (db_codes db)" "rc_ID c' = cid"
      then have "c' = c" using code_by_id [OF assms(1)] c by blast
      moreover have "code_counted db c" using assms(1) c by (simp add: codes_ok_def)
      ultimately show "code_counted db (patched_code p c')"
        using ok by (auto simp: code_counted_def patched_code_def patch_allowed_def split: option.splits)
    qed (simp add: patched_code_def)
  qed (use assms in simp)
qed (use assms in \<open>simp add: patch_redemption_code_def\<close>)

lemma delete_code_ok:
  assumes "codes_ok db" "delete_redemption_code cid db = (db', res)"
  shows "codes_ok db'"
proof (cases "db' = db")
  case False
  let ?f = "\<lambda>c. if rc_Status c \<noteq> CodeDeleted then c\<lparr>rc_Status := CodeDeleted\<rparr> else c"
  have db': "db' = update_code cid ?f db"
    using False assms(2) by (auto simp: delete_redemption_code_def split: if_splits)
  show ?thesis unfolding db'
  proof (rule update_code_only_ok [OF assms(1)])
    fix c assume "c \<in> set (db_codes db)"
    then have "code_counted db c" using assms(1) by (simp add: codes_ok_def)
    then show "code_counted db (?f c)" by (auto simp: code_counted_def split: option.splits)
  qed simp
qed (use assms in simp)

section \<open>Redeeming\<close>

lemma redeem_cases:
  assumes "redeem_code clock h u mode no when db = (db', res)"
  obtains (error) err where "res = Inl err" "db' = db"
  | (redeemed) c row txID subscriptionID db1 where "res = Inr row"
      "find_code (\<lambda>c. rc_CodeHash c = trim_space h) db = Some c"
      "validate_redeemable_code db c u (trim_space mode) (paid_time clock when) = None"
      "apply_reward clock u c (paid_time clock when) (trim_space no) db = Inr ((txID, subscriptionID), db1)"
      "rd_CodeID row = rc_ID c" "rd_UserID row = u" "rd_CreditNanousd row = rc_CreditNanousd c" "rd_PlanID row = rc_PlanID c"
      "rd_BalanceTransactionID row = txID" "rd_SubscriptionID row = subscriptionID"
      "db' = update_code (rc_ID c) (\<lambda>c. c\<lparr>rc_RedeemedCount := rc_RedeemedCount c + 1\<rparr>)
         (db1\<lparr>db_redemptions := db_redemptions db @ [row]\<rparr>)"
proof (cases "trim_space h = [] \<or> u = 0")
  case True
  then show thesis using assms error by (auto simp: redeem_code_def Let_def)
next
  case False
  with assms have "run_tx (redeem_body clock (trim_space h) u mode no (paid_time clock when)) db = (db', res)"
    by (simp add: redeem_code_def Let_def paid_time_def)
  then show thesis
  proof (cases rule: run_tx_cases)
    case (commit row)
    obtain c where c: "find_code (\<lambda>c. rc_CodeHash c = trim_space h) db = Some c"
      using commit(1) by (cases "find_code (\<lambda>c. rc_CodeHash c = trim_space h) db") (simp_all add: redeem_body_def)
    have valid: "validate_redeemable_code db c u (trim_space mode) (paid_time clock when) = None"
      using commit(1) by (cases "validate_redeemable_code db c u (trim_space mode) (paid_time clock when)")
        (simp_all add: redeem_body_def c)
    obtain txID subscriptionID db1 where
      reward: "apply_reward clock u c (paid_time clock when) (trim_space no) db = Inr ((txID, subscriptionID), db1)"
      using commit(1) by (cases "apply_reward clock u c (paid_time clock when) (trim_space no) db")
        (auto simp: redeem_body_def c valid)
    have "db_redemptions db1 = db_redemptions db" using apply_reward_other [OF reward] by simp
    with commit show thesis
      by (intro redeemed [OF _ c valid reward, of row]) (auto simp: redeem_body_def c valid reward Let_def)
  qed (rule error)
qed

lemma if_None: "(if b then Some x else y) = None \<longleftrightarrow> \<not> b \<and> y = None"
  by simp

lemma valid_code:
  assumes "validate_redeemable_code db c u mode now = None"
  shows "rc_Status c = CodeActive" "mode_available_in_billing_mode (rc_Mode c) mode"
    "rc_ExpiresAt c = Some e \<Longrightarrow> now < e" "rc_MaxRedemptions c = Some m \<Longrightarrow> rc_RedeemedCount c < m"
    "int (length (filter (\<lambda>r. rd_UserID r = u) (redemptions_of db (rc_ID c)))) < max 1 (rc_PerUserLimit c)"
    "rc_Mode c = CodeUsage \<Longrightarrow> rc_RewardType c = RewardBalance \<and> 0 < rc_CreditNanousd c"
    "rc_Mode c = CodePeriod \<Longrightarrow> rc_RewardType c = RewardSubscription \<and> rc_PlanID c \<noteq> 0"
proof -
  note v = assms [unfolded validate_redeemable_code_def Let_def if_None]
  show "rc_Status c = CodeActive" "mode_available_in_billing_mode (rc_Mode c) mode" using v by blast+
  show "rc_ExpiresAt c = Some e \<Longrightarrow> now < e" "rc_MaxRedemptions c = Some m \<Longrightarrow> rc_RedeemedCount c < m" using v by simp_all
  show "int (length (filter (\<lambda>r. rd_UserID r = u) (redemptions_of db (rc_ID c)))) < max 1 (rc_PerUserLimit c)"
  proof -
    have less: "\<not> n \<ge> (if l \<le> 0 then 1 else l) \<Longrightarrow> n < max 1 l" for n l :: int by (auto split: if_splits)
    show ?thesis using v by (intro less) blast
  qed
  show "rc_Mode c = CodeUsage \<Longrightarrow> rc_RewardType c = RewardBalance \<and> 0 < rc_CreditNanousd c"
    "rc_Mode c = CodePeriod \<Longrightarrow> rc_RewardType c = RewardSubscription \<and> rc_PlanID c \<noteq> 0"
    using v by (auto split: if_splits)
qed

lemma redeem_ok:
  assumes "codes_ok db" "redeem_code clock h u mode no when db = (db', res)"
  shows "codes_ok db'"
  using assms(2)
proof (cases rule: redeem_cases)
  case (redeemed c row txID subscriptionID db1)
  note c = find_code_Some [OF redeemed(2)]
  have codes: "db_codes db1 = db_codes db" and reds: "db_redemptions db1 = db_redemptions db"
    using apply_reward_other [OF redeemed(4)] by blast+
  have ok1: "codes_ok db1" by (rule codes_ok_cong [OF assms(1) codes reds])
  let ?rs = "db_redemptions db @ [row]"
  note open_limit = valid_code(4) [OF redeemed(3)]
  show ?thesis unfolding redeemed(11)
  proof (rule update_code_ok [OF ok1])
    fix c' assume c': "c' \<in> set (db_codes db1)"
    then have counted: "code_counted db c'" using assms(1) codes by (simp add: codes_ok_def)
    show "code_counted (db1\<lparr>db_redemptions := ?rs\<rparr>)
        (if rc_ID c' = rc_ID c then c'\<lparr>rc_RedeemedCount := rc_RedeemedCount c' + 1\<rparr> else c')"
    proof (cases "rc_ID c' = rc_ID c")
      case True
      with code_by_id [OF assms(1)] c c' codes have "c' = c" by simp
      with counted open_limit show ?thesis
        by (auto simp: code_counted_def redemptions_of_def redeemed(5) split: option.splits)
    next
      case False
      with counted show ?thesis by (simp add: code_counted_def redemptions_of_def redeemed(5))
    qed
  qed (use assms(1) codes code_id_bound [OF assms(1)] c redeemed(5) in \<open>auto simp: codes_ok_def\<close>)
qed (use assms in simp)

text \<open>
  C21: A redemption that succeeds was of an active code that had not expired, is recorded for its user, and
  keeps the number of redemptions of the code, and of the user among them, within the limits of the code.
\<close>

theorem redemption_within_limits:
  assumes "redeem_code clock h u mode no when db = (db', Inr row)" "codes_ok db"
  shows "\<exists>c. find_code (\<lambda>c. rc_CodeHash c = trim_space h) db = Some c \<and> rc_Status c = CodeActive \<and>
    (\<forall>e. rc_ExpiresAt c = Some e \<longrightarrow> paid_time clock when < e) \<and>
    db_redemptions db' = db_redemptions db @ [row] \<and> rd_CodeID row = rc_ID c \<and> rd_UserID row = u \<and>
    (\<forall>m. rc_MaxRedemptions c = Some m \<longrightarrow> int (length (redemptions_of db' (rc_ID c))) \<le> m) \<and>
    int (length (filter (\<lambda>r. rd_UserID r = u) (redemptions_of db' (rc_ID c)))) \<le> max 1 (rc_PerUserLimit c)"
  using assms(1)
proof (cases rule: redeem_cases)
  case (redeemed c row' txID subscriptionID db1)
  note valid = valid_code [OF redeemed(3)] and c = find_code_Some [OF redeemed(2)]
  have row: "row' = row" using redeemed(1) by simp
  have reds: "db_redemptions db' = db_redemptions db @ [row]" by (simp add: redeemed(11) update_code_def row)
  have of_c: "redemptions_of db' (rc_ID c) = redemptions_of db (rc_ID c) @ [row]"
    using redeemed(5) by (simp add: redemptions_of_def reds row)
  have "rc_RedeemedCount c = int (length (redemptions_of db (rc_ID c)))"
    using assms(2) c by (simp add: codes_ok_def code_counted_def)
  then have "rc_MaxRedemptions c = Some m \<Longrightarrow> int (length (redemptions_of db' (rc_ID c))) \<le> m" for m
    using valid(4) of_c by force
  moreover have "int (length (filter (\<lambda>r. rd_UserID r = u) (redemptions_of db' (rc_ID c)))) \<le> max 1 (rc_PerUserLimit c)"
    using valid(5) redeemed(6) row of_c by simp
  ultimately show ?thesis using redeemed(2,5,6) valid(1,3) reds row by blast
qed simp

lemma days_exact:
  assumes "0 < d" "d \<le> 106751"
  shows "days_duration d = d * 86400 * 1000000000"
  using assms by (simp add: days_duration_def go_hour_def go_minute_def go_second_def in_int64_def int64_max_def)

text \<open>
  C26: A redemption gives what its code promises: the credit of a balance code is added to the balance of the
  user, and no other balance and no subscription changes; the days of a subscription code (exact up to 106751
  of them) are added to the time the user has left of its plan, and no balance, no time left of another plan
  and no subscription of another user changes.
\<close>

theorem redemption_rewards_exactly:
  assumes "redeem_code clock h u mode no when db = (db', Inr row)" "books_balance db" "subscriptions_ok db"
  shows "\<exists>c. find_code (\<lambda>c. rc_CodeHash c = trim_space h) db = Some c \<and> books_balance db' \<and> subscriptions_ok db' \<and>
    (rc_Mode c = CodeUsage \<longrightarrow> balance_of u db' = balance_of u db + rc_CreditNanousd c \<and>
       (\<forall>v. v \<noteq> u \<longrightarrow> balance_of v db' = balance_of v db) \<and> db_subscriptions db' = db_subscriptions db) \<and>
    (rc_Mode c = CodePeriod \<longrightarrow> db_accounts db' = db_accounts db \<and> db_transactions db' = db_transactions db \<and>
       (\<forall>v. v \<noteq> u \<longrightarrow> filter (\<lambda>s. sb_UserID s = v) (db_subscriptions db') = filter (\<lambda>s. sb_UserID s = v) (db_subscriptions db)) \<and>
       (\<exists>time. (rc_DurationDays c \<le> 106751 \<longrightarrow> time = rc_DurationDays c * 86400 * 1000000000) \<and>
         (\<forall>p. remaining_time p u (paid_time clock when) db' = remaining_time p u (paid_time clock when) db +
           (if p = rc_PlanID c then time else 0))))"
  using assms(1)
proof (cases rule: redeem_cases)
  case (redeemed c row' txID subscriptionID db1)
  note valid = valid_code [OF redeemed(3)]
  have db': "db_accounts db' = db_accounts db1" "db_transactions db' = db_transactions db1" "db_subscriptions db' = db_subscriptions db1"
    by (simp_all add: redeemed(11) update_code_def)
  then have same: "balance_of v db' = balance_of v db1" "remaining_time p v t db' = remaining_time p v t db1"
    "books_balance db' = books_balance db1" "subscriptions_ok db' = subscriptions_ok db1" for v p t
    by (simp_all add: balance_of_def remaining_time_def books_balance_def transactions_of_def subscriptions_ok_def ids_ok_def)
  have ok: "books_balance db1" "subscriptions_ok db1" using apply_reward_other [OF redeemed(4)] assms(2,3) by blast+
  have "(rc_Mode c = CodeUsage \<longrightarrow> balance_of u db1 = balance_of u db + rc_CreditNanousd c \<and>
       (\<forall>v. v \<noteq> u \<longrightarrow> balance_of v db1 = balance_of v db) \<and> db_subscriptions db1 = db_subscriptions db) \<and>
    (rc_Mode c = CodePeriod \<longrightarrow> db_accounts db1 = db_accounts db \<and> db_transactions db1 = db_transactions db \<and>
       (\<forall>v. v \<noteq> u \<longrightarrow> filter (\<lambda>s. sb_UserID s = v) (db_subscriptions db1) = filter (\<lambda>s. sb_UserID s = v) (db_subscriptions db)) \<and>
       (\<exists>time. (rc_DurationDays c \<le> 106751 \<longrightarrow> time = rc_DurationDays c * 86400 * 1000000000) \<and>
         (\<forall>p. remaining_time p u (paid_time clock when) db1 = remaining_time p u (paid_time clock when) db +
           (if p = rc_PlanID c then time else 0))))"
    using redeemed(4)
  proof (cases rule: apply_reward_cases)
    case (balance account)
    then show ?thesis using reward_spec(8,9) [OF balance(3)] assms(2) valid(7) by auto
  next
    case (subscription row1)
    have days: "0 < rc_DurationDays c"
      using subscription(4) by (auto simp: apply_redemption_subscription_def split: sum.splits if_splits)
    from subscription(4) obtain plan price where plan: "bp_ID plan = rc_PlanID c" and
      grant: "grant_subscription_on_timeline clock \<lparr>gq_UserID = u, gq_Plan = plan, gq_Price = price,
         gq_StartAt = paid_time clock when, gq_Duration = days_duration (rc_DurationDays c), gq_CancelAtPeriodEnd = False,
         gq_AutoRenew = False, gq_NewGrant = True\<rparr> db = Inr (row1, db1)" by (rule redemption_subscription_Inr)
    have "in_int64 (days_duration (rc_DurationDays c))" by (simp add: days_duration_def)
    then have max: "days_duration (rc_DurationDays c) \<le> int64_max" by (simp only: in_int64_def)
    have "remaining_time p u (paid_time clock when) db1 = remaining_time p u (paid_time clock when) db +
          (if p = rc_PlanID c then days_duration (rc_DurationDays c) else 0)" for p
      using grant_time [OF grant assms(3), of "paid_time clock when" p] max by (simp add: plan paid_time_def)
    moreover have "\<forall>v. v \<noteq> u \<longrightarrow> filter (\<lambda>s. sb_UserID s = v) (db_subscriptions db1) = filter (\<lambda>s. sb_UserID s = v) (db_subscriptions db)"
      using grant_effect [OF grant assms(3)] max by simp
    ultimately show ?thesis
      using same_but_grant [OF grant] subscription(1) valid(6) days_exact [OF days] unfolding same_but_subscriptions_def
      by (intro conjI impI exI [of _ "days_duration (rc_DurationDays c)"]) auto
  qed
  then show ?thesis using redeemed(2) ok same db' by (intro exI [of _ c]) simp
qed simp

text \<open>An operation on one account: it may open the account, then posts at most one transaction, which is no top-up.\<close>

definition account_step :: "billing_db \<Rightarrow> billing_db \<Rightarrow> bool" where
  "account_step db db' \<longleftrightarrow> db_orders db' = db_orders db \<and> db_codes db' = db_codes db \<and>
     db_redemptions db' = db_redemptions db \<and> db_subscriptions db' = db_subscriptions db \<and>
     (db_transactions db' = db_transactions db \<or>
       (\<exists>t. db_transactions db' = db_transactions db @ [t] \<and> bt_Type t \<noteq> TxTopUp))"

lemma account_step_refl [simp]: "account_step db db"
  by (simp add: account_step_def)

lemma account_step_ok:
  assumes "account_step db db'"
  shows "orders_ok db \<Longrightarrow> orders_ok db'" "codes_ok db \<Longrightarrow> codes_ok db'" "subscriptions_ok db \<Longrightarrow> subscriptions_ok db'"
proof -
  show "orders_ok db \<Longrightarrow> orders_ok db'" using assms by (auto simp: account_step_def intro: orders_ok_cong)
  show "codes_ok db \<Longrightarrow> codes_ok db'" using assms by (auto simp: account_step_def intro: codes_ok_cong)
  show "subscriptions_ok db \<Longrightarrow> subscriptions_ok db'"
    using assms by (simp add: account_step_def subscriptions_ok_def ids_ok_def)
qed

lemma open_account_step: "get_or_create_billing_account u db = Inr (a, db') \<Longrightarrow> account_step db db'"
  using get_or_create_other by (simp add: account_step_def)

lemma put_same_books:
  assumes "books_balance db" "db_accounts db u = Some a"
  shows "books_balance (put_balance a (ba_BalanceNanousd a) db)"
proof -
  let ?db = "put_balance a (ba_BalanceNanousd a) db"
  have a: "ba_UserID a = u" using assms by (simp add: books_balance_def)
  have bal: "balance_of v ?db = balance_of v db" for v using assms(2) by (simp add: put_balance_def balance_of_def a)
  have tx: "transactions_of v ?db = transactions_of v db" for v by (simp add: put_balance_def transactions_of_def)
  show ?thesis
    using assms(1) unfolding books_balance_def bal tx by (intro conjI; elim conjE) (simp add: put_balance_def a, blast+)
qed

lemma set_balance_spec:
  assumes "set_billing_account_balance u balance no db = (db', res)" "books_balance db" "in_int64 balance"
  shows "books_balance db' \<and> account_step db db' \<and> db_reservations db' = db_reservations db \<and> db_ledger db' = db_ledger db \<and>
    (case res of Inl _ \<Rightarrow> db' = db | Inr a \<Rightarrow> balance_of u db' = balance \<and> (\<forall>v. v \<noteq> u \<longrightarrow> balance_of v db' = balance_of v db))"
proof (cases "u = 0 \<or> balance < 0")
  case True
  then show ?thesis using assms by (auto simp: set_billing_account_balance_def)
next
  case False
  then have "run_tx (set_balance_body u balance no) db = (db', res)" using assms(1) by (simp add: set_billing_account_balance_def)
  then show ?thesis
  proof (cases rule: run_tx_cases)
    case (commit x)
    obtain a db1 where acc: "get_or_create_billing_account u db = Inr (a, db1)"
      using commit(1) by (auto simp: set_balance_body_def split: sum.splits)
    note opened = get_or_create_books [OF acc assms(2)] and same = get_or_create_other [OF acc]
    let ?amount = "wrap64 (balance - ba_BalanceNanousd a)" and ?db2 = "put_balance a balance db1"
    let ?t = "\<lparr>bt_AccountID = ba_ID a, bt_UserID = u, bt_Type = TxAdminSet, bt_AmountNanousd = ?amount,
      bt_BalanceAfterNanousd = balance, bt_RefType = ''admin'', bt_RefID = 0, bt_RefNo = trim_space no\<rparr>"
    have db': "db' = (if ?amount \<noteq> 0 then add_transaction ?t ?db2 else ?db2)"
      using commit(1) unfolding set_balance_body_def acc Let_def by (auto split: option.splits)
    have acc_int: "in_int64 (ba_BalanceNanousd a)" using opened [of u] books_int64 [OF assms(2)] by simp
    have eq: "balance = ba_BalanceNanousd a" if "?amount = 0"
    proof -
      have "wrap64 (ba_BalanceNanousd a + ?amount) = balance" using assms(3) wrap64_add_wrap64 [of "balance - ba_BalanceNanousd a" "ba_BalanceNanousd a"] by (simp add: add.commute)
      with that acc_int show ?thesis by simp
    qed
    have "books_balance db'"
    proof (cases "?amount = 0")
      case True
      have "books_balance (put_balance a (ba_BalanceNanousd a) db1)"
        using opened [of u] by (intro put_same_books [of db1 u]) blast+
      with True show ?thesis by (simp add: db' flip: eq [OF True])
    next
      case nonzero: False
      have "wrap64 (ba_BalanceNanousd a + ?amount) = balance" using assms(3) wrap64_add_wrap64 [of "balance - ba_BalanceNanousd a" "ba_BalanceNanousd a"] by (simp add: add.commute)
      with nonzero opened assms(3) show ?thesis
        unfolding db' by (simp, intro posting_books [where u = u and a = a]) simp_all
    qed
    moreover have "account_step db db'"
      using same by (simp add: account_step_def db' add_transaction_def put_balance_def)
    moreover have "balance_of v db' = (if v = u then balance else balance_of v db)" for v
      using opened [of v] opened [of u] by (simp add: db' balance_of_def add_transaction_def put_balance_def)
    ultimately show ?thesis
      using same commit(2) by (simp add: db' add_transaction_def put_balance_def)
  qed (use assms in simp)
qed

lemma fetch_account_spec:
  assumes "fetch_billing_account u db = (db', res)" "books_balance db"
  shows "books_balance db' \<and> account_step db db' \<and> db_reservations db' = db_reservations db \<and> db_ledger db' = db_ledger db"
proof (cases "u = 0")
  case False
  then have "run_tx (get_or_create_billing_account u) db = (db', res)" using assms(1) by (simp add: fetch_billing_account_def)
  then show ?thesis
    by (cases rule: run_tx_cases) (use assms(2) get_or_create_books get_or_create_other open_account_step in auto)
qed (use assms in \<open>simp add: fetch_billing_account_def\<close>)

lemma invitation_reward_spec:
  assumes "apply_invitation_reward u reward refType rid no db = Inr (x, db')"
  shows "account_step db db'" "db_reservations db' = db_reservations db" "db_ledger db' = db_ledger db"
    and "books_balance db \<Longrightarrow> books_balance db' \<and> balance_of u db' = balance_of u db + (if u = 0 then 0 else max 0 reward)"
proof -
  have "db' = db \<or> (\<exists>a txID. reward_body TxInvitation u reward refType rid no db = Inr ((a, txID), db') \<and> u \<noteq> 0 \<and> 0 < reward)"
    using assms by (cases "reward_body TxInvitation u reward refType rid no db")
      (auto simp: apply_invitation_reward_def split: if_splits)
  moreover have "db' = db \<Longrightarrow> u = 0 \<or> reward \<le> 0"
  proof (rule ccontr)
    assume "db' = db" "\<not> (u = 0 \<or> reward \<le> 0)"
    with assms obtain a txID where "reward_body TxInvitation u reward refType rid no db = Inr ((a, txID), db)"
      by (cases "reward_body TxInvitation u reward refType rid no db") (auto simp: apply_invitation_reward_def)
    from reward_spec(1) [OF this] show False by auto
  qed
  ultimately consider (none) "db' = db" "u = 0 \<or> reward \<le> 0"
    | (reward) a txID where "reward_body TxInvitation u reward refType rid no db = Inr ((a, txID), db')" "u \<noteq> 0" "0 < reward"
    by blast
  then have all: "account_step db db' \<and> db_reservations db' = db_reservations db \<and> db_ledger db' = db_ledger db \<and>
     (books_balance db \<longrightarrow> books_balance db' \<and> balance_of u db' = balance_of u db + (if u = 0 then 0 else max 0 reward))"
  proof cases
    case (reward a txID)
    note spec = reward_spec [OF reward(1)]
    from spec(1) have "\<exists>t. db_transactions db' = db_transactions db @ [t] \<and> bt_Type t \<noteq> TxTopUp" by auto
    with spec reward(2,3) show ?thesis by (simp add: account_step_def)
  qed auto
  then show "account_step db db'" "db_reservations db' = db_reservations db" "db_ledger db' = db_ledger db"
    "books_balance db \<Longrightarrow> books_balance db' \<and> balance_of u db' = balance_of u db + (if u = 0 then 0 else max 0 reward)" by blast+
qed

lemma redeem_books:
  assumes "redeem_code clock h u mode no when db = (db', res)"
  shows "books_balance db \<Longrightarrow> books_balance db'" "subscriptions_ok db \<Longrightarrow> subscriptions_ok db'" "orders_ok db \<Longrightarrow> orders_ok db'"
    "db_reservations db' = db_reservations db" "db_ledger db' = db_ledger db"
proof -
  have "(books_balance db \<longrightarrow> books_balance db') \<and> (subscriptions_ok db \<longrightarrow> subscriptions_ok db') \<and>
    (orders_ok db \<longrightarrow> orders_ok db') \<and> db_reservations db' = db_reservations db \<and> db_ledger db' = db_ledger db"
    using assms
  proof (cases rule: redeem_cases)
    case (redeemed c row txID subscriptionID db1)
    note other = apply_reward_other [OF redeemed(4)]
    from other have "orders_ok db \<longrightarrow> orders_ok db1" by (blast intro: orders_ok_cong)
    moreover have "orders_ok db' = orders_ok db1" "books_balance db' = books_balance db1" "subscriptions_ok db' = subscriptions_ok db1"
      "db_reservations db' = db_reservations db1" "db_ledger db' = db_ledger db1"
      by (simp_all add: redeemed(11) update_code_def orders_ok_def order_credited_def credits_of_def subscriptions_ok_def ids_ok_def)
    ultimately show ?thesis using other by simp
  qed simp
  then show "books_balance db \<Longrightarrow> books_balance db'" "subscriptions_ok db \<Longrightarrow> subscriptions_ok db'" "orders_ok db \<Longrightarrow> orders_ok db'"
    "db_reservations db' = db_reservations db" "db_ledger db' = db_ledger db" by blast+
qed

section \<open>Witnesses\<close>

definition sample_code :: redemption_code where
  "sample_code = \<lparr>rc_ID = 1, rc_CodeHash = ''h'', rc_CodeEncrypted = [], rc_CodeHint = [], rc_Mode = CodeUsage,
     rc_RewardType = RewardBalance, rc_CreditNanousd = 7, rc_PlanID = 0, rc_DurationDays = 0, rc_MaxRedemptions = Some 1,
     rc_PerUserLimit = 1, rc_RedeemedCount = 0, rc_Status = CodeActive, rc_ExpiresAt = None, rc_Description = [],
     rc_CreatedByUserID = 1\<rparr>"

definition sample_payment_db :: billing_db where
  "sample_payment_db = sample_order_db\<lparr>db_codes := [sample_code]\<rparr>"

lemma sample_payment_ok: "books_balance sample_payment_db" "subscriptions_ok sample_payment_db" "codes_ok sample_payment_db"
proof -
  show "books_balance sample_payment_db"
    using sample_order_ok(1) by (simp add: sample_payment_db_def)
  show "subscriptions_ok sample_payment_db"
    using sample_order_ok(2) by (simp add: sample_payment_db_def subscriptions_ok_def ids_ok_def)
  show "codes_ok sample_payment_db"
    by (simp add: sample_payment_db_def sample_order_db_def sample_subscription_db_def sample_code_def empty_db_def codes_ok_def code_counted_def
        redemptions_of_def)
qed

definition sample_redeemed :: "billing_db \<times> (repo_error + redemption)" where
  "sample_redeemed = redeem_code 50 ''h'' 5 ''usage'' [] 50 sample_payment_db"

lemma sample_redeemed_Inr: "\<exists>db' row. sample_redeemed = (db', Inr row)"
proof -
  have "case snd sample_redeemed of Inl _ \<Rightarrow> False | Inr _ \<Rightarrow> True" by code_simp
  then show ?thesis by (auto simp: prod_eq_iff split: sum.splits)
qed

theorem redemption_within_limits_witness:
  "\<exists>db' row. sample_redeemed = (db', Inr row) \<and> rd_UserID row = 5 \<and> rd_CodeID row = 1 \<and> length (redemptions_of db' 1) \<le> 1"
proof -
  have code: "find_code (\<lambda>c. rc_CodeHash c = trim_space ''h'') sample_payment_db = Some sample_code" by code_simp
  from sample_redeemed_Inr obtain db' row where r: "sample_redeemed = (db', Inr row)" by blast
  from redemption_within_limits [OF r [unfolded sample_redeemed_def] sample_payment_ok(3), unfolded code] r show ?thesis
    by (simp add: sample_code_def) force
qed

definition sample_period_code :: redemption_code where
  "sample_period_code = sample_code\<lparr>rc_Mode := CodePeriod, rc_RewardType := RewardSubscription, rc_PlanID := 2, rc_DurationDays := 3\<rparr>"

definition sample_period_redeemed :: "billing_db \<times> (repo_error + redemption)" where
  "sample_period_redeemed = redeem_code 50 ''h'' 5 ''period'' [] 50 (sample_payment_db\<lparr>db_codes := [sample_period_code]\<rparr>)"

lemma sample_period_redeemed_Inr: "\<exists>db' row. sample_period_redeemed = (db', Inr row)"
proof -
  have "case snd sample_period_redeemed of Inl _ \<Rightarrow> False | Inr _ \<Rightarrow> True" by code_simp
  then show ?thesis by (auto simp: prod_eq_iff split: sum.splits)
qed

text \<open>A code of each kind: seven of credit, and three days of the second plan.\<close>

theorem redemption_rewards_exactly_witness:
  "(\<exists>db' row. sample_redeemed = (db', Inr row) \<and> balance_of 5 db' = 7) \<and>
   (\<exists>db' row. sample_period_redeemed = (db', Inr row) \<and> remaining_time 2 5 50 db' = 3 * 86400 * 1000000000 \<and>
      remaining_time 1 5 50 db' = 50 \<and> balance_of 5 db' = 0)"
proof
  have code: "find_code (\<lambda>c. rc_CodeHash c = trim_space ''h'') sample_payment_db = Some sample_code" by code_simp
  from sample_redeemed_Inr obtain db' row where r: "sample_redeemed = (db', Inr row)" by blast
  have b0: "balance_of 5 sample_payment_db = 0"
    by (simp add: balance_of_def sample_payment_db_def sample_order_db_def sample_subscription_db_def empty_db_def)
  with redemption_rewards_exactly [OF r [unfolded sample_redeemed_def] sample_payment_ok(1,2), unfolded code] r
  show "\<exists>db' row. sample_redeemed = (db', Inr row) \<and> balance_of 5 db' = 7"
    by (intro exI [of _ db'] exI [of _ row]) (simp add: sample_code_def)
  let ?db = "sample_payment_db\<lparr>db_codes := [sample_period_code]\<rparr>"
  have pcode: "find_code (\<lambda>c. rc_CodeHash c = trim_space ''h'') ?db = Some sample_period_code" by code_simp
  have ok: "books_balance ?db" "subscriptions_ok ?db"
    using sample_payment_ok(1,2) by (simp_all add: subscriptions_ok_def ids_ok_def)
  from sample_period_redeemed_Inr obtain db2 row2 where p: "sample_period_redeemed = (db2, Inr row2)" by blast
  have left0: "remaining_time 2 5 50 ?db = 0" "remaining_time 1 5 50 ?db = 50" by code_simp+
  have t: "paid_time 50 50 = 50" by (simp add: paid_time_def)
  have f: "rc_Mode sample_period_code = CodePeriod" "rc_PlanID sample_period_code = 2" "rc_DurationDays sample_period_code = 3"
    by (simp_all add: sample_period_code_def)
  from redemption_rewards_exactly [OF p [unfolded sample_period_redeemed_def] ok, unfolded pcode] obtain time where
    "db_accounts db2 = db_accounts ?db" "time = 3 * 86400 * 1000000000"
    "\<forall>p. remaining_time p 5 50 db2 = remaining_time p 5 50 ?db + (if p = 2 then time else 0)"
    unfolding t by (auto simp: f)
  then show "\<exists>db' row. sample_period_redeemed = (db', Inr row) \<and> remaining_time 2 5 50 db' = 3 * 86400 * 1000000000 \<and>
      remaining_time 1 5 50 db' = 50 \<and> balance_of 5 db' = 0"
    using p left0 b0 by (intro exI [of _ db2] exI [of _ row2]) (simp add: balance_of_def)
qed

end
