(* ===== verification/Usage_Settlement.thy ===== *)
theory Usage_Settlement
  imports Billing_Store
begin

text \<open>
  The budget of a call: reservation before it, and its settlement, release, renewal or
  reconciliation after it (\<^verbatim>\<open>repository_reservation.go\<close>; \<^verbatim>\<open>AddUsage\<close>, \<^verbatim>\<open>AddUsageAndSettleBalance\<close> and
  \<^verbatim>\<open>AddPeriodUsageAndSettleOverage\<close> of \<^verbatim>\<open>repository.go\<close>), and the service operations over them
  (\<^verbatim>\<open>AuthorizeUsage\<close>, \<^verbatim>\<open>RecordUsageWithAuthorization\<close> of \<^verbatim>\<open>application/billing/service.go\<close>).
  \<open>now\<close> is the clock when the operation runs.
\<close>

section \<open>Budgets\<close>

definition add_non_negative_int64 :: "int \<Rightarrow> int \<Rightarrow> int" where
  "add_non_negative_int64 a0 b0 =
     (let a = (if a0 < 0 then 0 else a0); b = (if b0 < 0 then 0 else b0)
      in if a > int64_max - b then int64_max else a + b)"

definition divide_budget_across_slots :: "int \<Rightarrow> int \<Rightarrow> int" where
  "divide_budget_across_slots available slots =
     (if available \<le> 0 \<or> slots \<le> 0 then 0
      else let result = go_div available slots in if go_mod available slots \<noteq> 0 then result + 1 else result)"

definition remaining_non_negative_budget :: "int \<Rightarrow> int \<Rightarrow> int \<Rightarrow> int" where
  "remaining_non_negative_budget limit consumed0 reserved0 =
     (if limit \<le> 0 then 0
      else let consumed = clamp_non_negative consumed0 in
        if consumed \<ge> limit then 0
        else let remaining = limit - consumed; reserved = clamp_non_negative reserved0 in
          if reserved \<ge> remaining then 0 else remaining - reserved)"

definition usage_reservation_ttl :: duration where
  "usage_reservation_ttl = 3 * 3600 * go_second"

definition usage_reservation_max_active_per_user :: int where
  "usage_reservation_max_active_per_user = 5"

text \<open>A reservation occupies budget while it is active and not expired, and while it waits for reconciliation.\<close>

definition occupying :: "nat \<Rightarrow> gtime \<Rightarrow> usage_reservation \<Rightarrow> bool" where
  "occupying u now r \<longleftrightarrow> rv_UserID r = u \<and>
     (rv_Status r = RsvActive \<and> rv_ExpiresAt r > now \<or> rv_Status r = RsvReconciliation)"

definition active_balance_reservations :: "billing_db \<Rightarrow> nat \<Rightarrow> gtime \<Rightarrow> int" where
  "active_balance_reservations db u now =
     sum_list (map rv_BalanceNanousd (filter (occupying u now) (db_reservations db)))"

definition count_active_usage_reservations :: "billing_db \<Rightarrow> nat \<Rightarrow> gtime \<Rightarrow> int" where
  "count_active_usage_reservations db u now = int (length (filter (occupying u now) (db_reservations db)))"

definition active_period_credit_reservations ::
    "billing_db \<Rightarrow> nat \<Rightarrow> gtime \<Rightarrow> gtime \<Rightarrow> nat \<Rightarrow> gtime \<Rightarrow> int" where
  "active_period_credit_reservations db u periodStart periodEnd excludeID now =
     sum_list (map rv_PeriodCreditNanousd (filter (\<lambda>r. occupying u now r \<and>
       rv_PeriodStartAt r = Some periodStart \<and> rv_PeriodEndAt r = Some periodEnd \<and>
       (excludeID > 0 \<longrightarrow> rv_ID r \<noteq> excludeID)) (db_reservations db)))"

text \<open>What the ledger charged in a period; entries of free models do not count.\<close>

definition period_usage :: "billing_db \<Rightarrow> nat \<Rightarrow> gtime \<Rightarrow> gtime \<Rightarrow> int" where
  "period_usage db u periodStart periodEnd =
     sum_list (map (\<lambda>r. ul_BilledNanousd (lr_usage r)) (filter (\<lambda>r. ul_UserID (lr_usage r) = u \<and>
       \<not> ul_IsFreeModel (lr_usage r) \<and> ul_BillingAt (lr_usage r) \<ge> periodStart \<and>
       ul_BillingAt (lr_usage r) < periodEnd) (db_ledger db)))"

definition find_reservation :: "billing_db \<Rightarrow> nat \<Rightarrow> string \<Rightarrow> usage_reservation option" where
  "find_reservation db u refNo = find (\<lambda>r. rv_UserID r = u \<and> rv_RefNo r = refNo) (db_reservations db)"

definition update_reservation :: "nat \<Rightarrow> (usage_reservation \<Rightarrow> usage_reservation) \<Rightarrow> billing_db \<Rightarrow> billing_db" where
  "update_reservation rid f db =
     db\<lparr>db_reservations := map (\<lambda>r. if rv_ID r = rid then f r else r) (db_reservations db)\<rparr>"

section \<open>Reserving\<close>

record reservation_request =
  rq_UserID :: nat
  rq_RefNo :: string
  rq_Mode :: string
  rq_RequestedNanousd :: int
  rq_PeriodStartAt :: "gtime option"
  rq_PeriodEndAt :: "gtime option"
  rq_PeriodCreditNanousd :: int

definition valid_request :: "reservation_request \<Rightarrow> bool" where
  "valid_request q \<longleftrightarrow>
     \<not> (rq_UserID q = 0 \<or> trim_space (rq_RefNo q) = [] \<or> rq_RequestedNanousd q < 0) \<and>
     trim_space (rq_Mode q) \<in> {''usage'', ''period''} \<and>
     (trim_space (rq_Mode q) = ''period'' \<longrightarrow>
       (case (rq_PeriodStartAt q, rq_PeriodEndAt q) of
          (Some s, Some e) \<Rightarrow> e > s \<and> rq_PeriodCreditNanousd q \<ge> 0 | _ \<Rightarrow> False))"

text \<open>The part of the period credit that is neither used nor reserved.\<close>

definition available_credit :: "gtime \<Rightarrow> reservation_request \<Rightarrow> billing_db \<Rightarrow> repo_error + int" where
  "available_credit now q db =
     (if trim_space (rq_Mode q) = ''period'' then
        let s = the (rq_PeriodStartAt q); e = the (rq_PeriodEndAt q) in
        case scan64 (period_usage db (rq_UserID q) s e) of Inl err \<Rightarrow> Inl err
        | Inr used \<Rightarrow> (case scan64 (active_period_credit_reservations db (rq_UserID q) s e 0 now) of Inl err \<Rightarrow> Inl err
        | Inr reserved \<Rightarrow> Inr (remaining_non_negative_budget (rq_PeriodCreditNanousd q) used reserved))
      else Inr 0)"

definition has_reservation_transaction :: "billing_db \<Rightarrow> nat \<Rightarrow> string \<Rightarrow> bool" where
  "has_reservation_transaction db u refNo \<longleftrightarrow>
     (\<exists>t \<in> set (db_transactions db). bt_UserID t = u \<and> bt_RefNo t = refNo \<and> bt_Type t \<in> {TxUsageReserve, TxUsageRefund})"

definition reserve_body :: "gtime \<Rightarrow> reservation_request \<Rightarrow> usage_reservation tx" where
  "reserve_body now q db0 =
     (let u = rq_UserID q; refNo = trim_space (rq_RefNo q) in
      case get_or_create_billing_account u db0 of Inl err \<Rightarrow> Inl err
      | Inr (account, db) \<Rightarrow>
          if find_reservation db u refNo \<noteq> None \<or> has_reservation_transaction db u refNo then Inl Conflict
          else
            let activeCount = count_active_usage_reservations db u now in
            if activeCount \<ge> usage_reservation_max_active_per_user then Inl ReservationLimitExceeded
            else if ba_BalanceNanousd account < 0 then Inl InsufficientBalance
            else case scan64 (active_balance_reservations db u now) of Inl err \<Rightarrow> Inl err
            | Inr activeBalance \<Rightarrow> (case available_credit now q db of Inl err \<Rightarrow> Inl err
            | Inr credit \<Rightarrow>
                let balance = remaining_non_negative_budget (ba_BalanceNanousd account) activeBalance 0;
                    available = add_non_negative_int64 credit balance;
                    requested = (if rq_RequestedNanousd q \<le> 0
                      then divide_budget_across_slots available (usage_reservation_max_active_per_user - activeCount)
                      else rq_RequestedNanousd q);
                    periodCredit = min requested credit;
                    row = \<lparr>rv_ID = Suc (length (db_reservations db)), rv_UserID = u, rv_RefNo = refNo,
                      rv_Mode = trim_space (rq_Mode q), rv_BalanceNanousd = requested - periodCredit,
                      rv_PeriodCreditNanousd = periodCredit, rv_PeriodLimitNanousd = rq_PeriodCreditNanousd q,
                      rv_PeriodStartAt = rq_PeriodStartAt q, rv_PeriodEndAt = rq_PeriodEndAt q,
                      rv_Status = RsvActive, rv_UsageLedgerID = 0, rv_ExpiresAt = now + usage_reservation_ttl,
                      rv_SettledAt = None, rv_ReleasedAt = None, rv_ReconciliationAt = None, rv_FailureCode = []\<rparr>
                in if requested \<le> 0 \<or> requested > available then Inl InsufficientBalance
                   else Inr (row, db\<lparr>db_reservations := db_reservations db @ [row]\<rparr>)))"

definition reserve_usage_balance ::
    "gtime \<Rightarrow> reservation_request \<Rightarrow> billing_db \<Rightarrow> billing_db \<times> (repo_error + usage_reservation)" where
  "reserve_usage_balance now q db =
     (if \<not> valid_request q then (db, Inl InvalidInput) else run_tx (reserve_body now q) db)"

section \<open>Releasing, renewing, reconciling\<close>

definition release_usage_balance_reservation ::
    "gtime \<Rightarrow> nat \<Rightarrow> string \<Rightarrow> billing_db \<Rightarrow> billing_db \<times> (repo_error + unit)" where
  "release_usage_balance_reservation now u refNo0 db =
     (let refNo = trim_space refNo0 in
      if u = 0 \<or> refNo = [] then (db, Inl InvalidInput)
      else case find_reservation db u refNo of
        None \<Rightarrow> (db, Inr ())
      | Some r \<Rightarrow>
          if rv_Status r \<noteq> RsvActive then (db, Inr ())
          else (update_reservation (rv_ID r) (\<lambda>r. r\<lparr>rv_Status := RsvReleased, rv_ReleasedAt := Some now\<rparr>) db, Inr ()))"

definition renew_usage_balance_reservation ::
    "gtime \<Rightarrow> nat \<Rightarrow> string \<Rightarrow> billing_db \<Rightarrow> billing_db \<times> (repo_error + unit)" where
  "renew_usage_balance_reservation now u refNo0 db =
     (let refNo = trim_space refNo0;
          hit = (\<lambda>r. rv_UserID r = u \<and> rv_RefNo r = refNo \<and> rv_Status r = RsvActive \<and> rv_ExpiresAt r > now) in
      if u = 0 \<or> refNo = [] then (db, Inl InvalidInput)
      else if filter hit (db_reservations db) = [] then (db, Inl Conflict)
      else (db\<lparr>db_reservations := map (\<lambda>r. if hit r then r\<lparr>rv_ExpiresAt := now + usage_reservation_ttl\<rparr> else r)
              (db_reservations db)\<rparr>, Inr ()))"

definition mark_usage_reservation_reconciliation_required ::
    "gtime \<Rightarrow> nat \<Rightarrow> string \<Rightarrow> string \<Rightarrow> billing_db \<Rightarrow> billing_db \<times> (repo_error + unit)" where
  "mark_usage_reservation_reconciliation_required now u refNo0 failureCode0 db =
     (let refNo = trim_space refNo0; failureCode = trim_space failureCode0;
          hit = (\<lambda>r. rv_UserID r = u \<and> rv_RefNo r = refNo \<and> rv_Status r \<in> {RsvActive, RsvReconciliation}) in
      if u = 0 \<or> refNo = [] \<or> failureCode = [] then (db, Inl InvalidInput)
      else if filter hit (db_reservations db) = [] then (db, Inl Conflict)
      else (db\<lparr>db_reservations := map (\<lambda>r. if hit r then r\<lparr>rv_Status := RsvReconciliation,
                rv_FailureCode := take 64 failureCode, rv_ReconciliationAt := Some now\<rparr> else r)
              (db_reservations db)\<rparr>, Inr ()))"

section \<open>Settling\<close>

text \<open>The reservation a settlement consumes, and whether it has been consumed before.\<close>

definition reservation_for_settlement ::
    "billing_db \<Rightarrow> nat \<Rightarrow> usage_reservation option \<Rightarrow> repo_error + (usage_reservation \<times> bool) option" where
  "reservation_for_settlement db u reservation =
     (case reservation of
        None \<Rightarrow> Inr None
      | Some q \<Rightarrow>
          if u = 0 \<or> (rv_UserID q \<noteq> 0 \<and> rv_UserID q \<noteq> u) \<or> trim_space (rv_RefNo q) = [] then Inl Conflict
          else case find (\<lambda>r. rv_UserID r = u \<and> rv_RefNo r = trim_space (rv_RefNo q) \<and>
                            (rv_ID q > 0 \<longrightarrow> rv_ID r = rv_ID q)) (db_reservations db) of
            None \<Rightarrow> Inl Conflict
          | Some r \<Rightarrow> (case rv_Status r of
              RsvActive \<Rightarrow> Inr (Some (r, False))
            | RsvReconciliation \<Rightarrow> Inr (Some (r, False))
            | RsvSettled \<Rightarrow> if rv_UsageLedgerID r = 0 then Inl Conflict else Inr (Some (r, True))
            | RsvReleased \<Rightarrow> Inl Conflict))"

definition settle_usage_reservation :: "gtime \<Rightarrow> usage_reservation option \<Rightarrow> nat \<Rightarrow> billing_db \<Rightarrow> billing_db" where
  "settle_usage_reservation now reservation ledgerID db =
     (case reservation of None \<Rightarrow> db
      | Some r \<Rightarrow> update_reservation (rv_ID r)
          (\<lambda>r. r\<lparr>rv_Status := RsvSettled, rv_UsageLedgerID := ledgerID, rv_SettledAt := Some now\<rparr>) db)"

definition matches_period_reservation :: "usage_reservation \<Rightarrow> gtime \<Rightarrow> gtime \<Rightarrow> int \<Rightarrow> bool" where
  "matches_period_reservation r periodStart periodEnd periodCredit \<longleftrightarrow>
     rv_Mode r = ''period'' \<and> rv_PeriodStartAt r = Some periodStart \<and> rv_PeriodEndAt r = Some periodEnd \<and>
     rv_PeriodLimitNanousd r = periodCredit"

definition reservation_ref_no :: "usage_reservation option \<Rightarrow> string" where
  "reservation_ref_no reservation = (case reservation of None \<Rightarrow> [] | Some r \<Rightarrow> trim_space (rv_RefNo r))"

definition charge_of :: "usage_ledger \<Rightarrow> int" where
  "charge_of usage = (if ul_IsFreeModel usage \<or> ul_BilledNanousd usage \<le> 0 then 0 else ul_BilledNanousd usage)"

text \<open>The entry the first settlement stored, for a retry.\<close>

definition restore_settled_usage_ledger :: "billing_db \<Rightarrow> nat \<Rightarrow> repo_error + ledger_row" where
  "restore_settled_usage_ledger db ledgerID =
     (if ledgerID = 0 then Inl Conflict
      else if ledgerID \<le> length (db_ledger db) then Inr (db_ledger db ! (ledgerID - 1)) else Inl NotFound)"

text \<open>A new entry, and when \<open>amount\<close> is positive its debit from the account.\<close>

definition debit_entry ::
    "billing_account \<Rightarrow> int \<Rightarrow> usage_reservation option \<Rightarrow> ledger_row \<Rightarrow> ledger_row tx" where
  "debit_entry account amount reservation row db0 =
     (let nextBalance = wrap64 (ba_BalanceNanousd account - amount);
          row = row\<lparr>lr_BalanceAfterNanousd := Some nextBalance\<rparr>;
          ledgerID = Suc (length (db_ledger db0));
          db = db0\<lparr>db_ledger := db_ledger db0 @ [row]\<rparr>
      in if amount > 0 then
           case add_balance account (- amount) db of Inl err \<Rightarrow> Inl err
           | Inr (_, db) \<Rightarrow> Inr (row, add_transaction \<lparr>bt_AccountID = ba_ID account,
               bt_UserID = ul_UserID (lr_usage row), bt_Type = TxUsage, bt_AmountNanousd = - amount,
               bt_BalanceAfterNanousd = nextBalance, bt_RefType = ''usage_ledger'', bt_RefID = ledgerID,
               bt_RefNo = reservation_ref_no reservation\<rparr> db)
         else Inr (row, db))"

definition add_usage :: "usage_ledger \<Rightarrow> billing_db \<Rightarrow> billing_db" where
  "add_usage usage db = db\<lparr>db_ledger := db_ledger db @
     [\<lparr>lr_usage = usage, lr_BalanceAfterNanousd = None, lr_settlement = None\<rparr>]\<rparr>"

definition usage_body :: "gtime \<Rightarrow> usage_ledger \<Rightarrow> usage_reservation option \<Rightarrow> ledger_row tx" where
  "usage_body now usage reservation db0 =
     (case get_or_create_billing_account (ul_UserID usage) db0 of Inl err \<Rightarrow> Inl err
      | Inr (account, db) \<Rightarrow> (case reservation_for_settlement db (ul_UserID usage) reservation of Inl err \<Rightarrow> Inl err
      | Inr res \<Rightarrow>
          if (case res of Some (r, _) \<Rightarrow> rv_Mode r \<noteq> ''usage'' | None \<Rightarrow> False) then Inl Conflict
          else (case res of
            Some (r, True) \<Rightarrow> map_sum id (\<lambda>row. (row, db)) (restore_settled_usage_ledger db (rv_UsageLedgerID r))
          | _ \<Rightarrow> map_sum id (\<lambda>(row, db). (row, settle_usage_reservation now (map_option fst res) (length (db_ledger db)) db))
              (debit_entry account (charge_of usage) reservation
                \<lparr>lr_usage = usage, lr_BalanceAfterNanousd = None, lr_settlement = None\<rparr> db))))"

definition add_usage_and_settle_balance ::
    "gtime \<Rightarrow> usage_ledger \<Rightarrow> usage_reservation option \<Rightarrow> billing_db \<Rightarrow> billing_db \<times> (repo_error + ledger_row)" where
  "add_usage_and_settle_balance now usage reservation db = run_tx (usage_body now usage reservation) db"

text \<open>The settlement of a charge against a period credit; \<open>own\<close> is the reservation it consumes.\<close>

definition period_settlement_of ::
    "gtime \<Rightarrow> billing_db \<Rightarrow> usage_ledger \<Rightarrow> gtime \<Rightarrow> gtime \<Rightarrow> int \<Rightarrow> usage_reservation option \<Rightarrow>
       repo_error + period_settlement" where
  "period_settlement_of now db usage periodStart periodEnd periodCredit own =
     (let u = ul_UserID usage; charge = charge_of usage in
      case scan64 (period_usage db u periodStart periodEnd) of Inl err \<Rightarrow> Inl err
      | Inr usedBefore \<Rightarrow> (case scan64 (active_period_credit_reservations db u periodStart periodEnd
          (case own of None \<Rightarrow> 0 | Some r \<Rightarrow> rv_ID r) now) of Inl err \<Rightarrow> Inl err
      | Inr otherReserved \<Rightarrow>
          let covered = min charge (remaining_non_negative_budget periodCredit usedBefore otherReserved);
              overage = charge - covered;
              reservedBalance = (case own of None \<Rightarrow> 0 | Some r \<Rightarrow> rv_BalanceNanousd r)
          in Inr \<lparr>ps_CreditNanousd = periodCredit, ps_UsedBefore = usedBefore,
               ps_UsedAfter = add_non_negative_int64 usedBefore charge, ps_CreditCovered = covered,
               ps_CreditReserved = (case own of None \<Rightarrow> 0 | Some r \<Rightarrow> rv_PeriodCreditNanousd r),
               ps_Overage = overage, ps_BalanceReserved = reservedBalance,
               ps_SettlementDelta = wrap64 (overage - reservedBalance)\<rparr>))"

definition period_body ::
    "gtime \<Rightarrow> usage_ledger \<Rightarrow> gtime \<Rightarrow> gtime \<Rightarrow> int \<Rightarrow> usage_reservation option \<Rightarrow> ledger_row tx" where
  "period_body now usage periodStart periodEnd periodCredit reservation db0 =
     (case get_or_create_billing_account (ul_UserID usage) db0 of Inl err \<Rightarrow> Inl err
      | Inr (account, db) \<Rightarrow> (case reservation_for_settlement db (ul_UserID usage) reservation of Inl err \<Rightarrow> Inl err
      | Inr res \<Rightarrow>
          if (case res of Some (r, _) \<Rightarrow> \<not> matches_period_reservation r periodStart periodEnd periodCredit | None \<Rightarrow> False)
          then Inl Conflict
          else (case res of
            Some (r, True) \<Rightarrow> map_sum id (\<lambda>row. (row, db)) (restore_settled_usage_ledger db (rv_UsageLedgerID r))
          | _ \<Rightarrow> (case period_settlement_of now db usage periodStart periodEnd periodCredit (map_option fst res) of
              Inl err \<Rightarrow> Inl err
            | Inr ps \<Rightarrow> map_sum id (\<lambda>(row, db). (row, settle_usage_reservation now (map_option fst res) (length (db_ledger db)) db))
                (debit_entry account (ps_Overage ps) reservation
                  \<lparr>lr_usage = usage, lr_BalanceAfterNanousd = None, lr_settlement = Some ps\<rparr> db)))))"

definition add_period_usage_and_settle_overage ::
    "gtime \<Rightarrow> usage_ledger \<Rightarrow> gtime \<Rightarrow> gtime \<Rightarrow> int \<Rightarrow> usage_reservation option \<Rightarrow> billing_db \<Rightarrow>
       billing_db \<times> (repo_error + ledger_row)" where
  "add_period_usage_and_settle_overage now usage periodStart periodEnd periodCredit reservation db =
     (if ul_UserID usage = 0 \<or> is_zero periodStart \<or> \<not> periodEnd > periodStart \<or> periodCredit < 0
      then (db, Inl InvalidInput)
      else run_tx (period_body now usage periodStart periodEnd periodCredit reservation) db)"

section \<open>The reservations of a database\<close>

text \<open>
  Identifiers are positions, a user has one reservation per reference number, the reserved
  amounts are not negative, and a settled reservation names an entry of the ledger.
\<close>

definition reservations_ok :: "billing_db \<Rightarrow> bool" where
  "reservations_ok db \<longleftrightarrow>
     map rv_ID (db_reservations db) = map Suc [0..<length (db_reservations db)] \<and>
     distinct (map (\<lambda>r. (rv_UserID r, rv_RefNo r)) (db_reservations db)) \<and>
     (\<forall>r \<in> set (db_reservations db). 0 \<le> rv_BalanceNanousd r \<and> 0 \<le> rv_PeriodCreditNanousd r \<and>
        (rv_Status r = RsvSettled \<longrightarrow> 0 < rv_UsageLedgerID r \<and> rv_UsageLedgerID r \<le> length (db_ledger db)))"

lemma reservations_ok_empty: "reservations_ok empty_db"
  by (simp add: reservations_ok_def empty_db_def)

lemma distinct_ids: "reservations_ok db \<Longrightarrow> distinct (map rv_ID (db_reservations db))"
  by (simp add: reservations_ok_def distinct_map)

text \<open>An update of the reservations that keeps their keys and amounts.\<close>

lemma map_reservations_ok:
  assumes "reservations_ok db"
    and "\<And>r. rv_ID (f r) = rv_ID r \<and> rv_UserID (f r) = rv_UserID r \<and> rv_RefNo (f r) = rv_RefNo r \<and>
      rv_BalanceNanousd (f r) = rv_BalanceNanousd r \<and> rv_PeriodCreditNanousd (f r) = rv_PeriodCreditNanousd r"
    and "\<And>r. rv_Status (f r) = RsvSettled \<Longrightarrow>
      rv_Status r = RsvSettled \<and> rv_UsageLedgerID (f r) = rv_UsageLedgerID r \<or>
      0 < rv_UsageLedgerID (f r) \<and> rv_UsageLedgerID (f r) \<le> length (db_ledger db)"
  shows "reservations_ok (db\<lparr>db_reservations := map f (db_reservations db)\<rparr>)"
proof -
  have "map rv_ID (map f rs) = map rv_ID rs"
    "map (\<lambda>r. (rv_UserID r, rv_RefNo r)) (map f rs) = map (\<lambda>r. (rv_UserID r, rv_RefNo r)) rs" for rs
    using assms(2) by simp_all
  moreover have "0 < rv_UsageLedgerID (f r) \<and> rv_UsageLedgerID (f r) \<le> length (db_ledger db)"
    if "r \<in> set (db_reservations db)" "rv_Status (f r) = RsvSettled" for r
    using assms(1,3) that by (force simp: reservations_ok_def)
  ultimately show ?thesis
    using assms(1,2) unfolding reservations_ok_def by (simp del: map_map)
qed

lemma release_ok:
  "reservations_ok db \<Longrightarrow> release_usage_balance_reservation now u ref db = (db', r) \<Longrightarrow> reservations_ok db'"
  by (auto simp: release_usage_balance_reservation_def Let_def update_reservation_def
      intro!: map_reservations_ok split: if_splits option.splits)

lemma renew_ok:
  "reservations_ok db \<Longrightarrow> renew_usage_balance_reservation now u ref db = (db', r) \<Longrightarrow> reservations_ok db'"
  by (auto simp: renew_usage_balance_reservation_def Let_def intro!: map_reservations_ok split: if_splits)

lemma mark_ok:
  "reservations_ok db \<Longrightarrow> mark_usage_reservation_reconciliation_required now u ref code db = (db', r) \<Longrightarrow>
     reservations_ok db'"
  by (auto simp: mark_usage_reservation_reconciliation_required_def Let_def intro!: map_reservations_ok split: if_splits)

lemma settle_ok:
  assumes "reservations_ok db" "0 < lid" "lid \<le> length (db_ledger db)"
  shows "reservations_ok (settle_usage_reservation now res lid db)"
  using assms by (auto simp: settle_usage_reservation_def update_reservation_def intro!: map_reservations_ok split: option.splits if_splits)

section \<open>Reserving\<close>

lemma remaining_budget:
  "remaining_non_negative_budget limit consumed reserved = max 0 (limit - max 0 consumed - max 0 reserved)"
  by (auto simp: remaining_non_negative_budget_def clamp_non_negative_def Let_def)

lemma divide_budget_bound: "0 \<le> divide_budget_across_slots a n \<and> (0 < a \<and> 0 < n \<longrightarrow> divide_budget_across_slots a n \<le> a)"
proof (cases "a \<le> 0 \<or> n \<le> 0")
  case False
  then have pos: "0 < a" "0 < n" by auto
  have le: "a div n \<le> a" using zdiv_mono2 [of a 1 n] pos by simp
  have less: "a mod n \<noteq> 0 \<Longrightarrow> a div n + 1 \<le> a"
    using pos int_div_less_self [of a n] by (cases "n = 1") simp_all
  have "0 \<le> a div n" using pos by (simp add: pos_imp_zdiv_nonneg_iff)
  with pos le less show ?thesis
    by (simp add: divide_budget_across_slots_def go_div_pos go_mod_def Let_def minus_mult_div_eq_mod)
qed (auto simp: divide_budget_across_slots_def)


lemma scan64_Inr [simp]: "scan64 x = Inr y \<longleftrightarrow> in_int64 x \<and> y = x"
  by (auto simp: scan64_def)

lemma sum_occupying_nonneg:
  "reservations_ok db \<Longrightarrow> 0 \<le> active_balance_reservations db u now"
  "reservations_ok db \<Longrightarrow> 0 \<le> active_period_credit_reservations db u s e x now"
  by (auto simp: active_balance_reservations_def active_period_credit_reservations_def reservations_ok_def
      intro!: sum_list_nonneg)

lemma same_tables:
  assumes "db_reservations db' = db_reservations db" "db_ledger db' = db_ledger db"
  shows "find_reservation db' = find_reservation db"
    "count_active_usage_reservations db' = count_active_usage_reservations db"
    "active_balance_reservations db' = active_balance_reservations db"
    "active_period_credit_reservations db' = active_period_credit_reservations db"
    "period_usage db' = period_usage db" "available_credit t q db' = available_credit t q db"
proof -
  show *: "active_period_credit_reservations db' = active_period_credit_reservations db"
    "period_usage db' = period_usage db"
    by (simp_all add: fun_eq_iff active_period_credit_reservations_def period_usage_def assms)
  show "find_reservation db' = find_reservation db"
    "count_active_usage_reservations db' = count_active_usage_reservations db"
    "active_balance_reservations db' = active_balance_reservations db"
    by (simp_all add: fun_eq_iff find_reservation_def count_active_usage_reservations_def
        active_balance_reservations_def assms)
  show "available_credit t q db' = available_credit t q db" unfolding available_credit_def * ..
qed

text \<open>What a successful reservation has checked.\<close>

lemma reserve_cases:
  assumes "reserve_usage_balance now q db = (db', Inr r)"
  obtains a db1 credit where
    "valid_request q" "get_or_create_billing_account (rq_UserID q) db = Inr (a, db1)"
    "find_reservation db (rq_UserID q) (trim_space (rq_RefNo q)) = None"
    "count_active_usage_reservations db (rq_UserID q) now < 5" "0 \<le> ba_BalanceNanousd a"
    "available_credit now q db = Inr credit"
    "db' = db1\<lparr>db_reservations := db_reservations db @ [r]\<rparr>"
    "rv_ID r = Suc (length (db_reservations db))" "rv_UserID r = rq_UserID q" "rv_RefNo r = trim_space (rq_RefNo q)"
    "rv_Status r = RsvActive" "rv_ExpiresAt r = now + usage_reservation_ttl"
    "rv_PeriodStartAt r = rq_PeriodStartAt q" "rv_PeriodEndAt r = rq_PeriodEndAt q"
    "rv_PeriodLimitNanousd r = rq_PeriodCreditNanousd q"
    "0 < rv_BalanceNanousd r + rv_PeriodCreditNanousd r"
    "rv_PeriodCreditNanousd r = min (rv_BalanceNanousd r + rv_PeriodCreditNanousd r) credit"
    "rv_BalanceNanousd r + rv_PeriodCreditNanousd r \<le> add_non_negative_int64 credit
       (remaining_non_negative_budget (ba_BalanceNanousd a) (active_balance_reservations db (rq_UserID q) now) 0)"
proof -
  from assms have v: "valid_request q" and body: "reserve_body now q db = Inr (r, db')"
    by (auto simp: reserve_usage_balance_def run_tx_Inr split: if_splits)
  from body obtain a db1 where acc: "get_or_create_billing_account (rq_UserID q) db = Inr (a, db1)"
    by (auto simp: reserve_body_def Let_def split: sum.splits)
  note o = get_or_create_other [OF acc]
  note same = same_tables [OF o(1,2)]
  show thesis
    using body that [OF v acc]
    by (auto simp: reserve_body_def acc same o Let_def usage_reservation_max_active_per_user_def
        split: if_splits sum.splits)
qed

lemma reserve_ok:
  assumes "reservations_ok db" "reserve_usage_balance now q db = (db', res)"
  shows "reservations_ok db'"
proof (cases res)
  case (Inl err)
  then show ?thesis using assms by (auto simp: reserve_usage_balance_def dest: run_tx_Inl split: if_splits)
next
  case (Inr r)
  from assms(2)[unfolded Inr] show ?thesis
  proof (cases rule: reserve_cases)
    case (1 a db1 credit)
    have credit: "0 \<le> credit"
      using 1(6) by (auto simp: available_credit_def remaining_budget Let_def split: if_splits sum.splits)
    have fresh: "(rv_UserID r, rv_RefNo r) \<notin> (\<lambda>r. (rv_UserID r, rv_RefNo r)) ` set (db_reservations db)"
      using 1(3,9,10) by (auto simp: find_reservation_def find_None_iff)
    have ids: "map rv_ID (db_reservations db @ [r]) = map Suc [0..<length (db_reservations db @ [r])]"
      using assms(1) 1(8) by (simp add: reservations_ok_def)
    have led: "db_ledger db' = db_ledger db" using get_or_create_other [OF 1(2)] 1(7) by simp
    show ?thesis
      using assms(1) fresh ids 1(11,16,17) credit unfolding reservations_ok_def 1(7) led [unfolded 1(7)] by auto
  qed
qed

text \<open>
  C7: A reservation never promises more than there is: it is positive, at most five occupy a
  user's budget after it, what they reserve of the balance does not exceed the balance when it
  takes part of it, and what is used and reserved of the period's credit does not exceed the
  credit when it takes part of that.
\<close>

theorem reservation_within_budget:
  assumes "reserve_usage_balance now q db = (db', Inr r)" "reservations_ok db"
  shows "0 < rv_BalanceNanousd r + rv_PeriodCreditNanousd r \<and>
    count_active_usage_reservations db' (rq_UserID q) now \<le> 5 \<and>
    (rv_BalanceNanousd r > 0 \<longrightarrow>
       active_balance_reservations db' (rq_UserID q) now \<le> balance_of (rq_UserID q) db') \<and>
    (rv_PeriodCreditNanousd r > 0 \<longrightarrow> (\<exists>s e. rq_PeriodStartAt q = Some s \<and> rq_PeriodEndAt q = Some e \<and>
       max 0 (period_usage db' (rq_UserID q) s e) + active_period_credit_reservations db' (rq_UserID q) s e 0 now
         \<le> rq_PeriodCreditNanousd q))"
  using assms(1)
proof (cases rule: reserve_cases)
  case (1 a db1 credit)
  let ?u = "rq_UserID q"
  note o = get_or_create_other [OF 1(2)]
  have occ: "occupying ?u now r" using 1(9,11,12) by (simp add: occupying_def usage_reservation_ttl_def)
  have nn: "0 \<le> active_balance_reservations db ?u now" by (rule sum_occupying_nonneg(1) [OF assms(2)])
  have bal: "balance_of ?u db' = ba_BalanceNanousd a"
    using get_or_create_balance [OF 1(2)] unfolding 1(7) by (simp add: balance_of_def)
  have act: "active_balance_reservations db' ?u now = active_balance_reservations db ?u now + rv_BalanceNanousd r"
    using occ unfolding 1(7) by (simp add: active_balance_reservations_def)
  have count: "count_active_usage_reservations db' ?u now \<le> 5"
    using occ 1(4) unfolding 1(7) by (simp add: count_active_usage_reservations_def)
  have credit: "0 \<le> credit"
    using 1(6) by (auto simp: available_credit_def remaining_budget Let_def split: if_splits sum.splits)
  have total: "rv_BalanceNanousd r + rv_PeriodCreditNanousd r \<le>
      credit + max 0 (ba_BalanceNanousd a - active_balance_reservations db ?u now)"
    using 1(18) nn credit by (auto simp: add_non_negative_int64_def remaining_budget Let_def split: if_splits)
  have "rv_BalanceNanousd r > 0 \<longrightarrow> active_balance_reservations db' ?u now \<le> balance_of ?u db'"
    using total 1(17) unfolding act bal by (auto simp: min_def max_def split: if_splits)
  moreover have "\<exists>s e. rq_PeriodStartAt q = Some s \<and> rq_PeriodEndAt q = Some e \<and>
       max 0 (period_usage db' ?u s e) + active_period_credit_reservations db' ?u s e 0 now \<le> rq_PeriodCreditNanousd q"
    if pos: "rv_PeriodCreditNanousd r > 0"
  proof -
    have le: "rv_PeriodCreditNanousd r \<le> credit" using 1(17) by simp
    with pos have "trim_space (rq_Mode q) = ''period''" using 1(6) by (auto simp: available_credit_def split: if_splits)
    with 1(1) obtain s e where se: "rq_PeriodStartAt q = Some s" "rq_PeriodEndAt q = Some e"
      by (auto simp: valid_request_def split: option.splits)
    with \<open>trim_space (rq_Mode q) = ''period''\<close> 1(6) have c: "credit = max 0 (rq_PeriodCreditNanousd q - max 0 (period_usage db ?u s e) -
        max 0 (active_period_credit_reservations db ?u s e 0 now))"
      by (auto simp: available_credit_def remaining_budget Let_def split: sum.splits)
    have "active_period_credit_reservations db' ?u s e 0 now =
        active_period_credit_reservations db ?u s e 0 now + rv_PeriodCreditNanousd r"
      using occ 1(13,14) se unfolding 1(7) by (simp add: active_period_credit_reservations_def)
    moreover have "period_usage db' ?u s e = period_usage db ?u s e"
      unfolding 1(7) by (simp add: period_usage_def o)
    moreover have "0 \<le> active_period_credit_reservations db ?u s e 0 now"
      by (rule sum_occupying_nonneg(2) [OF assms(2)])
    ultimately show ?thesis using se le pos c by (intro exI conjI) auto
  qed
  ultimately show ?thesis using 1(16) count by blast
qed

section \<open>Settling\<close>

lemma debit_entry_spec:
  assumes "debit_entry a amount res row db = Inr (row', db')" "0 \<le> amount" "books_balance db"
    and "db_accounts db u = Some a" "ul_UserID (lr_usage row) = u"
  shows "books_balance db'" "db_reservations db' = db_reservations db" "db_ledger db' = db_ledger db @ [row']"
    "row' = row\<lparr>lr_BalanceAfterNanousd := Some (balance_of u db')\<rparr>"
    "balance_of u db' = balance_of u db - amount" "v \<noteq> u \<Longrightarrow> balance_of v db' = balance_of v db"
    "db_accounts db' u \<noteq> None"
proof -
  have a: "ba_UserID a = u" "balance_of u db = ba_BalanceNanousd a"
    using assms(3,4) by (auto simp: books_balance_def balance_of_def)
  have int: "in_int64 (ba_BalanceNanousd a)" using books_int64 [OF assms(3), of u] a by simp
  define db1 where "db1 = db\<lparr>db_ledger := db_ledger db @ [row\<lparr>lr_BalanceAfterNanousd :=
      Some (wrap64 (ba_BalanceNanousd a - amount))\<rparr>]\<rparr>"
  have b1: "books_balance db1" "db_accounts db1 u = Some a" using assms(3,4) by (simp_all add: db1_def)
  have main: "books_balance db' \<and> db_reservations db' = db_reservations db \<and> db_ledger db' = db_ledger db @ [row'] \<and>
      row' = row\<lparr>lr_BalanceAfterNanousd := Some (balance_of u db')\<rparr> \<and>
      balance_of u db' = balance_of u db - amount \<and> (v \<noteq> u \<longrightarrow> balance_of v db' = balance_of v db) \<and>
      db_accounts db' u \<noteq> None"
  proof (cases "amount > 0")
    case True
    let ?b = "ba_BalanceNanousd a - amount"
    define t where "t = \<lparr>bt_AccountID = ba_ID a, bt_UserID = u, bt_Type = TxUsage, bt_AmountNanousd = - amount,
      bt_BalanceAfterNanousd = wrap64 ?b, bt_RefType = ''usage_ledger'', bt_RefID = Suc (length (db_ledger db)),
      bt_RefNo = reservation_ref_no res\<rparr>"
    have eq: "debit_entry a amount res row db = (case add_balance a (- amount) db1 of Inl err \<Rightarrow> Inl err
        | Inr (_, db2) \<Rightarrow> Inr (row\<lparr>lr_BalanceAfterNanousd := Some (wrap64 ?b)\<rparr>, add_transaction t db2))"
      using True assms(5) by (auto simp: debit_entry_def Let_def db1_def t_def split: sum.split)
    have d: "in_int64 ?b" "db' = add_transaction t (put_balance a ?b db1)"
      "row' = row\<lparr>lr_BalanceAfterNanousd := Some ?b\<rparr>"
      using assms(1) unfolding eq by (auto simp: add_balance_def Let_def split: if_splits)
    then have d': "bt_UserID t = u" "bt_BalanceAfterNanousd t = ?b" "bt_AmountNanousd t = - amount"
      by (simp_all add: t_def)
    have "books_balance db'"
      unfolding d(2) by (rule posting_books [OF b1]) (use d d' in simp_all)
    with d a show ?thesis
      by (simp add: add_transaction_def put_balance_def db1_def balance_of_def)
  next
    case False
    then have amount: "amount = 0" using assms(2) by simp
    then have "row' = row\<lparr>lr_BalanceAfterNanousd := Some (ba_BalanceNanousd a)\<rparr>" "db' = db1"
      using assms(1) int by (auto simp: debit_entry_def Let_def db1_def)
    moreover have "balance_of w db1 = balance_of w db" for w by (simp add: balance_of_def db1_def)
    ultimately show ?thesis
      using b1 a amount int by (simp add: db1_def)
  qed
  show "books_balance db'" "db_reservations db' = db_reservations db" "db_ledger db' = db_ledger db @ [row']"
    "row' = row\<lparr>lr_BalanceAfterNanousd := Some (balance_of u db')\<rparr>"
    "balance_of u db' = balance_of u db - amount" "v \<noteq> u \<Longrightarrow> balance_of v db' = balance_of v db"
    "db_accounts db' u \<noteq> None"
    using main by blast+
qed

text \<open>
  The debit on the books: the account of the user, and when the amount is positive one new transaction
  that names the newest ledger entry and shows the balance after it.
\<close>

definition debit_posted :: "nat \<Rightarrow> int \<Rightarrow> string \<Rightarrow> billing_db \<Rightarrow> billing_db \<Rightarrow> bool" where
  "debit_posted u amount refNo db db' \<longleftrightarrow> (\<exists>a. db_accounts db' u = Some a \<and>
     db_transactions db' = db_transactions db @
       (if 0 < amount then [\<lparr>bt_AccountID = ba_ID a, bt_UserID = u, bt_Type = TxUsage, bt_AmountNanousd = - amount,
          bt_BalanceAfterNanousd = balance_of u db', bt_RefType = ''usage_ledger'', bt_RefID = length (db_ledger db'),
          bt_RefNo = refNo\<rparr>] else []))"

lemma debit_entry_posted:
  assumes "debit_entry a amount res row db = Inr (row', db')" "0 \<le> amount" "books_balance db"
    and "db_accounts db u = Some a" "ul_UserID (lr_usage row) = u"
  shows "debit_posted u amount (reservation_ref_no res) db db'"
proof -
  have a: "ba_UserID a = u" "balance_of u db = ba_BalanceNanousd a"
    using assms(3,4) by (auto simp: books_balance_def balance_of_def)
  have int: "in_int64 (ba_BalanceNanousd a)" using books_int64 [OF assms(3), of u] a by simp
  show ?thesis
  proof (cases "amount > 0")
    case True
    then show ?thesis using assms(1,5) a
      by (auto simp: debit_posted_def debit_entry_def Let_def add_balance_def add_transaction_def put_balance_def
        balance_of_def split: if_splits)
  next
    case False
    then show ?thesis using assms(1,4) by (auto simp: debit_posted_def debit_entry_def Let_def)
  qed
qed

lemma settle_other [simp]:
  "books_balance (settle_usage_reservation now r l db) = books_balance db"
  "db_ledger (settle_usage_reservation now r l db) = db_ledger db"
  "db_accounts (settle_usage_reservation now r l db) = db_accounts db"
  "db_transactions (settle_usage_reservation now r l db) = db_transactions db"
  "balance_of u (settle_usage_reservation now r l db) = balance_of u db"
  by (simp_all add: settle_usage_reservation_def update_reservation_def balance_of_def split: option.split)

lemma charge_of_nonneg [simp]: "0 \<le> charge_of usage"
  by (simp add: charge_of_def)

lemma find_map: "(\<And>x. P (f x) = P x) \<Longrightarrow> find P (map f xs) = map_option f (find P xs)"
  by (induction xs) auto

text \<open>The reservation a settlement found is settled afterwards, with the entry it wrote.\<close>

lemma settled_afterwards:
  assumes "reservation_for_settlement db u (Some q) = Inr (Some (r, b))" "db_reservations db' = db_reservations db" "0 < lid"
  shows "reservation_for_settlement (settle_usage_reservation now (Some r) lid db') u (Some q) =
    Inr (Some (r\<lparr>rv_Status := RsvSettled, rv_UsageLedgerID := lid, rv_SettledAt := Some now\<rparr>, True))"
proof -
  let ?P = "\<lambda>r. rv_UserID r = u \<and> rv_RefNo r = trim_space (rv_RefNo q) \<and> (rv_ID q > 0 \<longrightarrow> rv_ID r = rv_ID q)"
  let ?f = "\<lambda>x. if rv_ID x = rv_ID r
      then x\<lparr>rv_Status := RsvSettled, rv_UsageLedgerID := lid, rv_SettledAt := Some now\<rparr> else x"
  have "find ?P (db_reservations db) = Some r" and g: "\<not> (u = 0 \<or> (rv_UserID q \<noteq> 0 \<and> rv_UserID q \<noteq> u) \<or> trim_space (rv_RefNo q) = [])"
    using assms(1) by (auto simp: reservation_for_settlement_def split: if_splits option.splits reservation_status.splits)
  moreover have "find ?P (map ?f (db_reservations db)) = map_option ?f (find ?P (db_reservations db))"
    by (rule find_map) simp
  ultimately have "find ?P (map ?f (db_reservations db)) =
      Some (r\<lparr>rv_Status := RsvSettled, rv_UsageLedgerID := lid, rv_SettledAt := Some now\<rparr>)" by simp
  then show ?thesis
    using g assms(2,3)
    by (simp add: reservation_for_settlement_def settle_usage_reservation_def update_reservation_def)
qed

text \<open>
  Both settlements have the same shape: a retry returns the stored entry and changes nothing
  but perhaps the account's existence; a first settlement writes one entry, debits \<open>amount\<close> and
  settles the reservation.
\<close>

definition settlement_retry :: "nat \<Rightarrow> usage_reservation option \<Rightarrow> billing_db \<Rightarrow> billing_db \<Rightarrow> ledger_row \<Rightarrow> bool" where
  "settlement_retry u res db db' row \<longleftrightarrow>
     (\<exists>a r. get_or_create_billing_account u db = Inr (a, db') \<and>
        reservation_for_settlement db u res = Inr (Some (r, True)) \<and>
        rv_UsageLedgerID r \<noteq> 0 \<and> rv_UsageLedgerID r \<le> length (db_ledger db) \<and>
        row = db_ledger db ! (rv_UsageLedgerID r - 1))"

definition settled_rows ::
    "gtime \<Rightarrow> usage_reservation option \<Rightarrow> nat \<Rightarrow> usage_reservation list \<Rightarrow> usage_reservation list" where
  "settled_rows now own lid rows = (case own of None \<Rightarrow> rows
     | Some r \<Rightarrow> map (\<lambda>x. if rv_ID x = rv_ID r
         then x\<lparr>rv_Status := RsvSettled, rv_UsageLedgerID := lid, rv_SettledAt := Some now\<rparr> else x) rows)"

lemma settle_rows [simp]:
  "db_reservations (settle_usage_reservation now own lid db) = settled_rows now own lid (db_reservations db)"
  by (simp add: settle_usage_reservation_def update_reservation_def settled_rows_def split: option.split)

definition settlement_first ::
    "gtime \<Rightarrow> nat \<Rightarrow> int \<Rightarrow> usage_reservation option \<Rightarrow> billing_db \<Rightarrow> billing_db \<Rightarrow> ledger_row \<Rightarrow> bool" where
  "settlement_first now u amount res db db' row \<longleftrightarrow>
     (\<exists>own. (case own of None \<Rightarrow> reservation_for_settlement db u res = Inr None
             | Some r \<Rightarrow> reservation_for_settlement db u res = Inr (Some (r, False))) \<and>
        db_ledger db' = db_ledger db @ [row] \<and>
        lr_BalanceAfterNanousd row = Some (balance_of u db') \<and>
        balance_of u db' = balance_of u db - amount \<and> (\<forall>v. v \<noteq> u \<longrightarrow> balance_of v db' = balance_of v db) \<and>
        db_accounts db' u \<noteq> None \<and>
        db_reservations db' = settled_rows now own (Suc (length (db_ledger db))) (db_reservations db) \<and>
        debit_posted u amount (reservation_ref_no res) db db')"

lemma restore_Inr:
  "restore_settled_usage_ledger db l = Inr row \<longleftrightarrow>
     l \<noteq> 0 \<and> l \<le> length (db_ledger db) \<and> row = db_ledger db ! (l - 1)"
  by (auto simp: restore_settled_usage_ledger_def)

lemma map_sum_id_Inr: "map_sum id f x = Inr y \<longleftrightarrow> (\<exists>z. x = Inr z \<and> y = f z)"
  by (cases x) auto

lemma reservation_for_settlement_other:
  assumes "db_reservations db' = db_reservations db"
  shows "reservation_for_settlement db' u r = reservation_for_settlement db u r"
  unfolding reservation_for_settlement_def assms ..

lemma settlement_first_books:
  assumes acc: "get_or_create_billing_account u db0 = Inr (a, db)" and "books_balance db0"
    and d: "debit_entry a amount res row0 db = Inr (row, db1)" "0 \<le> amount" "ul_UserID (lr_usage row0) = u"
    and own: "case own of None \<Rightarrow> reservation_for_settlement db u res = Inr None
             | Some r \<Rightarrow> reservation_for_settlement db u res = Inr (Some (r, False))"
    and db': "db' = settle_usage_reservation now own (length (db_ledger db1)) db1"
  shows "books_balance db' \<and> settlement_first now u amount res db0 db' row \<and>
    row = row0\<lparr>lr_BalanceAfterNanousd := Some (balance_of u db')\<rparr>"
proof -
  note g = get_or_create_books [OF acc assms(2)]
  note o = get_or_create_other [OF acc]
  have g': "books_balance db" "db_accounts db u = Some a" using g by blast+
  have eqs: "balance_of v db = balance_of v db0" for v using get_or_create_books [OF acc assms(2)] by blast
  note e = debit_entry_spec [OF d(1,2) g' d(3)]
  have own': "case own of None \<Rightarrow> reservation_for_settlement db0 u res = Inr None
             | Some r \<Rightarrow> reservation_for_settlement db0 u res = Inr (Some (r, False))"
    using own reservation_for_settlement_other [OF o(1)] by (simp split: option.splits)
  have posted: "debit_posted u amount (reservation_ref_no res) db0 db'"
    using debit_entry_posted [OF d(1,2) g' d(3)] unfolding db' debit_posted_def settle_other o(3) .
  have "settlement_first now u amount res db0 db' row"
    unfolding settlement_first_def
  proof (intro exI [of _ own] conjI)
    show "db_reservations db' = settled_rows now own (Suc (length (db_ledger db0))) (db_reservations db0)"
      using e(2,3) o(1,2) by (simp add: db')
  qed (use own' e o eqs posted in \<open>simp_all add: db'\<close>)
  then show ?thesis using e(1,4) by (simp add: db')
qed

lemma usage_body_cases:
  assumes "usage_body now usage res db = Inr (row, db')" "books_balance db"
  obtains (retry) "settlement_retry (ul_UserID usage) res db db' row"
  | (first) "settlement_first now (ul_UserID usage) (charge_of usage) res db db' row" "books_balance db'" "lr_usage row = usage"
      "\<And>r. reservation_for_settlement db (ul_UserID usage) res = Inr (Some (r, False)) \<Longrightarrow> rv_Mode r = ''usage''"
proof -
  let ?u = "ul_UserID usage"
  obtain a db1 own where acc: "get_or_create_billing_account ?u db = Inr (a, db1)"
    and own: "reservation_for_settlement db1 ?u res = Inr own"
    and mode: "\<not> (case own of Some (r, _) \<Rightarrow> rv_Mode r \<noteq> ''usage'' | None \<Rightarrow> False)"
    and rest: "(case own of
            Some (r, True) \<Rightarrow> map_sum id (\<lambda>row. (row, db1)) (restore_settled_usage_ledger db1 (rv_UsageLedgerID r))
          | _ \<Rightarrow> map_sum id (\<lambda>(row, db). (row, settle_usage_reservation now (map_option fst own) (length (db_ledger db)) db))
              (debit_entry a (charge_of usage) res
                \<lparr>lr_usage = usage, lr_BalanceAfterNanousd = None, lr_settlement = None\<rparr> db1)) = Inr (row, db')"
    using assms(1) by (auto simp: usage_body_def split: sum.splits if_splits)
  note o = get_or_create_other [OF acc]
  have own0: "reservation_for_settlement db ?u res = Inr own"
    using own reservation_for_settlement_other [OF o(1)] by simp
  show thesis
  proof (cases "\<exists>r. own = Some (r, True)")
    case True
    then obtain r where r: "own = Some (r, True)" by blast
    then show thesis
      using retry rest acc own0 o(2) by (auto simp: settlement_retry_def map_sum_id_Inr restore_Inr)
  next
    case False
    then obtain row1 db2 where d: "debit_entry a (charge_of usage) res
          \<lparr>lr_usage = usage, lr_BalanceAfterNanousd = None, lr_settlement = None\<rparr> db1 = Inr (row1, db2)"
        "row = row1" "db' = settle_usage_reservation now (map_option fst own) (length (db_ledger db2)) db2"
      using rest by (auto simp: map_sum_id_Inr split: option.splits prod.splits bool.splits)
    have "case map_option fst own of None \<Rightarrow> reservation_for_settlement db1 ?u res = Inr None
             | Some r \<Rightarrow> reservation_for_settlement db1 ?u res = Inr (Some (r, False))"
      using own False by (cases own) auto
    from settlement_first_books [OF acc assms(2) d(1) _ _ this d(3)] d(2) mode own0 show thesis
      using first by (auto split: option.splits)
  qed
qed

lemma period_body_cases:
  assumes "period_body now usage s e credit res db = Inr (row, db')" "books_balance db"
  obtains (retry) "settlement_retry (ul_UserID usage) res db db' row"
  | (first) ps own where "settlement_first now (ul_UserID usage) (ps_Overage ps) res db db' row" "books_balance db'"
      "lr_usage row = usage" "lr_settlement row = Some ps"
      "period_settlement_of now db usage s e credit own = Inr ps"
      "case own of None \<Rightarrow> reservation_for_settlement db (ul_UserID usage) res = Inr None
       | Some r \<Rightarrow> reservation_for_settlement db (ul_UserID usage) res = Inr (Some (r, False)) \<and>
           matches_period_reservation r s e credit"
proof -
  let ?u = "ul_UserID usage"
  obtain a db1 own where acc: "get_or_create_billing_account ?u db = Inr (a, db1)"
    and own: "reservation_for_settlement db1 ?u res = Inr own"
    and match: "\<not> (case own of Some (r, _) \<Rightarrow> \<not> matches_period_reservation r s e credit | None \<Rightarrow> False)"
    and rest: "(case own of
            Some (r, True) \<Rightarrow> map_sum id (\<lambda>row. (row, db1)) (restore_settled_usage_ledger db1 (rv_UsageLedgerID r))
          | _ \<Rightarrow> (case period_settlement_of now db1 usage s e credit (map_option fst own) of Inl err \<Rightarrow> Inl err
            | Inr ps \<Rightarrow> map_sum id (\<lambda>(row, db). (row, settle_usage_reservation now (map_option fst own) (length (db_ledger db)) db))
                (debit_entry a (ps_Overage ps) res
                  \<lparr>lr_usage = usage, lr_BalanceAfterNanousd = None, lr_settlement = Some ps\<rparr> db1))) = Inr (row, db')"
    using assms(1) by (auto simp: period_body_def split: sum.splits if_splits)
  note o = get_or_create_other [OF acc]
  have own0: "reservation_for_settlement db ?u res = Inr own"
    using own reservation_for_settlement_other [OF o(1)] by simp
  have ps0: "period_settlement_of now db1 usage s e credit x = period_settlement_of now db usage s e credit x" for x
    unfolding period_settlement_of_def same_tables [OF o(1,2)] ..
  show thesis
  proof (cases "\<exists>r. own = Some (r, True)")
    case True
    then obtain r where r: "own = Some (r, True)" by blast
    then show thesis
      using retry rest acc own0 o(2) by (auto simp: settlement_retry_def map_sum_id_Inr restore_Inr)
  next
    case False
    then obtain ps row1 db2 where ps: "period_settlement_of now db1 usage s e credit (map_option fst own) = Inr ps"
      and d: "debit_entry a (ps_Overage ps) res
          \<lparr>lr_usage = usage, lr_BalanceAfterNanousd = None, lr_settlement = Some ps\<rparr> db1 = Inr (row1, db2)"
        "row = row1" "db' = settle_usage_reservation now (map_option fst own) (length (db_ledger db2)) db2"
      using rest by (auto simp: map_sum_id_Inr split: option.splits prod.splits bool.splits sum.splits)
    have over: "0 \<le> ps_Overage ps" using ps by (auto simp: period_settlement_of_def Let_def split: sum.splits)
    have own': "case map_option fst own of None \<Rightarrow> reservation_for_settlement db1 ?u res = Inr None
             | Some r \<Rightarrow> reservation_for_settlement db1 ?u res = Inr (Some (r, False))"
      using own False by (cases own) auto
    have own'': "case map_option fst own of None \<Rightarrow> reservation_for_settlement db ?u res = Inr None
             | Some r \<Rightarrow> reservation_for_settlement db ?u res = Inr (Some (r, False)) \<and> matches_period_reservation r s e credit"
      using own0 False match by (cases own) auto
    have f: "books_balance db' \<and> settlement_first now ?u (ps_Overage ps) res db db' row1 \<and>
      row1 = \<lparr>lr_usage = usage, lr_BalanceAfterNanousd = None, lr_settlement = Some ps\<rparr>
        \<lparr>lr_BalanceAfterNanousd := Some (balance_of ?u db')\<rparr>"
      by (rule settlement_first_books [OF acc assms(2) d(1) over _ own' d(3)]) simp
    then have "lr_usage row1 = usage" "lr_settlement row1 = Some ps"
      by (metis ledger_row.select_convs(1) ledger_row.surjective ledger_row.update_convs(2),
          metis ledger_row.select_convs(3) ledger_row.surjective ledger_row.update_convs(2))
    with f own'' ps [unfolded ps0] show thesis unfolding d(2) by (intro first [unfolded d(2)]) blast+
  qed
qed

lemma period_settlement_split:
  assumes "period_settlement_of now db usage s e credit own = Inr ps" "0 \<le> credit"
  shows "ps_CreditCovered ps + ps_Overage ps = charge_of usage" "0 \<le> ps_CreditCovered ps" "0 \<le> ps_Overage ps"
    "0 < ps_CreditCovered ps \<Longrightarrow> max 0 (period_usage db (ul_UserID usage) s e) + ps_CreditCovered ps \<le> credit"
    "ps_UsedBefore ps = period_usage db (ul_UserID usage) s e"
proof -
  let ?charge = "charge_of usage" and ?used = "max 0 (period_usage db (ul_UserID usage) s e)"
  from assms(1) obtain other where ps: "ps = \<lparr>ps_CreditNanousd = credit, ps_UsedBefore = period_usage db (ul_UserID usage) s e,
       ps_UsedAfter = ps_UsedAfter ps, ps_CreditCovered = min ?charge (max 0 (credit - ?used - max 0 other)),
       ps_CreditReserved = ps_CreditReserved ps, ps_Overage = ?charge - min ?charge (max 0 (credit - ?used - max 0 other)),
       ps_BalanceReserved = ps_BalanceReserved ps, ps_SettlementDelta = ps_SettlementDelta ps\<rparr>"
    unfolding period_settlement_of_def Let_def remaining_budget by (force split: sum.splits)
  define R where "R = max 0 (credit - ?used - max 0 other)"
  have R: "0 \<le> R" "0 < R \<longrightarrow> ?used + R \<le> credit" unfolding R_def by auto
  have f: "ps_CreditCovered ps = min ?charge R" "ps_Overage ps = ?charge - min ?charge R"
    "ps_UsedBefore ps = period_usage db (ul_UserID usage) s e"
    by (subst ps, simp add: R_def)+
  have "0 \<le> ?charge" by simp
  then have m: "0 \<le> min ?charge R" "min ?charge R \<le> ?charge" "min ?charge R \<le> R" using R(1) by simp_all
  show "ps_CreditCovered ps + ps_Overage ps = ?charge" "0 \<le> ps_CreditCovered ps" "0 \<le> ps_Overage ps"
    unfolding f using m by simp_all
  show "0 < ps_CreditCovered ps \<Longrightarrow> ?used + ps_CreditCovered ps \<le> credit"
    unfolding f using m R by linarith
  show "ps_UsedBefore ps = period_usage db (ul_UserID usage) s e" by (rule f(3))
qed

lemma settlement_firstE:
  assumes "settlement_first now u amount res db db' row"
  obtains own where "case own of None \<Rightarrow> reservation_for_settlement db u res = Inr None
             | Some r \<Rightarrow> reservation_for_settlement db u res = Inr (Some (r, False))"
    "db_ledger db' = db_ledger db @ [row]" "lr_BalanceAfterNanousd row = Some (balance_of u db')"
    "balance_of u db' = balance_of u db - amount" "\<forall>v. v \<noteq> u \<longrightarrow> balance_of v db' = balance_of v db"
    "db_accounts db' u \<noteq> None"
    "db_reservations db' = settled_rows now own (Suc (length (db_ledger db))) (db_reservations db)"
    "debit_posted u amount (reservation_ref_no res) db db'"
  using assms unfolding settlement_first_def by (elim exE conjE) (rule that)

lemma settlement_retryE:
  assumes "settlement_retry u res db db' row"
  obtains a r where "get_or_create_billing_account u db = Inr (a, db')"
    "reservation_for_settlement db u res = Inr (Some (r, True))" "rv_UsageLedgerID r \<noteq> 0"
    "rv_UsageLedgerID r \<le> length (db_ledger db)" "row = db_ledger db ! (rv_UsageLedgerID r - 1)"
  using assms unfolding settlement_retry_def by (elim exE conjE) (rule that)

lemma settlement_ok:
  assumes "reservations_ok db" "settlement_retry u res db db' row \<or> settlement_first now u amount res db db' row"
  shows "reservations_ok db'"
proof -
  consider (retry) "db_reservations db' = db_reservations db" "db_ledger db' = db_ledger db"
    | (first) own where "db_ledger db' = db_ledger db @ [row]"
      "db_reservations db' = settled_rows now own (Suc (length (db_ledger db))) (db_reservations db)"
    using assms(2)
  proof
    assume "settlement_retry u res db db' row"
    then obtain a where "get_or_create_billing_account u db = Inr (a, db')" by (rule settlement_retryE)
    from get_or_create_other(1,2) [OF this] show thesis by (rule retry)
  next
    assume "settlement_first now u amount res db db' row"
    then show thesis by (elim settlement_firstE) (rule first)
  qed
  then show ?thesis
  proof cases
    case retry
    then show ?thesis using assms(1) by (simp add: reservations_ok_def)
  next
    case first
    have ok: "reservations_ok (db\<lparr>db_ledger := db_ledger db @ [row]\<rparr>)"
      using assms(1) by (auto simp: reservations_ok_def)
    define db1 where "db1 = settle_usage_reservation now own (Suc (length (db_ledger db))) (db\<lparr>db_ledger := db_ledger db @ [row]\<rparr>)"
    have "reservations_ok db1" unfolding db1_def by (rule settle_ok [OF ok]) simp_all
    moreover have "db_reservations db1 = db_reservations db'" "db_ledger db1 = db_ledger db'"
      using first by (simp_all add: db1_def)
    ultimately show ?thesis by (simp add: reservations_ok_def)
  qed
qed

lemma add_usage_cases:
  assumes "add_usage_and_settle_balance now usage res db = (db', r)" "books_balance db"
  obtains (error) err where "r = Inl err" "db' = db"
  | (retry) row where "r = Inr row" "settlement_retry (ul_UserID usage) res db db' row"
  | (first) row where "r = Inr row" "settlement_first now (ul_UserID usage) (charge_of usage) res db db' row"
      "books_balance db'" "lr_usage row = usage"
  using assms unfolding add_usage_and_settle_balance_def
  by (elim run_tx_cases) (auto elim: usage_body_cases)

lemma add_period_cases:
  assumes "add_period_usage_and_settle_overage now usage s e credit res db = (db', r)" "books_balance db"
  obtains (error) err where "r = Inl err" "db' = db"
  | (retry) row where "r = Inr row" "settlement_retry (ul_UserID usage) res db db' row"
  | (first) row ps own where "r = Inr row" "settlement_first now (ul_UserID usage) (ps_Overage ps) res db db' row"
      "books_balance db'" "lr_usage row = usage" "lr_settlement row = Some ps"
      "period_settlement_of now db usage s e credit own = Inr ps" "0 \<le> credit"
      "case own of None \<Rightarrow> reservation_for_settlement db (ul_UserID usage) res = Inr None
       | Some r \<Rightarrow> reservation_for_settlement db (ul_UserID usage) res = Inr (Some (r, False))"
proof (cases "ul_UserID usage = 0 \<or> is_zero s \<or> \<not> e > s \<or> credit < 0")
  case True
  then show thesis using assms(1) error by (auto simp: add_period_usage_and_settle_overage_def)
next
  case False
  then have r: "run_tx (period_body now usage s e credit res) db = (db', r)"
    using assms(1) by (simp add: add_period_usage_and_settle_overage_def)
  then show thesis
  proof (cases rule: run_tx_cases)
    case (abort err)
    then show thesis using error by simp
  next
    case (commit row)
    from commit(1) assms(2) show thesis
    proof (cases rule: period_body_cases)
      case (first ps own)
      then show thesis
        by (intro that(3) [of row ps own]) (use commit(2) False in \<open>auto split: option.splits\<close>)
    qed (use commit(2) retry in auto)
  qed
qed

text \<open>
  What a settlement does to the reservation it is given: the row of the user with that reference, which
  still holds budget, is settled with the newest ledger entry; no other row changes.
\<close>

definition reservation_consumed ::
    "gtime \<Rightarrow> nat \<Rightarrow> usage_reservation option \<Rightarrow> usage_reservation option \<Rightarrow> billing_db \<Rightarrow> billing_db \<Rightarrow> bool" where
  "reservation_consumed now u given own db db' \<longleftrightarrow> (case given of
     None \<Rightarrow> own = None \<and> db_reservations db' = db_reservations db
   | Some q \<Rightarrow> \<exists>r \<in> set (db_reservations db). own = Some r \<and> rv_UserID r = u \<and> rv_RefNo r = trim_space (rv_RefNo q) \<and>
       (rv_Status r = RsvActive \<or> rv_Status r = RsvReconciliation) \<and>
       db_reservations db' = map (\<lambda>x. if rv_ID x = rv_ID r
         then x\<lparr>rv_Status := RsvSettled, rv_UsageLedgerID := length (db_ledger db'), rv_SettledAt := Some now\<rparr> else x)
         (db_reservations db))"

lemma first_consumed:
  assumes "settlement_first now u amount res db db' row"
    and "case own of None \<Rightarrow> reservation_for_settlement db u res = Inr None
         | Some r \<Rightarrow> reservation_for_settlement db u res = Inr (Some (r, False))"
  shows "reservation_consumed now u res own db db'"
proof -
  obtain own' where own': "case own' of None \<Rightarrow> reservation_for_settlement db u res = Inr None
         | Some r \<Rightarrow> reservation_for_settlement db u res = Inr (Some (r, False))"
    and l: "db_ledger db' = db_ledger db @ [row]"
    and r: "db_reservations db' = settled_rows now own' (Suc (length (db_ledger db))) (db_reservations db)"
    using assms(1) by (rule settlement_firstE)
  have [simp]: "own' = own" using own' assms(2) by (cases own; cases own') auto
  show ?thesis
  proof (cases res)
    case None
    then have "own = None" using assms(2) by (cases own) (auto simp: reservation_for_settlement_def)
    then show ?thesis using None r by (simp add: reservation_consumed_def settled_rows_def)
  next
    case (Some q)
    then obtain x where x: "own = Some x" "reservation_for_settlement db u (Some q) = Inr (Some (x, False))"
      using assms(2)
      by (cases own) (auto simp: reservation_for_settlement_def split: if_splits option.splits reservation_status.splits)
    then have "x \<in> set (db_reservations db) \<and> rv_UserID x = u \<and> rv_RefNo x = trim_space (rv_RefNo q) \<and>
        (rv_Status x = RsvActive \<or> rv_Status x = RsvReconciliation)"
      by (auto simp: reservation_for_settlement_def find_Some_iff split: if_splits option.splits reservation_status.splits)
    then show ?thesis using Some x(1) r l by (simp add: reservation_consumed_def settled_rows_def)
  qed
qed

text \<open>
  C2: A first settlement is exact: it writes the entry of the call once, with the balance after it, and
  debits the whole charge, no more and no less, from the caller's account alone, whatever was reserved;
  a positive charge is recorded by exactly one transaction that names the entry, and the reservation it
  was given is settled with the entry, no other reservation being touched.
\<close>

theorem usage_settlement_exact:
  assumes "add_usage_and_settle_balance now usage res db = (db', Inr row)" "books_balance db"
    and "\<forall>r. reservation_for_settlement db (ul_UserID usage) res \<noteq> Inr (Some (r, True))"
    and "due = (if ul_IsFreeModel usage then 0 else max 0 (ul_BilledNanousd usage))"
  shows "db_ledger db' = db_ledger db @ [row] \<and> lr_usage row = usage \<and>
    balance_of (ul_UserID usage) db' = balance_of (ul_UserID usage) db - due \<and>
    lr_BalanceAfterNanousd row = Some (balance_of (ul_UserID usage) db') \<and>
    (\<forall>v. v \<noteq> ul_UserID usage \<longrightarrow> balance_of v db' = balance_of v db) \<and>
    debit_posted (ul_UserID usage) due (case res of None \<Rightarrow> [] | Some q \<Rightarrow> trim_space (rv_RefNo q)) db db' \<and>
    (\<exists>own. reservation_consumed now (ul_UserID usage) res own db db')"
  using assms(1,2)
proof (cases rule: add_usage_cases)
  case (retry row')
  then show ?thesis using assms(3) by (auto simp: settlement_retry_def)
next
  case (first row')
  have c: "due = charge_of usage" using assms(4) by (auto simp: charge_of_def)
  obtain own where own: "case own of None \<Rightarrow> reservation_for_settlement db (ul_UserID usage) res = Inr None
             | Some r \<Rightarrow> reservation_for_settlement db (ul_UserID usage) res = Inr (Some (r, False))"
    "db_ledger db' = db_ledger db @ [row']" "lr_BalanceAfterNanousd row' = Some (balance_of (ul_UserID usage) db')"
    "balance_of (ul_UserID usage) db' = balance_of (ul_UserID usage) db - charge_of usage"
    "\<forall>v. v \<noteq> ul_UserID usage \<longrightarrow> balance_of v db' = balance_of v db"
    "debit_posted (ul_UserID usage) (charge_of usage) (reservation_ref_no res) db db'"
    using first(2) by (rule settlement_firstE)
  then show ?thesis using first(1,4) first_consumed [OF first(2) own(1)] by (auto simp: c reservation_ref_no_def)
qed simp

text \<open>
  C29: A period settlement splits the charge: the credit covers exactly what is left of it after what the
  user was charged in the period and what the other reservations of the period still hold, up to the
  charge; the rest, and nothing else, is debited, and recorded by a transaction; the reservation it was
  given is settled.
\<close>

theorem period_settlement_exact:
  assumes "add_period_usage_and_settle_overage now usage s e credit res db = (db', Inr row)" "books_balance db"
    and "\<forall>r. reservation_for_settlement db (ul_UserID usage) res \<noteq> Inr (Some (r, True))"
    and "due = (if ul_IsFreeModel usage then 0 else max 0 (ul_BilledNanousd usage))"
    and "used = (\<Sum>r \<leftarrow> [r \<leftarrow> db_ledger db. ul_UserID (lr_usage r) = ul_UserID usage \<and> \<not> ul_IsFreeModel (lr_usage r) \<and>
      s \<le> ul_BillingAt (lr_usage r) \<and> ul_BillingAt (lr_usage r) < e]. ul_BilledNanousd (lr_usage r))"
  shows "\<exists>ps own others left0. lr_settlement row = Some ps \<and> db_ledger db' = db_ledger db @ [row] \<and> lr_usage row = usage \<and>
    reservation_consumed now (ul_UserID usage) res own db db' \<and>
    others = (\<Sum>r \<leftarrow> [r \<leftarrow> db_reservations db. rv_UserID r = ul_UserID usage \<and>
        (rv_Status r = RsvActive \<and> now < rv_ExpiresAt r \<or> rv_Status r = RsvReconciliation) \<and>
        rv_PeriodStartAt r = Some s \<and> rv_PeriodEndAt r = Some e \<and>
        (\<forall>x. own = Some x \<and> 0 < rv_ID x \<longrightarrow> rv_ID r \<noteq> rv_ID x)]. rv_PeriodCreditNanousd r) \<and>
    left0 = max 0 (credit - max 0 used - max 0 others) \<and>
    ps_CreditCovered ps = min due left0 \<and> ps_Overage ps = due - min due left0 \<and>
    balance_of (ul_UserID usage) db' = balance_of (ul_UserID usage) db - ps_Overage ps \<and>
    (\<forall>v. v \<noteq> ul_UserID usage \<longrightarrow> balance_of v db' = balance_of v db) \<and>
    debit_posted (ul_UserID usage) (ps_Overage ps) (case res of None \<Rightarrow> [] | Some q \<Rightarrow> trim_space (rv_RefNo q)) db db'"
  using assms(1,2)
proof (cases rule: add_period_cases)
  case (retry row')
  then show ?thesis using assms(3) by (auto simp: settlement_retry_def)
next
  case (first row' ps own)
  have c: "due = charge_of usage" using assms(4) by (auto simp: charge_of_def)
  let ?others = "active_period_credit_reservations db (ul_UserID usage) s e (case own of None \<Rightarrow> 0 | Some r \<Rightarrow> rv_ID r) now"
  have o: "?others = (\<Sum>r \<leftarrow> [r \<leftarrow> db_reservations db. rv_UserID r = ul_UserID usage \<and>
        (rv_Status r = RsvActive \<and> now < rv_ExpiresAt r \<or> rv_Status r = RsvReconciliation) \<and>
        rv_PeriodStartAt r = Some s \<and> rv_PeriodEndAt r = Some e \<and>
        (\<forall>x. own = Some x \<and> 0 < rv_ID x \<longrightarrow> rv_ID r \<noteq> rv_ID x)]. rv_PeriodCreditNanousd r)"
    unfolding active_period_credit_reservations_def occupying_def
    by (intro arg_cong [where f = sum_list] arg_cong [where f = "map _"] filter_cong) (auto split: option.splits)
  have u: "used = period_usage db (ul_UserID usage) s e" unfolding assms(5) period_usage_def by simp
  have ps: "ps_CreditCovered ps = min due (max 0 (credit - max 0 used - max 0 ?others)) \<and>
      ps_Overage ps = due - ps_CreditCovered ps"
    using first(6) by (auto simp: period_settlement_of_def Let_def remaining_budget c u split: sum.splits)
  have row: "row' = row" using first(1) by simp
  obtain own' where f: "db_ledger db' = db_ledger db @ [row']" "balance_of (ul_UserID usage) db' = balance_of (ul_UserID usage) db - ps_Overage ps"
    "\<forall>v. v \<noteq> ul_UserID usage \<longrightarrow> balance_of v db' = balance_of v db"
    "debit_posted (ul_UserID usage) (ps_Overage ps) (reservation_ref_no res) db db'"
    using first(2) by (rule settlement_firstE)
  show ?thesis
  proof (intro exI conjI)
    show "lr_settlement row = Some ps" "lr_usage row = usage" using first(4,5) unfolding row by blast+
    show "db_ledger db' = db_ledger db @ [row]" using f(1) unfolding row .
    show "reservation_consumed now (ul_UserID usage) res own db db'" by (rule first_consumed [OF first(2,8)])
    show "?others = (\<Sum>r \<leftarrow> [r \<leftarrow> db_reservations db. rv_UserID r = ul_UserID usage \<and>
        (rv_Status r = RsvActive \<and> now < rv_ExpiresAt r \<or> rv_Status r = RsvReconciliation) \<and>
        rv_PeriodStartAt r = Some s \<and> rv_PeriodEndAt r = Some e \<and>
        (\<forall>x. own = Some x \<and> 0 < rv_ID x \<longrightarrow> rv_ID r \<noteq> rv_ID x)]. rv_PeriodCreditNanousd r)" by (rule o)
    show "max 0 (credit - max 0 used - max 0 ?others) = max 0 (credit - max 0 used - max 0 ?others)" by (rule refl)
    show "ps_CreditCovered ps = min due (max 0 (credit - max 0 used - max 0 ?others))" by (rule conjunct1 [OF ps])
    show "ps_Overage ps = due - min due (max 0 (credit - max 0 used - max 0 ?others))"
      using conjunct2 [OF ps] unfolding conjunct1 [OF ps] .
    show "debit_posted (ul_UserID usage) (ps_Overage ps) (case res of None \<Rightarrow> [] | Some q \<Rightarrow> trim_space (rv_RefNo q)) db db'"
      using f(4) unfolding reservation_ref_no_def .
  qed (rule f)+
qed simp

lemma settle_again:
  assumes "settlement_retry u (Some q) db db' row \<or> settlement_first now u amount (Some q) db db' row"
    and "books_balance db" "u \<noteq> 0"
  shows "\<exists>r. reservation_for_settlement db' u (Some q) = Inr (Some (r, True)) \<and>
    restore_settled_usage_ledger db' (rv_UsageLedgerID r) = Inr row \<and>
    (\<exists>a. get_or_create_billing_account u db' = Inr (a, db')) \<and>
    (\<forall>r0 b. reservation_for_settlement db u (Some q) = Inr (Some (r0, b)) \<longrightarrow>
      rv_Mode r = rv_Mode r0 \<and> matches_period_reservation r = matches_period_reservation r0)"
  using assms(1)
proof
  assume "settlement_retry u (Some q) db db' row"
  then obtain a r where r: "get_or_create_billing_account u db = Inr (a, db')"
    "reservation_for_settlement db u (Some q) = Inr (Some (r, True))" "rv_UsageLedgerID r \<noteq> 0"
    "rv_UsageLedgerID r \<le> length (db_ledger db)" "row = db_ledger db ! (rv_UsageLedgerID r - 1)"
    by (rule settlement_retryE)
  note o = get_or_create_other [OF r(1)]
  have "reservation_for_settlement db' u (Some q) = Inr (Some (r, True))"
    using r(2) reservation_for_settlement_other [OF o(1)] by simp
  moreover have "get_or_create_billing_account u db' = Inr (a, db')"
    using get_or_create_balance(1) [OF r(1)] assms(3) by (simp add: get_or_create_billing_account_def)
  ultimately show ?thesis using r o by (auto simp: restore_Inr)
next
  assume "settlement_first now u amount (Some q) db db' row"
  then obtain own where own: "case own of None \<Rightarrow> reservation_for_settlement db u (Some q) = Inr None
             | Some r \<Rightarrow> reservation_for_settlement db u (Some q) = Inr (Some (r, False))"
      "db_ledger db' = db_ledger db @ [row]" "db_accounts db' u \<noteq> None"
      "db_reservations db' = settled_rows now own (Suc (length (db_ledger db))) (db_reservations db)"
    by (rule settlement_firstE)
  obtain r where r: "own = Some r" "reservation_for_settlement db u (Some q) = Inr (Some (r, False))"
    using own(1) by (cases own) (auto simp: reservation_for_settlement_def split: if_splits option.splits reservation_status.splits)
  let ?l = "Suc (length (db_ledger db))"
  let ?r = "r\<lparr>rv_Status := RsvSettled, rv_UsageLedgerID := ?l, rv_SettledAt := Some now\<rparr>"
  have "reservation_for_settlement (settle_usage_reservation now (Some r) ?l db) u (Some q) = Inr (Some (?r, True))"
    by (rule settled_afterwards [OF r(2)]) simp_all
  moreover have "db_reservations db' = db_reservations (settle_usage_reservation now (Some r) ?l db)"
    using own(4) r(1) by simp
  ultimately have again: "reservation_for_settlement db' u (Some q) = Inr (Some (?r, True))"
    using reservation_for_settlement_other [of db' "settle_usage_reservation now (Some r) ?l db"] by simp
  obtain a where "get_or_create_billing_account u db' = Inr (a, db')"
    using own(3) assms(3) by (auto simp: get_or_create_billing_account_def)
  moreover have "matches_period_reservation ?r = matches_period_reservation r"
    by (simp add: fun_eq_iff matches_period_reservation_def)
  moreover have "restore_settled_usage_ledger db' (rv_UsageLedgerID ?r) = Inr row"
    by (simp add: restore_Inr own(2))
  moreover have "\<forall>r0 b. reservation_for_settlement db u (Some q) = Inr (Some (r0, b)) \<longrightarrow>
      rv_Mode ?r = rv_Mode r0 \<and> matches_period_reservation ?r = matches_period_reservation r0"
    using \<open>matches_period_reservation ?r = matches_period_reservation r\<close> by (simp add: r(2))
  ultimately show ?thesis using again by (intro exI [of _ ?r] conjI exI [of _ a])
qed

lemma usage_settled_again:
  assumes "add_usage_and_settle_balance now u1 (Some q) db = (db1, Inr row)" "books_balance db"
    and "ul_UserID u2 = ul_UserID u1"
  shows "add_usage_and_settle_balance later u2 (Some q) db1 = (db1, Inr row)"
proof -
  let ?u = "ul_UserID u1"
  have body: "usage_body now u1 (Some q) db = Inr (row, db1)"
    using assms(1) by (simp add: add_usage_and_settle_balance_def run_tx_Inr)
  then obtain a db0 own where acc: "get_or_create_billing_account ?u db = Inr (a, db0)"
    and own: "reservation_for_settlement db0 ?u (Some q) = Inr own"
    and mode: "\<not> (case own of Some (r, _) \<Rightarrow> rv_Mode r \<noteq> ''usage'' | None \<Rightarrow> False)"
    by (auto simp: usage_body_def split: sum.splits if_splits)
  note o = get_or_create_other [OF acc]
  have u: "?u \<noteq> 0" using get_or_create_books [OF acc assms(2)] by blast
  have "settlement_retry ?u (Some q) db db1 row \<or> settlement_first now ?u (charge_of u1) (Some q) db db1 row"
    using body assms(2) by (rule usage_body_cases) auto
  from settle_again [OF this assms(2) u] obtain r a' where
    r: "reservation_for_settlement db1 ?u (Some q) = Inr (Some (r, True))"
      "restore_settled_usage_ledger db1 (rv_UsageLedgerID r) = Inr row"
      "get_or_create_billing_account ?u db1 = Inr (a', db1)"
      "\<forall>r0 b. reservation_for_settlement db ?u (Some q) = Inr (Some (r0, b)) \<longrightarrow> rv_Mode r = rv_Mode r0"
    by blast
  have "reservation_for_settlement db ?u (Some q) = Inr own"
    using own reservation_for_settlement_other [OF o(1)] by simp
  moreover from this obtain r0 b where "own = Some (r0, b)"
    by (cases own) (auto simp: reservation_for_settlement_def split: if_splits option.splits reservation_status.splits)
  ultimately have "rv_Mode r = ''usage''" using r(4) mode by simp
  with r(1-3) have "usage_body later u2 (Some q) db1 = Inr (row, db1)"
    by (simp add: usage_body_def assms(3))
  then show ?thesis by (simp add: add_usage_and_settle_balance_def run_tx_Inr)
qed

lemma period_settled_again:
  assumes "add_period_usage_and_settle_overage now u1 s e credit (Some q) db = (db1, Inr row)" "books_balance db"
    and "ul_UserID u2 = ul_UserID u1"
  shows "add_period_usage_and_settle_overage later u2 s e credit (Some q) db1 = (db1, Inr row)"
proof -
  let ?u = "ul_UserID u1"
  have pre: "\<not> (?u = 0 \<or> is_zero s \<or> \<not> e > s \<or> credit < 0)"
    and body: "period_body now u1 s e credit (Some q) db = Inr (row, db1)"
    using assms(1) by (auto simp: add_period_usage_and_settle_overage_def run_tx_Inr split: if_splits)
  then obtain a db0 own where acc: "get_or_create_billing_account ?u db = Inr (a, db0)"
    and own: "reservation_for_settlement db0 ?u (Some q) = Inr own"
    and match: "\<not> (case own of Some (r, _) \<Rightarrow> \<not> matches_period_reservation r s e credit | None \<Rightarrow> False)"
    by (auto simp: period_body_def split: sum.splits if_splits)
  note o = get_or_create_other [OF acc]
  have u: "?u \<noteq> 0" using pre by simp
  obtain amount where "settlement_retry ?u (Some q) db db1 row \<or> settlement_first now ?u amount (Some q) db db1 row"
    using body assms(2) by (rule period_body_cases) blast+
  from settle_again [OF this assms(2) u] obtain r a' where
    r: "reservation_for_settlement db1 ?u (Some q) = Inr (Some (r, True))"
      "restore_settled_usage_ledger db1 (rv_UsageLedgerID r) = Inr row"
      "get_or_create_billing_account ?u db1 = Inr (a', db1)"
      "\<forall>r0 b. reservation_for_settlement db ?u (Some q) = Inr (Some (r0, b)) \<longrightarrow>
         matches_period_reservation r = matches_period_reservation r0"
    by blast
  have "reservation_for_settlement db ?u (Some q) = Inr own"
    using own reservation_for_settlement_other [OF o(1)] by simp
  moreover from this obtain r0 b where "own = Some (r0, b)"
    by (cases own) (auto simp: reservation_for_settlement_def split: if_splits option.splits reservation_status.splits)
  ultimately have "matches_period_reservation r s e credit" using r(4) match by simp
  with r(1-3) have "period_body later u2 s e credit (Some q) db1 = Inr (row, db1)"
    by (simp add: period_body_def assms(3))
  then show ?thesis using pre by (simp add: add_period_usage_and_settle_overage_def run_tx_Inr assms(3))
qed

text \<open>
  C28: Settling is idempotent: once a call has been settled against its reservation, settling it
  again, with whatever usage of the same user and at any time later, returns the entry of the
  first settlement and changes nothing; this holds of both settlements.
\<close>

theorem settlement_is_idempotent:
  assumes "settle = (\<lambda>now usage. add_usage_and_settle_balance now usage (Some q)) \<or>
      settle = (\<lambda>now usage. add_period_usage_and_settle_overage now usage s e credit (Some q))"
    and "settle now usage db = (db1, Inr row)" "books_balance db" "ul_UserID usage' = ul_UserID usage"
  shows "settle later usage' db1 = (db1, Inr row)"
  using assms by (elim disjE) (simp_all add: usage_settled_again period_settled_again)

section \<open>Reserving and the books\<close>

lemma reserve_books:
  assumes "books_balance db" "reserve_usage_balance now q db = res"
  shows "books_balance (fst res)"
proof (cases "snd res")
  case (Inl err)
  then have "reserve_usage_balance now q db = (fst res, Inl err)" using assms(2) by (simp add: prod_eq_iff)
  then have "fst res = db" by (auto simp: reserve_usage_balance_def dest: run_tx_Inl split: if_splits)
  then show ?thesis using assms(1) by simp
next
  case (Inr r)
  then have "reserve_usage_balance now q db = (fst res, Inr r)" using assms(2) by (simp add: prod_eq_iff)
  then show ?thesis
    by (cases rule: reserve_cases) (use assms(1) get_or_create_books in auto)
qed

section \<open>A concrete database\<close>

definition sample_usage :: "nat \<Rightarrow> int \<Rightarrow> usage_ledger" where
  "sample_usage u billed = \<lparr>ul_UserID = u, ul_ConversationID = 1, ul_ProviderProtocol = [], ul_UpstreamName = [],
     ul_PlatformModelName = ''m'', ul_RoutedBindingCode = [], ul_UpstreamModelName = [], ul_IsFreeModel = False,
     ul_BillingAt = 150, ul_UsageDate = 150, ul_tokens = \<lparr>tc_Input = 0, tc_CacheRead = 0, tc_CacheWrite = 0, tc_CacheWrite5m = 0, tc_CacheWrite1h = 0, tc_Output = 0, tc_Reasoning = 0\<rparr>, ul_CallCount = 1, ul_DurationSeconds = 0,
     ul_LatencyMS = 0, ul_UsageSpeed = [], ul_ServiceTier = [], ul_BilledCurrency = ''USD'', ul_BilledNanousd = billed\<rparr>"

definition sample_account_db :: billing_db where
  "sample_account_db = empty_db\<lparr>db_accounts := [1 \<mapsto> \<lparr>ba_ID = 1, ba_UserID = 1, ba_Currency = ''USD'', ba_BalanceNanousd = 50,
       ba_Status = ''active''\<rparr>], db_accountSeq := 1, db_transactions := [\<lparr>bt_AccountID = 1, bt_UserID = 1,
       bt_Type = TxTopUp, bt_AmountNanousd = 50, bt_BalanceAfterNanousd = 50, bt_RefType = [], bt_RefID = 1, bt_RefNo = []\<rparr>]\<rparr>"

definition sample_request :: reservation_request where
  "sample_request = \<lparr>rq_UserID = 1, rq_RefNo = ''r'', rq_Mode = ''period'', rq_RequestedNanousd = 40,
     rq_PeriodStartAt = Some 100, rq_PeriodEndAt = Some 200, rq_PeriodCreditNanousd = 30\<rparr>"

definition sample_reserved :: "billing_db \<times> (repo_error + usage_reservation)" where
  "sample_reserved = reserve_usage_balance 150 sample_request sample_account_db"

lemma sample_db_ok: "books_balance sample_account_db" "reservations_ok sample_account_db"
  by (auto simp: books_balance_def sample_account_db_def empty_db_def balance_of_def transactions_of_def
      in_int64_def reservations_ok_def)

lemma sample_reserved_eq:
  "\<exists>db' r. sample_reserved = (db', Inr r) \<and> rv_BalanceNanousd r = 10 \<and> rv_PeriodCreditNanousd r = 30"
proof -
  have "case sample_reserved of (_, Inl _) \<Rightarrow> False | (_, Inr r) \<Rightarrow> rv_BalanceNanousd r = 10 \<and> rv_PeriodCreditNanousd r = 30"
    by code_simp
  then show ?thesis by (auto split: prod.splits sum.splits)
qed

theorem reservation_within_budget_witness:
  "active_balance_reservations (fst sample_reserved) 1 150 \<le> 50 \<and>
     active_period_credit_reservations (fst sample_reserved) 1 100 200 0 150 \<le> 30"
proof -
  from sample_reserved_eq obtain db' r where r: "sample_reserved = (db', Inr r)"
    "rv_BalanceNanousd r = 10" "rv_PeriodCreditNanousd r = 30" by blast
  then have "reserve_usage_balance 150 sample_request sample_account_db = (db', Inr r)" by (simp add: sample_reserved_def)
  note b = reservation_within_budget [OF this sample_db_ok(2)]
  have "balance_of 1 (fst sample_reserved) = 50" "period_usage (fst sample_reserved) 1 100 200 = 0" by code_simp+
  with b r(2,3) show ?thesis by (simp add: r(1) sample_request_def)
qed

definition sample_settled :: "billing_db \<times> (repo_error + ledger_row)" where
  "sample_settled = add_period_usage_and_settle_overage 160 (sample_usage 1 35) 100 200 30
     (Some (hd (db_reservations (fst sample_reserved)))) (fst sample_reserved)"

lemma sample_reserved_books: "books_balance (fst sample_reserved)"
  by (rule reserve_books [OF sample_db_ok(1)]) (simp add: sample_reserved_def)

lemma sample_settled_eq: "\<exists>db' row. sample_settled = (db', Inr row)"
proof -
  have "case sample_settled of (_, Inl _) \<Rightarrow> False | (_, Inr _) \<Rightarrow> True" by code_simp
  then show ?thesis by (auto split: prod.splits sum.splits)
qed

theorem usage_settlement_exact_witness:
  "\<exists>db' row. add_usage_and_settle_balance 160 (sample_usage 1 35) None sample_account_db = (db', Inr row) \<and>
     balance_of 1 db' = 15"
proof -
  have "case add_usage_and_settle_balance 160 (sample_usage 1 35) None sample_account_db of (_, Inl _) \<Rightarrow> False | (_, Inr _) \<Rightarrow> True"
    by code_simp
  then obtain db' row where r: "add_usage_and_settle_balance 160 (sample_usage 1 35) None sample_account_db = (db', Inr row)"
    by (auto split: prod.splits sum.splits)
  have "balance_of 1 sample_account_db = 50" by code_simp
  with usage_settlement_exact [OF r sample_db_ok(1) _ refl] r show ?thesis
    by (simp add: reservation_for_settlement_def sample_usage_def)
qed

theorem period_settlement_exact_witness:
  "\<exists>db' row ps. sample_settled = (db', Inr row) \<and> lr_settlement row = Some ps \<and> ps_CreditCovered ps + ps_Overage ps = 35"
proof -
  from sample_settled_eq obtain db' row where r: "sample_settled = (db', Inr row)" by blast
  have fresh: "\<forall>r. reservation_for_settlement (fst sample_reserved) (ul_UserID (sample_usage 1 35))
      (Some (hd (db_reservations (fst sample_reserved)))) \<noteq> Inr (Some (r, True))"
  proof -
    have "case reservation_for_settlement (fst sample_reserved) (ul_UserID (sample_usage 1 35))
      (Some (hd (db_reservations (fst sample_reserved)))) of Inr (Some (r, b)) \<Rightarrow> \<not> b | _ \<Rightarrow> True" by code_simp
    then show ?thesis by auto
  qed
  have "(if ul_IsFreeModel (sample_usage 1 35) then 0 else max 0 (ul_BilledNanousd (sample_usage 1 35))) = 35" by code_simp
  note p = period_settlement_exact [OF r [unfolded sample_settled_def] sample_reserved_books fresh refl refl, unfolded this]
  then obtain ps left0 where "lr_settlement row = Some ps" "ps_CreditCovered ps = min 35 left0" "ps_Overage ps = 35 - min 35 left0"
    by blast
  then show ?thesis using r by (intro exI [of _ db'] exI [of _ row] exI [of _ ps]) simp
qed

theorem settlement_is_idempotent_witness:
  "add_period_usage_and_settle_overage 999 (sample_usage 1 77) 100 200 30
     (Some (hd (db_reservations (fst sample_reserved)))) (fst sample_settled) = sample_settled"
proof -
  from sample_settled_eq obtain db' row where r: "sample_settled = (db', Inr row)" by blast
  show ?thesis unfolding r fst_conv
    by (rule settlement_is_idempotent [where settle = "\<lambda>now usage. add_period_usage_and_settle_overage now usage 100 200 30
          (Some (hd (db_reservations (fst sample_reserved))))" and usage = "sample_usage 1 35" and db = "fst sample_reserved"], rule disjI2, rule refl)
      (use r sample_reserved_books in \<open>simp_all add: sample_settled_def sample_usage_def\<close>)
qed

end
