(* ===== verification/Billing_Service.thy ===== *)
theory Billing_Service
  imports Redemptions Usage_Settlement
begin

text \<open>
  The billing service over the repository (\<^verbatim>\<open>application/billing/service.go\<close>,
  \<^verbatim>\<open>service_redemption.go\<close>): billing mode, authorisation and recording of usage, subscribing, orders and
  plans. Each operation is one sequence of repository calls on the database it is given; the
  arguments \<open>clock\<close> are what \<^verbatim>\<open>time.Now\<close> returns in the order of its calls. Floating point is the
  parameter \<open>pricing_env\<close> as in \<^verbatim>\<open>Pricing\<close>; numbers drawn at random, encryption and the hash of a code are
  arguments.
\<close>

section \<open>Errors and settings\<close>

datatype service_error =
    Repo repo_error | Priced billing_error | PaymentRequired | ProviderUnavailable | EntitlementActive
  | InvalidTier | ExpiryRequired | InvalidExpiry | PricingRequired | UsageInsufficient | UsageConflict
  | UsageConcurrency | InvalidPlan | PlanNotFound | InvalidGroup | CodeField string string | InvalidCode
  | CodeConflict | CodeUnavailable | CodeExhausted | CodeUserLimit | HashUnavailable | OtherError string

definition map_error :: "(repo_error \<Rightarrow> service_error) \<Rightarrow> billing_db \<times> (repo_error + 'a) \<Rightarrow> billing_db \<times> (service_error + 'a)" where
  "map_error f x = (fst x, map_sum f id (snd x))"

definition get_billing_mode :: "billing_db \<Rightarrow> string" where
  "get_billing_mode db =
     (case db_settings db ''mode'' of
        None \<Rightarrow> ''self''
      | Some v \<Rightarrow> let mode = trim_space v in if mode \<in> {''self'', ''usage'', ''period''} then mode else ''self'')"

text \<open>\<open>prepaid\<close> reads the text of an amount: the nano dollars, or nothing when it is no number to accept.\<close>

definition get_billing_prepaid_amount_nanousd :: "(string \<Rightarrow> int option) \<Rightarrow> billing_db \<Rightarrow> repo_error + int" where
  "get_billing_prepaid_amount_nanousd prepaid db =
     (case db_settings db ''prepaid_amount_usd'' of
        None \<Rightarrow> Inr 0
      | Some v \<Rightarrow> let value0 = trim_space v in
          if value0 = [] then Inr 0
          else case prepaid value0 of None \<Rightarrow> Inl InvalidInput | Some amount \<Rightarrow> Inr amount)"

definition month_bounds :: "duration \<Rightarrow> gtime \<Rightarrow> gtime \<Rightarrow> gtime \<times> gtime" where
  "month_bounds zone clock now0 =
     (let now = (if is_zero now0 then clock else now0); (year, month, _) = date_of zone now;
          start = date_start zone year month 1
      in (start, add_date zone start 0 1 0))"

section \<open>Authorisation of usage\<close>

record usage_authorization =
  ua_Mode :: string
  ua_Reservation :: "usage_reservation option"

definition get_resolved_model_pricing :: "pricing_env \<Rightarrow> string \<Rightarrow> billing_error + model_pricing" where
  "get_resolved_model_pricing e platformModelName =
     (case resolve_platform_model_identity e platformModelName of Inl err \<Rightarrow> Inl err
      | Inr identity \<Rightarrow>
          let name = trim_space (mi_Name identity) in
          if name = [] then Inl BillNotFound else pe_pricing e name)"

definition reserve_error :: "repo_error \<Rightarrow> service_error" where
  "reserve_error err = (case err of
     ReservationLimitExceeded \<Rightarrow> UsageConcurrency | InsufficientBalance \<Rightarrow> UsageInsufficient
   | Conflict \<Rightarrow> UsageConflict | _ \<Rightarrow> Repo err)"

text \<open>Whether a call may be authorised at its price; \<open>video\<close> is the catalogue's knowledge of video models.\<close>

definition check_duration_model ::
    "(string \<Rightarrow> service_error + bool) option \<Rightarrow> string \<Rightarrow> model_pricing \<Rightarrow> service_error option" where
  "check_duration_model video platformModelName pricing =
     (if normalize_pricing_mode (mp_PricingMode pricing) = PriceDuration then
        case video of None \<Rightarrow> Some PricingRequired
        | Some supports \<Rightarrow> (case supports platformModelName of Inl err \<Rightarrow> Some err
            | Inr supported \<Rightarrow> if supported then None else Some PricingRequired)
      else None)"

definition reservation_request_for ::
    "duration \<Rightarrow> gtime \<Rightarrow> nat \<Rightarrow> string \<Rightarrow> string \<Rightarrow> int \<Rightarrow> billing_db \<Rightarrow> repo_error + reservation_request" where
  "reservation_request_for zone clock u refNo mode amount db =
     (let request = \<lparr>rq_UserID = u, rq_RefNo = trim_space refNo, rq_Mode = mode, rq_RequestedNanousd = amount,
            rq_PeriodStartAt = None, rq_PeriodEndAt = None, rq_PeriodCreditNanousd = 0\<rparr>
      in if mode = ''period'' then
           case current_period_plan (month_bounds zone clock) db u clock of Inl err \<Rightarrow> Inl err
           | Inr (plan, startAt, endAt) \<Rightarrow> Inr (request\<lparr>rq_PeriodStartAt := Some startAt, rq_PeriodEndAt := Some endAt,
               rq_PeriodCreditNanousd := bp_PeriodCreditNanousd plan\<rparr>)
         else Inr request)"

definition authorize_usage ::
    "duration \<Rightarrow> pricing_env \<Rightarrow> (string \<Rightarrow> int option) \<Rightarrow> (string \<Rightarrow> service_error + bool) option \<Rightarrow> gtime \<Rightarrow> gtime \<Rightarrow>
       nat \<Rightarrow> string \<Rightarrow> string \<Rightarrow> billing_db \<Rightarrow> billing_db \<times> (service_error + usage_authorization)" where
  "authorize_usage zone e prepaid video clock1 clock2 u platformModelName refNo db =
     (let mode = trim_space (get_billing_mode db); authorization = \<lparr>ua_Mode = mode, ua_Reservation = None\<rparr> in
      if mode \<noteq> ''usage'' \<and> mode \<noteq> ''period'' then (db, Inr authorization)
      else case get_resolved_model_pricing e platformModelName of
        Inl err \<Rightarrow> (db, Inl (if err = BillNotFound then PricingRequired else Priced err))
      | Inr pricing \<Rightarrow>
          if mp_IsFree pricing then (db, Inr authorization)
          else case check_duration_model video platformModelName pricing of Some err \<Rightarrow> (db, Inl err)
          | None \<Rightarrow> (case get_billing_prepaid_amount_nanousd prepaid db of Inl err \<Rightarrow> (db, Inl (Repo err))
          | Inr amount \<Rightarrow> (case reservation_request_for zone clock1 u refNo mode amount db of Inl err \<Rightarrow> (db, Inl (Repo err))
          | Inr request \<Rightarrow> map_error reserve_error
              (case reserve_usage_balance clock2 request db of (db', r) \<Rightarrow>
                 (db', map_sum id (\<lambda>reservation. authorization\<lparr>ua_Reservation := Some reservation\<rparr>) r)))))"

definition on_reservation ::
    "(nat \<Rightarrow> string \<Rightarrow> billing_db \<Rightarrow> billing_db \<times> (repo_error + unit)) \<Rightarrow> usage_authorization option \<Rightarrow> billing_db \<Rightarrow>
       billing_db \<times> (repo_error + unit)" where
  "on_reservation operation authorization db =
     (case authorization of None \<Rightarrow> (db, Inr ())
      | Some a \<Rightarrow> (case ua_Reservation a of None \<Rightarrow> (db, Inr ())
          | Some r \<Rightarrow> operation (rv_UserID r) (rv_RefNo r) db))"

definition release_usage_authorization where
  "release_usage_authorization clock authorization db = on_reservation (release_usage_balance_reservation clock) authorization db"

definition renew_usage_authorization where
  "renew_usage_authorization clock authorization db = on_reservation (renew_usage_balance_reservation clock) authorization db"

definition mark_usage_authorization_for_reconciliation where
  "mark_usage_authorization_for_reconciliation clock authorization failureCode db =
     on_reservation (\<lambda>u refNo. mark_usage_reservation_reconciliation_required clock u refNo failureCode) authorization db"

section \<open>Recording usage\<close>

definition settle_error :: "repo_error \<Rightarrow> service_error" where
  "settle_error err = (case err of InsufficientBalance \<Rightarrow> UsageInsufficient | Conflict \<Rightarrow> UsageConflict | _ \<Rightarrow> Repo err)"

text \<open>The period a charge is settled in: that of the reservation, or that of the plan at the time of the bill.\<close>

definition settlement_period ::
    "duration \<Rightarrow> gtime \<Rightarrow> usage_ledger \<Rightarrow> usage_reservation option \<Rightarrow> billing_db \<Rightarrow> repo_error + gtime \<times> gtime \<times> int" where
  "settlement_period zone clock usage reservation db =
     (case reservation of
        Some r \<Rightarrow>
          if rv_Mode r = ''period'' then
            (case (rv_PeriodStartAt r, rv_PeriodEndAt r) of
               (Some startAt, Some endAt) \<Rightarrow>
                 if \<not> endAt > startAt \<or> rv_PeriodLimitNanousd r < 0 then Inl InvalidInput
                 else Inr (startAt, endAt, rv_PeriodLimitNanousd r)
             | _ \<Rightarrow> Inl InvalidInput)
          else map_sum id (\<lambda>(plan, startAt, endAt). (startAt, endAt, bp_PeriodCreditNanousd plan))
            (current_period_plan (month_bounds zone clock) db (ul_UserID usage) (ul_BillingAt usage))
      | None \<Rightarrow> map_sum id (\<lambda>(plan, startAt, endAt). (startAt, endAt, bp_PeriodCreditNanousd plan))
          (current_period_plan (month_bounds zone clock) db (ul_UserID usage) (ul_BillingAt usage)))"

definition record_usage_with_authorization ::
    "duration \<Rightarrow> gtime \<Rightarrow> usage_ledger \<Rightarrow> usage_authorization option \<Rightarrow> billing_db \<Rightarrow> billing_db \<times> (service_error + unit)" where
  "record_usage_with_authorization zone clock usage authorization db =
     (let mode0 = (case authorization of None \<Rightarrow> [] | Some a \<Rightarrow> trim_space (ua_Mode a));
          reservation = (case authorization of None \<Rightarrow> None | Some a \<Rightarrow> ua_Reservation a);
          mode = (if mode0 = [] then get_billing_mode db else mode0)
      in if mode = ''usage'' \<or> (mode \<noteq> ''period'' \<and> reservation \<noteq> None) then
           map_error settle_error (case add_usage_and_settle_balance clock usage reservation db of (db', r) \<Rightarrow>
             (db', map_sum id (\<lambda>_. ()) r))
         else if mode = ''period'' then
           if is_zero (ul_BillingAt usage) \<or> is_zero (ul_UsageDate usage) then (db, Inl (Repo InvalidInput))
           else case settlement_period zone clock usage reservation db of Inl err \<Rightarrow> (db, Inl (Repo err))
           | Inr (startAt, endAt, credit) \<Rightarrow>
               map_error settle_error (case add_period_usage_and_settle_overage clock usage startAt endAt credit reservation db of
                 (db', r) \<Rightarrow> (db', map_sum id (\<lambda>_. ()) r))
         else (add_usage usage db, Inr ()))"

section \<open>Subscribing\<close>

definition period_subscription ::
    "nat \<Rightarrow> billing_plan \<Rightarrow> billing_price \<Rightarrow> gtime \<Rightarrow> gtime option \<Rightarrow> bool \<Rightarrow> subscription" where
  "period_subscription u plan price now endAt autoRenew = \<lparr>sb_ID = 0, sb_UserID = u, sb_PlanID = bp_ID plan,
     sb_PriceID = pr_ID price, sb_Status = ''active'', sb_StartAt = now, sb_CurrentPeriodStartAt = now,
     sb_CurrentPeriodEndAt = endAt, sb_CancelAtPeriodEnd = False, sb_CanceledAt = None, sb_AutoRenew = autoRenew\<rparr>"

text \<open>A subscription of a plan that is not free, among those of a user that have not ended.\<close>

definition has_paid_entitlement :: "billing_db \<Rightarrow> nat \<Rightarrow> gtime \<Rightarrow> bool" where
  "has_paid_entitlement db u now =
     (let items = list_subscription_entitlements db u now in
      list_ex (\<lambda>s. case plan_map db items (sb_PlanID s) of None \<Rightarrow> False | Some p \<Rightarrow> trim_space (bp_Code p) \<noteq> ''free'') items)"

definition subscribe ::
    "duration \<Rightarrow> gtime \<Rightarrow> gtime \<Rightarrow> nat \<Rightarrow> nat \<Rightarrow> int \<Rightarrow> billing_db \<Rightarrow> billing_db \<times> (service_error + subscription)" where
  "subscribe zone now clock u priceID cycles0 db =
     (let cycles = (if cycles0 \<le> 0 then 1 else cycles0) in
      case get_price_by_id db priceID of Inl err \<Rightarrow> (db, Inl (Repo err))
      | Inr price \<Rightarrow> (case get_plan_by_id db (pr_PlanID price) of Inl err \<Rightarrow> (db, Inl (Repo err))
      | Inr plan \<Rightarrow>
          if \<not> bp_IsActive plan \<or> \<not> pr_IsActive price then (db, Inl (Repo NotFound))
          else if trim_space (bp_Code plan) = ''free'' \<and> has_paid_entitlement db u now then (db, Inl EntitlementActive)
          else if pr_AmountCents price > 0 then (db, Inl PaymentRequired)
          else
            let item = period_subscription u plan price now (resolve_period_end zone now (pr_BillingInterval price) cycles)
              (pr_BillingInterval price \<noteq> Lifetime)
            in (replace_subscription clock item db, Inr item)))"

definition to_lower_code :: "string \<Rightarrow> string" where
  "to_lower_code s = to_lower (trim_space s)"

definition set_user_subscription_by_plan_code ::
    "gtime \<Rightarrow> gtime \<Rightarrow> nat \<Rightarrow> string \<Rightarrow> gtime option \<Rightarrow> billing_db \<Rightarrow> billing_db \<times> (service_error + subscription_snapshot option)" where
  "set_user_subscription_by_plan_code now clock u planCode expiresAt db =
     (if u = 0 then (db, Inl (Repo InvalidInput))
      else if get_billing_mode db \<noteq> ''period'' then (db, Inl PaymentRequired)
      else
        let code = (if to_lower_code planCode = [] then ''free'' else to_lower_code planCode) in
        case get_active_plan_by_code db code of
          Inl err \<Rightarrow> (db, Inl (if err = NotFound then InvalidTier else Repo err))
        | Inr plan \<Rightarrow> (case find pr_IsDefault (list_active_prices_by_plan_ids db [bp_ID plan]) of
            None \<Rightarrow> (db, Inl InvalidTier)
          | Some price \<Rightarrow>
              let write = (\<lambda>endAt autoRenew. let db' = replace_subscription clock (period_subscription u plan price now endAt autoRenew) db
                    in (db', Inr (get_current_subscription_snapshot db' u now)))
              in if bp_Code plan \<noteq> ''free'' then
                   case expiresAt of None \<Rightarrow> (db, Inl ExpiryRequired)
                   | Some e \<Rightarrow> if \<not> e > now then (db, Inl InvalidExpiry) else write (Some e) False
                 else write None (pr_BillingInterval price \<noteq> Lifetime)))"

section \<open>Orders\<close>

text \<open>A rate that is no number to use counts as 7.2; \<open>None\<close> stands for what is not a finite number.\<close>

definition resolve_usd_to_cny_rate :: "real option \<Rightarrow> real" where
  "resolve_usd_to_cny_rate value0 = (case value0 of None \<Rightarrow> 72 / 10 | Some v \<Rightarrow> if v \<le> 0 then 72 / 10 else v)"

record payment_quote =
  qt_BaseCurrency :: string
  qt_BaseAmountCents :: int
  qt_PayCurrency :: string
  qt_PayAmountCents :: int
  qt_FXRate :: real

definition convert_payment_amount_cents :: "pricing_env \<Rightarrow> int \<Rightarrow> string \<Rightarrow> string \<Rightarrow> real option \<Rightarrow> int" where
  "convert_payment_amount_cents e baseAmountCents baseCurrency0 payCurrency0 rate =
     (let baseCurrency = normalize_currency baseCurrency0; payCurrency = normalize_currency payCurrency0 in
      if baseAmountCents \<le> 0 then 0
      else if baseCurrency = payCurrency then baseAmountCents
      else if baseCurrency = ''USD'' \<and> payCurrency = ''CNY'' then
        pe_toInt64 e (of_int (go_round (pe_fmul e (pe_fdiv e baseAmountCents 1) (resolve_usd_to_cny_rate rate))))
      else 0)"

definition resolve_payment_quote ::
    "pricing_env \<Rightarrow> string \<Rightarrow> string \<Rightarrow> int \<Rightarrow> real option \<Rightarrow> string \<Rightarrow> payment_quote" where
  "resolve_payment_quote e provider baseCurrency0 baseAmountCents rate preferred =
     (let baseCurrency = normalize_currency baseCurrency0;
          payCurrency = (if provider = ''epay'' \<or> normalize_currency preferred = ''CNY'' then ''CNY'' else baseCurrency)
      in if payCurrency = baseCurrency then
           \<lparr>qt_BaseCurrency = baseCurrency, qt_BaseAmountCents = baseAmountCents, qt_PayCurrency = baseCurrency,
            qt_PayAmountCents = baseAmountCents, qt_FXRate = 1\<rparr>
         else
           let fx = resolve_usd_to_cny_rate rate in
           \<lparr>qt_BaseCurrency = baseCurrency, qt_BaseAmountCents = baseAmountCents, qt_PayCurrency = payCurrency,
            qt_PayAmountCents = convert_payment_amount_cents e baseAmountCents baseCurrency payCurrency (Some fx), qt_FXRate = fx\<rparr>)"

record subscription_order_input =
  so_UserID :: nat
  so_PriceID :: nat
  so_Cycles :: int
  so_Provider :: string
  so_USDToCNYRate :: "real option"
  so_PreferredPayCurrency :: string

definition interval_name :: "billing_interval \<Rightarrow> string" where
  "interval_name i = (case i of Monthly \<Rightarrow> ''month'' | Yearly \<Rightarrow> ''year'' | Lifetime \<Rightarrow> ''lifetime'')"

text \<open>
  \<open>format\<close> is \<^verbatim>\<open>formatFXRate\<close> and \<open>snapshot\<close> the JSON of the order; the order number is drawn at random.
\<close>

definition create_subscription_order ::
    "pricing_env \<Rightarrow> (real \<Rightarrow> string) \<Rightarrow> string \<Rightarrow> gtime \<Rightarrow> string \<Rightarrow> subscription_order_input \<Rightarrow> billing_db \<Rightarrow>
       billing_db \<times> (service_error + payment_order \<times> billing_plan \<times> billing_price)" where
  "create_subscription_order e format snapshot clock orderNo i db =
     (let provider = trim_space (so_Provider i); cycles = (if so_Cycles i \<le> 0 then 1 else so_Cycles i) in
      if get_billing_mode db \<noteq> ''period'' then (db, Inl PaymentRequired)
      else if provider \<notin> {''stripe'', ''epay''} then (db, Inl ProviderUnavailable)
      else case get_price_by_id db (so_PriceID i) of Inl err \<Rightarrow> (db, Inl (Repo err))
      | Inr price \<Rightarrow> (case get_plan_by_id db (pr_PlanID price) of Inl err \<Rightarrow> (db, Inl (Repo err))
      | Inr plan \<Rightarrow>
          let baseAmountCents = wrap64 (pr_AmountCents price * cycles);
              quote = resolve_payment_quote e provider (normalize_currency (pr_Currency price)) baseAmountCents
                (so_USDToCNYRate i) (so_PreferredPayCurrency i)
          in if so_UserID i = 0 \<or> \<not> bp_IsActive plan \<or> \<not> pr_IsActive price then (db, Inl (Repo InvalidInput))
             else if pr_AmountCents price \<le> 0 \<or> baseAmountCents \<le> 0 \<or> qt_PayAmountCents quote \<le> 0 then (db, Inl (Repo InvalidInput))
             else map_error Repo (case create_payment_order \<lparr>oi_OrderNo = orderNo, oi_OrderType = ''subscription'',
                 oi_UserID = so_UserID i, oi_PlanID = bp_ID plan, oi_PriceID = pr_ID price, oi_Provider = provider,
                 oi_Status = ''pending'', oi_BaseCurrency = qt_BaseCurrency quote, oi_BaseAmountCents = qt_BaseAmountCents quote,
                 oi_PayCurrency = qt_PayCurrency quote, oi_PayAmountCents = qt_PayAmountCents quote,
                 oi_FXRate = format (qt_FXRate quote), oi_CreditNanousd = 0,
                 oi_BillingInterval = interval_name (pr_BillingInterval price), oi_Cycles = cycles,
                 oi_ExpiredAt = Some (clock + 30 * 60 * go_second), oi_SnapshotJSON = snapshot\<rparr> db of
               (db', r) \<Rightarrow> (db', map_sum id (\<lambda>order. (order, plan, price)) r))))"

record topup_order_input =
  ti_UserID :: nat
  ti_AmountMinorUnits :: int
  ti_AmountCurrency :: string
  ti_Provider :: string
  ti_USDToCNYRate :: "real option"
  ti_PreferredPayCurrency :: string

text \<open>The dollars of a top-up and what is paid for them; \<open>fdiv\<close> is the quotient of \<^verbatim>\<open>float64\<close>.\<close>

definition topup_base_usd :: "pricing_env \<Rightarrow> (real \<Rightarrow> real \<Rightarrow> real) \<Rightarrow> topup_order_input \<Rightarrow> real" where
  "topup_base_usd e fdiv i =
     (let amount = fdiv (of_int (ti_AmountMinorUnits i)) 100
      in if normalize_currency (ti_AmountCurrency i) = ''CNY'' then fdiv amount (resolve_usd_to_cny_rate (ti_USDToCNYRate i))
         else amount)"

definition topup_quote :: "pricing_env \<Rightarrow> (real \<Rightarrow> real \<Rightarrow> real) \<Rightarrow> topup_order_input \<Rightarrow> payment_quote" where
  "topup_quote e fdiv i =
     (let rate = resolve_usd_to_cny_rate (ti_USDToCNYRate i); usd = topup_base_usd e fdiv i;
          baseAmountCents = pe_toInt64 e (of_int (go_round (pe_fmul e usd 100)));
          quote = resolve_payment_quote e (trim_space (ti_Provider i)) ''USD'' baseAmountCents (Some rate) (ti_PreferredPayCurrency i)
      in if qt_PayCurrency quote = normalize_currency (ti_AmountCurrency i) then quote\<lparr>qt_PayAmountCents := ti_AmountMinorUnits i\<rparr>
         else if qt_PayCurrency quote = ''CNY'' \<and> qt_BaseCurrency quote = ''USD'' then
           quote\<lparr>qt_PayAmountCents := pe_toInt64 e (of_int (go_round (pe_fmul e (pe_fmul e usd rate) 100)))\<rparr>
         else quote)"

definition create_top_up_payment_order ::
    "pricing_env \<Rightarrow> (real \<Rightarrow> real \<Rightarrow> real) \<Rightarrow> (real \<Rightarrow> string) \<Rightarrow> string \<Rightarrow> gtime \<Rightarrow> string \<Rightarrow> topup_order_input \<Rightarrow> billing_db \<Rightarrow>
       billing_db \<times> (service_error + payment_order)" where
  "create_top_up_payment_order e fdiv format snapshot clock orderNo i db =
     (let mode = get_billing_mode db; provider = trim_space (ti_Provider i);
          quote = topup_quote e fdiv i; credit = usd_to_nanousd e (topup_base_usd e fdiv i)
      in if mode \<noteq> ''usage'' \<and> mode \<noteq> ''period'' then (db, Inl PaymentRequired)
         else if provider \<notin> {''stripe'', ''epay''} then (db, Inl ProviderUnavailable)
         else if ti_UserID i = 0 \<or> ti_AmountMinorUnits i \<le> 0 then (db, Inl (Repo InvalidInput))
         else if normalize_currency (ti_AmountCurrency i) \<notin> {''CNY'', ''USD''} then (db, Inl (Repo InvalidInput))
         else if qt_BaseAmountCents quote \<le> 0 \<or> qt_PayAmountCents quote \<le> 0 \<or> credit \<le> 0 then (db, Inl (Repo InvalidInput))
         else map_error Repo (create_payment_order \<lparr>oi_OrderNo = orderNo, oi_OrderType = ''topup'',
             oi_UserID = ti_UserID i, oi_PlanID = 0, oi_PriceID = 0, oi_Provider = provider,
             oi_Status = ''pending'', oi_BaseCurrency = qt_BaseCurrency quote, oi_BaseAmountCents = qt_BaseAmountCents quote,
             oi_PayCurrency = qt_PayCurrency quote, oi_PayAmountCents = qt_PayAmountCents quote,
             oi_FXRate = format (qt_FXRate quote), oi_CreditNanousd = credit, oi_BillingInterval = ''lifetime'', oi_Cycles = 1,
             oi_ExpiredAt = Some (clock + 30 * 60 * go_second), oi_SnapshotJSON = snapshot\<rparr> db))"

definition set_account_balance ::
    "pricing_env \<Rightarrow> nat \<Rightarrow> real option \<Rightarrow> string \<Rightarrow> billing_db \<Rightarrow> billing_db \<times> (service_error + billing_account)" where
  "set_account_balance e u balanceUSD refNo db =
     (case balanceUSD of None \<Rightarrow> (db, Inl (Repo InvalidInput))
      | Some usd \<Rightarrow>
          if u = 0 \<or> usd < 0 then (db, Inl (Repo InvalidInput))
          else if get_billing_mode db \<noteq> ''usage'' \<and> get_billing_mode db \<noteq> ''period'' then (db, Inl PaymentRequired)
          else map_error Repo (set_billing_account_balance u (usd_to_nanousd e usd) refNo db))"

section \<open>Plans\<close>

definition clamp_percent :: "int \<Rightarrow> int" where
  "clamp_percent v = (if v < 0 then 0 else if v > 100 then 100 else v)"

text \<open>The new default price takes over from the old ones; a price with its code is reused.\<close>

definition demoted :: "nat \<Rightarrow> billing_price \<Rightarrow> billing_price" where
  "demoted k p = (if pr_PlanID p = k \<and> pr_IsDefault p then p\<lparr>pr_IsDefault := False\<rparr> else p)"

definition written_price :: "nat \<Rightarrow> billing_price \<Rightarrow> billing_price \<Rightarrow> billing_price" where
  "written_price k price p = p\<lparr>pr_PlanID := k, pr_Code := trim_space (pr_Code price),
     pr_BillingInterval := pr_BillingInterval price, pr_Currency := normalize_currency (pr_Currency price),
     pr_AmountCents := clamp_non_negative (pr_AmountCents price), pr_IsActive := True, pr_IsDefault := True,
     pr_ExternalPriceRef := trim_space (pr_ExternalPriceRef price)\<rparr>"

definition written_plan :: "billing_plan \<Rightarrow> billing_plan \<Rightarrow> billing_plan" where
  "written_plan plan p = (if bp_ID p = bp_ID plan then p\<lparr>bp_Name := trim_space (bp_Name plan),
     bp_Description := trim_space (bp_Description plan), bp_PeriodCreditNanousd := clamp_non_negative (bp_PeriodCreditNanousd plan),
     bp_DiscountPercent := clamp_percent (bp_DiscountPercent plan), bp_IsActive := True,
     bp_PermissionGroupID := bp_PermissionGroupID plan\<rparr> else p)"

definition plan_body :: "billing_plan \<Rightarrow> billing_price \<Rightarrow> unit tx" where
  "plan_body plan price db =
     (let k = bp_ID plan; code = trim_space (pr_Code price);
          plans = map (written_plan plan) (db_plans db);
          prices = map (demoted k) (db_prices db)
      in case find (\<lambda>p. pr_PlanID p = k \<and> pr_Code p = code) prices of
           Some row \<Rightarrow> Inr ((), db\<lparr>db_plans := plans, db_prices :=
             map (\<lambda>p. if pr_ID p = pr_ID row then written_price k price p else p) prices\<rparr>)
         | None \<Rightarrow>
             if list_ex (\<lambda>p. pr_Code p = code) prices then Inl Duplicate
             else Inr ((), db\<lparr>db_plans := plans, db_prices := prices @
               [written_price k price (price\<lparr>pr_ID := Suc (length prices)\<rparr>)]\<rparr>))"

definition update_plan_with_default_price ::
    "billing_plan \<Rightarrow> billing_price \<Rightarrow> billing_db \<Rightarrow> billing_db \<times> (repo_error + unit)" where
  "update_plan_with_default_price plan price db =
     (if bp_ID plan = 0 then (db, Inl InvalidInput) else run_tx (plan_body plan price) db)"

definition plan_error :: "repo_error \<Rightarrow> service_error" where
  "plan_error err = (case err of NotFound \<Rightarrow> PlanNotFound | InvalidInput \<Rightarrow> InvalidPlan | _ \<Rightarrow> Repo err)"

text \<open>The permission groups: the identifiers of the default groups and whether a group exists, if there is a lookup.\<close>

record group_lookup =
  gl_defaults :: "service_error + nat list"
  gl_exists :: "nat \<Rightarrow> service_error + bool"

definition resolve_plan_permission_group_id :: "group_lookup option \<Rightarrow> nat option \<Rightarrow> service_error + nat" where
  "resolve_plan_permission_group_id lookup groupID =
     (case groupID of Some g \<Rightarrow> Inr g
      | None \<Rightarrow> (case lookup of None \<Rightarrow> Inl InvalidGroup
          | Some l \<Rightarrow> (case gl_defaults l of Inl err \<Rightarrow> Inl err | Inr [] \<Rightarrow> Inl InvalidGroup | Inr (g # _) \<Rightarrow> Inr g)))"

definition validate_permission_group_id :: "group_lookup option \<Rightarrow> nat \<Rightarrow> service_error option" where
  "validate_permission_group_id lookup g =
     (if g = 0 then Some InvalidGroup
      else case lookup of None \<Rightarrow> Some InvalidGroup
      | Some l \<Rightarrow> (case gl_exists l g of Inl err \<Rightarrow> Some err | Inr ok \<Rightarrow> if ok then None else Some InvalidGroup))"

record plan_input =
  pi_Name :: string
  pi_Description :: string
  pi_PeriodCreditNanousd :: int
  pi_DiscountPercent :: int
  pi_AmountCents :: int
  pi_BillingInterval :: string
  pi_PermissionGroupID :: "nat option"

definition edited_plan :: "plan_input \<Rightarrow> nat \<Rightarrow> billing_plan \<Rightarrow> billing_plan" where
  "edited_plan i g current = current\<lparr>bp_Name := first_non_empty (pi_Name i) (bp_Name current),
     bp_Description := trim_space (pi_Description i),
     bp_PeriodCreditNanousd := clamp_non_negative (pi_PeriodCreditNanousd i),
     bp_DiscountPercent := clamp_percent (pi_DiscountPercent i), bp_IsActive := True,
     bp_PermissionGroupID := Some g\<rparr>"

definition edited_price :: "plan_input \<Rightarrow> billing_plan \<Rightarrow> billing_price" where
  "edited_price i current = \<lparr>pr_ID = 0, pr_PlanID = bp_ID current, pr_Code = bp_Code current @ ''-default'',
     pr_BillingInterval = normalize_interval (pi_BillingInterval i), pr_Currency = ''USD'',
     pr_AmountCents = clamp_non_negative (pi_AmountCents i), pr_IsActive = True, pr_IsDefault = True,
     pr_ExternalPriceRef = []\<rparr>"

definition update_plan ::
    "group_lookup option \<Rightarrow> nat \<Rightarrow> plan_input \<Rightarrow> billing_db \<Rightarrow> billing_db \<times> (service_error + billing_plan \<times> billing_price)" where
  "update_plan lookup planID i db =
     (if planID = 0 then (db, Inl InvalidPlan)
      else case get_plan_by_id db planID of Inl err \<Rightarrow> (db, Inl (plan_error err))
      | Inr current \<Rightarrow> (case resolve_plan_permission_group_id lookup (pi_PermissionGroupID i) of Inl err \<Rightarrow> (db, Inl err)
      | Inr g \<Rightarrow> (case validate_permission_group_id lookup g of Some err \<Rightarrow> (db, Inl err)
      | None \<Rightarrow>
          let plan = edited_plan i g current; price = edited_price i current
          in map_error plan_error (case update_plan_with_default_price plan price db of
               (db', r) \<Rightarrow> (db', map_sum id (\<lambda>_. (plan, price)) r)))))"

end
