(* ===== verification/Go_Text.thy ===== *)
theory Go_Text
  imports Go_Prelude
begin

text \<open>
  Text helpers the conversation services share: case folding, public identifiers, truncation to a
  number of runes, one-line snippets and the estimate of the tokens of a text.

  \<^item> \<open>equal_fold\<close> is \<^verbatim>\<open>strings.EqualFold\<close>: besides the ASCII letters it folds the two other code points
    (U+017F and U+212A) that fold to an ASCII letter; every use of it in the code compares with an
    ASCII word.
  \<^item> \<open>go_fields\<close> is \<^verbatim>\<open>strings.Fields\<close>, with the spaces of \<^verbatim>\<open>strings.TrimSpace\<close>.
  \<^item> \<open>rune_code\<close> reads a rune of \<open>go_runes\<close> (its UTF-8 encoding) as a code point.
\<close>

section \<open>Folding\<close>

function fold_case :: "string \<Rightarrow> string" where
  "fold_case s = (case s of [] \<Rightarrow> []
     | c # cs \<Rightarrow>
         (case drop_prefix [CHR 0xE2, CHR 0x84, CHR 0xAA] s of
            Some r \<Rightarrow> CHR ''k'' # fold_case r
          | None \<Rightarrow>
              (case drop_prefix [CHR 0xC5, CHR 0xBF] s of
                 Some r \<Rightarrow> CHR ''s'' # fold_case r
               | None \<Rightarrow> lower_ascii c # fold_case cs)))"
  by pat_completeness auto
termination
  by (relation "measure length") (auto simp: drop_prefix_Some simp del: drop_prefix.simps)

declare fold_case.simps [simp del]

definition equal_fold :: "string \<Rightarrow> string \<Rightarrow> bool" where
  "equal_fold s t \<longleftrightarrow> fold_case s = fold_case t"

lemma equal_fold_refl [simp]: "equal_fold s s"
  by (simp add: equal_fold_def)

lemma fold_case_Nil [simp]: "fold_case [] = []"
  by (subst fold_case.simps) simp

lemma fold_case_eq_Nil [simp]: "fold_case s = [] \<longleftrightarrow> s = []"
  by (subst fold_case.simps) (simp split: list.split option.split)

section \<open>Identifiers and snippets\<close>

definition normalize_public_id :: "string \<Rightarrow> string" where
  "normalize_public_id raw = filter (\<lambda>c. c \<noteq> CHR ''-'') (trim_space raw)"

definition truncate_text :: "string \<Rightarrow> int \<Rightarrow> string" where
  "truncate_text value0 maxChars =
     (if maxChars \<le> 0 then value0
      else let runes = go_runes value0 in
        if int (length runes) \<le> maxChars then value0 else concat (take (nat maxChars) runes))"

definition truncate_error :: "string \<Rightarrow> int \<Rightarrow> string" where
  "truncate_error message limit = truncate_text (trim_space message) limit"

text \<open>The words of a text: \<open>word\<close> is the one being read, last byte first.\<close>

function fields_from :: "string \<Rightarrow> string \<Rightarrow> string list" where
  "fields_from word s =
     (let flush = (if word = [] then [] else [rev word]) in
      case s of [] \<Rightarrow> flush
      | c # cs \<Rightarrow> (case strip_one go_spaces s of
            Some r \<Rightarrow> if length r < length s then flush @ fields_from [] r else flush
          | None \<Rightarrow> fields_from (c # word) cs))"
  by pat_completeness auto
termination
  by (relation "measure (\<lambda>(_, s). length s)") auto

declare fields_from.simps [simp del]

definition go_fields :: "string \<Rightarrow> string list" where
  "go_fields s = fields_from [] s"

fun join_with :: "string \<Rightarrow> string list \<Rightarrow> string" where
  "join_with sep [] = []"
| "join_with sep [x] = x"
| "join_with sep (x # y # ys) = x @ sep @ join_with sep (y # ys)"

definition compact_snippet :: "string \<Rightarrow> int \<Rightarrow> string" where
  "compact_snippet content maxLen0 =
     (let value0 = join_with '' '' (go_fields (trim_space content)) in
      if value0 = [] then []
      else let maxLen = (if maxLen0 \<le> 0 then 120 else maxLen0); runes = go_runes value0 in
        if int (length runes) \<le> maxLen then value0 else concat (take (nat maxLen) runes) @ ''...'')"

section \<open>Estimated tokens\<close>

fun rune_code :: "string \<Rightarrow> nat" where
  "rune_code [a] = of_char a"
| "rune_code [a, b] = of_char a mod 32 * 64 + of_char b mod 64"
| "rune_code [a, b, c] = of_char a mod 16 * 4096 + of_char b mod 64 * 64 + of_char c mod 64"
| "rune_code [a, b, c, d] =
     of_char a mod 8 * 262144 + of_char b mod 64 * 4096 + of_char c mod 64 * 64 + of_char d mod 64"
| "rune_code _ = 0"

definition is_cjk_rune :: "nat \<Rightarrow> bool" where
  "is_cjk_rune r \<longleftrightarrow>
     0x2E80 \<le> r \<and> r \<le> 0x9FFF \<or> 0xAC00 \<le> r \<and> r \<le> 0xD7AF \<or>
     0xF900 \<le> r \<and> r \<le> 0xFAFF \<or> 0x20000 \<le> r \<and> r \<le> 0x2A6DF"

definition estimate_tokens :: "string \<Rightarrow> int" where
  "estimate_tokens content =
     (if length content = 0 then 0
      else let runes = go_runes content;
               cjk = int (length (filter (\<lambda>r. is_cjk_rune (rune_code r)) runes));
               other = int (length (filter (\<lambda>r. \<not> is_cjk_rune (rune_code r)) runes));
               tokens = (cjk * 2 + 2) div 3 + (other + 3) div 4
           in if tokens = 0 then 1 else tokens)"

lemma estimate_tokens_nonneg: "0 \<le> estimate_tokens s"
  by (simp add: estimate_tokens_def Let_def)

lemma estimate_tokens_pos: "s \<noteq> [] \<Longrightarrow> 0 < estimate_tokens s"
proof (cases s)
  case (Cons c cs)
  have "0 \<le> (int a * 2 + 2) div 3 + (int b + 3) div 4" for a b by simp
  then show ?thesis using Cons by (simp add: estimate_tokens_def Let_def order.not_eq_order_implies_strict)
qed simp

section \<open>Base 16\<close>

definition hex_digit :: "nat \<Rightarrow> char" where
  "hex_digit n = (if n < 10 then char_of (48 + n) else char_of (87 + n))"

fun hex_encode :: "string \<Rightarrow> string" where
  "hex_encode [] = []"
| "hex_encode (c # cs) = hex_digit (of_char c div 16) # hex_digit (of_char c mod 16) # hex_encode cs"

end
