(* ===== verification/Secret_Box.thy ===== *)
theory Secret_Box
  imports Go_Text
begin

text \<open>
  Encrypted strings (\<^verbatim>\<open>pkg/secretbox/secretbox.go\<close>): AES-GCM under a key derived from the secret, the
  nonce in front of the ciphertext, in base 64 behind the prefix \<^verbatim>\<open>v1:\<close>. The cryptographic functions
  of the Go library are the record \<open>crypto\<close>; base 64 is defined here.
\<close>

record crypto =
  cr_sha256 :: "string \<Rightarrow> string"
  cr_hmac :: "string \<Rightarrow> string \<Rightarrow> string"
  cr_seal :: "string \<Rightarrow> string \<Rightarrow> string \<Rightarrow> string"
  cr_open :: "string \<Rightarrow> string \<Rightarrow> string \<Rightarrow> string option"

text \<open>What the code relies on: opening a sealed text gives the text back.\<close>

definition crypto_ok :: "crypto \<Rightarrow> bool" where
  "crypto_ok cr \<longleftrightarrow> (\<forall>k n p. cr_open cr k n (cr_seal cr k n p) = Some p)"

section \<open>Base 64\<close>

definition b64_char :: "nat \<Rightarrow> char" where
  "b64_char n = (if n < 26 then char_of (65 + n) else if n < 52 then char_of (71 + n)
     else if n < 62 then char_of (n - 4) else if n = 62 then CHR ''+'' else CHR ''/'')"

definition b64_val :: "char \<Rightarrow> nat option" where
  "b64_val c = (let n = of_char c :: nat in
     if 65 \<le> n \<and> n \<le> 90 then Some (n - 65) else if 97 \<le> n \<and> n \<le> 122 then Some (n - 71)
     else if 48 \<le> n \<and> n \<le> 57 then Some (n + 4) else if c = CHR ''+'' then Some 62
     else if c = CHR ''/'' then Some 63 else None)"

fun b64_encode :: "string \<Rightarrow> string" where
  "b64_encode [] = []"
| "b64_encode [a] = (let x = of_char a :: nat in
     [b64_char (x div 4), b64_char (x mod 4 * 16), CHR ''='', CHR ''=''])"
| "b64_encode [a, b] = (let x = of_char a :: nat; y = of_char b in
     [b64_char (x div 4), b64_char (x mod 4 * 16 + y div 16), b64_char (y mod 16 * 4), CHR ''=''])"
| "b64_encode (a # b # c # r) = (let x = of_char a :: nat; y = of_char b; z = of_char c in
     [b64_char (x div 4), b64_char (x mod 4 * 16 + y div 16), b64_char (y mod 16 * 4 + z div 64),
      b64_char (z mod 64)] @ b64_encode r)"

fun b64_quads :: "string \<Rightarrow> string option" where
  "b64_quads [] = Some []"
| "b64_quads (a # b # c # d # r) =
     (case (b64_val a, b64_val b) of
        (Some x, Some y) \<Rightarrow>
          (case b64_val c of
             None \<Rightarrow> if c = CHR ''='' \<and> d = CHR ''='' \<and> r = [] then Some [char_of (x * 4 + y div 16)] else None
           | Some z \<Rightarrow>
               (case b64_val d of
                  None \<Rightarrow> if d = CHR ''='' \<and> r = []
                    then Some [char_of (x * 4 + y div 16), char_of (y mod 16 * 16 + z div 4)] else None
                | Some w \<Rightarrow> map_option (\<lambda>bs. [char_of (x * 4 + y div 16), char_of (y mod 16 * 16 + z div 4),
                    char_of (z mod 4 * 64 + w)] @ bs) (b64_quads r)))
      | _ \<Rightarrow> None)"
| "b64_quads _ = None"

text \<open>The decoder skips line breaks.\<close>

definition b64_decode :: "string \<Rightarrow> string option" where
  "b64_decode s = b64_quads (filter (\<lambda>c. c \<noteq> CHR 0x0A \<and> c \<noteq> CHR 0x0D) s)"

lemma b64_val_char: "n < 64 \<Longrightarrow> b64_val (b64_char n) = Some n"
  by (auto simp: b64_char_def b64_val_def Let_def)

lemma b64_char_range: "of_char (b64_char n) \<in> {43..122::nat}"
  by (auto simp: b64_char_def)

lemma b64_val_pad [simp]: "b64_val CHR ''='' = None"
  by (simp add: b64_val_def)

lemma byte_join:
  assumes "y < 256" "z < (256 :: nat)"
  shows "(x mod 4 * 16 + y div 16) div 16 = x mod 4" "(x mod 4 * 16 + y div 16) mod 16 = y div 16"
    "(y mod 16 * 4 + z div 64) div 4 = y mod 16" "(y mod 16 * 4 + z div 64) mod 4 = z div 64"
    "x mod 4 * 16 + y div 16 < 64" "y mod 16 * 4 + z div 64 < 64"
proof -
  have b: "y div 16 < 16" "z div 64 < 4" using assms by auto
  have c: "x mod 4 < 4" "y mod 16 < 16" by simp_all
  show "(x mod 4 * 16 + y div 16) div 16 = x mod 4" "(x mod 4 * 16 + y div 16) mod 16 = y div 16"
    "(y mod 16 * 4 + z div 64) div 4 = y mod 16" "(y mod 16 * 4 + z div 64) mod 4 = z div 64"
    using b by simp_all
  show "x mod 4 * 16 + y div 16 < 64" "y mod 16 * 4 + z div 64 < 64" using b c by linarith+
qed

lemma b64_quads_encode: "b64_quads (b64_encode s) = Some s"
proof (induction s rule: b64_encode.induct)
  case (2 a)
  have "(of_char a :: nat) div 4 < 64" using nat_of_char_less_256 [of a] by linarith
  then show ?case using byte_join [where y = 0 and z = 0] by (simp add: Let_def b64_val_char)
next
  case (3 a b)
  have "(of_char a :: nat) div 4 < 64" using nat_of_char_less_256 [of a] by linarith
  then show ?case
    using byte_join [where y = "of_char b" and z = 0] by (simp add: Let_def b64_val_char)
next
  case (4 a b c r)
  have "(of_char a :: nat) div 4 < 64" using nat_of_char_less_256 [of a] by linarith
  then show ?case
    using byte_join [where y = "of_char b" and z = "of_char c"] 4 by (simp add: Let_def b64_val_char)
qed simp

lemma b64_encode_chars: "c \<in> set (b64_encode s) \<Longrightarrow> of_char c \<in> {43..122::nat}"
proof (induction s rule: b64_encode.induct)
  case (4 a b d r)
  then show ?case using b64_char_range by (auto simp: Let_def simp del: atLeastAtMost_iff)
qed (use b64_char_range in \<open>auto simp: Let_def simp del: atLeastAtMost_iff\<close>, simp_all)

theorem b64_roundtrip: "b64_decode (b64_encode s) = Some s"
proof -
  have "filter (\<lambda>c. c \<noteq> CHR 0x0A \<and> c \<noteq> CHR 0x0D) (b64_encode s) = b64_encode s"
    by (rule filter_True) (use b64_encode_chars in force)
  then show ?thesis by (simp add: b64_decode_def b64_quads_encode)
qed

section \<open>Sealing and opening\<close>

definition box_prefix :: string where
  "box_prefix = ''v1:''"

definition box_key :: "crypto \<Rightarrow> string \<Rightarrow> string" where
  "box_key cr secret = cr_sha256 cr (trim_space secret)"

text \<open>\<open>nonce\<close> is what the random source gives: 12 bytes, or nothing when it fails.\<close>

definition nonce_size :: nat where
  "nonce_size = 12"

definition box_encrypt :: "crypto \<Rightarrow> string option \<Rightarrow> string \<Rightarrow> string \<Rightarrow> string option" where
  "box_encrypt cr nonce secret plaintext =
     (if plaintext = [] then Some []
      else case nonce of None \<Rightarrow> None
      | Some n \<Rightarrow> Some (box_prefix @ b64_encode (n @ cr_seal cr (box_key cr secret) n plaintext)))"

definition box_decrypt :: "crypto \<Rightarrow> string \<Rightarrow> string \<Rightarrow> string option" where
  "box_decrypt cr secret encrypted =
     (let value0 = trim_space encrypted in
      if value0 = [] then Some []
      else case drop_prefix box_prefix value0 of None \<Rightarrow> None
      | Some text0 \<Rightarrow> (case b64_decode text0 of None \<Rightarrow> None
      | Some raw \<Rightarrow>
          if length raw < nonce_size then None
          else cr_open cr (box_key cr secret) (take nonce_size raw) (drop nonce_size raw)))"

definition box_encrypt_string :: "crypto \<Rightarrow> string option \<Rightarrow> string \<Rightarrow> string \<Rightarrow> string option" where
  "box_encrypt_string cr nonce secret plaintext = box_encrypt cr nonce secret (trim_space plaintext)"

definition box_decrypt_string :: "crypto \<Rightarrow> string \<Rightarrow> string \<Rightarrow> string option" where
  "box_decrypt_string cr secret encrypted = box_decrypt cr secret encrypted"

lemma spaces_not_plain: "p \<in> set go_spaces \<Longrightarrow> c \<in> set p \<Longrightarrow> of_char c \<notin> {33..126::nat}"
proof -
  assume a: "p \<in> set go_spaces" "c \<in> set p"
  have "list_all (\<lambda>p. list_all (\<lambda>c. (of_char c :: nat) \<notin> {33..126}) p) go_spaces"
    by (simp add: go_spaces_def)
  with a show ?thesis unfolding list_all_iff by blast
qed

lemma strip_one_plain:
  assumes "\<forall>c \<in> set s. of_char c \<in> {33..126::nat}" "\<forall>p \<in> set ps. p \<noteq> [] \<and> (\<forall>c \<in> set p. of_char c \<notin> {33..126::nat})"
  shows "strip_one ps s = None"
proof -
  have "\<not> prefix p s" if "p \<in> set ps" for p
  proof
    assume "prefix p s"
    then have "hd p \<in> set s" using assms(2) that by (metis hd_in_set prefix_def set_append Un_iff)
    moreover have "hd p \<in> set p" using assms(2) that by simp
    ultimately show False using assms that by blast
  qed
  then show ?thesis by (simp add: strip_one_None)
qed

text \<open>Printable ASCII has nothing to trim.\<close>

lemma trim_space_plain:
  assumes "\<forall>c \<in> set s. of_char c \<in> {33..126::nat}"
  shows "trim_space s = s"
proof -
  have left: "trim_left s = s"
    unfolding trim_left_def using assms spaces_not_plain go_spaces_nonempty
    by (intro trim_with_fixed strip_one_plain) blast+
  have "strip_one (map rev go_spaces) (rev s) = None"
    using assms spaces_not_plain go_spaces_nonempty(2) by (intro strip_one_plain) (simp, auto simp del: atLeastAtMost_iff)
  then have "trim_right s = s" by (simp add: trim_right_def trim_with_fixed)
  with left show ?thesis by (simp add: trim_space_def)
qed

lemma box_prefix_plain: "\<forall>c \<in> set box_prefix. of_char c \<in> {33..126::nat}"
  by (simp add: box_prefix_def)

lemma boxed_plain: "trim_space (box_prefix @ b64_encode s) = box_prefix @ b64_encode s"
  by (rule trim_space_plain) (use box_prefix_plain b64_encode_chars in \<open>auto, force+\<close>)

lemma box_decrypt_encrypt:
  assumes "crypto_ok cr" "length n = nonce_size" "box_encrypt cr (Some n) secret p = Some c"
  shows "box_decrypt cr secret c = Some p"
proof (cases "p = []")
  case True
  then show ?thesis using assms(3) by (simp add: box_encrypt_def box_decrypt_def)
next
  case False
  let ?r = "n @ cr_seal cr (box_key cr secret) n p"
  have c: "c = box_prefix @ b64_encode ?r" using assms(3) False by (simp add: box_encrypt_def)
  have "drop_prefix box_prefix c = Some (b64_encode ?r)" by (simp add: drop_prefix_Some c)
  moreover have "trim_space c = c" unfolding c by (rule boxed_plain)
  moreover have "c \<noteq> []" by (simp add: c box_prefix_def)
  ultimately show ?thesis
    using assms(1,2) b64_roundtrip [of ?r] by (simp add: box_decrypt_def crypto_ok_def)
qed

text \<open>What is encrypted under a secret is read back under it, whatever the nonce.\<close>

lemma box_roundtrip:
  assumes "crypto_ok cr" "length n = nonce_size"
  shows "Option.bind (box_encrypt_string cr (Some n) secret p) (box_decrypt_string cr secret) = Some (trim_space p)"
proof (cases "box_encrypt cr (Some n) secret (trim_space p)")
  case None
  then show ?thesis by (simp add: box_encrypt_def split: if_splits)
next
  case (Some c)
  with box_decrypt_encrypt [OF assms Some] show ?thesis by (simp add: box_encrypt_string_def box_decrypt_string_def)
qed

end
