(* ===== verification/Redemption_Service.thy ===== *)
theory Redemption_Service
  imports Billing_Service Secret_Box
begin

text \<open>
  Redemption codes in the billing service (\<^verbatim>\<open>application/billing/service_redemption.go\<close>): their format,
  the input of an administrator, creating, revealing, changing, deleting and redeeming codes. What the
  random source gives is an argument (\<open>None\<close> where it fails); the secret is the data encryption key.
\<close>

section \<open>The text of a code\<close>

definition normalize_redemption_code :: "string \<Rightarrow> string" where
  "normalize_redemption_code value0 = to_upper (trim_space value0)"

definition code_char :: "char \<Rightarrow> bool" where
  "code_char c \<longleftrightarrow> in_range 65 90 c \<or> in_range 48 57 c \<or> c = CHR ''-'' \<or> c = CHR ''_''"

definition valid_redemption_code :: "string \<Rightarrow> bool" where
  "valid_redemption_code value0 \<longleftrightarrow> \<not> (length value0 < 3 \<or> length value0 > 64) \<and> list_all code_char value0"

definition redemption_code_hint :: "string \<Rightarrow> string" where
  "redemption_code_hint code =
     (let normalized = normalize_redemption_code code in
      if length normalized \<le> 8 then ''****''
      else take 4 normalized @ ''***'' @ drop (length normalized - 4) normalized)"

text \<open>A random code: 16 bytes marked as a version 4 UUID.\<close>

definition generate_redemption_code :: "string \<Rightarrow> string" where
  "generate_redemption_code raw0 =
     (let raw = raw0[6 := char_of ((of_char (raw0 ! 6) :: nat) mod 16 + 64)];
          raw = raw[8 := char_of ((of_char (raw ! 8) :: nat) mod 64 + 128)];
          value0 = to_upper (hex_encode raw)
      in take 8 value0 @ ''-'' @ take 4 (drop 8 value0) @ ''-'' @ take 4 (drop 12 value0) @ ''-'' @
         take 4 (drop 16 value0) @ ''-'' @ drop 20 value0)"

definition redemption_code_hash :: "crypto \<Rightarrow> string \<Rightarrow> string \<Rightarrow> service_error + string" where
  "redemption_code_hash cr secret0 code =
     (let normalized = normalize_redemption_code code; secret = trim_space secret0 in
      if normalized = [] \<or> \<not> valid_redemption_code normalized then Inl InvalidCode
      else if secret = [] then Inl HashUnavailable
      else Inr (hex_encode (cr_hmac cr secret normalized)))"

definition redemption_code_encrypted :: "crypto \<Rightarrow> string option \<Rightarrow> string \<Rightarrow> string \<Rightarrow> service_error + string" where
  "redemption_code_encrypted cr nonce secret0 code =
     (let normalized = normalize_redemption_code code; secret = trim_space secret0 in
      if normalized = [] \<or> \<not> valid_redemption_code normalized then Inl InvalidCode
      else if secret = [] then Inl HashUnavailable
      else case box_encrypt_string cr nonce secret normalized of None \<Rightarrow> Inl (OtherError ''random'') | Some c \<Rightarrow> Inr c)"

definition redemption_code_plaintext :: "crypto \<Rightarrow> string \<Rightarrow> string \<Rightarrow> service_error + string" where
  "redemption_code_plaintext cr secret0 encrypted0 =
     (let encrypted = trim_space encrypted0; secret = trim_space secret0 in
      if encrypted = [] then Inr []
      else if secret = [] then Inl HashUnavailable
      else case box_decrypt_string cr secret encrypted of None \<Rightarrow> Inl HashUnavailable
        | Some code \<Rightarrow> Inr (normalize_redemption_code code))"

section \<open>The input of an administrator\<close>

record code_form =
  cf_Code :: string
  cf_Quantity :: int
  cf_Mode :: string
  cf_CreditUSD :: "real option"
  cf_PlanID :: nat
  cf_DurationDays :: int
  cf_MaxRedemptions :: "int option"
  cf_PerUserLimit :: int
  cf_ExpiresAt :: "gtime option"
  cf_Description :: string

record normalized_code_input =
  nc_Code :: string
  nc_Quantity :: int
  nc_Mode :: string
  nc_RewardType :: string
  nc_CreditNanousd :: int
  nc_PlanID :: nat
  nc_DurationDays :: int
  nc_MaxRedemptions :: "int option"
  nc_PerUserLimit :: int
  nc_ExpiresAt :: "gtime option"
  nc_Description :: string

text \<open>The mode and the reward of a code; \<open>limits\<close> are the fields both kinds of codes share.\<close>

definition normalize_reward ::
    "pricing_env \<Rightarrow> billing_db \<Rightarrow> code_form \<Rightarrow> normalized_code_input \<Rightarrow> service_error + normalized_code_input" where
  "normalize_reward e db i limits =
     (let mode = trim_space (cf_Mode i) in
      if mode = ''usage'' then
        (case cf_CreditUSD i of None \<Rightarrow> Inl (CodeField ''creditUSD'' ''credit'')
         | Some usd \<Rightarrow> if usd \<le> 0 then Inl (CodeField ''creditUSD'' ''credit'')
             else Inr (limits\<lparr>nc_Mode := mode, nc_RewardType := ''balance'', nc_CreditNanousd := usd_to_nanousd e usd\<rparr>))
      else if mode = ''period'' then
        if cf_PlanID i = 0 then Inl (CodeField ''planID'' ''plan'')
        else case get_plan_by_id db (cf_PlanID i) of
          Inl err \<Rightarrow> Inl (if err = NotFound then CodeField ''planID'' ''plan'' else Repo err)
        | Inr plan \<Rightarrow>
            if \<not> bp_IsActive plan \<or> trim_space (bp_Code plan) = ''free'' then Inl (CodeField ''planID'' ''plan'')
            else if cf_DurationDays i \<le> 0 then Inl (CodeField ''durationDays'' ''duration'')
            else Inr (limits\<lparr>nc_Mode := mode, nc_RewardType := ''subscription'', nc_PlanID := cf_PlanID i,
                nc_DurationDays := cf_DurationDays i\<rparr>)
      else Inl (CodeField ''mode'' ''mode''))"

definition code_limits :: "code_form \<Rightarrow> normalized_code_input" where
  "code_limits i = (let code = normalize_redemption_code (cf_Code i) in
     \<lparr>nc_Code = code, nc_Quantity = (if cf_Quantity i \<le> 0 then 1 else cf_Quantity i), nc_Mode = [],
      nc_RewardType = [], nc_CreditNanousd = 0, nc_PlanID = 0, nc_DurationDays = 0,
      nc_MaxRedemptions = (if code = [] \<and> cf_MaxRedemptions i = None then Some 1 else cf_MaxRedemptions i),
      nc_PerUserLimit = (if cf_PerUserLimit i \<le> 0 then 1 else cf_PerUserLimit i), nc_ExpiresAt = cf_ExpiresAt i,
      nc_Description = trim_space (cf_Description i)\<rparr>)"

definition normalize_redemption_code_input ::
    "pricing_env \<Rightarrow> gtime \<Rightarrow> billing_db \<Rightarrow> code_form \<Rightarrow> service_error + normalized_code_input" where
  "normalize_redemption_code_input e clock db i =
     (let limits = code_limits i; code = nc_Code limits
      in if code \<noteq> [] \<and> \<not> valid_redemption_code code then Inl (CodeField ''code'' ''code_format'')
         else if nc_Quantity limits > 100 then Inl (CodeField ''quantity'' ''quantity'')
         else if code \<noteq> [] \<and> nc_Quantity limits \<noteq> 1 then Inl (CodeField ''quantity'' ''manual_quantity'')
         else if (case cf_MaxRedemptions i of None \<Rightarrow> False | Some m \<Rightarrow> m \<le> 0) then
           Inl (CodeField ''maxRedemptions'' ''max_redemptions'')
         else if (case nc_MaxRedemptions limits of None \<Rightarrow> False | Some m \<Rightarrow> nc_PerUserLimit limits > m) then
           Inl (CodeField ''perUserLimit'' ''limit_relationship'')
         else if (case cf_ExpiresAt i of None \<Rightarrow> False | Some t \<Rightarrow> \<not> t > clock) then Inl (CodeField ''expiresAt'' ''expires_at'')
         else normalize_reward e db i limits)"

section \<open>Creating codes\<close>

definition code_row_input :: "nat \<Rightarrow> normalized_code_input \<Rightarrow> string \<Rightarrow> string \<Rightarrow> string \<Rightarrow> code_input" where
  "code_row_input actor n codeHash codeEncrypted code =
     \<lparr>ci_CodeHash = codeHash, ci_CodeEncrypted = codeEncrypted, ci_CodeHint = redemption_code_hint code,
      ci_Mode = nc_Mode n, ci_RewardType = nc_RewardType n, ci_CreditNanousd = nc_CreditNanousd n,
      ci_PlanID = nc_PlanID n, ci_DurationDays = nc_DurationDays n, ci_MaxRedemptions = nc_MaxRedemptions n,
      ci_PerUserLimit = nc_PerUserLimit n, ci_Status = ''active'', ci_ExpiresAt = nc_ExpiresAt n,
      ci_Description = nc_Description n, ci_CreatedByUserID = actor\<rparr>"

text \<open>One code: \<open>raw\<close> and \<open>nonce\<close> are what is drawn for it.\<close>

definition drawn_code :: "normalized_code_input \<Rightarrow> string option \<Rightarrow> service_error + string" where
  "drawn_code n raw =
     (if nc_Code n \<noteq> [] then Inr (nc_Code n)
      else case raw of None \<Rightarrow> Inl (OtherError ''random'') | Some r \<Rightarrow> Inr (generate_redemption_code r))"

definition create_one_code ::
    "crypto \<Rightarrow> string \<Rightarrow> nat \<Rightarrow> normalized_code_input \<Rightarrow> string option \<Rightarrow> string option \<Rightarrow> billing_db \<Rightarrow>
       billing_db \<times> (service_error + redemption_code \<times> string)" where
  "create_one_code cr secret actor n raw nonce db =
     (case drawn_code n raw of Inl err \<Rightarrow> (db, Inl err)
      | Inr code \<Rightarrow> (case redemption_code_hash cr secret code of Inl err \<Rightarrow> (db, Inl err)
      | Inr codeHash \<Rightarrow> (case redemption_code_encrypted cr nonce secret code of Inl err \<Rightarrow> (db, Inl err)
      | Inr codeEncrypted \<Rightarrow> (case create_redemption_code (code_row_input actor n codeHash codeEncrypted code) db of
          (db', Inl err) \<Rightarrow> (db', Inl (if err = Duplicate then CodeConflict else Repo err))
        | (db', Inr row) \<Rightarrow> (db', Inr (row, code))))))"

text \<open>The loop: the codes created before an error stay.\<close>

fun create_codes_loop ::
    "crypto \<Rightarrow> string \<Rightarrow> nat \<Rightarrow> normalized_code_input \<Rightarrow> (string option \<times> string option) list \<Rightarrow>
       (redemption_code \<times> string) list \<Rightarrow> billing_db \<Rightarrow> billing_db \<times> (service_error + (redemption_code \<times> string) list)" where
  "create_codes_loop cr secret actor n [] results db = (db, Inr results)"
| "create_codes_loop cr secret actor n ((raw, nonce) # draws) results db =
     (case create_one_code cr secret actor n raw nonce db of
        (db', Inl err) \<Rightarrow> (db', Inl err)
      | (db', Inr view) \<Rightarrow> create_codes_loop cr secret actor n draws (results @ [view]) db')"

definition create_redemption_codes ::
    "pricing_env \<Rightarrow> crypto \<Rightarrow> string \<Rightarrow> gtime \<Rightarrow> (nat \<Rightarrow> string option \<times> string option) \<Rightarrow> nat \<Rightarrow> code_form \<Rightarrow> billing_db \<Rightarrow>
       billing_db \<times> (service_error + (redemption_code \<times> string) list)" where
  "create_redemption_codes e cr secret clock draws actor i db =
     (if actor = 0 then (db, Inl (Repo InvalidInput))
      else case normalize_redemption_code_input e clock db i of Inl err \<Rightarrow> (db, Inl err)
      | Inr n \<Rightarrow> create_codes_loop cr secret actor n (map draws [0..<nat (nc_Quantity n)]) [] db)"

section \<open>Revealing, changing and deleting codes\<close>

definition get_redemption_code_by_id :: "billing_db \<Rightarrow> nat \<Rightarrow> repo_error + redemption_code" where
  "get_redemption_code_by_id db cid =
     (if cid = 0 then Inl InvalidInput
      else or_not_found (find_code (\<lambda>c. rc_ID c = cid \<and> rc_Status c \<noteq> CodeDeleted) db))"

definition redemption_error :: "repo_error \<Rightarrow> service_error" where
  "redemption_error err = (case err of
     InvalidInput \<Rightarrow> InvalidCode | RedemptionUnavailable \<Rightarrow> CodeUnavailable | NotFound \<Rightarrow> CodeUnavailable
   | RedemptionExhausted \<Rightarrow> CodeExhausted | RedemptionUserLimitExceeded \<Rightarrow> CodeUserLimit | _ \<Rightarrow> Repo err)"

definition reveal_redemption_code ::
    "crypto \<Rightarrow> string \<Rightarrow> billing_db \<Rightarrow> nat \<Rightarrow> service_error + redemption_code \<times> string" where
  "reveal_redemption_code cr secret db cid =
     (if cid = 0 then Inl (Repo InvalidInput)
      else case get_redemption_code_by_id db cid of Inl err \<Rightarrow> Inl (redemption_error err)
      | Inr c \<Rightarrow> (case redemption_code_plaintext cr secret (rc_CodeEncrypted c) of Inl err \<Rightarrow> Inl err
      | Inr code \<Rightarrow> if code = [] then Inl (OtherError ''plaintext'') else Inr (c, code)))"

text \<open>As in the patch of the repository, the outer \<open>None\<close> leaves a field as it is.\<close>

record code_update_input =
  cu_Status :: "string option"
  cu_MaxRedemptions :: "int option option"
  cu_PerUserLimit :: "int option"
  cu_ExpiresAt :: "gtime option option"
  cu_Description :: "string option"

definition service_redemption_status :: "string \<Rightarrow> string" where
  "service_redemption_status value0 =
     (if trim_space value0 = ''active'' then ''active'' else if trim_space value0 = ''inactive'' then ''inactive'' else [])"

definition update_redemption_code ::
    "gtime \<Rightarrow> nat \<Rightarrow> code_update_input \<Rightarrow> billing_db \<Rightarrow> billing_db \<times> (service_error + redemption_code)" where
  "update_redemption_code clock cid i db =
     (if cid = 0 then (db, Inl (Repo InvalidInput))
      else if (case cu_Status i of None \<Rightarrow> False | Some s \<Rightarrow> service_redemption_status s = []) then
        (db, Inl (CodeField ''status'' ''status''))
      else if (case cu_PerUserLimit i of None \<Rightarrow> False | Some l \<Rightarrow> l \<le> 0) then
        (db, Inl (CodeField ''perUserLimit'' ''per_user_limit''))
      else if (case cu_MaxRedemptions i of Some (Some m) \<Rightarrow> m \<le> 0 | _ \<Rightarrow> False) then
        (db, Inl (CodeField ''maxRedemptions'' ''max_redemptions''))
      else if (case (cu_MaxRedemptions i, cu_PerUserLimit i) of (Some (Some m), Some l) \<Rightarrow> l > m | _ \<Rightarrow> False) then
        (db, Inl (CodeField ''perUserLimit'' ''limit_relationship''))
      else if (case cu_ExpiresAt i of Some (Some t) \<Rightarrow> \<not> t > clock | _ \<Rightarrow> False) then
        (db, Inl (CodeField ''expiresAt'' ''expires_at''))
      else map_error redemption_error (patch_redemption_code cid
        \<lparr>cp_Status = map_option service_redemption_status (cu_Status i), cp_MaxRedemptions = cu_MaxRedemptions i,
         cp_PerUserLimit = cu_PerUserLimit i, cp_ExpiresAt = cu_ExpiresAt i, cp_Description = cu_Description i\<rparr> db))"

definition delete_code :: "nat \<Rightarrow> billing_db \<Rightarrow> billing_db \<times> (service_error + unit)" where
  "delete_code cid db =
     (if cid = 0 then (db, Inl (Repo InvalidInput)) else map_error redemption_error (delete_redemption_code cid db))"

datatype batch_delete_status = BatchDeleted | BatchNotFound | BatchFailed service_error

record batch_delete_data =
  bd_Total :: nat
  bd_SuccessCount :: nat
  bd_NotFoundCount :: nat
  bd_FailedCount :: nat
  bd_Results :: "(nat \<times> batch_delete_status) list"

definition batch_delete_step :: "nat \<Rightarrow> billing_db \<times> batch_delete_data \<Rightarrow> billing_db \<times> batch_delete_data" where
  "batch_delete_step cid x =
     (case delete_code cid (fst x) of
        (db, Inr _) \<Rightarrow> (db, (snd x)\<lparr>bd_SuccessCount := Suc (bd_SuccessCount (snd x)),
          bd_Results := bd_Results (snd x) @ [(cid, BatchDeleted)]\<rparr>)
      | (db, Inl err) \<Rightarrow> (db,
          if err = CodeUnavailable then (snd x)\<lparr>bd_NotFoundCount := Suc (bd_NotFoundCount (snd x)),
            bd_Results := bd_Results (snd x) @ [(cid, BatchNotFound)]\<rparr>
          else (snd x)\<lparr>bd_FailedCount := Suc (bd_FailedCount (snd x)),
            bd_Results := bd_Results (snd x) @ [(cid, BatchFailed err)]\<rparr>))"

definition batch_delete_redemption_codes :: "nat list \<Rightarrow> billing_db \<Rightarrow> billing_db \<times> batch_delete_data" where
  "batch_delete_redemption_codes ids db = fold batch_delete_step ids (db,
     \<lparr>bd_Total = length ids, bd_SuccessCount = 0, bd_NotFoundCount = 0, bd_FailedCount = 0, bd_Results = []\<rparr>)"

section \<open>Redeeming\<close>

text \<open>\<open>refNo\<close> is the reference drawn for the redemption.\<close>

definition redeem_for_user ::
    "crypto \<Rightarrow> string \<Rightarrow> gtime \<Rightarrow> gtime \<Rightarrow> string \<Rightarrow> nat \<Rightarrow> string \<Rightarrow> billing_db \<Rightarrow> billing_db \<times> (service_error + redemption)" where
  "redeem_for_user cr secret now clock refNo u code db =
     (if u = 0 then (db, Inl (Repo InvalidInput))
      else case redemption_code_hash cr secret code of Inl err \<Rightarrow> (db, Inl err)
      | Inr codeHash \<Rightarrow>
          let mode = get_billing_mode db in
          if mode \<noteq> ''usage'' \<and> mode \<noteq> ''period'' then (db, Inl CodeUnavailable)
          else map_error redemption_error (redeem_code clock codeHash u mode refNo now db))"

section \<open>Codes are text the service accepts\<close>

lemma to_upper_ascii: "\<forall>c \<in> set s. of_char c < (128 :: nat) \<Longrightarrow> to_upper s = map upper_ascii s"
proof (induction s)
  case (Cons c s)
  then have "drop_prefix [CHR 0xC4, CHR 0xB1] (c # s) = None" "drop_prefix [CHR 0xC5, CHR 0xBF] (c # s) = None" by auto
  with Cons show ?case by (subst to_upper.simps) (simp del: drop_prefix.simps)
qed (simp add: to_upper.simps)

lemma code_char_range: "code_char c \<Longrightarrow> of_char c \<in> {33..126::nat}"
  by (auto simp: code_char_def in_range_def)

lemma upper_code_char: "code_char c \<Longrightarrow> upper_ascii c = c"
  by (auto simp: code_char_def in_range_def upper_ascii_def Let_def)

lemma normalize_valid:
  assumes "list_all code_char s"
  shows "normalize_redemption_code s = s"
proof -
  have range: "\<forall>c \<in> set s. of_char c \<in> {33..126::nat}" using assms code_char_range by (auto simp: list_all_iff simp del: atLeastAtMost_iff)
  then have "\<forall>c \<in> set s. of_char c < (128 :: nat)" by force
  moreover have "map upper_ascii s = s" using assms by (auto simp: list_all_iff upper_code_char intro: map_idI)
  ultimately show ?thesis using trim_space_plain [OF range] by (simp add: normalize_redemption_code_def to_upper_ascii)
qed

lemma hex_digit_upper: "n < 16 \<Longrightarrow> of_char (hex_digit n) < (128 :: nat) \<and> code_char (upper_ascii (hex_digit n))"
  by (auto simp: hex_digit_def code_char_def in_range_def upper_ascii_def Let_def)

lemma upper_hex: "list_all code_char (to_upper (hex_encode s))" "length (to_upper (hex_encode s)) = 2 * length s"
proof -
  have "\<forall>c \<in> set (hex_encode s). of_char c < (128 :: nat) \<and> code_char (upper_ascii c)"
  proof (induction s)
    case (Cons c s)
    have "(of_char c :: nat) div 16 < 16" using nat_of_char_less_256 [of c] by linarith
    with Cons hex_digit_upper show ?case by simp
  qed simp
  then show "list_all code_char (to_upper (hex_encode s))" by (simp add: to_upper_ascii list_all_iff)
  have "length (hex_encode s) = 2 * length s" by (induction s) simp_all
  moreover have "to_upper (hex_encode s) = map upper_ascii (hex_encode s)"
    using \<open>\<forall>c \<in> set (hex_encode s). _\<close> by (simp add: to_upper_ascii)
  ultimately show "length (to_upper (hex_encode s)) = 2 * length s" by simp
qed

lemma generated_code_valid:
  assumes "length raw = 16"
  shows "valid_redemption_code (generate_redemption_code raw)"
proof -
  have l: "list_all code_char (to_upper (hex_encode r))" "length (to_upper (hex_encode r)) = 2 * length r" for r
    using upper_hex by blast+
  have dash: "code_char CHR ''-''" by (simp add: code_char_def)
  have part: "list_all code_char (take k (drop j v))" if "list_all code_char v" for v :: string and k j
    using that by (auto simp: list_all_iff dest: in_set_takeD in_set_dropD)
  have part0: "list_all code_char (take k v)" "list_all code_char (drop k v)" if "list_all code_char v" for v :: string and k
    using that by (auto simp: list_all_iff dest: in_set_takeD in_set_dropD)
  show ?thesis
    unfolding valid_redemption_code_def generate_redemption_code_def Let_def
    using assms l part part0 dash by simp
qed

section \<open>A created code can be revealed and redeemed\<close>

definition draws_ok :: "(nat \<Rightarrow> string option \<times> string option) \<Rightarrow> bool" where
  "draws_ok draws \<longleftrightarrow> (\<forall>k r. fst (draws k) = Some r \<longrightarrow> length r = 16) \<and>
     (\<forall>k n. snd (draws k) = Some n \<longrightarrow> length n = nonce_size)"

definition fitting_input :: "normalized_code_input \<Rightarrow> bool" where
  "fitting_input n \<longleftrightarrow> (nc_Code n = [] \<or> valid_redemption_code (nc_Code n)) \<and> 0 < nc_PerUserLimit n \<and>
     (case nc_MaxRedemptions n of None \<Rightarrow> True | Some m \<Rightarrow> nc_PerUserLimit n \<le> m) \<and>
     (nc_Mode n = ''usage'' \<and> nc_RewardType n = ''balance'' \<or>
      nc_Mode n = ''period'' \<and> nc_RewardType n = ''subscription'' \<and> nc_PlanID n \<noteq> 0 \<and> 0 < nc_DurationDays n)"

lemma reward_Inr:
  assumes "normalize_reward e db i l = Inr n"
  obtains (balance) usd where "trim_space (cf_Mode i) = ''usage''" "cf_CreditUSD i = Some usd"
      "n = l\<lparr>nc_Mode := ''usage'', nc_RewardType := ''balance'', nc_CreditNanousd := usd_to_nanousd e usd\<rparr>"
  | (subscription) "trim_space (cf_Mode i) = ''period''" "cf_PlanID i \<noteq> 0" "0 < cf_DurationDays i"
      "n = l\<lparr>nc_Mode := ''period'', nc_RewardType := ''subscription'', nc_PlanID := cf_PlanID i,
         nc_DurationDays := cf_DurationDays i\<rparr>"
  using assms by (auto simp: normalize_reward_def Let_def split: if_splits option.splits sum.splits)

lemma normalized_fits:
  assumes "normalize_redemption_code_input e clock db i = Inr n"
  shows "fitting_input n" "trim_space (cf_Mode i) = nc_Mode n"
    "nc_Mode n = ''usage'' \<Longrightarrow> \<exists>usd. cf_CreditUSD i = Some usd \<and> nc_CreditNanousd n = usd_to_nanousd e usd"
    "nc_ExpiresAt n = cf_ExpiresAt i"
proof -
  let ?l = "code_limits i"
  have l: "nc_Code ?l = [] \<or> valid_redemption_code (nc_Code ?l)"
    "\<not> (case nc_MaxRedemptions ?l of None \<Rightarrow> False | Some m \<Rightarrow> nc_PerUserLimit ?l > m)"
    and r: "normalize_reward e db i ?l = Inr n"
    using assms unfolding normalize_redemption_code_input_def Let_def if_Inr by blast+
  have e: "nc_ExpiresAt ?l = cf_ExpiresAt i" "0 < nc_PerUserLimit ?l" by (simp_all add: code_limits_def Let_def)
  from r have "fitting_input n \<and> trim_space (cf_Mode i) = nc_Mode n \<and> nc_ExpiresAt n = cf_ExpiresAt i \<and>
    (nc_Mode n = ''usage'' \<longrightarrow> (\<exists>usd. cf_CreditUSD i = Some usd \<and> nc_CreditNanousd n = usd_to_nanousd e usd))"
    by (cases rule: reward_Inr) (use l e in \<open>auto simp: fitting_input_def split: option.splits\<close>)
  then show "fitting_input n" "trim_space (cf_Mode i) = nc_Mode n" "nc_ExpiresAt n = cf_ExpiresAt i"
    "nc_Mode n = ''usage'' \<Longrightarrow> \<exists>usd. cf_CreditUSD i = Some usd \<and> nc_CreditNanousd n = usd_to_nanousd e usd" by simp_all
qed

definition input_row :: "nat \<Rightarrow> nat \<Rightarrow> normalized_code_input \<Rightarrow> string \<Rightarrow> string \<Rightarrow> string \<Rightarrow> redemption_code" where
  "input_row cid actor n h enc code = \<lparr>rc_ID = cid, rc_CodeHash = trim_space h, rc_CodeEncrypted = trim_space enc,
     rc_CodeHint = trim_space (redemption_code_hint code), rc_Mode = normalize_redemption_mode (nc_Mode n),
     rc_RewardType = normalize_redemption_reward_type (nc_RewardType n),
     rc_CreditNanousd = clamp_non_negative (nc_CreditNanousd n), rc_PlanID = nc_PlanID n,
     rc_DurationDays = nc_DurationDays n, rc_MaxRedemptions = nc_MaxRedemptions n,
     rc_PerUserLimit = (if nc_PerUserLimit n \<le> 0 then 1 else nc_PerUserLimit n), rc_RedeemedCount = 0,
     rc_Status = CodeActive, rc_ExpiresAt = nc_ExpiresAt n, rc_Description = trim_space (nc_Description n),
     rc_CreatedByUserID = actor\<rparr>"

lemma create_code_Inr:
  assumes "create_redemption_code (code_row_input actor n h enc code) db = (db', Inr row)"
  shows "row = input_row (Suc (length (db_codes db))) actor n h enc code" "db' = db\<lparr>db_codes := db_codes db @ [row]\<rparr>"
proof -
  have active: "normalize_redemption_status ''active'' = CodeActive" by code_simp
  show "row = input_row (Suc (length (db_codes db))) actor n h enc code" "db' = db\<lparr>db_codes := db_codes db @ [row]\<rparr>"
    using assms active
    by (auto simp: create_redemption_code_def code_row_input_def input_row_def Let_def split: if_splits)
qed

text \<open>A code that was handed out: its row is stored as the input says, under the hash and the box of its text.\<close>

definition issued :: "crypto \<Rightarrow> string \<Rightarrow> nat \<Rightarrow> normalized_code_input \<Rightarrow> billing_db \<Rightarrow> redemption_code \<times> string \<Rightarrow> bool" where
  "issued cr secret actor n db v \<longleftrightarrow> (\<exists>cid h enc nonce.
     fst v = input_row cid actor n h enc (snd v) \<and> fst v \<in> set (db_codes db) \<and>
     valid_redemption_code (snd v) \<and> redemption_code_hash cr secret (snd v) = Inr h \<and> length nonce = nonce_size \<and>
     redemption_code_encrypted cr (Some nonce) secret (snd v) = Inr enc)"

lemma encrypted_Inr:
  assumes "redemption_code_encrypted cr nonce secret code = Inr enc"
  shows "nonce \<noteq> None" "trim_space secret \<noteq> []"
    "box_encrypt_string cr nonce (trim_space secret) (normalize_redemption_code code) = Some enc"
    "normalize_redemption_code code \<noteq> []" "valid_redemption_code (normalize_redemption_code code)"
proof -
  show a: "trim_space secret \<noteq> []" "normalize_redemption_code code \<noteq> []" "valid_redemption_code (normalize_redemption_code code)"
    and b: "box_encrypt_string cr nonce (trim_space secret) (normalize_redemption_code code) = Some enc"
    using assms by (auto simp: redemption_code_encrypted_def Let_def split: if_splits option.splits)
  have "trim_space (normalize_redemption_code code) = normalize_redemption_code code"
    using a(3) code_char_range by (intro trim_space_plain) (auto simp: valid_redemption_code_def list_all_iff simp del: atLeastAtMost_iff)
  with a(2) b show "nonce \<noteq> None" by (auto simp: box_encrypt_string_def box_encrypt_def split: if_splits option.splits)
qed

lemma create_one_cases:
  assumes "create_one_code cr secret actor n raw nonce db = (db', r)"
  obtains (none) err where "db' = db" "r = Inl err"
  | (row) code h enc res where "drawn_code n raw = Inr code" "redemption_code_hash cr secret code = Inr h"
      "redemption_code_encrypted cr nonce secret code = Inr enc"
      "create_redemption_code (code_row_input actor n h enc code) db = (db', res)"
      "\<And>row. res = Inr row \<Longrightarrow> r = Inr (row, code)" "\<And>err. res = Inl err \<Longrightarrow> \<exists>err. r = Inl err"
proof (cases "drawn_code n raw")
  case code: (Inr code)
  show thesis
  proof (cases "redemption_code_hash cr secret code")
    case h: (Inr h)
    show thesis
    proof (cases "redemption_code_encrypted cr nonce secret code")
      case enc: (Inr enc)
      obtain db1 res where res: "create_redemption_code (code_row_input actor n h enc code) db = (db1, res)" by fastforce
      have "db1 = db'" "\<And>row. res = Inr row \<Longrightarrow> r = Inr (row, code)" "\<And>err. res = Inl err \<Longrightarrow> \<exists>err. r = Inl err"
        using assms code h enc res by (auto simp: create_one_code_def split: sum.splits)
      with row [OF code h enc] res show thesis by blast
    qed (use assms code h in \<open>auto simp: create_one_code_def intro: none\<close>)
  qed (use assms code in \<open>auto simp: create_one_code_def intro: none\<close>)
qed (use assms in \<open>auto simp: create_one_code_def intro: none\<close>)

lemma create_one_issued:
  assumes "create_one_code cr secret actor n raw nonce db = (db', Inr v)" "fitting_input n"
    and "\<forall>r. raw = Some r \<longrightarrow> length r = 16" "\<forall>k. nonce = Some k \<longrightarrow> length k = nonce_size"
  shows "issued cr secret actor n db' v" "db' = db\<lparr>db_codes := db_codes db @ [fst v]\<rparr>"
proof -
  obtain row code where v: "v = (row, code)" by (cases v)
  obtain h enc where drawn: "drawn_code n raw = Inr code"
    and h: "redemption_code_hash cr secret code = Inr h"
    and enc: "redemption_code_encrypted cr nonce secret code = Inr enc"
    and row: "create_redemption_code (code_row_input actor n h enc code) db = (db', Inr row)"
    using assms(1) unfolding v
  proof (cases rule: create_one_cases)
    case (row code h enc res)
    with that show ?thesis by (cases res) auto
  qed simp
  have "valid_redemption_code code"
    using drawn assms(2,3) generated_code_valid
    by (auto simp: drawn_code_def fitting_input_def split: if_splits option.splits)
  moreover obtain k where "nonce = Some k" "length k = nonce_size" using encrypted_Inr(1) [OF enc] assms(4) by blast
  ultimately show "issued cr secret actor n db' v"
    using create_code_Inr [OF row] h enc unfolding issued_def v by fastforce
  show "db' = db\<lparr>db_codes := db_codes db @ [fst v]\<rparr>" using create_code_Inr(2) [OF row] v by simp
qed

lemma issued_mono:
  "issued cr secret actor n db v \<Longrightarrow> set (db_codes db) \<subseteq> set (db_codes db') \<Longrightarrow> issued cr secret actor n db' v"
  by (auto simp: issued_def)

lemma create_loop_issued:
  assumes "create_codes_loop cr secret actor n ds results db = (db', Inr views)" "fitting_input n"
    and "\<forall>(raw, nonce) \<in> set ds. (\<forall>r. raw = Some r \<longrightarrow> length r = 16) \<and> (\<forall>k. nonce = Some k \<longrightarrow> length k = nonce_size)"
    and "\<forall>v \<in> set results. issued cr secret actor n db v"
  shows "\<forall>v \<in> set views. issued cr secret actor n db' v"
  using assms
proof (induction ds arbitrary: results db)
  case (Cons d ds)
  obtain raw nonce where d: "d = (raw, nonce)" by (cases d)
  from Cons.prems(1) obtain db1 v where one: "create_one_code cr secret actor n raw nonce db = (db1, Inr v)"
    and rest: "create_codes_loop cr secret actor n ds (results @ [v]) db1 = (db', Inr views)"
    by (auto simp: d split: prod.splits sum.splits)
  have "issued cr secret actor n db1 v" "db1 = db\<lparr>db_codes := db_codes db @ [fst v]\<rparr>"
    using create_one_issued [OF one Cons.prems(2)] Cons.prems(3) by (simp_all add: d)
  then have "\<forall>v \<in> set (results @ [v]). issued cr secret actor n db1 v"
    using Cons.prems(4) by (auto intro: issued_mono)
  with Cons.IH [OF rest Cons.prems(2)] Cons.prems(3) show ?case by simp
qed simp

lemma create_code_redemptions:
  "create_redemption_code ci db = (db', res) \<Longrightarrow> db_redemptions db' = db_redemptions db"
  by (auto simp: create_redemption_code_def Let_def split: if_splits)

lemma create_loop_ok:
  assumes "create_codes_loop cr secret actor n ds results db = (db', res)" "codes_ok db"
  shows "codes_ok db' \<and> db_redemptions db' = db_redemptions db"
  using assms
proof (induction ds arbitrary: results db)
  case (Cons d ds)
  obtain raw nonce where d: "d = (raw, nonce)" by (cases d)
  obtain db1 r where one: "create_one_code cr secret actor n raw nonce db = (db1, r)" by fastforce
  have "db1 = db \<or> (\<exists>ci res. create_redemption_code ci db = (db1, res))"
    using one by (cases rule: create_one_cases) blast+
  then have "codes_ok db1 \<and> db_redemptions db1 = db_redemptions db"
    using Cons.prems(2) create_code_ok create_code_redemptions by blast
  with Cons.IH [of _ db1] Cons.prems(1) one show ?case by (auto simp: d split: sum.splits)
qed simp

lemma created_issued:
  assumes "create_redemption_codes e cr secret clock draws actor i db = (db', Inr views)" "codes_ok db" "draws_ok draws"
  obtains n where "normalize_redemption_code_input e clock db i = Inr n" "fitting_input n" "codes_ok db'"
    "db_redemptions db' = db_redemptions db" "\<forall>v \<in> set views. issued cr secret actor n db' v"
    "create_codes_loop cr secret actor n (map draws [0..<nat (nc_Quantity n)]) [] db = (db', Inr views)"
proof -
  obtain n where n: "normalize_redemption_code_input e clock db i = Inr n"
    and loop: "create_codes_loop cr secret actor n (map draws [0..<nat (nc_Quantity n)]) [] db = (db', Inr views)"
    using assms(1) by (auto simp: create_redemption_codes_def split: if_splits sum.splits)
  have "\<forall>(raw, nonce) \<in> set (map draws [0..<nat (nc_Quantity n)]).
      (\<forall>r. raw = Some r \<longrightarrow> length r = 16) \<and> (\<forall>k. nonce = Some k \<longrightarrow> length k = nonce_size)"
    using assms(3) by (auto simp: draws_ok_def) (metis fst_conv snd_conv)+
  with that n loop normalized_fits(1) [OF n] create_loop_ok [OF loop assms(2)]
    create_loop_issued [OF loop normalized_fits(1) [OF n]] show ?thesis by simp
qed


lemma find_unique:
  assumes "x \<in> set xs" "P x" "\<And>y. y \<in> set xs \<Longrightarrow> P y \<Longrightarrow> y = x"
  shows "find P xs = Some x"
proof (cases "find P xs")
  case None
  with assms(1,2) show ?thesis by (simp add: find_None_iff)
next
  case (Some y)
  then have "y \<in> set xs" "P y" by (auto simp: find_Some_iff)
  with assms(3) Some show ?thesis by blast
qed

lemma issuedE:
  assumes "issued cr secret actor n db (row, code)"
  obtains cid h enc nonce where "row = input_row cid actor n h enc code" "row \<in> set (db_codes db)"
    "valid_redemption_code code" "redemption_code_hash cr secret code = Inr h" "length nonce = nonce_size"
    "redemption_code_encrypted cr (Some nonce) secret code = Inr enc"
  using assms by (simp only: issued_def fst_conv snd_conv) blast

lemma input_row_simps [simp]:
  "rc_ID (input_row cid actor n h enc code) = cid" "rc_CodeHash (input_row cid actor n h enc code) = trim_space h"
  "rc_CodeEncrypted (input_row cid actor n h enc code) = trim_space enc"
  "rc_Status (input_row cid actor n h enc code) = CodeActive" "rc_RedeemedCount (input_row cid actor n h enc code) = 0"
  by (simp_all add: input_row_def)

lemma issued_row:
  assumes "issued cr secret actor n db (row, code)" "codes_ok db"
  shows "\<exists>h. redemption_code_hash cr secret code = Inr h \<and> find_code (\<lambda>c. rc_CodeHash c = trim_space h) db = Some row"
    and "find_code (\<lambda>c. rc_ID c = rc_ID row \<and> rc_Status c \<noteq> CodeDeleted) db = Some row" "0 < rc_ID row"
proof -
  from assms(1) obtain h where h: "redemption_code_hash cr secret code = Inr h" "rc_CodeHash row = trim_space h"
    and row: "row \<in> set (db_codes db)" "rc_Status row = CodeActive"
    by (rule issuedE) simp
  have unique: "\<And>c. c \<in> set (db_codes db) \<Longrightarrow> rc_CodeHash c = rc_CodeHash row \<Longrightarrow> c = row"
    using assms(2) row(1) by (simp add: codes_ok_def distinct_map inj_on_def)
  have "find_code (\<lambda>c. rc_CodeHash c = trim_space h) db = Some row"
    unfolding find_code_def using h(2) by (intro find_unique [OF row(1)] unique) simp_all
  with h(1) show "\<exists>h. redemption_code_hash cr secret code = Inr h \<and> find_code (\<lambda>c. rc_CodeHash c = trim_space h) db = Some row"
    by blast
  show "find_code (\<lambda>c. rc_ID c = rc_ID row \<and> rc_Status c \<noteq> CodeDeleted) db = Some row"
    unfolding find_code_def
    by (rule find_unique) (use row code_by_id [OF assms(2) _ row(1)] in auto)
  show "0 < rc_ID row" using code_id_bound [OF assms(2) row(1)] by simp
qed

lemma issued_plaintext:
  assumes "issued cr secret actor n db (row, code)" "crypto_ok cr"
  shows "redemption_code_plaintext cr secret (rc_CodeEncrypted row) = Inr code" "code \<noteq> []"
proof -
  from assms(1) obtain enc nonce where row: "rc_CodeEncrypted row = trim_space enc" and valid: "valid_redemption_code code"
    and enc: "redemption_code_encrypted cr (Some nonce) secret code = Inr enc" "length nonce = nonce_size"
    by (rule issuedE) simp
  have code: "normalize_redemption_code code = code" using valid normalize_valid by (simp add: valid_redemption_code_def)
  have plain: "trim_space code = code"
    using valid code_char_range by (intro trim_space_plain) (auto simp: valid_redemption_code_def list_all_iff simp del: atLeastAtMost_iff)
  show nonempty: "code \<noteq> []" using valid by (auto simp: valid_redemption_code_def)
  let ?s = "trim_space secret"
  have box: "box_encrypt cr (Some nonce) ?s code = Some enc"
    using encrypted_Inr(3) [OF enc(1)] by (simp add: code box_encrypt_string_def plain)
  then have "enc = box_prefix @ b64_encode (nonce @ cr_seal cr (box_key cr ?s) nonce code)"
    using nonempty by (simp add: box_encrypt_def)
  then have "trim_space enc = enc" "enc \<noteq> []" using boxed_plain by (auto simp: box_prefix_def)
  moreover have "box_decrypt_string cr ?s enc = Some code"
    using box_decrypt_encrypt [OF assms(2) enc(2) box] by (simp add: box_decrypt_string_def)
  ultimately show "redemption_code_plaintext cr secret (rc_CodeEncrypted row) = Inr code"
    using encrypted_Inr(2) [OF enc(1)] row code by (simp add: redemption_code_plaintext_def Let_def)
qed

text \<open>
  C27: Revealing a code gives back the text it was created with: for every code of a successful creation,
  generated or chosen, the stored box opens to exactly the text that was handed out.
\<close>

theorem created_code_revealed:
  assumes "create_redemption_codes e cr secret clock draws actor i db = (db', Inr views)"
    and "codes_ok db" "crypto_ok cr" "draws_ok draws" "(row, code) \<in> set views"
  shows "reveal_redemption_code cr secret db' (rc_ID row) = Inr (row, code)"
proof -
  obtain n where v: "issued cr secret actor n db' (row, code)" "codes_ok db'"
    using created_issued [OF assms(1,2,4)] assms(5) by metis
  show ?thesis
    using issued_row(2,3) [OF v] issued_plaintext [OF v(1) assms(3)]
    by (simp add: reveal_redemption_code_def get_redemption_code_by_id_def or_not_found_def)
qed

text \<open>
  A created code can be redeemed at once: its text leads to its row, and until its expiry the row is
  redeemable for every user in every billing mode its own mode is available in, provided the credit of a
  usage code does not round to nothing.
\<close>

theorem created_code_redeemable:
  assumes "create_redemption_codes e cr secret clock draws actor i db = (db', Inr views)"
    and "codes_ok db" "draws_ok draws" "(row, code) \<in> set views"
    and "mode_available_in_billing_mode (rc_Mode row) mode" "\<forall>t. cf_ExpiresAt i = Some t \<longrightarrow> now < t"
    and "\<forall>usd. trim_space (cf_Mode i) = ''usage'' \<longrightarrow> cf_CreditUSD i = Some usd \<longrightarrow> 0 < usd_to_nanousd e usd"
  shows "\<exists>h. redemption_code_hash cr secret code = Inr h \<and>
    find_code (\<lambda>c. rc_CodeHash c = trim_space h) db' = Some row \<and> validate_redeemable_code db' row u mode now = None"
proof -
  obtain n where n: "normalize_redemption_code_input e clock db i = Inr n" "fitting_input n"
    and v: "issued cr secret actor n db' (row, code)" "codes_ok db'"
    using created_issued [OF assms(1,2,3)] assms(4) by metis
  from v(1) obtain cid h enc where row: "row = input_row cid actor n h enc code" "row \<in> set (db_codes db')"
    by (rule issuedE)
  have "code_counted db' row" using v(2) row(2) by (simp add: codes_ok_def)
  then have "int (length (redemptions_of db' (rc_ID row))) = 0" by (simp add: code_counted_def row(1))
  then have none: "redemptions_of db' (rc_ID row) = []" by simp
  have modes: "normalize_redemption_mode ''usage'' = CodeUsage" "normalize_redemption_mode ''period'' = CodePeriod"
    "normalize_redemption_reward_type ''balance'' = RewardBalance"
    "normalize_redemption_reward_type ''subscription'' = RewardSubscription" by code_simp+
  have credit: "nc_Mode n = ''usage'' \<Longrightarrow> 0 < nc_CreditNanousd n"
    using normalized_fits(2,3) [OF n(1)] assms(7) by force
  have "validate_redeemable_code db' row u mode now = None"
    using none n(2) credit modes assms(5,6) normalized_fits(4) [OF n(1)]
    unfolding validate_redeemable_code_def
    by (auto simp: row(1) input_row_def fitting_input_def clamp_non_negative_def Let_def split: option.splits)
  with issued_row(1) [OF v] show ?thesis by blast
qed

section \<open>A sample creation\<close>

definition sample_crypto :: crypto where
  "sample_crypto = \<lparr>cr_sha256 = (\<lambda>s. s), cr_hmac = (\<lambda>k s. s), cr_seal = (\<lambda>k n p. p), cr_open = (\<lambda>k n c. Some c)\<rparr>"

definition sample_form :: code_form where
  "sample_form = \<lparr>cf_Code = '' vip1 '', cf_Quantity = 0, cf_Mode = ''period'', cf_CreditUSD = None, cf_PlanID = 2,
     cf_DurationDays = 30, cf_MaxRedemptions = Some 5, cf_PerUserLimit = 1, cf_ExpiresAt = Some 1000, cf_Description = []\<rparr>"

definition sample_draws :: "nat \<Rightarrow> string option \<times> string option" where
  "sample_draws k = (None, Some (replicate 12 CHR ''n''))"

definition sample_created :: "billing_db \<times> (service_error + (redemption_code \<times> string) list)" where
  "sample_created = create_redemption_codes (sample_pricing_env ''usage'' (sample_price False ''token'')) sample_crypto ''key''
     10 sample_draws 1 sample_form sample_payment_db"

lemma sample_created_code:
  "case snd sample_created of Inl _ \<Rightarrow> False | Inr vs \<Rightarrow> map snd vs = [''VIP1''] \<and> list_all (\<lambda>v. rc_Mode (fst v) = CodePeriod) vs"
  by code_simp

lemma sample_created_Inr: "\<exists>db' row. sample_created = (db', Inr [(row, ''VIP1'')]) \<and> rc_Mode row = CodePeriod"
proof -
  obtain db' r where r: "sample_created = (db', r)" by fastforce
  then have "snd sample_created = r" by (metis snd_conv)
  with sample_created_code obtain vs where vs: "r = Inr vs" "map snd vs = [''VIP1'']" "list_all (\<lambda>v. rc_Mode (fst v) = CodePeriod) vs"
    by (cases r) simp_all
  then obtain row where "vs = [(row, ''VIP1'')]" by (cases vs) auto
  with vs r show ?thesis by auto
qed

lemma sample_crypto_ok: "crypto_ok sample_crypto" "draws_ok sample_draws"
  by (simp_all add: crypto_ok_def sample_crypto_def draws_ok_def sample_draws_def nonce_size_def)

theorem created_code_revealed_witness:
  "\<exists>db' row. sample_created = (db', Inr [(row, ''VIP1'')]) \<and>
     reveal_redemption_code sample_crypto ''key'' db' (rc_ID row) = Inr (row, ''VIP1'')"
proof -
  from sample_created_Inr obtain db' row where r: "sample_created = (db', Inr [(row, ''VIP1'')])" by blast
  from created_code_revealed [OF r [unfolded sample_created_def] sample_payment_ok(3) sample_crypto_ok] r show ?thesis by auto
qed

theorem created_code_redeemable_witness:
  "\<exists>db' row. sample_created = (db', Inr [(row, ''VIP1'')]) \<and> validate_redeemable_code db' row 7 ''period'' 999 = None"
proof -
  from sample_created_Inr obtain db' row where r: "sample_created = (db', Inr [(row, ''VIP1'')])" "rc_Mode row = CodePeriod" by blast
  have "mode_available_in_billing_mode CodePeriod ''period''" "trim_space (cf_Mode sample_form) = ''period''"
    "\<forall>t. cf_ExpiresAt sample_form = Some t \<longrightarrow> 999 < t" by (code_simp, code_simp, simp add: sample_form_def)
  with created_code_redeemable [OF r(1) [unfolded sample_created_def] sample_payment_ok(3) sample_crypto_ok(2),
      where row = row and code = "''VIP1''" and mode = "''period''" and now = 999 and u = 7] r
  show ?thesis by auto
qed

end
