(* ===== verification/Billing_Runs.thy ===== *)
theory Billing_Runs
  imports Redemption_Service
begin

text \<open>
  Runs of the billing database: the relation \<open>billing_step\<close> has one rule for every writing operation of the
  repository, \<open>service_step\<close> one for every writing operation of the service. The lemmas show which
  tables an operation leaves alone, that every step keeps the invariants of all components together,
  that reservations only move forward, and that every service operation is a run of repository steps.
\<close>

section \<open>The steps of the repository\<close>

inductive billing_step :: "billing_db \<Rightarrow> billing_db \<Rightarrow> bool" where
  reserve: "reserve_usage_balance now q db = (db', r1) \<Longrightarrow> billing_step db db'"
| release: "release_usage_balance_reservation now u no db = (db', r2) \<Longrightarrow> billing_step db db'"
| renew: "renew_usage_balance_reservation now u no db = (db', r2) \<Longrightarrow> billing_step db db'"
| reconcile: "mark_usage_reservation_reconciliation_required now u no code db = (db', r2) \<Longrightarrow> billing_step db db'"
| usage: "add_usage_and_settle_balance now usage res db = (db', r3) \<Longrightarrow> billing_step db db'"
| period: "add_period_usage_and_settle_overage now usage s e credit res db = (db', r3) \<Longrightarrow> billing_step db db'"
| free_usage: "billing_step db (add_usage usage db)"
| order: "create_payment_order i db = (db', r4) \<Longrightarrow> trim_space (oi_Status i) \<noteq> ''paid'' \<Longrightarrow> billing_step db db'"
| checkout: "update_payment_order_checkout no cid url db = (db', r2) \<Longrightarrow> billing_step db db'"
| complete: "complete_payment_order zone clock no ext paidAt db = (db', r5) \<Longrightarrow> billing_step db db'"
| set_balance: "set_billing_account_balance u balance no db = (db', r6) \<Longrightarrow> in_int64 balance \<Longrightarrow> billing_step db db'"
| open_account: "fetch_billing_account u db = (db', r6) \<Longrightarrow> billing_step db db'"
| invite: "apply_invitation_reward u reward kind rid no db = Inr (x, db') \<Longrightarrow> billing_step db db'"
| create_code: "create_redemption_code ci db = (db', r7) \<Longrightarrow> billing_step db db'"
| patch_code: "patch_redemption_code cid p db = (db', r7) \<Longrightarrow> billing_step db db'"
| delete_code: "delete_redemption_code cid db = (db', r2) \<Longrightarrow> billing_step db db'"
| redeem: "redeem_code clock h u mode no at0 db = (db', r8) \<Longrightarrow> billing_step db db'"
| replace: "sb_PlanID item \<noteq> 0 \<Longrightarrow> sb_PriceID item \<noteq> 0 \<Longrightarrow> billing_step db (replace_subscription clock item db)"
| plan: "update_plan_with_default_price plan price db = (db', r2) \<Longrightarrow> billing_step db db'"
| setting: "billing_step db (db\<lparr>db_settings := settings\<rparr>)"

text \<open>The invariants of the components, together.\<close>

definition billing_ok :: "billing_db \<Rightarrow> bool" where
  "billing_ok db \<longleftrightarrow> books_balance db \<and> reservations_ok db \<and> subscriptions_ok db \<and> orders_ok db \<and> codes_ok db"

section \<open>Frames\<close>

lemma same_tables_ok:
  assumes "db_reservations db' = db_reservations db" "db_ledger db' = db_ledger db"
  shows "reservations_ok db' = reservations_ok db"
  using assms by (simp add: reservations_ok_def)

lemma account_step_trans_same:
  assumes "account_step db db1" "db_transactions db2 = db_transactions db1" "db_orders db2 = db_orders db1"
    "db_codes db2 = db_codes db1" "db_redemptions db2 = db_redemptions db1" "db_subscriptions db2 = db_subscriptions db1"
  shows "account_step db db2"
  using assms by (simp add: account_step_def)

lemma debit_entry_frame:
  assumes "debit_entry a amount res row db = Inr (row', db')"
  shows "account_step db db'"
proof (cases "amount > 0")
  case True
  with assms obtain b db1 t where "add_balance a (- amount) (db\<lparr>db_ledger := db_ledger db @
      [row\<lparr>lr_BalanceAfterNanousd := Some (wrap64 (ba_BalanceNanousd a - amount))\<rparr>]\<rparr>) = Inr (b, db1)"
    and "db' = add_transaction t db1" "bt_Type t = TxUsage"
    by (auto simp: debit_entry_def Let_def split: sum.splits)
  then show ?thesis by (auto simp: add_balance_Inr account_step_def add_transaction_def put_balance_def)
next
  case False
  then show ?thesis using assms by (auto simp: debit_entry_def Let_def account_step_def)
qed

lemma settle_frame: "account_step db db1 \<Longrightarrow> account_step db (settle_usage_reservation now own k db1)"
  by (erule account_step_trans_same) (auto simp: settle_usage_reservation_def update_reservation_def split: option.splits)

lemma account_steps:
  assumes "get_or_create_billing_account u db = Inr (a, db1)" "account_step db1 db2"
  shows "account_step db db2"
  using assms get_or_create_other [OF assms(1)] by (simp add: account_step_def)

lemma usage_frame:
  assumes "add_usage_and_settle_balance now usage res db = (db', r)"
  shows "account_step db db'"
  using assms unfolding add_usage_and_settle_balance_def
proof (cases rule: run_tx_cases)
  case (commit row)
  then obtain a db1 own where acc: "get_or_create_billing_account (ul_UserID usage) db = Inr (a, db1)"
    and "db' = db1 \<or> (\<exists>amount row0 db2. debit_entry a amount res row0 db1 = Inr (row, db2) \<and>
      db' = settle_usage_reservation now own (length (db_ledger db2)) db2)"
    unfolding usage_body_def map_sum_id_Inr by (fastforce split: sum.splits if_splits option.splits bool.splits simp: map_sum_id_Inr)
  then have "account_step db1 db'" using debit_entry_frame settle_frame by auto
  with acc show ?thesis by (rule account_steps)
qed simp

lemma period_frame:
  assumes "add_period_usage_and_settle_overage now usage s e credit res db = (db', r)"
  shows "account_step db db'"
proof (cases "ul_UserID usage = 0 \<or> is_zero s \<or> \<not> e > s \<or> credit < 0")
  case False
  with assms have "run_tx (period_body now usage s e credit res) db = (db', r)"
    by (simp only: add_period_usage_and_settle_overage_def if_False)
  then show ?thesis
  proof (cases rule: run_tx_cases)
    case (commit row)
    then obtain a db1 own where acc: "get_or_create_billing_account (ul_UserID usage) db = Inr (a, db1)"
      and "db' = db1 \<or> (\<exists>amount row0 db2. debit_entry a amount res row0 db1 = Inr (row, db2) \<and>
        db' = settle_usage_reservation now own (length (db_ledger db2)) db2)"
      unfolding period_body_def by (fastforce split: sum.splits if_splits option.splits bool.splits simp: map_sum_id_Inr)
    then have "account_step db1 db'" using debit_entry_frame settle_frame by auto
    with acc show ?thesis by (rule account_steps)
  qed simp
qed (use assms in \<open>simp only: add_period_usage_and_settle_overage_def if_True\<close>, simp)

text \<open>Operations on reservations alone leave the other tables as they are.\<close>

definition same_but_reservations :: "billing_db \<Rightarrow> billing_db \<Rightarrow> bool" where
  "same_but_reservations db db' \<longleftrightarrow> (\<exists>rs. db' = db\<lparr>db_reservations := rs\<rparr>)"

lemma same_but_reservations_ok:
  assumes "same_but_reservations db db'"
  shows "account_step db db'" "books_balance db' = books_balance db"
  using assms by (auto simp: same_but_reservations_def account_step_def)

lemma reservation_ops_frame:
  "release_usage_balance_reservation now u no db = (db', r) \<Longrightarrow> same_but_reservations db db'"
  "renew_usage_balance_reservation now u no db = (db', r) \<Longrightarrow> same_but_reservations db db'"
  "mark_usage_reservation_reconciliation_required now u no code db = (db', r) \<Longrightarrow> same_but_reservations db db'"
proof -
  have id: "same_but_reservations db db" by (auto simp: same_but_reservations_def intro: exI [of _ "db_reservations db"])
  note d = release_usage_balance_reservation_def renew_usage_balance_reservation_def
    mark_usage_reservation_reconciliation_required_def update_reservation_def Let_def
  show "release_usage_balance_reservation now u no db = (db', r) \<Longrightarrow> same_but_reservations db db'"
    using id by (auto simp: d split: if_splits option.splits) (auto simp: same_but_reservations_def)
  show "renew_usage_balance_reservation now u no db = (db', r) \<Longrightarrow> same_but_reservations db db'"
    using id by (auto simp: d split: if_splits) (auto simp: same_but_reservations_def)
  show "mark_usage_reservation_reconciliation_required now u no code db = (db', r) \<Longrightarrow> same_but_reservations db db'"
    using id by (auto simp: d split: if_splits) (auto simp: same_but_reservations_def)
qed

lemma reserve_frame:
  assumes "reserve_usage_balance now q db = (db', r)"
  shows "account_step db db'" "db_ledger db' = db_ledger db"
proof -
  have "account_step db db' \<and> db_ledger db' = db_ledger db"
  proof (cases r)
    case (Inl err)
    then show ?thesis using assms by (auto simp: reserve_usage_balance_def split: if_splits dest: run_tx_Inl)
  next
    case (Inr row)
    with assms have "reserve_usage_balance now q db = (db', Inr row)" by simp
    then show ?thesis
    proof (cases rule: reserve_cases)
      case (1 a db1 credit)
      from get_or_create_other [OF 1(2)] open_account_step [OF 1(2)] show ?thesis
        by (simp add: 1(7) account_step_def)
    qed
  qed
  then show "account_step db db'" "db_ledger db' = db_ledger db" by simp_all
qed

text \<open>Operations that leave the accounts, the transactions and the subscriptions alone.\<close>

definition same_money :: "billing_db \<Rightarrow> billing_db \<Rightarrow> bool" where
  "same_money db db' \<longleftrightarrow> db_accounts db' = db_accounts db \<and> db_transactions db' = db_transactions db \<and>
     db_reservations db' = db_reservations db \<and> db_ledger db' = db_ledger db"

lemma same_money_ok:
  assumes "same_money db db'"
  shows "books_balance db' = books_balance db" "reservations_ok db' = reservations_ok db"
  using assms by (simp_all add: same_money_def books_balance_def balance_of_def transactions_of_def reservations_ok_def)

lemma order_ops_frame:
  "create_payment_order i db = (db', r4) \<Longrightarrow> same_money db db' \<and> db_subscriptions db' = db_subscriptions db \<and>
     db_codes db' = db_codes db \<and> db_redemptions db' = db_redemptions db"
  "update_payment_order_checkout no cid url db = (db', r2) \<Longrightarrow> same_money db db' \<and>
     db_subscriptions db' = db_subscriptions db \<and> db_codes db' = db_codes db \<and> db_redemptions db' = db_redemptions db"
  by (auto simp: create_payment_order_def update_payment_order_checkout_def update_orders_def same_money_def Let_def
      split: if_splits)

lemma code_ops_frame:
  assumes "create_redemption_code ci db = (db', r) \<or> patch_redemption_code cid p db = (db', r') \<or>
    delete_redemption_code cid db = (db', r'')"
  shows "same_money db db' \<and> db_subscriptions db' = db_subscriptions db \<and> db_orders db' = db_orders db"
  using assms
proof (elim disjE)
  assume "create_redemption_code ci db = (db', r)"
  then show ?thesis by (auto simp: create_redemption_code_def same_money_def Let_def split: if_splits)
next
  assume "patch_redemption_code cid p db = (db', r')"
  then show ?thesis
    by (cases "cid = 0") (auto simp: patch_redemption_code_def patch_body_def run_tx_def update_code_def same_money_def
        split: option.splits if_splits)
next
  assume "delete_redemption_code cid db = (db', r'')"
  then show ?thesis by (auto simp: delete_redemption_code_def update_code_def same_money_def split: if_splits)
qed

lemma complete_frame:
  assumes "complete_payment_order zone clock no ext t db = (db', r)"
  shows "db_codes db' = db_codes db" "db_redemptions db' = db_redemptions db"
    "db_reservations db' = db_reservations db" "db_ledger db' = db_ledger db"
proof -
  have "db_codes db' = db_codes db \<and> db_redemptions db' = db_redemptions db \<and>
    db_reservations db' = db_reservations db \<and> db_ledger db' = db_ledger db"
    using assms
  proof (cases rule: complete_cases)
    case (topup x a db1)
    then show ?thesis using get_or_create_other [OF topup(7)]
      by (simp add: settled_order_def credited_db_def add_transaction_def put_balance_def Let_def)
  next
    case (subscription x plan price endAt row db1)
    then show ?thesis using same_but_grant [OF subscription(10)]
      by (simp add: settled_order_def same_but_subscriptions_def)
  qed simp_all
  then show "db_codes db' = db_codes db" "db_redemptions db' = db_redemptions db"
    "db_reservations db' = db_reservations db" "db_ledger db' = db_ledger db" by simp_all
qed

lemma plan_ops_frame:
  "update_plan_with_default_price plan price db = (db', r) \<Longrightarrow> same_money db db' \<and>
     db_subscriptions db' = db_subscriptions db \<and> db_orders db' = db_orders db \<and>
     db_codes db' = db_codes db \<and> db_redemptions db' = db_redemptions db"
  by (auto simp: update_plan_with_default_price_def run_tx_def plan_body_def same_money_def Let_def
      split: if_splits option.splits)

lemma replace_frame:
  "same_money db (replace_subscription clock item db)"
  "db_orders (replace_subscription clock item db) = db_orders db"
  "db_codes (replace_subscription clock item db) = db_codes db"
  "db_redemptions (replace_subscription clock item db) = db_redemptions db"
  by (simp_all add: replace_subscription_def same_money_def Let_def)

lemma subscriptions_cong: "db_subscriptions db' = db_subscriptions db \<Longrightarrow> subscriptions_ok db' = subscriptions_ok db"
  by (simp add: subscriptions_ok_def ids_ok_def)

section \<open>Every step keeps the invariants\<close>

lemma billing_okI:
  assumes "billing_ok db" "account_step db db'" "books_balance db'" "reservations_ok db'"
  shows "billing_ok db'"
  using assms account_step_ok [OF assms(2)] by (simp add: billing_ok_def)

lemma settlement_keeps:
  assumes "billing_ok db" "account_step db db'"
    and "db' = db \<or> settlement_retry u res db db' row \<or> settlement_first now u amount res db db' row \<and> books_balance db'"
  shows "billing_ok db'"
proof -
  have ok: "books_balance db" "reservations_ok db" using assms(1) by (simp_all add: billing_ok_def)
  have "reservations_ok db'" using assms(3) ok(2) settlement_ok by blast
  moreover have "books_balance db'"
    using assms(3) ok(1) get_or_create_books by (blast elim: settlement_retryE)
  ultimately show ?thesis using billing_okI [OF assms(1,2)] by simp
qed

lemma usage_ok:
  assumes "billing_ok db" "add_usage_and_settle_balance now usage res db = (db', r)"
  shows "billing_ok db'"
proof -
  have "books_balance db" using assms(1) by (simp add: billing_ok_def)
  from assms(2) this show ?thesis
    by (cases rule: add_usage_cases) (use settlement_keeps [OF assms(1) usage_frame [OF assms(2)]] in blast)+
qed

lemma period_ok:
  assumes "billing_ok db" "add_period_usage_and_settle_overage now usage s e credit res db = (db', r)"
  shows "billing_ok db'"
proof -
  have "books_balance db" using assms(1) by (simp add: billing_ok_def)
  from assms(2) this show ?thesis
    by (cases rule: add_period_cases) (use settlement_keeps [OF assms(1) period_frame [OF assms(2)]] in blast)+
qed

lemma free_usage_ok: "billing_ok db \<Longrightarrow> billing_ok (add_usage usage db)"
  by (rule billing_okI) (auto simp: add_usage_def account_step_def billing_ok_def reservations_ok_def)

lemma reserve_keeps:
  assumes "billing_ok db" "reserve_usage_balance now q db = (db', r)"
  shows "billing_ok db'"
  using assms(1) reserve_books [OF _ assms(2)] reserve_ok [OF _ assms(2)]
  by (intro billing_okI [OF assms(1) reserve_frame(1) [OF assms(2)]]) (simp_all add: billing_ok_def)

lemma money_okI:
  assumes "billing_ok db" "same_money db db'" "subscriptions_ok db'" "orders_ok db'" "codes_ok db'"
  shows "billing_ok db'"
  using assms same_money_ok [OF assms(2)] by (simp add: billing_ok_def)

lemma order_okI:
  assumes "billing_ok db" "same_money db db' \<and> db_subscriptions db' = db_subscriptions db \<and>
      db_codes db' = db_codes db \<and> db_redemptions db' = db_redemptions db" "orders_ok db'"
  shows "billing_ok db'"
  using assms subscriptions_cong [of db' db] codes_ok_cong [of db db']
  by (intro money_okI [OF assms(1)]) (simp_all add: billing_ok_def)

lemma code_okI:
  assumes "billing_ok db" "same_money db db' \<and> db_subscriptions db' = db_subscriptions db \<and> db_orders db' = db_orders db"
    "codes_ok db'"
  shows "billing_ok db'"
  using assms subscriptions_cong [of db' db] orders_ok_cong [of db db']
  by (intro money_okI [OF assms(1)]) (simp_all add: billing_ok_def same_money_def)

theorem billing_step_ok:
  assumes "billing_step db db'" "billing_ok db"
  shows "billing_ok db'"
  using assms
proof (cases rule: billing_step.cases)
  case (release now u no r)
  note f = reservation_ops_frame(1) [OF release]
  show ?thesis using assms(2) release_ok [OF _ release] same_but_reservations_ok [OF f]
    by (intro billing_okI [OF assms(2)]) (simp_all add: billing_ok_def)
next
  case (renew now u no r)
  note f = reservation_ops_frame(2) [OF renew]
  show ?thesis using assms(2) renew_ok [OF _ renew] same_but_reservations_ok [OF f]
    by (intro billing_okI [OF assms(2)]) (simp_all add: billing_ok_def)
next
  case (reconcile now u no code r)
  note f = reservation_ops_frame(3) [OF reconcile]
  show ?thesis using assms(2) mark_ok [OF _ reconcile] same_but_reservations_ok [OF f]
    by (intro billing_okI [OF assms(2)]) (simp_all add: billing_ok_def)
next
  case (order i r)
  have "orders_ok db'" using assms(2) create_order_ok [OF _ order] by (simp add: billing_ok_def)
  then show ?thesis by (rule order_okI [OF assms(2) order_ops_frame(1) [OF order(1)]])
next
  case (checkout no cid url r)
  have "orders_ok db'" using assms(2) checkout_orders_ok [OF _ checkout] by (simp add: billing_ok_def)
  then show ?thesis by (rule order_okI [OF assms(2) order_ops_frame(2) [OF checkout]])
next
  case (complete zone clock no ext paidAt r)
  show ?thesis
    using assms(2) complete_books [OF _ complete] complete_subscriptions [OF _ complete] complete_orders_ok [OF _ complete]
      complete_frame [OF complete] codes_ok_cong [of db db'] same_tables_ok [of db' db] by (simp add: billing_ok_def)
next
  case (set_balance u balance no r)
  show ?thesis
    using assms(2) set_balance_spec [OF set_balance(1) _ set_balance(2)] same_tables_ok [of db' db]
    by (intro billing_okI [OF assms(2)]) (simp_all add: billing_ok_def)
next
  case (open_account u r)
  show ?thesis
    using assms(2) fetch_account_spec [OF open_account] same_tables_ok [of db' db]
    by (intro billing_okI [OF assms(2)]) (simp_all add: billing_ok_def)
next
  case (invite u reward kind rid no x)
  show ?thesis
    using assms(2) invitation_reward_spec [OF invite] same_tables_ok [of db' db]
    by (intro billing_okI [OF assms(2)]) (simp_all add: billing_ok_def)
next
  case (create_code ci r)
  have "codes_ok db'" using assms(2) create_code_ok [OF _ create_code] by (simp add: billing_ok_def)
  then show ?thesis by (rule code_okI [OF assms(2) code_ops_frame [OF disjI1, OF create_code]])
next
  case (patch_code cid p r)
  have "codes_ok db'" using assms(2) patch_code_ok [OF _ patch_code] by (simp add: billing_ok_def)
  then show ?thesis by (rule code_okI [OF assms(2) code_ops_frame [OF disjI2 [OF disjI1], OF patch_code]])
next
  case (delete_code cid r)
  have "codes_ok db'" using assms(2) delete_code_ok [OF _ delete_code] by (simp add: billing_ok_def)
  then show ?thesis by (rule code_okI [OF assms(2) code_ops_frame [OF disjI2 [OF disjI2], OF delete_code]])
next
  case (redeem clock h u mode no at0 r)
  show ?thesis
    using assms(2) redeem_books [OF redeem] redeem_ok [OF _ redeem] same_tables_ok [of db' db] by (simp add: billing_ok_def)
next
  case (replace item clock)
  note f = replace_frame [where db = db and clock = clock and item = item]
  have "subscriptions_ok db'" using assms(2) replace_ok [OF _ replace(2,3)] by (simp add: replace(1) billing_ok_def)
  then show ?thesis
    using assms(2) f orders_ok_cong [of db db'] codes_ok_cong [of db db']
    by (intro money_okI [OF assms(2)]) (simp_all add: replace(1) billing_ok_def same_money_def)
next
  case (plan plan price r)
  note f = plan_ops_frame [OF plan]
  then have "orders_ok db'" using assms(2) orders_ok_cong [of db db'] by (simp add: billing_ok_def same_money_def)
  with f show ?thesis by (intro order_okI [OF assms(2)]) simp_all
next
  case (setting settings)
  have f: "same_money db db'" by (simp add: setting same_money_def)
  then have "orders_ok db'" using assms(2) orders_ok_cong [of db db'] by (simp add: billing_ok_def setting)
  with f show ?thesis by (intro order_okI [OF assms(2)]) (simp_all add: setting)
next
  case (reserve now q r)
  with assms(2) show ?thesis by (blast intro: reserve_keeps)
next
  case (usage now usage res r)
  with assms(2) show ?thesis by (blast intro: usage_ok)
next
  case (period now usage s e credit res r)
  with assms(2) show ?thesis by (blast intro: period_ok)
next
  case (free_usage usage)
  with assms(2) show ?thesis by (simp add: free_usage_ok)
qed

section \<open>Reservations move forward\<close>

text \<open>
  From active a reservation can go anywhere, from reconciliation only to settled; settled and released
  are final. Its owner, reference, period and amounts never change.
\<close>

definition reservation_step :: "usage_reservation \<Rightarrow> usage_reservation \<Rightarrow> bool" where
  "reservation_step r r' \<longleftrightarrow>
     (rv_ID r', rv_UserID r', rv_RefNo r', rv_Mode r', rv_BalanceNanousd r', rv_PeriodCreditNanousd r',
      rv_PeriodLimitNanousd r', rv_PeriodStartAt r', rv_PeriodEndAt r') =
     (rv_ID r, rv_UserID r, rv_RefNo r, rv_Mode r, rv_BalanceNanousd r, rv_PeriodCreditNanousd r,
      rv_PeriodLimitNanousd r, rv_PeriodStartAt r, rv_PeriodEndAt r) \<and>
     (rv_Status r' = rv_Status r \<or> rv_Status r = RsvActive \<or> rv_Status r = RsvReconciliation \<and> rv_Status r' = RsvSettled) \<and>
     (rv_Status r = RsvSettled \<longrightarrow> rv_UsageLedgerID r' = rv_UsageLedgerID r)"

lemma reservation_step_refl [simp]: "reservation_step r r"
  by (simp add: reservation_step_def)

lemma reservation_step_trans: "reservation_step r r' \<Longrightarrow> reservation_step r' r'' \<Longrightarrow> reservation_step r r''"
  by (auto simp: reservation_step_def)

definition reservations_advance :: "billing_db \<Rightarrow> billing_db \<Rightarrow> bool" where
  "reservations_advance db db' \<longleftrightarrow>
     list_all2 reservation_step (db_reservations db) (take (length (db_reservations db)) (db_reservations db'))"

lemma advance_nth:
  assumes "reservations_advance db db'" "i < length (db_reservations db)"
  shows "i < length (db_reservations db')" "reservation_step (db_reservations db ! i) (db_reservations db' ! i)"
  using assms by (auto simp: reservations_advance_def list_all2_conv_all_nth)

lemma advance_trans:
  assumes "reservations_advance db db'" "reservations_advance db' db''"
  shows "reservations_advance db db''"
proof -
  have "length (db_reservations db) \<le> length (db_reservations db')" "length (db_reservations db') \<le> length (db_reservations db'')"
    using assms by (auto simp: reservations_advance_def dest!: list_all2_lengthD)
  then show ?thesis
    using assms unfolding reservations_advance_def list_all2_conv_all_nth by (auto intro: reservation_step_trans)
qed

lemma advance_same: "db_reservations db' = db_reservations db \<Longrightarrow> reservations_advance db db'"
  by (simp add: reservations_advance_def list_all2_refl)

lemma advance_append: "db_reservations db' = db_reservations db @ rs \<Longrightarrow> reservations_advance db db'"
  by (simp add: reservations_advance_def list_all2_refl)

lemma advance_map:
  assumes "db_reservations db' = map f (db_reservations db)" "\<And>r. r \<in> set (db_reservations db) \<Longrightarrow> reservation_step r (f r)"
  shows "reservations_advance db db'"
  using assms by (simp add: reservations_advance_def list_all2_conv_all_nth)

lemma advance_put:
  "(\<And>r. r \<in> set (db_reservations db) \<Longrightarrow> reservation_step r (f r)) \<Longrightarrow>
     reservations_advance db (db\<lparr>db_reservations := map f (db_reservations db)\<rparr>)"
  by (rule advance_map [where f = f]) simp_all

lemma advance_update:
  assumes "reservations_ok db" "x \<in> set (db_reservations db)" "reservation_step x (f x)"
    and "db_reservations db' = map (\<lambda>y. if rv_ID y = rv_ID x then f y else y) (db_reservations db)"
  shows "reservations_advance db db'"
proof (rule advance_map [OF assms(4)])
  fix y assume y: "y \<in> set (db_reservations db)"
  have "rv_ID y = rv_ID x \<Longrightarrow> y = x"
    using distinct_ids [OF assms(1)] y assms(2) by (auto simp: distinct_map dest: inj_onD)
  then show "reservation_step y (if rv_ID y = rv_ID x then f y else y)" using assms(3) by (cases "rv_ID y = rv_ID x") simp_all
qed

lemma reservation_ops_advance:
  "release_usage_balance_reservation now u no db = (db', r) \<Longrightarrow> reservations_ok db \<Longrightarrow> reservations_advance db db'"
  "renew_usage_balance_reservation now u no db = (db', r) \<Longrightarrow> reservations_advance db db'"
  "mark_usage_reservation_reconciliation_required now u no code db = (db', r) \<Longrightarrow> reservations_advance db db'"
proof -
  have same: "reservations_advance db db" by (rule advance_same) simp
  show "reservations_advance db db'" if rel: "release_usage_balance_reservation now u no db = (db', r)" and ok: "reservations_ok db"
  proof (cases "db' = db")
    case False
    then obtain x where x: "find_reservation db u (trim_space no) = Some x" "rv_Status x = RsvActive"
      and db': "db' = update_reservation (rv_ID x) (\<lambda>r. r\<lparr>rv_Status := RsvReleased, rv_ReleasedAt := Some now\<rparr>) db"
      using rel by (auto simp: release_usage_balance_reservation_def Let_def split: if_splits option.splits)
    have "x \<in> set (db_reservations db)" using x(1) by (auto simp: find_reservation_def find_Some_iff)
    then show ?thesis
      by (rule advance_update [OF ok, where f = "\<lambda>r. r\<lparr>rv_Status := RsvReleased, rv_ReleasedAt := Some now\<rparr>"]) (use x(2) in \<open>simp_all add: db' update_reservation_def reservation_step_def\<close>)
  qed (simp add: same)
  show "reservations_advance db db'" if "renew_usage_balance_reservation now u no db = (db', r)"
    using that same unfolding renew_usage_balance_reservation_def Let_def
    by (auto split: if_splits intro!: advance_put simp: reservation_step_def)
  show "reservations_advance db db'" if "mark_usage_reservation_reconciliation_required now u no code db = (db', r)"
    using that same unfolding mark_usage_reservation_reconciliation_required_def Let_def
    by (auto split: if_splits intro!: advance_put simp: reservation_step_def)
qed

lemma reserve_advance:
  assumes "reserve_usage_balance now q db = (db', r)"
  shows "reservations_advance db db'"
proof (cases r)
  case (Inl err)
  then have "db' = db" using assms by (auto simp: reserve_usage_balance_def split: if_splits dest: run_tx_Inl)
  then show ?thesis by (simp add: advance_same)
next
  case (Inr row)
  with assms have "reserve_usage_balance now q db = (db', Inr row)" by simp
  then show ?thesis by (cases rule: reserve_cases) (simp add: advance_append)
qed

lemma settlement_advance:
  assumes "reservations_ok db"
    and "db' = db \<or> settlement_retry u res db db' row \<or> settlement_first now u amount res db db' row"
  shows "reservations_advance db db'"
  using assms(2)
proof (elim disjE)
  assume "settlement_retry u res db db' row"
  then show ?thesis by (rule settlement_retryE) (auto intro: advance_same dest: get_or_create_other)
next
  assume "settlement_first now u amount res db db' row"
  then obtain own where own: "case own of None \<Rightarrow> reservation_for_settlement db u res = Inr None
             | Some r \<Rightarrow> reservation_for_settlement db u res = Inr (Some (r, False))"
    and rows: "db_reservations db' = settled_rows now own (Suc (length (db_ledger db))) (db_reservations db)"
    by (auto simp: settlement_first_def)
  show ?thesis
  proof (cases own)
    case None
    then show ?thesis using rows by (simp add: settled_rows_def advance_same)
  next
    case (Some r)
    with own have "r \<in> set (db_reservations db)" "rv_Status r \<in> {RsvActive, RsvReconciliation}"
      by (auto simp: reservation_for_settlement_def find_Some_iff split: option.splits if_splits reservation_status.splits)
    then show ?thesis
      by (elim advance_update [OF assms(1), where f = "\<lambda>x. x\<lparr>rv_Status := RsvSettled,
          rv_UsageLedgerID := Suc (length (db_ledger db)), rv_SettledAt := Some now\<rparr>"]) (use rows Some in \<open>auto simp: settled_rows_def reservation_step_def\<close>)
  qed
qed (simp add: advance_same)

lemma billing_step_advance:
  assumes "billing_step db db'" "billing_ok db"
  shows "reservations_advance db db'"
proof -
  have ok: "reservations_ok db" "books_balance db" using assms(2) by (simp_all add: billing_ok_def)
  from assms(1) show ?thesis
  proof (cases rule: billing_step.cases)
    case (usage now usage res r)
    from usage ok(2) show ?thesis by (cases rule: add_usage_cases) (use settlement_advance [OF ok(1)] in blast)+
  next
    case (period now usage s e credit res r)
    from period ok(2) show ?thesis by (cases rule: add_period_cases) (use settlement_advance [OF ok(1)] in blast)+
  next
    case (reserve now q r)
    then show ?thesis by (rule reserve_advance)
  next
    case (release now u no r)
    then show ?thesis using ok(1) by (rule reservation_ops_advance)
  next
    case (renew now u no r)
    then show ?thesis by (rule reservation_ops_advance)
  next
    case (reconcile now u no code r)
    then show ?thesis by (rule reservation_ops_advance)
  next
    case (free_usage usage)
    then show ?thesis by (intro advance_same) (simp add: add_usage_def)
  next
    case (order i r)
    from order_ops_frame(1) [OF order(1)] show ?thesis by (intro advance_same) (simp add: same_money_def)
  next
    case (checkout no cid url r)
    from order_ops_frame(2) [OF checkout] show ?thesis by (intro advance_same) (simp add: same_money_def)
  next
    case (complete zone clock no ext paidAt r)
    then show ?thesis by (intro advance_same complete_frame(3))
  next
    case (set_balance u balance no r)
    from set_balance_spec [OF set_balance(1) ok(2) set_balance(2)] show ?thesis by (intro advance_same) simp
  next
    case (open_account u r)
    from fetch_account_spec [OF open_account ok(2)] show ?thesis by (intro advance_same) simp
  next
    case (invite u reward kind rid no x)
    then show ?thesis by (intro advance_same invitation_reward_spec(2))
  next
    case (create_code ci r)
    from code_ops_frame [OF disjI1, OF create_code] show ?thesis by (intro advance_same) (simp add: same_money_def)
  next
    case (patch_code cid p r)
    from code_ops_frame [OF disjI2 [OF disjI1], OF patch_code] show ?thesis by (intro advance_same) (simp add: same_money_def)
  next
    case (delete_code cid r)
    from code_ops_frame [OF disjI2 [OF disjI2], OF delete_code] show ?thesis by (intro advance_same) (simp add: same_money_def)
  next
    case (redeem clock h u mode no at0 r)
    then show ?thesis by (intro advance_same redeem_books(4))
  next
    case (replace item clock)
    then show ?thesis by (intro advance_same) (simp add: replace_subscription_def Let_def)
  next
    case (plan plan price r)
    from plan_ops_frame [OF plan] show ?thesis by (intro advance_same) (simp add: same_money_def)
  next
    case (setting settings)
    then show ?thesis by (intro advance_same) simp
  qed
qed


section \<open>Runs\<close>

definition fresh_db :: "billing_plan list \<Rightarrow> billing_price list \<Rightarrow> (string \<Rightarrow> string option) \<Rightarrow> billing_db" where
  "fresh_db plans prices settings = empty_db\<lparr>db_plans := plans, db_prices := prices, db_settings := settings\<rparr>"

lemma fresh_ok: "billing_ok (fresh_db plans prices settings)"
  by (simp add: billing_ok_def fresh_db_def books_balance_def reservations_ok_def subscriptions_ok_def ids_ok_def
      orders_ok_def codes_ok_def empty_db_def balance_of_def transactions_of_def)

lemma billing_run_ok: "rtranclp billing_step db db' \<Longrightarrow> billing_ok db \<Longrightarrow> billing_ok db'"
  by (induction rule: rtranclp_induct) (auto intro: billing_step_ok)

lemma billing_run_advance: "rtranclp billing_step db db' \<Longrightarrow> billing_ok db \<Longrightarrow> reservations_advance db db'"
proof (induction rule: rtranclp_induct)
  case (step db1 db2)
  then show ?case using billing_step_advance billing_run_ok by (blast intro: advance_trans)
qed (simp add: advance_same)

text \<open>
  C1: Whatever the repository does, from an empty database on: the books balance; at any time at most one
  dated subscription row of a user is in force and at most one lifetime row (so two rows at once only beside
  a lifetime plan); every top-up is credited once and to its order; every code was redeemed as often as it
  says and never beyond its limit; and every settled reservation has its ledger entry.
\<close>

theorem billing_invariant:
  assumes "rtranclp billing_step (fresh_db plans prices settings) db"
  shows "books_balance db \<and> reservations_ok db \<and> subscriptions_ok db \<and> in_force_bounded db \<and> orders_ok db \<and> codes_ok db"
  using billing_run_ok [OF assms fresh_ok] subscriptions_bounded by (simp add: billing_ok_def)

text \<open>
  C18: Reservations only move forward. In every run a reservation keeps its owner, its reference, its period
  and its amounts; from active it can go anywhere, from reconciliation only to settled, and settled and
  released are final.
\<close>

theorem reservation_moves_forward:
  assumes "rtranclp billing_step (fresh_db plans prices settings) db" "rtranclp billing_step db db'"
    and "i < length (db_reservations db)"
  shows "i < length (db_reservations db') \<and> reservation_step (db_reservations db ! i) (db_reservations db' ! i)"
  using advance_nth [OF billing_run_advance [OF assms(2) billing_run_ok [OF assms(1) fresh_ok]] assms(3)] by simp

section \<open>The steps of the service\<close>

text \<open>Keys are never zero: they are drawn from sequences that start at one.\<close>

definition plans_keyed :: "billing_db \<Rightarrow> bool" where
  "plans_keyed db \<longleftrightarrow> (\<forall>p \<in> set (db_plans db). bp_ID p \<noteq> 0) \<and> (\<forall>p \<in> set (db_prices db). pr_ID p \<noteq> 0)"

inductive service_step :: "billing_db \<Rightarrow> billing_db \<Rightarrow> bool" where
  authorize: "authorize_usage zone e prepaid video clock1 clock2 u model no db = (db', r1) \<Longrightarrow> service_step db db'"
| release_authorization: "release_usage_authorization clock a db = (db', r2) \<Longrightarrow> service_step db db'"
| renew_authorization: "renew_usage_authorization clock a db = (db', r2) \<Longrightarrow> service_step db db'"
| mark_authorization: "mark_usage_authorization_for_reconciliation clock a code db = (db', r2) \<Longrightarrow> service_step db db'"
| record_usage: "record_usage_with_authorization zone clock usage a db = (db', r3) \<Longrightarrow> service_step db db'"
| subscribe: "subscribe zone now clock u priceID cycles db = (db', r4) \<Longrightarrow> plans_keyed db \<Longrightarrow> service_step db db'"
| set_subscription: "set_user_subscription_by_plan_code now clock u planCode expiresAt db = (db', r5) \<Longrightarrow> plans_keyed db \<Longrightarrow>
    service_step db db'"
| order_subscription: "create_subscription_order e format snapshot clock orderNo so db = (db', r6) \<Longrightarrow> service_step db db'"
| order_topup: "create_top_up_payment_order e fdiv format snapshot clock orderNo ti db = (db', r7) \<Longrightarrow> service_step db db'"
| attach_checkout: "update_payment_order_checkout no cid url db = (db', r8) \<Longrightarrow> service_step db db'"
| complete_order: "complete_payment_order zone clock no ext paidAt db = (db', r9) \<Longrightarrow> service_step db db'"
| account_balance: "set_account_balance e u usd no db = (db', r10) \<Longrightarrow> in_int64 (usd_to_nanousd e (the usd)) \<Longrightarrow> service_step db db'"
| get_account: "fetch_billing_account u db = (db', r11) \<Longrightarrow> service_step db db'"
| edit_plan: "update_plan lookup planID pin db = (db', r12) \<Longrightarrow> service_step db db'"
| create_codes: "create_redemption_codes e cr secret clock draws actor form db = (db', r13) \<Longrightarrow> service_step db db'"
| update_code: "update_redemption_code clock cid cu db = (db', r14) \<Longrightarrow> service_step db db'"
| delete_codes: "batch_delete_redemption_codes ids db = (db', r15) \<Longrightarrow> service_step db db'"
| redeem_one: "redeem_for_user cr secret now clock no u code db = (db', r16) \<Longrightarrow> service_step db db'"


abbreviation billing_run :: "billing_db \<Rightarrow> billing_db \<Rightarrow> bool" where
  "billing_run \<equiv> rtranclp billing_step"

lemma map_error_eq: "map_error f x = (db', r) \<Longrightarrow> \<exists>r0. x = (db', r0)"
  by (cases x) (simp add: map_error_def)

lemma pair_map_eq: "(case x of (db', r) \<Rightarrow> (db', g r)) = (db1, r1) \<Longrightarrow> \<exists>r0. x = (db1, r0)"
  by (cases x) simp

lemma one_step: "billing_step db db' \<Longrightarrow> billing_run db db'"
  by (rule r_into_rtranclp)

lemma authorize_run:
  assumes "authorize_usage zone e prepaid video clock1 clock2 u model no db = (db', r)"
  shows "billing_run db db'"
proof -
  have "db' = db \<or> (\<exists>q r. reserve_usage_balance clock2 q db = (db', r))"
    using assms unfolding authorize_usage_def Let_def
    by (auto split: if_splits sum.splits option.splits dest!: map_error_eq pair_map_eq)
  then show ?thesis by (auto intro: one_step billing_step.reserve)
qed

lemma authorization_runs:
  "release_usage_authorization clock a db = (db', r) \<Longrightarrow> billing_run db db'"
  "renew_usage_authorization clock a db = (db', r) \<Longrightarrow> billing_run db db'"
  "mark_usage_authorization_for_reconciliation clock a code db = (db', r) \<Longrightarrow> billing_run db db'"
  by (auto simp: release_usage_authorization_def renew_usage_authorization_def mark_usage_authorization_for_reconciliation_def
      on_reservation_def split: option.splits
      intro: one_step billing_step.release billing_step.renew billing_step.reconcile)

lemma record_run:
  assumes "record_usage_with_authorization zone clock usage a db = (db', r)"
  shows "billing_run db db'"
proof -
  have "db' = db \<or> db' = add_usage usage db \<or> (\<exists>res r. add_usage_and_settle_balance clock usage res db = (db', r)) \<or>
    (\<exists>s e credit res r. add_period_usage_and_settle_overage clock usage s e credit res db = (db', r))"
    using assms unfolding record_usage_with_authorization_def Let_def
    by (auto split: if_splits sum.splits prod.splits dest!: map_error_eq pair_map_eq)
  then show ?thesis by (auto intro: one_step billing_step.usage billing_step.period billing_step.free_usage)
qed


lemma found_plan: "get_plan_by_id db k = Inr p \<Longrightarrow> p \<in> set (db_plans db)"
  by (auto simp: get_plan_by_id_def find_plan_def or_not_found_def find_Some_iff split: option.splits if_splits)

lemma found_price: "get_price_by_id db k = Inr p \<Longrightarrow> p \<in> set (db_prices db)"
  by (auto simp: get_price_by_id_def find_price_def or_not_found_def find_Some_iff split: option.splits if_splits)

lemma found_active_plan: "get_active_plan_by_code db c = Inr p \<Longrightarrow> p \<in> set (db_plans db)"
  by (auto simp: get_active_plan_by_code_def or_not_found_def find_Some_iff split: option.splits if_splits)

lemma listed_price: "p \<in> set (list_active_prices_by_plan_ids db ids) \<Longrightarrow> p \<in> set (db_prices db)"
  by (auto simp: list_active_prices_by_plan_ids_def)

lemma replace_run:
  assumes "plans_keyed db" "plan \<in> set (db_plans db)" "price \<in> set (db_prices db)"
  shows "billing_run db (replace_subscription clock (period_subscription u plan price now endAt autoRenew) db)"
  using assms by (intro one_step billing_step.replace) (simp_all add: plans_keyed_def period_subscription_def)

lemma subscribe_run:
  assumes "subscribe zone now clock u priceID cycles db = (db', r)" "plans_keyed db"
  shows "billing_run db db'"
proof -
  have "db' = db \<or> (\<exists>plan price endAt autoRenew. plan \<in> set (db_plans db) \<and> price \<in> set (db_prices db) \<and>
    db' = replace_subscription clock (period_subscription u plan price now endAt autoRenew) db)"
    using assms(1) found_plan found_price unfolding subscribe_def Let_def
    by (auto split: if_splits sum.splits) blast+
  then show ?thesis using replace_run [OF assms(2)] by auto
qed

lemma set_subscription_run:
  assumes "set_user_subscription_by_plan_code now clock u planCode expiresAt db = (db', r)" "plans_keyed db"
  shows "billing_run db db'"
proof -
  have "db' = db \<or> (\<exists>plan price endAt autoRenew. plan \<in> set (db_plans db) \<and> price \<in> set (db_prices db) \<and>
    db' = replace_subscription clock (period_subscription u plan price now endAt autoRenew) db)"
    using assms(1) unfolding set_user_subscription_by_plan_code_def Let_def
    by (auto split: if_splits sum.splits option.splits simp: find_Some_iff dest!: found_active_plan)
      (metis listed_price nth_mem)+
  then show ?thesis using replace_run [OF assms(2)] by auto
qed

lemma pending_order_run:
  "create_payment_order i db = (db', r) \<Longrightarrow> oi_Status i = ''pending'' \<Longrightarrow> billing_run db db'"
proof -
  have "trim_space ''pending'' \<noteq> ''paid''" by code_simp
  then show "create_payment_order i db = (db', r) \<Longrightarrow> oi_Status i = ''pending'' \<Longrightarrow> billing_run db db'"
    by (auto intro!: one_step billing_step.order)
qed

lemma order_runs:
  "create_subscription_order e format snapshot clock orderNo so db = (db', r) \<Longrightarrow> billing_run db db'"
  "create_top_up_payment_order e fdiv format snapshot clock orderNo ti db = (db', r') \<Longrightarrow> billing_run db db'"
proof -
  assume a: "create_subscription_order e format snapshot clock orderNo so db = (db', r)"
  have "db' = db \<or> (\<exists>i r. create_payment_order i db = (db', r) \<and> oi_Status i = ''pending'')"
    using a unfolding create_subscription_order_def Let_def
    by (auto split: if_splits sum.splits dest!: map_error_eq pair_map_eq intro!: exI)
  then show "billing_run db db'" using pending_order_run by blast
next
  assume a: "create_top_up_payment_order e fdiv format snapshot clock orderNo ti db = (db', r')"
  have "db' = db \<or> (\<exists>i r. create_payment_order i db = (db', r) \<and> oi_Status i = ''pending'')"
    using a unfolding create_top_up_payment_order_def Let_def
    by (auto split: if_splits sum.splits dest!: map_error_eq intro!: exI)
  then show "billing_run db db'" using pending_order_run by blast
qed


lemma balance_run:
  assumes "set_account_balance e u usd no db = (db', r)" "in_int64 (usd_to_nanousd e (the usd))"
  shows "billing_run db db'"
proof -
  have "db' = db \<or> (\<exists>v r. usd = Some v \<and> set_billing_account_balance u (usd_to_nanousd e v) no db = (db', r))"
    using assms(1) unfolding set_account_balance_def by (auto split: if_splits option.splits dest!: map_error_eq)
  then show ?thesis
    using assms(2) by (elim disjE exE conjE) (simp, rule one_step, rule billing_step.set_balance, assumption, simp)
qed

lemma plan_run:
  assumes "update_plan lookup planID pin db = (db', r)"
  shows "billing_run db db'"
proof -
  have "db' = db \<or> (\<exists>plan price r. update_plan_with_default_price plan price db = (db', r))"
    using assms unfolding update_plan_def Let_def
    by (auto split: if_splits sum.splits option.splits dest!: map_error_eq pair_map_eq)
  then show ?thesis by (auto intro: one_step billing_step.plan)
qed

lemma create_one_run: "create_one_code cr secret actor n raw nonce db = (db', r) \<Longrightarrow> billing_run db db'"
  by (erule create_one_cases) (auto intro: one_step billing_step.create_code)

lemma create_loop_run: "create_codes_loop cr secret actor n ds results db = (db', r) \<Longrightarrow> billing_run db db'"
proof (induction ds arbitrary: results db)
  case (Cons d ds)
  obtain raw nonce where d: "d = (raw, nonce)" by (cases d)
  obtain db1 r1 where one: "create_one_code cr secret actor n raw nonce db = (db1, r1)" by fastforce
  show ?case
  proof (cases r1)
    case (Inl err)
    with Cons.prems one have "db' = db1" by (simp add: d)
    with create_one_run [OF one] show ?thesis by simp
  next
    case (Inr v)
    with Cons.prems one have "create_codes_loop cr secret actor n ds (results @ [v]) db1 = (db', r)" by (simp add: d)
    from create_one_run [OF one] Cons.IH [OF this] show ?thesis by (rule rtranclp_trans)
  qed
qed simp

lemma create_codes_run:
  assumes "create_redemption_codes e cr secret clock draws actor form db = (db', r)"
  shows "billing_run db db'"
  using assms create_loop_run unfolding create_redemption_codes_def by (auto split: if_splits sum.splits)

lemma update_code_run:
  assumes "update_redemption_code clock cid cu db = (db', r)"
  shows "billing_run db db'"
proof -
  have "db' = db \<or> (\<exists>p r. patch_redemption_code cid p db = (db', r))"
    using assms unfolding update_redemption_code_def by (simp split: if_split_asm) (blast dest: map_error_eq)+
  then show ?thesis by (auto intro: one_step billing_step.patch_code)
qed

lemma delete_step_run: "billing_run (fst x) (fst (batch_delete_step cid x))"
proof -
  obtain db1 r where del: "delete_code cid (fst x) = (db1, r)" by fastforce
  then have "db1 = fst x \<or> (\<exists>r. delete_redemption_code cid (fst x) = (db1, r))"
    by (auto simp: delete_code_def split: if_splits dest!: map_error_eq)
  then have "billing_run (fst x) db1" by (auto intro: one_step billing_step.delete_code)
  moreover have "fst (batch_delete_step cid x) = db1" using del by (simp add: batch_delete_step_def split: sum.split)
  ultimately show ?thesis by simp
qed

lemma delete_codes_run: "billing_run (fst x) (fst (fold batch_delete_step ids x))"
proof (induction ids arbitrary: x)
  case (Cons k ids)
  from delete_step_run [of x k] Cons [of "batch_delete_step k x"] show ?case by simp
qed simp

lemma redeem_run:
  assumes "redeem_for_user cr secret now clock no u code db = (db', r)"
  shows "billing_run db db'"
proof -
  have "db' = db \<or> (\<exists>h m r. redeem_code clock h u m no now db = (db', r))"
    using assms unfolding redeem_for_user_def Let_def by (auto split: if_splits sum.splits dest!: map_error_eq)
  then show ?thesis by (auto intro: one_step billing_step.redeem)
qed

lemma service_step_run:
  assumes "service_step db db'"
  shows "billing_run db db'"
  using assms
proof cases
  case (attach_checkout no cid url r)
  then show ?thesis by (auto intro: one_step billing_step.checkout)
next
  case (complete_order zone clock no ext paidAt r)
  then show ?thesis by (auto intro: one_step billing_step.complete)
next
  case (get_account u r)
  then show ?thesis by (auto intro: one_step billing_step.open_account)
next
  case (delete_codes ids r)
  then show ?thesis
    using delete_codes_run [of "(db, _)" ids] unfolding batch_delete_redemption_codes_def by (metis fst_conv)
qed (auto dest: authorize_run authorization_runs record_run subscribe_run set_subscription_run order_runs balance_run
  plan_run create_codes_run update_code_run redeem_run)

lemma service_run: "rtranclp service_step db db' \<Longrightarrow> billing_run db db'"
  by (induction rule: rtranclp_induct) (auto intro: rtranclp_trans service_step_run)

text \<open>
  C17: The service refines the repository's contract. Whatever sequence of service operations runs on a
  fresh database, in whatever order and with whatever arguments, is a run of repository steps: the books
  balance, at any time at most one dated row and at most one lifetime row of a user's subscriptions is in
  force, every paid top-up is credited once, codes stay within their limits, and reservations have moved
  forward only.
\<close>

theorem service_keeps_invariants:
  assumes "rtranclp service_step (fresh_db plans prices settings) db" "rtranclp service_step db db'"
  shows "billing_run (fresh_db plans prices settings) db' \<and> billing_ok db' \<and> reservations_advance db db'"
  using service_run [OF assms(1)] service_run [OF assms(2)]
  by (auto intro: rtranclp_trans billing_run_ok fresh_ok billing_run_advance)

section \<open>A sample run\<close>

definition sample_fresh :: billing_db where
  "sample_fresh = fresh_db [sample_plan 1, sample_plan 2] [sample_plan_price 1, sample_plan_price 2] Map.empty"

definition run_db1 :: billing_db where "run_db1 = fst (set_billing_account_balance 1 50 [] sample_fresh)"
definition run_db2 :: billing_db where "run_db2 = fst (reserve_usage_balance 150 sample_request run_db1)"
definition run_db3 :: billing_db where
  "run_db3 = fst (add_period_usage_and_settle_overage 160 (sample_usage 1 35) 100 200 30
     (Some (hd (db_reservations run_db2))) run_db2)"

lemma flow_run: "billing_run sample_fresh run_db2" "billing_run run_db2 run_db3"
proof -
  have "billing_step sample_fresh run_db1"
    unfolding run_db1_def by (rule billing_step.set_balance [OF prod.collapse [symmetric]]) (simp add: in_int64_def)
  moreover have "billing_step run_db1 run_db2"
    unfolding run_db2_def by (rule billing_step.reserve [OF prod.collapse [symmetric]])
  ultimately show "billing_run sample_fresh run_db2" by (meson one_step rtranclp_trans)
  show "billing_run run_db2 run_db3"
    unfolding run_db3_def by (rule one_step [OF billing_step.period [OF prod.collapse [symmetric]]])
qed

lemma flow_run_rows: "map rv_Status (db_reservations run_db2) = [RsvActive]" "map rv_Status (db_reservations run_db3) = [RsvSettled]"
  "balance_of 1 run_db3 = 45"
  by code_simp+

theorem billing_invariant_witness:
  "balance_of 1 run_db3 = 45 \<and> books_balance run_db3 \<and> reservations_ok run_db3 \<and> subscriptions_ok run_db3 \<and>
     in_force_bounded run_db3 \<and> orders_ok run_db3 \<and> codes_ok run_db3"
  using billing_invariant [OF rtranclp_trans [OF flow_run, unfolded sample_fresh_def]] flow_run_rows(3) by simp

theorem reservation_moves_forward_witness:
  "reservation_step (db_reservations run_db2 ! 0) (db_reservations run_db3 ! 0) \<and>
     map rv_Status (db_reservations run_db3) = [RsvSettled]"
proof -
  have "0 < length (db_reservations run_db2)" using arg_cong [OF flow_run_rows(1), of length] by simp
  from reservation_moves_forward [OF flow_run(1) [unfolded sample_fresh_def] flow_run(2) this] flow_run_rows(2)
  show ?thesis by simp
qed

definition served_db1 :: billing_db where "served_db1 = fst (fetch_billing_account 5 sample_fresh)"
definition served_db2 :: billing_db where
  "served_db2 = fst (create_redemption_codes (sample_pricing_env ''usage'' (sample_price False ''token'')) sample_crypto ''key''
     10 sample_draws 1 sample_form served_db1)"

theorem service_keeps_invariants_witness:
  "billing_ok served_db2 \<and> reservations_advance served_db1 served_db2 \<and> length (db_codes served_db2) = 1"
proof -
  have "service_step sample_fresh served_db1"
    unfolding served_db1_def by (rule service_step.get_account [OF prod.collapse [symmetric]])
  then have a: "rtranclp service_step (fresh_db [sample_plan 1, sample_plan 2] [sample_plan_price 1, sample_plan_price 2] Map.empty) served_db1"
    unfolding sample_fresh_def by (rule r_into_rtranclp)
  have "service_step served_db1 served_db2"
    unfolding served_db2_def by (rule service_step.create_codes [OF prod.collapse [symmetric]])
  then have b: "rtranclp service_step served_db1 served_db2" by (rule r_into_rtranclp)
  have "length (db_codes served_db2) = 1" by code_simp
  with service_keeps_invariants [OF a b] show ?thesis by blast
qed

end
