(* ===== verification/Billing_Flow.thy ===== *)
theory Billing_Flow
  imports Billing_Runs
begin

text \<open>
  What a client of the billing service sees across several operations: a call that was authorised is
  charged however the database changed in between, a subscription that was sold is granted, and the plan
  an administrator edits is sold at its new price.
\<close>

lemma map_sum_eq:
  "map_sum f g x = Inr y \<longleftrightarrow> (\<exists>z. x = Inr z \<and> y = g z)" "map_sum f g x = Inl y' \<longleftrightarrow> (\<exists>z. x = Inl z \<and> y' = f z)"
  by (cases x; auto)+

section \<open>From authorisation to settlement\<close>

lemma reserve_mode:
  assumes "reserve_usage_balance now q db = (db', Inr r)"
  shows "rv_Mode r = trim_space (rq_Mode q)"
  using assms
  by (auto simp: reserve_usage_balance_def run_tx_Inr reserve_body_def Let_def split: if_splits sum.splits)

lemma authorize_cases:
  assumes "authorize_usage zone e prepaid video c1 c2 u model no db = (db1, Inr a)" "ua_Reservation a = Some r"
  obtains mode amount q where "mode = ua_Mode a" "mode = ''usage'' \<or> mode = ''period''"
    "reservation_request_for zone c1 u no mode amount db = Inr q" "reserve_usage_balance c2 q db = (db1, Inr r)"
proof -
  have "\<exists>amount q. (ua_Mode a = ''usage'' \<or> ua_Mode a = ''period'') \<and>
    reservation_request_for zone c1 u no (ua_Mode a) amount db = Inr q \<and> reserve_usage_balance c2 q db = (db1, Inr r)"
    using assms unfolding authorize_usage_def Let_def
    by (auto simp: map_error_def map_sum_eq split: if_splits sum.splits option.splits prod.splits) blast+
  with that show ?thesis by blast
qed

lemma request_fields:
  assumes "reservation_request_for zone c u no mode amount db = Inr q"
  shows "rq_UserID q = u" "rq_Mode q = mode"
    "mode = ''period'' \<Longrightarrow> \<exists>s e. rq_PeriodStartAt q = Some s \<and> rq_PeriodEndAt q = Some e"
  using assms by (auto simp: reservation_request_for_def Let_def split: if_splits sum.splits)

text \<open>A reservation that is still open is found for settlement as it was made.\<close>

lemma open_reservation_found:
  assumes "reservations_ok db" "i < length (db_reservations db)" "reservation_step r (db_reservations db ! i)"
    and "rv_Status (db_reservations db ! i) \<in> {RsvActive, RsvReconciliation}" "rv_UserID r \<noteq> 0" "trim_space (rv_RefNo r) = rv_RefNo r"
    "rv_RefNo r \<noteq> []"
  shows "reservation_for_settlement db (rv_UserID r) (Some r) = Inr (Some (db_reservations db ! i, False))"
proof -
  let ?x = "db_reservations db ! i"
  let ?P = "\<lambda>x. rv_UserID x = rv_UserID r \<and> rv_RefNo x = trim_space (rv_RefNo r) \<and> (rv_ID r > 0 \<longrightarrow> rv_ID x = rv_ID r)"
  have x: "?x \<in> set (db_reservations db)" using assms(2) by simp
  have same: "rv_UserID ?x = rv_UserID r" "rv_RefNo ?x = rv_RefNo r" "rv_ID ?x = rv_ID r"
    using assms(3) by (simp_all add: reservation_step_def)
  have "find ?P (db_reservations db) = Some ?x"
  proof (rule find_unique [OF x])
    show "?P ?x" using same assms(6) by simp
  next
    fix y assume y: "y \<in> set (db_reservations db)" "?P y"
    have "inj_on (\<lambda>r. (rv_UserID r, rv_RefNo r)) (set (db_reservations db))"
      using assms(1) by (simp add: reservations_ok_def distinct_map)
    from inj_onD [OF this _ y(1) x] y(2) same assms(6) show "y = ?x" by simp
  qed
  then show ?thesis
    using assms(4,5,6,7) unfolding reservation_for_settlement_def by (auto split: reservation_status.splits)
qed

lemma debit_entry_error: "debit_entry a amount res row db = Inl err \<Longrightarrow> err = OutOfRange"
  by (auto simp: debit_entry_def Let_def add_balance_def split: if_splits sum.splits)

lemma account_opened:
  assumes "u \<noteq> 0" obtains a db1 where "get_or_create_billing_account u db = Inr (a, db1)"
proof -
  have "\<exists>a db1. get_or_create_billing_account u db = Inr (a, db1)"
    using assms by (cases "db_accounts db u") (auto simp: get_or_create_billing_account_def Let_def)
  with that show thesis by blast
qed

lemma usage_settles:
  assumes "reservation_for_settlement db u res = Inr (Some (r, False))" "rv_Mode r = ''usage''"
    and "ul_UserID usage = u" "u \<noteq> 0" "add_usage_and_settle_balance now usage res db = (db', x)"
  shows "(\<exists>row. x = Inr row) \<or> db' = db \<and> x = Inl OutOfRange"
proof -
  obtain a db1 where acc: "get_or_create_billing_account u db = Inr (a, db1)" by (rule account_opened [OF assms(4)])
  note other = reservation_for_settlement_other [OF get_or_create_other(1) [OF acc]]
  show ?thesis
    using assms(5) unfolding add_usage_and_settle_balance_def
  proof (cases rule: run_tx_cases)
    case (abort err)
    then have "usage_body now usage res db = Inl err" using assms(5)
      by (auto simp: add_usage_and_settle_balance_def run_tx_def split: sum.splits)
    then have "err = OutOfRange"
      using acc assms(1,2,3) by (simp add: usage_body_def other map_sum_eq debit_entry_error)
    with abort show ?thesis by simp
  qed simp
qed

lemma period_settlement_error: "period_settlement_of now db usage s e credit own = Inl err \<Longrightarrow> err = OutOfRange"
  by (auto simp: period_settlement_of_def Let_def scan64_def split: if_splits)

lemma period_settles:
  assumes "reservation_for_settlement db u res = Inr (Some (r, False))" "matches_period_reservation r s e credit"
    and "ul_UserID usage = u" "u \<noteq> 0" "\<not> is_zero s" "s < e" "0 \<le> credit"
    and "add_period_usage_and_settle_overage now usage s e credit res db = (db', x)"
  shows "(\<exists>row. x = Inr row) \<or> db' = db \<and> x = Inl OutOfRange"
proof -
  obtain a db1 where acc: "get_or_create_billing_account u db = Inr (a, db1)" by (rule account_opened [OF assms(4)])
  note other = reservation_for_settlement_other [OF get_or_create_other(1) [OF acc]]
  have tx: "run_tx (period_body now usage s e credit res) db = (db', x)"
    using assms(3-8) by (simp add: add_period_usage_and_settle_overage_def)
  then show ?thesis
  proof (cases rule: run_tx_cases)
    case (abort err)
    with tx have "period_body now usage s e credit res db = Inl err" by (auto simp: run_tx_def split: sum.splits)
    then have "err = OutOfRange"
      using acc assms(1,2,3)
      by (auto simp: period_body_def other map_sum_eq debit_entry_error period_settlement_error split: sum.splits)
    with abort show ?thesis by simp
  qed simp
qed

text \<open>What a settlement of an open reservation does to the balance and to the reservation.\<close>

lemma settled_row:
  assumes "reservations_ok db" "i < length (db_reservations db)" "settlement_first now u amount res db db' row"
    and "reservation_for_settlement db u res = Inr (Some (db_reservations db ! i, False))"
  shows "rv_Status (db_reservations db' ! i) = RsvSettled" "balance_of u db' = balance_of u db - amount"
  using assms(3)
proof (rule settlement_firstE)
  fix own assume own: "case own of None \<Rightarrow> reservation_for_settlement db u res = Inr None
             | Some r \<Rightarrow> reservation_for_settlement db u res = Inr (Some (r, False))"
    and rows: "db_reservations db' = settled_rows now own (Suc (length (db_ledger db))) (db_reservations db)"
  have "own = Some (db_reservations db ! i)" using own assms(4) by (cases own) auto
  then show "rv_Status (db_reservations db' ! i) = RsvSettled" using rows assms(2) by (simp add: settled_rows_def)
qed (use assms(3) in \<open>auto elim: settlement_firstE\<close>)

lemma authorised_reservation:
  assumes "authorize_usage zone e prepaid video c1 c2 u model no db = (db1, Inr a)" "ua_Reservation a = Some r"
    and "billing_ok db" "billing_run db1 db2"
    and "rv_Status (db_reservations db2 ! (rv_ID r - 1)) \<in> {RsvActive, RsvReconciliation}"
  defines "i \<equiv> rv_ID r - 1"
  shows "billing_ok db2" "i < length (db_reservations db2)" "u \<noteq> 0" "rv_Mode r = ua_Mode a"
    "ua_Mode a = ''usage'' \<or> ua_Mode a = ''period''" "reservation_step r (db_reservations db2 ! i)"
    "reservation_for_settlement db2 u (Some r) = Inr (Some (db_reservations db2 ! i, False))"
    "ua_Mode a = ''period'' \<Longrightarrow> \<exists>s t. rv_PeriodStartAt r = Some s \<and> rv_PeriodEndAt r = Some t \<and> s < t \<and> 0 \<le> rv_PeriodLimitNanousd r"
proof -
  obtain amount q where mode: "ua_Mode a = ''usage'' \<or> ua_Mode a = ''period''"
    and q: "reservation_request_for zone c1 u no (ua_Mode a) amount db = Inr q"
    and res: "reserve_usage_balance c2 q db = (db1, Inr r)"
    using authorize_cases [OF assms(1,2)] by metis
  have trim: "trim_space (ua_Mode a) = ua_Mode a" using mode by (elim disjE) (simp_all, code_simp+)
  obtain a1 db0 credit where r: "valid_request q" "db1 = db0\<lparr>db_reservations := db_reservations db @ [r]\<rparr>"
    "rv_ID r = Suc (length (db_reservations db))" "rv_UserID r = u" "rv_RefNo r = trim_space (rq_RefNo q)"
    "rv_PeriodStartAt r = rq_PeriodStartAt q" "rv_PeriodEndAt r = rq_PeriodEndAt q"
    "rv_PeriodLimitNanousd r = rq_PeriodCreditNanousd q"
    using res request_fields(1) [OF q] by (rule_tac reserve_cases [OF res]) blast
  show rv_mode: "rv_Mode r = ua_Mode a" using reserve_mode [OF res] request_fields(2) [OF q] trim by simp
  show "ua_Mode a = ''usage'' \<or> ua_Mode a = ''period''" by (rule mode)
  show u: "u \<noteq> 0" using r(1) request_fields(1) [OF q] by (simp add: valid_request_def)
  have ok1: "billing_ok db1" by (rule billing_step_ok [OF billing_step.reserve [OF res] assms(3)])
  show ok2: "billing_ok db2" by (rule billing_run_ok [OF assms(4) ok1])
  have i: "i < length (db_reservations db1)" "db_reservations db1 ! i = r" by (simp_all add: i_def r(2,3))
  note adv = advance_nth [OF billing_run_advance [OF assms(4) ok1] i(1), unfolded i(2)]
  show "i < length (db_reservations db2)" "reservation_step r (db_reservations db2 ! i)" by (rule adv)+
  have "rv_RefNo r \<noteq> []" using r(1,5) by (simp add: valid_request_def)
  then show "reservation_for_settlement db2 u (Some r) = Inr (Some (db_reservations db2 ! i, False))"
    using open_reservation_found [OF _ adv] ok2 assms(5) u r(4,5) by (simp add: billing_ok_def i_def)
  show "\<exists>s t. rv_PeriodStartAt r = Some s \<and> rv_PeriodEndAt r = Some t \<and> s < t \<and> 0 \<le> rv_PeriodLimitNanousd r"
    if "ua_Mode a = ''period''"
    using that request_fields(2,3) [OF q] r(1,6,7,8) trim by (auto simp: valid_request_def)
qed

lemma record_reserved:
  assumes "ua_Reservation a = Some r" "rv_Mode r = ua_Mode a"
  shows "ua_Mode a = ''usage'' \<Longrightarrow> record_usage_with_authorization zone now usage (Some a) db =
      map_error settle_error (case add_usage_and_settle_balance now usage (Some r) db of (db', x) \<Rightarrow> (db', map_sum id (\<lambda>_. ()) x))"
    and "ua_Mode a = ''period'' \<Longrightarrow> rv_PeriodStartAt r = Some s \<Longrightarrow> rv_PeriodEndAt r = Some t \<Longrightarrow> s < t \<Longrightarrow>
      0 \<le> rv_PeriodLimitNanousd r \<Longrightarrow> \<not> is_zero (ul_BillingAt usage) \<Longrightarrow> \<not> is_zero (ul_UsageDate usage) \<Longrightarrow>
      record_usage_with_authorization zone now usage (Some a) db =
      map_error settle_error (case add_period_usage_and_settle_overage now usage s t (rv_PeriodLimitNanousd r) (Some r) db of
        (db', x) \<Rightarrow> (db', map_sum id (\<lambda>_. ()) x))"
proof -
  have trim: "trim_space ''usage'' = ''usage''" "trim_space ''period'' = ''period''" by code_simp+
  show "ua_Mode a = ''usage'' \<Longrightarrow> record_usage_with_authorization zone now usage (Some a) db =
      map_error settle_error (case add_usage_and_settle_balance now usage (Some r) db of (db', x) \<Rightarrow> (db', map_sum id (\<lambda>_. ()) x))"
    using assms trim by (simp add: record_usage_with_authorization_def)
  show "ua_Mode a = ''period'' \<Longrightarrow> rv_PeriodStartAt r = Some s \<Longrightarrow> rv_PeriodEndAt r = Some t \<Longrightarrow> s < t \<Longrightarrow>
      0 \<le> rv_PeriodLimitNanousd r \<Longrightarrow> \<not> is_zero (ul_BillingAt usage) \<Longrightarrow> \<not> is_zero (ul_UsageDate usage) \<Longrightarrow>
      record_usage_with_authorization zone now usage (Some a) db =
      map_error settle_error (case add_period_usage_and_settle_overage now usage s t (rv_PeriodLimitNanousd r) (Some r) db of
        (db', x) \<Rightarrow> (db', map_sum id (\<lambda>_. ()) x))"
    using assms trim by (simp add: record_usage_with_authorization_def settlement_period_def)
qed

lemma settled_result:
  assumes "map_error settle_error (case p of (db', x) \<Rightarrow> (db', map_sum id (\<lambda>_. ()) x)) = (db3, x)"
    and "p = (db4, y)" "(\<exists>row. y = Inr row) \<or> db4 = db2 \<and> y = Inl OutOfRange"
  shows "x = Inl (Repo OutOfRange) \<and> db3 = db2 \<or> (\<exists>row. y = Inr row \<and> x = Inr () \<and> db3 = db4)"
  using assms by (auto simp: map_error_def settle_error_def)

text \<open>
  C4: A call that was authorised is never refused at the end. Whatever happened to the database since, the
  billing mode included, recording its usage under the authorisation succeeds as long as its reservation
  is open, unless an amount leaves the range of the column; it charges at most the price of the call,
  exactly that in the usage mode, and settles the reservation.
\<close>

theorem authorised_call_is_charged:
  assumes "authorize_usage zone e prepaid video c1 c2 u model no db = (db1, Inr a)" "ua_Reservation a = Some r"
    and "billing_ok db" "billing_run db1 db2"
    and "rv_Status (db_reservations db2 ! (rv_ID r - 1)) \<in> {RsvActive, RsvReconciliation}"
    and "ul_UserID usage = u" "\<not> is_zero (ul_BillingAt usage)" "\<not> is_zero (ul_UsageDate usage)"
    and "rv_PeriodStartAt r \<noteq> Some zero_time"
    and "record_usage_with_authorization zone now usage (Some a) db2 = (db3, x)"
  shows "x = Inl (Repo OutOfRange) \<and> db3 = db2 \<or>
    x = Inr () \<and> rv_Status (db_reservations db3 ! (rv_ID r - 1)) = RsvSettled \<and>
      balance_of u db2 - charge_of usage \<le> balance_of u db3 \<and> balance_of u db3 \<le> balance_of u db2 \<and>
      (ua_Mode a = ''usage'' \<longrightarrow> balance_of u db3 = balance_of u db2 - charge_of usage)"
proof -
  note auth = authorised_reservation [OF assms(1-5)]
  let ?r = "db_reservations db2 ! (rv_ID r - 1)"
  have ok: "reservations_ok db2" "books_balance db2" using auth(1) by (simp_all add: billing_ok_def)
  have same: "rv_Mode ?r = ua_Mode a" "rv_PeriodStartAt ?r = rv_PeriodStartAt r" "rv_PeriodEndAt ?r = rv_PeriodEndAt r"
    "rv_PeriodLimitNanousd ?r = rv_PeriodLimitNanousd r"
    using auth(4,6) by (simp_all add: reservation_step_def)
  note first = settled_row [OF ok(1) auth(2) _ auth(7)]
  from auth(5) show ?thesis
  proof
    assume mode: "ua_Mode a = ''usage''"
    obtain db4 y where add: "add_usage_and_settle_balance now usage (Some r) db2 = (db4, y)" by fastforce
    have "rv_Mode ?r = ''usage''" using same(1) mode by simp
    from usage_settles [OF auth(7) this assms(6) auth(3) add] settled_result [OF assms(10) [unfolded record_reserved(1) [OF assms(2) auth(4) mode]] add]
    consider "x = Inl (Repo OutOfRange)" "db3 = db2" | row where "y = Inr row" "x = Inr ()" "db3 = db4" by blast
    then show ?thesis
    proof cases
      case (2 row)
      from add ok(2) show ?thesis
      proof (cases rule: add_usage_cases)
        case (first row')
        with settled_row [OF ok(1) auth(2) first(2)] auth(7) assms(6) 2 show ?thesis by simp
      qed (use 2 auth(7) assms(6) in \<open>auto elim: settlement_retryE\<close>)
    qed simp
  next
    assume mode: "ua_Mode a = ''period''"
    then obtain s t where st: "rv_PeriodStartAt r = Some s" "rv_PeriodEndAt r = Some t" "s < t" "0 \<le> rv_PeriodLimitNanousd r"
      using auth(8) by blast
    let ?k = "rv_PeriodLimitNanousd r"
    obtain db4 y where add: "add_period_usage_and_settle_overage now usage s t ?k (Some r) db2 = (db4, y)" by fastforce
    have "matches_period_reservation ?r s t ?k" using same mode st by (simp add: matches_period_reservation_def)
    moreover have "\<not> is_zero s" using assms(9) st(1) by (simp add: is_zero_def)
    ultimately have "(\<exists>row. y = Inr row) \<or> db4 = db2 \<and> y = Inl OutOfRange"
      using period_settles [OF auth(7) _ assms(6) auth(3) _ st(3,4) add] by blast
    from this settled_result [OF assms(10) [unfolded record_reserved(2) [OF assms(2) auth(4) mode st assms(7,8)]] add]
    consider "x = Inl (Repo OutOfRange)" "db3 = db2" | row where "y = Inr row" "x = Inr ()" "db3 = db4" by blast
    then show ?thesis
    proof cases
      case (2 row)
      from add ok(2) show ?thesis
      proof (cases rule: add_period_cases)
        case (first row' ps own)
        from period_settlement_split(1-3) [OF first(6,7)] settled_row [OF ok(1) auth(2) first(2)] auth(7) assms(6) 2 mode
        show ?thesis by simp
      qed (use 2 auth(7) assms(6) in \<open>auto elim: settlement_retryE\<close>)
    qed simp
  qed
qed

section \<open>Editing a plan\<close>

definition keys_ok :: "billing_db \<Rightarrow> bool" where
  "keys_ok db \<longleftrightarrow> distinct (map bp_ID (db_plans db)) \<and> map pr_ID (db_prices db) = map Suc [0..<length (db_prices db)]"

lemma plan_body_cases:
  assumes "plan_body plan price db = Inr (x, db')"
  obtains (reused) row where "row \<in> set (map (demoted (bp_ID plan)) (db_prices db))" "pr_PlanID row = bp_ID plan"
      "db' = db\<lparr>db_plans := map (written_plan plan) (db_plans db), db_prices := map (\<lambda>p. if pr_ID p = pr_ID row
         then written_price (bp_ID plan) price p else p) (map (demoted (bp_ID plan)) (db_prices db))\<rparr>"
  | (added) "db' = db\<lparr>db_plans := map (written_plan plan) (db_plans db), db_prices := map (demoted (bp_ID plan)) (db_prices db) @
       [written_price (bp_ID plan) price (price\<lparr>pr_ID := Suc (length (db_prices db))\<rparr>)]\<rparr>"
proof -
  show thesis
  proof (cases "find (\<lambda>p. pr_PlanID p = bp_ID plan \<and> pr_Code p = trim_space (pr_Code price)) (map (demoted (bp_ID plan)) (db_prices db))")
    case None
    with assms added show thesis by (auto simp: plan_body_def Let_def split: if_splits)
  next
    case (Some row)
    then have "row \<in> set (map (demoted (bp_ID plan)) (db_prices db))" "pr_PlanID row = bp_ID plan"
      unfolding find_Some_iff by (metis nth_mem)+
    with Some assms reused show thesis by (simp add: plan_body_def Let_def)
  qed
qed

lemma filter_key: "distinct (map f xs) \<Longrightarrow> x \<in> set xs \<Longrightarrow> filter (\<lambda>y. f y = f x) xs = [x]"
proof (induction xs)
  case (Cons a xs)
  then show ?case
    by (cases "x = a") (auto simp: filter_empty_conv intro: rev_image_eqI)
qed simp

lemma demoted_simps [simp]:
  "pr_ID (demoted k p) = pr_ID p" "pr_PlanID (demoted k p) = pr_PlanID p"
  "\<not> (pr_PlanID (demoted k p) = k \<and> pr_IsDefault (demoted k p))" "pr_PlanID p \<noteq> k \<Longrightarrow> demoted k p = p"
  by (auto simp: demoted_def)

lemma demoted_others: "filter (\<lambda>p. pr_PlanID p \<noteq> k) (map (demoted k) ps) = filter (\<lambda>p. pr_PlanID p \<noteq> k) ps"
  by (induction ps) auto

lemma written_simps [simp]:
  "pr_ID (written_price k price p) = pr_ID p" "pr_PlanID (written_price k price p) = k"
  "pr_IsDefault (written_price k price p)" "pr_IsActive (written_price k price p)"
  by (simp_all add: written_price_def)

lemma edited_prices:
  assumes "plan_body plan price db = Inr (x, db')" "keys_ok db"
  shows "\<exists>row. filter (\<lambda>p. pr_PlanID p = bp_ID plan \<and> pr_IsDefault p) (db_prices db') = [written_price (bp_ID plan) price row]"
    and "filter (\<lambda>p. pr_PlanID p \<noteq> bp_ID plan) (db_prices db') = filter (\<lambda>p. pr_PlanID p \<noteq> bp_ID plan) (db_prices db)"
    and "db_plans db' = map (written_plan plan) (db_plans db)" "keys_ok db'"
proof -
  let ?k = "bp_ID plan" and ?ps = "map (demoted (bp_ID plan)) (db_prices db)"
  have d: "distinct (map pr_ID ?ps)" using assms(2) by (simp add: keys_ok_def o_def distinct_map)
  have none: "filter (\<lambda>p. pr_PlanID p = ?k \<and> pr_IsDefault p) ?ps = []" by (auto simp: filter_empty_conv demoted_def)
  show "\<exists>row. filter (\<lambda>p. pr_PlanID p = ?k \<and> pr_IsDefault p) (db_prices db') = [written_price ?k price row]"
    using assms(1)
  proof (cases rule: plan_body_cases)
    case (reused row)
    have "filter (\<lambda>p. pr_PlanID p = ?k \<and> pr_IsDefault p) (db_prices db') =
        map (\<lambda>p. if pr_ID p = pr_ID row then written_price ?k price p else p) (filter (\<lambda>p. pr_ID p = pr_ID row) ?ps)"
      unfolding reused(3) by (auto simp: filter_map o_def demoted_def intro!: arg_cong [where f = "map _"] filter_cong)
    then show ?thesis using filter_key [OF d reused(1)] by (intro exI [of _ row]) simp
  next
    case added
    then show ?thesis using none by auto
  qed
  have at_row: "filter (\<lambda>p. pr_PlanID p \<noteq> ?k) (map (\<lambda>p. if pr_ID p = pr_ID row then written_price ?k price p else p) ps) =
      filter (\<lambda>p. pr_PlanID p \<noteq> ?k) ps" if "\<forall>p \<in> set ps. pr_ID p = pr_ID row \<longrightarrow> pr_PlanID p = ?k" for ps row
    using that by (induction ps) auto
  show "filter (\<lambda>p. pr_PlanID p \<noteq> ?k) (db_prices db') = filter (\<lambda>p. pr_PlanID p \<noteq> ?k) (db_prices db)"
    using assms(1)
  proof (cases rule: plan_body_cases)
    case (reused row)
    have "inj_on pr_ID (set ?ps)" using d unfolding distinct_map by blast
    then have "\<forall>p \<in> set ?ps. pr_ID p = pr_ID row \<longrightarrow> pr_PlanID p = ?k" using reused(1,2) by (metis inj_onD)
    from at_row [OF this] show ?thesis by (simp add: reused(3) demoted_others del: map_map)
  qed (simp add: demoted_others)
  show "db_plans db' = map (written_plan plan) (db_plans db)" using assms(1) by (cases rule: plan_body_cases) simp_all
  have ids: "map bp_ID (map (written_plan plan) ps) = map bp_ID ps" for ps by (induction ps) (simp_all add: written_plan_def)
  show "keys_ok db'"
    using assms(1)
  proof (cases rule: plan_body_cases)
    case (reused row)
    have "map pr_ID (db_prices db') = map pr_ID (db_prices db)" by (simp add: reused(3) o_def if_distrib cong: if_cong)
    then show ?thesis
      using assms(2) ids [of "db_plans db"] arg_cong [OF \<open>map pr_ID (db_prices db') = _\<close>, of length]
      by (simp add: keys_ok_def reused(3) del: map_map)
  next
    case added
    have "map pr_ID (map (demoted ?k) ps) = map pr_ID ps" for ps by (induction ps) simp_all
    then show ?thesis using assms(2) ids [of "db_plans db"] by (simp add: keys_ok_def added del: map_map)
  qed
qed


lemma trim_first_non_empty [simp]: "trim_space (first_non_empty a b) = first_non_empty a b"
  by (simp add: first_non_empty_def)

text \<open>
  Editing a plan takes effect as a whole: afterwards the plan reads as it was entered, exactly one of its
  prices is the default one, that price is the one it is sold at and has the amount and interval entered,
  and no other plan and no price of another plan has changed.
\<close>

theorem plan_edit_takes_effect:
  assumes "update_plan lookup planID i db = (db', Inr (plan, price))" "keys_ok db"
  shows "get_plan_by_id db' planID = Inr plan \<and>
    (\<exists>p. filter (\<lambda>p. pr_PlanID p = planID \<and> pr_IsDefault p) (db_prices db') = [p] \<and>
       active_default_price_for_plan db' planID = Inr p \<and> pr_AmountCents p = max 0 (pi_AmountCents i) \<and>
       pr_BillingInterval p = normalize_interval (pi_BillingInterval i)) \<and>
    filter (\<lambda>p. bp_ID p \<noteq> planID) (db_plans db') = filter (\<lambda>p. bp_ID p \<noteq> planID) (db_plans db) \<and>
    filter (\<lambda>p. pr_PlanID p \<noteq> planID) (db_prices db') = filter (\<lambda>p. pr_PlanID p \<noteq> planID) (db_prices db) \<and> keys_ok db'"
proof -
  obtain current g where current: "get_plan_by_id db planID = Inr current" and planID: "planID \<noteq> 0"
    and plan: "plan = edited_plan i g current" and price: "price = edited_price i current"
    and body: "\<exists>x. update_plan_with_default_price plan price db = (db', Inr x)"
    using assms(1) unfolding update_plan_def Let_def
    by (auto simp: map_error_def map_sum_eq split: if_splits sum.splits option.splits prod.splits)
  have id: "bp_ID current = planID" "current \<in> set (db_plans db)"
    using current by (auto simp: get_plan_by_id_def find_plan_def or_not_found_def find_Some_iff split: option.splits if_splits)
  have k: "bp_ID plan = planID" by (simp add: plan edited_plan_def id)
  obtain x where "plan_body plan price db = Inr (x, db')"
    using body k planID by (auto simp: update_plan_with_default_price_def run_tx_Inr)
  note edited = edited_prices [OF this assms(2), unfolded k]
  obtain row where row: "filter (\<lambda>p. pr_PlanID p = planID \<and> pr_IsDefault p) (db_prices db') = [written_price planID price row]"
    using edited(1) by blast
  let ?p = "written_price planID price row"
  have only: "{p \<in> set (db_prices db'). pr_PlanID p = planID \<and> pr_IsDefault p} = {?p}"
    using arg_cong [OF row, of set] by simp
  then have "?p \<in> set (db_prices db')" by blast
  then have "find (\<lambda>p. pr_PlanID p = planID \<and> pr_IsActive p \<and> pr_IsDefault p) (db_prices db') = Some ?p"
    by (rule find_unique) (simp, use only in blast)
  then have default: "active_default_price_for_plan db' planID = Inr ?p" by (simp add: active_default_price_for_plan_def)
  have "written_plan plan current = plan"
    by (simp add: written_plan_def plan edited_plan_def id clamp_non_negative_def clamp_percent_def)
  moreover have "bp_ID (written_plan plan p) = bp_ID p" for p by (simp add: written_plan_def)
  moreover have "find (\<lambda>p. bp_ID p = planID) (db_plans db) = Some current"
    using current by (simp add: get_plan_by_id_def find_plan_def or_not_found_def split: option.splits if_splits)
  ultimately have "get_plan_by_id db' planID = Inr plan"
    using planID by (simp add: get_plan_by_id_def find_plan_def or_not_found_def edited(3) find_map)
  moreover have "filter (\<lambda>p. bp_ID p \<noteq> planID) (map (written_plan plan) ps) = filter (\<lambda>p. bp_ID p \<noteq> planID) ps" for ps
    by (induction ps) (simp_all add: written_plan_def k)
  ultimately show ?thesis
    using row default edited(2-4) by (simp add: written_price_def price edited_price_def clamp_non_negative_def)
qed


section \<open>Samples\<close>

definition sample_plan_input :: plan_input where
  "sample_plan_input = \<lparr>pi_Name = '' Pro '', pi_Description = [], pi_PeriodCreditNanousd = 70, pi_DiscountPercent = 150,
     pi_AmountCents = 900, pi_BillingInterval = ''year'', pi_PermissionGroupID = Some 3\<rparr>"

definition sample_groups :: "group_lookup option" where
  "sample_groups = Some \<lparr>gl_defaults = Inr [3], gl_exists = (\<lambda>g. Inr (g = 3))\<rparr>"

definition sample_edited :: "billing_db \<times> (service_error + billing_plan \<times> billing_price)" where
  "sample_edited = update_plan sample_groups 2 sample_plan_input sample_fresh"

lemma sample_edited_Inr: "\<exists>db' plan price. sample_edited = (db', Inr (plan, price)) \<and> bp_DiscountPercent plan = 100"
proof -
  have "case sample_edited of (_, Inl _) \<Rightarrow> False | (_, Inr (plan, _)) \<Rightarrow> bp_DiscountPercent plan = 100" by code_simp
  then show ?thesis by (auto split: prod.splits sum.splits)
qed

theorem plan_edit_takes_effect_witness:
  "\<exists>db' plan price p. sample_edited = (db', Inr (plan, price)) \<and> get_plan_by_id db' 2 = Inr plan \<and>
     active_default_price_for_plan db' 2 = Inr p \<and> pr_AmountCents p = 900 \<and> pr_BillingInterval p = Yearly"
proof -
  from sample_edited_Inr obtain db' plan price where r: "sample_edited = (db', Inr (plan, price))" by blast
  have "keys_ok sample_fresh"
    by (simp add: keys_ok_def sample_fresh_def fresh_db_def sample_plan_def sample_plan_price_def)
  moreover have "normalize_interval (pi_BillingInterval sample_plan_input) = Yearly" by code_simp
  ultimately show ?thesis
    using plan_edit_takes_effect [OF r [unfolded sample_edited_def]] r by (auto simp: sample_plan_input_def)
qed

definition flow_env :: pricing_env where
  "flow_env = sample_pricing_env ''usage'' (sample_price False ''token'')"

definition flow_db :: billing_db where
  "flow_db = fst (set_billing_account_balance 1 50 [] (fresh_db [] [] [''mode'' \<mapsto> ''usage'', ''prepaid_amount_usd'' \<mapsto> ''x'']))"

definition flow_authorized :: "billing_db \<times> (service_error + usage_authorization)" where
  "flow_authorized = authorize_usage 0 flow_env (\<lambda>_. Some 40) None 10 10 1 ''gpt'' ''r'' flow_db"

lemma flow_authorized_Inr:
  "\<exists>db1 a r. flow_authorized = (db1, Inr a) \<and> ua_Reservation a = Some r \<and> rv_Status (db_reservations db1 ! (rv_ID r - 1)) = RsvActive \<and>
     rv_PeriodStartAt r = None \<and> ua_Mode a = ''usage''"
proof -
  have "case flow_authorized of (_, Inl _) \<Rightarrow> False | (db1, Inr a) \<Rightarrow> (case ua_Reservation a of None \<Rightarrow> False
    | Some r \<Rightarrow> rv_Status (db_reservations db1 ! (rv_ID r - 1)) = RsvActive \<and> rv_PeriodStartAt r = None) \<and> ua_Mode a = ''usage''"
    by code_simp
  then show ?thesis by (auto split: prod.splits sum.splits option.splits)
qed

lemma flow_db_ok: "billing_ok flow_db"
proof -
  have "billing_step (fresh_db [] [] [''mode'' \<mapsto> ''usage'', ''prepaid_amount_usd'' \<mapsto> ''x'']) flow_db"
    unfolding flow_db_def by (rule billing_step.set_balance [OF prod.collapse [symmetric]]) (simp add: in_int64_def)
  then show ?thesis using fresh_ok by (rule billing_step_ok)
qed

text \<open>The call is authorised in the usage mode, the mode is removed, and the call is charged all the same.\<close>

theorem authorised_call_is_charged_witness:
  "\<exists>db1 a. flow_authorized = (db1, Inr a) \<and>
     balance_of 1 (fst (record_usage_with_authorization 0 20 (sample_usage 1 35) (Some a) (db1\<lparr>db_settings := Map.empty\<rparr>))) =
     balance_of 1 db1 - 35"
proof -
  from flow_authorized_Inr obtain db1 a r where a: "flow_authorized = (db1, Inr a)" "ua_Reservation a = Some r"
    "rv_Status (db_reservations db1 ! (rv_ID r - 1)) = RsvActive" "rv_PeriodStartAt r = None" "ua_Mode a = ''usage''" by blast
  let ?db2 = "db1\<lparr>db_settings := Map.empty\<rparr>"
  obtain db3 x where rec: "record_usage_with_authorization 0 20 (sample_usage 1 35) (Some a) ?db2 = (db3, x)" by fastforce
  have charge: "charge_of (sample_usage 1 35) = 35" by code_simp
  have x: "x = Inr ()"
  proof -
    have "case flow_authorized of (_, Inl _) \<Rightarrow> False | (db1, Inr a) \<Rightarrow>
      snd (record_usage_with_authorization 0 20 (sample_usage 1 35) (Some a) (db1\<lparr>db_settings := Map.empty\<rparr>)) = Inr ()" by code_simp
    then have "snd (record_usage_with_authorization 0 20 (sample_usage 1 35) (Some a) ?db2) = Inr ()"
      unfolding a(1) prod.case sum.case .
    then show ?thesis unfolding rec by simp
  qed
  have bal: "balance_of 1 ?db2 = balance_of 1 db1" by (simp add: balance_of_def)
  have "billing_run db1 ?db2" by (rule one_step [OF billing_step.setting])
  from authorised_call_is_charged [OF a(1) [unfolded flow_authorized_def] a(2) flow_db_ok this _ _ _ _ _ rec] a(3,4,5) x charge bal
  have "balance_of 1 db3 = balance_of 1 db1 - 35" by (simp add: sample_usage_def is_zero_def)
  then have "balance_of 1 (fst (record_usage_with_authorization 0 20 (sample_usage 1 35) (Some a) ?db2)) = balance_of 1 db1 - 35"
    unfolding rec by simp
  with a(1) show ?thesis by blast
qed

end
