(* ===== verification/Message_Store.thy ===== *)
theory Message_Store
  imports Repo_Tx Go_Text "HOL-Library.Word"
begin

text \<open>
  The rows the conversation repository keeps (\<^verbatim>\<open>infra/persistence/models/chat.go\<close>) and its operations
  on conversations and messages (\<^verbatim>\<open>infra/persistence/postgres/conversation/repository.go\<close>).

  A table is a list of rows in insertion order; the row created next gets the next identifier. No
  operation of the model removes messages, attachments, files or events, so the column
  \<^verbatim>\<open>deleted_at\<close> is kept for conversations only. The JSON columns that the code writes and reads back
  (knowledge sources, the snapshot of a message's attachments) are kept decoded; what the code
  asks of \<^verbatim>\<open>encoding/json\<close> about them is the record \<open>json_lib\<close>: the length of the encoded snapshots and
  the duration read from an attachment's metadata. Creation and update times, feedback counts and
  process traces, which are filled in for the views, are left out. An operation is one step: its
  transaction locks the rows it changes.
\<close>

section \<open>Rows\<close>

record knowledge_source =
  ks_FileName :: string
  ks_FileID :: string
  ks_ChunkIndex :: int
  ks_Score :: "32 word"
  ks_Preview :: string

record attachment_snapshot =
  as_FileID :: string
  as_Kind :: string
  as_FileName :: string
  as_MimeType :: string
  as_DetectedMIME :: string
  as_FileCategory :: string
  as_FileSize :: int
  as_ProcessingStatus :: string
  as_ProcessingReady :: bool
  as_ProcessingErrorCode :: string
  as_ProcessingErrorMessage :: string
  as_DurationSeconds :: int

record message =
  m_ID :: nat
  m_ConversationID :: nat
  m_UserID :: nat
  m_PublicID :: string
  m_ParentMessageID :: "nat option"
  m_RunID :: string
  m_Role :: string
  m_ContentType :: string
  m_Content :: string
  m_ReasoningContent :: string
  m_BranchReason :: string
  m_SourceMessageID :: "nat option"
  m_TokenUsage :: int
  m_InputTokens :: int
  m_OutputTokens :: int
  m_CacheReadTokens :: int
  m_CacheWriteTokens :: int
  m_ReasoningTokens :: int
  m_LatencyMS :: int
  m_BilledCurrency :: string
  m_BilledNanousd :: int
  m_PricingSnapshot :: string
  m_Status :: string
  m_ErrorCode :: string
  m_ErrorMessage :: string
  m_ModerationEventID :: string
  m_ModerationCategoriesJSON :: string
  m_KnowledgeSources :: "knowledge_source list"
  m_Attachments :: "attachment_snapshot list"
  m_ParentPublicID :: string
  m_SourcePublicID :: string
  m_EditedAt :: "gtime option"

record conversation =
  c_ID :: nat
  c_UserID :: nat
  c_ProjectID :: "nat option"
  c_PublicID :: string
  c_Title :: string
  c_LabelsJSON :: string
  c_LabelsManuallyManaged :: bool
  c_Model :: string
  c_Provider :: string
  c_SessionKey :: string
  c_IsStarred :: bool
  c_StarredAt :: "gtime option"
  c_MessageCount :: int
  c_Status :: string
  c_ContextPolicy :: string
  c_LastCompactedAt :: "gtime option"
  c_LastResponseID :: string
  c_LastPromptFingerprint :: string
  c_DeletedAt :: "gtime option"

record attachment =
  at_ID :: nat
  at_ConversationID :: nat
  at_MessageID :: nat
  at_UserID :: nat
  at_FileID :: string
  at_Kind :: string
  at_FileName :: string
  at_MimeType :: string
  at_FileSize :: int
  at_SHA256 :: string
  at_StoragePath :: string
  at_Status :: string
  at_MetaJSON :: string
  at_UploadedAt :: gtime

record file_object =
  fo_FileID :: string
  fo_UserID :: nat
  fo_FileName :: string
  fo_MimeType :: string
  fo_DetectedMIME :: string
  fo_FileCategory :: string
  fo_SizeBytes :: int
  fo_SHA256 :: string
  fo_StoragePath :: string
  fo_Status :: string
  fo_ProcessingStatus :: string
  fo_ProcessingReady :: bool
  fo_ProcessingErrorCode :: string
  fo_ProcessingErrorMessage :: string

record run_event =
  ev_ID :: nat
  ev_MessageID :: nat
  ev_ConversationID :: nat
  ev_UserID :: nat
  ev_RunID :: string
  ev_EventScope :: string
  ev_EventID :: string
  ev_EventType :: string
  ev_Phase :: string
  ev_Stage :: string
  ev_RoundID :: string
  ev_ParentEventID :: string
  ev_Status :: string
  ev_Title :: string
  ev_Summary :: string
  ev_ContentMarkdown :: string
  ev_PayloadJSON :: string
  ev_Seq :: int
  ev_ToolCallID :: string
  ev_ToolName :: string
  ev_MCPServerID :: nat
  ev_MCPServerName :: string
  ev_LatencyMS :: int
  ev_InputJSON :: string
  ev_OutputJSON :: string
  ev_ErrorJSON :: string
  ev_StartedAt :: gtime
  ev_EndedAt :: "gtime option"

record chat_db =
  cd_conversations :: "conversation list"
  cd_messages :: "message list"
  cd_attachments :: "attachment list"
  cd_files :: "file_object list"
  cd_events :: "run_event list"

definition empty_chat :: chat_db where
  "empty_chat = \<lparr>cd_conversations = [], cd_messages = [], cd_attachments = [], cd_files = [], cd_events = []\<rparr>"

record json_lib =
  jl_SnapshotsLen :: "attachment_snapshot list \<Rightarrow> nat"
  jl_DurationSeconds :: "string \<Rightarrow> int"

type_synonym 'a chat_tx = "(chat_db, 'a) repo_tx"

section \<open>Reading messages\<close>

definition find_message :: "chat_db \<Rightarrow> nat \<Rightarrow> message option" where
  "find_message db i = find (\<lambda>m. m_ID m = i) (cd_messages db)"

text \<open>The public identifiers of the messages a list of rows refers to.\<close>

definition public_ids :: "chat_db \<Rightarrow> message list \<Rightarrow> nat \<rightharpoonup> string" where
  "public_ids db items i =
     (case map_of (rev (map (\<lambda>m. (m_ID m, m_PublicID m)) items)) i of
        Some s \<Rightarrow> Some s
      | None \<Rightarrow> map_option m_PublicID (find_message db i))"

definition ref_public_id :: "(nat \<rightharpoonup> string) \<Rightarrow> nat option \<Rightarrow> string \<Rightarrow> string" where
  "ref_public_id ids ref old =
     (case ref of None \<Rightarrow> old | Some i \<Rightarrow> (case ids i of None \<Rightarrow> [] | Some s \<Rightarrow> s))"

definition hydrate_message_refs :: "chat_db \<Rightarrow> message list \<Rightarrow> message list" where
  "hydrate_message_refs db items =
     (let ids = public_ids db items in
      map (\<lambda>m. m\<lparr>m_ParentPublicID := ref_public_id ids (m_ParentMessageID m) (m_ParentPublicID m),
                m_SourcePublicID := ref_public_id ids (m_SourceMessageID m) (m_SourcePublicID m)\<rparr>) items)"

definition snapshot_of :: "json_lib \<Rightarrow> chat_db \<Rightarrow> attachment \<Rightarrow> attachment_snapshot" where
  "snapshot_of jl db a =
     (let fo = find (\<lambda>f. fo_FileID f = at_FileID a \<and> fo_UserID f = at_UserID a) (cd_files db);
          col = (\<lambda>f. case fo of None \<Rightarrow> [] | Some x \<Rightarrow> f x);
          duration = jl_DurationSeconds jl (trim_space (at_MetaJSON a))
      in \<lparr>as_FileID = at_FileID a, as_Kind = at_Kind a, as_FileName = at_FileName a, as_MimeType = at_MimeType a,
          as_DetectedMIME = col fo_DetectedMIME, as_FileCategory = col fo_FileCategory,
          as_FileSize = at_FileSize a, as_ProcessingStatus = col fo_ProcessingStatus,
          as_ProcessingReady = (case fo of None \<Rightarrow> False | Some x \<Rightarrow> fo_ProcessingReady x),
          as_ProcessingErrorCode = col fo_ProcessingErrorCode,
          as_ProcessingErrorMessage = col fo_ProcessingErrorMessage,
          as_DurationSeconds = (if duration > 0 then duration else 0)\<rparr>)"

definition hydrate_message_attachments :: "json_lib \<Rightarrow> chat_db \<Rightarrow> message list \<Rightarrow> message list" where
  "hydrate_message_attachments jl db items =
     (let ids = map m_ID (filter (\<lambda>m. m_ID m \<noteq> 0) items);
          rows = filter (\<lambda>a. at_MessageID a \<in> set ids \<and> at_Status a \<noteq> ''deleted'') (cd_attachments db)
      in map (\<lambda>m. m\<lparr>m_Attachments :=
           map (snapshot_of jl db) (filter (\<lambda>a. at_MessageID a = m_ID m) rows)\<rparr>) items)"

definition hydrate :: "json_lib \<Rightarrow> chat_db \<Rightarrow> message list \<Rightarrow> message list" where
  "hydrate jl db items = hydrate_message_attachments jl db (hydrate_message_refs db items)"

text \<open>A query for one message, \<open>p\<close> being its condition.\<close>

definition first_message :: "json_lib \<Rightarrow> chat_db \<Rightarrow> (message \<Rightarrow> bool) \<Rightarrow> repo_error + message" where
  "first_message jl db p =
     (case find p (cd_messages db) of
        None \<Rightarrow> Inl NotFound
      | Some m \<Rightarrow> Inr (hd (hydrate jl db [m])))"

definition get_message_by_public_id :: "json_lib \<Rightarrow> chat_db \<Rightarrow> nat \<Rightarrow> nat \<Rightarrow> string \<Rightarrow> repo_error + message" where
  "get_message_by_public_id jl db conversationID userID publicID =
     first_message jl db (\<lambda>m. m_ConversationID m = conversationID \<and> m_UserID m = userID \<and> m_PublicID m = publicID)"

definition get_message_by_public_id_for_user :: "json_lib \<Rightarrow> chat_db \<Rightarrow> nat \<Rightarrow> string \<Rightarrow> repo_error + message" where
  "get_message_by_public_id_for_user jl db userID publicID =
     first_message jl db (\<lambda>m. m_UserID m = userID \<and> m_PublicID m = publicID)"

definition get_message_by_id :: "json_lib \<Rightarrow> chat_db \<Rightarrow> nat \<Rightarrow> nat \<Rightarrow> repo_error + message" where
  "get_message_by_id jl db conversationID messageID =
     first_message jl db (\<lambda>m. m_ID m = messageID \<and> m_ConversationID m = conversationID)"

definition max_ancestor_query_depth :: nat where "max_ancestor_query_depth = 2000"
definition max_message_query_limit :: nat where "max_message_query_limit = 1000"
definition default_message_query_limit :: nat where "default_message_query_limit = 20"

text \<open>
  The recursive query: the leaf, then the parent of each row found, at most \<open>d\<close> rows, the leaf first.
\<close>

fun ancestors_up :: "chat_db \<Rightarrow> nat \<Rightarrow> nat \<Rightarrow> nat \<Rightarrow> message list" where
  "ancestors_up db conversationID 0 leaf = []"
| "ancestors_up db conversationID (Suc d) leaf =
     (case find (\<lambda>m. m_ID m = leaf \<and> m_ConversationID m = conversationID) (cd_messages db) of
        None \<Rightarrow> []
      | Some m \<Rightarrow> m # (case m_ParentMessageID m of
            None \<Rightarrow> []
          | Some p \<Rightarrow> ancestors_up db conversationID d p))"

declare ancestors_up.simps(2) [simp del]

definition list_message_ancestors :: "json_lib \<Rightarrow> chat_db \<Rightarrow> nat \<Rightarrow> nat \<Rightarrow> int \<Rightarrow> message list" where
  "list_message_ancestors jl db conversationID leafMessageID maxDepth0 =
     (let maxDepth = (if maxDepth0 \<le> 0 then 40 else maxDepth0);
          maxDepth = (if maxDepth > int max_ancestor_query_depth then int max_ancestor_query_depth else maxDepth)
      in hydrate jl db (rev (ancestors_up db conversationID (nat maxDepth) leafMessageID)))"

text \<open>A light row of a preview: only the columns listed are filled.\<close>

definition blank_message :: message where
  "blank_message = \<lparr>m_ID = 0, m_ConversationID = 0, m_UserID = 0, m_PublicID = [], m_ParentMessageID = None,
     m_RunID = [], m_Role = [], m_ContentType = [], m_Content = [], m_ReasoningContent = [], m_BranchReason = [],
     m_SourceMessageID = None, m_TokenUsage = 0, m_InputTokens = 0, m_OutputTokens = 0, m_CacheReadTokens = 0,
     m_CacheWriteTokens = 0, m_ReasoningTokens = 0, m_LatencyMS = 0, m_BilledCurrency = [], m_BilledNanousd = 0,
     m_PricingSnapshot = [], m_Status = [], m_ErrorCode = [], m_ErrorMessage = [], m_ModerationEventID = [],
     m_ModerationCategoriesJSON = [], m_KnowledgeSources = [], m_Attachments = [], m_ParentPublicID = [],
     m_SourcePublicID = [], m_EditedAt = None\<rparr>"

definition preview_row :: "nat \<Rightarrow> message \<Rightarrow> message" where
  "preview_row conversationID m = blank_message\<lparr>m_ID := m_ID m, m_ConversationID := conversationID,
     m_PublicID := m_PublicID m, m_Role := m_Role m, m_Content := m_Content m, m_Status := m_Status m,
     m_ErrorMessage := m_ErrorMessage m\<rparr>"

definition latest_message_id :: "chat_db \<Rightarrow> nat \<Rightarrow> nat option" where
  "latest_message_id db conversationID =
     (case rev (filter (\<lambda>m. m_ConversationID m = conversationID) (cd_messages db)) of
        [] \<Rightarrow> None | m # _ \<Rightarrow> Some (m_ID m))"

definition list_latest_branch_preview_messages :: "chat_db \<Rightarrow> nat \<Rightarrow> int \<Rightarrow> int \<Rightarrow> message list" where
  "list_latest_branch_preview_messages db conversationID maxDepth0 limit0 =
     (let maxDepth = (if maxDepth0 \<le> 0 then 100 else maxDepth0);
          maxDepth = (if maxDepth > int max_ancestor_query_depth then int max_ancestor_query_depth else maxDepth);
          limit = (if limit0 \<le> 0 then 10 else limit0);
          limit = (if limit > int max_message_query_limit then int max_message_query_limit else limit);
          up = (case latest_message_id db conversationID of None \<Rightarrow> []
                | Some i \<Rightarrow> ancestors_up db conversationID (nat maxDepth) i);
          visible = take (nat limit) (filter (\<lambda>m. m_Role m \<in> {''user'', ''assistant''}) up)
      in map (preview_row conversationID) (rev visible))"

section \<open>Lists of messages\<close>

definition messages_of :: "chat_db \<Rightarrow> nat \<Rightarrow> message list" where
  "messages_of db conversationID = filter (\<lambda>m. m_ConversationID m = conversationID) (cd_messages db)"

definition query_limit :: "int \<Rightarrow> nat" where
  "query_limit limit0 =
     (let limit = (if limit0 \<le> 0 then int default_message_query_limit else limit0)
      in nat (if limit > int max_message_query_limit then int max_message_query_limit else limit))"

definition list_messages :: "json_lib \<Rightarrow> chat_db \<Rightarrow> nat \<Rightarrow> nat \<Rightarrow> nat \<Rightarrow> message list \<times> nat" where
  "list_messages jl db conversationID offset0 limit =
     (hydrate jl db (take limit (drop offset0 (messages_of db conversationID))), length (messages_of db conversationID))"

definition list_messages_before_id :: "json_lib \<Rightarrow> chat_db \<Rightarrow> nat \<Rightarrow> nat \<Rightarrow> int \<Rightarrow> message list \<times> nat" where
  "list_messages_before_id jl db conversationID beforeID limit0 =
     (let before = filter (\<lambda>m. m_ID m < beforeID) (messages_of db conversationID)
      in (hydrate jl db (rev (take (query_limit limit0) (rev before))), length (messages_of db conversationID)))"

definition list_recent_messages :: "json_lib \<Rightarrow> chat_db \<Rightarrow> nat \<Rightarrow> int \<Rightarrow> message list \<times> nat" where
  "list_recent_messages jl db conversationID limit0 =
     (let limit = query_limit limit0; total0 = length (messages_of db conversationID)
      in (hydrate jl db (take limit (drop (total0 - limit) (messages_of db conversationID))), total0))"

definition list_all_messages :: "json_lib \<Rightarrow> chat_db \<Rightarrow> nat \<Rightarrow> message list" where
  "list_all_messages jl db conversationID = hydrate jl db (messages_of db conversationID)"

definition list_messages_for_share :: "json_lib \<Rightarrow> chat_db \<Rightarrow> nat \<Rightarrow> string list \<Rightarrow> message list" where
  "list_messages_for_share jl db conversationID publicIDs =
     (let items = (if publicIDs = [] then messages_of db conversationID
                   else filter (\<lambda>m. m_PublicID m \<in> set publicIDs) (messages_of db conversationID));
          result = hydrate jl db items;
          by_public_id = map_of (rev (map (\<lambda>m. (m_PublicID m, m)) result))
      in if publicIDs = [] then result else List.map_filter by_public_id publicIDs)"

section \<open>Creating messages\<close>

text \<open>The columns of a message; the fields filled in on reading are not stored.\<close>

definition message_row :: "message \<Rightarrow> message" where
  "message_row item = item\<lparr>m_Attachments := [], m_ParentPublicID := [], m_SourcePublicID := []\<rparr>"

definition create_message :: "message \<Rightarrow> message chat_tx" where
  "create_message item db =
     (if m_PublicID item \<in> set (map m_PublicID (cd_messages db)) then Inl Duplicate
      else let row = (message_row item)\<lparr>m_ID := Suc (length (cd_messages db))\<rparr>
        in Inr (row\<lparr>m_Attachments := m_Attachments item\<rparr>, db\<lparr>cd_messages := cd_messages db @ [row]\<rparr>))"

definition live_conversation :: "chat_db \<Rightarrow> nat \<Rightarrow> bool" where
  "live_conversation db i \<longleftrightarrow> list_ex (\<lambda>c. c_ID c = i \<and> c_DeletedAt c = None) (cd_conversations db)"

definition update_conversation :: "nat \<Rightarrow> (conversation \<Rightarrow> conversation) \<Rightarrow> chat_db \<Rightarrow> chat_db" where
  "update_conversation i f db = db\<lparr>cd_conversations :=
     map (\<lambda>c. if c_ID c = i \<and> c_DeletedAt c = None then f c else c) (cd_conversations db)\<rparr>"

definition bump_message_count :: "nat \<Rightarrow> int \<Rightarrow> unit chat_tx" where
  "bump_message_count i delta db =
     (if live_conversation db i
      then Inr ((), update_conversation i (\<lambda>c. c\<lparr>c_MessageCount := c_MessageCount c + delta\<rparr>) db)
      else Inl NotFound)"

definition increment_message_count :: "nat \<Rightarrow> int \<Rightarrow> chat_db \<Rightarrow> chat_db" where
  "increment_message_count i delta = update_conversation i (\<lambda>c. c\<lparr>c_MessageCount := c_MessageCount c + delta\<rparr>)"

definition branch_message_body :: "message \<Rightarrow> message chat_tx" where
  "branch_message_body assistantMessage db =
     (case create_message assistantMessage db of
        Inl err \<Rightarrow> Inl err
      | Inr (a, db1) \<Rightarrow>
          (case bump_message_count (m_ConversationID a) 1 db1 of
             Inl err \<Rightarrow> Inl err
           | Inr (_, db2) \<Rightarrow> Inr (a, db2)))"

definition create_assistant_branch_message :: "message \<Rightarrow> chat_db \<Rightarrow> chat_db \<times> (repo_error + message)" where
  "create_assistant_branch_message assistantMessage db =
     (if m_ParentMessageID assistantMessage = None then (db, Inl InvalidInput)
      else run_tx (branch_message_body assistantMessage) db)"

text \<open>The files of new attachments must be active and belong to their user.\<close>

fun attachment_file_ids :: "nat \<Rightarrow> string list \<Rightarrow> attachment list \<Rightarrow> repo_error + nat \<times> string list" where
  "attachment_file_ids userID seen [] = Inr (userID, rev seen)"
| "attachment_file_ids userID seen (a # as) =
     (let fileID = trim_space (at_FileID a); u = (if userID = 0 then at_UserID a else userID) in
      if fileID = [] then attachment_file_ids userID seen as
      else if at_UserID a \<noteq> 0 \<and> at_UserID a \<noteq> u then Inl InvalidInput
      else attachment_file_ids u (if fileID \<in> set seen then seen else fileID # seen) as)"

definition active_files :: "chat_db \<Rightarrow> nat \<Rightarrow> string list \<Rightarrow> file_object list" where
  "active_files db userID fileIDs =
     filter (\<lambda>f. fo_UserID f = userID \<and> fo_Status f = ''active'' \<and> fo_FileID f \<in> set fileIDs) (cd_files db)"

definition lock_active_file_objects_for_attachments ::
    "chat_db \<Rightarrow> nat \<Rightarrow> attachment list \<Rightarrow> repo_error + unit" where
  "lock_active_file_objects_for_attachments db userID0 attachments =
     (case attachment_file_ids userID0 [] attachments of
        Inl err \<Rightarrow> Inl err
      | Inr (userID, fileIDs) \<Rightarrow>
          if fileIDs = [] then Inr ()
          else if userID = 0 then Inl InvalidInput
          else if length (active_files db userID fileIDs) \<noteq> length fileIDs then Inl NotFound
          else Inr ())"

fun add_attachments :: "attachment list \<Rightarrow> chat_db \<Rightarrow> chat_db" where
  "add_attachments [] db = db"
| "add_attachments (a # as) db =
     add_attachments as (db\<lparr>cd_attachments := cd_attachments db @ [a\<lparr>at_ID := Suc (length (cd_attachments db))\<rparr>]\<rparr>)"

definition attach_locked :: "nat \<Rightarrow> attachment list \<Rightarrow> attachment list \<Rightarrow> unit chat_tx" where
  "attach_locked userID items rows db =
     (if items = [] then Inr ((), db)
      else case lock_active_file_objects_for_attachments db userID items of
        Inl err \<Rightarrow> Inl err
      | Inr _ \<Rightarrow> Inr ((), add_attachments rows db))"

definition message_pair_body :: "message \<Rightarrow> message \<Rightarrow> attachment list \<Rightarrow> (message \<times> message) chat_tx" where
  "message_pair_body userMessage assistantMessage userAttachments db =
     (case create_message userMessage db of
        Inl err \<Rightarrow> Inl err
      | Inr (u, db1) \<Rightarrow>
     (case attach_locked (m_UserID u) userAttachments
             (map (\<lambda>a. a\<lparr>at_ConversationID := m_ConversationID u, at_MessageID := m_ID u,
                        at_UserID := m_UserID u\<rparr>) userAttachments) db1 of
        Inl err \<Rightarrow> Inl err
      | Inr (_, db2) \<Rightarrow>
     (case create_message (assistantMessage\<lparr>m_ParentMessageID := Some (m_ID u)\<rparr>) db2 of
        Inl err \<Rightarrow> Inl err
      | Inr (a, db3) \<Rightarrow>
     (case bump_message_count (m_ConversationID u) 2 db3 of
        Inl err \<Rightarrow> Inl err
      | Inr (_, db4) \<Rightarrow> Inr ((u, a), db4)))))"

definition create_message_pair_with_user_attachments ::
    "message \<Rightarrow> message \<Rightarrow> attachment list \<Rightarrow> chat_db \<Rightarrow> chat_db \<times> (repo_error + message \<times> message)" where
  "create_message_pair_with_user_attachments userMessage assistantMessage userAttachments =
     run_tx (message_pair_body userMessage assistantMessage userAttachments)"

section \<open>Updating messages\<close>

definition update_messages :: "(message \<Rightarrow> bool) \<Rightarrow> (message \<Rightarrow> message) \<Rightarrow> chat_db \<Rightarrow> chat_db" where
  "update_messages p f db = db\<lparr>cd_messages := map (\<lambda>m. if p m then f m else m) (cd_messages db)\<rparr>"

definition rows_matching :: "(message \<Rightarrow> bool) \<Rightarrow> chat_db \<Rightarrow> nat" where
  "rows_matching p db = length (filter p (cd_messages db))"

record message_usage =
  mu_InputTokens :: int
  mu_OutputTokens :: int
  mu_CacheReadTokens :: int
  mu_CacheWriteTokens :: int
  mu_ReasoningTokens :: int

definition token_usage :: "message_usage \<Rightarrow> int" where
  "token_usage u =
     (let sum0 = wrap64 (mu_InputTokens u + mu_CacheReadTokens u + mu_CacheWriteTokens u + mu_OutputTokens u +
        mu_ReasoningTokens u) in if sum0 < 0 then 0 else sum0)"

definition with_usage :: "message_usage \<Rightarrow> message \<Rightarrow> message" where
  "with_usage u m = m\<lparr>m_TokenUsage := token_usage u, m_InputTokens := mu_InputTokens u,
     m_OutputTokens := mu_OutputTokens u, m_CacheReadTokens := mu_CacheReadTokens u,
     m_CacheWriteTokens := mu_CacheWriteTokens u, m_ReasoningTokens := mu_ReasoningTokens u\<rparr>"

definition update_message_usage :: "nat \<Rightarrow> message_usage \<Rightarrow> chat_db \<Rightarrow> chat_db" where
  "update_message_usage i u = update_messages (\<lambda>m. m_ID m = i) (with_usage u)"

definition with_state :: "string \<Rightarrow> string \<Rightarrow> string \<Rightarrow> message \<Rightarrow> message" where
  "with_state status errorCode errorMessage m =
     m\<lparr>m_Status := status, m_ErrorCode := errorCode, m_ErrorMessage := errorMessage\<rparr>"

definition update_message_state :: "nat \<Rightarrow> string \<Rightarrow> string \<Rightarrow> string \<Rightarrow> chat_db \<Rightarrow> chat_db" where
  "update_message_state i status errorCode errorMessage =
     update_messages (\<lambda>m. m_ID m = i) (with_state status errorCode errorMessage)"

definition update_assistant_message_content ::
    "json_lib \<Rightarrow> nat \<Rightarrow> string \<Rightarrow> string \<Rightarrow> gtime \<Rightarrow> chat_db \<Rightarrow> chat_db \<times> (repo_error + message)" where
  "update_assistant_message_content jl userID publicID content editedAt db =
     (let normalizedPublicID = trim_space publicID in
      if userID = 0 \<or> normalizedPublicID = [] then (db, Inl InvalidInput)
      else case find (\<lambda>m. m_UserID m = userID \<and> m_PublicID m = normalizedPublicID \<and> m_Role m = ''assistant'')
                  (cd_messages db) of
        None \<Rightarrow> (db, Inl NotFound)
      | Some item \<Rightarrow>
          let db' = update_messages (\<lambda>m. m_ID m = m_ID item) (\<lambda>m. m\<lparr>m_Content := content, m_EditedAt := Some editedAt\<rparr>) db
          in (db', first_message jl db' (\<lambda>m. m_ID m = m_ID item)))"

text \<open>The pending messages of a run, by role.\<close>

definition pending_in_run :: "nat \<Rightarrow> string \<Rightarrow> string \<Rightarrow> message \<Rightarrow> bool" where
  "pending_in_run userID runID role m \<longleftrightarrow>
     m_UserID m = userID \<and> m_RunID m = runID \<and> m_Role m = role \<and> m_Status m = ''pending''"

definition cancel_pending_generation_messages_by_run_id ::
    "nat \<Rightarrow> string \<Rightarrow> string \<Rightarrow> string \<Rightarrow> chat_db \<Rightarrow> chat_db \<times> (repo_error + bool)" where
  "cancel_pending_generation_messages_by_run_id userID runID errorCode errorMessage db =
     (let normalizedRunID = trim_space runID in
      if userID = 0 \<or> normalizedRunID = [] then (db, Inl InvalidInput)
      else let user = pending_in_run userID normalizedRunID ''user'';
               assistant = pending_in_run userID normalizedRunID ''assistant'';
               db1 = update_messages user (with_state ''success'' [] []) db;
               db2 = update_messages assistant
                 (with_state ''canceled'' (trim_space errorCode) (truncate_text (trim_space errorMessage) 255)) db1
        in (db2, Inr (rows_matching user db + rows_matching assistant db1 > 0)))"

definition interrupt_pending_assistant_message_by_run_id ::
    "nat \<Rightarrow> string \<Rightarrow> string \<Rightarrow> string \<Rightarrow> chat_db \<Rightarrow> chat_db \<times> bool" where
  "interrupt_pending_assistant_message_by_run_id userID runID errorCode errorMessage db =
     (let assistant = pending_in_run userID (trim_space runID) ''assistant''
      in (update_messages assistant
            (with_state ''error'' (trim_space errorCode) (truncate_text (trim_space errorMessage) 255)) db,
          rows_matching assistant db > 0))"

record assistant_completion =
  ac_ContentType :: string
  ac_Content :: string
  ac_ReasoningContent :: string
  ac_Usage :: message_usage
  ac_LatencyMS :: int
  ac_Status :: string
  ac_ErrorCode :: string
  ac_ErrorMessage :: string
  ac_KnowledgeSources :: "knowledge_source list option"

definition with_completion :: "assistant_completion \<Rightarrow> message \<Rightarrow> message" where
  "with_completion u m =
     (with_state (ac_Status u) (ac_ErrorCode u) (ac_ErrorMessage u) (with_usage (ac_Usage u) m))
       \<lparr>m_Content := ac_Content u, m_ReasoningContent := ac_ReasoningContent u,
        m_LatencyMS := (if ac_LatencyMS u < 0 then 0 else ac_LatencyMS u),
        m_KnowledgeSources := (case ac_KnowledgeSources u of None \<Rightarrow> m_KnowledgeSources m | Some ks \<Rightarrow> ks)\<rparr>"

definition with_content_type :: "string \<Rightarrow> message \<Rightarrow> message" where
  "with_content_type contentType m =
     (if trim_space contentType \<noteq> [] then m\<lparr>m_ContentType := trim_space contentType\<rparr> else m)"

definition update_assistant_message_completion :: "nat \<Rightarrow> assistant_completion \<Rightarrow> chat_db \<Rightarrow> chat_db" where
  "update_assistant_message_completion i u = update_messages (\<lambda>m. m_ID m = i) (with_completion u)"

definition complete_with_generated_body :: "nat \<Rightarrow> assistant_completion \<Rightarrow> attachment list \<Rightarrow> unit chat_tx" where
  "complete_with_generated_body i u attachments db =
     (case attach_locked 0 attachments (map (\<lambda>a. a\<lparr>at_MessageID := i\<rparr>) attachments) db of
        Inl err \<Rightarrow> Inl err
      | Inr (_, db1) \<Rightarrow>
          Inr ((), update_messages (\<lambda>m. m_ID m = i) (\<lambda>m. with_content_type (ac_ContentType u) (with_completion u m)) db1))"

definition complete_assistant_message_with_generated_attachments ::
    "nat \<Rightarrow> assistant_completion \<Rightarrow> attachment list \<Rightarrow> chat_db \<Rightarrow> chat_db \<times> (repo_error + unit)" where
  "complete_assistant_message_with_generated_attachments i u attachments =
     run_tx (complete_with_generated_body i u attachments)"

definition complete_with_attachments_body ::
    "nat \<Rightarrow> message_usage \<Rightarrow> nat \<Rightarrow> assistant_completion \<Rightarrow> attachment list \<Rightarrow> unit chat_tx" where
  "complete_with_attachments_body userMessageID userUsage i u attachments db =
     (case attach_locked 0 attachments (map (\<lambda>a. a\<lparr>at_MessageID := i\<rparr>) attachments) db of
        Inl err \<Rightarrow> Inl err
      | Inr (_, db1) \<Rightarrow>
          let db2 = update_messages (\<lambda>m. m_ID m = userMessageID) (with_usage userUsage) db1
          in Inr ((), update_messages (\<lambda>m. m_ID m = i) (\<lambda>m. with_content_type (ac_ContentType u) (with_completion u m)) db2))"

definition complete_assistant_message_with_attachments ::
    "nat \<Rightarrow> message_usage \<Rightarrow> nat \<Rightarrow> assistant_completion \<Rightarrow> attachment list \<Rightarrow> chat_db \<Rightarrow> chat_db \<times> (repo_error + unit)" where
  "complete_assistant_message_with_attachments userMessageID userUsage i u attachments =
     run_tx (complete_with_attachments_body userMessageID userUsage i u attachments)"

definition update_message_billing :: "nat \<Rightarrow> string \<Rightarrow> int \<Rightarrow> string \<Rightarrow> chat_db \<Rightarrow> chat_db" where
  "update_message_billing i currency nanousd snapshot =
     update_messages (\<lambda>m. m_ID m = i) (\<lambda>m. m\<lparr>m_BilledCurrency := currency,
       m_BilledNanousd := (if nanousd < 0 then 0 else nanousd), m_PricingSnapshot := snapshot\<rparr>)"

section \<open>Conversations\<close>

definition create_conversation :: "conversation \<Rightarrow> conversation chat_tx" where
  "create_conversation item db =
     (if c_SessionKey item \<in> set (map c_SessionKey (cd_conversations db)) then Inl Duplicate
      else let row = item\<lparr>c_ID := Suc (length (cd_conversations db)), c_DeletedAt := None\<rparr>
        in Inr (row, db\<lparr>cd_conversations := cd_conversations db @ [row]\<rparr>))"

definition get_conversation_by_public_id :: "chat_db \<Rightarrow> string \<Rightarrow> nat \<Rightarrow> repo_error + conversation" where
  "get_conversation_by_public_id db publicID userID =
     (case find (\<lambda>c. c_PublicID c = publicID \<and> c_UserID c = userID \<and> c_DeletedAt c = None) (cd_conversations db) of
        None \<Rightarrow> Inl NotFound
      | Some c \<Rightarrow> Inr c)"

definition get_conversation_by_user :: "chat_db \<Rightarrow> nat \<Rightarrow> nat \<Rightarrow> repo_error + conversation" where
  "get_conversation_by_user db conversationID userID =
     (case find (\<lambda>c. c_ID c = conversationID \<and> c_UserID c = userID \<and> c_DeletedAt c = None) (cd_conversations db) of
        None \<Rightarrow> Inl NotFound
      | Some c \<Rightarrow> Inr c)"

text \<open>Updating a user's conversation by its public identifier, and reading it back.\<close>

definition update_own_conversation ::
    "nat \<Rightarrow> string \<Rightarrow> (conversation \<Rightarrow> conversation) \<Rightarrow> chat_db \<Rightarrow> chat_db \<times> (repo_error + conversation)" where
  "update_own_conversation userID publicID f db =
     (let own = (\<lambda>c. c_UserID c = userID \<and> c_PublicID c = publicID \<and> c_DeletedAt c = None);
          db' = db\<lparr>cd_conversations := map (\<lambda>c. if own c then f c else c) (cd_conversations db)\<rparr>
      in if list_ex own (cd_conversations db) then (db', get_conversation_by_public_id db' publicID userID)
         else (db, Inl NotFound))"

definition update_conversation_title_by_public_id where
  "update_conversation_title_by_public_id userID publicID title =
     update_own_conversation userID publicID (\<lambda>c. c\<lparr>c_Title := title\<rparr>)"

definition update_conversation_labels_by_public_id where
  "update_conversation_labels_by_public_id userID publicID labelsJSON =
     update_own_conversation userID publicID
       (\<lambda>c. c\<lparr>c_LabelsJSON := trim_space labelsJSON, c_LabelsManuallyManaged := True\<rparr>)"

definition update_conversation_archive_by_public_id where
  "update_conversation_archive_by_public_id userID publicID archived =
     update_own_conversation userID publicID
       (\<lambda>c. c\<lparr>c_Status := (if archived then ''archived'' else ''active'')\<rparr>)"

definition update_conversation_star_by_public_id ::
    "nat \<Rightarrow> string \<Rightarrow> bool \<Rightarrow> gtime \<Rightarrow> chat_db \<Rightarrow> chat_db \<times> (repo_error + conversation)" where
  "update_conversation_star_by_public_id userID publicID starred now db =
     (case get_conversation_by_public_id db publicID userID of
        Inl err \<Rightarrow> (db, Inl err)
      | Inr current \<Rightarrow>
          if c_IsStarred current = starred then (db, Inr current)
          else update_own_conversation userID publicID
            (\<lambda>c. c\<lparr>c_IsStarred := starred, c_StarredAt := (if starred then Some now else None)\<rparr>) db)"

definition update_conversation_compacted_at :: "nat \<Rightarrow> gtime \<Rightarrow> chat_db \<Rightarrow> chat_db" where
  "update_conversation_compacted_at i t = update_conversation i (\<lambda>c. c\<lparr>c_LastCompactedAt := Some t\<rparr>)"

definition update_conversation_last_response_id :: "nat \<Rightarrow> string \<Rightarrow> chat_db \<Rightarrow> chat_db" where
  "update_conversation_last_response_id i responseID =
     update_conversation i (\<lambda>c. c\<lparr>c_LastResponseID := responseID,
       c_LastPromptFingerprint := (if trim_space responseID = [] then [] else c_LastPromptFingerprint c)\<rparr>)"

definition update_conversation_stateful_response :: "nat \<Rightarrow> string \<Rightarrow> string \<Rightarrow> chat_db \<Rightarrow> chat_db" where
  "update_conversation_stateful_response i responseID fingerprint =
     update_conversation i (\<lambda>c. c\<lparr>c_LastResponseID := responseID, c_LastPromptFingerprint := fingerprint\<rparr>)"

definition update_conversation_model :: "nat \<Rightarrow> string \<Rightarrow> string \<Rightarrow> chat_db \<Rightarrow> chat_db" where
  "update_conversation_model i modelName provider =
     update_conversation i (\<lambda>c. c\<lparr>c_Model := modelName, c_Provider := provider\<rparr>)"

text \<open>The files only a deleted conversation refers to, which the caller may clean up (as a set).\<close>

definition cleanup_candidates :: "chat_db \<Rightarrow> nat \<Rightarrow> nat list \<Rightarrow> string set" where
  "cleanup_candidates db userID conversationIDs =
     {at_FileID a |a. a \<in> set (cd_attachments db) \<and> at_UserID a = userID \<and>
        at_ConversationID a \<in> set conversationIDs \<and> at_Status a \<noteq> ''deleted'' \<and> trim_space (at_FileID a) \<noteq> [] \<and>
        list_ex (\<lambda>f. fo_UserID f = userID \<and> fo_FileID f = at_FileID a \<and> fo_Status f = ''active'') (cd_files db) \<and>
        \<not> list_ex (\<lambda>b. at_UserID b = userID \<and> at_FileID b = at_FileID a \<and> at_Status b \<noteq> ''deleted'' \<and>
             list_ex (\<lambda>c. c_ID c = at_ConversationID b \<and> c_UserID c = userID \<and> c_DeletedAt c = None)
               (cd_conversations db)) (cd_attachments db)}"

definition delete_conversation_by_public_id ::
    "nat \<Rightarrow> string \<Rightarrow> bool \<Rightarrow> gtime \<Rightarrow> chat_db \<Rightarrow> chat_db \<times> (repo_error + string set)" where
  "delete_conversation_by_public_id userID publicID deleteFiles now db =
     (case get_conversation_by_public_id db (trim_space publicID) userID of
        Inl err \<Rightarrow> (db, Inl err)
      | Inr item \<Rightarrow>
          let db' = update_conversation (c_ID item) (\<lambda>c. c\<lparr>c_DeletedAt := Some now\<rparr>) db
          in (db', Inr (if deleteFiles then cleanup_candidates db' userID [c_ID item] else {})))"

end
