(* ===== verification/Message_Tree.thy ===== *)
theory Message_Tree
  imports Message_Store
begin

text \<open>
  The tree the messages of a conversation form, as the parent links give it: the invariant
  \<open>tree_ok\<close> of the tables, the branch from a message up to its root, and what the recursive query
  \<open>ancestors_up\<close> of the repository reads of it (\<^verbatim>\<open>infra/persistence/postgres/conversation/repository.go\<close>).
\<close>

section \<open>The invariant of the message tree\<close>

definition ids_ok :: "chat_db \<Rightarrow> bool" where
  "ids_ok db \<longleftrightarrow> map m_ID (cd_messages db) = [1..<Suc (length (cd_messages db))] \<and>
     map c_ID (cd_conversations db) = [1..<Suc (length (cd_conversations db))] \<and>
     distinct (map m_PublicID (cd_messages db))"

definition parent_ok :: "chat_db \<Rightarrow> message \<Rightarrow> bool" where
  "parent_ok db m \<longleftrightarrow> (case m_ParentMessageID m of None \<Rightarrow> True
     | Some p \<Rightarrow> \<exists>q \<in> set (cd_messages db). m_ID q = p \<and> p < m_ID m \<and> m_ConversationID q = m_ConversationID m)"

definition owner_ok :: "chat_db \<Rightarrow> message \<Rightarrow> bool" where
  "owner_ok db m \<longleftrightarrow> (\<exists>c \<in> set (cd_conversations db). c_ID c = m_ConversationID m \<and> c_UserID c = m_UserID m)"

definition links_ok :: "chat_db \<Rightarrow> bool" where
  "links_ok db \<longleftrightarrow> ids_ok db \<and> (\<forall>m \<in> set (cd_messages db). parent_ok db m \<and> owner_ok db m)"

text \<open>
  The counters of the conversations are exact, but for \<open>k\<close> messages of conversation \<open>i\<close> that the
  transaction under way has not counted yet.
\<close>

definition counts_off :: "nat \<Rightarrow> int \<Rightarrow> chat_db \<Rightarrow> bool" where
  "counts_off i k db \<longleftrightarrow> (\<forall>c \<in> set (cd_conversations db).
     c_MessageCount c = int (length (messages_of db (c_ID c))) - (if c_ID c = i then k else 0))"

definition tree_ok :: "chat_db \<Rightarrow> bool" where
  "tree_ok db \<longleftrightarrow> links_ok db \<and> counts_off 0 0 db"

lemma tree_ok_ids [simp]: "tree_ok db \<Longrightarrow> ids_ok db"
  by (simp add: tree_ok_def links_ok_def)

lemma counts_off_zero: "counts_off i 0 db \<longleftrightarrow> counts_off 0 0 db"
  by (simp add: counts_off_def)

lemma tree_ok_empty: "tree_ok empty_chat"
  by (simp add: tree_ok_def links_ok_def counts_off_def ids_ok_def empty_chat_def)

lemma find_id:
  assumes "map f xs = [1..<Suc (length xs)]"
  shows "find (\<lambda>x. f x = i) xs = Some x \<longleftrightarrow> x \<in> set xs \<and> f x = i"
proof -
  have d: "distinct (map f xs)" by (simp only: assms distinct_upt)
  show ?thesis
  proof
    assume "find (\<lambda>x. f x = i) xs = Some x"
    then show "x \<in> set xs \<and> f x = i" by (auto simp: find_Some_iff)
  next
    assume x: "x \<in> set xs \<and> f x = i"
    then obtain y where y: "find (\<lambda>x. f x = i) xs = Some y"
      by (cases "find (\<lambda>x. f x = i) xs") (auto simp: find_None_iff)
    then have "y \<in> set xs" "f y = i" by (auto simp: find_Some_iff)
    then have "x = y" using x d by (metis distinct_map inj_onD)
    then show "find (\<lambda>x. f x = i) xs = Some x" using y by simp
  qed
qed

lemma find_message_Some:
  "ids_ok db \<Longrightarrow> find_message db i = Some m \<longleftrightarrow> m \<in> set (cd_messages db) \<and> m_ID m = i"
  by (simp add: find_message_def ids_ok_def find_id)

lemma message_unique:
  "ids_ok db \<Longrightarrow> m \<in> set (cd_messages db) \<Longrightarrow> n \<in> set (cd_messages db) \<Longrightarrow> m_ID m = m_ID n \<Longrightarrow> m = n"
  by (metis find_message_Some option.inject)

lemma message_id_range:
  assumes "ids_ok db" "m \<in> set (cd_messages db)"
  shows "0 < m_ID m \<and> m_ID m \<le> length (cd_messages db)"
proof -
  have "m_ID m \<in> set (map m_ID (cd_messages db))" using assms(2) by simp
  then show ?thesis using assms(1) by (simp add: ids_ok_def del: set_map) auto
qed

lemma conversation_unique:
  "ids_ok db \<Longrightarrow> c \<in> set (cd_conversations db) \<Longrightarrow> d \<in> set (cd_conversations db) \<Longrightarrow> c_ID c = c_ID d \<Longrightarrow> c = d"
  by (metis find_id ids_ok_def option.inject)

text \<open>A message of a conversation, by identifier.\<close>

definition in_conversation :: "chat_db \<Rightarrow> nat \<Rightarrow> nat \<Rightarrow> message option" where
  "in_conversation db c i = find (\<lambda>m. m_ID m = i \<and> m_ConversationID m = c) (cd_messages db)"

lemma in_conversationD:
  "in_conversation db c i = Some m \<Longrightarrow> m \<in> set (cd_messages db) \<and> m_ID m = i \<and> m_ConversationID m = c"
  by (auto simp: in_conversation_def find_Some_iff)

lemma in_conversation_Some:
  assumes "ids_ok db"
  shows "in_conversation db c i = Some m \<longleftrightarrow> m \<in> set (cd_messages db) \<and> m_ID m = i \<and> m_ConversationID m = c"
proof
  assume "in_conversation db c i = Some m"
  then show "m \<in> set (cd_messages db) \<and> m_ID m = i \<and> m_ConversationID m = c"
    by (auto simp: in_conversation_def find_Some_iff)
next
  assume m: "m \<in> set (cd_messages db) \<and> m_ID m = i \<and> m_ConversationID m = c"
  then obtain y where y: "in_conversation db c i = Some y"
    by (cases "in_conversation db c i") (auto simp: in_conversation_def find_None_iff)
  then have "y \<in> set (cd_messages db)" "m_ID y = i" by (auto simp: in_conversation_def find_Some_iff)
  then show "in_conversation db c i = Some m" using m y message_unique [OF assms] by metis
qed

lemma ancestors_up_Suc:
  "ancestors_up db c (Suc d) i = (case in_conversation db c i of None \<Rightarrow> []
     | Some m \<Rightarrow> m # (case m_ParentMessageID m of None \<Rightarrow> [] | Some p \<Rightarrow> ancestors_up db c d p))"
  by (simp add: in_conversation_def ancestors_up.simps(2))

lemmas [simp] = ancestors_up_Suc

section \<open>Chains\<close>

text \<open>A chain of messages, from a leaf upwards: each names the next as its parent.\<close>

fun linked :: "message list \<Rightarrow> bool" where
  "linked (m # n # ms) = (m_ParentMessageID m = Some (m_ID n) \<and> linked (n # ms))"
| "linked _ = True"

lemma ancestors_length: "length (ancestors_up db c d i) \<le> d"
  by (induction d arbitrary: i) (auto split: option.splits)

lemma ancestors_set: "m \<in> set (ancestors_up db c d i) \<Longrightarrow> m \<in> set (cd_messages db) \<and> m_ConversationID m = c"
proof (induction d arbitrary: i)
  case (Suc d)
  show ?case
  proof (cases "in_conversation db c i")
    case (Some n)
    then show ?thesis using Suc in_conversationD [OF Some] by (auto split: option.splits)
  qed (use Suc in simp)
qed simp

lemma ancestors_hd:
  "ancestors_up db c d i = m # ms \<Longrightarrow> m_ID m = i \<and> in_conversation db c i = Some m"
  using in_conversationD [of db c i] by (cases d; cases "in_conversation db c i") auto

lemma ancestors_linked: "linked (ancestors_up db c d i)"
proof (induction d arbitrary: i)
  case (Suc d)
  show ?case
  proof (cases "in_conversation db c i")
    case (Some m)
    show ?thesis
    proof (cases "m_ParentMessageID m")
      case (Some p)
      show ?thesis
      proof (cases "ancestors_up db c d p")
        case (Cons n ns)
        then have "m_ID n = p" by (simp add: ancestors_hd)
        then show ?thesis
          using Suc.IH [of p] Cons Some \<open>in_conversation db c i = Some m\<close> by simp
      qed (use Some \<open>in_conversation db c i = Some m\<close> in simp)
    qed (use Some in simp)
  qed simp
qed simp

text \<open>Reading on from the parent of the last row read.\<close>

definition read_on :: "(nat \<Rightarrow> message list) \<Rightarrow> message list \<Rightarrow> message list" where
  "read_on f ms = (if ms = [] then [] else case m_ParentMessageID (last ms) of None \<Rightarrow> [] | Some p \<Rightarrow> f p)"

lemma ancestors_add:
  "ancestors_up db c (Suc d + e) i = ancestors_up db c (Suc d) i @
     (if length (ancestors_up db c (Suc d) i) = Suc d
      then read_on (ancestors_up db c e) (ancestors_up db c (Suc d) i) else [])"
proof (induction d arbitrary: i)
  case 0
  show ?case by (auto simp: read_on_def split: option.splits)
next
  case (Suc d)
  show ?case
  proof (cases "in_conversation db c i")
    case None
    then show ?thesis by (simp add: read_on_def)
  next
    case (Some m)
    show ?thesis
    proof (cases "m_ParentMessageID m")
      case None
      then show ?thesis using Some by (simp add: read_on_def)
    next
      case p: (Some p)
      have l: "last (m # ancestors_up db c (Suc d) p) = last (ancestors_up db c (Suc d) p)"
        if "length (ancestors_up db c (Suc d) p) = Suc d" using that by (cases "ancestors_up db c (Suc d) p") auto
      have "ancestors_up db c (Suc (Suc d) + e) i = m # ancestors_up db c (Suc d + e) p"
        using Some p by (simp only: add_Suc ancestors_up_Suc option.case)
      moreover have "ancestors_up db c (Suc (Suc d)) i = m # ancestors_up db c (Suc d) p"
        using Some p by (simp only: ancestors_up_Suc option.case)
      ultimately show ?thesis using l Suc.IH [of p]
        by (cases "ancestors_up db c (Suc d) p") (simp_all add: read_on_def del: ancestors_up_Suc)
    qed
  qed
qed

section \<open>Branches of a well-formed tree\<close>

lemma parent_in_conversation:
  assumes "tree_ok db" "in_conversation db c i = Some m" "m_ParentMessageID m = Some p"
  obtains q where "in_conversation db c p = Some q" "p < i"
proof -
  have ok: "ids_ok db" using assms(1) by (simp add: tree_ok_def)
  then have m: "m \<in> set (cd_messages db)" "m_ID m = i" "m_ConversationID m = c"
    using assms(2) by (auto simp: in_conversation_Some)
  then have "parent_ok db m" using assms(1) by (auto simp: tree_ok_def links_ok_def)
  then obtain q where "q \<in> set (cd_messages db)" "m_ID q = p" "p < i" "m_ConversationID q = c"
    using assms(3) m by (auto simp: parent_ok_def)
  then show ?thesis using that [of q] ok by (simp add: in_conversation_Some)
qed

text \<open>With as much fuel as the identifier the whole branch is read, up to its root.\<close>

lemma ancestors_enough:
  assumes "tree_ok db" "i \<le> d" "i \<le> e"
  shows "ancestors_up db c d i = ancestors_up db c e i"
  using assms(2,3)
proof (induction i arbitrary: d e rule: less_induct)
  case (less i)
  show ?case
  proof (cases "in_conversation db c i")
    case None
    then show ?thesis by (cases d; cases e) auto
  next
    case (Some m)
    have "0 < i" using Some assms(1) message_id_range [of db m]
      by (auto simp: tree_ok_def links_ok_def in_conversation_Some)
    then obtain d' e' where de: "d = Suc d'" "e = Suc e'" using less.prems by (cases d; cases e) auto
    show ?thesis
    proof (cases "m_ParentMessageID m")
      case (Some p)
      then have "p < i" using parent_in_conversation [OF assms(1) \<open>in_conversation db c i = Some m\<close>] by metis
      then show ?thesis using less.IH [of p d' e'] less.prems de Some \<open>in_conversation db c i = Some m\<close> by simp
    qed (use Some de in simp)
  qed
qed

definition branch_up :: "chat_db \<Rightarrow> nat \<Rightarrow> nat \<Rightarrow> message list" where
  "branch_up db c i = ancestors_up db c i i"

lemma branch_up_step:
  assumes "tree_ok db"
  shows "branch_up db c i = (case in_conversation db c i of None \<Rightarrow> []
     | Some m \<Rightarrow> m # (case m_ParentMessageID m of None \<Rightarrow> [] | Some p \<Rightarrow> branch_up db c p))"
proof (cases "in_conversation db c i")
  case None
  then show ?thesis by (cases i) (simp_all add: branch_up_def)
next
  case (Some m)
  have "0 < i" using Some assms message_id_range [of db m]
    by (auto simp: tree_ok_def links_ok_def in_conversation_Some)
  then obtain k where k: "i = Suc k" by (cases i) auto
  show ?thesis
  proof (cases "m_ParentMessageID m")
    case (Some p)
    then have "p < i" using parent_in_conversation [OF assms \<open>in_conversation db c i = Some m\<close>] by metis
    then have "ancestors_up db c k p = ancestors_up db c p p"
      using ancestors_enough [OF assms] k by simp
    then show ?thesis using Some \<open>in_conversation db c i = Some m\<close> k by (simp add: branch_up_def)
  qed (use Some k in \<open>simp add: branch_up_def\<close>)
qed

lemma branch_up_ancestors: "tree_ok db \<Longrightarrow> i \<le> d \<Longrightarrow> ancestors_up db c d i = branch_up db c i"
  unfolding branch_up_def by (rule ancestors_enough) auto

lemma branch_linked: "linked (branch_up db c i)"
  by (simp add: branch_up_def ancestors_linked)

lemma branch_set: "m \<in> set (branch_up db c i) \<Longrightarrow> m \<in> set (cd_messages db) \<and> m_ConversationID m = c"
  unfolding branch_up_def by (rule ancestors_set)

lemma branch_root:
  assumes "tree_ok db" "branch_up db c i \<noteq> []"
  shows "m_ParentMessageID (last (branch_up db c i)) = None"
  using assms(2)
proof (induction i rule: less_induct)
  case (less i)
  then obtain m where m: "in_conversation db c i = Some m"
    using branch_up_step [OF assms(1), of c i] by (auto split: option.splits)
  show ?case
  proof (cases "m_ParentMessageID m")
    case None
    then show ?thesis using m branch_up_step [OF assms(1), of c i] by simp
  next
    case (Some p)
    obtain q where q: "in_conversation db c p = Some q" "p < i"
      using parent_in_conversation [OF assms(1) m Some] .
    then have "branch_up db c p \<noteq> []" using branch_up_step [OF assms(1), of c p] by simp
    then show ?thesis using less.IH [OF q(2)] m Some branch_up_step [OF assms(1), of c i] by simp
  qed
qed

lemma branch_decreasing:
  assumes "tree_ok db"
  shows "sorted_wrt (\<lambda>m n. m_ID n < m_ID m) (branch_up db c i) \<and> (\<forall>m \<in> set (branch_up db c i). m_ID m \<le> i)"
proof (induction i rule: less_induct)
  case (less i)
  show ?case
  proof (cases "in_conversation db c i")
    case None
    then show ?thesis using branch_up_step [OF assms, of c i] by simp
  next
    case (Some m)
    then have i: "m_ID m = i" using assms by (simp add: tree_ok_def in_conversation_Some)
    show ?thesis
    proof (cases "m_ParentMessageID m")
      case None
      then show ?thesis using Some i branch_up_step [OF assms, of c i] by simp
    next
      case p: (Some p)
      obtain q where q: "in_conversation db c p = Some q" "p < i"
        using parent_in_conversation [OF assms Some p] .
      show ?thesis using less.IH [OF q(2)] Some i p q(2) branch_up_step [OF assms, of c i] by fastforce
    qed
  qed
qed

section \<open>Reading is per message\<close>

definition hydrated :: "json_lib \<Rightarrow> chat_db \<Rightarrow> message \<Rightarrow> message" where
  "hydrated jl db m = m\<lparr>
     m_ParentPublicID := ref_public_id (\<lambda>i. map_option m_PublicID (find_message db i)) (m_ParentMessageID m) (m_ParentPublicID m),
     m_SourcePublicID := ref_public_id (\<lambda>i. map_option m_PublicID (find_message db i)) (m_SourceMessageID m) (m_SourcePublicID m),
     m_Attachments := map (snapshot_of jl db)
       (filter (\<lambda>a. at_MessageID a = m_ID m \<and> at_Status a \<noteq> ''deleted'') (cd_attachments db))\<rparr>"

lemma public_ids_rows:
  assumes "ids_ok db" "set items \<subseteq> set (cd_messages db)"
  shows "public_ids db items = (\<lambda>i. map_option m_PublicID (find_message db i))"
proof
  fix i
  show "public_ids db items i = map_option m_PublicID (find_message db i)"
  proof (cases "map_of (rev (map (\<lambda>m. (m_ID m, m_PublicID m)) items)) i")
    case (Some s)
    then have "(i, s) \<in> set (map (\<lambda>m. (m_ID m, m_PublicID m)) items)" by (auto dest: map_of_SomeD)
    then obtain m where "m \<in> set items" "m_ID m = i" "m_PublicID m = s" by auto
    then have "find_message db i = Some m" using assms by (auto simp: find_message_Some)
    then show ?thesis using Some \<open>m_PublicID m = s\<close> by (simp add: public_ids_def)
  qed (simp add: public_ids_def)
qed

lemma hydrate_rows:
  assumes "ids_ok db" "set items \<subseteq> set (cd_messages db)"
  shows "hydrate jl db items = map (hydrated jl db) items"
proof -
  have pos: "m_ID m \<noteq> 0" if "m \<in> set items" for m
    using message_id_range [OF assms(1)] assms(2) that by fastforce
  define refs where "refs = (\<lambda>i. map_option m_PublicID (find_message db i))"
  define up :: "message \<Rightarrow> message" where "up m = m\<lparr>m_ParentPublicID := ref_public_id refs (m_ParentMessageID m) (m_ParentPublicID m),
      m_SourcePublicID := ref_public_id refs (m_SourceMessageID m) (m_SourcePublicID m)\<rparr>" for m
  have r: "hydrate_message_refs db items = map up items"
    by (simp add: hydrate_message_refs_def public_ids_rows [OF assms] up_def [abs_def] refs_def Let_def)
  define rows where "rows = filter (\<lambda>a. at_MessageID a \<in> set (map m_ID (filter (\<lambda>m. m_ID m \<noteq> 0) (map up items))) \<and>
      at_Status a \<noteq> ''deleted'') (cd_attachments db)"
  have "hydrate jl db items = map (\<lambda>m. m\<lparr>m_Attachments := map (snapshot_of jl db)
      (filter (\<lambda>a. at_MessageID a = m_ID m) rows)\<rparr>) (map up items)"
    by (simp only: hydrate_def r hydrate_message_attachments_def Let_def rows_def)
  also have "\<dots> = map (hydrated jl db) items"
  proof -
    have "filter (\<lambda>a. at_MessageID a = m_ID (up m)) rows =
        filter (\<lambda>a. at_MessageID a = m_ID m \<and> at_Status a \<noteq> ''deleted'') (cd_attachments db)"
      if "m \<in> set items" for m
    proof -
      have "m_ID (up m) = m_ID m" by (simp add: up_def)
      moreover have "m_ID m \<in> set (map m_ID (filter (\<lambda>m. m_ID m \<noteq> 0) (map up items)))"
        using that pos [OF that] by (auto simp: up_def image_iff intro!: bexI [of _ m])
      ultimately show ?thesis unfolding rows_def filter_filter by (intro filter_cong refl) auto
    qed
    then show ?thesis by (simp add: hydrated_def up_def refs_def)
  qed
  finally show ?thesis .
qed

lemma hydrated_simps [simp]:
  "m_ID (hydrated jl db m) = m_ID m" "m_ParentMessageID (hydrated jl db m) = m_ParentMessageID m"
  "m_ConversationID (hydrated jl db m) = m_ConversationID m" "m_UserID (hydrated jl db m) = m_UserID m"
  "m_PublicID (hydrated jl db m) = m_PublicID m" "m_Role (hydrated jl db m) = m_Role m"
  "m_Status (hydrated jl db m) = m_Status m" "m_SourceMessageID (hydrated jl db m) = m_SourceMessageID m"
  "m_BranchReason (hydrated jl db m) = m_BranchReason m" "m_Content (hydrated jl db m) = m_Content m"
  by (simp_all add: hydrated_def)

lemma first_message_Inr:
  assumes "ids_ok db"
  shows "first_message jl db p = Inr x \<longleftrightarrow> (\<exists>m. find p (cd_messages db) = Some m \<and> x = hydrated jl db m)"
proof (cases "find p (cd_messages db)")
  case (Some m)
  then have "hydrate jl db [m] = [hydrated jl db m]"
    using hydrate_rows [OF assms, of "[m]"] by (force simp: find_Some_iff)
  then show ?thesis using Some by (auto simp: first_message_def)
qed (simp add: first_message_def)

lemma ancestors_rows: "set (ancestors_up db c d i) \<subseteq> set (cd_messages db)"
  using ancestors_set by fast

lemma list_message_ancestors_rows:
  assumes "ids_ok db" "0 < n" "n \<le> 2000"
  shows "list_message_ancestors jl db c i (int n) = map (hydrated jl db) (rev (ancestors_up db c n i))"
proof -
  have "hydrate jl db (rev (ancestors_up db c n i)) = map (hydrated jl db) (rev (ancestors_up db c n i))"
    by (rule hydrate_rows [OF assms(1)]) (simp add: ancestors_rows)
  then show ?thesis using assms(2,3)
    by (simp add: list_message_ancestors_def max_ancestor_query_depth_def Let_def del: ancestors_up_Suc)
qed

section \<open>Keeping the tree\<close>

text \<open>
  An update that keeps the place of every message in the tree: identifiers, links, conversation
  and owner.
\<close>

definition same_place :: "message \<Rightarrow> message \<Rightarrow> bool" where
  "same_place m n \<longleftrightarrow> m_ID n = m_ID m \<and> m_ParentMessageID n = m_ParentMessageID m \<and>
     m_ConversationID n = m_ConversationID m \<and> m_UserID n = m_UserID m \<and> m_PublicID n = m_PublicID m \<and>
     m_Role n = m_Role m \<and> m_BranchReason n = m_BranchReason m \<and> m_SourceMessageID n = m_SourceMessageID m"

lemma same_place_refl [simp]: "same_place m m"
  by (simp add: same_place_def)

lemma same_place_trans: "same_place a b \<Longrightarrow> same_place b c \<Longrightarrow> same_place a c"
  by (simp add: same_place_def)

definition same_conversation :: "conversation \<Rightarrow> conversation \<Rightarrow> bool" where
  "same_conversation c d \<longleftrightarrow> c_ID d = c_ID c \<and> c_UserID d = c_UserID c"

text \<open>
  How a database grows: messages and conversations keep their places, new ones come behind.
\<close>

definition tree_grows :: "chat_db \<Rightarrow> chat_db \<Rightarrow> bool" where
  "tree_grows db db' \<longleftrightarrow>
     list_all2 same_place (cd_messages db) (take (length (cd_messages db)) (cd_messages db')) \<and>
     list_all2 same_conversation (cd_conversations db) (take (length (cd_conversations db)) (cd_conversations db'))"

lemma tree_grows_refl: "tree_grows db db"
  by (simp add: tree_grows_def list_all2_refl same_conversation_def)

lemma list_all2_take_trans:
  assumes "\<And>a b c. R a b \<Longrightarrow> R b c \<Longrightarrow> R a c" "list_all2 R xs (take (length xs) ys)" "list_all2 R ys (take (length ys) zs)"
  shows "list_all2 R xs (take (length xs) zs)"
proof -
  have l: "length xs \<le> length ys" using list_all2_lengthD [OF assms(2)] by simp
  have l': "length ys \<le> length zs" using list_all2_lengthD [OF assms(3)] by simp
  have "R (xs ! i) (zs ! i)" if "i < length xs" for i
    using that l list_all2_nthD [OF assms(2), of i] list_all2_nthD [OF assms(3), of i] assms(1) [of "xs ! i" "ys ! i" "zs ! i"]
    by simp
  then show ?thesis using l l' by (simp add: list_all2_conv_all_nth)
qed

lemma tree_grows_trans: "tree_grows a b \<Longrightarrow> tree_grows b c \<Longrightarrow> tree_grows a c"
  unfolding tree_grows_def
  by (auto elim!: list_all2_take_trans [rotated 1] simp: same_conversation_def intro: same_place_trans)

lemma list_all2_map_same: "(\<And>x. R x (g x)) \<Longrightarrow> list_all2 R xs (map g xs)"
  by (simp add: list_all2_conv_all_nth)

lemma map_grows:
  assumes "\<And>m. same_place m (g m)" "\<And>c. same_conversation c (h c)"
    "cd_messages db' = map g (cd_messages db)" "cd_conversations db' = map h (cd_conversations db)"
  shows "tree_grows db db'"
  using assms by (simp add: tree_grows_def list_all2_map_same)

lemma map_keeps_links:
  assumes g: "\<And>m. same_place m (g m)" and h: "\<And>c. same_conversation c (h c)"
    and db': "cd_messages db' = map g (cd_messages db)" "cd_conversations db' = map h (cd_conversations db)"
    and ok: "links_ok db"
  shows "links_ok db'"
proof -
  have ids: "map m_ID (cd_messages db') = map m_ID (cd_messages db)"
      "map m_PublicID (cd_messages db') = map m_PublicID (cd_messages db)"
      "map c_ID (cd_conversations db') = map c_ID (cd_conversations db)"
    using g h by (simp_all add: db' same_place_def same_conversation_def)
  have i: "ids_ok db'" using ok ids unfolding links_ok_def ids_ok_def by (simp only: length_map db')
  have place: "m_ID (g m) = m_ID m" "m_ConversationID (g m) = m_ConversationID m" "m_UserID (g m) = m_UserID m"
      "m_ParentMessageID (g m) = m_ParentMessageID m" "c_ID (h c) = c_ID c" "c_UserID (h c) = c_UserID c" for m c
    using g [of m] h [of c] by (simp_all add: same_place_def same_conversation_def)
  have "parent_ok db' (g m) \<and> owner_ok db' (g m)" if "m \<in> set (cd_messages db)" for m
    using ok that unfolding links_ok_def parent_ok_def owner_ok_def db'
    by (auto simp: place split: option.splits)
  then show ?thesis using i by (auto simp: links_ok_def db')
qed

lemma map_keeps_counts:
  assumes g: "\<And>m. same_place m (g m)" and h: "\<And>c. same_conversation c (h c)" "\<And>c. c_MessageCount (h c) = c_MessageCount c"
    and db': "cd_messages db' = map g (cd_messages db)" "cd_conversations db' = map h (cd_conversations db)"
    and ok: "counts_off i k db"
  shows "counts_off i k db'"
proof -
  have "m_ConversationID (g m) = m_ConversationID m" for m using g [of m] by (simp add: same_place_def)
  then have "length (messages_of db' c) = length (messages_of db c)" for c
    by (simp add: messages_of_def db' filter_map o_def)
  moreover have "c_ID (h c) = c_ID c" for c using h(1) [of c] by (simp add: same_conversation_def)
  ultimately show ?thesis using ok by (simp add: counts_off_def db' h(2))
qed

lemma map_keeps_tree:
  assumes "\<And>m. same_place m (g m)" "\<And>c. same_conversation c (h c)" "\<And>c. c_MessageCount (h c) = c_MessageCount c"
    "cd_messages db' = map g (cd_messages db)" "cd_conversations db' = map h (cd_conversations db)" "tree_ok db"
  shows "tree_ok db' \<and> tree_grows db db'"
  using assms map_keeps_links [of g h db' db] map_keeps_counts [of g h db' db 0 0] map_grows [of g h db' db]
  by (simp add: tree_ok_def)

lemma update_messages_tree:
  assumes "\<And>m. same_place m (f m)" "tree_ok db"
  shows "tree_ok (update_messages p f db) \<and> tree_grows db (update_messages p f db)"
  by (rule map_keeps_tree [where g = "\<lambda>m. if p m then f m else m" and h = "\<lambda>c. c"])
     (use assms in \<open>simp_all add: update_messages_def same_conversation_def\<close>)

lemma update_conversation_tree:
  assumes "\<And>c. same_conversation c (f c)" "\<And>c. c_MessageCount (f c) = c_MessageCount c" "tree_ok db"
  shows "tree_ok (update_conversation i f db) \<and> tree_grows db (update_conversation i f db)"
  by (rule map_keeps_tree [where g = "\<lambda>m. m" and h = "\<lambda>c. if c_ID c = i \<and> c_DeletedAt c = None then f c else c"])
     (use assms in \<open>simp_all add: update_conversation_def same_conversation_def\<close>)

lemma tree_tables:
  assumes "cd_messages db' = cd_messages db" "cd_conversations db' = cd_conversations db"
  shows "links_ok db' = links_ok db" "counts_off i k db' = counts_off i k db" "tree_ok db' = tree_ok db"
proof -
  show l: "links_ok db' = links_ok db" unfolding links_ok_def ids_ok_def parent_ok_def owner_ok_def assms ..
  show c: "counts_off i k db' = counts_off i k db" for i k unfolding counts_off_def messages_of_def assms ..
  show "tree_ok db' = tree_ok db" unfolding tree_ok_def l c ..
qed

lemma grows_tables:
  "cd_messages db' = cd_messages db \<Longrightarrow> cd_conversations db' = cd_conversations db \<Longrightarrow> tree_grows db db'"
  by (simp add: tree_grows_def list_all2_refl same_conversation_def)

lemma add_attachments_tables [simp]:
  "cd_messages (add_attachments as db) = cd_messages db"
  "cd_conversations (add_attachments as db) = cd_conversations db"
  "cd_files (add_attachments as db) = cd_files db" "cd_events (add_attachments as db) = cd_events db"
  by (induction as arbitrary: db) simp_all

section \<open>Adding a message\<close>

definition fresh_row :: "message \<Rightarrow> chat_db \<Rightarrow> message" where
  "fresh_row item db = (message_row item)\<lparr>m_ID := Suc (length (cd_messages db))\<rparr>"

lemma create_message_Inr:
  "create_message item db = Inr (m, db') \<longleftrightarrow>
     m_PublicID item \<notin> set (map m_PublicID (cd_messages db)) \<and>
     m = (fresh_row item db)\<lparr>m_Attachments := m_Attachments item\<rparr> \<and>
     db' = db\<lparr>cd_messages := cd_messages db @ [fresh_row item db]\<rparr>"
  by (auto simp: create_message_def fresh_row_def Let_def)

lemma fresh_row_simps [simp]:
  "m_ID (fresh_row item db) = Suc (length (cd_messages db))"
  "m_ParentMessageID (fresh_row item db) = m_ParentMessageID item"
  "m_ConversationID (fresh_row item db) = m_ConversationID item" "m_UserID (fresh_row item db) = m_UserID item"
  "m_PublicID (fresh_row item db) = m_PublicID item" "m_Role (fresh_row item db) = m_Role item"
  "m_Status (fresh_row item db) = m_Status item" "m_Content (fresh_row item db) = m_Content item"
  by (simp_all add: fresh_row_def message_row_def)

text \<open>The parent a new message may have, and its owner.\<close>

definition placeable :: "chat_db \<Rightarrow> message \<Rightarrow> bool" where
  "placeable db item \<longleftrightarrow> owner_ok db item \<and>
     (case m_ParentMessageID item of None \<Rightarrow> True
      | Some p \<Rightarrow> \<exists>q \<in> set (cd_messages db). m_ID q = p \<and> m_ConversationID q = m_ConversationID item)"

lemma create_message_links:
  assumes "links_ok db" "placeable db item" "create_message item db = Inr (m, db')"
  shows "links_ok db'" "tree_grows db db'"
proof -
  have c: "m_PublicID item \<notin> set (map m_PublicID (cd_messages db))"
    "db' = db\<lparr>cd_messages := cd_messages db @ [fresh_row item db]\<rparr>"
    using assms(3) by (simp_all add: create_message_Inr)
  have ids: "ids_ok db" using assms(1) by (simp add: links_ok_def)
  then have ids': "ids_ok db'" using c by (simp add: ids_ok_def)
  have keep: "parent_ok db' x \<and> owner_ok db' x" if "x \<in> set (cd_messages db)" for x
    using assms(1) that by (auto simp: links_ok_def parent_ok_def owner_ok_def c(2) split: option.splits)
  have "parent_ok db' (fresh_row item db)"
  proof (cases "m_ParentMessageID item")
    case (Some p)
    then obtain q where q: "q \<in> set (cd_messages db)" "m_ID q = p" "m_ConversationID q = m_ConversationID item"
      using assms(2) by (auto simp: placeable_def)
    then have "p < Suc (length (cd_messages db))" using message_id_range [OF ids q(1)] by simp
    then show ?thesis using q Some by (auto simp: parent_ok_def c(2))
  qed (simp add: parent_ok_def)
  moreover have "owner_ok db' (fresh_row item db)" using assms(2) by (simp add: placeable_def owner_ok_def c(2))
  ultimately show "links_ok db'" using keep ids' by (auto simp: links_ok_def c(2))
  show "tree_grows db db'"
    using c(2) by (simp add: tree_grows_def list_all2_refl same_conversation_def)
qed

lemma create_message_counts:
  assumes "create_message item db = Inr (m, db')" "counts_off (m_ConversationID item) k db"
  shows "counts_off (m_ConversationID item) (k + 1) db'"
  using assms by (auto simp: create_message_Inr counts_off_def messages_of_def)

lemma create_message_fields:
  assumes "create_message item db = Inr (m, db')"
  shows "m_ID m = Suc (length (cd_messages db))" "m_ConversationID m = m_ConversationID item"
    "m_UserID m = m_UserID item" "m_PublicID m = m_PublicID item" "m_Role m = m_Role item"
    "m_ParentMessageID m = m_ParentMessageID item" "m_Status m = m_Status item" "m_Content m = m_Content item"
    "cd_conversations db' = cd_conversations db" "cd_attachments db' = cd_attachments db" "cd_files db' = cd_files db"
    "cd_messages db' = cd_messages db @ [fresh_row item db]"
  using assms by (simp_all add: create_message_Inr)

lemma bump_tree:
  assumes "bump_message_count i k db = Inr (u, db')" "links_ok db" "counts_off i k db"
  shows "tree_ok db'" "tree_grows db db'"
proof -
  define h where "h c = (if c_ID c = i \<and> c_DeletedAt c = None then c\<lparr>c_MessageCount := c_MessageCount c + k\<rparr> else c)" for c :: conversation
  have live: "live_conversation db i" and db': "db' = db\<lparr>cd_conversations := map h (cd_conversations db)\<rparr>"
    using assms(1) by (auto simp: bump_message_count_def update_conversation_def h_def [abs_def] split: if_splits)
  have same: "same_conversation c (h c)" for c by (simp add: h_def same_conversation_def)
  have "links_ok db'"
    by (rule map_keeps_links [where g = "\<lambda>m. m" and h = h]) (use same assms(2) in \<open>simp_all add: db'\<close>)
  moreover have "counts_off 0 0 db'"
  proof -
    obtain l where l: "l \<in> set (cd_conversations db)" "c_ID l = i" "c_DeletedAt l = None"
      using live by (auto simp: live_conversation_def list_ex_iff)
    have "c_DeletedAt c = None" if "c \<in> set (cd_conversations db)" "c_ID c = i" for c
      using conversation_unique [of db c l] l that assms(2) by (simp add: links_ok_def)
    then show ?thesis using assms(3) by (auto simp: counts_off_def db' h_def messages_of_def)
  qed
  ultimately show "tree_ok db'" by (simp add: tree_ok_def)
  show "tree_grows db db'"
    by (rule map_grows [where g = "\<lambda>m. m" and h = h]) (use same in \<open>simp_all add: db'\<close>)
qed

section \<open>The transactions that create messages\<close>

lemma branch_message_tree:
  assumes "branch_message_body item db = Inr (a, db')" "tree_ok db" "placeable db item"
  shows "tree_ok db'" "tree_grows db db'"
    "cd_messages db' = cd_messages db @ [fresh_row item db]" "m_ID a = Suc (length (cd_messages db))"
proof -
  obtain db1 u where c: "create_message item db = Inr (a, db1)" "bump_message_count (m_ConversationID a) 1 db1 = Inr (u, db')"
    using assms(1) by (auto simp: branch_message_body_def split: sum.splits prod.splits)
  have f: "m_ConversationID a = m_ConversationID item" "m_ID a = Suc (length (cd_messages db))"
    "cd_messages db1 = cd_messages db @ [fresh_row item db]" using create_message_fields [OF c(1)] by simp_all
  have l: "links_ok db1" "tree_grows db db1"
    using create_message_links [OF _ assms(3) c(1)] assms(2) by (simp_all add: tree_ok_def)
  have "counts_off (m_ConversationID item) 1 db1"
    using create_message_counts [OF c(1), of 0] assms(2) counts_off_zero [of "m_ConversationID item" db]
    by (simp add: tree_ok_def)
  then have b: "tree_ok db'" "tree_grows db1 db'" using bump_tree [OF c(2) l(1)] f by simp_all
  then show "tree_ok db'" "tree_grows db db'" by (simp_all add: tree_grows_trans [OF l(2)])
  show "cd_messages db' = cd_messages db @ [fresh_row item db]" "m_ID a = Suc (length (cd_messages db))"
    using c(2) f by (auto simp: bump_message_count_def update_conversation_def split: if_splits)
qed

lemma attach_locked_Inr:
  "attach_locked u items rows db = Inr (x, db') \<Longrightarrow> db' = add_attachments (if items = [] then [] else rows) db"
  by (auto simp: attach_locked_def split: if_splits sum.splits)

lemma owner_ok_grows:
  "cd_conversations db' = cd_conversations db \<Longrightarrow> m_ConversationID n = m_ConversationID m \<Longrightarrow> m_UserID n = m_UserID m \<Longrightarrow>
   owner_ok db m \<Longrightarrow> owner_ok db' n"
  by (simp add: owner_ok_def)

lemma message_pair_steps:
  assumes "message_pair_body userMessage assistantMessage atts db = Inr ((u, a), db')"
  obtains db1 db2 db3 x where "create_message userMessage db = Inr (u, db1)"
    "cd_messages db2 = cd_messages db1" "cd_conversations db2 = cd_conversations db1"
    "create_message (assistantMessage\<lparr>m_ParentMessageID := Some (m_ID u)\<rparr>) db2 = Inr (a, db3)"
    "bump_message_count (m_ConversationID u) 2 db3 = Inr (x, db')"
proof -
  obtain db1 where 1: "create_message userMessage db = Inr (u, db1)"
    using assms by (auto simp: message_pair_body_def split: sum.splits prod.splits)
  obtain x2 db2 where 2: "attach_locked (m_UserID u) atts (map (\<lambda>a. a\<lparr>at_ConversationID := m_ConversationID u,
      at_MessageID := m_ID u, at_UserID := m_UserID u\<rparr>) atts) db1 = Inr (x2, db2)"
    using assms 1 by (auto simp: message_pair_body_def split: sum.splits prod.splits)
  obtain a' db3 where 3: "create_message (assistantMessage\<lparr>m_ParentMessageID := Some (m_ID u)\<rparr>) db2 = Inr (a', db3)"
    using assms 1 2 by (auto simp: message_pair_body_def split: sum.splits prod.splits)
  obtain x where 4: "bump_message_count (m_ConversationID u) 2 db3 = Inr (x, db')" "a' = a"
    using assms 1 2 3 by (auto simp: message_pair_body_def split: sum.splits prod.splits)
  show ?thesis using that [OF 1 _ _ 3 [unfolded 4(2)] 4(1)] attach_locked_Inr [OF 2] by simp
qed

lemma message_pair_tree:
  assumes "message_pair_body userMessage assistantMessage atts db = Inr ((u, a), db')"
    and ok: "tree_ok db" and place: "placeable db userMessage"
    and same: "m_ConversationID assistantMessage = m_ConversationID userMessage"
      "m_UserID assistantMessage = m_UserID userMessage"
  shows "tree_ok db'" "tree_grows db db'" "m_ID u = Suc (length (cd_messages db))" "m_ID a = Suc (m_ID u)"
    "m_ParentMessageID u = m_ParentMessageID userMessage" "m_ParentMessageID a = Some (m_ID u)"
proof -
  obtain db1 db2 db3 x where 1: "create_message userMessage db = Inr (u, db1)"
    and 2: "cd_messages db2 = cd_messages db1" "cd_conversations db2 = cd_conversations db1"
    and 3: "create_message (assistantMessage\<lparr>m_ParentMessageID := Some (m_ID u)\<rparr>) db2 = Inr (a, db3)"
    and 4: "bump_message_count (m_ConversationID u) 2 db3 = Inr (x, db')"
    using message_pair_steps [OF assms(1)] .
  let ?c = "m_ConversationID userMessage"
  note f1 = create_message_fields [OF 1] and f3 = create_message_fields [OF 3]
  have l1: "links_ok db1" "tree_grows db db1"
    using create_message_links [OF _ place 1] ok by (simp_all add: tree_ok_def)
  have c1: "counts_off ?c 1 db1"
    using create_message_counts [OF 1, of 0] ok counts_off_zero [of ?c db] by (simp add: tree_ok_def)
  have l2: "links_ok db2" "counts_off ?c 1 db2" "tree_grows db1 db2"
    using l1 c1 tree_tables [OF 2] grows_tables [OF 2] by simp_all
  have p: "placeable db2 (assistantMessage\<lparr>m_ParentMessageID := Some (m_ID u)\<rparr>)"
  proof -
    have "owner_ok db2 (assistantMessage\<lparr>m_ParentMessageID := Some (m_ID u)\<rparr>)"
      using place owner_ok_grows [of db2 db _ userMessage] f1(9) 2(2) same by (simp add: placeable_def)
    then show ?thesis using f1 2(1) same by (simp add: placeable_def)
  qed
  have l3: "links_ok db3" "tree_grows db2 db3" using create_message_links [OF l2(1) p 3] by simp_all
  have c3: "counts_off ?c 2 db3"
    using create_message_counts [OF 3, of 1] l2(2) same by simp
  have b: "tree_ok db'" "tree_grows db3 db'" using bump_tree [OF 4 l3(1)] c3 f1(2) by simp_all
  then show "tree_ok db'" by simp
  show "tree_grows db db'"
    by (rule tree_grows_trans [OF l1(2) tree_grows_trans [OF l2(3) tree_grows_trans [OF l3(2) b(2)]]])
  show "m_ID u = Suc (length (cd_messages db))" "m_ID a = Suc (m_ID u)"
    "m_ParentMessageID u = m_ParentMessageID userMessage" "m_ParentMessageID a = Some (m_ID u)"
    using f1 f3 2(1) by simp_all
qed

section \<open>Branches never change\<close>

lemma grows_nth:
  assumes "tree_grows db db'" "i < length (cd_messages db)"
  shows "i < length (cd_messages db') \<and> same_place (cd_messages db ! i) (cd_messages db' ! i)"
proof -
  have l: "list_all2 same_place (cd_messages db) (take (length (cd_messages db)) (cd_messages db'))"
    using assms(1) by (simp add: tree_grows_def)
  have "length (cd_messages db) \<le> length (cd_messages db')" using list_all2_lengthD [OF l] by simp
  then show ?thesis using list_all2_nthD [OF l assms(2)] assms(2) by simp
qed

lemma grows_message:
  assumes "tree_grows db db'" "tree_ok db'" "in_conversation db c i = Some m"
  obtains m' where "in_conversation db' c i = Some m'" "same_place m m'"
proof -
  have m: "m \<in> set (cd_messages db)" "m_ID m = i" "m_ConversationID m = c" using in_conversationD [OF assms(3)] by auto
  obtain k where k: "k < length (cd_messages db)" "cd_messages db ! k = m" using m(1) by (auto simp: in_set_conv_nth)
  have g: "k < length (cd_messages db')" "same_place m (cd_messages db' ! k)" using grows_nth [OF assms(1) k(1)] k(2) by auto
  then have "in_conversation db' c i = Some (cd_messages db' ! k)"
    using m assms(2) by (simp add: in_conversation_Some same_place_def)
  then show ?thesis using that g(2) by blast
qed

text \<open>However the database grows, a branch keeps its messages, each in its place.\<close>

lemma branch_grows:
  assumes "tree_grows db db'" "tree_ok db" "tree_ok db'" "in_conversation db c i = Some m"
  shows "list_all2 same_place (branch_up db c i) (branch_up db' c i)"
  using assms(4)
proof (induction i arbitrary: m rule: less_induct)
  case (less i)
  obtain m' where m': "in_conversation db' c i = Some m'" "same_place m m'"
    using grows_message [OF assms(1,3) less.prems] .
  show ?case
  proof (cases "m_ParentMessageID m")
    case None
    then have "m_ParentMessageID m' = None" using m'(2) by (simp add: same_place_def)
    then show ?thesis using None less.prems m' branch_up_step [OF assms(2), of c i] branch_up_step [OF assms(3), of c i]
      by simp
  next
    case (Some p)
    then have p': "m_ParentMessageID m' = Some p" using m'(2) by (simp add: same_place_def)
    obtain q where q: "in_conversation db c p = Some q" "p < i"
      using parent_in_conversation [OF assms(2) less.prems Some] .
    then show ?thesis
      using less.IH [OF q(2) q(1)] Some p' less.prems m' branch_up_step [OF assms(2), of c i] branch_up_step [OF assms(3), of c i]
      by simp
  qed
qed

end
