(* ===== verification/Model_Caps.thy ===== *)
theory Model_Caps
  imports Go_Text
begin

text \<open>
  The limits of a model (\<^verbatim>\<open>domain/channel/model_caps.go\<close>): a catalogue by model family, overridden by
  the configured capabilities, and the input budget and compaction threshold that follow from them.
  Decoding the capabilities with \<^verbatim>\<open>encoding/json\<close> is the parameter \<open>decode\<close>, which yields the members of
  the object: numbers as their literal text, strings, anything else.
\<close>

datatype json_value = JNumber string | JString string | JOther

type_synonym json_decode = "string \<Rightarrow> (string \<rightharpoonup> json_value) option"

record model_caps =
  mc_ContextWindow :: int
  mc_MaxOutputTokens :: int

datatype caps_source = CapsCapabilities | CapsCatalog | CapsFallback

section \<open>The catalogue\<close>

definition model_caps_catalog :: "(string list \<times> model_caps) list" where
  "model_caps_catalog =
    [([''claude-sonnet-3.7'', ''claude-3.7''], \<lparr>mc_ContextWindow = 200000, mc_MaxOutputTokens = 16000\<rparr>),
     ([''claude-sonnet-3.5'', ''claude-haiku-3.5'', ''claude-3.5''], \<lparr>mc_ContextWindow = 200000, mc_MaxOutputTokens = 8192\<rparr>),
     ([''gpt-4.1''], \<lparr>mc_ContextWindow = 1047576, mc_MaxOutputTokens = 32768\<rparr>),
     ([''gpt-4.5''], \<lparr>mc_ContextWindow = 128000, mc_MaxOutputTokens = 16384\<rparr>),
     ([''gpt-4o''], \<lparr>mc_ContextWindow = 128000, mc_MaxOutputTokens = 16384\<rparr>),
     ([''o1'', ''o3'', ''o4''], \<lparr>mc_ContextWindow = 200000, mc_MaxOutputTokens = 100000\<rparr>),
     ([''gpt-3.5''], \<lparr>mc_ContextWindow = 16385, mc_MaxOutputTokens = 4096\<rparr>),
     ([''gemini-2.0'', ''gemini-2.5''], \<lparr>mc_ContextWindow = 1000000, mc_MaxOutputTokens = 8192\<rparr>),
     ([''gemini-1.5''], \<lparr>mc_ContextWindow = 1000000, mc_MaxOutputTokens = 8192\<rparr>),
     ([''grok-3''], \<lparr>mc_ContextWindow = 131072, mc_MaxOutputTokens = 16384\<rparr>)]"

text \<open>
  The signature of an identifier: its runs of letters and of digits. Separators end a run of digits
  but not one of letters. The state is the result so far and the two open runs.
\<close>

definition flush :: "string \<Rightarrow> string list \<Rightarrow> string list" where
  "flush run result = (if run = [] then result else result @ [run])"

fun signature_step :: "string list \<times> string \<times> string \<Rightarrow> char \<Rightarrow> string list \<times> string \<times> string" where
  "signature_step (result, letters, digits) ch =
     (let n = of_char ch :: nat in
      if 97 \<le> n \<and> n \<le> 122 then (flush digits result, letters @ [ch], [])
      else if 48 \<le> n \<and> n \<le> 57 then (flush letters result, [], digits @ [ch])
      else (flush digits result, letters, []))"

definition model_identifier_signature :: "string \<Rightarrow> string list" where
  "model_identifier_signature value0 =
     (let v = to_lower (trim_space value0) in
      if v = [] then []
      else let (result, letters, digits) = foldl signature_step ([], [], []) v
        in flush digits (flush letters result))"

text \<open>\<^verbatim>\<open>strings.FieldsFunc\<close> at slashes and colons.\<close>

fun segments_from :: "string \<Rightarrow> string \<Rightarrow> string list" where
  "segments_from run [] = flush run []"
| "segments_from run (ch # cs) =
     (if ch = CHR ''/'' \<or> ch = CHR '':'' then flush run [] @ segments_from [] cs
      else segments_from (run @ [ch]) cs)"

definition signature_matches :: "string list \<Rightarrow> string list \<Rightarrow> bool" where
  "signature_matches pattern segment \<longleftrightarrow>
     \<not> length segment < length pattern \<and> take (length pattern) segment = pattern"

definition contains_model_pattern :: "string \<Rightarrow> string \<Rightarrow> bool" where
  "contains_model_pattern code pattern \<longleftrightarrow>
     code \<noteq> [] \<and> pattern \<noteq> [] \<and> model_identifier_signature pattern \<noteq> [] \<and>
     list_ex (\<lambda>segment. signature_matches (model_identifier_signature pattern) (model_identifier_signature segment))
       (segments_from [] (to_lower code))"

definition normalize_fallback_context_window :: "int \<Rightarrow> int" where
  "normalize_fallback_context_window v = (if v < 4096 \<or> v > 16000000 then 128000 else v)"

definition resolve_model_caps_with_fallback :: "string \<Rightarrow> int \<Rightarrow> model_caps \<times> caps_source" where
  "resolve_model_caps_with_fallback modelName fallbackContextWindow =
     (let code = to_lower (trim_space modelName) in
      case find (\<lambda>(patterns, caps). list_ex (contains_model_pattern code) patterns) model_caps_catalog of
        Some (_, caps) \<Rightarrow> (caps, CapsCatalog)
      | None \<Rightarrow> (\<lparr>mc_ContextWindow = normalize_fallback_context_window fallbackContextWindow,
                  mc_MaxOutputTokens = 8192\<rparr>, CapsFallback))"

section \<open>Configured capabilities\<close>

definition positive_int :: "json_value option \<Rightarrow> int option" where
  "positive_int v = (case v of
      Some (JNumber s) \<Rightarrow> (case atoi s of Some n \<Rightarrow> if n > 0 then Some n else None | None \<Rightarrow> None)
    | Some (JString s) \<Rightarrow> (case atoi (trim_space s) of Some n \<Rightarrow> if n > 0 then Some n else None | None \<Rightarrow> None)
    | _ \<Rightarrow> None)"

fun first_positive_int :: "(string \<rightharpoonup> json_value) \<Rightarrow> string list \<Rightarrow> int option" where
  "first_positive_int payload [] = None"
| "first_positive_int payload (k # ks) =
     (case positive_int (payload k) of Some n \<Rightarrow> Some n | None \<Rightarrow> first_positive_int payload ks)"

fun first_present_int :: "(string \<rightharpoonup> json_value) \<Rightarrow> string list \<Rightarrow> int option" where
  "first_present_int payload [] = None"
| "first_present_int payload (k # ks) =
     (case payload k of
        None \<Rightarrow> first_present_int payload ks
      | Some v \<Rightarrow> (case positive_int (Some v) of None \<Rightarrow> Some 0 | Some n \<Rightarrow> Some n))"

definition context_window_keys :: "string list" where
  "context_window_keys = [''contextWindow'', ''context_window'', ''contextWindowTokens'', ''context_window_tokens'']"

definition max_output_keys :: "string list" where
  "max_output_keys = [''maxOutputTokens'', ''max_output_tokens'']"

definition parse_capabilities :: "json_decode \<Rightarrow> string \<Rightarrow> (string \<rightharpoonup> json_value) option" where
  "parse_capabilities decode raw0 = (let raw = trim_space raw0 in if raw = [] then None else decode raw)"

definition resolve_model_caps ::
    "json_decode \<Rightarrow> string \<Rightarrow> string \<Rightarrow> int \<Rightarrow> model_caps \<times> caps_source" where
  "resolve_model_caps decode modelName capabilitiesJSON fallback =
     (let (caps, source) = resolve_model_caps_with_fallback modelName fallback in
      case parse_capabilities decode capabilitiesJSON of
        None \<Rightarrow> (caps, source)
      | Some payload \<Rightarrow>
          let window = first_positive_int payload context_window_keys;
              output = first_positive_int payload max_output_keys;
              caps1 = (case window of None \<Rightarrow> caps | Some v \<Rightarrow> caps\<lparr>mc_ContextWindow := v\<rparr>);
              caps2 = (case output of None \<Rightarrow> caps1 | Some v \<Rightarrow> caps1\<lparr>mc_MaxOutputTokens := v\<rparr>)
          in (caps2, if window \<noteq> None \<or> output \<noteq> None then CapsCapabilities else source))"

definition validate_model_caps_overrides :: "json_decode \<Rightarrow> string \<Rightarrow> bool" where
  "validate_model_caps_overrides decode capabilitiesJSON =
     (case parse_capabilities decode capabilitiesJSON of
        None \<Rightarrow> True
      | Some payload \<Rightarrow>
          let window = first_present_int payload context_window_keys;
              output = first_present_int payload max_output_keys
          in \<not> (case window of None \<Rightarrow> False | Some v \<Rightarrow> v < 4096 \<or> v > 16000000) \<and>
             \<not> (case output of None \<Rightarrow> False | Some v \<Rightarrow> v < 1 \<or> v > 1000000) \<and>
             \<not> (case (window, output) of (Some w, Some v) \<Rightarrow> v \<ge> w | _ \<Rightarrow> False))"

section \<open>Budget and threshold\<close>

definition effective_context_budget :: "model_caps \<Rightarrow> int" where
  "effective_context_budget caps =
     (let reserve = (if mc_MaxOutputTokens caps > 20000 then 20000 else mc_MaxOutputTokens caps);
          budget = wrap64 (wrap64 (mc_ContextWindow caps - reserve) - 13000)
      in if budget < 4000 then 4000 else budget)"

definition context_budget :: "json_decode \<Rightarrow> string \<Rightarrow> string \<Rightarrow> int \<Rightarrow> int" where
  "context_budget decode modelName capabilitiesJSON fallback =
     effective_context_budget (fst (resolve_model_caps decode modelName capabilitiesJSON fallback))"

definition compaction_threshold :: "json_decode \<Rightarrow> string \<Rightarrow> string \<Rightarrow> int \<Rightarrow> int \<Rightarrow> int" where
  "compaction_threshold decode modelName capabilitiesJSON fallback triggerPercent0 =
     (if triggerPercent0 \<le> 0 then 0
      else let triggerPercent = (if triggerPercent0 > 100 then 100 else triggerPercent0);
               threshold = go_div (wrap64 (context_budget decode modelName capabilitiesJSON fallback * triggerPercent)) 100
        in if threshold < 4000 then 4000 else threshold)"

section \<open>Bounds\<close>

lemma first_positive_present:
  assumes "first_present_int payload ks = None \<or> (\<exists>v > 0. first_present_int payload ks = Some v)"
  shows "first_positive_int payload ks = first_present_int payload ks"
  using assms
proof (induction ks)
  case (Cons k ks)
  show ?case
  proof (cases "payload k")
    case None
    then show ?thesis using Cons by (simp add: positive_int_def)
  next
    case (Some v)
    then show ?thesis using Cons.prems by (cases "positive_int (Some v)") auto
  qed
qed simp

definition sound_caps :: "model_caps \<Rightarrow> bool" where
  "sound_caps caps \<longleftrightarrow> 4096 \<le> mc_ContextWindow caps \<and> mc_ContextWindow caps \<le> 16000000 \<and> 1 \<le> mc_MaxOutputTokens caps"

lemma catalog_bounds: "find p model_caps_catalog = Some (ps, caps) \<Longrightarrow> sound_caps caps"
proof -
  have "list_all (\<lambda>(ps, caps). sound_caps caps) model_caps_catalog"
    by (simp add: model_caps_catalog_def sound_caps_def)
  moreover assume "find p model_caps_catalog = Some (ps, caps)"
  then have "(ps, caps) \<in> set model_caps_catalog" by (auto simp: find_Some_iff)
  ultimately show ?thesis by (auto simp: list_all_iff)
qed

lemma fallback_bounds: "sound_caps (fst (resolve_model_caps_with_fallback modelName fallback))"
proof (cases "find (\<lambda>(patterns, caps). list_ex (contains_model_pattern (to_lower (trim_space modelName))) patterns) model_caps_catalog")
  case None
  then show ?thesis
    by (simp add: resolve_model_caps_with_fallback_def normalize_fallback_context_window_def sound_caps_def)
next
  case (Some r)
  then show ?thesis using catalog_bounds by (cases r) (simp add: resolve_model_caps_with_fallback_def)
qed

lemma validated_caps:
  assumes "validate_model_caps_overrides decode json"
  shows "4096 \<le> mc_ContextWindow (fst (resolve_model_caps decode modelName json fallback)) \<and>
    mc_ContextWindow (fst (resolve_model_caps decode modelName json fallback)) \<le> 16000000 \<and>
    1 \<le> mc_MaxOutputTokens (fst (resolve_model_caps decode modelName json fallback))"
proof -
  obtain caps source where c: "resolve_model_caps_with_fallback modelName fallback = (caps, source)" by fastforce
  have b: "4096 \<le> mc_ContextWindow caps" "mc_ContextWindow caps \<le> 16000000" "1 \<le> mc_MaxOutputTokens caps"
    using fallback_bounds [of modelName fallback] c by (simp_all add: sound_caps_def)
  show ?thesis
  proof (cases "parse_capabilities decode json")
    case None
    then show ?thesis using b c by (simp add: resolve_model_caps_def)
  next
    case (Some payload)
    have w: "case first_present_int payload context_window_keys of None \<Rightarrow> True | Some v \<Rightarrow> 4096 \<le> v \<and> v \<le> 16000000"
      and v: "case first_present_int payload max_output_keys of None \<Rightarrow> True | Some v \<Rightarrow> 1 \<le> v"
      using assms Some by (auto simp: validate_model_caps_overrides_def Let_def split: option.splits)
    have "first_positive_int payload context_window_keys = first_present_int payload context_window_keys"
      by (rule first_positive_present) (use w in \<open>auto split: option.splits\<close>)
    moreover have "first_positive_int payload max_output_keys = first_present_int payload max_output_keys"
      by (rule first_positive_present) (use v in \<open>auto split: option.splits\<close>)
    ultimately show ?thesis using b c w v Some
      by (auto simp: resolve_model_caps_def Let_def split: option.splits)
  qed
qed

text \<open>
  C25: With overrides that the validation admits, the input budget is the window less the reserve for the
  answer (at most 20000) and a buffer of 13000, but at least 4000 tokens, and it fits the window. At a
  percentage of zero or less compaction is off (the threshold is 0); at any other the threshold is that
  part of the budget (all of it above 100), but at least 4000, and never above the budget: a request is
  compacted before it is cut.
\<close>

theorem compaction_before_hard_budget:
  assumes "validate_model_caps_overrides decode json"
    and "caps = fst (resolve_model_caps decode modelName json fallback)"
    and "budget = context_budget decode modelName json fallback"
    and "threshold = compaction_threshold decode modelName json fallback percent"
  shows "budget = max 4000 (mc_ContextWindow caps - min 20000 (mc_MaxOutputTokens caps) - 13000) \<and>
    budget \<le> mc_ContextWindow caps \<and>
    (percent \<le> 0 \<longrightarrow> threshold = 0) \<and>
    (0 < percent \<longrightarrow> threshold = max 4000 (budget * min 100 percent div 100) \<and> threshold \<le> budget)"
proof -
  have c: "4096 \<le> mc_ContextWindow caps" "mc_ContextWindow caps \<le> 16000000" "1 \<le> mc_MaxOutputTokens caps"
    using validated_caps [OF assms(1), of modelName fallback] by (simp_all add: assms(2))
  have b: "budget = max 4000 (mc_ContextWindow caps - min 20000 (mc_MaxOutputTokens caps) - 13000)"
    using c unfolding assms(3) context_budget_def assms(2) [symmetric]
    by (auto simp: effective_context_budget_def Let_def in_int64_def)
  then have range: "4000 \<le> budget" "budget \<le> mc_ContextWindow caps" "budget \<le> 16000000" using c by auto
  have "threshold = max 4000 (budget * min 100 percent div 100) \<and> threshold \<le> budget" if "0 < percent"
  proof -
    define t where "t = min 100 percent"
    have t: "0 < t" "t \<le> 100" using that by (simp_all add: t_def)
    have "budget * t \<le> 16000000 * 100" using range t by (intro mult_mono) auto
    moreover have "0 \<le> budget * t" using range t by simp
    ultimately have w: "go_div (wrap64 (budget * t)) 100 = budget * t div 100" by (simp add: in_int64_def)
    have "budget * t \<le> budget * 100" using range t by (intro mult_left_mono) auto
    then have "budget * t div 100 \<le> budget" by simp
    moreover have "threshold = max 4000 (budget * t div 100)"
    proof -
      have p: "(if percent > 100 then 100 else percent) = t" by (simp add: t_def)
      show ?thesis using that
        unfolding assms(4) compaction_threshold_def assms(3) [symmetric] Let_def p w by (simp add: max_def)
    qed
    ultimately show ?thesis using range by (simp add: t_def)
  qed
  moreover have "percent \<le> 0 \<longrightarrow> threshold = 0" by (simp add: assms(4) compaction_threshold_def)
  ultimately show ?thesis using b range by blast
qed

theorem compaction_before_hard_budget_witness:
  "compaction_threshold (\<lambda>s. Some [''contextWindow'' \<mapsto> JNumber ''8192'']) ''gpt-4o-mini'' ''{}'' 0 0 = 0 \<and>
   4000 \<le> compaction_threshold (\<lambda>s. Some [''contextWindow'' \<mapsto> JNumber ''8192'']) ''gpt-4o-mini'' ''{}'' 0 80 \<and>
   compaction_threshold (\<lambda>s. Some [''contextWindow'' \<mapsto> JNumber ''8192'']) ''gpt-4o-mini'' ''{}'' 0 80 \<le>
     context_budget (\<lambda>s. Some [''contextWindow'' \<mapsto> JNumber ''8192'']) ''gpt-4o-mini'' ''{}'' 0"
proof -
  have v: "validate_model_caps_overrides (\<lambda>s. Some [''contextWindow'' \<mapsto> JNumber ''8192'']) ''{}''"
    by code_simp
  note p = compaction_before_hard_budget [OF v refl refl refl, where modelName = "''gpt-4o-mini''" and fallback = 0]
  note off = p [where percent = 0, THEN conjunct2, THEN conjunct2, THEN conjunct1, THEN mp]
  note on = p [where percent = 80, THEN conjunct2, THEN conjunct2, THEN conjunct2, THEN mp]
  show ?thesis
  proof (intro conjI)
    show "compaction_threshold (\<lambda>s. Some [''contextWindow'' \<mapsto> JNumber ''8192'']) ''gpt-4o-mini'' ''{}'' 0 0 = 0"
      by (rule off) simp
    show "4000 \<le> compaction_threshold (\<lambda>s. Some [''contextWindow'' \<mapsto> JNumber ''8192'']) ''gpt-4o-mini'' ''{}'' 0 80"
      by (rule ord_le_eq_trans [OF max.cobounded1 on [THEN conjunct1, symmetric]]) simp
    show "compaction_threshold (\<lambda>s. Some [''contextWindow'' \<mapsto> JNumber ''8192'']) ''gpt-4o-mini'' ''{}'' 0 80 \<le>
        context_budget (\<lambda>s. Some [''contextWindow'' \<mapsto> JNumber ''8192'']) ''gpt-4o-mini'' ''{}'' 0"
      by (rule on [THEN conjunct2]) simp
  qed
qed

end
