(* ===== verification/Message_Branch.thy ===== *)
theory Message_Branch
  imports Message_Tree Context_Snapshots
begin

text \<open>
  The branch a message is sent on (\<^verbatim>\<open>application/conversation/service_branch.go\<close>,
  \<^verbatim>\<open>service_message_preparation.go\<close>): choosing parent and source, reading the active branch in bounded
  pages, normalising it to usable context and creating the user message with its pending answer.

  The attachments a turn resolves to and the fresh identifiers are arguments. Logging is left
  out. A nil list and an empty one are not told apart.
\<close>

datatype conversation_error =
    ErrInvalidMessageBranch | ErrTooManyMessageFiles | ErrContextAncestorSafetyLimit
  | ErrConversationNotFound | ErrMessageNotFound | ErrMessageForkTargetInvalid
  | ErrMessageForkStateInvalid | ErrMessageForkHistoryIncomplete | ErrConversationProjectNotFound
  | ErrInvalidConversationTitle | ErrInvalidMessageContent | ErrMessageEditTargetInvalid
  | ErrMessageEditStateInvalid | ErrRepository repo_error

record branch_state =
  bs_ExistingMessages :: "message list"
  bs_ParentMessageID :: "nat option"
  bs_ParentPublicID :: string
  bs_SourceMessageID :: "nat option"
  bs_SourcePublicID :: string
  bs_ReuseUserMessage :: "message option"

section \<open>Usable context\<close>

definition is_context_message :: "message \<Rightarrow> bool" where
  "is_context_message item =
     (let status = trim_space (m_Status item) in
      if equal_fold status ''success'' then True
      else m_Role item = ''assistant'' \<and> equal_fold status ''interrupted'')"

definition is_recovered_assistant_retry_user :: "message list \<Rightarrow> nat \<Rightarrow> bool" where
  "is_recovered_assistant_retry_user messages index =
     (if index + 1 \<ge> length messages then False
      else let userMessage = messages ! index; retryAssistant = messages ! (index + 1) in
        if m_Role userMessage \<noteq> ''user'' \<or> \<not> equal_fold (trim_space (m_Status userMessage)) ''error'' then False
        else if m_Role retryAssistant \<noteq> ''assistant'' \<or>
                \<not> equal_fold (trim_space (m_BranchReason retryAssistant)) ''retry'' \<or>
                m_SourceMessageID retryAssistant = None \<or> \<not> is_context_message retryAssistant then False
        else m_ParentMessageID retryAssistant = Some (m_ID userMessage))"

definition recover_assistant_retry_user_states :: "message list \<Rightarrow> message list" where
  "recover_assistant_retry_user_states messages =
     map (\<lambda>index. if is_recovered_assistant_retry_user messages index
            then with_state ''success'' [] [] (messages ! index) else messages ! index) [0..<length messages]"

fun context_end :: "message list \<Rightarrow> nat \<Rightarrow> nat" where
  "context_end messages 0 = 0"
| "context_end messages (Suc n) = (if is_context_message (messages ! n) then Suc n else context_end messages n)"

text \<open>The start of the run of usable messages that ends before index \<open>n\<close>.\<close>

fun context_start :: "message list \<Rightarrow> nat \<Rightarrow> nat" where
  "context_start messages 0 = 0"
| "context_start messages (Suc n) = (if is_context_message (messages ! n) then context_start messages n else Suc n)"

definition normalize_default_branch_context ::
    "message list \<Rightarrow> message option \<Rightarrow> message list \<times> message option" where
  "normalize_default_branch_context ancestors parent =
     (if ancestors = [] then
        (case parent of
           Some p \<Rightarrow> if is_context_message p then (ancestors, parent) else ([], None)
         | None \<Rightarrow> ([], None))
      else
        let contextMessages = recover_assistant_retry_user_states ancestors;
            end0 = context_end contextMessages (length contextMessages)
        in if end0 = 0 then ([], None)
           else let start = context_start contextMessages end0;
                    normalized = drop start (take end0 contextMessages)
             in if normalized = [] then ([], None) else (normalized, Some (last normalized)))"

definition select_latest_default_parent_candidate :: "message list \<Rightarrow> message option" where
  "select_latest_default_parent_candidate messages =
     (case find (\<lambda>m. m_Role m = ''assistant'' \<and> is_context_message m) (rev messages) of
        Some m \<Rightarrow> Some m
      | None \<Rightarrow> find (\<lambda>m. (m_Role m = ''user'' \<or> m_Role m = ''system'') \<and> is_context_message m) (rev messages))"

definition filter_blocked_messages :: "message list \<Rightarrow> message list" where
  "filter_blocked_messages messages = filter (\<lambda>m. \<not> equal_fold (trim_space (m_Status m)) ''blocked'') messages"

section \<open>Choosing the branch\<close>

definition normalize_branch_reason :: "string \<Rightarrow> string" where
  "normalize_branch_reason raw =
     (let v = to_lower (trim_space raw) in if v = ''retry'' \<or> v = ''edit'' then v else ''default'')"

definition resolve_by_public_id ::
    "json_lib \<Rightarrow> chat_db \<Rightarrow> nat \<Rightarrow> nat \<Rightarrow> string \<Rightarrow> conversation_error + message option" where
  "resolve_by_public_id jl db conversationID userID publicID =
     (let normalized = trim_space publicID in
      if normalized = [] then Inr None
      else case get_message_by_public_id jl db conversationID userID normalized of
        Inl _ \<Rightarrow> Inl ErrInvalidMessageBranch
      | Inr item \<Rightarrow> Inr (Some item))"

text \<open>The parent a source message implies, which must agree with the one given.\<close>

definition expected_parent ::
    "json_lib \<Rightarrow> chat_db \<Rightarrow> nat \<Rightarrow> message \<Rightarrow> message option \<Rightarrow> conversation_error + message option" where
  "expected_parent jl db conversationID source parent =
     (case (m_ParentMessageID source, parent) of
        (None, Some _) \<Rightarrow> Inl ErrInvalidMessageBranch
      | (Some p, None) \<Rightarrow>
          (case get_message_by_id jl db conversationID p of
             Inl _ \<Rightarrow> Inl ErrInvalidMessageBranch
           | Inr cachedParent \<Rightarrow> Inr (Some cachedParent))
      | (Some p, Some q) \<Rightarrow> if m_ID q \<noteq> p then Inl ErrInvalidMessageBranch else Inr parent
      | (None, None) \<Rightarrow> Inr parent)"

definition source_role_ok :: "message \<Rightarrow> message option \<Rightarrow> string \<Rightarrow> bool" where
  "source_role_ok source parent branchReason =
     (if m_Role source = ''user'' then True
      else if m_Role source = ''assistant'' then
        branchReason = ''retry'' \<and> (case parent of None \<Rightarrow> False | Some p \<Rightarrow> m_Role p = ''user'')
      else False)"

definition check_source ::
    "json_lib \<Rightarrow> chat_db \<Rightarrow> nat \<Rightarrow> message option \<Rightarrow> message option \<Rightarrow> string \<Rightarrow> conversation_error + message option" where
  "check_source jl db conversationID source parent branchReason =
     (case source of
        None \<Rightarrow> if branchReason \<noteq> ''default'' then Inl ErrInvalidMessageBranch else Inr parent
      | Some s \<Rightarrow>
          if branchReason \<noteq> ''retry'' \<and> branchReason \<noteq> ''edit'' then Inl ErrInvalidMessageBranch
          else case expected_parent jl db conversationID s parent of
            Inl err \<Rightarrow> Inl err
          | Inr parent' \<Rightarrow> if source_role_ok s parent' branchReason then Inr parent' else Inl ErrInvalidMessageBranch)"

definition default_branch_preview_depth :: int where "default_branch_preview_depth = 2000"
definition default_branch_preview_limit :: int where "default_branch_preview_limit = 32"

definition branch_state_of :: "message option \<Rightarrow> message option \<Rightarrow> branch_state" where
  "branch_state_of parent source =
     \<lparr>bs_ExistingMessages = [], bs_ParentMessageID = map_option m_ID parent,
      bs_ParentPublicID = (case parent of None \<Rightarrow> [] | Some p \<Rightarrow> m_PublicID p),
      bs_SourceMessageID = map_option m_ID source,
      bs_SourcePublicID = (case source of None \<Rightarrow> [] | Some s \<Rightarrow> m_PublicID s),
      bs_ReuseUserMessage = (case source of None \<Rightarrow> None | Some s \<Rightarrow> if m_Role s = ''assistant'' then parent else None)\<rparr>"

definition resolve_message_branch ::
    "json_lib \<Rightarrow> chat_db \<Rightarrow> nat \<Rightarrow> nat \<Rightarrow> string \<Rightarrow> string \<Rightarrow> string \<Rightarrow> conversation_error + branch_state" where
  "resolve_message_branch jl db conversationID userID parentPublicID sourcePublicID branchReason =
     (case resolve_by_public_id jl db conversationID userID parentPublicID of
        Inl err \<Rightarrow> Inl err
      | Inr parent0 \<Rightarrow>
     (case resolve_by_public_id jl db conversationID userID sourcePublicID of
        Inl err \<Rightarrow> Inl err
      | Inr source \<Rightarrow>
     (case check_source jl db conversationID source parent0 branchReason of
        Inl err \<Rightarrow> Inl err
      | Inr parent1 \<Rightarrow>
          let parent = (if parent1 = None \<and> source = None
                then select_latest_default_parent_candidate (list_latest_branch_preview_messages db conversationID
                       default_branch_preview_depth default_branch_preview_limit)
                else parent1)
          in Inr (branch_state_of parent source))))"

section \<open>Reading the branch\<close>

definition context_ancestor_page_size :: nat where "context_ancestor_page_size = 256"
definition context_ancestor_max_count :: nat where "context_ancestor_max_count = 10000"
definition context_ancestor_max_bytes :: nat where "context_ancestor_max_bytes = 64 * 2 ^ 20"

definition payload_bytes :: "json_lib \<Rightarrow> message \<Rightarrow> nat" where
  "payload_bytes jl m = length (m_Content m) + length (m_ReasoningContent m) +
     jl_SnapshotsLen jl (m_Attachments m) + length (m_ErrorMessage m)"

definition context_messages_payload_bytes :: "json_lib \<Rightarrow> message list \<Rightarrow> nat" where
  "context_messages_payload_bytes jl messages = sum_list (map (payload_bytes jl) messages)"

definition is_boundary :: "context_snapshot option \<Rightarrow> message \<Rightarrow> bool" where
  "is_boundary snapshot m = (case snapshot of None \<Rightarrow> False
     | Some s \<Rightarrow> m_ID m = sn_CoveredUntilMessageID s \<and>
         trim_space (m_PublicID m) = trim_space (sn_CoveredUntilPublicID s))"

text \<open>The part of a page from the boundary of the snapshot on, and whether the boundary is in it.\<close>

definition page_segment :: "context_snapshot option \<Rightarrow> message list \<Rightarrow> message list \<times> bool" where
  "page_segment snapshot page =
     (if snapshot_has_coverage snapshot \<and> list_ex (is_boundary snapshot) page
      then (dropWhile (\<lambda>m. \<not> is_boundary snapshot m) page, True)
      else (page, False))"

lemma page_segment_nonempty:
  "page_segment snapshot page = (segment, found0) \<Longrightarrow> page \<noteq> [] \<Longrightarrow> segment \<noteq> []"
  by (auto simp: page_segment_def list_ex_iff dropWhile_eq_Nil_conv split: if_splits)

function load_loop ::
    "json_lib \<Rightarrow> chat_db \<Rightarrow> nat \<Rightarrow> context_snapshot option \<Rightarrow> nat \<Rightarrow> message list \<Rightarrow> nat \<Rightarrow> nat \<Rightarrow>
     conversation_error + message list" where
  "load_loop jl db conversationID snapshot leafID path loadedCount loadedBytes =
     (if leafID = 0 then Inr path
      else let page = list_message_ancestors jl db conversationID leafID (int context_ancestor_page_size) in
        if page = [] then Inr path
        else let (segment, boundaryFound) = page_segment snapshot page;
                 count = loadedCount + length segment;
                 bytes = loadedBytes + context_messages_payload_bytes jl segment
          in if count > context_ancestor_max_count \<or> bytes > context_ancestor_max_bytes
             then Inl ErrContextAncestorSafetyLimit
             else if boundaryFound \<or> length page < context_ancestor_page_size then Inr (segment @ path)
             else case m_ParentMessageID (hd page) of
               None \<Rightarrow> Inr (segment @ path)
             | Some p \<Rightarrow> load_loop jl db conversationID snapshot p (segment @ path) count bytes)"
  by pat_completeness auto
termination
proof (relation "measure (\<lambda>(_, _, _, _, _, _, count, _). Suc context_ancestor_max_count - count)", goal_cases)
  case (2 jl db c snap leaf path count bytes page seg segment found0 count' bytes' p)
  then have "page_segment snap page = (segment, found0)" "page \<noteq> []" by auto
  then have "segment \<noteq> []" by (rule page_segment_nonempty)
  then show ?case using 2 by (cases segment) auto
qed simp

declare load_loop.simps [simp del]

definition load_message_branch_context ::
    "json_lib \<Rightarrow> chat_db \<Rightarrow> nat \<Rightarrow> branch_state \<Rightarrow> context_snapshot option \<Rightarrow> string \<Rightarrow> conversation_error + branch_state" where
  "load_message_branch_context jl db conversationID branch snapshot branchReason =
     (case bs_ParentMessageID branch of
        None \<Rightarrow> Inr branch
      | Some leafID \<Rightarrow>
          if leafID = 0 then Inr branch
          else case load_loop jl db conversationID snapshot leafID [] 0 0 of
            Inl err \<Rightarrow> Inl err
          | Inr path0 \<Rightarrow>
              let path = recover_assistant_retry_user_states path0;
                  path' = (if branchReason = ''default'' then fst (normalize_default_branch_context path None) else path)
              in Inr (branch\<lparr>bs_ExistingMessages := path'\<rparr>))"

section \<open>The path of the turn\<close>

definition message_by_id :: "message list \<Rightarrow> nat \<Rightarrow> message option" where
  "message_by_id messages = map_of (rev (map (\<lambda>m. (m_ID m, m)) messages))"

function path_loop :: "message list \<Rightarrow> nat list \<Rightarrow> nat \<Rightarrow> message list" where
  "path_loop messages visited currentID =
     (if currentID = 0 then []
      else case message_by_id messages currentID of
        None \<Rightarrow> []
      | Some item \<Rightarrow>
          if currentID \<in> set visited then []
          else item # (case m_ParentMessageID item of
              None \<Rightarrow> []
            | Some p \<Rightarrow> path_loop messages (currentID # visited) p))"
  by pat_completeness auto
termination
proof (relation "measure (\<lambda>(messages, visited, _). card (m_ID ` set messages - set visited))", goal_cases)
  case (2 messages visited currentID item p)
  have "currentID \<in> m_ID ` set messages"
    using 2(2) by (auto simp: message_by_id_def dest!: map_of_SomeD)
  then have "m_ID ` set messages - set (currentID # visited) \<subset> m_ID ` set messages - set visited"
    using 2(3) by auto
  then show ?case by (auto intro!: psubset_card_mono)
qed simp

declare path_loop.simps [simp del]

definition build_message_path :: "message list \<Rightarrow> nat \<Rightarrow> message list" where
  "build_message_path messages leafID =
     (if leafID = 0 \<or> messages = [] then [] else rev (path_loop messages [] leafID))"

definition build_branch_message_path :: "branch_state \<Rightarrow> message \<Rightarrow> message list" where
  "build_branch_message_path branch userMessage =
     (case bs_ReuseUserMessage branch of
        Some reused \<Rightarrow> build_message_path (bs_ExistingMessages branch) (m_ID reused)
      | None \<Rightarrow> build_message_path (bs_ExistingMessages branch @ [userMessage]) (m_ID userMessage))"

text \<open>The context of a turn as the send path computes it from the branch it has read.\<close>

definition turn_context :: "branch_state \<Rightarrow> message \<Rightarrow> message list" where
  "turn_context branch userMessage =
     recover_assistant_retry_user_states (filter_blocked_messages (build_branch_message_path branch userMessage))"

section \<open>Paging reads the whole branch\<close>

text \<open>The active branch from its root to a message.\<close>

definition active_branch :: "json_lib \<Rightarrow> chat_db \<Rightarrow> nat \<Rightarrow> nat \<Rightarrow> message list" where
  "active_branch jl db c i = map (hydrated jl db) (rev (branch_up db c i))"

definition from_boundary :: "context_snapshot option \<Rightarrow> message list \<Rightarrow> message list" where
  "from_boundary snapshot messages = fst (page_segment snapshot messages)"

lemma branch_parent_less:
  assumes "tree_ok db" "m \<in> set (branch_up db c i)" "m_ParentMessageID m = Some p"
  shows "p < i"
proof -
  have "m \<in> set (cd_messages db)" "m_ConversationID m = c" using branch_set [OF assms(2)] by auto
  then have "in_conversation db c (m_ID m) = Some m" using assms(1) by (simp add: in_conversation_Some)
  then obtain q where "p < m_ID m" using parent_in_conversation [OF assms(1) _ assms(3)] by blast
  moreover have "m_ID m \<le> i" using branch_decreasing [OF assms(1)] assms(2) by blast
  ultimately show ?thesis by simp
qed

lemma branch_split:
  assumes "tree_ok db"
  shows "branch_up db c i = ancestors_up db c (Suc d) i @
    (if length (ancestors_up db c (Suc d) i) = Suc d then read_on (branch_up db c) (ancestors_up db c (Suc d) i) else [])"
proof -
  let ?A = "ancestors_up db c (Suc d) i"
  have "read_on (ancestors_up db c i) ?A = read_on (branch_up db c) ?A"
  proof (cases "?A = [] \<or> m_ParentMessageID (last ?A) = None")
    case False
    then obtain p where p: "m_ParentMessageID (last ?A) = Some p" "?A \<noteq> []" by auto
    have "last ?A \<in> set (branch_up db c i)"
      using branch_up_ancestors [OF assms, of i "Suc d + i" c] ancestors_add [of db c d i i] p(2)
      by (metis Un_iff last_in_set le_add2 set_append)
    then have "p < i" using branch_parent_less [OF assms _ p(1)] by blast
    then show ?thesis using p branch_up_ancestors [OF assms, of p i c] by (simp add: read_on_def)
  qed (auto simp: read_on_def)
  then show ?thesis
    using branch_up_ancestors [OF assms, of i "Suc d + i" c] ancestors_add [of db c d i i] by simp
qed

lemma distinct_branch:
  assumes "tree_ok db"
  shows "distinct (map m_ID (branch_up db c i))"
proof -
  have "sorted_wrt (\<lambda>a b. b < a) (map m_ID (branch_up db c i))"
    using branch_decreasing [OF assms, of c i] by (simp add: sorted_wrt_map)
  then have "sorted_wrt (<) (rev (map m_ID (branch_up db c i)))" by (simp add: sorted_wrt_rev)
  then show ?thesis using strict_sorted_iff by (metis distinct_rev)
qed

lemma distinct_active: "tree_ok db \<Longrightarrow> distinct (map m_ID (active_branch jl db c i))"
  using distinct_branch [of db c i] by (simp add: active_branch_def rev_map [symmetric] o_def)

lemma from_boundary_append:
  assumes "distinct (map m_ID (a @ b))"
  shows "from_boundary snapshot (a @ b) =
    (if snapshot_has_coverage snapshot \<and> list_ex (is_boundary snapshot) b
     then dropWhile (\<lambda>m. \<not> is_boundary snapshot m) b else from_boundary snapshot a @ b)"
proof -
  have apart: "\<not> is_boundary snapshot m" if "m \<in> set a" "n \<in> set b" "is_boundary snapshot n" for m n
  proof
    assume "is_boundary snapshot m"
    then have "m_ID m = m_ID n" using that(3) by (auto simp: is_boundary_def split: option.splits)
    then show False using that(1,2) assms by (metis IntI distinct_append empty_iff imageI map_append set_map)
  qed
  show ?thesis
  proof (cases "snapshot_has_coverage snapshot \<and> list_ex (is_boundary snapshot) b")
    case True
    then obtain n where "n \<in> set b" "is_boundary snapshot n" by (auto simp: list_ex_iff)
    then have "dropWhile (\<lambda>m. \<not> is_boundary snapshot m) (a @ b) = dropWhile (\<lambda>m. \<not> is_boundary snapshot m) b"
      using apart by (intro dropWhile_append2) blast
    then show ?thesis using True by (simp add: from_boundary_def page_segment_def)
  next
    case False
    show ?thesis
    proof (cases "snapshot_has_coverage snapshot \<and> list_ex (is_boundary snapshot) a")
      case True
      then obtain m where "m \<in> set a" "is_boundary snapshot m" by (auto simp: list_ex_iff)
      then have "dropWhile (\<lambda>m. \<not> is_boundary snapshot m) (a @ b) = dropWhile (\<lambda>m. \<not> is_boundary snapshot m) a @ b"
        by (intro dropWhile_append1) auto
      then show ?thesis using True False by (simp add: from_boundary_def page_segment_def)
    next
      case none: False
      then have "\<not> (snapshot_has_coverage snapshot \<and> list_ex (is_boundary snapshot) (a @ b))"
        using False by auto
      then show ?thesis using none False unfolding from_boundary_def page_segment_def by (simp only: if_False fst_conv)
    qed
  qed
qed

definition within_limits :: "json_lib \<Rightarrow> nat \<Rightarrow> nat \<Rightarrow> message list \<Rightarrow> bool" where
  "within_limits jl count bytes messages \<longleftrightarrow> count + length messages \<le> context_ancestor_max_count \<and>
     bytes + context_messages_payload_bytes jl messages \<le> context_ancestor_max_bytes"

lemma payload_append [simp]:
  "context_messages_payload_bytes jl (a @ b) = context_messages_payload_bytes jl a + context_messages_payload_bytes jl b"
  "context_messages_payload_bytes jl [] = 0"
  by (simp_all add: context_messages_payload_bytes_def)

lemma within_limits_append:
  "within_limits jl count bytes (a @ b) \<longleftrightarrow>
     within_limits jl (count + length b) (bytes + context_messages_payload_bytes jl b) a"
  by (auto simp: within_limits_def add.assoc add.commute add.left_commute)

lemma within_limits_less: "within_limits jl count bytes messages \<Longrightarrow> within_limits jl count bytes []"
  by (simp add: within_limits_def)

lemma load_loop_spec:
  assumes ok: "tree_ok db"
  shows "within_limits jl count bytes [] \<Longrightarrow>
    load_loop jl db c snapshot leaf path count bytes =
      (if within_limits jl count bytes (from_boundary snapshot (active_branch jl db c leaf))
       then Inr (from_boundary snapshot (active_branch jl db c leaf) @ path)
       else Inl ErrContextAncestorSafetyLimit)"
proof (induction leaf arbitrary: path count bytes rule: less_induct)
  case (less leaf)
  let ?A = "ancestors_up db c 256 leaf" and ?full = "active_branch jl db c leaf"
  define page where "page = map (hydrated jl db) (rev ?A)"
  have page: "list_message_ancestors jl db c leaf 256 = page"
    using list_message_ancestors_rows [of db 256 jl c leaf] ok
    by (simp add: page_def)
  have split: "branch_up db c leaf = ?A @ (if length ?A = 256 then read_on (branch_up db c) ?A else [])"
    using branch_split [OF ok, of c leaf 255] by (simp del: ancestors_up_Suc)
  have lim: "\<not> within_limits jl count bytes messages \<longleftrightarrow> count + length messages > context_ancestor_max_count \<or>
      bytes + context_messages_payload_bytes jl messages > context_ancestor_max_bytes" for messages
    by (auto simp: within_limits_def)
  show ?case
  proof (cases "leaf = 0 \<or> page = []")
    case True
    have "branch_up db c leaf = []"
    proof (cases "leaf = 0")
      case False
      then have "?A = []" using True by (simp add: page_def)
      then show ?thesis using split by simp
    qed (simp add: branch_up_def)
    then show ?thesis using True less.prems page
      by (subst load_loop.simps) (auto simp: active_branch_def from_boundary_def page_segment_def context_ancestor_page_size_def)
  next
    case False
    obtain segment found0 where seg: "page_segment snapshot page = (segment, found0)" by fastforce
    have len: "length page = length ?A" by (simp add: page_def)
    have hdp: "m_ParentMessageID (hd page) = m_ParentMessageID (last ?A)"
      using False by (simp add: page_def hd_map hd_rev)
    define rest where "rest = (if length ?A = 256 then read_on (branch_up db c) ?A else [])"
    have full: "?full = map (hydrated jl db) (rev rest) @ page"
      using split by (simp add: active_branch_def page_def rest_def)
    have whole: "from_boundary snapshot ?full = (if found0 then segment
        else from_boundary snapshot (map (hydrated jl db) (rev rest)) @ page)" "\<not> found0 \<Longrightarrow> segment = page"
      using from_boundary_append [of "map (hydrated jl db) (rev rest)" page snapshot] distinct_active [OF ok, of jl c leaf] seg
      unfolding full by (auto simp: page_segment_def split: if_splits)
    have step: "load_loop jl db c snapshot leaf path count bytes =
      (if \<not> within_limits jl count bytes segment then Inl ErrContextAncestorSafetyLimit
       else if found0 \<or> length page < 256 then Inr (segment @ path)
       else case m_ParentMessageID (hd page) of None \<Rightarrow> Inr (segment @ path)
         | Some p \<Rightarrow> load_loop jl db c snapshot p (segment @ path) (count + length segment)
             (bytes + context_messages_payload_bytes jl segment))"
      using False by (subst load_loop.simps) (simp add: page seg lim context_ancestor_page_size_def)
    show ?thesis
    proof (cases "found0 \<or> length ?A \<noteq> 256 \<or> m_ParentMessageID (last ?A) = None")
      case True
      have "length ?A \<le> 256" by (rule ancestors_length)
      moreover have "rest = []" if "\<not> found0" using True that by (auto simp: rest_def read_on_def)
      then have "from_boundary snapshot ?full = segment"
        using whole by (auto simp: from_boundary_def page_segment_def)
      ultimately show ?thesis using True step len hdp by (auto split: option.splits)
    next
      case more: False
      then obtain p where p: "m_ParentMessageID (last ?A) = Some p" by auto
      have A: "?A \<noteq> []" using more by auto
      have rest: "rest = branch_up db c p" using more p A by (simp add: rest_def read_on_def)
      have "last ?A \<in> set (branch_up db c leaf)" using split A by (metis Un_iff last_in_set set_append)
      then have "p < leaf"
        by (rule branch_parent_less [OF ok _ p])
      then have IH: "load_loop jl db c snapshot p (segment @ path) (count + length segment)
          (bytes + context_messages_payload_bytes jl segment) =
        (if within_limits jl count bytes (from_boundary snapshot (active_branch jl db c p) @ segment)
         then Inr (from_boundary snapshot (active_branch jl db c p) @ segment @ path) else Inl ErrContextAncestorSafetyLimit)"
        if "within_limits jl count bytes segment"
        using less.IH [of p "count + length segment" "bytes + context_messages_payload_bytes jl segment" "segment @ path"] that
        by (simp add: within_limits_append) (simp add: within_limits_def)
      have f: "from_boundary snapshot ?full = from_boundary snapshot (active_branch jl db c p) @ segment"
        using whole more rest by (simp add: active_branch_def)
      show ?thesis
      proof (cases "within_limits jl count bytes segment")
        case True
        then show ?thesis using step IH f more len hdp p by simp
      next
        case False
        then have "\<not> within_limits jl count bytes (from_boundary snapshot ?full)"
          unfolding f by (auto simp: within_limits_def)
        then show ?thesis using step False by simp
      qed
    qed
  qed
qed

section \<open>Normalising the branch\<close>

text \<open>The last run of usable messages, behind which only unusable ones follow.\<close>

definition usable_tail :: "message list \<Rightarrow> message list" where
  "usable_tail messages = rev (takeWhile is_context_message (dropWhile (\<lambda>m. \<not> is_context_message m) (rev messages)))"

lemma take_context_end:
  "n \<le> length messages \<Longrightarrow>
     take (context_end messages n) messages = rev (dropWhile (\<lambda>m. \<not> is_context_message m) (rev (take n messages)))"
  by (induction n) (simp_all add: take_Suc_conv_app_nth)

lemma context_end_le: "context_end messages n \<le> n"
  by (induction n) auto

lemma drop_context_start:
  "n \<le> length messages \<Longrightarrow>
     drop (context_start messages n) (take n messages) = rev (takeWhile is_context_message (rev (take n messages)))"
proof (induction n)
  case (Suc n)
  have le: "context_start messages n \<le> n" by (induction n) auto
  show ?case using Suc le by (simp add: take_Suc_conv_app_nth)
qed simp

lemma recover_length [simp]: "length (recover_assistant_retry_user_states messages) = length messages"
  by (simp add: recover_assistant_retry_user_states_def)

lemma recover_nth:
  "i < length messages \<Longrightarrow> recover_assistant_retry_user_states messages ! i =
     (if is_recovered_assistant_retry_user messages i then with_state ''success'' [] [] (messages ! i) else messages ! i)"
  by (simp add: recover_assistant_retry_user_states_def)

lemma with_state_simps [simp]:
  "m_ID (with_state s c e m) = m_ID m" "m_Role (with_state s c e m) = m_Role m"
  "m_ParentMessageID (with_state s c e m) = m_ParentMessageID m" "m_BranchReason (with_state s c e m) = m_BranchReason m"
  "m_SourceMessageID (with_state s c e m) = m_SourceMessageID m" "m_Status (with_state s c e m) = s"
  "m_Content (with_state s c e m) = m_Content m"
  by (simp_all add: with_state_def)

lemma success_not_error: "\<not> equal_fold (trim_space ''success'') ''error''"
  by code_simp

lemma role_not_recovered:
  "Suc i < length messages \<Longrightarrow> m_Role (messages ! i) \<noteq> ''user'' \<Longrightarrow> \<not> is_recovered_assistant_retry_user messages i"
  by (simp add: is_recovered_assistant_retry_user_def)

lemma recover_idem [simp]:
  "recover_assistant_retry_user_states (recover_assistant_retry_user_states messages) =
     recover_assistant_retry_user_states messages"
proof (rule nth_equalityI)
  fix i assume i: "i < length (recover_assistant_retry_user_states (recover_assistant_retry_user_states messages))"
  let ?R = "recover_assistant_retry_user_states messages"
  have "\<not> is_recovered_assistant_retry_user ?R i"
  proof
    assume r: "is_recovered_assistant_retry_user ?R i"
    then have len: "Suc i < length messages" and "m_Role (?R ! Suc i) = ''assistant''"
      by (auto simp: is_recovered_assistant_retry_user_def Let_def split: if_splits)
    then have a: "?R ! Suc i = messages ! Suc i"
      by (auto simp: recover_nth is_recovered_assistant_retry_user_def Let_def split: if_splits)
    show False
    proof (cases "is_recovered_assistant_retry_user messages i")
      case True
      then have "m_Status (?R ! i) = ''success''" using len by (simp add: recover_nth)
      then show False using r success_not_error by (auto simp: is_recovered_assistant_retry_user_def Let_def split: if_splits)
    next
      case False
      then have "?R ! i = messages ! i" using len by (simp add: recover_nth)
      then show False using r False a len by (simp add: is_recovered_assistant_retry_user_def)
    qed
  qed
  then show "recover_assistant_retry_user_states ?R ! i = ?R ! i" using i by (simp add: recover_nth)
qed simp

lemma normalize_default:
  "fst (normalize_default_branch_context messages None) = usable_tail (recover_assistant_retry_user_states messages)"
proof (cases "messages = []")
  case False
  let ?R = "recover_assistant_retry_user_states messages"
  let ?e = "context_end ?R (length ?R)"
  have e: "take ?e ?R = rev (dropWhile (\<lambda>m. \<not> is_context_message m) (rev ?R))"
    using take_context_end [of "length ?R" ?R] by simp
  have le: "?e \<le> length ?R" by (rule context_end_le)
  have n: "drop (context_start ?R ?e) (take ?e ?R) = usable_tail ?R"
    using drop_context_start [OF le] unfolding e by (simp add: usable_tail_def)
  have "usable_tail ?R = []" if "?e = 0"
  proof -
    have "dropWhile (\<lambda>m. \<not> is_context_message m) (rev ?R) = []" using e that by (metis rev_is_Nil_conv take_0)
    then show ?thesis unfolding usable_tail_def by (simp only: takeWhile.simps rev.simps)
  qed
  then show ?thesis using False
    unfolding normalize_default_branch_context_def Let_def n by (auto simp del: drop_eq_Nil split: if_splits)
qed (simp add: normalize_default_branch_context_def usable_tail_def recover_assistant_retry_user_states_def)

text \<open>What the code keeps of a branch that it has read: all of it, or its usable end.\<close>

definition kept_context :: "string \<Rightarrow> message list \<Rightarrow> message list" where
  "kept_context branchReason messages =
     (let path = recover_assistant_retry_user_states messages
      in if branchReason = ''default'' then usable_tail path else path)"

lemma paged_reading:
  assumes "tree_ok db" "bs_ParentMessageID branch = Some p" "0 < p"
  shows "load_message_branch_context jl db c branch snapshot branchReason =
    (let chain = from_boundary snapshot (active_branch jl db c p) in
     if within_limits jl 0 0 chain then Inr (branch\<lparr>bs_ExistingMessages := kept_context branchReason chain\<rparr>)
     else Inl ErrContextAncestorSafetyLimit)"
proof -
  have "within_limits jl 0 0 []" by (simp add: within_limits_def)
  from load_loop_spec [OF assms(1) this, of c snapshot p "[]"] show ?thesis
    using assms(2,3) by (simp add: load_message_branch_context_def kept_context_def normalize_default Let_def)
qed

text \<open>
  C5: Reading the ancestors page by page gives what one unbounded walk up the parent links gives: the
  whole active branch, or its part from the verified boundary of the snapshot on; and it is
  refused exactly when that is more than 10000 messages or 64 MiB.
\<close>

theorem paged_reading_is_exact:
  assumes "tree_ok db" "bs_ParentMessageID branch = Some p" "0 < p"
  shows "load_message_branch_context jl db c branch snapshot branchReason =
    (let chain = from_boundary snapshot (active_branch jl db c p) in
     if length chain \<le> 10000 \<and> context_messages_payload_bytes jl chain \<le> 67108864
     then Inr (branch\<lparr>bs_ExistingMessages := kept_context branchReason chain\<rparr>)
     else Inl ErrContextAncestorSafetyLimit)"
  using paged_reading [OF assms, of jl c snapshot branchReason]
  by (simp add: within_limits_def context_ancestor_max_count_def context_ancestor_max_bytes_def)

section \<open>Paths\<close>

text \<open>A part of a branch, its root first: each names the one before as its parent, identifiers increase.\<close>

fun chained :: "message list \<Rightarrow> bool" where
  "chained [] = True"
| "chained [m] = (0 < m_ID m \<and> (\<forall>p. m_ParentMessageID m = Some p \<longrightarrow> p < m_ID m))"
| "chained (m # n # ms) = (0 < m_ID m \<and> (\<forall>p. m_ParentMessageID m = Some p \<longrightarrow> p < m_ID m) \<and>
     m_ParentMessageID n = Some (m_ID m) \<and> m_ID m < m_ID n \<and> chained (n # ms))"

lemma chained_nth:
  "chained xs \<Longrightarrow> Suc n < length xs \<Longrightarrow> m_ParentMessageID (xs ! Suc n) = Some (m_ID (xs ! n)) \<and> m_ID (xs ! n) < m_ID (xs ! Suc n)"
proof (induction xs arbitrary: n rule: chained.induct)
  case (3 m n' ms)
  then show ?case by (cases n) auto
qed auto

lemma chained_hd: "chained xs \<Longrightarrow> xs \<noteq> [] \<Longrightarrow> 0 < m_ID (hd xs) \<and> (\<forall>p. m_ParentMessageID (hd xs) = Some p \<longrightarrow> p < m_ID (hd xs))"
  by (cases xs rule: chained.cases) auto

lemma chained_pos: "chained xs \<Longrightarrow> m \<in> set xs \<Longrightarrow> 0 < m_ID m"
  by (induction xs rule: chained.induct) auto

lemma chained_sorted: "chained xs \<Longrightarrow> sorted_wrt (\<lambda>m n. m_ID m < m_ID n) xs"
  by (induction xs rule: chained.induct) (auto dest: order.strict_trans)

lemma chained_tl: "chained (m # ms) \<Longrightarrow> chained ms"
  by (cases ms) auto

lemma chained_drop: "chained xs \<Longrightarrow> chained (drop n xs)"
proof (induction n arbitrary: xs)
  case (Suc n)
  then show ?case by (cases xs) (auto dest: chained_tl)
qed simp

lemma chained_snoc:
  "chained xs \<Longrightarrow> xs \<noteq> [] \<Longrightarrow> m_ParentMessageID u = Some (m_ID (last xs)) \<Longrightarrow> m_ID (last xs) < m_ID u \<Longrightarrow> chained (xs @ [u])"
proof (induction xs rule: chained.induct)
  case (3 m n ms)
  then show ?case by simp
qed auto

lemma chained_Cons:
  "chained (m # ms) \<longleftrightarrow> 0 < m_ID m \<and> (\<forall>p. m_ParentMessageID m = Some p \<longrightarrow> p < m_ID m) \<and>
     (ms \<noteq> [] \<longrightarrow> m_ParentMessageID (hd ms) = Some (m_ID m) \<and> m_ID m < m_ID (hd ms) \<and> chained ms)"
  by (cases ms) auto

lemma chained_cong:
  "map m_ID xs = map m_ID ys \<Longrightarrow> map m_ParentMessageID xs = map m_ParentMessageID ys \<Longrightarrow> chained xs \<Longrightarrow> chained ys"
proof (induction xs arbitrary: ys)
  case (Cons m ms)
  obtain n ns where ys: "ys = n # ns" using Cons.prems(1) by (cases ys) auto
  have eq: "m_ID n = m_ID m" "m_ParentMessageID n = m_ParentMessageID m" "map m_ID ms = map m_ID ns"
    "map m_ParentMessageID ms = map m_ParentMessageID ns" using Cons.prems(1,2) ys by simp_all
  then have "ms = [] \<longleftrightarrow> ns = []" "ms \<noteq> [] \<Longrightarrow> m_ID (hd ns) = m_ID (hd ms) \<and> m_ParentMessageID (hd ns) = m_ParentMessageID (hd ms)"
    by (metis map_is_Nil_conv, metis hd_map map_is_Nil_conv)
  then show ?case using Cons.IH [OF eq(3,4)] Cons.prems(3) eq(1,2) ys by (simp add: chained_Cons)
qed simp

lemma message_by_id_Some:
  assumes "distinct (map m_ID messages)"
  shows "message_by_id messages i = Some m \<longleftrightarrow> m \<in> set messages \<and> m_ID m = i"
proof -
  have "distinct (map fst (rev (map (\<lambda>m. (m_ID m, m)) messages)))"
    using assms by (simp add: rev_map [symmetric] o_def)
  from map_of_eq_Some_iff [OF this] show ?thesis by (auto simp: message_by_id_def)
qed

lemma path_loop_chain:
  assumes "distinct (map m_ID messages)" "set xs \<subseteq> set messages" "chained xs"
    "\<forall>p. m_ParentMessageID (hd xs) = Some p \<longrightarrow> p \<notin> m_ID ` set messages"
  shows "n < length xs \<Longrightarrow> set visited \<inter> m_ID ` set (take (Suc n) xs) = {} \<Longrightarrow>
    path_loop messages visited (m_ID (xs ! n)) = rev (take (Suc n) xs)"
proof (induction n arbitrary: visited)
  case 0
  then have ne: "xs \<noteq> []" "xs ! 0 = hd xs" by (auto simp: hd_conv_nth)
  have "message_by_id messages (m_ID (hd xs)) = Some (hd xs)" using message_by_id_Some [OF assms(1)] assms(2) ne by auto
  moreover have "path_loop messages vs p = []" if "p \<notin> m_ID ` set messages" for vs p
  proof -
    have "message_by_id messages p \<noteq> Some m" for m using message_by_id_Some [OF assms(1), of p m] that by blast
    then have "message_by_id messages p = None" by (metis not_None_eq)
    then show ?thesis by (simp add: path_loop.simps)
  qed
  moreover have "m_ID (hd xs) \<notin> set visited" "0 < m_ID (hd xs)"
    using 0 ne chained_hd [OF assms(3)] by (auto simp: take_Suc)
  ultimately show ?case using ne assms(4) by (subst path_loop.simps) (auto simp: take_Suc split: option.split)
next
  case (Suc n)
  have c: "m_ParentMessageID (xs ! Suc n) = Some (m_ID (xs ! n))" "m_ID (xs ! n) < m_ID (xs ! Suc n)"
    using chained_nth [OF assms(3) Suc.prems(1)] by auto
  have t: "take (Suc (Suc n)) xs = take (Suc n) xs @ [xs ! Suc n]" using Suc.prems(1) by (rule take_Suc_conv_app_nth)
  have before: "m_ID m < m_ID (xs ! Suc n)" if m: "m \<in> set (take (Suc n) xs)" for m
  proof -
    obtain k where "k < Suc n" "xs ! k = m" using m Suc.prems(1) by (auto simp: in_set_conv_nth)
    then show ?thesis using chained_sorted [OF assms(3)] Suc.prems(1) by (auto simp: sorted_wrt_iff_nth_less)
  qed
  have "message_by_id messages (m_ID (xs ! Suc n)) = Some (xs ! Suc n)"
    using message_by_id_Some [OF assms(1)] assms(2) Suc.prems(1) nth_mem by blast
  moreover have "path_loop messages (m_ID (xs ! Suc n) # visited) (m_ID (xs ! n)) = rev (take (Suc n) xs)"
    using Suc.prems before by (intro Suc.IH) (fastforce simp: t)+
  moreover have "m_ID (xs ! Suc n) \<notin> set visited" using Suc.prems(2) unfolding t by auto
  ultimately show ?case using c by (subst path_loop.simps) (simp add: t)
qed

lemma build_path_chain:
  assumes "distinct (map m_ID messages)" "set xs \<subseteq> set messages" "chained xs" "xs \<noteq> []"
    "\<forall>p. m_ParentMessageID (hd xs) = Some p \<longrightarrow> p \<notin> m_ID ` set messages"
  shows "build_message_path messages (m_ID (last xs)) = xs"
proof -
  have "xs ! (length xs - 1) = last xs" "Suc (length xs - 1) = length xs" using assms(4) by (simp_all add: last_conv_nth)
  then have "path_loop messages [] (m_ID (last xs)) = rev xs"
    using path_loop_chain [OF assms(1,2,3,5), of "length xs - 1" "[]"] assms(4) by simp
  moreover have "messages \<noteq> []" using assms(2,4) by auto
  moreover have "m_ID (last xs) \<noteq> 0" using chained_pos [OF assms(3)] assms(4) by (metis last_in_set less_numeral_extra(3))
  ultimately show ?thesis by (simp add: build_message_path_def)
qed

section \<open>The context of a turn\<close>

lemma active_branch_step:
  assumes "tree_ok db" "in_conversation db c i = Some m"
  shows "active_branch jl db c i =
    (case m_ParentMessageID m of None \<Rightarrow> [] | Some p \<Rightarrow> active_branch jl db c p) @ [hydrated jl db m]"
  using branch_up_step [OF assms(1), of c i] assms(2) by (simp add: active_branch_def split: option.split)

lemma active_last:
  "tree_ok db \<Longrightarrow> in_conversation db c i = Some m \<Longrightarrow> active_branch jl db c i \<noteq> [] \<and> last (active_branch jl db c i) = hydrated jl db m"
  by (simp add: active_branch_step)

lemma chained_active:
  assumes "tree_ok db"
  shows "chained (active_branch jl db c i)"
proof (induction i rule: less_induct)
  case (less i)
  show ?case
  proof (cases "in_conversation db c i")
    case None
    then show ?thesis using branch_up_step [OF assms, of c i] by (simp add: active_branch_def)
  next
    case (Some m)
    have m: "m_ID m = i" "0 < i"
      using in_conversationD [OF Some] message_id_range [OF tree_ok_ids [OF assms], of m] by auto
    show ?thesis
    proof (cases "m_ParentMessageID m")
      case None
      then show ?thesis using m active_branch_step [OF assms Some] by simp
    next
      case p: (Some p)
      obtain q where q: "in_conversation db c p = Some q" "p < i"
        using parent_in_conversation [OF assms Some p] .
      have l: "active_branch jl db c p \<noteq> []" "m_ID (last (active_branch jl db c p)) = p"
        using active_last [OF assms q(1), of jl] in_conversationD [OF q(1)] by auto
      then show ?thesis
        using chained_snoc [OF less.IH [OF q(2)] l(1), of "hydrated jl db m"] m p q(2) active_branch_step [OF assms Some]
        by simp
    qed
  qed
qed

lemma from_boundary_drop: "\<exists>n. from_boundary snapshot xs = drop n xs"
proof (cases "snapshot_has_coverage snapshot \<and> list_ex (is_boundary snapshot) xs")
  case True
  then show ?thesis by (auto simp: from_boundary_def page_segment_def dropWhile_eq_drop)
next
  case False
  then show ?thesis by (intro exI [of _ 0]) (auto simp: from_boundary_def page_segment_def)
qed

lemma from_boundary_nonempty: "xs \<noteq> [] \<Longrightarrow> from_boundary snapshot xs \<noteq> []"
  using page_segment_nonempty [of snapshot xs] by (cases "page_segment snapshot xs") (simp add: from_boundary_def)

lemma from_boundary_last:
  assumes "xs \<noteq> []"
  shows "last (from_boundary snapshot xs) = last xs"
proof -
  obtain n where n: "from_boundary snapshot xs = drop n xs" using from_boundary_drop by blast
  moreover have "drop n xs \<noteq> []" using from_boundary_nonempty [OF assms, of snapshot] n by simp
  ultimately show ?thesis by (simp add: last_drop)
qed

lemma recover_maps:
  "map m_ID (recover_assistant_retry_user_states xs) = map m_ID xs"
  "map m_ParentMessageID (recover_assistant_retry_user_states xs) = map m_ParentMessageID xs"
  by (auto intro!: nth_equalityI simp: recover_nth)

lemma recover_last:
  assumes "xs \<noteq> []"
  shows "last (recover_assistant_retry_user_states xs) = last xs"
proof -
  obtain n where n: "length xs = Suc n" using assms by (cases xs) auto
  then have "recover_assistant_retry_user_states xs \<noteq> []" by (metis length_0_conv nat.distinct(2) recover_length)
  moreover have "\<not> is_recovered_assistant_retry_user xs n" by (simp add: is_recovered_assistant_retry_user_def n)
  ultimately show ?thesis using assms n by (simp add: last_conv_nth recover_nth)
qed

lemma usable_tail_suffix:
  assumes "xs \<noteq> []" "is_context_message (last xs)"
  shows "\<exists>n. usable_tail xs = drop n xs \<and> drop n xs \<noteq> []"
proof -
  obtain ys y where xs: "xs = ys @ [y]" using assms(1) by (cases xs rule: rev_cases) auto
  have "usable_tail xs = rev (takeWhile is_context_message (rev xs))" using assms(2) by (simp add: usable_tail_def xs)
  also have "takeWhile is_context_message (rev xs) = take (length (takeWhile is_context_message (rev xs))) (rev xs)"
    by (rule takeWhile_eq_take)
  finally have "usable_tail xs = drop (length xs - length (takeWhile is_context_message (rev xs))) xs" by (simp add: rev_take)
  moreover have "usable_tail xs \<noteq> []" using assms(2) by (simp add: usable_tail_def xs)
  ultimately show ?thesis by metis
qed

lemma usable_tail_unusable:
  assumes "xs \<noteq> []" "\<not> is_context_message (last xs)"
  shows "set (usable_tail xs) \<subseteq> set (butlast xs)"
proof -
  obtain ys y where xs: "xs = ys @ [y]" using assms(1) by (cases xs rule: rev_cases) auto
  have "set (usable_tail xs) \<subseteq> set (dropWhile (\<lambda>m. \<not> is_context_message m) (rev ys))"
    using assms(2) set_takeWhileD by (fastforce simp: usable_tail_def xs)
  also have "\<dots> \<subseteq> set (rev ys)" using set_dropWhileD by fastforce
  finally show ?thesis by (simp add: xs)
qed

lemma chained_distinct: "chained xs \<Longrightarrow> distinct (map m_ID xs)"
proof -
  have "sorted_wrt (\<lambda>m n. m_ID m < m_ID n) ys \<Longrightarrow> distinct (map m_ID ys)" for ys by (induction ys) auto
  then show "chained xs \<Longrightarrow> distinct (map m_ID xs)" using chained_sorted by blast
qed

lemma hd_parent_outside:
  assumes "chained xs" "xs \<noteq> []"
  shows "\<forall>p. m_ParentMessageID (hd xs) = Some p \<longrightarrow> p \<notin> m_ID ` set xs"
proof -
  obtain m ms where xs: "xs = m # ms" using assms(2) by (cases xs) auto
  have "m_ID m \<le> m_ID n" if "n \<in> set xs" for n using chained_sorted [OF assms(1)] that by (auto simp: xs)
  moreover have "\<forall>p. m_ParentMessageID m = Some p \<longrightarrow> p < m_ID m" using chained_hd [OF assms] by (simp add: xs)
  ultimately show ?thesis by (fastforce simp: xs)
qed

lemma path_of_chain: "chained xs \<Longrightarrow> xs \<noteq> [] \<Longrightarrow> build_message_path xs (m_ID (last xs)) = xs"
  using build_path_chain [of xs xs] chained_distinct hd_parent_outside by blast

lemma distinct_usable: "distinct (map m_ID xs) \<Longrightarrow> distinct (map m_ID (usable_tail xs))"
proof -
  assume d: "distinct (map m_ID xs)"
  have "suffix (dropWhile (\<lambda>m. \<not> is_context_message m) (rev xs)) (rev xs)" by (rule suffix_dropWhile)
  then obtain a where a: "rev xs = a @ dropWhile (\<lambda>m. \<not> is_context_message m) (rev xs)" by (auto simp: suffix_def)
  have "distinct (map m_ID (rev xs))" using d by (simp add: rev_map [symmetric])
  then have "distinct (map m_ID (dropWhile (\<lambda>m. \<not> is_context_message m) (rev xs)))" by (subst (asm) a) simp
  then have "distinct (map m_ID (takeWhile is_context_message (dropWhile (\<lambda>m. \<not> is_context_message m) (rev xs))))"
    by (metis distinct_append map_append takeWhile_dropWhile_id)
  then show ?thesis by (simp add: usable_tail_def rev_map [symmetric])
qed

text \<open>The chain a turn reads, with its reused user messages recovered.\<close>

lemma recovered_chain:
  assumes "tree_ok db" "in_conversation db c p = Some pm"
    and R_def: "R = recover_assistant_retry_user_states (from_boundary snapshot (active_branch jl db c p))"
  shows "chained R" "R \<noteq> []" "last R = hydrated jl db pm" "\<forall>m \<in> set R. m_ID m \<le> length (cd_messages db)"
proof -
  let ?chain = "from_boundary snapshot (active_branch jl db c p)"
  obtain n where n: "?chain = drop n (active_branch jl db c p)" using from_boundary_drop by blast
  have ne: "?chain \<noteq> []" using from_boundary_nonempty active_last [OF assms(1,2)] by blast
  have "chained ?chain" unfolding n by (rule chained_drop [OF chained_active [OF assms(1)]])
  then show "chained R" unfolding R_def by (rule chained_cong [OF recover_maps [symmetric]])
  show "R \<noteq> []" using ne unfolding R_def by (metis length_0_conv recover_length)
  show "last R = hydrated jl db pm"
    unfolding R_def using recover_last [OF ne] from_boundary_last active_last [OF assms(1,2)] by metis
  have "m_ID m \<le> length (cd_messages db)" if "m \<in> set ?chain" for m
  proof -
    have "m \<in> set (active_branch jl db c p)" using that n in_set_dropD by metis
    then obtain x where "x \<in> set (branch_up db c p)" "m = hydrated jl db x" by (auto simp: active_branch_def)
    then show ?thesis using branch_set [of x db c p] message_id_range [OF tree_ok_ids [OF assms(1)], of x] by simp
  qed
  then show "\<forall>m \<in> set R. m_ID m \<le> length (cd_messages db)"
    using recover_maps(1) [of ?chain] unfolding R_def by (metis imageE imageI set_map)
qed

lemma hydrated_context [simp]: "is_context_message (hydrated jl db m) = is_context_message m"
  by (simp add: is_context_message_def)

text \<open>
  C10: The context of a turn sent on the message \<open>p\<close>: the branch that was read, up to \<open>p\<close>, and the new
  message. By default the branch is cut to its usable end; but where \<open>p\<close> itself is not usable (a
  cancelled, failed or blocked answer) the cut separates the new message from its branch, and the
  context is the new message alone.
\<close>

theorem turn_path_is_branch:
  assumes ok: "tree_ok db" and pm: "in_conversation db c p = Some pm"
    and branch: "bs_ParentMessageID branch = Some p" "bs_ReuseUserMessage branch = None"
    and load: "load_message_branch_context jl db c branch snapshot reason = Inr branch'"
    and u: "m_ParentMessageID u = Some p" "length (cd_messages db) < m_ID u"
  shows "build_branch_message_path branch' u =
    (if reason = ''default'' \<and> \<not> is_context_message pm then [u]
     else kept_context reason (from_boundary snapshot (active_branch jl db c p)) @ [u])"
proof -
  let ?chain = "from_boundary snapshot (active_branch jl db c p)"
  define R where "R = recover_assistant_retry_user_states ?chain"
  note R = recovered_chain [OF ok pm R_def]
  have p: "m_ID pm = p" "0 < p"
    using in_conversationD [OF pm] message_id_range [OF tree_ok_ids [OF ok], of pm] by auto
  have b: "bs_ExistingMessages branch' = kept_context reason ?chain" "bs_ReuseUserMessage branch' = None"
    using load branch paged_reading [OF ok branch(1) p(2), of jl c snapshot reason]
    by (auto simp: Let_def split: if_splits)
  have lastR: "m_ID (last R) = p" "is_context_message (last R) = is_context_message pm" using R(3) p by simp_all
  have pu: "p < m_ID u"
    using in_conversationD [OF pm] message_id_range [OF tree_ok_ids [OF ok], of pm] u(2) by auto
  have new: "m_ID u \<notin> m_ID ` set xs" if "set xs \<subseteq> set R" for xs using R(4) u(2) that by fastforce
  show ?thesis
  proof (cases "reason = ''default'' \<and> \<not> is_context_message pm")
    case True
    then have k: "kept_context reason ?chain = usable_tail R" by (simp add: kept_context_def R_def)
    have t: "set (usable_tail R) \<subseteq> set (butlast R)" using usable_tail_unusable [OF R(2)] lastR True by simp
    then have tR: "set (usable_tail R) \<subseteq> set R" using in_set_butlastD by fastforce
    have "distinct (map m_ID (butlast R @ [last R]))" using chained_distinct [OF R(1)] R(2) by simp
    then have "p \<notin> m_ID ` set (usable_tail R)" using t lastR by auto
    moreover have "distinct (map m_ID (usable_tail R))"
      by (rule distinct_usable [OF chained_distinct [OF R(1)]])
    ultimately have "build_message_path (usable_tail R @ [u]) (m_ID (last [u])) = [u]"
      using new [OF tR] u p pu by (intro build_path_chain) auto
    then show ?thesis using True b k by (simp add: build_branch_message_path_def)
  next
    case False
    obtain n where n: "kept_context reason ?chain = drop n R" "drop n R \<noteq> []"
    proof (cases "reason = ''default''")
      case True
      then show ?thesis using False that usable_tail_suffix [OF R(2)] lastR by (auto simp: kept_context_def R_def)
    next
      case other: False
      then show ?thesis using that [of 0] R(2) by (simp add: kept_context_def R_def)
    qed
    have "last (drop n R) = last R" using n(2) by (simp add: last_drop)
    then have c: "chained (drop n R @ [u])"
      using u(1) lastR(1) pu n(2) by (intro chained_snoc chained_drop R(1)) simp_all
    show ?thesis using path_of_chain [OF c] False b n(1) by (auto simp: build_branch_message_path_def)
  qed
qed

section \<open>A sample conversation\<close>

text \<open>A question and its answer, a second question with a cancelled answer.\<close>

definition sample_conversation :: conversation where
  "sample_conversation = \<lparr>c_ID = 1, c_UserID = 7, c_ProjectID = None, c_PublicID = ''c1'', c_Title = ''t'', c_LabelsJSON = [],
     c_LabelsManuallyManaged = False, c_Model = ''m'', c_Provider = [], c_SessionKey = [], c_IsStarred = False,
     c_StarredAt = None, c_MessageCount = 4, c_Status = ''active'', c_ContextPolicy = [], c_LastCompactedAt = None,
     c_LastResponseID = [], c_LastPromptFingerprint = [], c_DeletedAt = None\<rparr>"

definition sample_message :: "nat \<Rightarrow> string \<Rightarrow> string \<Rightarrow> message" where
  "sample_message i role status = blank_message\<lparr>m_ID := i, m_ConversationID := 1, m_UserID := 7,
     m_PublicID := CHR ''m'' # dec i, m_ParentMessageID := (if i = 1 then None else Some (i - 1)),
     m_Role := role, m_Content := ''text'', m_Status := status\<rparr>"

definition sample_chat :: chat_db where
  "sample_chat = empty_chat\<lparr>cd_conversations := [sample_conversation],
     cd_messages := [sample_message 1 ''user'' ''success'', sample_message 2 ''assistant'' ''success'',
       sample_message 3 ''user'' ''success'', sample_message 4 ''assistant'' ''canceled'']\<rparr>"

definition sample_json :: json_lib where
  "sample_json = \<lparr>jl_SnapshotsLen = length, jl_DurationSeconds = (\<lambda>_. 0)\<rparr>"

lemma sample_message_simps [simp]:
  "m_ID (sample_message i r s) = i" "m_ConversationID (sample_message i r s) = 1" "m_UserID (sample_message i r s) = 7"
  "m_PublicID (sample_message i r s) = CHR ''m'' # dec i" "m_Role (sample_message i r s) = r" "m_Status (sample_message i r s) = s"
  "m_ParentMessageID (sample_message i r s) = (if i = 1 then None else Some (i - 1))"
  by (simp_all add: sample_message_def)

lemma sample_tree: "tree_ok sample_chat"
proof -
  have "ids_ok sample_chat" by code_simp
  moreover have "list_all (parent_ok sample_chat) (cd_messages sample_chat)"
    by (simp add: sample_chat_def parent_ok_def)
  moreover have "list_all (owner_ok sample_chat) (cd_messages sample_chat)"
    by (simp add: sample_chat_def owner_ok_def sample_conversation_def)
  moreover have "counts_off 0 0 sample_chat"
    by (simp add: sample_chat_def counts_off_def sample_conversation_def messages_of_def)
  ultimately show ?thesis by (simp add: tree_ok_def links_ok_def list_all_iff)
qed

lemma sample_in:
  "in_conversation sample_chat 1 4 = Some (sample_message 4 ''assistant'' ''canceled'')"
  "in_conversation sample_chat 1 2 = Some (sample_message 2 ''assistant'' ''success'')"
  by (simp_all add: in_conversation_def sample_chat_def)

lemma sample_branch: "map m_ID (active_branch sample_json sample_chat 1 4) = [1, 2, 3, 4]"
  "length (active_branch sample_json sample_chat 1 4) = 4"
  "context_messages_payload_bytes sample_json (active_branch sample_json sample_chat 1 4) = 16"
  by (code_simp, code_simp, code_simp)

lemma sample_canceled: "\<not> is_context_message (sample_message 4 ''assistant'' ''canceled'')"
  by code_simp

definition sample_parent :: "nat \<Rightarrow> branch_state" where
  "sample_parent p = \<lparr>bs_ExistingMessages = [], bs_ParentMessageID = Some p, bs_ParentPublicID = [],
     bs_SourceMessageID = None, bs_SourcePublicID = [], bs_ReuseUserMessage = None\<rparr>"

lemma from_boundary_None [simp]: "from_boundary None xs = xs"
  by (simp add: from_boundary_def page_segment_def snapshot_has_coverage_def)

theorem paged_reading_is_exact_witness:
  "\<exists>ms. load_message_branch_context sample_json sample_chat 1 (sample_parent 4) None ''edit'' =
       Inr ((sample_parent 4)\<lparr>bs_ExistingMessages := ms\<rparr>) \<and> map m_ID ms = [1, 2, 3, 4]"
proof -
  have "load_message_branch_context sample_json sample_chat 1 (sample_parent 4) None ''edit'' =
      Inr ((sample_parent 4)\<lparr>bs_ExistingMessages := kept_context ''edit'' (active_branch sample_json sample_chat 1 4)\<rparr>)"
    using paged_reading_is_exact [OF sample_tree, of "sample_parent 4" 4 sample_json 1 None "''edit''"] sample_branch
    by (simp add: sample_parent_def)
  then show ?thesis using sample_branch(1) recover_maps(1) by (auto simp: kept_context_def)
qed

lemma sample_load:
  obtains branch' where "load_message_branch_context sample_json sample_chat 1 (sample_parent 4) None ''default'' = Inr branch'"
  using paged_reading [OF sample_tree, of "sample_parent 4" 4 sample_json 1 None "''default''"] sample_branch that
  by (simp add: sample_parent_def within_limits_def context_ancestor_max_count_def context_ancestor_max_bytes_def)

text \<open>A message sent on the cancelled answer is sent without its history.\<close>

theorem turn_path_is_branch_witness:
  "\<exists>branch'. load_message_branch_context sample_json sample_chat 1 (sample_parent 4) None ''default'' = Inr branch' \<and>
     build_branch_message_path branch' (sample_message 5 ''user'' ''pending'') = [sample_message 5 ''user'' ''pending'']"
proof -
  obtain branch' where b: "load_message_branch_context sample_json sample_chat 1 (sample_parent 4) None ''default'' = Inr branch'"
    using sample_load .
  have "length (cd_messages sample_chat) = 4" by (simp add: sample_chat_def)
  then show ?thesis
    using turn_path_is_branch [OF sample_tree sample_in(1) _ _ b, of "sample_message 5 ''user'' ''pending''"] b sample_canceled
    by (simp add: sample_parent_def)
qed

end
