(* ===== verification/Turn_Start.thy ===== *)
theory Turn_Start
  imports Message_Branch
begin

text \<open>
  The first part of sending a message (\<^verbatim>\<open>application/conversation/service_message_send.go\<close>,
  \<^verbatim>\<open>service_message_preparation.go\<close>): the branch is prepared, the attachments are resolved, and the
  user message is written with the placeholder of its answer.

  The resolution of the attachments (the file service) and the fresh identifiers are arguments.
\<close>

section \<open>Sending\<close>

record send_input =
  si_UserID :: nat
  si_ConversationID :: nat
  si_ContentType :: string
  si_Content :: string
  si_FileIDs :: "string list"
  si_ParentMessagePublicID :: string
  si_SourceMessagePublicID :: string
  si_BranchReason :: string

record attachment_input =
  ai_FileID :: string
  ai_Kind :: string
  ai_FileName :: string
  ai_MimeType :: string
  ai_DetectedMIME :: string
  ai_FileCategory :: string
  ai_FileSize :: int
  ai_SHA256 :: string
  ai_StoragePath :: string
  ai_MetaJSON :: string
  ai_ProcessingStatus :: string
  ai_ProcessingReady :: bool
  ai_ProcessingErrorCode :: string
  ai_ProcessingErrorMessage :: string
  ai_DurationSeconds :: int

definition parse_attachment_snapshot_file_ids :: "attachment_snapshot list \<Rightarrow> string list" where
  "parse_attachment_snapshot_file_ids items =
     filter (\<lambda>fileID. fileID \<noteq> []) (map (\<lambda>item. trim_space (as_FileID item)) items)"

record branch_preparation =
  bp_branchState :: branch_state
  bp_normalizedBranchReason :: string
  bp_reuseUserMessage :: bool

definition prepare_message_send_branch ::
    "json_lib \<Rightarrow> int \<Rightarrow> send_input \<Rightarrow> chat_db \<Rightarrow> conversation_error + branch_preparation \<times> send_input" where
  "prepare_message_send_branch jl maxMessageFiles input db =
     (let reason = normalize_branch_reason (si_BranchReason input) in
      case resolve_message_branch jl db (si_ConversationID input) (si_UserID input)
             (si_ParentMessagePublicID input) (si_SourceMessagePublicID input) reason of
        Inl err \<Rightarrow> Inl err
      | Inr branch \<Rightarrow>
          let reuse = (bs_ReuseUserMessage branch \<noteq> None);
              input' = (case bs_ReuseUserMessage branch of None \<Rightarrow> input
                 | Some m \<Rightarrow> input\<lparr>si_Content := m_Content m,
                     si_FileIDs := parse_attachment_snapshot_file_ids (m_Attachments m)\<rparr>);
              maxFiles = (if maxMessageFiles \<le> 0 then 10 else maxMessageFiles)
          in if int (length (si_FileIDs input')) > maxFiles then Inl ErrTooManyMessageFiles
             else Inr (\<lparr>bp_branchState = branch, bp_normalizedBranchReason = reason, bp_reuseUserMessage = reuse\<rparr>, input'))"

definition infer_attachment_kind :: "string \<Rightarrow> string" where
  "infer_attachment_kind mimeType =
     (if has_prefix (to_lower (trim_space mimeType)) ''image/'' then ''image'' else ''file'')"

definition normalize_attachment_kind :: "string \<Rightarrow> string \<Rightarrow> string" where
  "normalize_attachment_kind kind mimeType =
     (if trim_space kind \<noteq> [] then trim_space kind else infer_attachment_kind mimeType)"

definition fallback_content_type :: "string \<Rightarrow> string" where
  "fallback_content_type contentType = (if trim_space contentType = [] then ''text'' else trim_space contentType)"

definition build_file_attachment_snapshot :: "attachment_input \<Rightarrow> attachment_snapshot" where
  "build_file_attachment_snapshot att =
     \<lparr>as_FileID = ai_FileID att, as_Kind = ai_Kind att, as_FileName = ai_FileName att, as_MimeType = ai_MimeType att,
      as_DetectedMIME = ai_DetectedMIME att, as_FileCategory = ai_FileCategory att, as_FileSize = ai_FileSize att,
      as_ProcessingStatus = ai_ProcessingStatus att, as_ProcessingReady = ai_ProcessingReady att,
      as_ProcessingErrorCode = ai_ProcessingErrorCode att, as_ProcessingErrorMessage = ai_ProcessingErrorMessage att,
      as_DurationSeconds = (if ai_DurationSeconds att > 0 then ai_DurationSeconds att else 0)\<rparr>"

definition attachment_row :: "send_input \<Rightarrow> gtime \<Rightarrow> attachment_input \<Rightarrow> attachment" where
  "attachment_row input now item =
     \<lparr>at_ID = 0, at_ConversationID = si_ConversationID input, at_MessageID = 0, at_UserID = si_UserID input,
      at_FileID = trim_space (ai_FileID item), at_Kind = normalize_attachment_kind (ai_Kind item) (ai_MimeType item),
      at_FileName = trim_space (ai_FileName item), at_MimeType = trim_space (ai_MimeType item),
      at_FileSize = ai_FileSize item, at_SHA256 = trim_space (ai_SHA256 item),
      at_StoragePath = trim_space (ai_StoragePath item), at_Status = ''active'',
      at_MetaJSON = trim_space (ai_MetaJSON item), at_UploadedAt = now\<rparr>"

text \<open>A turn is pending, or already rejected with an error code and a message.\<close>

type_synonym rejected = "(string \<times> string) option"

definition turn_status :: "rejected \<Rightarrow> string \<times> string \<times> string" where
  "turn_status rejected = (case rejected of None \<Rightarrow> (''pending'', [], [])
     | Some (code, msg) \<Rightarrow> (''error'', trim_space code, truncate_error (trim_space msg) 255))"

definition assistant_placeholder :: "send_input \<Rightarrow> string \<Rightarrow> string \<Rightarrow> string \<Rightarrow> rejected \<Rightarrow> message" where
  "assistant_placeholder input runID uuid reason rejected =
     (case turn_status rejected of (status, code, msg) \<Rightarrow>
        blank_message\<lparr>m_ConversationID := si_ConversationID input, m_UserID := si_UserID input,
          m_PublicID := normalize_public_id uuid, m_RunID := runID, m_Role := ''assistant'', m_ContentType := ''text'',
          m_BranchReason := reason, m_Status := status, m_ErrorCode := code, m_ErrorMessage := msg\<rparr>)"

definition user_message_of ::
    "send_input \<Rightarrow> string \<Rightarrow> string \<Rightarrow> branch_preparation \<Rightarrow> attachment_input list \<Rightarrow> rejected \<Rightarrow> message" where
  "user_message_of input runID uuid prep attachments rejected =
     (case turn_status rejected of (status, code, msg) \<Rightarrow>
        let tokens = (if rejected = None then estimate_tokens (si_Content input) else 0) in
        blank_message\<lparr>m_ConversationID := si_ConversationID input, m_UserID := si_UserID input,
          m_PublicID := normalize_public_id uuid, m_ParentMessageID := bs_ParentMessageID (bp_branchState prep),
          m_RunID := runID, m_Role := ''user'', m_ContentType := fallback_content_type (si_ContentType input),
          m_Content := si_Content input, m_BranchReason := bp_normalizedBranchReason prep,
          m_SourceMessageID := bs_SourceMessageID (bp_branchState prep), m_TokenUsage := tokens, m_InputTokens := tokens,
          m_Attachments := map build_file_attachment_snapshot attachments,
          m_Status := status, m_ErrorCode := code, m_ErrorMessage := msg\<rparr>)"

text \<open>Creating the turn: the answer to a reused user message, or a user message with its answer.\<close>

definition create_message_pair ::
    "send_input \<Rightarrow> string \<Rightarrow> branch_preparation \<Rightarrow> attachment_input list \<Rightarrow> rejected \<Rightarrow> string \<Rightarrow> string \<Rightarrow> gtime \<Rightarrow> chat_db \<Rightarrow>
     chat_db \<times> (conversation_error + message \<times> message)" where
  "create_message_pair input runID prep attachments rejected assistantUUID userUUID now db =
     (let branch = bp_branchState prep;
          assistant = assistant_placeholder input runID assistantUUID (bp_normalizedBranchReason prep) rejected
      in case bs_ReuseUserMessage branch of
           Some userMessage \<Rightarrow>
             (case create_assistant_branch_message (assistant\<lparr>m_ParentMessageID := Some (m_ID userMessage),
                     m_SourceMessageID := bs_SourceMessageID branch\<rparr>) db of
                (db', Inl err) \<Rightarrow> (db', Inl (ErrRepository err))
              | (db', Inr a) \<Rightarrow> (db', Inr (userMessage, a\<lparr>m_ParentPublicID := m_PublicID userMessage,
                                    m_SourcePublicID := bs_SourcePublicID branch\<rparr>)))
         | None \<Rightarrow>
             (case create_message_pair_with_user_attachments
                     (user_message_of input runID userUUID prep attachments rejected) assistant
                     (map (attachment_row input now) attachments) db of
                (db', Inl err) \<Rightarrow> (db', Inl (ErrRepository err))
              | (db', Inr (u, a)) \<Rightarrow> (db', Inr (u\<lparr>m_ParentPublicID := bs_ParentPublicID branch,
                   m_SourcePublicID := bs_SourcePublicID branch\<rparr>, a\<lparr>m_ParentPublicID := m_PublicID u\<rparr>))))"

text \<open>
  The first part of sending a message: the conversation must be the user's, the branch is resolved,
  the attachments are, and the turn is written. \<open>resolve\<close> is the resolution of the attachments.
\<close>

definition begin_turn ::
    "json_lib \<Rightarrow> int \<Rightarrow> (nat \<Rightarrow> string list \<Rightarrow> conversation_error + attachment_input list) \<Rightarrow> send_input \<Rightarrow> string \<Rightarrow>
     rejected \<Rightarrow> string \<Rightarrow> string \<Rightarrow> gtime \<Rightarrow> chat_db \<Rightarrow>
     chat_db \<times> (conversation_error + branch_preparation \<times> message \<times> message)" where
  "begin_turn jl maxMessageFiles resolve input0 runID rejected assistantUUID userUUID now db =
     (case get_conversation_by_user db (si_ConversationID input0) (si_UserID input0) of
        Inl _ \<Rightarrow> (db, Inl ErrConversationNotFound)
      | Inr _ \<Rightarrow>
     (case prepare_message_send_branch jl maxMessageFiles input0 db of
        Inl err \<Rightarrow> (db, Inl err)
      | Inr (prep, input) \<Rightarrow>
     (case resolve (si_UserID input) (si_FileIDs input) of
        Inl err \<Rightarrow> (db, Inl err)
      | Inr attachments \<Rightarrow>
     (case create_message_pair input runID prep attachments rejected assistantUUID userUUID now db of
        (db', Inl err) \<Rightarrow> (db', Inl err)
      | (db', Inr (u, a)) \<Rightarrow> (db', Inr (prep, u, a))))))"

section \<open>What sending keeps\<close>

lemma find_mem: "find P xs = Some x \<Longrightarrow> x \<in> set xs \<and> P x"
  by (auto simp: find_Some_iff)

lemma resolved_in_conversation:
  assumes "ids_ok db" "resolve_by_public_id jl db c u s = Inr (Some m)"
  shows "\<exists>r. in_conversation db c (m_ID m) = Some r \<and> m = hydrated jl db r"
proof -
  have "get_message_by_public_id jl db c u (trim_space s) = Inr m"
    using assms(2) by (auto simp: resolve_by_public_id_def Let_def split: if_splits sum.splits)
  then obtain r where r: "r \<in> set (cd_messages db)" "m_ConversationID r = c" "m = hydrated jl db r"
    by (auto simp: get_message_by_public_id_def first_message_Inr [OF assms(1)] dest!: find_mem)
  then show ?thesis by (intro exI [of _ r]) (simp add: in_conversation_Some [OF assms(1)])
qed

lemma got_in_conversation:
  assumes "ids_ok db" "get_message_by_id jl db c p = Inr m"
  shows "m_ID m = p \<and> (\<exists>r. in_conversation db c p = Some r \<and> m = hydrated jl db r)"
proof -
  obtain r where "r \<in> set (cd_messages db)" "m_ConversationID r = c" "m_ID r = p" "m = hydrated jl db r"
    using assms(2) by (auto simp: get_message_by_id_def first_message_Inr [OF assms(1)] dest!: find_mem)
  then show ?thesis using in_conversation_Some [OF assms(1), of c p r] by auto
qed

lemma preview_in_conversation:
  assumes "ids_ok db" "m \<in> set (list_latest_branch_preview_messages db c depth limit)"
  shows "\<exists>r. in_conversation db c (m_ID m) = Some r"
proof -
  obtain d i x where "x \<in> set (ancestors_up db c d i)" "m = preview_row c x"
    using assms(2) by (auto simp: list_latest_branch_preview_messages_def Let_def dest!: in_set_takeD split: option.splits)
  then show ?thesis using ancestors_set [of x db c d i] assms(1)
    by (auto simp: preview_row_def in_conversation_Some)
qed

lemma candidate_mem: "select_latest_default_parent_candidate ms = Some m \<Longrightarrow> m \<in> set ms"
  by (auto simp: select_latest_default_parent_candidate_def find_Some_iff split: option.splits)
     (metis length_rev nth_mem set_rev)+

text \<open>The parent a branch resolves to is a message of the conversation.\<close>

lemma check_source_parent:
  assumes "ids_ok db" "check_source jl db c source parent reason = Inr (Some m)"
    "parent = Some m \<Longrightarrow> \<exists>r. in_conversation db c (m_ID m) = Some r"
  shows "\<exists>r. in_conversation db c (m_ID m) = Some r"
proof -
  have "\<exists>p. get_message_by_id jl db c p = Inr m \<or> parent = Some m"
    using assms(2) by (auto simp: check_source_def expected_parent_def split: option.splits if_splits sum.splits)
  then show ?thesis using assms(3) got_in_conversation [OF assms(1)] by blast
qed

lemma resolved_parent:
  assumes "ids_ok db" "resolve_message_branch jl db c u ps ss reason = Inr branch"
  shows "bs_ParentMessageID branch = Some p \<Longrightarrow> \<exists>r. in_conversation db c p = Some r"
    "bs_ReuseUserMessage branch = Some m \<Longrightarrow> bs_ParentMessageID branch = Some (m_ID m)"
proof -
  obtain parent0 source where 1: "resolve_by_public_id jl db c u ps = Inr parent0"
    "resolve_by_public_id jl db c u ss = Inr source"
    using assms(2) by (auto simp: resolve_message_branch_def split: sum.splits)
  obtain parent1 where 2: "check_source jl db c source parent0 reason = Inr parent1"
    using assms(2) 1 by (auto simp: resolve_message_branch_def split: sum.splits)
  define parent where "parent = (if parent1 = None \<and> source = None
      then select_latest_default_parent_candidate (list_latest_branch_preview_messages db c
             default_branch_preview_depth default_branch_preview_limit) else parent1)"
  have b: "branch = branch_state_of parent source"
    using assms(2) 1 2 by (simp add: resolve_message_branch_def parent_def)
  show "bs_ReuseUserMessage branch = Some m \<Longrightarrow> bs_ParentMessageID branch = Some (m_ID m)"
    by (auto simp: b branch_state_of_def split: option.splits if_splits)
  assume "bs_ParentMessageID branch = Some p"
  then obtain q where q: "parent = Some q" "m_ID q = p" by (auto simp: b branch_state_of_def)
  show "\<exists>r. in_conversation db c p = Some r"
  proof (cases "parent1 = None \<and> source = None")
    case True
    then show ?thesis using q candidate_mem preview_in_conversation [OF assms(1)] unfolding parent_def by fastforce
  next
    case False
    then have "parent = parent1" unfolding parent_def by (rule if_not_P)
    then have "parent1 = Some q" using q by simp
    moreover have "\<exists>r. in_conversation db c (m_ID q) = Some r" if "parent0 = Some q"
      using resolved_in_conversation [OF assms(1)] 1(1) that by blast
    ultimately show ?thesis using check_source_parent [OF assms(1)] 2 q(2) by blast
  qed
qed

lemma conversation_owner:
  assumes "get_conversation_by_user db c u = Inr conv" "m_ConversationID m = c" "m_UserID m = u"
  shows "owner_ok db m"
proof -
  obtain x where "x \<in> set (cd_conversations db)" "c_ID x = c" "c_UserID x = u"
    using assms(1) by (auto simp: get_conversation_by_user_def split: option.splits dest!: find_mem)
  then show ?thesis using assms(2,3) by (auto simp: owner_ok_def)
qed

lemma blank_messages [simp]:
  "m_ConversationID (assistant_placeholder input runID uuid reason rejected) = si_ConversationID input"
  "m_UserID (assistant_placeholder input runID uuid reason rejected) = si_UserID input"
  "m_ConversationID (user_message_of input runID uuid prep atts rejected) = si_ConversationID input"
  "m_UserID (user_message_of input runID uuid prep atts rejected) = si_UserID input"
  "m_ParentMessageID (user_message_of input runID uuid prep atts rejected) = bs_ParentMessageID (bp_branchState prep)"
  by (auto simp: assistant_placeholder_def user_message_of_def Let_def split: prod.splits)

lemma prepared_branch:
  assumes "prepare_message_send_branch jl mx input db = Inr (prep, input')"
  shows "resolve_message_branch jl db (si_ConversationID input) (si_UserID input) (si_ParentMessagePublicID input)
      (si_SourceMessagePublicID input) (bp_normalizedBranchReason prep) = Inr (bp_branchState prep)"
    "si_ConversationID input' = si_ConversationID input" "si_UserID input' = si_UserID input"
    "bp_reuseUserMessage prep \<longleftrightarrow> bs_ReuseUserMessage (bp_branchState prep) \<noteq> None"
  using assms by (auto simp: prepare_message_send_branch_def Let_def split: sum.splits option.splits if_splits)

text \<open>What one new message at the end of a branch makes of it.\<close>

lemma grows_branch_ids:
  assumes "tree_grows db db'" "tree_ok db" "tree_ok db'" "in_conversation db c p = Some q"
  shows "map m_ID (branch_up db' c p) = map m_ID (branch_up db c p)"
proof -
  have "map m_ID xs = map m_ID ys" if "list_all2 same_place xs ys" for xs ys
    using that by induction (auto simp: same_place_def)
  then show ?thesis using branch_grows [OF assms] by metis
qed

lemma branch_ids_step:
  assumes "tree_ok db" "m \<in> set (cd_messages db)" "m_ConversationID m = c"
  shows "map m_ID (branch_up db c (m_ID m)) =
    m_ID m # (case m_ParentMessageID m of None \<Rightarrow> [] | Some p \<Rightarrow> map m_ID (branch_up db c p))"
proof -
  have "in_conversation db c (m_ID m) = Some m" using assms by (simp add: in_conversation_Some)
  then show ?thesis using branch_up_step [OF assms(1), of c "m_ID m"] by (auto split: option.splits)
qed

lemma message_pair_rows:
  assumes "message_pair_body userMessage assistantMessage atts db = Inr ((u, a), db')"
  obtains db2 where "length (cd_messages db2) = Suc (length (cd_messages db))"
    "cd_messages db' = cd_messages db @ [fresh_row userMessage db,
       fresh_row (assistantMessage\<lparr>m_ParentMessageID := Some (m_ID u)\<rparr>) db2]"
proof -
  obtain db1 db2 db3 x where 1: "create_message userMessage db = Inr (u, db1)"
    and 2: "cd_messages db2 = cd_messages db1" "cd_conversations db2 = cd_conversations db1"
    and 3: "create_message (assistantMessage\<lparr>m_ParentMessageID := Some (m_ID u)\<rparr>) db2 = Inr (a, db3)"
    and 4: "bump_message_count (m_ConversationID u) 2 db3 = Inr (x, db')"
    using message_pair_steps [OF assms] .
  have "cd_messages db' = cd_messages db3"
    using 4 by (auto simp: bump_message_count_def update_conversation_def split: if_splits)
  then show ?thesis using that [of db2] create_message_fields(12) [OF 1] create_message_fields(12) [OF 3] 2(1) by simp
qed

text \<open>The turn a message starts, by identifiers: the answer, and the user message unless it is reused.\<close>

definition turn_ids :: "branch_preparation \<Rightarrow> message \<Rightarrow> message \<Rightarrow> nat list" where
  "turn_ids prep u a = m_ID a # (if bp_reuseUserMessage prep then [] else [m_ID u])"

definition parent_branch_ids :: "chat_db \<Rightarrow> nat \<Rightarrow> branch_preparation \<Rightarrow> nat list" where
  "parent_branch_ids db c prep = (case bs_ParentMessageID (bp_branchState prep) of None \<Rightarrow> []
     | Some p \<Rightarrow> map m_ID (branch_up db c p))"

lemma parent_branch_grows:
  assumes "tree_grows db db'" "tree_ok db" "tree_ok db'"
    "\<And>p. par = Some p \<Longrightarrow> \<exists>r. in_conversation db c p = Some r"
  shows "(case par of None \<Rightarrow> [] | Some p \<Rightarrow> map m_ID (branch_up db' c p)) =
    (case par of None \<Rightarrow> [] | Some p \<Rightarrow> map m_ID (branch_up db c p))"
  using assms grows_branch_ids [OF assms(1-3)] by (auto split: option.splits)

lemma reuse_turn:
  assumes ok: "tree_ok db"
    and body: "branch_message_body item db = Inr (a, db')"
    and own: "owner_ok db item" and par: "m_ParentMessageID item = Some p" and p: "in_conversation db (m_ConversationID item) p = Some q"
  shows "tree_ok db' \<and> tree_grows db db' \<and>
    map m_ID (branch_up db' (m_ConversationID item) (m_ID a)) = m_ID a # map m_ID (branch_up db (m_ConversationID item) p)"
proof -
  have place: "placeable db item" using own par in_conversationD [OF p] by (auto simp: placeable_def)
  note t = branch_message_tree [OF body ok place]
  have ids: "map m_ID (branch_up db' (m_ConversationID item) (m_ID (fresh_row item db))) =
      m_ID (fresh_row item db) # map m_ID (branch_up db' (m_ConversationID item) p)"
    using branch_ids_step [OF t(1), of "fresh_row item db" "m_ConversationID item"] par t(3) by simp
  then show ?thesis using t grows_branch_ids [OF t(2) ok t(1) p] by simp
qed

lemma pair_turn:
  assumes ok: "tree_ok db"
    and body: "message_pair_body userMessage assistantMessage atts db = Inr ((u, a), db')"
    and own: "owner_ok db userMessage"
    and same: "m_ConversationID assistantMessage = m_ConversationID userMessage" "m_UserID assistantMessage = m_UserID userMessage"
    and par: "\<And>p. m_ParentMessageID userMessage = Some p \<Longrightarrow> \<exists>r. in_conversation db (m_ConversationID userMessage) p = Some r"
  shows "tree_ok db' \<and> tree_grows db db' \<and> map m_ID (branch_up db' (m_ConversationID userMessage) (m_ID a)) =
    [m_ID a, m_ID u] @ (case m_ParentMessageID userMessage of None \<Rightarrow> []
       | Some p \<Rightarrow> map m_ID (branch_up db (m_ConversationID userMessage) p))"
proof -
  let ?c = "m_ConversationID userMessage"
  have place: "placeable db userMessage" using own par in_conversationD by (fastforce simp: placeable_def split: option.splits)
  note t = message_pair_tree [OF body ok place same]
  obtain db2 where rows: "length (cd_messages db2) = Suc (length (cd_messages db))"
    "cd_messages db' = cd_messages db @ [fresh_row userMessage db,
       fresh_row (assistantMessage\<lparr>m_ParentMessageID := Some (m_ID u)\<rparr>) db2]"
    using message_pair_rows [OF body] .
  define ru where "ru = fresh_row userMessage db"
  define ra where "ra = fresh_row (assistantMessage\<lparr>m_ParentMessageID := Some (m_ID u)\<rparr>) db2"
  have mem: "ru \<in> set (cd_messages db')" "ra \<in> set (cd_messages db')" by (simp_all add: rows(2) ru_def ra_def)
  have f: "m_ID ru = m_ID u" "m_ID ra = m_ID a" "m_ParentMessageID ra = Some (m_ID u)"
    "m_ParentMessageID ru = m_ParentMessageID userMessage" "m_ConversationID ra = ?c" "m_ConversationID ru = ?c"
    using t rows(1) same by (simp_all add: ru_def ra_def)
  have "map m_ID (branch_up db' ?c (m_ID a)) = m_ID a # map m_ID (branch_up db' ?c (m_ID u))"
    using branch_ids_step [OF t(1) mem(2) f(5)] f by simp
  moreover have "map m_ID (branch_up db' ?c (m_ID u)) = m_ID u # (case m_ParentMessageID userMessage of None \<Rightarrow> []
       | Some p \<Rightarrow> map m_ID (branch_up db' ?c p))"
    using branch_ids_step [OF t(1) mem(1) f(6)] f by simp
  ultimately show ?thesis
    using t(1,2) parent_branch_grows [OF t(2) ok t(1), of "m_ParentMessageID userMessage" ?c] par by simp
qed

lemma created_pair:
  assumes ok: "tree_ok db"
    and pair: "create_message_pair input runID prep atts rejected aid uid now db = (db', Inr (u, a))"
    and own: "\<And>m. m_ConversationID m = si_ConversationID input \<Longrightarrow> m_UserID m = si_UserID input \<Longrightarrow> owner_ok db m"
    and par: "\<And>p. bs_ParentMessageID (bp_branchState prep) = Some p \<Longrightarrow> \<exists>r. in_conversation db (si_ConversationID input) p = Some r"
    and reuse: "\<And>m. bs_ReuseUserMessage (bp_branchState prep) = Some m \<Longrightarrow> bs_ParentMessageID (bp_branchState prep) = Some (m_ID m)"
      "bp_reuseUserMessage prep \<longleftrightarrow> bs_ReuseUserMessage (bp_branchState prep) \<noteq> None"
  shows "tree_ok db' \<and> tree_grows db db' \<and>
    map m_ID (branch_up db' (si_ConversationID input) (m_ID a)) =
      turn_ids prep u a @ parent_branch_ids db (si_ConversationID input) prep"
proof (cases "bs_ReuseUserMessage (bp_branchState prep)")
  case None
  obtain u0 a0 where b: "message_pair_body (user_message_of input runID uid prep atts rejected)
      (assistant_placeholder input runID aid (bp_normalizedBranchReason prep) rejected)
      (map (attachment_row input now) atts) db = Inr ((u0, a0), db')" "m_ID u = m_ID u0" "m_ID a = m_ID a0"
    using pair None by (auto simp: create_message_pair_def create_message_pair_with_user_attachments_def Let_def run_tx_def
        split: sum.splits prod.splits)
  show ?thesis
    using pair_turn [OF ok b(1) own] par None b(2,3) reuse(2)
    by (simp add: turn_ids_def parent_branch_ids_def cong: option.case_cong)
next
  case (Some m)
  let ?item = "(assistant_placeholder input runID aid (bp_normalizedBranchReason prep) rejected)
      \<lparr>m_ParentMessageID := Some (m_ID m), m_SourceMessageID := bs_SourceMessageID (bp_branchState prep)\<rparr>"
  obtain a0 where b: "branch_message_body ?item db = Inr (a0, db')" "m_ID a = m_ID a0"
    using pair Some by (auto simp: create_message_pair_def create_assistant_branch_message_def Let_def run_tx_def
        split: sum.splits prod.splits)
  have p: "bs_ParentMessageID (bp_branchState prep) = Some (m_ID m)" using reuse(1) Some by simp
  then obtain r where r: "in_conversation db (m_ConversationID ?item) (m_ID m) = Some r" using par by auto
  have o: "owner_ok db ?item" by (rule own) simp_all
  show ?thesis
    using reuse_turn [OF ok b(1) o _ r] p Some b(2) reuse(2) by (simp add: turn_ids_def parent_branch_ids_def)
qed

lemma failed_pair:
  "create_message_pair input runID prep atts rejected aid uid now db = (db', Inl e) \<Longrightarrow> db' = db"
  by (auto simp: create_message_pair_def create_message_pair_with_user_attachments_def
      create_assistant_branch_message_def Let_def dest: run_tx_Inl split: option.splits sum.splits prod.splits if_splits)

text \<open>
  Between the resolution of the branch and the write of the turn other requests may run. The turn still
  lands where it was resolved, as the parent stays where it is while the database grows.
\<close>

lemma grows_conversation:
  assumes "tree_grows db0 db" "c \<in> set (cd_conversations db0)"
  obtains d where "d \<in> set (cd_conversations db)" "same_conversation c d"
proof -
  have l: "list_all2 same_conversation (cd_conversations db0) (take (length (cd_conversations db0)) (cd_conversations db))"
    using assms(1) by (simp add: tree_grows_def)
  obtain k where k: "k < length (cd_conversations db0)" "cd_conversations db0 ! k = c"
    using assms(2) by (auto simp: in_set_conv_nth)
  have "same_conversation c (take (length (cd_conversations db0)) (cd_conversations db) ! k)"
    using list_all2_nthD [OF l k(1)] k(2) by simp
  moreover have "take (length (cd_conversations db0)) (cd_conversations db) ! k \<in> set (cd_conversations db)"
    using k(1) list_all2_lengthD [OF l] by (metis in_set_takeD nth_mem)
  ultimately show ?thesis using that by blast
qed

lemma late_turn:
  assumes ok: "tree_ok db0" "tree_ok db" and grown: "tree_grows db0 db"
    and conv: "get_conversation_by_user db0 (si_ConversationID input) (si_UserID input) = Inr conv"
    and prep: "prepare_message_send_branch jl maxFiles input db0 = Inr (prep, input')"
    and pair: "create_message_pair input' runID prep atts rejected assistantUUID userUUID now db = (db', r)"
  shows "tree_ok db' \<and> tree_grows db db' \<and>
    (case r of Inl _ \<Rightarrow> db' = db
     | Inr (u, a) \<Rightarrow> map m_ID (branch_up db' (si_ConversationID input) (m_ID a)) =
         turn_ids prep u a @ parent_branch_ids db0 (si_ConversationID input) prep)"
proof (cases r)
  case (Inl e)
  have "db' = db" using pair unfolding Inl by (rule failed_pair)
  then show ?thesis using Inl ok(2) by (simp add: tree_grows_refl)
next
  case (Inr x)
  obtain u a where x: "x = (u, a)" by (cases x)
  note b = prepared_branch [OF prep]
  note par0 = resolved_parent [OF tree_ok_ids [OF ok(1)] b(1)]
  have par: "\<exists>r. in_conversation db (si_ConversationID input') p = Some r" if "bs_ParentMessageID (bp_branchState prep) = Some p" for p
    using par0(1) [OF that] grows_message [OF grown ok(2)] b(2) by metis
  have own: "owner_ok db m" if "m_ConversationID m = si_ConversationID input'" "m_UserID m = si_UserID input'" for m
  proof -
    have "owner_ok db0 m" using conversation_owner [OF conv] that b by simp
    then obtain c where c: "c \<in> set (cd_conversations db0)" "c_ID c = m_ConversationID m" "c_UserID c = m_UserID m"
      by (auto simp: owner_ok_def)
    obtain d where "d \<in> set (cd_conversations db)" "same_conversation c d" using grows_conversation [OF grown c(1)] .
    then show ?thesis using c by (auto simp: owner_ok_def same_conversation_def)
  qed
  have "tree_ok db' \<and> tree_grows db db' \<and> map m_ID (branch_up db' (si_ConversationID input') (m_ID a)) =
      turn_ids prep u a @ parent_branch_ids db (si_ConversationID input') prep"
    by (rule created_pair [OF ok(2) pair [unfolded Inr x]]) (use own par par0(2) b(4) in auto)
  moreover have "parent_branch_ids db (si_ConversationID input) prep = parent_branch_ids db0 (si_ConversationID input) prep"
    using parent_branch_grows [OF grown ok, of "bs_ParentMessageID (bp_branchState prep)"] par0(1)
    by (simp add: parent_branch_ids_def)
  ultimately show ?thesis using Inr x b(2) by simp
qed

section \<open>Starting a turn\<close>

lemma begin_turn_effect:
  assumes "tree_ok db"
    and "begin_turn jl maxFiles resolve input runID rejected assistantUUID userUUID now db = (db', r)"
  shows "tree_ok db' \<and> tree_grows db db' \<and>
    (case r of Inl _ \<Rightarrow> db' = db
     | Inr (prep, u, a) \<Rightarrow> map m_ID (branch_up db' (si_ConversationID input) (m_ID a)) =
         turn_ids prep u a @ parent_branch_ids db (si_ConversationID input) prep)"
proof (cases r)
  case (Inl e)
  then have "db' = db"
    using assms(2) by (auto simp: begin_turn_def dest: failed_pair split: sum.splits prod.splits)
  then show ?thesis using Inl assms(1) by (simp add: tree_grows_refl)
next
  case (Inr x)
  obtain prep u a where x: "x = (prep, u, a)" by (cases x) auto
  obtain conv input' atts where c: "get_conversation_by_user db (si_ConversationID input) (si_UserID input) = Inr conv"
    and p: "prepare_message_send_branch jl maxFiles input db = Inr (prep, input')"
    and m: "create_message_pair input' runID prep atts rejected assistantUUID userUUID now db = (db', Inr (u, a))"
    using assms(2) Inr x by (auto simp: begin_turn_def split: sum.splits prod.splits)
  show ?thesis
    using late_turn [OF assms(1,1) tree_grows_refl c p m] Inr x by simp
qed

text \<open>
  C12: Starting a turn (\<^verbatim>\<open>service_message_send.go\<close>, \<^verbatim>\<open>service_message_preparation.go\<close>) on a well-formed
  message tree keeps it well-formed and moves no message of it. When it fails it has written nothing.
  When it succeeds, the branch that ends in the new assistant message is that message, the user message
  it answers unless the user message is an existing one that is answered again, and above them exactly
  the branch of the parent the request resolved to, as it was before.
\<close>

theorem turn_extends_its_branch:
  assumes "tree_ok db"
    and "begin_turn jl maxFiles resolve input runID rejected assistantUUID userUUID now db = (db', r)"
  shows "tree_ok db' \<and> tree_grows db db' \<and>
    (case r of Inl _ \<Rightarrow> db' = db
     | Inr (prep, u, a) \<Rightarrow> map m_ID (branch_up db' (si_ConversationID input) (m_ID a)) =
         turn_ids prep u a @ parent_branch_ids db (si_ConversationID input) prep)"
  by (rule begin_turn_effect [OF assms])

definition sample_send :: send_input where
  "sample_send = \<lparr>si_UserID = 7, si_ConversationID = 1, si_ContentType = [], si_Content = ''hi'', si_FileIDs = [],
     si_ParentMessagePublicID = ''m4'', si_SourceMessagePublicID = [], si_BranchReason = []\<rparr>"

definition sample_begun :: "chat_db \<times> (conversation_error + branch_preparation \<times> message \<times> message)" where
  "sample_begun = begin_turn sample_json 10 (\<lambda>u ids. Inr []) sample_send ''r'' None ''a5'' ''u5'' 0 sample_chat"

definition sample_prep :: branch_preparation where
  "sample_prep = \<lparr>bp_branchState = (sample_parent 4)\<lparr>bs_ParentPublicID := ''m4''\<rparr>,
     bp_normalizedBranchReason = ''default'', bp_reuseUserMessage = False\<rparr>"

lemma sample_strings:
  "trim_space ''m4'' = ''m4''" "trim_space [] = []" "normalize_branch_reason [] = ''default''"
  "normalize_public_id ''a5'' = ''a5''" "normalize_public_id ''u5'' = ''u5''"
  by code_simp+

lemma sample_parent_message:
  "get_message_by_public_id sample_json sample_chat 1 7 ''m4'' =
     Inr (hydrated sample_json sample_chat (sample_message 4 ''assistant'' ''canceled''))"
proof -
  have "find (\<lambda>m. m_ConversationID m = 1 \<and> m_UserID m = 7 \<and> m_PublicID m = ''m4'') (cd_messages sample_chat) =
      Some (sample_message 4 ''assistant'' ''canceled'')" by code_simp
  then show ?thesis
    unfolding get_message_by_public_id_def by (simp only: first_message_Inr [OF tree_ok_ids [OF sample_tree]]) blast
qed

lemma sample_prepared:
  "prepare_message_send_branch sample_json 10 sample_send sample_chat = Inr (sample_prep, sample_send)"
proof -
  have "dec 4 = ''4''" by code_simp
  then show ?thesis
  by (simp add: prepare_message_send_branch_def resolve_message_branch_def resolve_by_public_id_def sample_send_def
      sample_strings sample_parent_message [simplified] Let_def check_source_def branch_state_of_def sample_prep_def sample_parent_def)
qed

lemma sample_begun_ids:
  "\<exists>u a. snd sample_begun = Inr (sample_prep, u, a) \<and> m_ID u = 5 \<and> m_ID a = 6"
proof -
  have c: "get_conversation_by_user sample_chat 1 7 = Inr sample_conversation" by code_simp
  have u: "CHR ''m'' # dec i \<noteq> ''a5''" "CHR ''m'' # dec i \<noteq> ''u5''" for i by simp_all
  show ?thesis using sample_prepared c u
    by (auto simp: sample_begun_def begin_turn_def sample_send_def create_message_pair_def sample_prep_def sample_parent_def
       create_message_pair_with_user_attachments_def run_tx_def message_pair_body_def create_message_def sample_strings
       attach_locked_def user_message_of_def assistant_placeholder_def turn_status_def sample_chat_def Let_def message_row_def
       bump_message_count_def update_conversation_def live_conversation_def sample_conversation_def empty_chat_def blank_message_def)
qed

theorem turn_extends_its_branch_witness:
  "tree_ok (fst sample_begun) \<and> tree_grows sample_chat (fst sample_begun) \<and>
   map m_ID (branch_up (fst sample_begun) 1 6) = [6, 5, 4, 3, 2, 1]"
proof -
  obtain u a where r: "snd sample_begun = Inr (sample_prep, u, a)" "m_ID u = 5" "m_ID a = 6" using sample_begun_ids by blast
  have up: "map m_ID (branch_up sample_chat 1 4) = [4, 3, 2, 1]" by code_simp
  have "begin_turn sample_json 10 (\<lambda>u ids. Inr []) sample_send ''r'' None ''a5'' ''u5'' 0 sample_chat =
      (fst sample_begun, snd sample_begun)" by (simp add: sample_begun_def)
  from turn_extends_its_branch [OF sample_tree this] show ?thesis
    using r up by (simp add: turn_ids_def parent_branch_ids_def sample_send_def sample_prep_def sample_parent_def)
qed

end
