(* ===== verification/Conversation_Fork.thy ===== *)
theory Conversation_Fork
  imports Turn_Start
begin

text \<open>
  Forking a conversation from an answer (\<^verbatim>\<open>application/conversation/service_fork.go\<close>,
  \<^verbatim>\<open>infra/persistence/postgres/conversation/repository_fork.go\<close>): the branch that ends in the answer is
  copied into a new conversation, with its attachments and the display events of its messages.

  The fresh identifiers and the encoded context policy are arguments (\<open>fork_fresh\<close>); the names of the
  project, which the service copies for the view, are left out.
\<close>

section \<open>The fork transaction\<close>

record fork_message =
  fm_SourceMessageID :: nat
  fm_SourceParentMessageID :: "nat option"
  fm_Message :: message

record fork_input =
  fi_SourceConversationID :: nat
  fi_Conversation :: conversation
  fi_Messages :: "fork_message list"

definition fork_input_ok :: "fork_input \<Rightarrow> bool" where
  "fork_input_ok input \<longleftrightarrow>
     fi_SourceConversationID input \<noteq> 0 \<and> c_UserID (fi_Conversation input) \<noteq> 0 \<and>
     trim_space (c_PublicID (fi_Conversation input)) \<noteq> [] \<and> trim_space (c_SessionKey (fi_Conversation input)) \<noteq> [] \<and>
     fi_Messages input \<noteq> [] \<and> length (fi_Messages input) \<le> max_ancestor_query_depth \<and>
     list_all (\<lambda>item. fm_SourceMessageID item \<noteq> 0 \<and> trim_space (m_PublicID (fm_Message item)) \<noteq> []) (fi_Messages input) \<and>
     distinct (map fm_SourceMessageID (fi_Messages input))"

text \<open>The new identifier of each source message, as the messages are written in order.\<close>

type_synonym forked_ids = "nat \<rightharpoonup> nat"

definition forked_parent :: "forked_ids \<Rightarrow> nat option \<Rightarrow> repo_error + nat option" where
  "forked_parent ids parent = (case parent of None \<Rightarrow> Inr None
     | Some p \<Rightarrow> (case ids p of None \<Rightarrow> Inl InvalidInput | Some q \<Rightarrow> Inr (Some q)))"

fun fork_messages :: "conversation \<Rightarrow> fork_message list \<Rightarrow> forked_ids \<Rightarrow> forked_ids chat_tx" where
  "fork_messages target [] ids db = Inr (ids, db)"
| "fork_messages target (item # items) ids db =
     (case forked_parent ids (fm_SourceParentMessageID item) of
        Inl err \<Rightarrow> Inl err
      | Inr parent \<Rightarrow>
     (case create_message ((fm_Message item)\<lparr>m_ID := 0, m_ConversationID := c_ID target,
             m_UserID := c_UserID target, m_ParentMessageID := parent\<rparr>) db of
        Inl err \<Rightarrow> Inl err
      | Inr (entity, db1) \<Rightarrow> fork_messages target items (ids(fm_SourceMessageID item \<mapsto> m_ID entity)) db1))"

definition or_else :: "string \<Rightarrow> string \<Rightarrow> string" where
  "or_else a b = (if a = [] then b else a)"

definition forked_attachment :: "nat \<Rightarrow> nat \<Rightarrow> gtime \<Rightarrow> attachment \<Rightarrow> file_object \<Rightarrow> nat \<Rightarrow> attachment" where
  "forked_attachment userID targetConversationID now source file targetMessageID =
     \<lparr>at_ID = 0, at_ConversationID = targetConversationID, at_MessageID = targetMessageID, at_UserID = userID,
      at_FileID = fo_FileID file, at_Kind = or_else (trim_space (at_Kind source)) ''file'',
      at_FileName = or_else (trim_space (at_FileName source)) (fo_FileName file),
      at_MimeType = or_else (trim_space (at_MimeType source)) (fo_MimeType file),
      at_FileSize = (if at_FileSize source \<le> 0 then fo_SizeBytes file else at_FileSize source),
      at_SHA256 = fo_SHA256 file, at_StoragePath = fo_StoragePath file, at_Status = ''active'',
      at_MetaJSON = at_MetaJSON source, at_UploadedAt = now\<rparr>"

fun forked_attachments ::
    "(string \<rightharpoonup> file_object) \<Rightarrow> forked_ids \<Rightarrow> (attachment \<Rightarrow> file_object \<Rightarrow> nat \<Rightarrow> attachment) \<Rightarrow> attachment list \<Rightarrow>
     repo_error + attachment list" where
  "forked_attachments filesByID ids mk [] = Inr []"
| "forked_attachments filesByID ids mk (source # sources) =
     (case filesByID (trim_space (at_FileID source)) of
        None \<Rightarrow> forked_attachments filesByID ids mk sources
      | Some file \<Rightarrow>
     (case ids (at_MessageID source) of
        None \<Rightarrow> Inl InvalidInput
      | Some targetMessageID \<Rightarrow>
     (case forked_attachments filesByID ids mk sources of
        Inl err \<Rightarrow> Inl err
      | Inr rest \<Rightarrow> Inr (mk source file targetMessageID # rest))))"

definition clone_forked_attachments :: "nat \<Rightarrow> nat \<Rightarrow> nat \<Rightarrow> forked_ids \<Rightarrow> gtime \<Rightarrow> unit chat_tx" where
  "clone_forked_attachments userID sourceConversationID targetConversationID ids now db =
     (let sources = filter (\<lambda>a. at_ConversationID a = sourceConversationID \<and> at_UserID a = userID \<and>
            ids (at_MessageID a) \<noteq> None \<and> at_Status a \<noteq> ''deleted'') (cd_attachments db);
          fileIDs = filter (\<lambda>fileID. fileID \<noteq> []) (map (\<lambda>a. trim_space (at_FileID a)) sources)
      in if sources = [] \<or> fileIDs = [] then Inr ((), db)
         else let filesByID = map_of (rev (map (\<lambda>f. (fo_FileID f, f)) (active_files db userID fileIDs)))
           in case forked_attachments filesByID ids (forked_attachment userID targetConversationID now) sources of
             Inl err \<Rightarrow> Inl err
           | Inr rows \<Rightarrow> Inr ((), add_attachments rows db))"

definition forked_display_trace_run_id :: "crypto \<Rightarrow> nat \<Rightarrow> string \<Rightarrow> string" where
  "forked_display_trace_run_id cr targetMessageID sourceRunID =
     ''fork_trace_'' @ dec targetMessageID @ ''_'' @ hex_encode (take 8 (cr_sha256 cr sourceRunID))"

definition forked_event :: "crypto \<Rightarrow> nat \<Rightarrow> nat \<Rightarrow> run_event \<Rightarrow> nat \<Rightarrow> run_event" where
  "forked_event cr userID targetConversationID source targetMessageID =
     source\<lparr>ev_ID := 0, ev_MessageID := targetMessageID, ev_ConversationID := targetConversationID, ev_UserID := userID,
       ev_RunID := forked_display_trace_run_id cr targetMessageID (ev_RunID source),
       ev_MCPServerID := 0, ev_MCPServerName := []\<rparr>"

fun forked_events :: "forked_ids \<Rightarrow> (run_event \<Rightarrow> nat \<Rightarrow> run_event) \<Rightarrow> run_event list \<Rightarrow> repo_error + run_event list" where
  "forked_events ids mk [] = Inr []"
| "forked_events ids mk (source # sources) =
     (case ids (ev_MessageID source) of
        None \<Rightarrow> Inl InvalidInput
      | Some targetMessageID \<Rightarrow>
     (case forked_events ids mk sources of
        Inl err \<Rightarrow> Inl err
      | Inr rest \<Rightarrow> Inr (mk source targetMessageID # rest)))"

fun add_events :: "run_event list \<Rightarrow> chat_db \<Rightarrow> chat_db" where
  "add_events [] db = db"
| "add_events (e # es) db =
     add_events es (db\<lparr>cd_events := cd_events db @ [e\<lparr>ev_ID := Suc (length (cd_events db))\<rparr>]\<rparr>)"

definition clone_forked_display_traces :: "crypto \<Rightarrow> nat \<Rightarrow> nat \<Rightarrow> nat \<Rightarrow> forked_ids \<Rightarrow> unit chat_tx" where
  "clone_forked_display_traces cr userID sourceConversationID targetConversationID ids db =
     (let sources = filter (\<lambda>e. ev_ConversationID e = sourceConversationID \<and> ev_UserID e = userID \<and>
            ids (ev_MessageID e) \<noteq> None \<and> (ev_EventScope e = ''trace_block'' \<or> ev_EventScope e = ''trace_event'')) (cd_events db);
          sorted = sort_key ev_MessageID (sort_key ev_Seq (sort_key ev_ID sources))
      in case forked_events ids (forked_event cr userID targetConversationID) sorted of
           Inl err \<Rightarrow> Inl err
         | Inr rows \<Rightarrow> Inr ((), add_events rows db))"

definition fork_source_ok :: "fork_input \<Rightarrow> chat_db \<Rightarrow> bool" where
  "fork_source_ok input db \<longleftrightarrow>
     list_ex (\<lambda>c. c_ID c = fi_SourceConversationID input \<and> c_UserID c = c_UserID (fi_Conversation input) \<and>
        c_DeletedAt c = None) (cd_conversations db) \<and>
     length (filter (\<lambda>m. m_ConversationID m = fi_SourceConversationID input \<and> m_UserID m = c_UserID (fi_Conversation input) \<and>
        m_ID m \<in> set (map fm_SourceMessageID (fi_Messages input))) (cd_messages db)) = length (fi_Messages input)"

definition fork_body :: "crypto \<Rightarrow> gtime \<Rightarrow> fork_input \<Rightarrow> conversation chat_tx" where
  "fork_body cr now input db =
     (if \<not> fork_source_ok input db then Inl NotFound
      else case create_conversation ((fi_Conversation input)\<lparr>c_MessageCount := int (length (fi_Messages input))\<rparr>) db of
        Inl err \<Rightarrow> Inl err
      | Inr (target, db1) \<Rightarrow>
     (case fork_messages target (fi_Messages input) Map.empty db1 of
        Inl err \<Rightarrow> Inl err
      | Inr (ids, db2) \<Rightarrow>
     (case clone_forked_attachments (c_UserID target) (fi_SourceConversationID input) (c_ID target) ids now db2 of
        Inl err \<Rightarrow> Inl err
      | Inr (_, db3) \<Rightarrow>
     (case clone_forked_display_traces cr (c_UserID target) (fi_SourceConversationID input) (c_ID target) ids db3 of
        Inl err \<Rightarrow> Inl err
      | Inr (_, db4) \<Rightarrow> Inr (target, db4)))))"

definition create_forked_conversation ::
    "crypto \<Rightarrow> gtime \<Rightarrow> fork_input \<Rightarrow> chat_db \<Rightarrow> chat_db \<times> (repo_error + conversation)" where
  "create_forked_conversation cr now input db =
     (if fork_input_ok input then run_tx (fork_body cr now input) db else (db, Inl InvalidInput))"

section \<open>Forking from a message\<close>

definition normalize_forked_message_status :: "string \<Rightarrow> string" where
  "normalize_forked_message_status status =
     (let trimmed = trim_space status in
      if trimmed = [] then ''success''
      else if equal_fold trimmed ''pending'' then ''interrupted''
      else trimmed)"

definition build_forked_message :: "nat \<Rightarrow> string \<Rightarrow> message \<Rightarrow> message" where
  "build_forked_message userID uuid source =
     blank_message\<lparr>m_UserID := userID, m_PublicID := normalize_public_id uuid, m_Role := trim_space (m_Role source),
       m_ContentType := or_else (trim_space (m_ContentType source)) ''text'', m_Content := m_Content source,
       m_ReasoningContent := m_ReasoningContent source, m_BranchReason := ''default'',
       m_TokenUsage := m_TokenUsage source, m_InputTokens := m_InputTokens source, m_OutputTokens := m_OutputTokens source,
       m_CacheReadTokens := m_CacheReadTokens source, m_CacheWriteTokens := m_CacheWriteTokens source,
       m_ReasoningTokens := m_ReasoningTokens source, m_LatencyMS := m_LatencyMS source,
       m_BilledCurrency := ''USD'', m_BilledNanousd := 0, m_PricingSnapshot := [],
       m_Status := normalize_forked_message_status (m_Status source), m_ErrorCode := m_ErrorCode source,
       m_ErrorMessage := m_ErrorMessage source, m_KnowledgeSources := m_KnowledgeSources source,
       m_EditedAt := m_EditedAt source\<rparr>"

text \<open>
  The loop over the source path: the first message has no parent, every other names one seen before.
  \<open>uuid k\<close> is the fresh identifier of the \<open>k\<close>-th message.
\<close>

fun build_fork_messages ::
    "nat \<Rightarrow> (nat \<Rightarrow> string) \<Rightarrow> nat \<Rightarrow> nat list \<Rightarrow> message list \<Rightarrow> conversation_error + fork_message list" where
  "build_fork_messages userID uuid index seen [] = Inr []"
| "build_fork_messages userID uuid index seen (source # path) =
     (if m_ID source = 0 \<or> m_ID source \<in> set seen \<or>
         (case m_ParentMessageID source of None \<Rightarrow> index \<noteq> 0 | Some p \<Rightarrow> index = 0 \<or> p \<notin> set seen)
      then Inl ErrMessageForkHistoryIncomplete
      else case build_fork_messages userID uuid (Suc index) (m_ID source # seen) path of
        Inl err \<Rightarrow> Inl err
      | Inr rest \<Rightarrow> Inr (\<lparr>fm_SourceMessageID = m_ID source, fm_SourceParentMessageID = m_ParentMessageID source,
          fm_Message = build_forked_message userID (uuid index) source\<rparr> # rest))"

definition fork_target :: "nat \<Rightarrow> string \<Rightarrow> string \<Rightarrow> string \<Rightarrow> conversation \<Rightarrow> nat \<Rightarrow> conversation" where
  "fork_target userID publicUUID sessionUUID policy source count =
     \<lparr>c_ID = 0, c_UserID = userID, c_ProjectID = c_ProjectID source, c_PublicID = normalize_public_id publicUUID,
      c_Title = c_Title source, c_LabelsJSON = c_LabelsJSON source,
      c_LabelsManuallyManaged = c_LabelsManuallyManaged source, c_Model = c_Model source, c_Provider = c_Provider source,
      c_SessionKey = sessionUUID, c_IsStarred = False, c_StarredAt = None, c_MessageCount = int count,
      c_Status = ''active'', c_ContextPolicy = policy, c_LastCompactedAt = None, c_LastResponseID = [],
      c_LastPromptFingerprint = [], c_DeletedAt = None\<rparr>"

definition fork_ancestor_max_depth :: int where "fork_ancestor_max_depth = 2000"

text \<open>What a request names: the conversation and the finished answer to fork from.\<close>

definition fork_point ::
    "json_lib \<Rightarrow> chat_db \<Rightarrow> nat \<Rightarrow> string \<Rightarrow> string \<Rightarrow> conversation_error + conversation \<times> message" where
  "fork_point jl db userID conversationPublicID messagePublicID =
     (let conversationID = trim_space conversationPublicID; messageID = trim_space messagePublicID in
      if conversationID = [] then Inl ErrConversationNotFound
      else if messageID = [] then Inl ErrMessageNotFound
      else case get_conversation_by_public_id db conversationID userID of
        Inl err \<Rightarrow> Inl (if err = NotFound then ErrConversationNotFound else ErrRepository err)
      | Inr conversation \<Rightarrow>
     (case get_message_by_public_id_for_user jl db userID messageID of
        Inl err \<Rightarrow> Inl (if err = NotFound then ErrMessageNotFound else ErrRepository err)
      | Inr message \<Rightarrow>
          if m_ConversationID message \<noteq> c_ID conversation then Inl ErrMessageNotFound
          else if \<not> equal_fold (trim_space (m_Role message)) ''assistant'' then Inl ErrMessageForkTargetInvalid
          else if equal_fold (trim_space (m_Status message)) ''pending'' then Inl ErrMessageForkStateInvalid
          else Inr (conversation, message)))"

record fork_fresh =
  ff_conversation :: string
  ff_session :: string
  ff_message :: "nat \<Rightarrow> string"
  ff_policy :: string
  ff_now :: gtime

definition fork_conversation_from_message ::
    "json_lib \<Rightarrow> crypto \<Rightarrow> fork_fresh \<Rightarrow> nat \<Rightarrow> string \<Rightarrow> string \<Rightarrow> chat_db \<Rightarrow> chat_db \<times> (conversation_error + conversation)" where
  "fork_conversation_from_message jl cr fresh userID conversationPublicID messagePublicID db =
     (case fork_point jl db userID conversationPublicID messagePublicID of
        Inl err \<Rightarrow> (db, Inl err)
      | Inr (source, message) \<Rightarrow>
          let path = list_message_ancestors jl db (c_ID source) (m_ID message) fork_ancestor_max_depth in
          if path = [] then (db, Inl ErrMessageNotFound)
          else if m_ID (last path) \<noteq> m_ID message then (db, Inl ErrMessageForkHistoryIncomplete)
          else case build_fork_messages userID (ff_message fresh) 0 [] path of
            Inl err \<Rightarrow> (db, Inl err)
          | Inr messages \<Rightarrow>
              (case create_forked_conversation cr (ff_now fresh)
                  \<lparr>fi_SourceConversationID = c_ID source,
                   fi_Conversation = fork_target userID (ff_conversation fresh) (ff_session fresh) (ff_policy fresh) source (length path),
                   fi_Messages = messages\<rparr> db of
                 (db', Inl err) \<Rightarrow> (db', Inl (if err = NotFound then ErrMessageNotFound else ErrRepository err))
               | (db', Inr target) \<Rightarrow> (db', Inr target)))"

section \<open>Writing the copies\<close>

text \<open>The copies the loop writes of linked items: one after the other, each below the one before.\<close>

fun fork_linked :: "fork_message list \<Rightarrow> bool" where
  "fork_linked (a # b # items) = (fm_SourceParentMessageID b = Some (fm_SourceMessageID a) \<and> fork_linked (b # items))"
| "fork_linked _ = True"

fun copied :: "conversation \<Rightarrow> nat \<Rightarrow> nat option \<Rightarrow> fork_message list \<Rightarrow> message list" where
  "copied target n parent [] = []"
| "copied target n parent (item # items) =
     (message_row (fm_Message item))\<lparr>m_ID := Suc n, m_ConversationID := c_ID target, m_UserID := c_UserID target,
        m_ParentMessageID := parent\<rparr> # copied target (Suc n) (Some (Suc n)) items"

lemma copied_length [simp]: "length (copied target n parent items) = length items"
  by (induction items arbitrary: n parent) auto

lemma copied_nth:
  "k < length items \<Longrightarrow> copied target n parent items ! k =
     (message_row (fm_Message (items ! k)))\<lparr>m_ID := Suc (n + k), m_ConversationID := c_ID target,
        m_UserID := c_UserID target, m_ParentMessageID := (if k = 0 then parent else Some (n + k))\<rparr>"
proof (induction items arbitrary: n parent k)
  case (Cons item items)
  then show ?case by (cases k) auto
qed simp

lemma fork_messages_rows:
  assumes "fork_messages target items ids db = Inr (ids', db')" "fork_linked items"
    "\<And>item. items \<noteq> [] \<Longrightarrow> item = hd items \<Longrightarrow> forked_parent ids (fm_SourceParentMessageID item) = Inr parent"
  shows "db' = db\<lparr>cd_messages := cd_messages db @ copied target (length (cd_messages db)) parent items\<rparr>"
  using assms
proof (induction items arbitrary: ids db parent)
  case (Cons item items)
  have par: "forked_parent ids (fm_SourceParentMessageID item) = Inr parent" using Cons.prems(3) by simp
  obtain entity db1 where c: "create_message ((fm_Message item)\<lparr>m_ID := 0, m_ConversationID := c_ID target,
      m_UserID := c_UserID target, m_ParentMessageID := parent\<rparr>) db = Inr (entity, db1)"
    and rest: "fork_messages target items (ids(fm_SourceMessageID item \<mapsto> m_ID entity)) db1 = Inr (ids', db')"
    using Cons.prems(1) par by (auto split: sum.splits prod.splits)
  have e: "m_ID entity = Suc (length (cd_messages db))" using create_message_fields(1) [OF c] .
  have "forked_parent (ids(fm_SourceMessageID item \<mapsto> m_ID entity)) (fm_SourceParentMessageID (hd items)) =
      Inr (Some (Suc (length (cd_messages db))))" if "items \<noteq> []"
    using Cons.prems(2) that e by (cases items) (auto simp: forked_parent_def)
  moreover have "fork_linked items" using Cons.prems(2) by (cases items) auto
  ultimately have "db' = db1\<lparr>cd_messages := cd_messages db1 @ copied target (length (cd_messages db1))
      (Some (Suc (length (cd_messages db)))) items\<rparr>"
    using Cons.IH [OF rest] by blast
  then show ?case using c by (simp add: create_message_Inr fresh_row_def message_row_def)
qed simp

text \<open>Whatever they are linked to, the copies keep the links of the tree.\<close>

lemma fork_messages_tree:
  assumes "fork_messages target items ids db = Inr (ids', db')" "links_ok db"
    "target \<in> set (cd_conversations db)" "counts_off (c_ID target) k db"
    "\<And>s t. ids s = Some t \<Longrightarrow> \<exists>q \<in> set (cd_messages db). m_ID q = t \<and> m_ConversationID q = c_ID target"
  shows "links_ok db' \<and> tree_grows db db' \<and> counts_off (c_ID target) (k + int (length items)) db'"
  using assms
proof (induction items arbitrary: ids db k)
  case Nil
  then show ?case by (simp add: tree_grows_refl)
next
  case (Cons item items)
  obtain parent where par: "forked_parent ids (fm_SourceParentMessageID item) = Inr parent"
    using Cons.prems(1) by (auto split: sum.splits)
  let ?m = "(fm_Message item)\<lparr>m_ID := 0, m_ConversationID := c_ID target,
      m_UserID := c_UserID target, m_ParentMessageID := parent\<rparr>"
  obtain entity db1 where c: "create_message ?m db = Inr (entity, db1)"
    and rest: "fork_messages target items (ids(fm_SourceMessageID item \<mapsto> m_ID entity)) db1 = Inr (ids', db')"
    using Cons.prems(1) par by (auto split: sum.splits prod.splits)
  have "\<exists>q \<in> set (cd_messages db). m_ID q = p \<and> m_ConversationID q = c_ID target" if "parent = Some p" for p
    using par that Cons.prems(5) by (auto simp: forked_parent_def split: option.splits)
  then have "placeable db ?m" using Cons.prems(3) by (auto simp: placeable_def owner_ok_def split: option.split)
  note l = create_message_links [OF Cons.prems(2) this c]
  have n: "counts_off (c_ID target) (k + 1) db1" using create_message_counts [OF c, of k] Cons.prems(4) by simp
  note f = create_message_fields [OF c]
  have ids: "\<exists>q \<in> set (cd_messages db1). m_ID q = t \<and> m_ConversationID q = c_ID target"
    if "(ids(fm_SourceMessageID item \<mapsto> m_ID entity)) s = Some t" for s t
  proof (cases "s = fm_SourceMessageID item")
    case True
    then have "t = m_ID entity" using that by simp
    then show ?thesis using f by simp
  next
    case False
    then show ?thesis using that Cons.prems(5) [of s t] f by auto
  qed
  have "target \<in> set (cd_conversations db1)" using Cons.prems(3) f by simp
  then have "links_ok db' \<and> tree_grows db1 db' \<and> counts_off (c_ID target) (k + 1 + int (length items)) db'"
    by (rule Cons.IH [OF rest l(1) _ n]) (rule ids)
  moreover have "k + 1 + int (length items) = k + int (length (item # items))" by simp
  ultimately show ?case using tree_grows_trans [OF l(2)] by metis
qed

section \<open>The transaction\<close>

lemma add_events_tables [simp]:
  "cd_messages (add_events es db) = cd_messages db" "cd_conversations (add_events es db) = cd_conversations db"
  by (induction es arbitrary: db) simp_all

lemma clone_tables:
  "clone_forked_attachments u s t ids now db = Inr (x, db') \<Longrightarrow>
     cd_messages db' = cd_messages db \<and> cd_conversations db' = cd_conversations db"
  "clone_forked_display_traces cr u s t ids db = Inr (x, db') \<Longrightarrow>
     cd_messages db' = cd_messages db \<and> cd_conversations db' = cd_conversations db"
  by (auto simp: clone_forked_attachments_def clone_forked_display_traces_def Let_def split: if_splits sum.splits)

lemma no_messages_yet:
  assumes "links_ok db"
  shows "messages_of db (Suc (length (cd_conversations db))) = []"
proof -
  have "m_ConversationID m \<noteq> Suc (length (cd_conversations db))" if "m \<in> set (cd_messages db)" for m
  proof -
    have "owner_ok db m" using assms that by (simp add: links_ok_def)
    then obtain c where "c \<in> set (cd_conversations db)" "c_ID c = m_ConversationID m" by (auto simp: owner_ok_def)
    then have "m_ConversationID m \<in> set (map c_ID (cd_conversations db))" by (metis image_eqI set_map)
    also have "map c_ID (cd_conversations db) = [1..<Suc (length (cd_conversations db))]"
      using assms by (simp add: links_ok_def ids_ok_def)
    finally show ?thesis by auto
  qed
  then show ?thesis by (auto simp: messages_of_def filter_empty_conv)
qed

lemma create_conversation_tree:
  assumes "create_conversation item db = Inr (row, db')" "tree_ok db" "c_MessageCount item = n"
  shows "db' = db\<lparr>cd_conversations := cd_conversations db @ [row]\<rparr> \<and> c_ID row = Suc (length (cd_conversations db)) \<and>
    c_UserID row = c_UserID item \<and> links_ok db' \<and> counts_off (c_ID row) (- n) db' \<and> tree_grows db db'"
proof -
  have r: "row = item\<lparr>c_ID := Suc (length (cd_conversations db)), c_DeletedAt := None\<rparr>"
    "db' = db\<lparr>cd_conversations := cd_conversations db @ [row]\<rparr>"
    using assms(1) by (auto simp: create_conversation_def Let_def split: if_splits)
  have ok: "links_ok db" "counts_off 0 0 db" using assms(2) by (simp_all add: tree_ok_def)
  have l: "links_ok db'"
    using ok(1) unfolding links_ok_def ids_ok_def parent_ok_def owner_ok_def
    by (auto simp: r split: option.splits)
  have "c_ID c \<noteq> c_ID row" if "c \<in> set (cd_conversations db)" for c
  proof -
    have "c_ID c \<in> set (map c_ID (cd_conversations db))" using that by simp
    also have "map c_ID (cd_conversations db) = [1..<Suc (length (cd_conversations db))]"
      using ok(1) by (simp add: links_ok_def ids_ok_def)
    finally show ?thesis by (auto simp: r(1))
  qed
  then have "counts_off (c_ID row) (- n) db'"
    using assms(3) ok(2) no_messages_yet [OF ok(1)] unfolding counts_off_def
    by (auto simp: r messages_of_def)
  then show ?thesis using l r by (simp add: tree_grows_def list_all2_refl same_conversation_def)
qed

lemma fork_body_effect:
  assumes body: "fork_body cr now input db = Inr (target, db')" and ok: "tree_ok db"
    and linked: "fork_linked (fi_Messages input)"
    and root: "fi_Messages input \<noteq> [] \<Longrightarrow> fm_SourceParentMessageID (hd (fi_Messages input)) = None"
  shows "tree_ok db' \<and> tree_grows db db' \<and> cd_conversations db' = cd_conversations db @ [target] \<and>
    cd_messages db' = cd_messages db @ copied target (length (cd_messages db)) None (fi_Messages input)"
proof -
  let ?n = "int (length (fi_Messages input))"
  obtain db1 ids db2 where 1: "create_conversation ((fi_Conversation input)\<lparr>c_MessageCount := ?n\<rparr>) db = Inr (target, db1)"
    and 2: "fork_messages target (fi_Messages input) Map.empty db1 = Inr (ids, db2)"
    and 3: "cd_messages db' = cd_messages db2" "cd_conversations db' = cd_conversations db2"
    using body by (auto simp: fork_body_def dest!: clone_tables split: if_splits sum.splits prod.splits)
  have n: "c_MessageCount ((fi_Conversation input)\<lparr>c_MessageCount := ?n\<rparr>) = ?n" by simp
  have c: "db1 = db\<lparr>cd_conversations := cd_conversations db @ [target]\<rparr>" "links_ok db1"
    "counts_off (c_ID target) (- ?n) db1" "tree_grows db db1"
    using create_conversation_tree [OF 1 ok n] by blast+
  have "target \<in> set (cd_conversations db1)" using c(1) by simp
  then have m: "links_ok db2 \<and> tree_grows db1 db2 \<and> counts_off (c_ID target) (- ?n + ?n) db2"
    by (rule fork_messages_tree [OF 2 c(2) _ c(3)]) simp
  have "forked_parent Map.empty (fm_SourceParentMessageID item) = Inr None"
    if "fi_Messages input \<noteq> []" "item = hd (fi_Messages input)" for item
    using root that by (simp add: forked_parent_def)
  then have rows: "db2 = db1\<lparr>cd_messages := cd_messages db1 @ copied target (length (cd_messages db1)) None (fi_Messages input)\<rparr>"
    by (rule fork_messages_rows [OF 2 linked])
  have "tree_ok db2" using m counts_off_zero [of "c_ID target" db2] by (simp add: tree_ok_def)
  then have "tree_ok db'" using tree_tables(3) [OF 3] by simp
  moreover have "tree_grows db db'"
    using tree_grows_trans [OF c(4)] tree_grows_trans [OF _ grows_tables [OF 3]] m by blast
  ultimately show ?thesis using 3 rows c(1) by simp
qed

section \<open>The copy of a branch\<close>

lemma build_fork_Inr:
  assumes "build_fork_messages userID uuid index seen path = Inr items"
  shows "length items = length path" "path \<noteq> [] \<Longrightarrow> index = 0 \<Longrightarrow> m_ParentMessageID (hd path) = None"
    "k < length path \<Longrightarrow> items ! k = \<lparr>fm_SourceMessageID = m_ID (path ! k), fm_SourceParentMessageID = m_ParentMessageID (path ! k),
       fm_Message = build_forked_message userID (uuid (index + k)) (path ! k)\<rparr>"
  using assms
proof (induction path arbitrary: index seen items k)
  case (Cons source path)
  {
    case 1
    then show ?case using Cons.IH(1) by (auto split: if_splits sum.splits)
  next
    case 2
    then show ?case by (auto split: if_splits sum.splits option.splits)
  next
    case 3
    then obtain rest where "build_fork_messages userID uuid (Suc index) (m_ID source # seen) path = Inr rest"
      and "items = \<lparr>fm_SourceMessageID = m_ID source, fm_SourceParentMessageID = m_ParentMessageID source,
          fm_Message = build_forked_message userID (uuid index) source\<rparr> # rest"
      by (auto split: if_splits sum.splits)
    then show ?case using Cons.IH(3) 3(1) by (cases k) auto
  }
qed auto

lemma fork_linked_nth:
  "(\<And>k. Suc k < length items \<Longrightarrow> fm_SourceParentMessageID (items ! Suc k) = Some (fm_SourceMessageID (items ! k))) \<Longrightarrow>
   fork_linked items"
proof (induction items rule: fork_linked.induct)
  case (1 a b items)
  have "fork_linked (b # items)" using "1.prems" [of "Suc k" for k] by (intro "1.IH") auto
  then show ?case using "1.prems" [of 0] by simp
qed auto

lemma linked_nth:
  "linked xs \<Longrightarrow> Suc k < length xs \<Longrightarrow> m_ParentMessageID (xs ! k) = Some (m_ID (xs ! Suc k))"
proof (induction xs arbitrary: k rule: linked.induct)
  case (1 m n ms)
  then show ?case by (cases k) auto
qed auto

lemma linked_rev_nth:
  assumes "linked xs" "Suc k < length xs"
  shows "m_ParentMessageID (rev xs ! Suc k) = Some (m_ID (rev xs ! k))"
proof -
  have l: "Suc (length xs - Suc (Suc k)) < length xs" "Suc (length xs - Suc (Suc k)) = length xs - Suc k"
    using assms(2) by auto
  have "rev xs ! Suc k = xs ! (length xs - Suc (Suc k))" "rev xs ! k = xs ! (length xs - Suc k)"
    using assms(2) by (simp_all add: rev_nth)
  then show ?thesis using linked_nth [OF assms(1) l(1)] l(2) by simp
qed

text \<open>The copies form the branch of the last of them.\<close>

lemma copies_branch:
  assumes "tree_ok db'" "cd_messages db' = old @ copied target (length old) None items" "k < length items"
  shows "branch_up db' (c_ID target) (Suc (length old + k)) = rev (take (Suc k) (copied target (length old) None items))"
  using assms(3)
proof (induction k)
  case 0
  let ?m = "copied target (length old) None items ! 0"
  have m: "?m \<in> set (cd_messages db')" using 0 by (simp add: assms(2))
  then have "in_conversation db' (c_ID target) (Suc (length old)) = Some ?m"
    using 0 assms(1) by (simp add: in_conversation_Some copied_nth)
  then show ?case using 0 branch_up_step [OF assms(1), of "c_ID target" "Suc (length old)"]
    by (simp add: copied_nth take_Suc_conv_app_nth)
next
  case (Suc k)
  let ?m = "copied target (length old) None items ! Suc k"
  have m: "?m \<in> set (cd_messages db')" using Suc.prems by (simp add: assms(2))
  then have "in_conversation db' (c_ID target) (Suc (length old + Suc k)) = Some ?m"
    using Suc.prems assms(1) by (simp add: in_conversation_Some copied_nth)
  then show ?case
    using Suc branch_up_step [OF assms(1), of "c_ID target" "Suc (length old + Suc k)"]
    by (simp add: copied_nth take_Suc_conv_app_nth)
qed

lemma ancestors_to_root:
  assumes "tree_ok db" "ancestors_up db c (Suc d) i \<noteq> []" "m_ParentMessageID (last (ancestors_up db c (Suc d) i)) = None"
  shows "ancestors_up db c (Suc d) i = branch_up db c i"
  using branch_split [OF assms(1), of c i d] assms(3) by (simp add: read_on_def del: ancestors_up_Suc)

lemma forked_status_not_pending:
  "\<not> equal_fold (trim_space (normalize_forked_message_status s)) ''pending''"
proof -
  have "\<not> equal_fold (trim_space ''success'') ''pending''" "\<not> equal_fold (trim_space ''interrupted'') ''pending''"
    by code_simp+
  then show ?thesis by (simp add: normalize_forked_message_status_def Let_def)
qed

text \<open>A message and its copy.\<close>

definition copy_of :: "message \<Rightarrow> message \<Rightarrow> bool" where
  "copy_of m n \<longleftrightarrow> m_Role n = trim_space (m_Role m) \<and> m_Content n = m_Content m \<and>
     m_ReasoningContent n = m_ReasoningContent m \<and> m_TokenUsage n = m_TokenUsage m \<and>
     m_KnowledgeSources n = m_KnowledgeSources m \<and> m_RunID n = [] \<and> m_BilledNanousd n = 0 \<and>
     m_SourceMessageID n = None \<and> \<not> equal_fold (trim_space (m_Status n)) ''pending'' \<and>
     (trim_space (m_Status m) \<noteq> [] \<and> \<not> equal_fold (trim_space (m_Status m)) ''pending'' \<longrightarrow> m_Status n = trim_space (m_Status m))"

lemma forked_copy_of:
  "copy_of m ((message_row (build_forked_message u uuid (hydrated jl db m)))\<lparr>m_ID := i, m_ConversationID := c, m_UserID := v,
     m_ParentMessageID := p\<rparr>)"
proof -
  have s: "normalize_forked_message_status (m_Status m) = trim_space (m_Status m)"
    if "trim_space (m_Status m) \<noteq> []" "\<not> equal_fold (trim_space (m_Status m)) ''pending''"
    using that by (simp add: normalize_forked_message_status_def Let_def)
  show ?thesis
    using forked_status_not_pending [of "m_Status m"] s
    by (simp add: copy_of_def build_forked_message_def message_row_def hydrated_def blank_message_def)
qed

lemma forked_path:
  assumes ok: "tree_ok db" and anc: "anc = ancestors_up db c 2000 i" "anc \<noteq> []"
    and items: "build_fork_messages u uuid 0 [] (map (hydrated jl db) (rev anc)) = Inr items"
  shows "anc = branch_up db c i" "fork_linked items" "length items = length anc"
    "fm_SourceParentMessageID (hd items) = None"
    "list_all2 copy_of (rev anc) (copied target n None items)"
proof -
  note b = build_fork_Inr [OF items]
  have l: "linked anc" using anc(1) by (simp add: ancestors_linked)
  show len: "length items = length anc" using b(1) by simp
  have root: "m_ParentMessageID (last anc) = None"
    using b(2) anc(2) by (simp add: hd_map hd_rev)
  then have root': "m_ParentMessageID (last (ancestors_up db c (Suc 1999) i)) = None" "ancestors_up db c (Suc 1999) i \<noteq> []"
    using anc by simp_all
  have "Suc 1999 = (2000::nat)" by simp
  then show "anc = branch_up db c i" using ancestors_to_root [OF ok root'(2,1)] anc(1) by (simp only:)
  have it: "items ! k = \<lparr>fm_SourceMessageID = m_ID (rev anc ! k), fm_SourceParentMessageID = m_ParentMessageID (rev anc ! k),
      fm_Message = build_forked_message u (uuid k) (hydrated jl db (rev anc ! k))\<rparr>" if "k < length anc" for k
    using b(3) [of k] that by simp
  show "fork_linked items"
    by (rule fork_linked_nth) (use it len linked_rev_nth [OF l] in simp)
  have "hd items = items ! 0" using len anc(2) by (intro hd_conv_nth) auto
  then show "fm_SourceParentMessageID (hd items) = None"
    using it [of 0] anc(2) root by (simp add: rev_nth last_conv_nth)
  show "list_all2 copy_of (rev anc) (copied target n None items)"
    using len by (simp add: list_all2_conv_all_nth copied_nth it forked_copy_of)
qed

lemma fork_Inr:
  assumes ok: "tree_ok db"
    and fork: "fork_conversation_from_message jl cr fresh u cp mp db = (db', Inr target)"
  shows "\<exists>source m items anc input. fork_point jl db u cp mp = Inr (source, m) \<and>
    anc = ancestors_up db (c_ID source) 2000 (m_ID m) \<and> anc \<noteq> [] \<and>
    build_fork_messages u (ff_message fresh) 0 [] (map (hydrated jl db) (rev anc)) = Inr items \<and>
    fork_body cr (ff_now fresh) input db = Inr (target, db') \<and> fi_Messages input = items"
proof -
  obtain source m where p: "fork_point jl db u cp mp = Inr (source, m)"
    using fork by (auto simp: fork_conversation_from_message_def split: sum.splits)
  have path: "list_message_ancestors jl db (c_ID source) (m_ID m) fork_ancestor_max_depth =
      map (hydrated jl db) (rev (ancestors_up db (c_ID source) 2000 (m_ID m)))"
    using list_message_ancestors_rows [OF tree_ok_ids [OF ok], of 2000 jl "c_ID source" "m_ID m"]
    by (simp add: fork_ancestor_max_depth_def)
  show ?thesis using fork
    by (simp add: fork_conversation_from_message_def p path create_forked_conversation_def run_tx_def Let_def
        split: if_splits sum.splits prod.splits)
      (intro exI conjI, simp, simp)
qed

lemma fork_effect:
  assumes "tree_ok db"
    and "fork_conversation_from_message jl cr fresh userID conversationPublicID messagePublicID db = (db', r)"
  shows "tree_ok db' \<and> tree_grows db db' \<and>
    (case r of Inl _ \<Rightarrow> db' = db
     | Inr target \<Rightarrow> \<exists>source m rows. fork_point jl db userID conversationPublicID messagePublicID = Inr (source, m) \<and>
         cd_messages db' = cd_messages db @ rows \<and> cd_conversations db' = cd_conversations db @ [target] \<and>
         rev (branch_up db' (c_ID target) (length (cd_messages db'))) = rows \<and>
         list_all2 copy_of (rev (branch_up db (c_ID source) (m_ID m))) rows)"
proof (cases r)
  case (Inl e)
  then have "db' = db"
    using assms(2) by (auto simp: fork_conversation_from_message_def create_forked_conversation_def Let_def
        dest: run_tx_Inl split: sum.splits if_splits prod.splits)
  then show ?thesis using Inl assms(1) by (simp add: tree_grows_refl)
next
  case (Inr target)
  obtain source m items anc input where p: "fork_point jl db userID conversationPublicID messagePublicID = Inr (source, m)"
    and anc: "anc = ancestors_up db (c_ID source) 2000 (m_ID m)" "anc \<noteq> []"
    and items: "build_fork_messages userID (ff_message fresh) 0 [] (map (hydrated jl db) (rev anc)) = Inr items"
    and body: "fork_body cr (ff_now fresh) input db = Inr (target, db')" and input: "fi_Messages input = items"
    using fork_Inr [OF assms(1) assms(2) [unfolded Inr]] by blast
  let ?rows = "copied target (length (cd_messages db)) None items"
  note f = forked_path [OF assms(1) anc items]
  have e: "tree_ok db' \<and> tree_grows db db' \<and> cd_conversations db' = cd_conversations db @ [target] \<and>
      cd_messages db' = cd_messages db @ ?rows"
    using fork_body_effect [OF body assms(1)] f(2,4) input by simp
  obtain k where k: "length items = Suc k" using f(3) anc(2) by (cases items) auto
  have "branch_up db' (c_ID target) (Suc (length (cd_messages db) + k)) = rev (take (Suc k) ?rows)"
    using copies_branch [of db' "cd_messages db" target items k] e k by simp
  then have "rev (branch_up db' (c_ID target) (length (cd_messages db'))) = ?rows" using e k by simp
  moreover have "list_all2 copy_of (rev (branch_up db (c_ID source) (m_ID m))) ?rows" using f(1,5) by simp
  ultimately show ?thesis using Inr p e by auto
qed

text \<open>
  C6: Forking a conversation (\<^verbatim>\<open>ForkConversationFromMessage\<close>, \<^verbatim>\<open>CreateForkedConversation\<close>) keeps the message
  tree well-formed and moves nothing; when it fails it writes nothing. When it succeeds, it adds one
  conversation and the messages of one branch: the branch that ends in the last new message
  consists of exactly the new messages, and is, message for message, a copy of the whole branch of
  the message forked from, with no message left pending, no run and no charge.
\<close>

theorem fork_copies_branch:
  assumes "tree_ok db"
    and "fork_conversation_from_message jl cr fresh userID conversationPublicID messagePublicID db = (db', r)"
  shows "tree_ok db' \<and> tree_grows db db' \<and>
    (case r of Inl _ \<Rightarrow> db' = db
     | Inr target \<Rightarrow> \<exists>source m rows. fork_point jl db userID conversationPublicID messagePublicID = Inr (source, m) \<and>
         cd_messages db' = cd_messages db @ rows \<and> cd_conversations db' = cd_conversations db @ [target] \<and>
         rev (branch_up db' (c_ID target) (length (cd_messages db'))) = rows \<and>
         list_all2 copy_of (rev (branch_up db (c_ID source) (m_ID m))) rows)"
  by (rule fork_effect [OF assms])

section \<open>Forking goes through\<close>

lemma fork_messages_succeed:
  assumes "fork_linked items" "items \<noteq> [] \<Longrightarrow> forked_parent ids (fm_SourceParentMessageID (hd items)) = Inr parent"
    "distinct (map (\<lambda>item. m_PublicID (fm_Message item)) items)"
    "set (map (\<lambda>item. m_PublicID (fm_Message item)) items) \<inter> set (map m_PublicID (cd_messages db)) = {}"
  shows "\<exists>ids' db'. fork_messages target items ids db = Inr (ids', db')"
  using assms
proof (induction items arbitrary: ids db parent)
  case (Cons item items)
  let ?m = "(fm_Message item)\<lparr>m_ID := 0, m_ConversationID := c_ID target,
      m_UserID := c_UserID target, m_ParentMessageID := parent\<rparr>"
  let ?db1 = "db\<lparr>cd_messages := cd_messages db @ [fresh_row ?m db]\<rparr>"
  let ?e = "(fresh_row ?m db)\<lparr>m_Attachments := m_Attachments ?m\<rparr>"
  have c: "create_message ?m db = Inr (?e, ?db1)" using Cons.prems(4) by (auto simp: create_message_Inr)
  have "\<exists>ids' db'. fork_messages target items (ids(fm_SourceMessageID item \<mapsto> m_ID ?e)) ?db1 = Inr (ids', db')"
  proof (rule Cons.IH [where parent = "Some (m_ID ?e)"])
    show "fork_linked items" using Cons.prems(1) by (cases items) auto
    show "forked_parent (ids(fm_SourceMessageID item \<mapsto> m_ID ?e)) (fm_SourceParentMessageID (hd items)) = Inr (Some (m_ID ?e))"
      if "items \<noteq> []" using Cons.prems(1) that by (cases items) (auto simp: forked_parent_def)
    show "distinct (map (\<lambda>item. m_PublicID (fm_Message item)) items)" using Cons.prems(3) by simp
    show "set (map (\<lambda>item. m_PublicID (fm_Message item)) items) \<inter> set (map m_PublicID (cd_messages ?db1)) = {}"
      using Cons.prems(3,4) by auto
  qed
  then show ?case using c Cons.prems(2) by simp
qed simp

lemma forked_rows_succeed:
  "\<forall>a \<in> set sources. ids (at_MessageID a) \<noteq> None \<Longrightarrow> \<exists>rows. forked_attachments files ids mk sources = Inr rows"
  "\<forall>e \<in> set events. ids (ev_MessageID e) \<noteq> None \<Longrightarrow> \<exists>rows. forked_events ids mk' events = Inr rows"
proof -
  show "\<forall>a \<in> set sources. ids (at_MessageID a) \<noteq> None \<Longrightarrow> \<exists>rows. forked_attachments files ids mk sources = Inr rows"
  proof (induction sources)
    case (Cons a sources)
    then obtain rows i where "forked_attachments files ids mk sources = Inr rows" "ids (at_MessageID a) = Some i" by auto
    then show ?case by (auto split: option.split)
  qed simp
  show "\<forall>e \<in> set events. ids (ev_MessageID e) \<noteq> None \<Longrightarrow> \<exists>rows. forked_events ids mk' events = Inr rows"
  proof (induction events)
    case (Cons e events)
    then obtain rows i where "forked_events ids mk' events = Inr rows" "ids (ev_MessageID e) = Some i" by auto
    then show ?case by simp
  qed simp
qed

lemma clones_succeed:
  "\<exists>db'. clone_forked_attachments u s t ids now db = Inr ((), db')"
  "\<exists>db'. clone_forked_display_traces cr u s t ids db = Inr ((), db')"
proof -
  let ?a = "filter (\<lambda>a. at_ConversationID a = s \<and> at_UserID a = u \<and> ids (at_MessageID a) \<noteq> None \<and> at_Status a \<noteq> ''deleted'')
      (cd_attachments db)"
  have "\<exists>rows. forked_attachments f ids (forked_attachment u t now) ?a = Inr rows" for f
    by (rule forked_rows_succeed) auto
  then show "\<exists>db'. clone_forked_attachments u s t ids now db = Inr ((), db')"
    unfolding clone_forked_attachments_def Let_def by (metis (no_types, lifting) old.sum.simps(6))
  let ?e = "sort_key ev_MessageID (sort_key ev_Seq (sort_key ev_ID (filter (\<lambda>e. ev_ConversationID e = s \<and> ev_UserID e = u \<and>
      ids (ev_MessageID e) \<noteq> None \<and> (ev_EventScope e = ''trace_block'' \<or> ev_EventScope e = ''trace_event'')) (cd_events db))))"
  obtain rows where "forked_events ids (forked_event cr u t) ?e = Inr rows"
    using forked_rows_succeed(2) [of ?e ids "forked_event cr u t"] by auto
  then show "\<exists>db'. clone_forked_display_traces cr u s t ids db = Inr ((), db')"
    unfolding clone_forked_display_traces_def Let_def by simp
qed

text \<open>The loop over the path accepts a chain that starts at a root.\<close>

fun rooted :: "nat option \<Rightarrow> message list \<Rightarrow> bool" where
  "rooted parent [] = True"
| "rooted parent (m # ms) = (m_ParentMessageID m = parent \<and> rooted (Some (m_ID m)) ms)"

lemma build_fork_succeeds:
  assumes "rooted (if seen = [] then None else Some (hd seen)) path" "index = length seen"
    "distinct (map m_ID path @ seen)" "0 \<notin> set (map m_ID path)"
  shows "\<exists>items. build_fork_messages u uuid index seen path = Inr items"
  using assms
proof (induction path arbitrary: index seen)
  case (Cons m path)
  have "\<exists>items. build_fork_messages u uuid (Suc index) (m_ID m # seen) path = Inr items"
    by (rule Cons.IH) (use Cons.prems in auto)
  moreover have "\<not> (case m_ParentMessageID m of None \<Rightarrow> index \<noteq> 0 | Some p \<Rightarrow> index = 0 \<or> p \<notin> set seen)"
    using Cons.prems(1,2) by (cases seen) auto
  ultimately show ?case using Cons.prems(3,4) by auto
qed simp

lemma build_fork_unrooted:
  "path \<noteq> [] \<Longrightarrow> m_ParentMessageID (hd path) \<noteq> None \<Longrightarrow>
   build_fork_messages u uuid 0 [] path = Inl ErrMessageForkHistoryIncomplete"
  by (cases path) auto

lemma rooted_linked:
  assumes "linked xs" "xs \<noteq> []" "m_ParentMessageID (last xs) = None"
  shows "rooted None (rev xs)"
proof -
  have snoc: "rooted p (ys @ [m, n]) \<longleftrightarrow> rooted p (ys @ [m]) \<and> m_ParentMessageID n = Some (m_ID m)" for p ys m n
    by (induction ys arbitrary: p) auto
  show ?thesis using assms
    by (induction xs rule: linked.induct) (auto simp: snoc)
qed

lemma rooted_hydrated: "rooted p (map (hydrated jl db) ms) = rooted p ms"
  by (induction ms arbitrary: p) auto

lemma fork_point_source:
  assumes "tree_ok db" "fork_point jl db u cp mp = Inr (source, m)"
  shows "source \<in> set (cd_conversations db)" "c_UserID source = u" "c_DeletedAt source = None"
    "\<exists>r. in_conversation db (c_ID source) (m_ID m) = Some r"
proof -
  have g: "get_conversation_by_public_id db (trim_space cp) u = Inr source"
    "get_message_by_public_id_for_user jl db u (trim_space mp) = Inr m" "m_ConversationID m = c_ID source"
    using assms(2) by (auto simp: fork_point_def Let_def split: if_splits sum.splits)
  show "source \<in> set (cd_conversations db)" "c_UserID source = u" "c_DeletedAt source = None"
    using g(1) by (auto simp: get_conversation_by_public_id_def split: option.splits dest!: find_mem)
  obtain r where "r \<in> set (cd_messages db)" "m = hydrated jl db r"
    using g(2) by (auto simp: get_message_by_public_id_for_user_def first_message_Inr [OF tree_ok_ids [OF assms(1)]] dest!: find_mem)
  then show "\<exists>r. in_conversation db (c_ID source) (m_ID m) = Some r"
    using g(3) in_conversation_Some [OF tree_ok_ids [OF assms(1)], of "c_ID source" "m_ID m" r] by auto
qed

lemma branch_distinct: "tree_ok db \<Longrightarrow> distinct (map m_ID (branch_up db c i))"
proof -
  have "sorted_wrt (\<lambda>m n. m_ID n < m_ID m) xs \<Longrightarrow> distinct (map m_ID xs)" for xs by (induction xs) auto
  then show "tree_ok db \<Longrightarrow> distinct (map m_ID (branch_up db c i))" using branch_decreasing by blast
qed

lemma branch_owner:
  assumes "tree_ok db" "source \<in> set (cd_conversations db)" "x \<in> set (branch_up db (c_ID source) i)"
  shows "m_UserID x = c_UserID source"
proof -
  have x: "x \<in> set (cd_messages db)" "m_ConversationID x = c_ID source" using branch_set [OF assms(3)] by auto
  then have "owner_ok db x" using assms(1) by (simp add: tree_ok_def links_ok_def)
  then obtain c where "c \<in> set (cd_conversations db)" "c_ID c = c_ID source" "c_UserID c = m_UserID x"
    using x(2) by (auto simp: owner_ok_def)
  then show ?thesis using conversation_unique [OF tree_ok_ids [OF assms(1)] _ assms(2)] by metis
qed

lemma fork_source_accepted:
  assumes "tree_ok db" "source \<in> set (cd_conversations db)" "c_DeletedAt source = None"
    and ids: "map fm_SourceMessageID (fi_Messages input) = map m_ID (rev (branch_up db (c_ID source) i))"
    and input: "fi_SourceConversationID input = c_ID source" "c_UserID (fi_Conversation input) = c_UserID source"
  shows "fork_source_ok input db"
proof -
  let ?b = "branch_up db (c_ID source) i"
  let ?f = "filter (\<lambda>m. m_ConversationID m = c_ID source \<and> m_UserID m = c_UserID source \<and>
      m_ID m \<in> set (map fm_SourceMessageID (fi_Messages input))) (cd_messages db)"
  have sub: "set ?b \<subseteq> set ?f"
  proof
    fix x assume x: "x \<in> set ?b"
    then have "m_ID x \<in> set (map fm_SourceMessageID (fi_Messages input))" unfolding ids by simp
    then show "x \<in> set ?f" using branch_set [OF x] branch_owner [OF assms(1,2) x] by simp
  qed
  have sup: "set ?f \<subseteq> set ?b"
  proof
    fix x assume "x \<in> set ?f"
    then have x: "x \<in> set (cd_messages db)" "m_ID x \<in> set (map m_ID (rev ?b))" using ids by auto
    then obtain y where "y \<in> set ?b" "m_ID y = m_ID x" by auto
    then show "x \<in> set ?b" using message_unique [OF tree_ok_ids [OF assms(1)] x(1), of y] branch_set by metis
  qed
  have "distinct (map m_ID (cd_messages db))"
    using assms(1) by (simp add: tree_ok_def links_ok_def ids_ok_def)
  then have df: "distinct ?f" by (simp add: distinct_map)
  have db: "distinct ?b" using branch_distinct [OF assms(1), of "c_ID source" i] by (simp add: distinct_map)
  have "set ?f = set ?b" using sub sup by (rule equalityI [rotated])
  then have "length ?f = length ?b" using distinct_card [OF df] distinct_card [OF db] by (simp only:)
  also have "\<dots> = length (fi_Messages input)" using ids by (metis length_map length_rev)
  finally show ?thesis using assms(2,3) input by (auto simp: fork_source_ok_def list_ex_iff)
qed

text \<open>Identifiers as fresh as \<^verbatim>\<open>uuid.NewString\<close> gives them.\<close>

definition fresh_ids :: "fork_fresh \<Rightarrow> chat_db \<Rightarrow> bool" where
  "fresh_ids fresh db \<longleftrightarrow>
     trim_space (normalize_public_id (ff_conversation fresh)) \<noteq> [] \<and> trim_space (ff_session fresh) \<noteq> [] \<and>
     ff_session fresh \<notin> set (map c_SessionKey (cd_conversations db)) \<and>
     distinct (map (\<lambda>k. normalize_public_id (ff_message fresh k)) [0..<2000]) \<and>
     list_all (\<lambda>k. trim_space (normalize_public_id (ff_message fresh k)) \<noteq> [] \<and>
        normalize_public_id (ff_message fresh k) \<notin> set (map m_PublicID (cd_messages db))) [0..<2000]"

lemma fork_body_succeeds:
  assumes "fork_source_ok input db" "fork_linked (fi_Messages input)"
    "c_SessionKey (fi_Conversation input) \<notin> set (map c_SessionKey (cd_conversations db))"
    "fi_Messages input \<noteq> [] \<Longrightarrow> fm_SourceParentMessageID (hd (fi_Messages input)) = None"
    "distinct (map (\<lambda>item. m_PublicID (fm_Message item)) (fi_Messages input))"
    "set (map (\<lambda>item. m_PublicID (fm_Message item)) (fi_Messages input)) \<inter> set (map m_PublicID (cd_messages db)) = {}"
  shows "\<exists>target db'. fork_body cr now input db = Inr (target, db')"
proof -
  obtain target db1 where 1: "create_conversation ((fi_Conversation input)\<lparr>c_MessageCount := int (length (fi_Messages input))\<rparr>) db =
      Inr (target, db1)" "cd_messages db1 = cd_messages db"
    using assms(3) by (auto simp: create_conversation_def Let_def)
  obtain ids db2 where 2: "fork_messages target (fi_Messages input) Map.empty db1 = Inr (ids, db2)"
    using fork_messages_succeed [OF assms(2), of Map.empty None db1 target] assms(4-6) 1(2)
    by (auto simp: forked_parent_def)
  obtain db3 where 3: "clone_forked_attachments (c_UserID target) (fi_SourceConversationID input) (c_ID target) ids now db2 = Inr ((), db3)"
    using clones_succeed(1) by blast
  obtain db4 where 4: "clone_forked_display_traces cr (c_UserID target) (fi_SourceConversationID input) (c_ID target) ids db3 = Inr ((), db4)"
    using clones_succeed(2) by blast
  show ?thesis using assms(1) 1 2 3 4 by (simp add: fork_body_def)
qed

lemma ancestors_2000:
  assumes "tree_ok db"
  shows "length (branch_up db c i) \<le> 2000 \<Longrightarrow> ancestors_up db c 2000 i = branch_up db c i"
    "length (branch_up db c i) > 2000 \<Longrightarrow> m_ParentMessageID (last (ancestors_up db c 2000 i)) \<noteq> None"
proof -
  have n: "Suc 1999 = (2000::nat)" by simp
  have s: "branch_up db c i = ancestors_up db c 2000 i @
      (if length (ancestors_up db c 2000 i) = 2000 then read_on (branch_up db c) (ancestors_up db c 2000 i) else [])"
    using branch_split [OF assms, of c i 1999] unfolding n .
  have le: "length (ancestors_up db c 2000 i) \<le> 2000" by (rule ancestors_length)
  have len: "length (branch_up db c i) = length (ancestors_up db c 2000 i) +
      length (if length (ancestors_up db c 2000 i) = 2000 then read_on (branch_up db c) (ancestors_up db c 2000 i) else [])"
    by (subst s) (rule length_append)
  show "ancestors_up db c 2000 i = branch_up db c i" if "length (branch_up db c i) \<le> 2000"
  proof -
    have "(if length (ancestors_up db c 2000 i) = 2000 then read_on (branch_up db c) (ancestors_up db c 2000 i) else []) = []"
      using len that by (cases "length (ancestors_up db c 2000 i) = 2000") simp_all
    then show ?thesis using s by simp
  qed
  show "m_ParentMessageID (last (ancestors_up db c 2000 i)) \<noteq> None" if "length (branch_up db c i) > 2000"
  proof
    assume "m_ParentMessageID (last (ancestors_up db c 2000 i)) = None"
    then have "read_on (branch_up db c) (ancestors_up db c 2000 i) = []" by (simp add: read_on_def)
    then show False using len le that by (simp split: if_splits)
  qed
qed

lemma fork_path:
  assumes "tree_ok db" "in_conversation db c i = Some r"
  shows "list_message_ancestors jl db c i fork_ancestor_max_depth = map (hydrated jl db) (rev (ancestors_up db c 2000 i))"
    "ancestors_up db c 2000 i \<noteq> []" "m_ID (hd (ancestors_up db c 2000 i)) = i"
proof -
  show "list_message_ancestors jl db c i fork_ancestor_max_depth = map (hydrated jl db) (rev (ancestors_up db c 2000 i))"
    using list_message_ancestors_rows [OF tree_ok_ids [OF assms(1)], of 2000 jl c i]
    by (simp add: fork_ancestor_max_depth_def)
  have n: "2000 = Suc 1999" by simp
  show "ancestors_up db c 2000 i \<noteq> []" "m_ID (hd (ancestors_up db c 2000 i)) = i"
    unfolding n ancestors_up_Suc using assms(2) in_conversationD [OF assms(2)] by simp_all
qed

lemma built_public_ids:
  assumes "build_fork_messages u uuid 0 [] path = Inr items"
  shows "map (\<lambda>item. m_PublicID (fm_Message item)) items = map (\<lambda>k. normalize_public_id (uuid k)) [0..<length path]"
    "map fm_SourceMessageID items = map m_ID path"
  using build_fork_Inr [OF assms]
  by (auto intro!: nth_equalityI simp: build_forked_message_def)

lemma fork_goes_through:
  assumes ok: "tree_ok db" and p: "fork_point jl db u cp mp = Inr (source, m)" and u: "0 < u"
    and fresh: "fresh_ids fresh db" and short: "length (branch_up db (c_ID source) (m_ID m)) \<le> 2000"
  shows "\<exists>db' target. fork_conversation_from_message jl cr fresh u cp mp db = (db', Inr target)"
proof -
  let ?c = "c_ID source" and ?b = "branch_up db (c_ID source) (m_ID m)"
  note s = fork_point_source [OF ok p]
  obtain r where r: "in_conversation db ?c (m_ID m) = Some r" using s(4) by blast
  have anc: "ancestors_up db ?c 2000 (m_ID m) = ?b" by (rule ancestors_2000(1) [OF ok short])
  note path = fork_path [OF ok r, unfolded anc]
  let ?path = "map (hydrated jl db) (rev ?b)"
  have ids: "0 \<notin> set (map m_ID ?path)"
    using branch_set message_id_range [OF tree_ok_ids [OF ok]] by fastforce
  have d: "distinct (map m_ID ?path @ [])" using branch_distinct [OF ok, of ?c "m_ID m"] by (simp add: rev_map [symmetric] o_def)
  have "rooted None ?path"
    using rooted_linked [OF branch_linked path(2) branch_root [OF ok path(2)]] by (simp add: rooted_hydrated)
  then obtain items where items: "build_fork_messages u (ff_message fresh) 0 [] ?path = Inr items"
    using build_fork_succeeds [of "[]" ?path 0 u "ff_message fresh"] d ids by (simp only: simp_thms if_True list.size) blast
  have f: "fork_linked items" "length items = length ?b" "fm_SourceParentMessageID (hd items) = None"
    using forked_path [OF ok _ _ items] anc path(2) by metis+
  note pub = built_public_ids [OF items]
  have n: "normalize_public_id (ff_message fresh k) \<notin> set (map m_PublicID (cd_messages db)) \<and>
      trim_space (normalize_public_id (ff_message fresh k)) \<noteq> []" if "k < length ?b" for k
    using fresh short that by (auto simp: fresh_ids_def list_all_iff)
  have pubs: "distinct (map (\<lambda>item. m_PublicID (fm_Message item)) items)"
    "set (map (\<lambda>item. m_PublicID (fm_Message item)) items) \<inter> set (map m_PublicID (cd_messages db)) = {}"
  proof -
    show "distinct (map (\<lambda>item. m_PublicID (fm_Message item)) items)"
      unfolding pub(1) using fresh short by (auto simp: fresh_ids_def distinct_map inj_on_def)
    have "x \<notin> set (map m_PublicID (cd_messages db))"
      if "x \<in> set (map (\<lambda>k. normalize_public_id (ff_message fresh k)) [0..<length ?path])" for x
      using that n by (simp only: set_map set_upt length_map length_rev) fastforce
    then show "set (map (\<lambda>item. m_PublicID (fm_Message item)) items) \<inter> set (map m_PublicID (cd_messages db)) = {}"
      unfolding pub(1) by blast
  qed
  define input where "input = \<lparr>fi_SourceConversationID = ?c,
      fi_Conversation = fork_target u (ff_conversation fresh) (ff_session fresh) (ff_policy fresh) source (length ?path),
      fi_Messages = items\<rparr>"
  have src: "fork_source_ok input db"
    by (rule fork_source_accepted [OF ok s(1,3)]) (simp_all add: input_def pub(2) fork_target_def s(2) o_def)
  obtain target db' where body: "fork_body cr (ff_now fresh) input db = Inr (target, db')"
    using fork_body_succeeds [OF src, of cr "ff_now fresh"] f pubs fresh by (auto simp: input_def fork_target_def fresh_ids_def)
  have nonblank: "list_all (\<lambda>item. fm_SourceMessageID item \<noteq> 0 \<and> trim_space (m_PublicID (fm_Message item)) \<noteq> []) items"
  proof -
    have "fm_SourceMessageID item \<noteq> 0" if "item \<in> set items" for item using ids that unfolding pub(2) [symmetric] by auto
    moreover have "trim_space (m_PublicID (fm_Message item)) \<noteq> []" if "item \<in> set items" for item
    proof -
      have "m_PublicID (fm_Message item) \<in> set (map (\<lambda>item. m_PublicID (fm_Message item)) items)" using that by simp
      then show ?thesis unfolding pub(1) using n by auto
    qed
    ultimately show ?thesis by (simp add: list_all_iff)
  qed
  have "c_ID source \<in> set (map c_ID (cd_conversations db))" using s(1) by simp
  also have "map c_ID (cd_conversations db) = [1..<Suc (length (cd_conversations db))]"
    using tree_ok_ids [OF ok] by (simp add: ids_ok_def)
  finally have c: "c_ID source \<noteq> 0" by auto
  have "distinct (map fm_SourceMessageID items)" "items \<noteq> []" using pub(2) d f(2) path(2) by auto
  then have "fork_input_ok input"
    using nonblank f(2) short u fresh c
    by (simp add: fork_input_ok_def input_def fork_target_def fresh_ids_def max_ancestor_query_depth_def)
  then show ?thesis
    using body path items by (auto simp: fork_conversation_from_message_def p create_forked_conversation_def run_tx_def input_def
      last_map last_rev)
qed

text \<open>
  C23: A fork from a finished answer goes through exactly when its branch has at most 2000 messages
  (\<open>fork_ancestor_max_depth\<close>): a longer one is refused as incomplete and nothing is written, never
  copied in part.
\<close>

theorem fork_complete_or_refused:
  assumes "tree_ok db" "fork_point jl db userID conversationPublicID messagePublicID = Inr (source, m)"
    "0 < userID" "fresh_ids fresh db"
  shows "if length (branch_up db (c_ID source) (m_ID m)) \<le> 2000
    then \<exists>db' target. fork_conversation_from_message jl cr fresh userID conversationPublicID messagePublicID db = (db', Inr target)
    else fork_conversation_from_message jl cr fresh userID conversationPublicID messagePublicID db =
      (db, Inl ErrMessageForkHistoryIncomplete)"
proof (cases "length (branch_up db (c_ID source) (m_ID m)) \<le> 2000")
  case True
  then show ?thesis using fork_goes_through [OF assms True] by simp
next
  case False
  obtain r where r: "in_conversation db (c_ID source) (m_ID m) = Some r" using fork_point_source [OF assms(1,2)] by blast
  note path = fork_path [OF assms(1) r]
  have "m_ParentMessageID (last (ancestors_up db (c_ID source) 2000 (m_ID m))) \<noteq> None"
    using ancestors_2000(2) [OF assms(1), of "c_ID source" "m_ID m"] False by simp
  then have "build_fork_messages userID (ff_message fresh) 0 [] (map (hydrated jl db)
      (rev (ancestors_up db (c_ID source) 2000 (m_ID m)))) = Inl ErrMessageForkHistoryIncomplete"
    using path(2) by (intro build_fork_unrooted) (simp_all add: hd_map hd_rev)
  then show ?thesis using False path assms(2)
    by (simp add: fork_conversation_from_message_def last_map last_rev Let_def)
qed

section \<open>A sample fork\<close>

definition sample_fresh :: fork_fresh where
  "sample_fresh = \<lparr>ff_conversation = ''c2'', ff_session = ''s2'', ff_message = (\<lambda>k. replicate (Suc k) CHR ''x''),
     ff_policy = ''{}'', ff_now = 0\<rparr>"

lemma trim_xs: "trim_space (replicate (Suc k) CHR ''x'') = replicate (Suc k) CHR ''x''"
proof -
  have "rev (replicate (Suc k) CHR ''x'') = replicate (Suc k) CHR ''x''" by (rule rev_replicate)
  moreover have "strip_one go_spaces (replicate (Suc k) CHR ''x'') = None"
    "strip_one (map rev go_spaces) (replicate (Suc k) CHR ''x'') = None" by (simp_all add: go_spaces_def)
  ultimately show ?thesis by (simp only: trim_space_def trim_left_def trim_right_def trim_with_fixed)
qed

lemma sample_xs [simp]: "normalize_public_id (ff_message sample_fresh k) = replicate (Suc k) CHR ''x''"
  by (simp only: normalize_public_id_def sample_fresh_def fork_fresh.simps trim_xs) simp

lemma sample_fresh_ids: "fresh_ids sample_fresh sample_chat"
proof -
  have "trim_space (normalize_public_id ''c2'') \<noteq> []" "trim_space ''s2'' \<noteq> []" by code_simp+
  moreover have "inj_on (\<lambda>k. replicate (Suc k) CHR ''x'') S" for S by (auto simp: inj_on_def)
  moreover have "replicate (Suc k) CHR ''x'' \<notin> set (map m_PublicID (cd_messages sample_chat))" for k
    by (simp add: sample_chat_def)
  ultimately show ?thesis
    by (simp add: fresh_ids_def distinct_map list_all_iff trim_xs del: replicate_Suc)
       (simp add: sample_fresh_def sample_chat_def sample_conversation_def)
qed

lemma sample_fork_point:
  "fork_point sample_json sample_chat 7 ''c1'' ''m2'' =
     Inr (sample_conversation, hydrated sample_json sample_chat (sample_message 2 ''assistant'' ''success''))"
proof -
  have t: "trim_space ''c1'' = ''c1''" "trim_space ''m2'' = ''m2''" "equal_fold (trim_space ''assistant'') ''assistant''"
    "\<not> equal_fold (trim_space ''success'') ''pending''" by code_simp+
  have c: "get_conversation_by_public_id sample_chat ''c1'' 7 = Inr sample_conversation" by code_simp
  have "find (\<lambda>m. m_UserID m = 7 \<and> m_PublicID m = ''m2'') (cd_messages sample_chat) =
      Some (sample_message 2 ''assistant'' ''success'')" by code_simp
  then have "get_message_by_public_id_for_user sample_json sample_chat 7 ''m2'' =
      Inr (hydrated sample_json sample_chat (sample_message 2 ''assistant'' ''success''))"
    unfolding get_message_by_public_id_for_user_def by (simp only: first_message_Inr [OF tree_ok_ids [OF sample_tree]]) blast
  then show ?thesis using t c by (simp add: fork_point_def sample_conversation_def)
qed

lemma sample_short: "length (branch_up sample_chat (c_ID sample_conversation) 2) = 2"
  by code_simp

theorem fork_complete_or_refused_witness:
  "\<exists>db' target. fork_conversation_from_message sample_json sample_hash sample_fresh 7 ''c1'' ''m2'' sample_chat = (db', Inr target)"
  using fork_complete_or_refused [OF sample_tree sample_fork_point _ sample_fresh_ids, of sample_hash] sample_short by simp

theorem fork_copies_branch_witness:
  "\<exists>db' target. fork_conversation_from_message sample_json sample_hash sample_fresh 7 ''c1'' ''m2'' sample_chat = (db', Inr target) \<and>
     tree_ok db' \<and> length (branch_up db' (c_ID target) (length (cd_messages db'))) = 2"
proof -
  obtain db' target where f: "fork_conversation_from_message sample_json sample_hash sample_fresh 7 ''c1'' ''m2'' sample_chat = (db', Inr target)"
    using fork_goes_through [OF sample_tree sample_fork_point _ sample_fresh_ids, of sample_hash] sample_short by auto
  show ?thesis
    using fork_copies_branch [OF sample_tree f] f sample_fork_point sample_short list_all2_lengthD by fastforce
qed

end
