(* ===== verification/Conversation_Runs.thy ===== *)
theory Conversation_Runs
  imports Conversation_Fork
begin

text \<open>
  The conversation service (\<^verbatim>\<open>application/conversation/service_conversation.go\<close>) and the runs of the
  message store: creating, renaming, starring, archiving and deleting conversations, editing an answer,
  starting turns, forking, and the updates a running generation makes, in any order. Every operation
  is one transaction; no run leaves the well-formed message tree and no step moves a message of a branch.

  Filling in feedback and process traces for the view is left out, as is the clean-up of the files
  of a deleted conversation (the file service), and copying a shared conversation, which is not
  one transaction.
\<close>

section \<open>The service\<close>

definition infer_provider :: "string \<Rightarrow> string" where
  "infer_provider platformModelName =
     (let code = to_lower (trim_space platformModelName) in
      if has_prefix code ''gpt-'' then ''openai''
      else if has_prefix code ''claude-'' then ''anthropic''
      else ''internal'')"

text \<open>The default title is the UTF-8 encoding of a three-character Chinese word.\<close>

definition default_title :: string where
  "default_title = [CHR 0xE6, CHR 0x96, CHR 0xB0, CHR 0xE5, CHR 0xAF, CHR 0xB9, CHR 0xE8, CHR 0xAF, CHR 0x9D]"

text \<open>\<open>project\<close> is the identifier of the named project: none named, not found, or found.\<close>

definition service_create_conversation ::
    "nat \<Rightarrow> string \<Rightarrow> string \<Rightarrow> (unit + nat option) \<Rightarrow> string \<Rightarrow> string \<Rightarrow> string \<Rightarrow> chat_db \<Rightarrow>
     chat_db \<times> (conversation_error + conversation)" where
  "service_create_conversation userID title modelName project publicUUID sessionUUID policy db =
     (case project of
        Inl _ \<Rightarrow> (db, Inl ErrConversationProjectNotFound)
      | Inr projectID \<Rightarrow>
          let item = \<lparr>c_ID = 0, c_UserID = userID, c_ProjectID = projectID, c_PublicID = normalize_public_id publicUUID,
            c_Title = or_else (trim_space title) default_title, c_LabelsJSON = ''[]'', c_LabelsManuallyManaged = False,
            c_Model = trim_space modelName, c_Provider = infer_provider (trim_space modelName), c_SessionKey = sessionUUID,
            c_IsStarred = False, c_StarredAt = None, c_MessageCount = 0, c_Status = ''active'', c_ContextPolicy = policy,
            c_LastCompactedAt = None, c_LastResponseID = [], c_LastPromptFingerprint = [], c_DeletedAt = None\<rparr>
          in case create_conversation item db of
               Inl err \<Rightarrow> (db, Inl (ErrRepository err))
             | Inr (row, db') \<Rightarrow> (db', Inr row))"

definition conversation_result :: "chat_db \<times> (repo_error + 'a) \<Rightarrow> chat_db \<times> (conversation_error + 'a)" where
  "conversation_result r = (case r of
     (db, Inl err) \<Rightarrow> (db, Inl (if err = NotFound then ErrConversationNotFound else ErrRepository err))
   | (db, Inr x) \<Rightarrow> (db, Inr x))"

definition rename_conversation where
  "rename_conversation userID publicID title db =
     (if trim_space title = [] then (db, Inl ErrInvalidConversationTitle)
      else conversation_result (update_conversation_title_by_public_id userID publicID (trim_space title) db))"

definition set_conversation_star where
  "set_conversation_star userID publicID starred now db =
     conversation_result (update_conversation_star_by_public_id userID publicID starred now db)"

definition set_conversation_archived where
  "set_conversation_archived userID publicID archived db =
     conversation_result (update_conversation_archive_by_public_id userID publicID archived db)"

definition delete_conversation where
  "delete_conversation userID publicID deleteFiles now db =
     conversation_result (delete_conversation_by_public_id userID publicID deleteFiles now db)"

definition edit_assistant_message ::
    "json_lib \<Rightarrow> nat \<Rightarrow> string \<Rightarrow> string \<Rightarrow> gtime \<Rightarrow> chat_db \<Rightarrow> chat_db \<times> (conversation_error + message)" where
  "edit_assistant_message jl userID messagePublicID content now db =
     (let publicID = trim_space messagePublicID; text = trim_space content in
      if publicID = [] then (db, Inl ErrMessageNotFound)
      else if text = [] then (db, Inl ErrInvalidMessageContent)
      else case get_message_by_public_id_for_user jl db userID publicID of
        Inl err \<Rightarrow> (db, Inl (if err = NotFound then ErrMessageNotFound else ErrRepository err))
      | Inr message \<Rightarrow>
          if m_Role message \<noteq> ''assistant'' then (db, Inl ErrMessageEditTargetInvalid)
          else if m_Status message = ''pending'' then (db, Inl ErrMessageEditStateInvalid)
          else case update_assistant_message_content jl userID publicID text now db of
            (db', Inl err) \<Rightarrow> (db', Inl (if err = NotFound then ErrMessageNotFound else ErrRepository err))
          | (db', Inr m) \<Rightarrow> (db', Inr m))"

section \<open>Runs\<close>

text \<open>
  The steps. A turn may be written (\<open>Begin_Late\<close>) long after its branch was resolved: \<open>db0\<close> is then the
  state of that earlier moment, from which the database has grown to \<open>db\<close>.
\<close>

inductive chat_step :: "json_lib \<Rightarrow> crypto \<Rightarrow> chat_db \<Rightarrow> chat_db \<Rightarrow> bool" for jl cr where
  Create: "service_create_conversation u title model project pid sid policy db = (db', r) \<Longrightarrow> chat_step jl cr db db'"
| Rename: "rename_conversation u pid title db = (db', r) \<Longrightarrow> chat_step jl cr db db'"
| Labels: "update_conversation_labels_by_public_id u pid labels db = (db', r) \<Longrightarrow> chat_step jl cr db db'"
| Star: "set_conversation_star u pid starred now db = (db', r) \<Longrightarrow> chat_step jl cr db db'"
| Archive: "set_conversation_archived u pid archived db = (db', r) \<Longrightarrow> chat_step jl cr db db'"
| Delete: "delete_conversation u pid files now db = (db', r) \<Longrightarrow> chat_step jl cr db db'"
| Begin: "begin_turn jl maxFiles resolve input run rejected aid uid now db = (db', r) \<Longrightarrow> chat_step jl cr db db'"
| Begin_Late: "tree_ok db0 \<Longrightarrow> tree_grows db0 db \<Longrightarrow>
    get_conversation_by_user db0 (si_ConversationID input) (si_UserID input) = Inr conv \<Longrightarrow>
    prepare_message_send_branch jl maxFiles input db0 = Inr (prep, input') \<Longrightarrow>
    create_message_pair input' run prep atts rejected aid uid now db = (db', r) \<Longrightarrow> chat_step jl cr db db'"
| Fork: "fork_conversation_from_message jl cr fresh u pid mid db = (db', r) \<Longrightarrow> chat_step jl cr db db'"
| Edit: "edit_assistant_message jl u mid content now db = (db', r) \<Longrightarrow> chat_step jl cr db db'"
| Usage: "chat_step jl cr db (update_message_usage i usage db)"
| State: "chat_step jl cr db (update_message_state i status code msg db)"
| Complete: "chat_step jl cr db (update_assistant_message_completion i completion db)"
| Complete_Generated: "complete_assistant_message_with_generated_attachments i completion atts db = (db', r) \<Longrightarrow>
    chat_step jl cr db db'"
| Complete_Attachments: "complete_assistant_message_with_attachments j usage i completion atts db = (db', r) \<Longrightarrow>
    chat_step jl cr db db'"
| Cancel: "cancel_pending_generation_messages_by_run_id u run code msg db = (db', r) \<Longrightarrow> chat_step jl cr db db'"
| Interrupt: "interrupt_pending_assistant_message_by_run_id u run code msg db = (db', r') \<Longrightarrow> chat_step jl cr db db'"
| Billing: "chat_step jl cr db (update_message_billing i currency nanousd snapshot db)"
| Compacted: "chat_step jl cr db (update_conversation_compacted_at i now db)"
| Response: "chat_step jl cr db (update_conversation_last_response_id i response db)"
| Stateful: "chat_step jl cr db (update_conversation_stateful_response i response fingerprint db)"
| Model: "chat_step jl cr db (update_conversation_model i model provider db)"

inductive chat_reachable :: "json_lib \<Rightarrow> crypto \<Rightarrow> chat_db \<Rightarrow> bool" for jl cr where
  Start: "chat_reachable jl cr empty_chat"
| Step: "chat_reachable jl cr db \<Longrightarrow> chat_step jl cr db db' \<Longrightarrow> chat_reachable jl cr db'"

section \<open>The invariant\<close>

text \<open>The updates that leave every message and conversation in its place.\<close>

lemma with_places [simp]:
  "same_place m (m\<lparr>m_BilledCurrency := x, m_BilledNanousd := y, m_PricingSnapshot := z\<rparr>)"
  "same_place m (with_usage u m)" "same_place m (with_state a b c m)" "same_place m (with_completion v m)"
  "same_place m (with_content_type ct m)" "same_place m (with_content_type ct (with_completion v m))"
  by (simp_all add: same_place_def with_usage_def with_state_def with_completion_def with_content_type_def)

lemma update_own_tree:
  assumes "update_own_conversation u pid f db = (db', r)" "tree_ok db"
    "\<And>c. same_conversation c (f c)" "\<And>c. c_MessageCount (f c) = c_MessageCount c"
  shows "tree_ok db' \<and> tree_grows db db'"
proof (cases "list_ex (\<lambda>c. c_UserID c = u \<and> c_PublicID c = pid \<and> c_DeletedAt c = None) (cd_conversations db)")
  case True
  then have db': "db' = db\<lparr>cd_conversations :=
      map (\<lambda>c. if c_UserID c = u \<and> c_PublicID c = pid \<and> c_DeletedAt c = None then f c else c) (cd_conversations db)\<rparr>"
    using assms(1) by (simp add: update_own_conversation_def Let_def)
  show ?thesis
    by (rule map_keeps_tree [where g = "\<lambda>m. m" and
        h = "\<lambda>c. if c_UserID c = u \<and> c_PublicID c = pid \<and> c_DeletedAt c = None then f c else c"])
       (use assms(2-4) in \<open>simp_all add: db' same_conversation_def\<close>)
next
  case False
  then show ?thesis using assms(1,2) by (simp add: update_own_conversation_def Let_def tree_grows_refl)
qed

definition keeps :: "chat_db \<Rightarrow> chat_db \<Rightarrow> bool" where
  "keeps db db' \<longleftrightarrow> (tree_ok db \<longrightarrow> tree_ok db' \<and> tree_grows db db')"

lemma keepsI: "(tree_ok db \<Longrightarrow> tree_ok db' \<and> tree_grows db db') \<Longrightarrow> keeps db db'"
  by (simp add: keeps_def)

lemma keeps_refl [simp]: "keeps db db"
  by (simp add: keeps_def tree_grows_refl)

lemma keeps_trans: "keeps a b \<Longrightarrow> keeps b c \<Longrightarrow> keeps a c"
  unfolding keeps_def by (blast intro: tree_grows_trans)

lemma keeps_tables:
  "cd_messages db' = cd_messages db \<Longrightarrow> cd_conversations db' = cd_conversations db \<Longrightarrow> keeps db db'"
  unfolding keeps_def by (metis tree_tables(3) grows_tables)

lemma keeps_messages: "(\<And>m. same_place m (f m)) \<Longrightarrow> keeps db (update_messages p f db)"
  by (rule keepsI, rule update_messages_tree)

lemma keeps_conversations:
  "(\<And>c. same_conversation c (f c)) \<Longrightarrow> (\<And>c. c_MessageCount (f c) = c_MessageCount c) \<Longrightarrow> keeps db (update_conversation i f db)"
  by (rule keepsI, rule update_conversation_tree)

lemma keeps_own:
  assumes "update_own_conversation u pid f db = (db', r)"
    "\<And>c. same_conversation c (f c)" "\<And>c. c_MessageCount (f c) = c_MessageCount c"
  shows "keeps db db'"
  by (rule keepsI) (rule update_own_tree [OF assms(1) _ assms(2,3)])

lemma conversation_result_db: "conversation_result x = (db', r) \<Longrightarrow> \<exists>r'. x = (db', r')"
  by (cases x) (auto simp: conversation_result_def split: sum.splits)

lemma keeps_attach: "attach_locked u items rows db = Inr (x, db') \<Longrightarrow> keeps db db'"
  by (rule keeps_tables) (auto dest: attach_locked_Inr)

text \<open>Creating a conversation adds an empty one.\<close>

lemma keeps_create:
  assumes "service_create_conversation u title model project pid sid policy db = (db', r)"
  shows "keeps db db'"
proof (rule keepsI)
  assume ok: "tree_ok db"
  consider "db' = db" | item row where "create_conversation item db = Inr (row, db')" "c_MessageCount item = 0"
    using assms by (force simp: service_create_conversation_def Let_def split: sum.splits prod.splits)
  then show "tree_ok db' \<and> tree_grows db db'"
  proof cases
    case 1
    then show ?thesis using ok by (simp add: tree_grows_refl)
  next
    case 2
    then have "links_ok db'" "counts_off (c_ID row) 0 db'" "tree_grows db db'"
      using create_conversation_tree [OF 2(1) ok 2(2)] unfolding minus_zero by blast+
    then show ?thesis using counts_off_zero [of "c_ID row" db'] by (simp add: tree_ok_def)
  qed
qed

lemma keeps_star:
  assumes "update_conversation_star_by_public_id u pid starred now db = (db', r)"
  shows "keeps db db'"
proof -
  consider "db' = db" | f where "update_own_conversation u pid f db = (db', r)"
      "\<And>c. same_conversation c (f c) \<and> c_MessageCount (f c) = c_MessageCount c"
    using assms by (fastforce simp: update_conversation_star_by_public_id_def same_conversation_def split: sum.splits if_splits)
  then show ?thesis by cases (simp, metis keeps_own)
qed

lemma keeps_delete:
  "delete_conversation_by_public_id u pid files now db = (db', r) \<Longrightarrow> keeps db db'"
  by (auto simp: delete_conversation_by_public_id_def Let_def same_conversation_def intro!: keeps_conversations split: sum.splits)

lemma keeps_content:
  assumes "update_assistant_message_content jl u pid content now db = (db', r)"
  shows "keeps db db'"
proof -
  consider "db' = db" | i where "db' = update_messages (\<lambda>m. m_ID m = i) (\<lambda>m. m\<lparr>m_Content := content, m_EditedAt := Some now\<rparr>) db"
    using assms by (auto simp: update_assistant_message_content_def Let_def split: if_splits option.splits)
  then show ?thesis by cases (auto intro!: keeps_messages simp: same_place_def)
qed

lemma keeps_edit:
  assumes "edit_assistant_message jl u mid content now db = (db', r)"
  shows "keeps db db'"
proof -
  consider "db' = db" | r' where "update_assistant_message_content jl u (trim_space mid) (trim_space content) now db = (db', r')"
    using assms by (auto simp: edit_assistant_message_def Let_def split: if_splits sum.splits prod.splits)
  then show ?thesis by cases (auto dest: keeps_content)
qed

lemma keeps_cancel:
  assumes "cancel_pending_generation_messages_by_run_id u run code msg db = (db', r)"
  shows "keeps db db'"
proof -
  consider "db' = db" | p f q g where "db' = update_messages q g (update_messages p f db)" "\<And>m. same_place m (f m)" "\<And>m. same_place m (g m)"
    using assms by (fastforce simp: cancel_pending_generation_messages_by_run_id_def Let_def split: if_splits)
  then show ?thesis by cases (auto intro: keeps_trans [OF keeps_messages keeps_messages])
qed

lemma keeps_tx:
  assumes "run_tx body db = (db', r)" "\<And>x db'. body db = Inr (x, db') \<Longrightarrow> keeps db db'"
  shows "keeps db db'"
  by (rule run_tx_keeps [where P = "keeps db", OF keeps_refl assms(2,1)])

lemma keeps_complete:
  "complete_assistant_message_with_generated_attachments i completion atts db = (db', r) \<Longrightarrow> keeps db db'"
  "complete_assistant_message_with_attachments j usage i completion atts db = (db', r) \<Longrightarrow> keeps db db'"
proof -
  have g: "keeps db db2" if "complete_with_generated_body i completion atts db = Inr (x, db2)" for x db2
    using that by (auto simp: complete_with_generated_body_def
        intro: keeps_trans [OF keeps_attach keeps_messages] split: sum.splits prod.splits)
  have a: "keeps db db2" if "complete_with_attachments_body j usage i completion atts db = Inr (x, db2)" for x db2
    using that by (auto simp: complete_with_attachments_body_def
        intro: keeps_trans [OF keeps_attach keeps_trans [OF keeps_messages keeps_messages]] split: sum.splits prod.splits)
  show "complete_assistant_message_with_generated_attachments i completion atts db = (db', r) \<Longrightarrow> keeps db db'"
    unfolding complete_assistant_message_with_generated_attachments_def by (erule keeps_tx) (rule g)
  show "complete_assistant_message_with_attachments j usage i completion atts db = (db', r) \<Longrightarrow> keeps db db'"
    unfolding complete_assistant_message_with_attachments_def by (erule keeps_tx) (rule a)
qed

lemma keeps_service:
  "rename_conversation u pid title db = (db', r) \<Longrightarrow> keeps db db'"
  "update_conversation_labels_by_public_id u pid labels db = (db', r1) \<Longrightarrow> keeps db db'"
  "set_conversation_star u pid starred now db = (db', r) \<Longrightarrow> keeps db db'"
  "set_conversation_archived u pid archived db = (db', r) \<Longrightarrow> keeps db db'"
  "delete_conversation u pid files now db = (db', r2) \<Longrightarrow> keeps db db'"
  by (auto simp: rename_conversation_def set_conversation_star_def set_conversation_archived_def delete_conversation_def
      update_conversation_title_by_public_id_def update_conversation_labels_by_public_id_def
      update_conversation_archive_by_public_id_def same_conversation_def
      dest!: conversation_result_db intro: keeps_own keeps_star keeps_delete split: if_splits)

lemma step_keeps: "chat_step jl cr db db' \<Longrightarrow> keeps db db'"
proof (induction rule: chat_step.induct)
  case (Begin maxFiles resolve input run rejected aid uid now db db' r)
  then show ?case by (intro keepsI) (use begin_turn_effect in blast)
next
  case (Begin_Late db0 db input conv maxFiles prep input' run atts rejected aid uid now db' r)
  then show ?case by (intro keepsI) (use late_turn in blast)
next
  case (Fork fresh u pid mid db db' r)
  then show ?case by (intro keepsI) (use fork_effect in blast)
next
  case (Interrupt u run code msg db db' r')
  then show ?case
    by (auto simp: interrupt_pending_assistant_message_by_run_id_def Let_def intro!: keeps_messages)
qed (auto simp: update_message_usage_def update_message_state_def update_assistant_message_completion_def
    update_message_billing_def update_conversation_compacted_at_def update_conversation_last_response_id_def
    update_conversation_stateful_response_def update_conversation_model_def same_conversation_def
    intro!: keeps_messages keeps_conversations with_places intro: keeps_create keeps_service keeps_edit keeps_complete keeps_cancel)

lemma reachable_tree: "chat_reachable jl cr db \<Longrightarrow> tree_ok db"
proof (induction rule: chat_reachable.induct)
  case Start
  show ?case by (rule tree_ok_empty)
next
  case (Step db db')
  then show ?case using step_keeps [OF Step.hyps(2)] by (simp add: keeps_def)
qed

lemma steps_keep: "(chat_step jl cr)\<^sup>*\<^sup>* db db' \<Longrightarrow> keeps db db'"
  by (induction rule: rtranclp_induct) (auto intro: keeps_trans step_keeps)

text \<open>
  C3: After any sequence of operations the messages form trees: each message starts a branch of its own
  conversation that goes up to a root, each message of it older than the one below, and belongs to the
  owner of its conversation; and the message count of every conversation is the number of its messages.
\<close>

theorem message_tree_invariant:
  assumes "chat_reachable jl cr db"
  shows "(\<forall>m \<in> set (cd_messages db). \<exists>branch. branch_up db (m_ConversationID m) (m_ID m) = m # branch \<and>
       m_ParentMessageID (last (m # branch)) = None \<and> linked (m # branch) \<and>
       sorted_wrt (\<lambda>a b. m_ID b < m_ID a) (m # branch) \<and> owner_ok db m) \<and>
    (\<forall>c \<in> set (cd_conversations db). c_MessageCount c = int (length (messages_of db (c_ID c))))"
proof -
  have ok: "tree_ok db" by (rule reachable_tree [OF assms])
  have "\<exists>branch. branch_up db (m_ConversationID m) (m_ID m) = m # branch \<and>
       m_ParentMessageID (last (m # branch)) = None \<and> linked (m # branch) \<and>
       sorted_wrt (\<lambda>a b. m_ID b < m_ID a) (m # branch) \<and> owner_ok db m" if m: "m \<in> set (cd_messages db)" for m
  proof -
    have "in_conversation db (m_ConversationID m) (m_ID m) = Some m" using m ok by (simp add: in_conversation_Some)
    then obtain branch where b: "branch_up db (m_ConversationID m) (m_ID m) = m # branch"
      using branch_up_step [OF ok, of "m_ConversationID m" "m_ID m"] by auto
    have "owner_ok db m" using m ok by (simp add: tree_ok_def links_ok_def)
    then show ?thesis
      using b branch_root [OF ok, of "m_ConversationID m" "m_ID m"] branch_linked [of db "m_ConversationID m" "m_ID m"]
        branch_decreasing [OF ok, of "m_ConversationID m" "m_ID m"] by (intro exI [of _ branch]) simp
  qed
  moreover have "counts_off 0 0 db" using ok by (simp add: tree_ok_def)
  ultimately show ?thesis by (simp add: counts_off_def)
qed

text \<open>
  C22: Whatever happens to a conversation afterwards (turns on other branches, retries, forks, deletion),
  the branch that ends in a message keeps its messages, each with its place: identifier, parent, role,
  owner and source.
\<close>

theorem branches_never_change:
  assumes "chat_reachable jl cr db" "(chat_step jl cr)\<^sup>*\<^sup>* db db'" "m \<in> set (cd_messages db)"
  shows "list_all2 same_place (branch_up db (m_ConversationID m) (m_ID m)) (branch_up db' (m_ConversationID m) (m_ID m))"
proof -
  have ok: "tree_ok db" by (rule reachable_tree [OF assms(1)])
  have k: "tree_ok db'" "tree_grows db db'" using steps_keep [OF assms(2)] ok by (simp_all add: keeps_def)
  have "in_conversation db (m_ConversationID m) (m_ID m) = Some m" using assms(3) ok by (simp add: in_conversation_Some)
  then show ?thesis by (rule branch_grows [OF k(2) ok k(1)])
qed

section \<open>A sample run\<close>

definition sample_created :: chat_db where
  "sample_created = fst (service_create_conversation 7 ''t'' ''m'' (Inr None) ''c1'' ''s1'' ''{}'' empty_chat)"

definition sample_first :: send_input where
  "sample_first = \<lparr>si_UserID = 7, si_ConversationID = 1, si_ContentType = [], si_Content = ''hi'', si_FileIDs = [],
     si_ParentMessagePublicID = [], si_SourceMessagePublicID = [], si_BranchReason = []\<rparr>"

definition sample_turn :: "chat_db \<times> (conversation_error + branch_preparation \<times> message \<times> message)" where
  "sample_turn = begin_turn sample_json 10 (\<lambda>u ids. Inr []) sample_first ''r'' None ''a2'' ''u1'' 0 sample_created"

lemma sample_turn_reachable: "chat_reachable sample_json sample_hash (fst sample_turn)"
proof -
  have "chat_reachable sample_json sample_hash sample_created"
    by (rule chat_reachable.Step [OF chat_reachable.Start])
       (rule chat_step.Create, simp add: sample_created_def prod_eq_iff)
  then show ?thesis
    by (rule chat_reachable.Step) (rule chat_step.Begin, simp add: sample_turn_def prod_eq_iff)
qed

lemma sample_turn_messages:
  "\<exists>u a. cd_messages (fst sample_turn) = [u, a] \<and> m_ID a = 2 \<and> m_ConversationID a = 1 \<and> m_ParentMessageID a = Some 1"
proof -
  have t: "trim_space ''t'' = ''t''" "trim_space ''m'' = ''m''" "normalize_public_id ''c1'' = ''c1''"
    "normalize_public_id ''a2'' = ''a2''" "normalize_public_id ''u1'' = ''u1''" by code_simp+
  have l: "list_latest_branch_preview_messages db 1 d n = []" if "cd_messages db = []" for db d n
    using that by (simp add: list_latest_branch_preview_messages_def latest_message_id_def Let_def)
  show ?thesis
    by (simp add: sample_turn_def sample_created_def service_create_conversation_def create_conversation_def empty_chat_def
       begin_turn_def sample_first_def get_conversation_by_user_def prepare_message_send_branch_def resolve_message_branch_def
       resolve_by_public_id_def check_source_def l [simplified] select_latest_default_parent_candidate_def branch_state_of_def
       create_message_pair_def create_message_pair_with_user_attachments_def run_tx_def message_pair_body_def create_message_def
       attach_locked_def user_message_of_def assistant_placeholder_def turn_status_def Let_def message_row_def t sample_strings
       bump_message_count_def update_conversation_def live_conversation_def blank_message_def)
qed

theorem message_tree_invariant_witness:
  "\<exists>u a. cd_messages (fst sample_turn) = [u, a] \<and> linked [a, u] \<and> branch_up (fst sample_turn) 1 2 = [a, u]"
proof -
  obtain u a where m: "cd_messages (fst sample_turn) = [u, a]" "m_ID a = 2" "m_ConversationID a = 1" "m_ParentMessageID a = Some 1"
    using sample_turn_messages by blast
  obtain branch where b: "branch_up (fst sample_turn) 1 2 = a # branch" "m_ParentMessageID (last (a # branch)) = None"
      "linked (a # branch)" "sorted_wrt (\<lambda>a b. m_ID b < m_ID a) (a # branch)"
    using message_tree_invariant [OF sample_turn_reachable] m by auto
  have "set (a # branch) \<subseteq> {u, a}" using branch_set [of _ "fst sample_turn" 1 2] b(1) m(1) by fastforce
  then have sub: "set branch \<subseteq> {u}" using b(4) by auto
  have "branch \<noteq> []" using b(2) m(4) by auto
  then obtain x xs where x: "branch = x # xs" by (cases branch) auto
  have "xs = []"
  proof (rule ccontr)
    assume "xs \<noteq> []"
    then obtain y ys where "xs = y # ys" by (cases xs) auto
    then show False using x sub b(4) by simp
  qed
  then have "branch = [u]" using x sub by simp
  then show ?thesis using b(1,3) m(1) by blast
qed

theorem branches_never_change_witness:
  "\<exists>a \<in> set (cd_messages (fst sample_turn)). m_ID a = 2 \<and> list_all2 same_place (branch_up (fst sample_turn) 1 2)
     (branch_up (update_message_state 2 ''canceled'' [] [] (fst sample_turn)) 1 2)"
proof -
  obtain u a where m: "cd_messages (fst sample_turn) = [u, a]" "m_ID a = 2" "m_ConversationID a = 1"
    using sample_turn_messages by blast
  have "(chat_step sample_json sample_hash)\<^sup>*\<^sup>* (fst sample_turn) (update_message_state 2 ''canceled'' [] [] (fst sample_turn))"
    by (rule r_into_rtranclp) (rule chat_step.State)
  then show ?thesis using branches_never_change [OF sample_turn_reachable _, of _ a] m by (intro bexI [of _ a]) auto
qed

end
