(* ===== verification/Stateful_Responses.thy ===== *)
theory Stateful_Responses
  imports Conversation_Runs Route_Model "HOL-Library.List_Lexorder" "HOL-Library.Char_ord" "HOL-Library.Product_Lexorder"
begin

text \<open>
  Continuing a response kept by the upstream (\<^verbatim>\<open>application/conversation/service_stateful_responses.go\<close>,
  \<^verbatim>\<open>service_prompt_fingerprint.go\<close>): when a turn may send only its new message and name the previous
  response, which the fingerprint of the prompt decides.

  SHA-256 is the field of \<open>crypto\<close>; the host name \<^verbatim>\<open>net/url\<close> reads of a base URL, the options encoded by
  \<^verbatim>\<open>encoding/json\<close> and whether explicit cache breakpoints are in use are arguments.
\<close>

section \<open>Prompts\<close>

record cache_control =
  ct_Type :: string
  ct_TTL :: string

record content_part =
  pt_Kind :: string
  pt_Text :: string
  pt_MimeType :: string
  pt_Data :: string
  pt_FileName :: string
  pt_CacheControl :: "cache_control option"

record llm_tool_call =
  lc_ToolCallID :: string
  lc_ToolType :: string
  lc_ToolName :: string
  lc_ArgumentsJSON :: string
  lc_ThoughtSignature :: string
  lc_Status :: string
  lc_OutputJSON :: string
  lc_ErrorJSON :: string

record llm_tool_result =
  lr_ToolCallID :: string
  lr_ToolName :: string
  lr_OutputJSON :: string
  lr_Status :: string
  lr_Error :: string

record llm_message =
  lm_Role :: string
  lm_Content :: string
  lm_Parts :: "content_part list"
  lm_ReasoningContent :: string
  lm_ToolCalls :: "llm_tool_call list"
  lm_ToolResults :: "llm_tool_result list"
  lm_CacheControl :: "cache_control option"

record tool_definition =
  td_Name :: string
  td_Description :: string
  td_InputSchema :: string

text \<open>\<open>ps_Options\<close> is the encoding of the options, if there are any and they can be encoded.\<close>

record prompt_state =
  ps_Protocol :: string
  ps_Endpoint :: string
  ps_UpstreamID :: nat
  ps_UpstreamModel :: string
  ps_PlatformModelName :: string
  ps_ContextConfig :: string
  ps_ContextState :: string
  ps_Messages :: "llm_message list"
  ps_Tools :: "tool_definition list"
  ps_Options :: "string option"

section \<open>The fingerprint\<close>

definition write_field :: "string \<times> string \<Rightarrow> string" where
  "write_field f = (case f of (key, value0) \<Rightarrow>
     trim_space key @ [CHR 0x00] @ dec (length value0) @ [CHR 0x00] @ value0 @ [CHR 0x00])"

definition part_fields :: "crypto \<Rightarrow> content_part \<Rightarrow> (string \<times> string) list" where
  "part_fields cr part =
     [(''part_kind'', pt_Kind part), (''part_text'', pt_Text part), (''part_mime'', pt_MimeType part),
      (''part_file'', pt_FileName part)] @
     (if length (pt_Data part) > 0 then [(''part_data'', hex_encode (cr_sha256 cr (pt_Data part)))] else [])"

definition call_fields :: "llm_tool_call \<Rightarrow> (string \<times> string) list" where
  "call_fields call =
     [(''tool_call_id'', lc_ToolCallID call), (''tool_call_type'', lc_ToolType call), (''tool_call_name'', lc_ToolName call),
      (''tool_call_args'', lc_ArgumentsJSON call), (''tool_call_status'', lc_Status call),
      (''tool_call_output'', lc_OutputJSON call), (''tool_call_error'', lc_ErrorJSON call)]"

definition result_fields :: "llm_tool_result \<Rightarrow> (string \<times> string) list" where
  "result_fields result =
     [(''tool_result_id'', lr_ToolCallID result), (''tool_result_name'', lr_ToolName result),
      (''tool_result_output'', lr_OutputJSON result), (''tool_result_status'', lr_Status result),
      (''tool_result_error'', lr_Error result)]"

definition message_fields :: "crypto \<Rightarrow> llm_message \<Rightarrow> (string \<times> string) list" where
  "message_fields cr message =
     [(''message_role'', lm_Role message), (''message_content'', lm_Content message)] @
     concat (map (part_fields cr) (lm_Parts message)) @
     [(''reasoning_content'', lm_ReasoningContent message)] @
     concat (map call_fields (lm_ToolCalls message)) @
     concat (map result_fields (lm_ToolResults message))"

definition tool_fields :: "tool_definition \<Rightarrow> (string \<times> string) list" where
  "tool_fields tool = [(''tool_name'', td_Name tool), (''tool_desc'', td_Description tool), (''tool_schema'', td_InputSchema tool)]"

definition normalized_tool_definitions :: "tool_definition list \<Rightarrow> tool_definition list" where
  "normalized_tool_definitions tools = sort_key (\<lambda>t. (trim_space (td_Name t), trim_space (td_Description t))) tools"

definition head_fields :: "prompt_state \<Rightarrow> (string \<times> string) list" where
  "head_fields input =
     [(''protocol'', ps_Protocol input), (''endpoint'', ps_Endpoint input), (''upstream_id'', dec (ps_UpstreamID input)),
      (''upstream_model'', ps_UpstreamModel input), (''platform_model_name'', ps_PlatformModelName input),
      (''context_config'', ps_ContextConfig input), (''context_state'', ps_ContextState input)]"

definition state_fields :: "crypto \<Rightarrow> prompt_state \<Rightarrow> (string \<times> string) list" where
  "state_fields cr input =
     head_fields input @
     concat (map (message_fields cr) (ps_Messages input)) @
     concat (map tool_fields (normalized_tool_definitions (ps_Tools input))) @
     (case ps_Options input of None \<Rightarrow> [] | Some payload \<Rightarrow> [(''options'', payload)])"

definition state_bytes :: "crypto \<Rightarrow> prompt_state \<Rightarrow> string" where
  "state_bytes cr input = concat (map write_field (state_fields cr input))"

definition build_prompt_state_fingerprint :: "crypto \<Rightarrow> prompt_state \<Rightarrow> string" where
  "build_prompt_state_fingerprint cr input = hex_encode (cr_sha256 cr (state_bytes cr input))"

section \<open>What a turn continues\<close>

definition last_user_index :: "llm_message list \<Rightarrow> nat option" where
  "last_user_index messages = (case filter (\<lambda>i. lm_Role (messages ! i) = ''user'') (rev [0..<length messages]) of
     [] \<Rightarrow> None | i # _ \<Rightarrow> Some i)"

definition prompt_state_prefix_messages :: "llm_message list \<Rightarrow> llm_message list" where
  "prompt_state_prefix_messages messages =
     (case last_user_index messages of None \<Rightarrow> messages | Some i \<Rightarrow> take i messages)"

definition blank_llm_message :: llm_message where
  "blank_llm_message = \<lparr>lm_Role = [], lm_Content = [], lm_Parts = [], lm_ReasoningContent = [], lm_ToolCalls = [],
     lm_ToolResults = [], lm_CacheControl = None\<rparr>"

definition append_assistant_state_message :: "llm_message list \<Rightarrow> string \<Rightarrow> string \<Rightarrow> llm_message list" where
  "append_assistant_state_message messages assistantText reasoning =
     messages @ [blank_llm_message\<lparr>lm_Role := ''assistant'', lm_Content := assistantText, lm_ReasoningContent := reasoning\<rparr>]"

definition stable_user_message :: "string \<Rightarrow> llm_message \<Rightarrow> llm_message" where
  "stable_user_message content sent =
     (let images = filter (\<lambda>p. pt_Kind p = ''image'' \<and> length (pt_Data p) > 0) (lm_Parts sent);
          texts = (if trim_space content \<noteq> []
            then [\<lparr>pt_Kind = ''text'', pt_Text = content, pt_MimeType = [], pt_Data = [], pt_FileName = [], pt_CacheControl = None\<rparr>]
            else [])
      in if images = [] then blank_llm_message\<lparr>lm_Role := ''user'', lm_Content := content\<rparr>
         else blank_llm_message\<lparr>lm_Role := ''user'', lm_Parts := texts @ images\<rparr>)"

definition build_next_stateful_prefix_messages ::
    "llm_message list \<Rightarrow> string \<Rightarrow> string \<Rightarrow> string \<Rightarrow> llm_message list" where
  "build_next_stateful_prefix_messages messages currentUserContent assistantText reasoning =
     (case last_user_index messages of
        None \<Rightarrow> append_assistant_state_message messages assistantText reasoning
      | Some i \<Rightarrow> append_assistant_state_message
          (take i messages @ [stable_user_message currentUserContent (messages ! i)]) assistantText reasoning)"

definition supports_previous_response_id :: "string \<Rightarrow> bool" where
  "supports_previous_response_id adapter \<longleftrightarrow> normalize_adapter adapter = ''openai_responses''"

definition is_official_openai_base_url :: "(string \<Rightarrow> string option) \<Rightarrow> string \<Rightarrow> bool" where
  "is_official_openai_base_url hostname raw =
     (let v = trim_space raw in
      if v = [] then False
      else case hostname v of None \<Rightarrow> False | Some host \<Rightarrow> to_lower host = ''api.openai.com'')"

definition supports_previous_response_id_route :: "(string \<Rightarrow> string option) \<Rightarrow> resolved_route option \<Rightarrow> bool" where
  "supports_previous_response_id_route hostname route = (case route of None \<Rightarrow> False
     | Some r \<Rightarrow> supports_previous_response_id (rd_Protocol r) \<and> is_official_openai_base_url hostname (rd_BaseURL r))"

definition resolve_previous_response_id ::
    "(string \<Rightarrow> string option) \<Rightarrow> resolved_route option \<Rightarrow> string \<Rightarrow> string \<Rightarrow> string" where
  "resolve_previous_response_id hostname route branchReason lastResponseID =
     (let responseID = trim_space lastResponseID in
      if responseID = [] \<or> \<not> equal_fold (trim_space branchReason) ''default'' then []
      else if \<not> supports_previous_response_id_route hostname route then []
      else responseID)"

record stateful_decision =
  sd_PreviousResponseID :: string
  sd_DisabledReason :: string

definition disabled :: "string \<Rightarrow> stateful_decision" where
  "disabled reason = \<lparr>sd_PreviousResponseID = [], sd_DisabledReason = reason\<rparr>"

definition resolve_stateful_previous_response_id ::
    "(string \<Rightarrow> string option) \<Rightarrow> bool \<Rightarrow> resolved_route option \<Rightarrow> string \<Rightarrow> string \<Rightarrow> string \<Rightarrow> string \<Rightarrow> stateful_decision" where
  "resolve_stateful_previous_response_id hostname explicitCache route branchReason lastResponseID lastFingerprint currentFingerprint =
     (if explicitCache then disabled ''explicit_prompt_cache''
      else let responseID = resolve_previous_response_id hostname route branchReason lastResponseID;
               stored = trim_space lastFingerprint; current = trim_space currentFingerprint
        in if responseID = [] then disabled ''route_or_branch_not_eligible''
           else if stored = [] then disabled ''missing_stored_fingerprint''
           else if current = [] then disabled ''missing_current_fingerprint''
           else if stored \<noteq> current then disabled ''prompt_fingerprint_mismatch''
           else \<lparr>sd_PreviousResponseID = responseID, sd_DisabledReason = []\<rparr>)"

record generate_input =
  gi_Messages :: "llm_message list"
  gi_Instructions :: string
  gi_PreviousResponseID :: string

definition build_stateful_response_messages :: "llm_message list \<Rightarrow> llm_message list" where
  "build_stateful_response_messages messages =
     (case find (\<lambda>m. lm_Role m = ''user'') (rev messages) of None \<Rightarrow> [] | Some m \<Rightarrow> [m])"

definition apply_stateful_response_continuation ::
    "string \<Rightarrow> stateful_decision \<Rightarrow> generate_input \<Rightarrow> generate_input \<times> bool" where
  "apply_stateful_response_continuation endpoint decision input =
     (if endpoint \<noteq> ''responses'' \<or> sd_PreviousResponseID decision = [] then (input, False)
      else let stateful = build_stateful_response_messages (gi_Messages input) in
        if stateful = [] \<or> length stateful \<ge> length (gi_Messages input) then (input, False)
        else (input\<lparr>gi_Messages := stateful, gi_PreviousResponseID := sd_PreviousResponseID decision\<rparr>, True))"

definition default_endpoint_for_adapter :: "string \<Rightarrow> string" where
  "default_endpoint_for_adapter adapter =
     (let a = normalize_adapter adapter in
      if a \<in> {''openai_chat_completions'', ''openrouter_chat_completions''} then ''chat_completions''
      else if a \<in> {''openai_image_generations'', ''google_image_generation'', ''xai_image''} then ''image_generations''
      else if a \<in> {''openai_image_edits'', ''xai_image_edits''} then ''image_edits''
      else if a = ''xai_video'' then ''video_generations''
      else if a = ''xai_video_extensions'' then ''video_extensions''
      else if a = ''gemini_interactions'' then ''interactions''
      else ''responses'')"

text \<open>The system messages, moved to the instructions of the request.\<close>

definition paragraph_break :: string where "paragraph_break = [CHR 0x0A, CHR 0x0A]"

definition system_instruction_text :: "llm_message \<Rightarrow> string" where
  "system_instruction_text message =
     (if trim_space (lm_Content message) \<noteq> [] \<or> lm_Parts message = [] then lm_Content message
      else join_with paragraph_break
        (map (\<lambda>p. trim_space (pt_Text p)) (filter (\<lambda>p. trim_space (pt_Text p) \<noteq> []) (lm_Parts message))))"

fun instruction_step :: "string \<times> llm_message list \<Rightarrow> llm_message \<Rightarrow> string \<times> llm_message list" where
  "instruction_step (builder, result) message =
     (if lm_Role message \<noteq> ''system'' then (builder, result @ [message])
      else let v = trim_space (system_instruction_text message) in
        if v = [] then (builder, result)
        else (if builder = [] then v else builder @ paragraph_break @ v, result))"

definition extract_openai_responses_instructions :: "llm_message list \<Rightarrow> string \<times> llm_message list" where
  "extract_openai_responses_instructions messages =
     (let (builder, result) = foldl instruction_step ([], []) messages in
      if builder = [] then ([], messages) else (builder, result))"

definition apply_openai_responses_instructions ::
    "(string \<Rightarrow> string option) \<Rightarrow> bool \<Rightarrow> resolved_route option \<Rightarrow> string \<Rightarrow> generate_input \<Rightarrow> generate_input" where
  "apply_openai_responses_instructions hostname explicitCache route endpoint input =
     (if endpoint \<noteq> ''responses'' \<or> \<not> supports_previous_response_id_route hostname route \<or> explicitCache then input
      else let (instructions, messages) = extract_openai_responses_instructions (gi_Messages input) in
        if trim_space instructions = [] then input
        else input\<lparr>gi_Instructions := instructions, gi_Messages := messages\<rparr>)"

text \<open>
  The mode in the background: \<open>decode\<close> is \<^verbatim>\<open>json.Unmarshal\<close> of the capabilities into a map.
\<close>

datatype capability = Cap_Bool bool | Cap_Object "string \<rightharpoonup> capability" | Cap_Other

definition bool_capability :: "(string \<rightharpoonup> capability) \<Rightarrow> string \<Rightarrow> bool" where
  "bool_capability capabilities key = (case capabilities key of Some (Cap_Bool enabled) \<Rightarrow> enabled | _ \<Rightarrow> False)"

definition nested_bool_capability :: "(string \<rightharpoonup> capability) \<Rightarrow> string \<Rightarrow> string \<Rightarrow> bool" where
  "nested_bool_capability capabilities parentKey childKey =
     (case capabilities parentKey of Some (Cap_Object parent) \<Rightarrow> bool_capability parent childKey | _ \<Rightarrow> False)"

definition decode_model_capabilities ::
    "(string \<Rightarrow> (string \<rightharpoonup> capability) option) \<Rightarrow> string \<Rightarrow> string \<rightharpoonup> capability" where
  "decode_model_capabilities decode raw = (case decode (trim_space raw) of None \<Rightarrow> Map.empty | Some parsed \<Rightarrow> parsed)"

definition supports_openai_responses_background_mode ::
    "(string \<Rightarrow> string option) \<Rightarrow> (string \<Rightarrow> (string \<rightharpoonup> capability) option) \<Rightarrow> resolved_route option \<Rightarrow> bool" where
  "supports_openai_responses_background_mode hostname decode route = (case route of None \<Rightarrow> False
     | Some r \<Rightarrow> equal_fold (trim_space (rd_Protocol r)) ''openai_responses'' \<and>
         is_official_openai_base_url hostname (rd_BaseURL r) \<and>
         (let capabilities = decode_model_capabilities decode (rd_ModelCapabilitiesJSON r)
          in bool_capability capabilities ''responsesBackgroundMode'' \<or>
             nested_bool_capability capabilities ''responses'' ''backgroundMode''))"

text \<open>The errors after which a request is sent again without the previous response or the background mode.\<close>

definition error_text :: "upstream_error \<Rightarrow> string" where
  "error_text e = to_lower (ue_Message e @ [CHR 0x0A] @ ue_Body e)"

definition should_retry_without_previous_response_id :: "upstream_error option \<Rightarrow> bool" where
  "should_retry_without_previous_response_id err = (case err of None \<Rightarrow> False
     | Some e \<Rightarrow> ue_StatusCode e \<in> {400, 404, 422} \<and>
         list_ex (contains_sub (error_text e)) [''previous_response'', ''previous response'', ''response_id'', ''unknown parameter''])"

definition should_retry_without_responses_background :: "upstream_error option \<Rightarrow> bool" where
  "should_retry_without_responses_background err = (case err of None \<Rightarrow> False
     | Some e \<Rightarrow> ue_StatusCode e \<in> {400, 409, 422} \<and>
         list_ex (contains_sub (error_text e)) [''background'', ''store'', ''zero data retention'', ''zdr''] \<and>
         list_ex (contains_sub (error_text e)) [''unsupported'', ''not supported'', ''unknown parameter'', ''unrecognized'',
           ''invalid'', ''zero data retention'', ''zdr''])"

section \<open>A turn\<close>

text \<open>
  What a turn compares, sends and leaves for the next one. \<open>input\<close> describes the turn with all its
  messages.
\<close>

definition turn_endpoint :: "resolved_route \<Rightarrow> string" where
  "turn_endpoint route = default_endpoint_for_adapter (rd_Protocol route)"

definition stateful_turn_decision ::
    "crypto \<Rightarrow> (string \<Rightarrow> string option) \<Rightarrow> bool \<Rightarrow> resolved_route \<Rightarrow> string \<Rightarrow> conversation \<Rightarrow> prompt_state \<Rightarrow> stateful_decision" where
  "stateful_turn_decision cr hostname explicitCache route branchReason c input =
     resolve_stateful_previous_response_id hostname explicitCache (Some route) (normalize_branch_reason branchReason)
       (c_LastResponseID c) (c_LastPromptFingerprint c)
       (build_prompt_state_fingerprint cr (input\<lparr>ps_Messages := prompt_state_prefix_messages (ps_Messages input)\<rparr>))"

definition stateful_turn_request ::
    "crypto \<Rightarrow> (string \<Rightarrow> string option) \<Rightarrow> bool \<Rightarrow> resolved_route \<Rightarrow> string \<Rightarrow> conversation \<Rightarrow> prompt_state \<Rightarrow> generate_input \<times> bool" where
  "stateful_turn_request cr hostname explicitCache route branchReason c input =
     apply_stateful_response_continuation (turn_endpoint route)
       (stateful_turn_decision cr hostname explicitCache route branchReason c input)
       (apply_openai_responses_instructions hostname explicitCache (Some route) (turn_endpoint route)
          \<lparr>gi_Messages = ps_Messages input, gi_Instructions = [], gi_PreviousResponseID = []\<rparr>)"

definition update_stateful_response :: "nat \<Rightarrow> string \<Rightarrow> string \<Rightarrow> chat_db \<Rightarrow> chat_db" where
  "update_stateful_response conversationID responseID promptFingerprint db =
     (let respID = trim_space responseID; fingerprint = trim_space promptFingerprint in
      if respID = [] \<or> fingerprint = [] then db
      else update_conversation_stateful_response conversationID respID fingerprint db)"

text \<open>What a finished turn keeps: nothing when its tool results were trimmed.\<close>

definition kept_response ::
    "crypto \<Rightarrow> prompt_state \<Rightarrow> bool \<Rightarrow> string \<Rightarrow> string \<Rightarrow> string \<Rightarrow> string \<Rightarrow> string \<times> string" where
  "kept_response cr input toolHistoryTrimmed content0 assistantText reasoning responseID =
     (let fingerprint = build_prompt_state_fingerprint cr (input\<lparr>ps_Messages :=
          build_next_stateful_prefix_messages (ps_Messages input) content0 assistantText reasoning\<rparr>)
      in if toolHistoryTrimmed then ([], []) else (responseID, fingerprint))"

definition finish_stateful_response :: "nat \<Rightarrow> string \<Rightarrow> string \<times> string \<Rightarrow> chat_db \<Rightarrow> chat_db" where
  "finish_stateful_response conversationID branchReason kept db =
     (if normalize_branch_reason branchReason = ''default''
      then update_stateful_response conversationID (fst kept) (snd kept) db else db)"

definition keep_stateful_response ::
    "crypto \<Rightarrow> nat \<Rightarrow> string \<Rightarrow> prompt_state \<Rightarrow> bool \<Rightarrow> string \<Rightarrow> string \<Rightarrow> string \<Rightarrow> string \<Rightarrow> chat_db \<Rightarrow> chat_db" where
  "keep_stateful_response cr conversationID branchReason input toolHistoryTrimmed content0 assistantText reasoning responseID =
     finish_stateful_response conversationID branchReason
       (kept_response cr input toolHistoryTrimmed content0 assistantText reasoning responseID)"

lemmas keep_defs = keep_stateful_response_def finish_stateful_response_def kept_response_def update_stateful_response_def
  update_conversation_stateful_response_def update_conversation_def

section \<open>The fingerprint determines the prompt\<close>

lemma split_at_separator:
  "c \<notin> set a \<Longrightarrow> c \<notin> set b \<Longrightarrow> a @ c # x = b @ c # y \<longleftrightarrow> a = b \<and> x = y"
proof (induction a arbitrary: b)
  case Nil
  then show ?case by (cases b) auto
next
  case (Cons z a)
  then show ?case by (cases b) auto
qed

definition plain_key :: "string \<Rightarrow> bool" where
  "plain_key key \<longleftrightarrow> trim_space key = key \<and> CHR 0x00 \<notin> set key"

lemma nul_notin_dec: "CHR 0x00 \<notin> set (dec n)"
  using dec_char [of "CHR 0x00" n] by auto

lemma write_field_eq:
  assumes "plain_key k" "plain_key l" "write_field (k, v) @ x = write_field (l, w) @ y"
  shows "k = l \<and> v = w \<and> x = y"
proof -
  have "k @ CHR 0x00 # (dec (length v) @ CHR 0x00 # v @ CHR 0x00 # x) = l @ CHR 0x00 # (dec (length w) @ CHR 0x00 # w @ CHR 0x00 # y)"
    using assms by (simp add: write_field_def plain_key_def)
  then have k: "k = l" "dec (length v) @ CHR 0x00 # v @ CHR 0x00 # x = dec (length w) @ CHR 0x00 # w @ CHR 0x00 # y"
    using split_at_separator [of "CHR 0x00" k l] assms(1,2) unfolding plain_key_def by blast+
  then have "dec (length v) = dec (length w)" "v @ CHR 0x00 # x = w @ CHR 0x00 # y"
    using split_at_separator [OF nul_notin_dec nul_notin_dec] by blast+
  then show ?thesis using k(1) by (simp add: dec_inj)
qed

lemma write_fields_eq:
  "list_all (\<lambda>f. plain_key (fst f)) fs \<Longrightarrow> list_all (\<lambda>f. plain_key (fst f)) gs \<Longrightarrow>
   concat (map write_field fs) = concat (map write_field gs) \<Longrightarrow> fs = gs"
proof (induction fs arbitrary: gs)
  case Nil
  then show ?case by (cases gs) (auto simp: write_field_def)
next
  case (Cons f fs)
  show ?case
  proof (cases gs)
    case Nil
    then show ?thesis using Cons.prems(3) by (cases f) (simp add: write_field_def)
  next
    case gs: (Cons g gs')
    have "fst f = fst g \<and> snd f = snd g \<and> concat (map write_field fs) = concat (map write_field gs')"
      using Cons.prems gs by (intro write_field_eq) auto
    then show ?thesis using Cons.IH [of gs'] Cons.prems(1,2) gs by (auto simp: prod_eq_iff)
  qed
qed

text \<open>
  A list of blocks, each opened by a key \<open>k\<close> that the blocks do not use inside, followed by fields with
  other keys, can be read back.
\<close>

lemma blocks_eq:
  assumes open_key: "\<And>x. \<exists>v g. f x = (k, v) # g \<and> fst ` set g \<subseteq> K" and K: "k \<notin> K"
    and t: "fst ` set t \<inter> insert k K = {}" "fst ` set t' \<inter> insert k K = {}"
    and eq: "concat (map f xs) @ t = concat (map f ys) @ t'"
  shows "map f xs = map f ys \<and> t = t'"
  using eq
proof (induction xs arbitrary: ys)
  case Nil
  have "ys = []"
  proof (cases ys)
    case (Cons y ys')
    obtain v g where "f y = (k, v) # g" using open_key by blast
    then have "(k, v) \<in> set t" using Nil Cons by simp
    then show ?thesis using t(1) by force
  qed
  then show ?case using Nil by simp
next
  case (Cons x xs)
  obtain v g where x: "f x = (k, v) # g" "fst ` set g \<subseteq> K" using open_key by blast
  show ?case
  proof (cases ys)
    case Nil
    then have "t' = (k, v) # (g @ concat (map f xs) @ t)" using Cons.prems x by simp
    then show ?thesis using t(2) by auto
  next
    case ys: (Cons y ys')
    obtain w h where y: "f y = (k, w) # h" "fst ` set h \<subseteq> K" using open_key by blast
    have stop: "takeWhile (\<lambda>f. fst f \<in> K) (a @ concat (map f zs) @ s) = a \<and>
        dropWhile (\<lambda>f. fst f \<in> K) (a @ concat (map f zs) @ s) = concat (map f zs) @ s"
      if a: "fst ` set a \<subseteq> K" and s: "fst ` set s \<inter> insert k K = {}" for a s zs
    proof -
      have h: "concat (map f zs) @ s = [] \<or> fst (hd (concat (map f zs) @ s)) \<notin> K"
      proof (cases zs)
        case Nil
        then show ?thesis using s by (cases s) auto
      next
        case (Cons z zs')
        obtain v' g' where "f z = (k, v') # g'" using open_key by blast
        then show ?thesis using Cons K by simp
      qed
      have "takeWhile (\<lambda>f. fst f \<in> K) (a @ r) = a \<and> dropWhile (\<lambda>f. fst f \<in> K) (a @ r) = r"
        if "r = [] \<or> fst (hd r) \<notin> K" for r
      proof -
        have in_K: "\<And>x. x \<in> set a \<Longrightarrow> fst x \<in> K" using a by blast
        show ?thesis using that a by (cases r) (auto simp: takeWhile_append2 [OF in_K] dropWhile_append2 [OF in_K])
      qed
      then show ?thesis using h by blast
    qed
    have "v = w" and r: "g @ concat (map f xs) @ t = h @ concat (map f ys') @ t'" using Cons.prems ys x(1) y(1) by simp_all
    have "g = h" "concat (map f xs) @ t = concat (map f ys') @ t'"
      using stop [OF x(2) t(1), of xs] stop [OF y(2) t(2), of ys'] r by metis+
    then show ?thesis using Cons.IH [of ys'] ys x(1) y(1) \<open>v = w\<close> by simp
  qed
qed

text \<open>The keys, all plain.\<close>

definition part_keys :: "string set" where "part_keys = {''part_text'', ''part_mime'', ''part_file'', ''part_data''}"
definition call_keys :: "string set" where
  "call_keys = {''tool_call_type'', ''tool_call_name'', ''tool_call_args'', ''tool_call_status'', ''tool_call_output'', ''tool_call_error''}"
definition result_keys :: "string set" where
  "result_keys = {''tool_result_name'', ''tool_result_output'', ''tool_result_status'', ''tool_result_error''}"
definition body_keys :: "string set" where
  "body_keys = {''message_content'', ''part_kind'', ''reasoning_content'', ''tool_call_id'', ''tool_result_id''} \<union>
     part_keys \<union> call_keys \<union> result_keys"
definition tool_keys :: "string set" where "tool_keys = {''tool_desc'', ''tool_schema''}"

lemmas key_sets = part_keys_def call_keys_def result_keys_def body_keys_def tool_keys_def

lemma hex_encode_inj: "hex_encode s = hex_encode t \<longleftrightarrow> s = t"
proof
  have digit: "hex_digit m = hex_digit n \<longleftrightarrow> m = n" if "m < 16" "n < 16" for m n
  proof -
    have v: "(of_char (hex_digit k) :: nat) = (if k < 10 then 48 + k else 87 + k)" if "k < 16" for k
      using that by (simp add: hex_digit_def)
    show ?thesis
    proof
      assume "hex_digit m = hex_digit n"
      then have "(if m < 10 then 48 + m else 87 + m) = (if n < 10 then 48 + n else 87 + n)"
        using v [OF that(1)] v [OF that(2)] by simp
      then show "m = n" using that by (simp split: if_splits)
    qed simp
  qed
  show "s = t" if "hex_encode s = hex_encode t"
    using that
  proof (induction s arbitrary: t)
    case Nil
    then show ?case by (cases t) auto
  next
    case (Cons c cs)
    then obtain d ds where t: "t = d # ds" by (cases t) auto
    have lt: "of_char x div 16 < (16::nat)" for x :: char
    proof -
      have "(of_char x :: nat) mod 256 < 256" by simp
      then show ?thesis by (simp only: of_char_mod_256)
    qed
    have "(of_char c :: nat) div 16 = of_char d div 16" "(of_char c :: nat) mod 16 = of_char d mod 16" "hex_encode cs = hex_encode ds"
      using Cons.prems t digit lt by auto
    then show ?case using Cons.IH [of ds] t by (metis div_mult_mod_eq of_char_eq_iff)
  qed
qed simp

text \<open>What the fingerprint covers of a message.\<close>

definition visible_part :: "content_part \<Rightarrow> content_part" where
  "visible_part part = part\<lparr>pt_CacheControl := None\<rparr>"

definition visible_call :: "llm_tool_call \<Rightarrow> llm_tool_call" where
  "visible_call call = call\<lparr>lc_ThoughtSignature := []\<rparr>"

definition visible :: "llm_message \<Rightarrow> llm_message" where
  "visible message = message\<lparr>lm_CacheControl := None, lm_Parts := map visible_part (lm_Parts message),
     lm_ToolCalls := map visible_call (lm_ToolCalls message)\<rparr>"

definition same_prompt :: "prompt_state \<Rightarrow> prompt_state \<Rightarrow> bool" where
  "same_prompt a b \<longleftrightarrow> ps_Protocol a = ps_Protocol b \<and> ps_Endpoint a = ps_Endpoint b \<and> ps_UpstreamID a = ps_UpstreamID b \<and>
     ps_UpstreamModel a = ps_UpstreamModel b \<and> ps_PlatformModelName a = ps_PlatformModelName b \<and>
     ps_ContextConfig a = ps_ContextConfig b \<and> ps_ContextState a = ps_ContextState b \<and>
     map visible (ps_Messages a) = map visible (ps_Messages b) \<and>
     normalized_tool_definitions (ps_Tools a) = normalized_tool_definitions (ps_Tools b) \<and> ps_Options a = ps_Options b"

definition hashed :: "crypto \<Rightarrow> prompt_state \<Rightarrow> string set" where
  "hashed cr input = insert (state_bytes cr input) (\<Union>m \<in> set (ps_Messages input). pt_Data ` set (lm_Parts m))"

text \<open>Two different texts of the prompts with the same SHA-256.\<close>

definition collision :: "crypto \<Rightarrow> prompt_state \<Rightarrow> prompt_state \<Rightarrow> bool" where
  "collision cr a b \<longleftrightarrow> (\<exists>x \<in> hashed cr a. \<exists>y \<in> hashed cr b. x \<noteq> y \<and> cr_sha256 cr x = cr_sha256 cr y)"

lemma part_fields_eq:
  assumes "part_fields cr p = part_fields cr q"
  shows "visible_part p = visible_part q \<or> pt_Data p \<noteq> pt_Data q \<and> cr_sha256 cr (pt_Data p) = cr_sha256 cr (pt_Data q)"
  using assms by (cases p; cases q) (auto simp: part_fields_def visible_part_def hex_encode_inj split: if_splits)

lemma parts_eq:
  assumes "map (part_fields cr) ps = map (part_fields cr) qs"
  shows "map visible_part ps = map visible_part qs \<or>
    (\<exists>p \<in> set ps. \<exists>q \<in> set qs. pt_Data p \<noteq> pt_Data q \<and> cr_sha256 cr (pt_Data p) = cr_sha256 cr (pt_Data q))"
  using assms
proof (induction ps arbitrary: qs)
  case (Cons p ps)
  then obtain q qs' where qs: "qs = q # qs'" by (cases qs) auto
  then show ?case using Cons.IH [of qs'] Cons.prems part_fields_eq [of cr p q] by auto
qed simp

lemma call_fields_eq:
  assumes "call_fields c = call_fields d"
  shows "visible_call c = visible_call d"
proof -
  have "lc_ToolCallID c = lc_ToolCallID d \<and> lc_ToolType c = lc_ToolType d \<and> lc_ToolName c = lc_ToolName d \<and>
      lc_ArgumentsJSON c = lc_ArgumentsJSON d \<and> lc_Status c = lc_Status d \<and> lc_OutputJSON c = lc_OutputJSON d \<and>
      lc_ErrorJSON c = lc_ErrorJSON d"
    using assms by (simp only: call_fields_def list.inject prod.inject simp_thms)
  then show ?thesis by (cases c; cases d) (simp add: visible_call_def)
qed

lemma result_fields_eq:
  assumes "result_fields r = result_fields s"
  shows "r = s"
proof -
  have "lr_ToolCallID r = lr_ToolCallID s \<and> lr_ToolName r = lr_ToolName s \<and> lr_OutputJSON r = lr_OutputJSON s \<and>
      lr_Status r = lr_Status s \<and> lr_Error r = lr_Error s"
    using assms by (simp only: result_fields_def list.inject prod.inject simp_thms)
  then show ?thesis by (cases r; cases s) simp
qed

lemma tool_fields_eq:
  assumes "tool_fields r = tool_fields s"
  shows "r = s"
proof -
  have "td_Name r = td_Name s \<and> td_Description r = td_Description s \<and> td_InputSchema r = td_InputSchema s"
    using assms by (simp only: tool_fields_def list.inject prod.inject simp_thms)
  then show ?thesis by (cases r; cases s) simp
qed

lemma map_eq_map:
  assumes "map f xs = map f ys" "\<And>x y. f x = f y \<Longrightarrow> g x = g y"
  shows "map g xs = map g ys"
  using assms(1)
proof (induction xs arbitrary: ys)
  case (Cons x xs)
  then obtain y ys' where ys: "ys = y # ys'" "f x = f y" "map f xs = map f ys'" by (cases ys) auto
  then show ?case using Cons.IH [OF ys(3)] assms(2) [OF ys(2)] by simp
qed simp

lemma opened:
  "\<exists>v g. part_fields cr p = (''part_kind'', v) # g \<and> fst ` set g \<subseteq> part_keys"
  "\<exists>v g. call_fields c = (''tool_call_id'', v) # g \<and> fst ` set g \<subseteq> call_keys"
  "\<exists>v g. result_fields r = (''tool_result_id'', v) # g \<and> fst ` set g \<subseteq> result_keys"
  "\<exists>v g. tool_fields t = (''tool_name'', v) # g \<and> fst ` set g \<subseteq> tool_keys"
  by (auto simp: part_fields_def call_fields_def result_fields_def tool_fields_def key_sets)

lemma block_keys:
  assumes "\<And>x. \<exists>v g. f x = (k, v) # g \<and> fst ` set g \<subseteq> K"
  shows "fst ` set (concat (map f xs)) \<subseteq> insert k K"
proof -
  have "fst ` set (f x) \<subseteq> insert k K" for x
  proof -
    obtain v g where "f x = (k, v) # g" "fst ` set g \<subseteq> K" using assms by blast
    then show ?thesis by auto
  qed
  then show ?thesis by fastforce
qed

lemma inner_keys:
  "fst ` set (concat (map (part_fields cr) ps)) \<subseteq> insert ''part_kind'' part_keys"
  "fst ` set (concat (map call_fields cs)) \<subseteq> insert ''tool_call_id'' call_keys"
  "fst ` set (concat (map result_fields rs)) \<subseteq> insert ''tool_result_id'' result_keys"
  "fst ` set (concat (map tool_fields ts)) \<subseteq> insert ''tool_name'' tool_keys"
  by (rule block_keys, rule opened)+

lemma message_opened:
  "\<exists>v g. message_fields cr m = (''message_role'', v) # g \<and> fst ` set g \<subseteq> body_keys"
proof -
  have "fst ` set (concat (map (part_fields cr) (lm_Parts m))) \<subseteq> body_keys"
    "fst ` set (concat (map call_fields (lm_ToolCalls m))) \<subseteq> body_keys"
    "fst ` set (concat (map result_fields (lm_ToolResults m))) \<subseteq> body_keys"
    by (rule order_trans [OF inner_keys(1)] order_trans [OF inner_keys(2)] order_trans [OF inner_keys(3)], force simp: body_keys_def)+
  then show ?thesis
    by (simp add: message_fields_def image_Un del: set_concat) (simp add: body_keys_def)
qed

lemma keys_apart:
  "''part_kind'' \<notin> part_keys" "''tool_call_id'' \<notin> call_keys" "''tool_result_id'' \<notin> result_keys" "''tool_name'' \<notin> tool_keys"
  "''message_role'' \<notin> body_keys" "''reasoning_content'' \<notin> insert ''part_kind'' part_keys"
  "insert ''tool_call_id'' call_keys \<inter> insert ''part_kind'' part_keys = {}"
  "insert ''tool_result_id'' result_keys \<inter> insert ''part_kind'' part_keys = {}"
  "insert ''tool_result_id'' result_keys \<inter> insert ''tool_call_id'' call_keys = {}"
  "insert ''tool_name'' tool_keys \<inter> insert ''message_role'' body_keys = {}"
  "''options'' \<notin> insert ''message_role'' body_keys" "''options'' \<notin> insert ''tool_name'' tool_keys"
  by (simp_all add: key_sets)

lemma message_fields_eq:
  assumes "message_fields cr m = message_fields cr n"
  shows "visible m = visible n \<or>
    (\<exists>p \<in> set (lm_Parts m). \<exists>q \<in> set (lm_Parts n). pt_Data p \<noteq> pt_Data q \<and> cr_sha256 cr (pt_Data p) = cr_sha256 cr (pt_Data q))"
proof -
  define tail where "tail m = (''reasoning_content'', lm_ReasoningContent m) # concat (map call_fields (lm_ToolCalls m)) @
      concat (map result_fields (lm_ToolResults m))" for m :: llm_message
  have e: "lm_Role m = lm_Role n \<and> lm_Content m = lm_Content n \<and>
      concat (map (part_fields cr) (lm_Parts m)) @ tail m = concat (map (part_fields cr) (lm_Parts n)) @ tail n"
    using assms by (simp only: message_fields_def tail_def append.simps list.inject prod.inject simp_thms append_Cons append_Nil)
  have keys: "fst ` set (tail m) \<inter> insert ''part_kind'' part_keys = {}" for m
    using inner_keys(2) [of "lm_ToolCalls m"] inner_keys(3) [of "lm_ToolResults m"] keys_apart(6-8)
    unfolding tail_def list.set set_append image_insert image_Un fst_conv by blast
  have p: "map (part_fields cr) (lm_Parts m) = map (part_fields cr) (lm_Parts n) \<and> tail m = tail n"
    by (rule blocks_eq [OF opened(1) keys_apart(1) keys keys]) (use e in blast)
  have t: "lm_ReasoningContent m = lm_ReasoningContent n \<and>
      concat (map call_fields (lm_ToolCalls m)) @ concat (map result_fields (lm_ToolResults m)) =
      concat (map call_fields (lm_ToolCalls n)) @ concat (map result_fields (lm_ToolResults n))"
    using conjunct2 [OF p] by (simp only: tail_def list.inject prod.inject simp_thms)
  have rk: "fst ` set (concat (map result_fields rs)) \<inter> insert ''tool_call_id'' call_keys = {}" for rs
    using inner_keys(3) [of rs] keys_apart(9) by blast
  have c: "map call_fields (lm_ToolCalls m) = map call_fields (lm_ToolCalls n) \<and>
      concat (map result_fields (lm_ToolResults m)) = concat (map result_fields (lm_ToolResults n))"
    by (rule blocks_eq [OF opened(2) keys_apart(2) rk rk]) (use t in blast)
  have r: "map result_fields (lm_ToolResults m) = map result_fields (lm_ToolResults n) \<and> ([] :: (string \<times> string) list) = []"
    by (rule blocks_eq [OF opened(3) keys_apart(3)]) (use c in simp_all)
  have "map visible_call (lm_ToolCalls m) = map visible_call (lm_ToolCalls n)"
    by (rule map_eq_map [OF conjunct1 [OF c] call_fields_eq])
  moreover have "map id (lm_ToolResults m) = map id (lm_ToolResults n)"
    by (rule map_eq_map [OF conjunct1 [OF r]]) (simp add: result_fields_eq)
  ultimately show ?thesis using parts_eq [OF conjunct1 [OF p]] e t
    by (cases m; cases n) (auto simp: visible_def)
qed

lemma messages_eq:
  assumes "map (message_fields cr) ms = map (message_fields cr) ns"
  shows "map visible ms = map visible ns \<or>
    (\<exists>m \<in> set ms. \<exists>n \<in> set ns. \<exists>p \<in> set (lm_Parts m). \<exists>q \<in> set (lm_Parts n).
       pt_Data p \<noteq> pt_Data q \<and> cr_sha256 cr (pt_Data p) = cr_sha256 cr (pt_Data q))"
  using assms
proof (induction ms arbitrary: ns)
  case (Cons m ms)
  then obtain n ns' where ns: "ns = n # ns'" "message_fields cr m = message_fields cr n"
    "map (message_fields cr) ms = map (message_fields cr) ns'" by (cases ns) auto
  show ?case using Cons.IH [OF ns(3)] message_fields_eq [OF ns(2)] ns(1) by (simp; blast)
qed simp

text \<open>Every key is plain, so the bytes give the fields back.\<close>

lemma plain_keys:
  "list_all plain_key [''protocol'', ''endpoint'', ''upstream_id'', ''upstream_model'', ''platform_model_name'', ''context_config'',
     ''context_state'', ''message_role'', ''message_content'', ''reasoning_content'', ''part_kind'', ''tool_call_id'',
     ''tool_result_id'', ''tool_name'', ''options'', ''part_text'', ''part_mime'', ''part_file'', ''part_data'', ''tool_call_type'',
     ''tool_call_name'', ''tool_call_args'', ''tool_call_status'', ''tool_call_output'', ''tool_call_error'', ''tool_result_name'',
     ''tool_result_output'', ''tool_result_status'', ''tool_result_error'', ''tool_desc'', ''tool_schema'']"
  by code_simp

lemma state_keys: "fst ` set (state_fields cr a) \<subseteq>
    {''protocol'', ''endpoint'', ''upstream_id'', ''upstream_model'', ''platform_model_name'', ''context_config'', ''context_state''}
    \<union> {''options''} \<union> insert ''message_role'' body_keys \<union> insert ''tool_name'' tool_keys"
proof -
  have m: "fst ` set (concat (map (message_fields cr) ms)) \<subseteq> insert ''message_role'' body_keys" for ms
    by (rule block_keys) (rule message_opened)
  have o: "fst ` set (case ps_Options a of None \<Rightarrow> [] | Some payload \<Rightarrow> [(''options'', payload)]) \<subseteq> {''options''}"
    by (cases "ps_Options a") simp_all
  have h: "fst ` set (head_fields a) = {''protocol'', ''endpoint'', ''upstream_id'', ''upstream_model'', ''platform_model_name'',
      ''context_config'', ''context_state''}"
    by (simp only: head_fields_def list.set image_insert image_empty fst_conv)
  have u: "A \<subseteq> H \<Longrightarrow> B \<subseteq> M \<Longrightarrow> C \<subseteq> T \<Longrightarrow> D \<subseteq> P \<Longrightarrow> A \<union> (B \<union> (C \<union> D)) \<subseteq> H \<union> P \<union> M \<union> T"
    for A B C D H M P T :: "string set" by blast
  show ?thesis unfolding state_fields_def set_append image_Un
    by (rule u [OF equalityD1 [OF h] m inner_keys(4) o])
qed

lemma state_keys_plain: "list_all (\<lambda>f. plain_key (fst f)) (state_fields cr a)"
proof -
  have "plain_key k" if "k \<in> fst ` set (state_fields cr a)" for k
    using subsetD [OF state_keys that] plain_keys by (auto simp: key_sets)
  then show ?thesis by (auto simp: list_all_iff)
qed

lemma apart_Un: "A \<subseteq> X \<Longrightarrow> B \<subseteq> {y} \<Longrightarrow> X \<inter> Z = {} \<Longrightarrow> y \<notin> Z \<Longrightarrow> (A \<union> B) \<inter> Z = {}"
  by blast

lemma apart_single: "B \<subseteq> {y} \<Longrightarrow> y \<notin> Z \<Longrightarrow> B \<inter> Z = {}"
  by blast

lemma state_fields_eq:
  assumes "state_fields cr a = state_fields cr b"
  shows "same_prompt a b \<or> (\<exists>m \<in> set (ps_Messages a). \<exists>n \<in> set (ps_Messages b). \<exists>p \<in> set (lm_Parts m). \<exists>q \<in> set (lm_Parts n).
       pt_Data p \<noteq> pt_Data q \<and> cr_sha256 cr (pt_Data p) = cr_sha256 cr (pt_Data q))"
proof -
  define opts where "opts s = (case ps_Options s of None \<Rightarrow> [] | Some payload \<Rightarrow> [(''options'', payload)])" for s :: prompt_state
  define rest where "rest s = concat (map tool_fields (normalized_tool_definitions (ps_Tools s))) @ opts s" for s :: prompt_state
  have opts: "fst ` set (opts s) \<subseteq> {''options''}" for s by (auto simp: opts_def split: option.splits)
  have fields: "state_fields cr s = head_fields s @ concat (map (message_fields cr) (ps_Messages s)) @ rest s" for s
    by (simp only: state_fields_def rest_def opts_def append_assoc)
  have "length (head_fields a) = length (head_fields b)" by (simp add: head_fields_def)
  then have h: "head_fields a = head_fields b"
    and e: "concat (map (message_fields cr) (ps_Messages a)) @ rest a = concat (map (message_fields cr) (ps_Messages b)) @ rest b"
    using assms unfolding fields by (metis append_eq_append_conv)+
  have rk: "fst ` set (rest s) \<inter> insert ''message_role'' body_keys = {}" for s
    unfolding rest_def set_append image_Un
    by (rule apart_Un [OF inner_keys(4) opts keys_apart(10,11)])
  have m: "map (message_fields cr) (ps_Messages a) = map (message_fields cr) (ps_Messages b) \<and> rest a = rest b"
    by (rule blocks_eq [OF message_opened keys_apart(5) rk rk e])
  have ok: "fst ` set (opts s) \<inter> insert ''tool_name'' tool_keys = {}" for s by (rule apart_single [OF opts keys_apart(12)])
  have t: "map tool_fields (normalized_tool_definitions (ps_Tools a)) = map tool_fields (normalized_tool_definitions (ps_Tools b)) \<and>
      opts a = opts b"
    by (rule blocks_eq [OF opened(4) keys_apart(4) ok ok]) (use m in \<open>simp add: rest_def\<close>)
  have "map id (normalized_tool_definitions (ps_Tools a)) = map id (normalized_tool_definitions (ps_Tools b))"
    by (rule map_eq_map [OF conjunct1 [OF t]]) (simp add: tool_fields_eq)
  moreover have "ps_Options a = ps_Options b" using conjunct2 [OF t] by (simp add: opts_def split: option.splits)
  moreover have "ps_Protocol a = ps_Protocol b \<and> ps_Endpoint a = ps_Endpoint b \<and> ps_UpstreamID a = ps_UpstreamID b \<and>
      ps_UpstreamModel a = ps_UpstreamModel b \<and> ps_PlatformModelName a = ps_PlatformModelName b \<and>
      ps_ContextConfig a = ps_ContextConfig b \<and> ps_ContextState a = ps_ContextState b"
    using h by (simp only: head_fields_def list.inject prod.inject simp_thms dec_inj)
  ultimately show ?thesis using messages_eq [OF conjunct1 [OF m]]
    unfolding same_prompt_def list.map_id id_apply by blast
qed

lemma fingerprint_determines_prompt:
  assumes "build_prompt_state_fingerprint cr a = build_prompt_state_fingerprint cr b"
  shows "same_prompt a b \<or> collision cr a b"
proof (cases "state_bytes cr a = state_bytes cr b")
  case True
  then have "state_fields cr a = state_fields cr b"
    using write_fields_eq [OF state_keys_plain state_keys_plain] by (simp add: state_bytes_def)
  then show ?thesis using state_fields_eq [of cr a b] by (auto simp: collision_def hashed_def)
next
  case False
  then show ?thesis using assms
    by (auto simp: collision_def hashed_def build_prompt_state_fingerprint_def hex_encode_inj)
qed

section \<open>Continuing a kept response\<close>

text \<open>What the code relies on: a SHA-256 has 32 bytes.\<close>

definition sha256_ok :: "crypto \<Rightarrow> bool" where
  "sha256_ok cr \<longleftrightarrow> (\<forall>s. length (cr_sha256 cr s) = 32)"

lemma trim_fingerprint [simp]:
  "trim_space (build_prompt_state_fingerprint cr a) = build_prompt_state_fingerprint cr a"
  by (simp add: build_prompt_state_fingerprint_def)

lemma fingerprint_present: "sha256_ok cr \<Longrightarrow> build_prompt_state_fingerprint cr a \<noteq> []"
  by (metis build_prompt_state_fingerprint_def hex_encode_eq_Nil list.size(3) sha256_ok_def zero_neq_numeral)

text \<open>The last message of the user.\<close>

lemma last_user_snoc:
  "last_user_index (ms @ [m]) = (if lm_Role m = ''user'' then Some (length ms) else last_user_index ms)"
proof -
  have "filter (\<lambda>i. lm_Role ((ms @ [m]) ! i) = ''user'') (rev [0..<length ms]) = filter (\<lambda>i. lm_Role (ms ! i) = ''user'') (rev [0..<length ms])"
    by (rule filter_cong) (auto simp: nth_append)
  then show ?thesis by (simp add: last_user_index_def)
qed

lemma last_user_split:
  "last_user_index ms = Some i \<Longrightarrow> i < length ms \<and> lm_Role (ms ! i) = ''user'' \<and> (\<forall>x \<in> set (drop (Suc i) ms). lm_Role x \<noteq> ''user'')"
proof (induction ms rule: rev_induct)
  case (snoc m ms)
  then show ?case by (cases "lm_Role m = ''user''") (auto simp: last_user_snoc nth_append)
qed (simp add: last_user_index_def)

lemma stateful_messages_snoc:
  "build_stateful_response_messages (ms @ [m]) = (if lm_Role m = ''user'' then [m] else build_stateful_response_messages ms)"
  by (simp add: build_stateful_response_messages_def)

lemma stateful_messages_filter:
  "build_stateful_response_messages ms = (case filter (\<lambda>m. lm_Role m = ''user'') ms of [] \<Rightarrow> [] | us \<Rightarrow> [last us])"
  by (induction ms rule: rev_induct)
     (auto simp: stateful_messages_snoc build_stateful_response_messages_def split: list.splits)

lemma stateful_messages_index:
  "build_stateful_response_messages ms = (case last_user_index ms of None \<Rightarrow> [] | Some i \<Rightarrow> [ms ! i])"
proof (induction ms rule: rev_induct)
  case Nil
  then show ?case by (simp add: build_stateful_response_messages_def last_user_index_def)
next
  case (snoc m ms)
  then show ?case
    by (auto simp: stateful_messages_snoc last_user_snoc nth_append dest: last_user_split split: option.splits)
qed

text \<open>Moving the system messages to the instructions keeps the others.\<close>

lemma instruction_foldl:
  "filter P (snd (foldl instruction_step (b, r) ms)) = filter P r @ filter P ms"
  if "\<And>m. P m \<Longrightarrow> lm_Role m \<noteq> ''system''"
  using that by (induction ms arbitrary: b r) (auto simp: Let_def)

lemma instructions_keep:
  assumes "\<And>m. P m \<Longrightarrow> lm_Role m \<noteq> ''system''"
  shows "filter P (gi_Messages (apply_openai_responses_instructions h e route ep input)) = filter P (gi_Messages input)"
  using instruction_foldl [of P "[]" "[]" "gi_Messages input"] assms
  by (auto simp: apply_openai_responses_instructions_def extract_openai_responses_instructions_def split: prod.splits if_splits)

lemma instructions_keep_response:
  "gi_PreviousResponseID (apply_openai_responses_instructions h e route ep input) = gi_PreviousResponseID input"
  by (auto simp: apply_openai_responses_instructions_def split: prod.splits)

lemma eligible_endpoint:
  "supports_previous_response_id_route h (Some route) \<Longrightarrow> turn_endpoint route = ''responses''"
  by (simp add: supports_previous_response_id_route_def supports_previous_response_id_def turn_endpoint_def
    default_endpoint_for_adapter_def)

lemma decision_cases:
  "sd_PreviousResponseID (stateful_turn_decision cr h e route br c input) \<noteq> [] \<longleftrightarrow>
     \<not> e \<and> normalize_branch_reason br = ''default'' \<and> supports_previous_response_id_route h (Some route) \<and>
     trim_space (c_LastResponseID c) \<noteq> [] \<and> trim_space (c_LastPromptFingerprint c) \<noteq> [] \<and>
     trim_space (c_LastPromptFingerprint c) =
       build_prompt_state_fingerprint cr (input\<lparr>ps_Messages := prompt_state_prefix_messages (ps_Messages input)\<rparr>)"
  "sd_PreviousResponseID (stateful_turn_decision cr h e route br c input) \<noteq> [] \<Longrightarrow>
     sd_PreviousResponseID (stateful_turn_decision cr h e route br c input) = trim_space (c_LastResponseID c)"
proof -
  have r: "equal_fold (trim_space (normalize_branch_reason br)) ''default'' \<longleftrightarrow> normalize_branch_reason br = ''default''"
  proof -
    have "normalize_branch_reason br \<in> {''retry'', ''edit'', ''default''}" by (simp add: normalize_branch_reason_def Let_def)
    moreover have "equal_fold (trim_space ''retry'') ''default'' = False" "equal_fold (trim_space ''edit'') ''default'' = False"
      "equal_fold (trim_space ''default'') ''default''" by code_simp+
    ultimately show ?thesis by auto
  qed
  show "sd_PreviousResponseID (stateful_turn_decision cr h e route br c input) \<noteq> [] \<longleftrightarrow>
     \<not> e \<and> normalize_branch_reason br = ''default'' \<and> supports_previous_response_id_route h (Some route) \<and>
     trim_space (c_LastResponseID c) \<noteq> [] \<and> trim_space (c_LastPromptFingerprint c) \<noteq> [] \<and>
     trim_space (c_LastPromptFingerprint c) =
       build_prompt_state_fingerprint cr (input\<lparr>ps_Messages := prompt_state_prefix_messages (ps_Messages input)\<rparr>)"
    by (auto simp: stateful_turn_decision_def resolve_stateful_previous_response_id_def resolve_previous_response_id_def
      disabled_def Let_def r)
  show "sd_PreviousResponseID (stateful_turn_decision cr h e route br c input) \<noteq> [] \<Longrightarrow>
     sd_PreviousResponseID (stateful_turn_decision cr h e route br c input) = trim_space (c_LastResponseID c)"
    by (auto simp: stateful_turn_decision_def resolve_stateful_previous_response_id_def resolve_previous_response_id_def
      disabled_def Let_def split: if_splits)
qed

lemma kept_conversation:
  assumes "normalize_branch_reason br = ''default''" "trim_space responseID \<noteq> []" "sha256_ok cr"
    and "c \<in> set (cd_conversations (keep_stateful_response cr i br input False content0 assistantText reasoning responseID db))"
    and "c_ID c = i" "c_DeletedAt c = None"
  shows "c_LastResponseID c = trim_space responseID \<and> c_LastPromptFingerprint c = build_prompt_state_fingerprint cr
     (input\<lparr>ps_Messages := build_next_stateful_prefix_messages (ps_Messages input) content0 assistantText reasoning\<rparr>)"
proof -
  obtain c' where c': "c' \<in> set (cd_conversations db)" "c = (if c_ID c' = i \<and> c_DeletedAt c' = None
      then c'\<lparr>c_LastResponseID := trim_space responseID, c_LastPromptFingerprint := build_prompt_state_fingerprint cr
        (input\<lparr>ps_Messages := build_next_stateful_prefix_messages (ps_Messages input) content0 assistantText reasoning\<rparr>)\<rparr> else c')"
    using assms(1-4) fingerprint_present [of cr]
    by (auto simp: keep_defs Let_def)
  then show ?thesis using assms(5,6) by (auto split: if_splits)
qed

lemma fields_visible: "visible m = visible n \<Longrightarrow> message_fields cr m = message_fields cr n"
proof -
  have p: "part_fields cr p = part_fields cr (visible_part p)" for p by (simp add: part_fields_def visible_part_def)
  have c: "call_fields c = call_fields (visible_call c)" for c by (simp add: call_fields_def visible_call_def)
  have "part_fields cr \<circ> visible_part = part_fields cr" "call_fields \<circ> visible_call = call_fields"
    using p c by (simp_all add: fun_eq_iff)
  then have "message_fields cr m = message_fields cr (visible m)" for m
    by (simp add: message_fields_def visible_def)
  then show "visible m = visible n \<Longrightarrow> message_fields cr m = message_fields cr n" by metis
qed

lemma fingerprint_visible:
  assumes "map visible ms = map visible ns"
  shows "build_prompt_state_fingerprint cr (input\<lparr>ps_Messages := ms\<rparr>) = build_prompt_state_fingerprint cr (input\<lparr>ps_Messages := ns\<rparr>)"
proof -
  have "map (message_fields cr) ms = map (message_fields cr) ns"
    by (rule map_eq_map [OF assms fields_visible])
  then show ?thesis
    by (simp add: build_prompt_state_fingerprint_def state_bytes_def state_fields_def head_fields_def)
qed

lemma continued:
  assumes "sha256_ok cr" "supports_previous_response_id_route hostname (Some route)"
    and "normalize_branch_reason br = ''default''" "normalize_branch_reason br' = ''default''" "trim_space responseID \<noteq> []"
    and "c \<in> set (cd_conversations (keep_stateful_response cr i br input False content0 assistantText reasoning responseID db))"
    and "c_ID c = i" "c_DeletedAt c = None"
    and "ps_Messages input = history @ [sent]" "lm_Role sent = ''user''" "\<forall>p \<in> set (lm_Parts sent). pt_Kind p \<noteq> ''image''"
    and "map visible before = map visible (history @ [blank_llm_message\<lparr>lm_Role := ''user'', lm_Content := content0\<rparr>,
      blank_llm_message\<lparr>lm_Role := ''assistant'', lm_Content := assistantText, lm_ReasoningContent := reasoning\<rparr>])"
    and "lm_Role m = ''user''"
  shows "stateful_turn_request cr hostname False route br' c (input\<lparr>ps_Messages := before @ [m]\<rparr>) =
    ((apply_openai_responses_instructions hostname False (Some route) (turn_endpoint route)
        \<lparr>gi_Messages = before @ [m], gi_Instructions = [], gi_PreviousResponseID = []\<rparr>)
       \<lparr>gi_Messages := [m], gi_PreviousResponseID := trim_space responseID\<rparr>, True)"
proof -
  let ?p = "build_next_stateful_prefix_messages (ps_Messages input) content0 assistantText reasoning"
  let ?g = "apply_openai_responses_instructions hostname False (Some route) (turn_endpoint route)
        \<lparr>gi_Messages = before @ [m], gi_Instructions = [], gi_PreviousResponseID = []\<rparr>"
  have images: "filter (\<lambda>p. pt_Kind p = ''image'' \<and> 0 < length (pt_Data p)) (lm_Parts sent) = []"
    using assms(11) by (auto simp: filter_empty_conv)
  then have "?p = history @ [blank_llm_message\<lparr>lm_Role := ''user'', lm_Content := content0\<rparr>,
      blank_llm_message\<lparr>lm_Role := ''assistant'', lm_Content := assistantText, lm_ReasoningContent := reasoning\<rparr>]"
    using assms(9,10) by (simp add: build_next_stateful_prefix_messages_def last_user_snoc stable_user_message_def Let_def
      append_assistant_state_message_def)
  then have p: "build_prompt_state_fingerprint cr (input\<lparr>ps_Messages := prompt_state_prefix_messages (before @ [m])\<rparr>) =
      build_prompt_state_fingerprint cr (input\<lparr>ps_Messages := ?p\<rparr>)"
    using assms(12,13) by (intro fingerprint_visible) (simp add: prompt_state_prefix_messages_def last_user_snoc)
  note c = kept_conversation [OF assms(3,5,1,6-8)]
  have d: "sd_PreviousResponseID (stateful_turn_decision cr hostname False route br' c (input\<lparr>ps_Messages := before @ [m]\<rparr>)) \<noteq> []"
    using assms(2,4,5) c fingerprint_present [OF assms(1)] by (simp add: decision_cases(1) p)
  have "build_stateful_response_messages (gi_Messages ?g) = build_stateful_response_messages (before @ [m])"
    using instructions_keep [of "\<lambda>m. lm_Role m = ''user''"] by (simp add: stateful_messages_filter)
  then have u: "build_stateful_response_messages (gi_Messages ?g) = [m]"
    using assms(13) by (simp add: stateful_messages_snoc)
  have "map lm_Role before = map lm_Role history @ [''user'', ''assistant'']"
  proof -
    have "map lm_Role xs = map lm_Role (map visible xs)" for xs by (simp add: visible_def)
    then have "map lm_Role before = map lm_Role (map visible before)" .
    then show ?thesis unfolding assms(12) by (simp add: visible_def)
  qed
  then obtain old q a where before: "before = old @ [q, a]" "lm_Role q = ''user''" "lm_Role a = ''assistant''"
    by (auto simp: map_eq_append_conv map_eq_Cons_conv)
  have "length (filter (\<lambda>x. lm_Role x \<noteq> ''system'') (gi_Messages ?g)) \<ge> 2"
    using instructions_keep [of "\<lambda>x. lm_Role x \<noteq> ''system''"] before by simp
  then have l: "length (gi_Messages ?g) \<ge> 2"
    using length_filter_le [of "\<lambda>x. lm_Role x \<noteq> ''system''" "gi_Messages ?g"] by linarith
  show ?thesis
    using d u l eligible_endpoint [OF assms(2)] decision_cases(2) [OF d] c
    by (simp add: stateful_turn_request_def apply_stateful_response_continuation_def Let_def)
qed

text \<open>The prompt a finished turn records, spelled out.\<close>

lemma last_user_middle:
  "lm_Role u = ''user'' \<Longrightarrow> \<forall>x \<in> set tail. lm_Role x \<noteq> ''user'' \<Longrightarrow> last_user_index (h @ u # tail) = Some (length h)"
proof (induction tail rule: rev_induct)
  case Nil
  then show ?case by (simp add: last_user_snoc)
next
  case (snoc x xs)
  then show ?case using last_user_snoc [of "h @ u # xs" x] by simp
qed

lemma kept_fields:
  assumes "kept_response cr prev trimmed content0 answer reasoning responseID = (keptID, keptFingerprint)"
    and "ps_Messages prev = history @ sent # tail" "lm_Role sent = ''user''" "\<forall>x \<in> set tail. lm_Role x \<noteq> ''user''"
  shows "if trimmed then keptID = [] \<and> keptFingerprint = [] else keptID = responseID \<and> keptFingerprint =
    build_prompt_state_fingerprint cr (prev\<lparr>ps_Messages := history @ [stable_user_message content0 sent,
      blank_llm_message\<lparr>lm_Role := ''assistant'', lm_Content := answer, lm_ReasoningContent := reasoning\<rparr>]\<rparr>)"
  using assms(1) unfolding kept_response_def Let_def assms(2) build_next_stateful_prefix_messages_def
    last_user_middle [OF assms(3,4)] by (auto simp: append_assistant_state_message_def split: if_splits)

text \<open>
  C13: A turn continues a kept response only on the default branch of an eligible route, and only when what
  precedes its new message is what the turn \<open>prev\<close> that left the response recorded: the same history before
  the message of its user, that message as the database keeps it (its text and its images), and the answer,
  under the same model, tools and options, unless SHA-256 collides. This is the recorded conversation: what
  \<open>prev\<close> showed the upstream besides (the text of files or passages retrieved, added to \<open>sent\<close>) is left out,
  and so are cache marks and thought signatures. What the turn sends is its new message, and a turn whose
  tool results were trimmed is never continued.
\<close>

theorem continuation_is_sound:
  assumes "stateful_turn_request cr hostname explicitCache route branchReason c input = (request, True)"
    and "kept_response cr prev trimmed content0 answer reasoning responseID = (keptID, keptFingerprint)"
    and "c_LastResponseID c = trim_space keptID" "c_LastPromptFingerprint c = trim_space keptFingerprint"
    and "ps_Messages prev = history @ sent # tail" "lm_Role sent = ''user''" "\<forall>x \<in> set tail. lm_Role x \<noteq> ''user''"
    and "images = filter (\<lambda>p. pt_Kind p = ''image'' \<and> pt_Data p \<noteq> []) (lm_Parts sent)"
    and "asked = (if images = [] then blank_llm_message\<lparr>lm_Role := ''user'', lm_Content := content0\<rparr>
      else blank_llm_message\<lparr>lm_Role := ''user'', lm_Parts :=
        (if trim_space content0 = [] then [] else [\<lparr>pt_Kind = ''text'', pt_Text = content0, pt_MimeType = [], pt_Data = [],
           pt_FileName = [], pt_CacheControl = None\<rparr>]) @ images\<rparr>)"
    and "answered = blank_llm_message\<lparr>lm_Role := ''assistant'', lm_Content := answer, lm_ReasoningContent := reasoning\<rparr>"
  shows "\<exists>before m rest. normalize_branch_reason branchReason = ''default'' \<and> \<not> explicitCache \<and> \<not> trimmed \<and>
    supports_previous_response_id_route hostname (Some route) \<and>
    gi_PreviousResponseID request = trim_space responseID \<and> gi_PreviousResponseID request \<noteq> [] \<and>
    gi_Messages request = [m] \<and> lm_Role m = ''user'' \<and> ps_Messages input = before @ m # rest \<and>
    (\<forall>x \<in> set rest. lm_Role x \<noteq> ''user'') \<and>
    (same_prompt (prev\<lparr>ps_Messages := history @ [asked, answered]\<rparr>) (input\<lparr>ps_Messages := before\<rparr>) \<or>
     collision cr (prev\<lparr>ps_Messages := history @ [asked, answered]\<rparr>) (input\<lparr>ps_Messages := before\<rparr>))"
proof -
  let ?d = "stateful_turn_decision cr hostname explicitCache route branchReason c input"
  let ?full = "\<lparr>gi_Messages = ps_Messages input, gi_Instructions = [], gi_PreviousResponseID = []\<rparr>"
  let ?g = "apply_openai_responses_instructions hostname explicitCache (Some route) (turn_endpoint route) ?full"
  let ?before = "prompt_state_prefix_messages (ps_Messages input)"
  have d: "sd_PreviousResponseID ?d \<noteq> []"
    and g: "build_stateful_response_messages (gi_Messages ?g) \<noteq> []"
    and request: "gi_Messages request = build_stateful_response_messages (gi_Messages ?g)"
      "gi_PreviousResponseID request = sd_PreviousResponseID ?d"
    using assms(1) by (auto simp: stateful_turn_request_def apply_stateful_response_continuation_def Let_def split: if_splits)
  have "build_stateful_response_messages (gi_Messages ?g) = build_stateful_response_messages (ps_Messages input)"
    using instructions_keep [of "\<lambda>m. lm_Role m = ''user''"] by (simp add: stateful_messages_filter)
  then obtain i where i: "last_user_index (ps_Messages input) = Some i" "gi_Messages request = [ps_Messages input ! i]"
    using g request(1) by (auto simp: stateful_messages_index split: option.splits)
  have m: "lm_Role (ps_Messages input ! i) = ''user''" "\<forall>x \<in> set (drop (Suc i) (ps_Messages input)). lm_Role x \<noteq> ''user''"
    "ps_Messages input = ?before @ ps_Messages input ! i # drop (Suc i) (ps_Messages input)"
    using last_user_split [OF i(1)] i by (simp_all add: prompt_state_prefix_messages_def id_take_nth_drop [symmetric])
  note ok = decision_cases(1) [THEN iffD1, OF d]
  have asked: "stable_user_message content0 sent = asked"
    by (simp add: stable_user_message_def assms(8,9) Let_def)
  have kept: "\<not> trimmed" "keptID = responseID" "keptFingerprint =
      build_prompt_state_fingerprint cr (prev\<lparr>ps_Messages := history @ [asked, answered]\<rparr>)"
    using kept_fields [OF assms(2,5-7), folded assms(10), unfolded asked] ok assms(3) by (simp_all split: if_splits)
  then have "build_prompt_state_fingerprint cr (prev\<lparr>ps_Messages := history @ [asked, answered]\<rparr>) =
      build_prompt_state_fingerprint cr (input\<lparr>ps_Messages := ?before\<rparr>)"
    using ok assms(4) by simp
  note same = fingerprint_determines_prompt [OF this]
  have id: "gi_PreviousResponseID request = trim_space responseID" "gi_PreviousResponseID request \<noteq> []"
    using request(2) decision_cases(2) [OF d] d kept(2) assms(3) by simp_all
  show ?thesis
    by (intro exI conjI) (use ok kept(1) id i(2) m same in blast)+
qed

text \<open>
  C14: The response a finished turn keeps is continued by the next turn, when its prompt is the one of the
  finished turn with the text of the user as the database keeps it (without images), the answer and a new
  message, up to what the fingerprint leaves out: only the new message is sent.
\<close>

theorem kept_response_is_continued:
  assumes "sha256_ok cr" "supports_previous_response_id_route hostname (Some route)"
    and "normalize_branch_reason br = ''default''" "normalize_branch_reason br' = ''default''" "trim_space responseID \<noteq> []"
    and "c \<in> set (cd_conversations (keep_stateful_response cr i br input False content0 assistantText reasoning responseID db))"
    and "c_ID c = i" "c_DeletedAt c = None"
    and "ps_Messages input = history @ [sent]" "lm_Role sent = ''user''" "\<forall>p \<in> set (lm_Parts sent). pt_Kind p \<noteq> ''image''"
    and "map visible before = map visible (history @ [blank_llm_message\<lparr>lm_Role := ''user'', lm_Content := content0\<rparr>,
      blank_llm_message\<lparr>lm_Role := ''assistant'', lm_Content := assistantText, lm_ReasoningContent := reasoning\<rparr>])"
    and "lm_Role m = ''user''"
  shows "stateful_turn_request cr hostname False route br' c (input\<lparr>ps_Messages := before @ [m]\<rparr>) =
    ((apply_openai_responses_instructions hostname False (Some route) (turn_endpoint route)
        \<lparr>gi_Messages = before @ [m], gi_Instructions = [], gi_PreviousResponseID = []\<rparr>)
       \<lparr>gi_Messages := [m], gi_PreviousResponseID := trim_space responseID\<rparr>, True)"
  using assms by (rule continued)

section \<open>A sample turn\<close>

definition sample_sha :: crypto where
  "sample_sha = \<lparr>cr_sha256 = (\<lambda>s. take 32 (s @ replicate 32 (CHR 0x00))), cr_hmac = (\<lambda>_ _. []),
     cr_seal = (\<lambda>_ _ p. p), cr_open = (\<lambda>_ _ p. Some p)\<rparr>"

definition sample_official_route :: resolved_route where
  "sample_official_route = \<lparr>rd_RouteID = 1, rd_PlatformModelID = 1, rd_PlatformModelName = ''m'', rd_UpstreamModelID = 1,
     rd_UpstreamID = 1, rd_UpstreamName = [], rd_BindingCode = [], rd_Protocol = ''openai_responses'',
     rd_BaseURL = ''https://api.openai.com'', rd_APIKey = [], rd_ConnectTimeoutMS = 0, rd_ReadTimeoutMS = 0,
     rd_StreamIdleTimeoutMS = 0, rd_HeadersJSON = [], rd_ModelVendor = [], rd_ModelIcon = [], rd_ModelCapabilitiesJSON = [],
     rd_ModelSystemPrompt = [], rd_UpstreamModel = ''m'', rd_ReasoningContentPassback = False,
     rd_ReasoningPassbackRequestOptions = [], rd_UpstreamCbFailureThreshold = 0, rd_UpstreamCbModelThreshold = 0,
     rd_UpstreamCbThresholdLogic = [], rd_UpstreamCbDurationMin = 0, rd_UpstreamCbWindowMin = 0,
     rd_PlatformModelCbPolicyMode = [], rd_PlatformModelCbFailureThreshold = 0, rd_PlatformModelCbDurationMin = 0,
     rd_PlatformModelCbWindowMin = 0, rd_ModelCbFailureThreshold = 0, rd_ModelCbDurationMin = 0, rd_ModelCbWindowMin = 0,
     rd_UpstreamProbeGranted = False, rd_ModelProbeGranted = False\<rparr>"

definition sample_hostname :: "string \<Rightarrow> string option" where
  "sample_hostname url = (if url = ''https://api.openai.com'' then Some ''api.openai.com'' else None)"

definition sample_question :: llm_message where
  "sample_question = blank_llm_message\<lparr>lm_Role := ''user'', lm_Content := ''and then''\<rparr>"

definition sample_prompt :: prompt_state where
  "sample_prompt = \<lparr>ps_Protocol = ''openai_responses'', ps_Endpoint = ''responses'', ps_UpstreamID = 1, ps_UpstreamModel = ''m'',
     ps_PlatformModelName = ''m'', ps_ContextConfig = [], ps_ContextState = [],
     ps_Messages = [blank_llm_message\<lparr>lm_Role := ''system'', lm_Content := ''be brief''\<rparr>, sample_question],
     ps_Tools = [], ps_Options = None\<rparr>"

definition sample_kept :: prompt_state where
  "sample_kept = sample_prompt\<lparr>ps_Messages :=
     build_next_stateful_prefix_messages (ps_Messages sample_prompt) ''hi'' ''hello'' []\<rparr>"

definition sample_continued :: conversation where
  "sample_continued = sample_conversation\<lparr>c_LastResponseID := ''resp_1'',
     c_LastPromptFingerprint := build_prompt_state_fingerprint sample_sha sample_kept\<rparr>"

lemma sample_sha256: "sha256_ok sample_sha"
  by (auto simp: sha256_ok_def sample_sha_def min_def)

lemma sample_route_eligible: "supports_previous_response_id_route sample_hostname (Some sample_official_route)"
  by (simp add: supports_previous_response_id_route_def sample_official_route_def supports_previous_response_id_def
    is_official_openai_base_url_def sample_hostname_def) code_simp

lemma sample_reason: "normalize_branch_reason [] = ''default''" "trim_space ''resp_1'' = ''resp_1''"
  by code_simp+

lemma sample_keeps:
  "sample_continued \<in> set (cd_conversations (keep_stateful_response sample_sha 1 [] sample_prompt False ''hi'' ''hello'' [] ''resp_1'' sample_chat))"
  using fingerprint_present [OF sample_sha256]
  by (simp add: keep_defs sample_reason sample_chat_def sample_conversation_def sample_continued_def sample_kept_def)

lemmas sample_facts = sample_sha256 sample_route_eligible sample_reason(1) sample_reason(1)

lemma sample_histories:
  "ps_Messages sample_prompt = [blank_llm_message\<lparr>lm_Role := ''system'', lm_Content := ''be brief''\<rparr>] @ [sample_question]"
  "lm_Role sample_question = ''user''" "\<forall>p \<in> set (lm_Parts sample_question). pt_Kind p \<noteq> ''image''"
  "map visible (ps_Messages sample_kept) = map visible ([blank_llm_message\<lparr>lm_Role := ''system'', lm_Content := ''be brief''\<rparr>] @
     [blank_llm_message\<lparr>lm_Role := ''user'', lm_Content := ''hi''\<rparr>,
      blank_llm_message\<lparr>lm_Role := ''assistant'', lm_Content := ''hello'', lm_ReasoningContent := []\<rparr>])"
  "trim_space ''resp_1'' \<noteq> []" "c_ID sample_continued = 1" "c_DeletedAt sample_continued = None"
  by (simp_all add: sample_prompt_def sample_question_def blank_llm_message_def sample_kept_def build_next_stateful_prefix_messages_def
    last_user_index_def stable_user_message_def append_assistant_state_message_def sample_reason sample_continued_def
    sample_conversation_def)

lemmas sample_turn_facts = sample_facts sample_histories(5) sample_keeps sample_histories(6,7,1-4,2)

lemma kept_response_is_continued_witness:
  "gi_Messages (fst (stateful_turn_request sample_sha sample_hostname False sample_official_route [] sample_continued
     (sample_prompt\<lparr>ps_Messages := ps_Messages sample_kept @ [sample_question]\<rparr>))) = [sample_question]"
  using kept_response_is_continued [OF sample_turn_facts] by simp

lemma continuation_is_sound_witness:
  "\<exists>request. stateful_turn_request sample_sha sample_hostname False sample_official_route [] sample_continued
     (sample_prompt\<lparr>ps_Messages := ps_Messages sample_kept @ [sample_question]\<rparr>) = (request, True) \<and>
     gi_PreviousResponseID request = ''resp_1''"
proof -
  obtain request where request: "stateful_turn_request sample_sha sample_hostname False sample_official_route [] sample_continued
     (sample_prompt\<lparr>ps_Messages := ps_Messages sample_kept @ [sample_question]\<rparr>) = (request, True)"
    using continued [OF sample_turn_facts] by blast
  have kept: "kept_response sample_sha sample_prompt False ''hi'' ''hello'' [] ''resp_1'' =
      (''resp_1'', build_prompt_state_fingerprint sample_sha sample_kept)"
    by (simp add: kept_response_def sample_kept_def)
  have stored: "c_LastResponseID sample_continued = trim_space ''resp_1''"
    "c_LastPromptFingerprint sample_continued = trim_space (build_prompt_state_fingerprint sample_sha sample_kept)"
    by (simp_all add: sample_continued_def sample_reason)
  have messages: "ps_Messages sample_prompt = [blank_llm_message\<lparr>lm_Role := ''system'', lm_Content := ''be brief''\<rparr>] @ sample_question # []"
    "\<forall>x \<in> set []. lm_Role x \<noteq> ''user''"
    using sample_histories(1) by simp_all
  from continuation_is_sound [OF request kept stored messages(1) sample_histories(2) messages(2) refl refl refl]
  have "gi_PreviousResponseID request = trim_space ''resp_1''" by blast
  then show ?thesis using request by (simp add: sample_reason)
qed

end
