(* ===== verification/Spec2Isabelle.thy ===== *)
theory Spec2Isabelle
  imports Routing Pricing Gen_Stream File_Queue Key_Value Billing_Flow Stateful_Responses
begin

text \<open>
  \<^bold>\<open>A verification development of the DEEIX Chat backend.\<close>

  DEEIX Chat is a chat server in Go. A turn of a conversation goes through most of it: the service reads
  the branch the message is sent on, authorises the call against the budget of the account, resolves a
  route to an upstream, sends the prompt or only what the upstream has not seen, streams the answer to
  readers that may reconnect, writes both messages and settles the charge. Paths below are relative to
  \<^verbatim>\<open>src/backend/internal\<close>. Definitions carry the names of the code in lower case with underscores; the
  fields of a record carry a short prefix.

  \<^bold>\<open>How the code is read.\<close>

  \<^item> Go values (\<^verbatim>\<open>Go_Prelude\<close>, \<^verbatim>\<open>Go_Text\<close>, \<^verbatim>\<open>Go_Calendar\<close>): strings are lists of bytes, \<^verbatim>\<open>int64\<close> is an
    integer with \<open>wrap64\<close> where a computation can leave the range, \<^verbatim>\<open>time.Time\<close> counts nanoseconds from
    Go's zero time, and \<^verbatim>\<open>strings\<close>, \<^verbatim>\<open>strconv\<close> and calendar functions are defined as far as the code
    uses them.
  \<^item> Errors are values: an operation returns an error or a result, and the state it leaves.
  \<^item> The database (\<^verbatim>\<open>Repo_Tx\<close>): one record of tables per component. An operation inside
    \<^verbatim>\<open>db.Transaction\<close> is a function of the state whose error undoes its writes; a transaction is one
    step, as the row locks of the code make it. Queries are functions of the tables.
  \<^item> A handler whose parts other requests can come between is modelled in those parts: a turn first
    resolves its branch (\<open>prepare_message_send_branch\<close>) and writes its messages later
    (\<open>create_message_pair\<close>); the rule \<open>Begin_Late\<close> of \<open>chat_step\<close> admits other operations between the two,
    and \<open>billing_step\<close> has one rule for every write, so runs interleave them in any order.
  \<^item> The clock, drawn identifiers and random numbers are arguments. Code that is not here (AES-GCM,
    SHA-256 and HMAC, JSON, URL parsing, floating point, the upstream model) is a parameter; what is
    relied on is a named hypothesis (\<open>crypto_ok\<close>, \<open>sha256_ok\<close>, \<open>fresh_ids\<close>) with a sample that has it.

  \<^bold>\<open>The in-memory cache\<close> (\<^verbatim>\<open>infra/cache/memory\<close>). \<^verbatim>\<open>Memory_Cache\<close> has the state and the sweep of
  \<^verbatim>\<open>maintenance.go\<close>, with the locale \<open>swept_store\<close> that says a sweep is not visible to readers. The
  components on it: \<^verbatim>\<open>Circuit_Breaker\<close> (\<^verbatim>\<open>channel.go\<close>: closed, open and half-open circuits with exclusive
  probes), \<^verbatim>\<open>Rate_Limit\<close> (\<^verbatim>\<open>rate_limiter.go\<close>, \<^verbatim>\<open>transport/http/middleware/ratelimit.go\<close>, route backoff),
  \<^verbatim>\<open>Gen_Stream\<close> (\<^verbatim>\<open>generation_stream.go\<close>), \<^verbatim>\<open>File_Queue\<close> (\<^verbatim>\<open>file_queue.go\<close>) and \<^verbatim>\<open>Key_Value\<close>
  (\<^verbatim>\<open>settings.go\<close>, \<^verbatim>\<open>rag.go\<close>, \<^verbatim>\<open>user_settings.go\<close>, \<^verbatim>\<open>provider_auth_bridge.go\<close>). The limiter and the stream
  refine a log that forgets nothing; the queue loses and doubles no task in any run. A blocking read is
  the sequence of its attempts.

  \<^bold>\<open>Channel routing\<close> (\<^verbatim>\<open>application/channel\<close>, \<^verbatim>\<open>ports/llm\<close>). \<^verbatim>\<open>Route_Model\<close> is the pure part, \<^verbatim>\<open>Routing\<close>
  the resolution with its effects on the circuits: a resolved route is eligible, no path leaks a probe,
  and marking the outcome gives the probes back.

  \<^bold>\<open>Billing\<close> (\<^verbatim>\<open>application/billing\<close>, \<^verbatim>\<open>infra/persistence/postgres/billing\<close>, \<^verbatim>\<open>domain/billing\<close>).
  \<^item> \<^verbatim>\<open>Pricing\<close>: the charge of a call, exact within stated bounds.
  \<^item> \<^verbatim>\<open>Billing_Store\<close>, \<^verbatim>\<open>Usage_Settlement\<close>: the tables; reservations stay within the budget, settlements
    charge the billed amount once.
  \<^item> \<^verbatim>\<open>Timeline\<close>, \<^verbatim>\<open>Subscriptions\<close>: the timeline of a user is rebuilt by every grant. Its loops have
    termination measures; time is conserved, as instances of the locale \<open>segment_measure\<close>, and carried
    over to the rows by \<open>row_view\<close>. A lifetime row has no end and is not on the timeline; it
    can be in force beside a granted one (\<open>grant_beside_lifetime\<close>), two dated rows cannot.
  \<^item> \<^verbatim>\<open>Payments\<close>, \<^verbatim>\<open>Redemptions\<close>, \<^verbatim>\<open>Redemption_Service\<close>, \<^verbatim>\<open>Secret_Box\<close>: orders, codes and their encryption.
  \<^item> \<^verbatim>\<open>Billing_Service\<close>, \<^verbatim>\<open>Billing_Runs\<close>, \<^verbatim>\<open>Billing_Flow\<close>: the service over the repository; the invariants
    in all runs of repository operations, every service operation as such a run, and what follows across
    operations, first that an authorised call can be charged.

  \<^bold>\<open>Conversations\<close> (\<^verbatim>\<open>application/conversation\<close>, \<^verbatim>\<open>application/compact\<close>,
  \<^verbatim>\<open>infra/persistence/postgres/conversation\<close>, \<^verbatim>\<open>domain/channel/model_caps.go\<close>).
  \<^item> \<^verbatim>\<open>Message_Store\<close>, \<^verbatim>\<open>Message_Tree\<close>: the tables and their operations; the invariant \<open>tree_ok\<close> (parents are
    older messages of the conversation, counters agree) and the recursive query of ancestors.
  \<^item> \<^verbatim>\<open>Model_Caps\<close>, \<^verbatim>\<open>Context_Snapshots\<close>: token limits and compaction; a snapshot marks the prefix it
    summarises on every branch that extends it, checked by a rolling hash.
  \<^item> \<^verbatim>\<open>Message_Branch\<close>, \<^verbatim>\<open>Turn_Start\<close>: choosing the branch, reading it in bounded pages (equal to one walk to
    the root), the path of the turn, and the write of its messages.
  \<^item> \<^verbatim>\<open>Conversation_Fork\<close>: \<^verbatim>\<open>service_fork.go\<close> and \<^verbatim>\<open>repository_fork.go\<close>; a fork copies exactly the branch.
  \<^item> \<^verbatim>\<open>Conversation_Runs\<close>: \<^verbatim>\<open>service_conversation.go\<close> and the relation \<open>chat_step\<close> over all writes; in every
    reachable state the messages form trees, and a branch never changes below its last message.
  \<^item> \<^verbatim>\<open>Stateful_Responses\<close>: \<^verbatim>\<open>service_stateful_responses.go\<close>, \<^verbatim>\<open>service_prompt_fingerprint.go\<close>; the
    fingerprint can be read back to the prompt, so a kept response is continued only on the recorded
    conversation of the turn that kept it (or on a collision of SHA-256), and the next turn does continue it.
    What the upstream was shown besides, retrieved passages for one, is not part of the comparison.

  \<^bold>\<open>Bounds.\<close> No model runs on fuel a caller chooses: loops are recursive functions with a measure
  (\<open>read_pages\<close>, a client that pages through a stream, takes a bound that must exceed the number of
  events). The page loop of a branch stops at the root, the snapshot boundary, the limit of messages
  (10000) or the limit of bytes (64 MiB), and \<open>paged_reading_is_exact\<close> says on which branches it gives
  up. A fork copies at most 2000 messages and \<open>fork_complete_or_refused\<close> shows what happens above.
  Charges are shown exact below ten million tokens and 900 dollars a million;
  above, \<open>wrap64\<close> says what the code computes.

  \<^bold>\<open>Not modelled.\<close> The frontend, HTTP handlers, generated API documents and the schema; the adapters in
  \<^verbatim>\<open>infra/llm\<close>, which encode third-party protocols; the loop of \<^verbatim>\<open>service_message_send.go\<close> around the
  upstream (stream events, timers, tools, moderation) beyond the parts named above; prompt assembly and
  process traces; files, documents, embeddings and retrieval; media generation; shares, projects,
  feedback and run tables; users and authentication, which rest on identity providers and password
  hashing; the Redis cache, whose operations are scripts of the server (the in-memory implementation of
  the same interface is modelled); administration of upstreams, models and prices; companion, WeChat,
  check-in, invitation, memory, skill, notification and audit features, which are table updates of
  their own.
\<close>

end
